(* ===== verification/Prelude.thy ===== *)
theory Prelude
  imports Main "HOL-Library.Word" "HOL-Library.State_Monad" "HOL-Library.Multiset"
begin

text \<open>
  Shared vocabulary of the development: the machine types of the C++ code, the status codes of
  the camera HAL, a weakest-precondition calculus for the state monad of \<open>HOL-Library\<close>
  (the handlers of the camera state machine are written in that monad), and the generic lemmas on
  lists that more than one component uses.

  A C pointer is a \<open>nat\<close> with \<open>0\<close> for \<open>NULL\<close>; an \<open>int32_t\<close> is a \<open>32 word\<close>. The
  \<open>status_t\<close> constants come from the platform header \<open>utils/Errors.h\<close>, which is not in the
  repository, so they are constructors and not numbers: all the code does with them is to compare
  them, and every value that has no name in the modelled code is \<open>OTHER_STATUS n\<close>.
\<close>

unbundle bit_operations_syntax

type_synonym int32 = "32 word"
type_synonym ptr = nat

datatype status =
    NO_ERROR
  | INVALID_OPERATION
  | BAD_VALUE
  | UNKNOWN_ERROR
  | NO_MEMORY
  | DEAD_OBJECT
  | OTHER_STATUS int32

text \<open>
  Collections: \<open>wp_rules\<close> holds the equations that compute a weakest precondition,
  \<open>handler_defs\<close> the handler definitions a state's proof unfolds.
\<close>

named_theorems wp_rules
named_theorems handler_defs
named_theorems block_defs

section \<open>Weakest preconditions in the state monad\<close>

abbreviation ret :: "'a \<Rightarrow> ('s, 'a) state" where
  "ret \<equiv> State_Monad.return"

definition gets :: "('s \<Rightarrow> 'a) \<Rightarrow> ('s, 'a) state" where
  "gets f = State (\<lambda>s. (f s, s))"

definition modify :: "('s \<Rightarrow> 's) \<Rightarrow> ('s, unit) state" where
  "modify f = State (\<lambda>s. ((), f s))"

definition skip :: "('s, unit) state" where
  "skip = State_Monad.return ()"

definition wp :: "('s, 'a) state \<Rightarrow> ('a \<Rightarrow> 's \<Rightarrow> bool) \<Rightarrow> 's \<Rightarrow> bool" where
  "wp m Q s = (case run_state m s of (a, s') \<Rightarrow> Q a s')"

lemma run_state_gets [simp]: "run_state (gets f) s = (f s, s)"
  by (simp add: gets_def)

lemma run_state_modify [simp]: "run_state (modify f) s = ((), f s)"
  by (simp add: modify_def)

lemma run_state_skip [simp]: "run_state skip s = ((), s)"
  by (simp add: skip_def)

lemma wp_return [wp_rules]: "wp (ret x) Q s = Q x s"
  by (simp add: wp_def)

lemma wp_bind [wp_rules]: "wp (State_Monad.bind m f) Q s = wp m (\<lambda>a. wp (f a) Q) s"
  by (simp add: wp_def split: prod.splits)

lemma wp_gets [wp_rules]: "wp (gets f) Q s = Q (f s) s"
  by (simp add: wp_def)

lemma wp_modify [wp_rules]: "wp (modify f) Q s = Q () (f s)"
  by (simp add: wp_def)

lemma wp_skip [wp_rules]: "wp skip Q s = Q () s"
  by (simp add: wp_def)

lemma wp_if [wp_rules]: "wp (if b then m else n) Q s = (if b then wp m Q s else wp n Q s)"
  by simp

lemma wp_run: "wp m Q s \<Longrightarrow> run_state m s = (a, s') \<Longrightarrow> Q a s'"
  by (simp add: wp_def)

lemma wp_snd: "wp m (\<lambda>_. P) s = P (snd (run_state m s))"
  by (simp add: wp_def split: prod.splits)

lemma wp_mono: "wp m Q s \<Longrightarrow> (\<And>a s'. Q a s' \<Longrightarrow> R a s') \<Longrightarrow> wp m R s"
  by (simp add: wp_def split: prod.splits)

lemma wp_conj: "wp m (\<lambda>a s. Q a s \<and> R a s) s = (wp m Q s \<and> wp m R s)"
  by (simp add: wp_def split: prod.splits)

section \<open>Lists\<close>

lemma filter_fold_snoc: "filter P (xs @ [x]) = filter P xs @ (if P x then [x] else [])"
  by simp

end
