(* ===== verification/CamQueue.thy ===== *)
theory CamQueue
  imports Prelude
begin

text \<open>
  The thread-safe queue of the camera HAL,
  \<open>hardware/camera/QCamera2/util/QCameraQueue.cpp\<close>. The intrusive circular list
  \<open>m_head.list\<close> is the list of the data pointers of its nodes, from \<open>m_head.list.next\<close> to
  \<open>m_head.list.prev\<close>; a datum is \<open>None\<close> when the stored \<open>void *\<close> is \<open>NULL\<close>. The counter
  \<open>m_size\<close> and the flag \<open>m_active\<close> are kept as the code keeps them, beside the list, so that
  their agreement is an invariant and not a definition. Each operation runs under \<open>m_lock\<close> from its
  first read to its last write and is one atomic step of the model. The result of
  \<open>malloc\<close> is an argument of the operations that allocate.
\<close>

section \<open>State and operations\<close>

record 'a cam_queue =
  q_list :: "'a option list"
  q_size :: int
  q_dataFn :: bool
  q_active :: bool

definition QCameraQueue :: "bool \<Rightarrow> 'a cam_queue" where
  "QCameraQueue dataFn =
     \<lparr>q_list = [], q_size = 0, q_dataFn = dataFn, q_active = True\<rparr>"

definition init :: "'a cam_queue \<Rightarrow> 'a cam_queue" where
  "init q = q\<lparr>q_active := True\<rparr>"

definition isEmpty :: "'a cam_queue \<Rightarrow> bool" where
  "isEmpty q = (if q_size q > 0 then False else True)"

definition enqueue :: "bool \<Rightarrow> 'a option \<Rightarrow> 'a cam_queue \<Rightarrow> bool \<times> 'a cam_queue" where
  "enqueue malloc_ok data q =
     (if \<not> malloc_ok then (False, q)
      else if q_active q
        then (True, q\<lparr>q_list := q_list q @ [data], q_size := q_size q + 1\<rparr>)
        else (False, q))"

definition enqueueWithPriority ::
    "bool \<Rightarrow> 'a option \<Rightarrow> 'a cam_queue \<Rightarrow> bool \<times> 'a cam_queue" where
  "enqueueWithPriority malloc_ok data q =
     (if \<not> malloc_ok then (False, q)
      else if q_active q
        then (True, q\<lparr>q_list := data # q_list q, q_size := q_size q + 1\<rparr>)
        else (False, q))"

definition peek :: "'a cam_queue \<Rightarrow> 'a option" where
  "peek q =
     (if q_active q
      then (case q_list q of [] \<Rightarrow> None | d # _ \<Rightarrow> d)
      else None)"

definition dequeue :: "bool \<Rightarrow> 'a cam_queue \<Rightarrow> 'a option \<times> 'a cam_queue" where
  "dequeue bFromHead q =
     (if q_active q
      then (case q_list q of
              [] \<Rightarrow> (None, q)
            | d # ds \<Rightarrow>
                if bFromHead
                then (d, q\<lparr>q_list := ds, q_size := q_size q - 1\<rparr>)
                else (last (d # ds),
                      q\<lparr>q_list := butlast (d # ds), q_size := q_size q - 1\<rparr>))
      else (None, q))"

text \<open>
  The matching \<open>dequeue\<close> walks the list and takes out the first node whose datum matches.
  \<open>match_data\<close> is \<open>None\<close> for a null pointer, as is \<open>match\<close> for a null function pointer;
  \<open>m_userData\<close>, which the match function also gets, never changes and is part of the function.
\<close>

fun match_out :: "('a option \<Rightarrow> bool) \<Rightarrow> 'a option list \<Rightarrow> ('a option \<times> 'a option list) option"
  where
  "match_out m [] = None"
| "match_out m (d # ds) =
     (if m d then Some (d, ds)
      else (case match_out m ds of
              None \<Rightarrow> None
            | Some (x, rest) \<Rightarrow> Some (x, d # rest)))"

definition dequeue_match ::
    "('m \<Rightarrow> 'a option \<Rightarrow> bool) option \<Rightarrow> 'm option \<Rightarrow> 'a cam_queue
       \<Rightarrow> 'a option \<times> 'a cam_queue" where
  "dequeue_match match match_data q =
     (case (match, match_data) of
        (Some m, Some md) \<Rightarrow>
          if q_active q
          then (case match_out (m md) (q_list q) of
                  None \<Rightarrow> (None, q)
                | Some (d, rest) \<Rightarrow> (d, q\<lparr>q_list := rest, q_size := q_size q - 1\<rparr>))
          else (None, q)
      | _ \<Rightarrow> (None, q))"

text \<open>
  Flushing returns, besides the queue, what left it: the data handed to the release function
  \<open>m_dataFn\<close> (when there is one) and the data freed, in the order of the calls.
\<close>

record 'a flushed =
  released :: "'a list"
  freed :: "'a list"

definition flush_node :: "bool \<Rightarrow> 'a option \<Rightarrow> 'a flushed \<Rightarrow> 'a flushed" where
  "flush_node dataFn d out =
     (case d of
        None \<Rightarrow> out
      | Some x \<Rightarrow>
          out\<lparr>released := (if dataFn then released out @ [x] else released out),
              freed := freed out @ [x]\<rparr>)"

fun flush_loop :: "'a option list \<Rightarrow> 'a cam_queue \<Rightarrow> 'a flushed \<Rightarrow> 'a cam_queue \<times> 'a flushed" where
  "flush_loop [] q out = (q, out)"
| "flush_loop (d # ds) q out =
     flush_loop ds (q\<lparr>q_list := ds, q_size := q_size q - 1\<rparr>) (flush_node (q_dataFn q) d out)"

definition flush :: "'a cam_queue \<Rightarrow> 'a cam_queue \<times> 'a flushed" where
  "flush q =
     (if q_active q
      then (case flush_loop (q_list q) q \<lparr>released = [], freed = []\<rparr> of
              (q', out) \<Rightarrow> (q'\<lparr>q_size := 0, q_active := False\<rparr>, out))
      else (q, \<lparr>released = [], freed = []\<rparr>))"

text \<open>
  \<open>flushNodes\<close> with one and with two arguments differ only in the arguments they pass to the match
  function. The loop keeps the nodes already passed over in \<open>kept\<close>.
\<close>

fun flushNodes_loop ::
    "('a option \<Rightarrow> bool) \<Rightarrow> 'a option list \<Rightarrow> 'a option list \<Rightarrow> 'a cam_queue \<Rightarrow> 'a flushed
       \<Rightarrow> 'a cam_queue \<times> 'a flushed" where
  "flushNodes_loop m kept [] q out = (q, out)"
| "flushNodes_loop m kept (d # ds) q out =
     (if m d
      then flushNodes_loop m kept ds
             (q\<lparr>q_list := kept @ ds, q_size := q_size q - 1\<rparr>) (flush_node (q_dataFn q) d out)
      else flushNodes_loop m (kept @ [d]) ds q out)"

definition flushNodes ::
    "('a option \<Rightarrow> bool) option \<Rightarrow> 'a cam_queue \<Rightarrow> 'a cam_queue \<times> 'a flushed" where
  "flushNodes match q =
     (case match of
        None \<Rightarrow> (q, \<lparr>released = [], freed = []\<rparr>)
      | Some m \<Rightarrow>
          if q_active q
          then flushNodes_loop m [] (q_list q) q \<lparr>released = [], freed = []\<rparr>
          else (q, \<lparr>released = [], freed = []\<rparr>))"

definition flushNodes_data ::
    "('m \<Rightarrow> 'a option \<Rightarrow> bool) option \<Rightarrow> 'm \<Rightarrow> 'a cam_queue
       \<Rightarrow> 'a cam_queue \<times> 'a flushed" where
  "flushNodes_data match match_data q =
     (case match of
        None \<Rightarrow> (q, \<lparr>released = [], freed = []\<rparr>)
      | Some m \<Rightarrow>
          if q_active q
          then flushNodes_loop (m match_data) [] (q_list q) q \<lparr>released = [], freed = []\<rparr>
          else (q, \<lparr>released = [], freed = []\<rparr>))"

section \<open>The invariant\<close>

definition queue_ok :: "'a cam_queue \<Rightarrow> bool" where
  "queue_ok q \<longleftrightarrow>
     q_size q = int (length (q_list q)) \<and> (\<not> q_active q \<longrightarrow> q_list q = [])"

lemma queue_ok_new [intro]: "queue_ok (QCameraQueue f)"
  by (simp add: queue_ok_def QCameraQueue_def)

lemma queue_ok_init [intro]: "queue_ok q \<Longrightarrow> queue_ok (init q)"
  by (simp add: queue_ok_def init_def)

lemma queue_ok_enqueue [intro]: "queue_ok q \<Longrightarrow> queue_ok (snd (enqueue b d q))"
  by (simp add: queue_ok_def enqueue_def)

lemma queue_ok_enqueueWithPriority [intro]:
  "queue_ok q \<Longrightarrow> queue_ok (snd (enqueueWithPriority b d q))"
  by (simp add: queue_ok_def enqueueWithPriority_def)

lemma queue_ok_dequeue [intro]: "queue_ok q \<Longrightarrow> queue_ok (snd (dequeue h q))"
  by (auto simp: queue_ok_def dequeue_def split: list.splits)

lemma match_out_None: "match_out m ds = None \<longleftrightarrow> (\<forall>d\<in>set ds. \<not> m d)"
  by (induction ds) (auto split: option.splits)

lemma match_out_first:
  "\<forall>x\<in>set pre. \<not> m x \<Longrightarrow> m d \<Longrightarrow> match_out m (pre @ d # post) = Some (d, pre @ post)"
  by (induction pre) auto

lemma match_out_Some:
  "match_out m ds = Some (d, rest) \<Longrightarrow>
     \<exists>pre post. ds = pre @ d # post \<and> rest = pre @ post \<and> m d \<and> (\<forall>x\<in>set pre. \<not> m x)"
proof (induction ds arbitrary: rest)
  case Nil
  then show ?case by simp
next
  case (Cons e es)
  show ?case
  proof (cases "m e")
    case True
    with Cons.prems show ?thesis
      by (intro exI [of _ "[]"] exI [of _ es]) simp
  next
    case False
    with Cons.prems obtain r where r: "match_out m es = Some (d, r)" "rest = e # r"
      by (auto split: option.splits)
    from Cons.IH [OF r(1)] obtain pre post where
      "es = pre @ d # post" "r = pre @ post" "m d" "\<forall>x\<in>set pre. \<not> m x"
      by blast
    with False r(2) show ?thesis by (intro exI [of _ "e # pre"] exI [of _ post]) simp
  qed
qed

lemma match_out_length: "match_out m ds = Some (d, rest) \<Longrightarrow> length ds = Suc (length rest)"
  by (auto dest!: match_out_Some)

lemma queue_ok_dequeue_match [intro]: "queue_ok q \<Longrightarrow> queue_ok (snd (dequeue_match f md q))"
  by (auto simp: queue_ok_def dequeue_match_def dest: match_out_length split: option.splits)

text \<open>What the two flushing loops compute, for any queue they start in.\<close>

fun nonnull :: "'a option list \<Rightarrow> 'a list" where
  "nonnull [] = []"
| "nonnull (None # ds) = nonnull ds"
| "nonnull (Some x # ds) = x # nonnull ds"

definition release_of :: "bool \<Rightarrow> 'a option list \<Rightarrow> 'a list" where
  "release_of dataFn ds = (if dataFn then nonnull ds else [])"

lemma nonnull_append [simp]: "nonnull (xs @ ys) = nonnull xs @ nonnull ys"
  by (induction xs rule: nonnull.induct) auto

lemma nonnull_map_Some [simp]: "nonnull (map Some xs) = xs"
  by (induction xs) auto

lemma release_of_Nil [simp]: "release_of f [] = []"
  by (simp add: release_of_def)

lemma release_of_append [simp]: "release_of f (xs @ ys) = release_of f xs @ release_of f ys"
  by (simp add: release_of_def)

lemma nonnull_map_the: "None \<notin> set ds \<Longrightarrow> nonnull ds = map the ds"
  by (induction ds rule: nonnull.induct) auto

lemma flush_loop_eq:
  "flush_loop ds q out =
     (q\<lparr>q_list := (if ds = [] then q_list q else []), q_size := q_size q - int (length ds)\<rparr>,
      \<lparr>released = released out @ release_of (q_dataFn q) ds,
       freed = freed out @ nonnull ds\<rparr>)"
proof (induction ds arbitrary: q out)
  case Nil
  then show ?case by simp
next
  case (Cons d ds)
  then show ?case
    by (cases d) (simp_all add: flush_node_def release_of_def)
qed

lemma flush_eq:
  "queue_ok q \<Longrightarrow>
   flush q = (q\<lparr>q_list := [], q_size := 0, q_active := False\<rparr>,
              \<lparr>released = release_of (q_dataFn q) (q_list q), freed = nonnull (q_list q)\<rparr>)"
  by (auto simp: flush_def flush_loop_eq queue_ok_def)

lemma queue_ok_flush [intro]: "queue_ok q \<Longrightarrow> queue_ok (fst (flush q))"
  by (simp add: flush_eq) (simp add: queue_ok_def)

lemma flushNodes_loop_eq:
  "q_list q = kept @ ds \<Longrightarrow>
   flushNodes_loop m kept ds q out =
     (q\<lparr>q_list := kept @ filter (\<lambda>d. \<not> m d) ds,
        q_size := q_size q - int (length (filter m ds))\<rparr>,
      \<lparr>released = released out @ release_of (q_dataFn q) (filter m ds),
       freed = freed out @ nonnull (filter m ds)\<rparr>)"
proof (induction ds arbitrary: kept q out)
  case Nil
  then show ?case by simp
next
  case (Cons d ds)
  show ?case
  proof (cases "m d")
    case True
    then show ?thesis
      using Cons.IH [of "q\<lparr>q_list := kept @ ds, q_size := q_size q - 1\<rparr>" kept
          "flush_node (q_dataFn q) d out"]
      by (cases d) (simp_all add: flush_node_def release_of_def)
  next
    case False
    then show ?thesis
      using Cons.IH [of q "kept @ [d]" out] Cons.prems by simp
  qed
qed

lemma flushNodes_eq:
  "q_active q \<Longrightarrow>
   flushNodes (Some m) q =
     (q\<lparr>q_list := filter (\<lambda>d. \<not> m d) (q_list q),
        q_size := q_size q - int (length (filter m (q_list q)))\<rparr>,
      \<lparr>released = release_of (q_dataFn q) (filter m (q_list q)),
       freed = nonnull (filter m (q_list q))\<rparr>)"
  by (simp add: flushNodes_def flushNodes_loop_eq)

lemma length_filter_split:
  "int (length xs) - int (length (filter m xs)) = int (length (filter (\<lambda>x. \<not> m x) xs))"
  using sum_length_filter_compl [of m xs] by linarith

lemma queue_ok_flushNodes [intro]:
  assumes "queue_ok q"
  shows "queue_ok (fst (flushNodes f q))"
proof (cases f)
  case None
  then show ?thesis using assms by (simp add: flushNodes_def)
next
  case (Some m)
  then show ?thesis
    using assms
    by (cases "q_active q")
      (simp_all add: flushNodes_eq queue_ok_def length_filter_split, simp add: flushNodes_def)
qed

lemma flushNodes_data_eq: "flushNodes_data f md q = flushNodes (map_option (\<lambda>m. m md) f) q"
  by (simp add: flushNodes_data_def flushNodes_def split: option.split)

lemma queue_ok_flushNodes_data [intro]:
  "queue_ok q \<Longrightarrow> queue_ok (fst (flushNodes_data f md q))"
  by (simp add: flushNodes_data_eq queue_ok_flushNodes)

section \<open>The first-in first-out contract\<close>

text \<open>
  What the state machine's thread relies on: \<open>put\<close> is \<open>enqueue\<close> of a datum that is not
  \<open>NULL\<close> with enough memory, \<open>take1\<close> is \<open>dequeue\<close> from the head.
\<close>

locale fifo =
  fixes put :: "'a \<Rightarrow> 'q \<Rightarrow> bool \<times> 'q"
    and take1 :: "'q \<Rightarrow> 'a option \<times> 'q"
    and items :: "'q \<Rightarrow> 'a list"
    and good :: "'q \<Rightarrow> bool"
  assumes put_accepts: "good q \<Longrightarrow> fst (put x q)"
    and put_items: "good q \<Longrightarrow> items (snd (put x q)) = items q @ [x]"
    and put_good: "good q \<Longrightarrow> good (snd (put x q))"
    and take_value: "good q \<Longrightarrow> fst (take1 q) = (case items q of [] \<Rightarrow> None | x # _ \<Rightarrow> Some x)"
    and take_items: "good q \<Longrightarrow> items (snd (take1 q)) = tl (items q)"
    and take_good: "good q \<Longrightarrow> good (snd (take1 q))"
begin

lemma put_all:
  "good q \<Longrightarrow> items (fold (\<lambda>x q. snd (put x q)) xs q) = items q @ xs
     \<and> good (fold (\<lambda>x q. snd (put x q)) xs q)"
  by (induction xs arbitrary: q) (simp_all add: put_items put_good)

lemma take_many:
  "good q \<Longrightarrow> items (((\<lambda>q. snd (take1 q)) ^^ n) q) = drop n (items q)
     \<and> good (((\<lambda>q. snd (take1 q)) ^^ n) q)"
  by (induction n) (simp_all add: take_items take_good drop_Suc tl_drop)

lemma nth_taken:
  assumes "good q"
  shows "fst (take1 (((\<lambda>q. snd (take1 q)) ^^ n) q)) =
    (if n < length (items q) then Some (items q ! n) else None)"
  using take_many [OF assms, of n]
  by (auto simp: take_value Cons_nth_drop_Suc [symmetric] split: list.splits)

lemma first_in_first_out:
  assumes "good q" and "items q = []" and "n < length xs"
  shows "fst (take1 (((\<lambda>q. snd (take1 q)) ^^ n) (fold (\<lambda>x q. snd (put x q)) xs q)))
    = Some (xs ! n)"
  using put_all [OF assms(1), of xs] assms(2,3) by (simp add: nth_taken)

end

text \<open>A queue in use: active, consistent, and holding no null datum.\<close>

definition queue_live :: "'a cam_queue \<Rightarrow> bool" where
  "queue_live q \<longleftrightarrow> queue_ok q \<and> q_active q \<and> None \<notin> set (q_list q)"

interpretation cq: fifo "\<lambda>x. enqueue True (Some x)" "dequeue True" "\<lambda>q. nonnull (q_list q)"
  queue_live
proof unfold_locales
  fix q :: "'a cam_queue"
  fix x :: 'a
  assume live: "queue_live q"
  then show "fst (enqueue True (Some x) q)"
    by (simp add: queue_live_def enqueue_def)
  show "nonnull (q_list (snd (enqueue True (Some x) q))) = nonnull (q_list q) @ [x]"
    using live by (simp add: queue_live_def enqueue_def)
  show "queue_live (snd (enqueue True (Some x) q))"
    using live by (simp add: queue_live_def queue_ok_def enqueue_def)
  show "fst (dequeue True q) =
      (case nonnull (q_list q) of [] \<Rightarrow> None | x # _ \<Rightarrow> Some x)"
    using live
    by (cases "q_list q") (auto simp: queue_live_def dequeue_def nonnull_map_the)
  show "nonnull (q_list (snd (dequeue True q))) = tl (nonnull (q_list q))"
    using live
    by (cases "q_list q") (auto simp: queue_live_def dequeue_def nonnull_map_the)
  show "queue_live (snd (dequeue True q))"
    using live by (auto simp: queue_live_def queue_ok_def dequeue_def split: list.splits)
qed

lemma queue_live_new [simp]: "queue_live (QCameraQueue f)"
  by (simp add: queue_live_def queue_ok_new) (simp add: QCameraQueue_def)

section \<open>Every queue the operations can reach\<close>

inductive queue_reachable :: "'a cam_queue \<Rightarrow> bool" where
  new: "queue_reachable (QCameraQueue f)"
| init: "queue_reachable q \<Longrightarrow> queue_reachable (init q)"
| enqueue: "queue_reachable q \<Longrightarrow> queue_reachable (snd (enqueue b d q))"
| priority: "queue_reachable q \<Longrightarrow> queue_reachable (snd (enqueueWithPriority b d q))"
| dequeue: "queue_reachable q \<Longrightarrow> queue_reachable (snd (dequeue h q))"
| dequeue_match: "queue_reachable q \<Longrightarrow>
    queue_reachable (snd (dequeue_match (f :: (ptr \<Rightarrow> 'a option \<Rightarrow> bool) option) md q))"
| flush: "queue_reachable q \<Longrightarrow> queue_reachable (fst (flush q))"
| flushNodes: "queue_reachable q \<Longrightarrow> queue_reachable (fst (flushNodes f q))"
| flushNodes_data: "queue_reachable q \<Longrightarrow>
    queue_reachable (fst (flushNodes_data (f :: (ptr \<Rightarrow> 'a option \<Rightarrow> bool) option) md q))"

lemma reachable_ok: "queue_reachable q \<Longrightarrow> queue_ok q"
  by (induction rule: queue_reachable.induct) auto

section \<open>Properties\<close>

text \<open>
  However the operations follow each other, the counter \<open>m_size\<close> is the number of nodes linked in the
  list, and a queue that was flushed holds no node.
\<close>

lemma queue_counter_exact:
  "queue_reachable q \<Longrightarrow> q_size q = int (length (q_list q)) \<and> (\<not> q_active q \<longrightarrow> q_list q = [])"
  using reachable_ok [of q] by (simp add: queue_ok_def)

text \<open>
  First in, first out: whatever non-null data are put in a fresh queue, the \<open>n\<close>-th \<open>dequeue\<close>
  gives the \<open>n\<close>-th of them, and the one after the last gives \<open>NULL\<close>.
\<close>

lemma queue_fifo:
  "fst (dequeue True (((\<lambda>q. snd (dequeue True q)) ^^ n)
     (fold (\<lambda>x q. snd (enqueue True (Some x) q)) xs (QCameraQueue f))))
   = (if n < length xs then Some (xs ! n) else None)"
  using cq.put_all [OF queue_live_new [of f], of xs]
  by (simp add: cq.nth_taken QCameraQueue_def)

text \<open>
  \<open>flushNodes\<close> takes out exactly the matching nodes, keeps the others in their order, releases each
  datum it takes out once, in the order of the list, and leaves the counter exact.
\<close>

lemma flushNodes_exact:
  "queue_ok q \<Longrightarrow> q_active q \<Longrightarrow>
   q_list (fst (flushNodes (Some m) q)) = filter (\<lambda>d. \<not> m d) (q_list q)
   \<and> freed (snd (flushNodes (Some m) q)) = nonnull (filter m (q_list q))
   \<and> released (snd (flushNodes (Some m) q)) = (if q_dataFn q then nonnull (filter m (q_list q)) else [])
   \<and> queue_ok (fst (flushNodes (Some m) q))"
  using queue_ok_flushNodes [of q "Some m"] by (simp add: flushNodes_eq release_of_def)

text \<open>
  \<open>dequeue\<close> with a match function takes out the first node that matches and no other; when none
  matches it changes nothing and gives \<open>NULL\<close>.
\<close>

lemma dequeue_match_first:
  "q_active q \<Longrightarrow> q_list q = pre @ post \<Longrightarrow> list_all (\<lambda>d. \<not> m md d) pre \<Longrightarrow>
   post = [] \<or> m md (hd post) \<Longrightarrow>
   dequeue_match (Some m) (Some md) q =
     (if post = [] then (None, q)
      else (hd post, q\<lparr>q_list := pre @ tl post, q_size := q_size q - 1\<rparr>))"
  by (cases post) (auto simp: dequeue_match_def match_out_first match_out_None [THEN iffD2] list_all_iff)

text \<open>
  \<open>flush\<close> empties the queue, frees every non-null datum once and in order, and closes it: no later
  \<open>enqueue\<close> is taken, and each later \<open>dequeue\<close> gives \<open>NULL\<close>, until \<open>init\<close>.
\<close>

lemma flush_closes:
  "queue_ok q \<Longrightarrow> q_active q \<Longrightarrow>
   freed (snd (flush q)) = nonnull (q_list q)
   \<and> q_list (fst (flush q)) = [] \<and> isEmpty (fst (flush q))
   \<and> enqueue b d (fst (flush q)) = (False, fst (flush q))
   \<and> enqueueWithPriority b d (fst (flush q)) = (False, fst (flush q))
   \<and> dequeue h (fst (flush q)) = (None, fst (flush q))
   \<and> fst (enqueue True d (init (fst (flush q))))"
  by (simp add: flush_eq isEmpty_def enqueue_def enqueueWithPriority_def dequeue_def init_def)

end
