(* ===== verification/SmBase.thy ===== *)
theory SmBase
  imports CamQueue
begin

text \<open>
  The vocabulary of the camera state machine,
  \<open>hardware/camera/QCamera2/HAL/QCameraStateMachine.h\<close> and the calls its handlers make: states,
  events, API results, payloads, the interface of the parent object \<open>m_parent\<close> (a
  \<open>QCamera2HardwareInterface\<close>) and the machine's own fields.

  The parent is a parameter of every handler: its state has an arbitrary type \<open>'p\<close>, and the record
  \<open>hwi\<close> holds what the handlers ask of it. An operation that returns a status maps the parent's
  state to a status and a new state, so a handler is proved right for every parent, in whatever way its
  calls succeed or fail. What a handler does to the outside is kept in the history \<open>trace\<close>.
\<close>

section \<open>States and events\<close>

datatype sm_state =
    QCAMERA_SM_STATE_PREVIEW_STOPPED
  | QCAMERA_SM_STATE_PREVIEW_READY
  | QCAMERA_SM_STATE_PREVIEWING
  | QCAMERA_SM_STATE_PREPARE_SNAPSHOT
  | QCAMERA_SM_STATE_PIC_TAKING
  | QCAMERA_SM_STATE_RECORDING
  | QCAMERA_SM_STATE_VIDEO_PIC_TAKING
  | QCAMERA_SM_STATE_PREVIEW_PIC_TAKING

datatype (plugins only: code size) sm_evt =
    QCAMERA_SM_EVT_SET_PREVIEW_WINDOW
  | QCAMERA_SM_EVT_SET_CALLBACKS
  | QCAMERA_SM_EVT_ENABLE_MSG_TYPE
  | QCAMERA_SM_EVT_DISABLE_MSG_TYPE
  | QCAMERA_SM_EVT_MSG_TYPE_ENABLED
  | QCAMERA_SM_EVT_SET_PARAMS
  | QCAMERA_SM_EVT_COMMIT_PARAMS
  | QCAMERA_SM_EVT_COMMIT_STOP_PREVIEW
  | QCAMERA_SM_EVT_COMMIT_START_PREVIEW
  | QCAMERA_SM_EVT_GET_PARAMS
  | QCAMERA_SM_EVT_PUT_PARAMS
  | QCAMERA_SM_EVT_PREPARE_PREVIEW
  | QCAMERA_SM_EVT_START_PREVIEW
  | QCAMERA_SM_EVT_START_NODISPLAY_PREVIEW
  | QCAMERA_SM_EVT_STOP_PREVIEW
  | QCAMERA_SM_EVT_PREVIEW_ENABLED
  | QCAMERA_SM_EVT_STORE_METADATA_IN_BUFS
  | QCAMERA_SM_EVT_PRE_START_RECORDING
  | QCAMERA_SM_EVT_START_RECORDING
  | QCAMERA_SM_EVT_STOP_RECORDING
  | QCAMERA_SM_EVT_RECORDING_ENABLED
  | QCAMERA_SM_EVT_RELEASE_RECORIDNG_FRAME
  | QCAMERA_SM_EVT_PREPARE_SNAPSHOT
  | QCAMERA_SM_EVT_PRE_TAKE_PICTURE
  | QCAMERA_SM_EVT_TAKE_PICTURE
  | QCAMERA_SM_EVT_CANCEL_PICTURE
  | QCAMERA_SM_EVT_START_AUTO_FOCUS
  | QCAMERA_SM_EVT_STOP_AUTO_FOCUS
  | QCAMERA_SM_EVT_SEND_COMMAND
  | QCAMERA_SM_EVT_RELEASE
  | QCAMERA_SM_EVT_DUMP
  | QCAMERA_SM_EVT_REG_FACE_IMAGE
  | QCAMERA_SM_EVT_PREVIEW_RESTART_NEENED
  | QCAMERA_SM_EVT_EVT_INTERNAL
  | QCAMERA_SM_EVT_EVT_NOTIFY
  | QCAMERA_SM_EVT_JPEG_EVT_NOTIFY
  | QCAMERA_SM_EVT_SNAPSHOT_DONE
  | QCAMERA_SM_EVT_THERMAL_NOTIFY
  | QCAMERA_SM_EVT_STOP_CAPTURE_CHANNEL
  | QCAMERA_SM_EVT_RESTART_PERVIEW
  | QCAMERA_SM_EVT_DELAYED_RESTART
  | QCAMERA_SM_EVT_SEND_COMMAND_RESTART
  | QCAMERA_SM_EVT_RESTART_START_PREVIEW
  | QCAMERA_SM_EVT_RESTART_STOP_PREVIEW

text \<open>The numbers the compiler gives the events, which \<open>SEND_COMMAND\<close> compares its arguments with.\<close>

primrec evt_code :: "sm_evt \<Rightarrow> int32" where
  "evt_code QCAMERA_SM_EVT_SET_PREVIEW_WINDOW = 1"
| "evt_code QCAMERA_SM_EVT_SET_CALLBACKS = 2"
| "evt_code QCAMERA_SM_EVT_ENABLE_MSG_TYPE = 3"
| "evt_code QCAMERA_SM_EVT_DISABLE_MSG_TYPE = 4"
| "evt_code QCAMERA_SM_EVT_MSG_TYPE_ENABLED = 5"
| "evt_code QCAMERA_SM_EVT_SET_PARAMS = 6"
| "evt_code QCAMERA_SM_EVT_COMMIT_PARAMS = 7"
| "evt_code QCAMERA_SM_EVT_COMMIT_STOP_PREVIEW = 8"
| "evt_code QCAMERA_SM_EVT_COMMIT_START_PREVIEW = 9"
| "evt_code QCAMERA_SM_EVT_GET_PARAMS = 10"
| "evt_code QCAMERA_SM_EVT_PUT_PARAMS = 11"
| "evt_code QCAMERA_SM_EVT_PREPARE_PREVIEW = 12"
| "evt_code QCAMERA_SM_EVT_START_PREVIEW = 13"
| "evt_code QCAMERA_SM_EVT_START_NODISPLAY_PREVIEW = 14"
| "evt_code QCAMERA_SM_EVT_STOP_PREVIEW = 15"
| "evt_code QCAMERA_SM_EVT_PREVIEW_ENABLED = 16"
| "evt_code QCAMERA_SM_EVT_STORE_METADATA_IN_BUFS = 17"
| "evt_code QCAMERA_SM_EVT_PRE_START_RECORDING = 18"
| "evt_code QCAMERA_SM_EVT_START_RECORDING = 19"
| "evt_code QCAMERA_SM_EVT_STOP_RECORDING = 20"
| "evt_code QCAMERA_SM_EVT_RECORDING_ENABLED = 21"
| "evt_code QCAMERA_SM_EVT_RELEASE_RECORIDNG_FRAME = 22"
| "evt_code QCAMERA_SM_EVT_PREPARE_SNAPSHOT = 23"
| "evt_code QCAMERA_SM_EVT_PRE_TAKE_PICTURE = 24"
| "evt_code QCAMERA_SM_EVT_TAKE_PICTURE = 25"
| "evt_code QCAMERA_SM_EVT_CANCEL_PICTURE = 26"
| "evt_code QCAMERA_SM_EVT_START_AUTO_FOCUS = 27"
| "evt_code QCAMERA_SM_EVT_STOP_AUTO_FOCUS = 28"
| "evt_code QCAMERA_SM_EVT_SEND_COMMAND = 29"
| "evt_code QCAMERA_SM_EVT_RELEASE = 30"
| "evt_code QCAMERA_SM_EVT_DUMP = 31"
| "evt_code QCAMERA_SM_EVT_REG_FACE_IMAGE = 32"
| "evt_code QCAMERA_SM_EVT_PREVIEW_RESTART_NEENED = 33"
| "evt_code QCAMERA_SM_EVT_EVT_INTERNAL = 34"
| "evt_code QCAMERA_SM_EVT_EVT_NOTIFY = 35"
| "evt_code QCAMERA_SM_EVT_JPEG_EVT_NOTIFY = 36"
| "evt_code QCAMERA_SM_EVT_SNAPSHOT_DONE = 37"
| "evt_code QCAMERA_SM_EVT_THERMAL_NOTIFY = 38"
| "evt_code QCAMERA_SM_EVT_STOP_CAPTURE_CHANNEL = 39"
| "evt_code QCAMERA_SM_EVT_RESTART_PERVIEW = 40"
| "evt_code QCAMERA_SM_EVT_DELAYED_RESTART = 41"
| "evt_code QCAMERA_SM_EVT_SEND_COMMAND_RESTART = 42"
| "evt_code QCAMERA_SM_EVT_RESTART_START_PREVIEW = 43"
| "evt_code QCAMERA_SM_EVT_RESTART_STOP_PREVIEW = 44"

text \<open>
  The events the header lists between its marks \<open>BEGIN OF: API EVT\<close> and \<open>END OF: API EVT\<close>: a client
  thread waits for their result.
\<close>

definition is_api_evt :: "sm_evt \<Rightarrow> bool" where
  "is_api_evt evt \<longleftrightarrow> evt_code evt \<le> evt_code QCAMERA_SM_EVT_PREVIEW_RESTART_NEENED"

datatype internal_evt =
    QCAMERA_INTERNAL_EVT_FOCUS_UPDATE
  | QCAMERA_INTERNAL_EVT_PREP_SNAPSHOT_DONE
  | QCAMERA_INTERNAL_EVT_FACE_DETECT_RESULT
  | QCAMERA_INTERNAL_EVT_HISTOGRAM_STATS
  | QCAMERA_INTERNAL_EVT_CROP_INFO
  | QCAMERA_INTERNAL_EVT_ASD_UPDATE
  | QCAMERA_INTERNAL_EVT_READY_FOR_SNAPSHOT
  | QCAMERA_INTERNAL_EVT_LED_MODE_OVERRIDE
  | QCAMERA_INTERNAL_EVT_AWB_UPDATE
  | QCAMERA_INTERNAL_EVT_AE_UPDATE
  | QCAMERA_INTERNAL_EVT_FOCUS_POS_UPDATE
  | QCAMERA_INTERNAL_EVT_HDR_UPDATE
  | QCAMERA_INTERNAL_EVT_RETRO_AEC_UNLOCK
  | QCAMERA_INTERNAL_EVT_ZSL_CAPTURE_DONE

datatype server_evt =
    CAM_EVENT_TYPE_DAEMON_DIED
  | CAM_EVENT_TYPE_CAC_DONE
  | CAM_EVENT_TYPE_OTHER int32

text \<open>
  The commands of \<open>sendCommand\<close> the machine looks at; they are constants of the platform's
  \<open>system/camera.h\<close>.
\<close>

datatype camera_cmd =
    CAMERA_CMD_LONGSHOT_ON
  | CAMERA_CMD_LONGSHOT_OFF
  | CAMERA_CMD_OTHER int32

section \<open>Payloads and results\<close>

text \<open>
  The payload of an event is a \<open>void *\<close> that each handler casts. The record holds what each of the casts
  reads, so that a handler reads the view the code's cast gives and no other.
\<close>

record sm_cmd_payload =
  cp_cmd :: camera_cmd
  cp_arg1 :: int32
  cp_arg2 :: int32

record sm_payload =
  as_ptr :: ptr
  as_int :: int32
  as_setcb :: "ptr list"
  as_cmd :: sm_cmd_payload
  as_face :: "ptr \<times> ptr"
  as_server_evt :: server_evt
  as_internal :: "internal_evt \<times> ptr"

datatype api_value =
    QCAMERA_API_RESULT_TYPE_DEF
  | QCAMERA_API_RESULT_TYPE_ENABLE_FLAG int32
  | QCAMERA_API_RESULT_TYPE_PARAMS ptr
  | QCAMERA_API_RESULT_TYPE_HANDLE int32

text \<open>The union of \<open>qcamera_api_result_t\<close> is the argument of its tag \<open>result_type\<close>.\<close>

record api_result =
  r_status :: status
  r_request_api :: sm_evt
  r_value :: api_value

section \<open>The interface of the parent\<close>

text \<open>Calls whose result is a status, or is not looked at.\<close>

datatype channel_type = QCAMERA_CH_TYPE_ZSL | QCAMERA_CH_TYPE_PREVIEW

text \<open>The parent's handlers of the internal events; the last two take no data.\<close>

datatype process_fn =
    processAutoFocusEvent
  | processPrepSnapshotDoneEvent
  | processFaceDetectionResult
  | processHistogramStats
  | processZoomEvent
  | processASDUpdate
  | transAwbMetaToParams
  | processAEInfo
  | processFocusPositionInfo
  | processHDRData
  | processRetroAECUnlock
  | processZSLCaptureDone

datatype (plugins only: code size) hwi_call =
    C_setPreviewWindow ptr
  | C_setCallBacks "ptr list"
  | C_enableMsgType int32
  | C_disableMsgType int32
  | C_commitParameterChanges
  | C_putParameters ptr
  | C_memoryPool_clear
  | C_preparePreview
  | C_unpreparePreview
  | C_startPreview
  | C_stopPreview
  | C_release
  | C_storeMetaDataInBuffers int32
  | C_dump int32
  | C_sendCommand camera_cmd int32 int32
  | C_closeNativeHandle ptr
  | C_autoFocus
  | C_cancelAutoFocus
  | C_updateThermalLevel ptr
  | C_error_close_camera
  | C_sendEvtNotify_server_died
  | C_lock_m_parm_lock
  | C_unlock_m_parm_lock
  | C_updateFlashMode ptr
  | C_updateRecordingHintValue bool
  | C_waitDeferredWork_mParamInitJob
  | C_preStartRecording
  | C_startRecording
  | C_stopRecording
  | C_releaseRecordingFrame ptr
  | C_prepareHardwareForSnapshot bool
  | C_preTakePicture
  | C_takePicture
  | C_longShot
  | C_cancelPicture
  | C_takeLiveSnapshot
  | C_cancelLiveSnapshot
  | C_stopCaptureChannel bool
  | C_stopChannel channel_type
  | C_playShutter
  | C_set_mCACDoneReceived
  | C_set_m_bPreviewStarted
  | C_processJpegNotify ptr
  | C_process process_fn ptr
  | C_updateParameters ptr
  | C_registerFaceImage "ptr \<times> ptr"
  | C_getParameters

text \<open>Queries, which read the parent's state.\<close>

datatype hwi_query =
    Q_mPreviewWindow_set
  | Q_mCameraHandle_usable
  | Q_isZSLMode
  | Q_isLongshotEnabled
  | Q_isRetroPicture
  | Q_isPreviewRestartEnabled
  | Q_isCACEnabled
  | Q_isCaptureShutterEnabled
  | Q_getRecordingHintValue

text \<open>
  \<open>hw_call\<close> is every call above; the last three of them also have an output besides their status, which
  the fields below give as a function of the parent's state before the call. \<open>updateParameters\<close> writes the
  machine's \<open>m_bPreviewNeedsRestart\<close> through a reference, so \<open>hw_needRestart\<close> gets its old value.
  \<open>hw_preview_frame\<close> is the platform's constant \<open>CAMERA_MSG_PREVIEW_FRAME\<close>.
\<close>

record 'p hwi =
  hw_call :: "hwi_call \<Rightarrow> 'p \<Rightarrow> status \<times> 'p"
  hw_query :: "hwi_query \<Rightarrow> 'p \<Rightarrow> bool"
  hw_msgTypeEnabled :: "int32 \<Rightarrow> 'p \<Rightarrow> int32"
  hw_needRestart :: "ptr \<Rightarrow> bool \<Rightarrow> 'p \<Rightarrow> bool"
  hw_faceID :: "ptr \<times> ptr \<Rightarrow> 'p \<Rightarrow> int32"
  hw_params :: "'p \<Rightarrow> ptr"
  hw_preview_frame :: int32

datatype effect =
    Call hwi_call
  | SignalAPI api_result
  | SignalEvt api_result

section \<open>The machine\<close>

record 'p sm =
  m_state :: sm_state
  m_bDelayPreviewMsgs :: bool
  m_bPreviewNeedsRestart :: bool
  m_bPreviewDelayedRestart :: bool
  m_DelayedMsgs :: int32
  parent :: 'p
  trace :: "effect list"

type_synonym ('p, 'a) sm_monad = "('p sm, 'a) state"

definition call :: "'p hwi \<Rightarrow> hwi_call \<Rightarrow> ('p, status) sm_monad" where
  "call E c = State (\<lambda>w. case hw_call E c (parent w) of
     (rc, p) \<Rightarrow> (rc, w\<lparr>parent := p, trace := trace w @ [Call c]\<rparr>))"

definition call0 :: "'p hwi \<Rightarrow> hwi_call \<Rightarrow> ('p, unit) sm_monad" where
  "call0 E c = do { _ \<leftarrow> call E c; ret () }"

definition query :: "'p hwi \<Rightarrow> hwi_query \<Rightarrow> ('p, bool) sm_monad" where
  "query E q = gets (\<lambda>w. hw_query E q (parent w))"

definition set_state :: "sm_state \<Rightarrow> ('p, unit) sm_monad" where
  "set_state s = modify (\<lambda>w. w\<lparr>m_state := s\<rparr>)"

definition signalAPIResult :: "api_result \<Rightarrow> ('p, unit) sm_monad" where
  "signalAPIResult r = modify (\<lambda>w. w\<lparr>trace := trace w @ [SignalAPI r]\<rparr>)"

definition signalEvtResult :: "api_result \<Rightarrow> ('p, unit) sm_monad" where
  "signalEvtResult r = modify (\<lambda>w. w\<lparr>trace := trace w @ [SignalEvt r]\<rparr>)"

text \<open>
  The four lines that end almost every case of the handlers: fill \<open>result\<close> and signal it.
\<close>

definition answer :: "sm_evt \<Rightarrow> status \<Rightarrow> ('p, unit) sm_monad" where
  "answer evt rc = signalAPIResult
     \<lparr>r_status = rc, r_request_api = evt, r_value = QCAMERA_API_RESULT_TYPE_DEF\<rparr>"

definition answer_flag :: "sm_evt \<Rightarrow> status \<Rightarrow> int32 \<Rightarrow> ('p, unit) sm_monad" where
  "answer_flag evt rc enabled = signalAPIResult
     \<lparr>r_status = rc, r_request_api = evt,
      r_value = QCAMERA_API_RESULT_TYPE_ENABLE_FLAG enabled\<rparr>"

definition answer_params :: "sm_evt \<Rightarrow> status \<Rightarrow> ptr \<Rightarrow> ('p, unit) sm_monad" where
  "answer_params evt rc params = signalAPIResult
     \<lparr>r_status = rc, r_request_api = evt, r_value = QCAMERA_API_RESULT_TYPE_PARAMS params\<rparr>"

definition answer_handle :: "sm_evt \<Rightarrow> status \<Rightarrow> int32 \<Rightarrow> ('p, unit) sm_monad" where
  "answer_handle evt rc h = signalAPIResult
     \<lparr>r_status = rc, r_request_api = evt, r_value = QCAMERA_API_RESULT_TYPE_HANDLE h\<rparr>"

definition answer_evt :: "sm_evt \<Rightarrow> status \<Rightarrow> ('p, unit) sm_monad" where
  "answer_evt evt rc = signalEvtResult
     \<lparr>r_status = rc, r_request_api = evt, r_value = QCAMERA_API_RESULT_TYPE_DEF\<rparr>"

text \<open>The two most frequent bodies of a case: do the call and answer its status; refuse the event.\<close>

definition call_answer :: "'p hwi \<Rightarrow> sm_evt \<Rightarrow> hwi_call \<Rightarrow> ('p, status) sm_monad" where
  "call_answer E evt c = do { rc \<leftarrow> call E c; answer evt rc; ret rc }"

definition reject :: "sm_evt \<Rightarrow> ('p, status) sm_monad" where
  "reject evt = do { answer evt INVALID_OPERATION; ret INVALID_OPERATION }"

text \<open>
  Blocks that the source repeats letter by letter in several states. Each is one definition here; the states'
  handlers call it where the source has the block.
\<close>

definition SET_PARAMS_block :: "'p hwi \<Rightarrow> sm_evt \<Rightarrow> sm_payload \<Rightarrow> ('p, status) sm_monad" where
  "SET_PARAMS_block E evt pl = do {
     w \<leftarrow> gets id;
     rc \<leftarrow> call E (C_updateParameters (as_ptr pl));
     modify (\<lambda>v. v\<lparr>m_bPreviewNeedsRestart :=
        hw_needRestart E (as_ptr pl) (m_bPreviewNeedsRestart w) (parent w)\<rparr>);
     answer evt rc;
     ret rc }"

definition GET_PARAMS_block :: "'p hwi \<Rightarrow> sm_evt \<Rightarrow> ('p, status) sm_monad" where
  "GET_PARAMS_block E evt = do {
     params \<leftarrow> gets (\<lambda>w. hw_params E (parent w));
     call0 E C_getParameters;
     let rc = (if params \<noteq> 0 then NO_ERROR else UNKNOWN_ERROR);
     answer_params evt rc params;
     ret rc }"

definition MSG_TYPE_ENABLED_block ::
    "'p hwi \<Rightarrow> sm_evt \<Rightarrow> sm_payload \<Rightarrow> ('p, status) sm_monad" where
  "MSG_TYPE_ENABLED_block E evt pl = do {
     enabled \<leftarrow> gets (\<lambda>w. hw_msgTypeEnabled E (as_int pl) (parent w));
     answer_flag evt NO_ERROR enabled;
     ret NO_ERROR }"

definition REG_FACE_IMAGE_block ::
    "'p hwi \<Rightarrow> sm_evt \<Rightarrow> sm_payload \<Rightarrow> ('p, status) sm_monad" where
  "REG_FACE_IMAGE_block E evt pl = do {
     faceID \<leftarrow> gets (\<lambda>w. hw_faceID E (as_face pl) (parent w));
     rc \<leftarrow> call E (C_registerFaceImage (as_face pl));
     answer_handle evt rc faceID;
     ret rc }"

definition SEND_COMMAND_call :: "sm_payload \<Rightarrow> hwi_call" where
  "SEND_COMMAND_call pl =
     C_sendCommand (cp_cmd (as_cmd pl)) (cp_arg1 (as_cmd pl)) (cp_arg2 (as_cmd pl))"

definition DAEMON_DIED_block :: "'p hwi \<Rightarrow> ('p, unit) sm_monad" where
  "DAEMON_DIED_block E = do {
     usable \<leftarrow> query E Q_mCameraHandle_usable;
     (if usable then call0 E C_error_close_camera else skip);
     call0 E C_sendEvtNotify_server_died }"

definition updateFlashMode_locked :: "'p hwi \<Rightarrow> ptr \<Rightarrow> ('p, status) sm_monad" where
  "updateFlashMode_locked E led_data = do {
     call0 E C_lock_m_parm_lock;
     rc \<leftarrow> call E (C_updateFlashMode led_data);
     call0 E C_unlock_m_parm_lock;
     ret rc }"

definition flag_of :: "bool \<Rightarrow> int32" where
  "flag_of b = (if b then 1 else 0)"

definition applyDelayedMsgs :: "'p hwi \<Rightarrow> ('p, status) sm_monad" where
  "applyDelayedMsgs E = do {
     w \<leftarrow> gets id;
     if m_bDelayPreviewMsgs w \<and> m_DelayedMsgs w \<noteq> 0 then do {
       rc \<leftarrow> call E (C_enableMsgType (m_DelayedMsgs w));
       modify (\<lambda>v. v\<lparr>m_bDelayPreviewMsgs := False, m_DelayedMsgs := 0\<rparr>);
       ret rc }
     else if m_bDelayPreviewMsgs w then do {
       modify (\<lambda>v. v\<lparr>m_bDelayPreviewMsgs := False\<rparr>);
       ret NO_ERROR }
     else ret NO_ERROR }"

text \<open>
  \<open>preparePreview\<close> and, if it succeeds, \<open>startPreview\<close>, taking the preparation back when the start fails:
  the source has these lines in seven places.
\<close>

definition prepare_and_start :: "'p hwi \<Rightarrow> ('p, status) sm_monad" where
  "prepare_and_start E = do {
     rc \<leftarrow> call E C_preparePreview;
     if rc = NO_ERROR then do {
       rc2 \<leftarrow> call E C_startPreview;
       (if rc2 \<noteq> NO_ERROR then call0 E C_unpreparePreview else skip);
       ret rc2 }
     else ret rc }"

text \<open>
  The constructor. It leaves \<open>m_bPreviewDelayedRestart\<close> uninitialised, so its first value is an
  argument.
\<close>

definition QCameraStateMachine :: "bool \<Rightarrow> 'p \<Rightarrow> 'p sm" where
  "QCameraStateMachine garbage p =
     \<lparr>m_state = QCAMERA_SM_STATE_PREVIEW_STOPPED, m_bDelayPreviewMsgs = False,
      m_bPreviewNeedsRestart = False, m_bPreviewDelayedRestart = garbage, m_DelayedMsgs = 0,
      parent = p, trace = []\<rparr>"

definition isRecording :: "'p sm \<Rightarrow> bool" where
  "isRecording w = (case m_state w of
       QCAMERA_SM_STATE_RECORDING \<Rightarrow> True
     | QCAMERA_SM_STATE_VIDEO_PIC_TAKING \<Rightarrow> True
     | _ \<Rightarrow> False)"

definition isPreviewRunning :: "'p sm \<Rightarrow> bool" where
  "isPreviewRunning w = (case m_state w of
       QCAMERA_SM_STATE_PREVIEWING \<Rightarrow> True
     | QCAMERA_SM_STATE_RECORDING \<Rightarrow> True
     | QCAMERA_SM_STATE_VIDEO_PIC_TAKING \<Rightarrow> True
     | QCAMERA_SM_STATE_PREVIEW_PIC_TAKING \<Rightarrow> True
     | QCAMERA_SM_STATE_PREPARE_SNAPSHOT \<Rightarrow> True
     | QCAMERA_SM_STATE_PREVIEW_READY \<Rightarrow> True
     | _ \<Rightarrow> False)"

definition isPreviewReady :: "'p sm \<Rightarrow> bool" where
  "isPreviewReady w = (case m_state w of
       QCAMERA_SM_STATE_PREVIEW_READY \<Rightarrow> True
     | _ \<Rightarrow> False)"

definition isCaptureRunning :: "'p sm \<Rightarrow> bool" where
  "isCaptureRunning w = (case m_state w of
       QCAMERA_SM_STATE_PIC_TAKING \<Rightarrow> True
     | QCAMERA_SM_STATE_VIDEO_PIC_TAKING \<Rightarrow> True
     | QCAMERA_SM_STATE_PREVIEW_PIC_TAKING \<Rightarrow> True
     | _ \<Rightarrow> False)"

definition isNonZSLCaptureRunning :: "'p sm \<Rightarrow> bool" where
  "isNonZSLCaptureRunning w = (case m_state w of
       QCAMERA_SM_STATE_PIC_TAKING \<Rightarrow> True
     | _ \<Rightarrow> False)"

section \<open>Weakest preconditions of the vocabulary\<close>

lemma wp_call [wp_rules]:
  "wp (call E c) Q w =
     Q (fst (hw_call E c (parent w)))
       (w\<lparr>parent := snd (hw_call E c (parent w)), trace := trace w @ [Call c]\<rparr>)"
  by (simp add: wp_def call_def split: prod.splits)

lemma wp_call0 [wp_rules]:
  "wp (call0 E c) Q w =
     Q () (w\<lparr>parent := snd (hw_call E c (parent w)), trace := trace w @ [Call c]\<rparr>)"
  by (simp add: call0_def wp_rules)

lemma wp_query [wp_rules]: "wp (query E q) Q w = Q (hw_query E q (parent w)) w"
  by (simp add: query_def wp_rules)

lemma wp_set_state [wp_rules]: "wp (set_state s) Q w = Q () (w\<lparr>m_state := s\<rparr>)"
  by (simp add: set_state_def wp_rules)

lemma wp_signalAPIResult [wp_rules]:
  "wp (signalAPIResult r) Q w = Q () (w\<lparr>trace := trace w @ [SignalAPI r]\<rparr>)"
  by (simp add: signalAPIResult_def wp_rules)

lemma wp_signalEvtResult [wp_rules]:
  "wp (signalEvtResult r) Q w = Q () (w\<lparr>trace := trace w @ [SignalEvt r]\<rparr>)"
  by (simp add: signalEvtResult_def wp_rules)

text \<open>The inner switches over the two kinds of notification.\<close>

lemma wp_case_server_evt [wp_rules]:
  "wp (case e of CAM_EVENT_TYPE_DAEMON_DIED \<Rightarrow> a | CAM_EVENT_TYPE_CAC_DONE \<Rightarrow> b
       | CAM_EVENT_TYPE_OTHER n \<Rightarrow> c n) Q w =
   (case e of CAM_EVENT_TYPE_DAEMON_DIED \<Rightarrow> wp a Q w | CAM_EVENT_TYPE_CAC_DONE \<Rightarrow> wp b Q w
       | CAM_EVENT_TYPE_OTHER n \<Rightarrow> wp (c n) Q w)"
  by (cases e) simp_all

lemma wp_case_internal [wp_rules]:
  "wp (case i of (t, d) \<Rightarrow> f t d) Q w = (case i of (t, d) \<Rightarrow> wp (f t d) Q w)"
  by (cases i) simp

lemma wp_case_internal_evt [wp_rules]:
  "wp (case t of
      QCAMERA_INTERNAL_EVT_FOCUS_UPDATE \<Rightarrow> a0
    | QCAMERA_INTERNAL_EVT_PREP_SNAPSHOT_DONE \<Rightarrow> a1
    | QCAMERA_INTERNAL_EVT_FACE_DETECT_RESULT \<Rightarrow> a2
    | QCAMERA_INTERNAL_EVT_HISTOGRAM_STATS \<Rightarrow> a3
    | QCAMERA_INTERNAL_EVT_CROP_INFO \<Rightarrow> a4
    | QCAMERA_INTERNAL_EVT_ASD_UPDATE \<Rightarrow> a5
    | QCAMERA_INTERNAL_EVT_READY_FOR_SNAPSHOT \<Rightarrow> a6
    | QCAMERA_INTERNAL_EVT_LED_MODE_OVERRIDE \<Rightarrow> a7
    | QCAMERA_INTERNAL_EVT_AWB_UPDATE \<Rightarrow> a8
    | QCAMERA_INTERNAL_EVT_AE_UPDATE \<Rightarrow> a9
    | QCAMERA_INTERNAL_EVT_FOCUS_POS_UPDATE \<Rightarrow> a10
    | QCAMERA_INTERNAL_EVT_HDR_UPDATE \<Rightarrow> a11
    | QCAMERA_INTERNAL_EVT_RETRO_AEC_UNLOCK \<Rightarrow> a12
    | QCAMERA_INTERNAL_EVT_ZSL_CAPTURE_DONE \<Rightarrow> a13) Q w =
   (case t of
      QCAMERA_INTERNAL_EVT_FOCUS_UPDATE \<Rightarrow> wp a0 Q w
    | QCAMERA_INTERNAL_EVT_PREP_SNAPSHOT_DONE \<Rightarrow> wp a1 Q w
    | QCAMERA_INTERNAL_EVT_FACE_DETECT_RESULT \<Rightarrow> wp a2 Q w
    | QCAMERA_INTERNAL_EVT_HISTOGRAM_STATS \<Rightarrow> wp a3 Q w
    | QCAMERA_INTERNAL_EVT_CROP_INFO \<Rightarrow> wp a4 Q w
    | QCAMERA_INTERNAL_EVT_ASD_UPDATE \<Rightarrow> wp a5 Q w
    | QCAMERA_INTERNAL_EVT_READY_FOR_SNAPSHOT \<Rightarrow> wp a6 Q w
    | QCAMERA_INTERNAL_EVT_LED_MODE_OVERRIDE \<Rightarrow> wp a7 Q w
    | QCAMERA_INTERNAL_EVT_AWB_UPDATE \<Rightarrow> wp a8 Q w
    | QCAMERA_INTERNAL_EVT_AE_UPDATE \<Rightarrow> wp a9 Q w
    | QCAMERA_INTERNAL_EVT_FOCUS_POS_UPDATE \<Rightarrow> wp a10 Q w
    | QCAMERA_INTERNAL_EVT_HDR_UPDATE \<Rightarrow> wp a11 Q w
    | QCAMERA_INTERNAL_EVT_RETRO_AEC_UNLOCK \<Rightarrow> wp a12 Q w
    | QCAMERA_INTERNAL_EVT_ZSL_CAPTURE_DONE \<Rightarrow> wp a13 Q w)"
  by (cases t) simp_all

lemmas notification_splits = prod.split internal_evt.split server_evt.split

section \<open>Reading the history\<close>

definition new_effects :: "'p sm \<Rightarrow> 'p sm \<Rightarrow> effect list" where
  "new_effects w w' = drop (length (trace w)) (trace w')"

text \<open>The API events whose result a list of effects signals, and the events signalled as processed.\<close>

fun api_signals :: "effect list \<Rightarrow> sm_evt list" where
  "api_signals [] = []"
| "api_signals (SignalAPI r # es) = r_request_api r # api_signals es"
| "api_signals (_ # es) = api_signals es"

fun calls_of :: "effect list \<Rightarrow> hwi_call list" where
  "calls_of [] = []"
| "calls_of (Call c # es) = c # calls_of es"
| "calls_of (_ # es) = calls_of es"

fun results_of :: "effect list \<Rightarrow> api_result list" where
  "results_of [] = []"
| "results_of (SignalAPI r # es) = r # results_of es"
| "results_of (_ # es) = results_of es"

lemma results_of_append [simp]: "results_of (xs @ ys) = results_of xs @ results_of ys"
  by (induction xs rule: results_of.induct) auto

lemma results_of_Call [simp]: "results_of (map Call cs) = []"
  by (induction cs) auto

lemma api_signals_results: "api_signals es = map r_request_api (results_of es)"
  by (induction es rule: results_of.induct) auto

lemma api_signals_append [simp]: "api_signals (xs @ ys) = api_signals xs @ api_signals ys"
  by (induction xs rule: api_signals.induct) auto

lemma api_signals_Call [simp]: "api_signals (map Call cs) = []"
  by (induction cs) auto

lemma calls_of_append [simp]: "calls_of (xs @ ys) = calls_of xs @ calls_of ys"
  by (induction xs rule: calls_of.induct) auto

lemmas answer_defs [block_defs] =
  answer_def answer_flag_def answer_params_def answer_handle_def answer_evt_def
  call_answer_def reject_def SET_PARAMS_block_def GET_PARAMS_block_def
  MSG_TYPE_ENABLED_block_def REG_FACE_IMAGE_block_def SEND_COMMAND_call_def DAEMON_DIED_block_def
  updateFlashMode_locked_def applyDelayedMsgs_def prepare_and_start_def

end
