(* ===== verification/SmStopped.thy ===== *)
theory SmStopped
  imports SmBase
begin

text \<open>
  The two states without a running preview stream:
  \<open>QCameraStateMachine::procEvtPreviewStoppedState\<close> and
  \<open>QCameraStateMachine::procEvtPreviewReadyState\<close>. A handler is split into four groups of the
  cases of its \<open>switch\<close>, in the order of the source; each group takes as last argument what
  handles the events that are not in it, and the last group falls to the code's \<open>default\<close>.
\<close>

section \<open>Preview stopped\<close>

text \<open>In this state most calls first wait for the deferred initialisation of the parameters.\<close>

definition after_param_init ::
    "'p hwi \<Rightarrow> ('p, status) sm_monad \<Rightarrow> ('p, status) sm_monad" where
  "after_param_init E m = do {
     rc \<leftarrow> call E C_waitDeferredWork_mParamInitJob;
     if rc \<noteq> NO_ERROR then ret rc else m }"

definition stopped_params ::
    "'p hwi \<Rightarrow> sm_evt \<Rightarrow> sm_payload \<Rightarrow> ('p, status) sm_monad \<Rightarrow> ('p, status) sm_monad" where
  "stopped_params E evt pl other = (case evt of
     QCAMERA_SM_EVT_SET_PREVIEW_WINDOW \<Rightarrow> call_answer E evt (C_setPreviewWindow (as_ptr pl))
   | QCAMERA_SM_EVT_SET_CALLBACKS \<Rightarrow> call_answer E evt (C_setCallBacks (as_setcb pl))
   | QCAMERA_SM_EVT_ENABLE_MSG_TYPE \<Rightarrow> do {
       rc \<leftarrow> after_param_init E (call E (C_enableMsgType (as_int pl)));
       answer evt rc;
       ret rc }
   | QCAMERA_SM_EVT_DISABLE_MSG_TYPE \<Rightarrow> do {
       rc \<leftarrow> after_param_init E (call E (C_disableMsgType (as_int pl)));
       answer evt rc;
       ret rc }
   | QCAMERA_SM_EVT_MSG_TYPE_ENABLED \<Rightarrow> MSG_TYPE_ENABLED_block E evt pl
   | QCAMERA_SM_EVT_SET_PARAMS \<Rightarrow> do {
       rc \<leftarrow> after_param_init E (do {
         w \<leftarrow> gets id;
         rc \<leftarrow> call E (C_updateParameters (as_ptr pl));
         modify (\<lambda>v. v\<lparr>m_bPreviewNeedsRestart :=
            hw_needRestart E (as_ptr pl) (m_bPreviewNeedsRestart w) (parent w)\<rparr>);
         ret rc });
       answer evt rc;
       ret rc }
   | QCAMERA_SM_EVT_COMMIT_PARAMS \<Rightarrow> do {
       needs \<leftarrow> gets m_bPreviewNeedsRestart;
       (if needs then call0 E C_memoryPool_clear else skip);
       rc \<leftarrow> call E C_commitParameterChanges;
       modify (\<lambda>v. v\<lparr>m_bPreviewNeedsRestart := False\<rparr>);
       answer evt rc;
       ret rc }
   | QCAMERA_SM_EVT_COMMIT_STOP_PREVIEW \<Rightarrow> do {
       needs \<leftarrow> gets m_bPreviewNeedsRestart;
       (if needs \<or> as_int pl \<noteq> 0 then call0 E C_memoryPool_clear else skip);
       rc \<leftarrow> call E C_commitParameterChanges;
       modify (\<lambda>v. v\<lparr>m_bPreviewNeedsRestart := False\<rparr>);
       answer evt rc;
       ret rc }
   | QCAMERA_SM_EVT_COMMIT_START_PREVIEW \<Rightarrow> do { answer evt NO_ERROR; ret NO_ERROR }
   | QCAMERA_SM_EVT_GET_PARAMS \<Rightarrow> do {
       rc0 \<leftarrow> call E C_waitDeferredWork_mParamInitJob;
       params \<leftarrow> (if rc0 \<noteq> NO_ERROR then ret 0
                  else do {
                    params \<leftarrow> gets (\<lambda>w. hw_params E (parent w));
                    call0 E C_getParameters;
                    ret params });
       let rc = (if params \<noteq> 0 then NO_ERROR else UNKNOWN_ERROR);
       answer_params evt rc params;
       ret rc }
   | QCAMERA_SM_EVT_PUT_PARAMS \<Rightarrow> call_answer E evt (C_putParameters (as_ptr pl))
   | _ \<Rightarrow> other)"

definition stopped_preview ::
    "'p hwi \<Rightarrow> sm_evt \<Rightarrow> sm_payload \<Rightarrow> ('p, status) sm_monad \<Rightarrow> ('p, status) sm_monad" where
  "stopped_preview E evt pl other = (
     let start_preview = do {
       rc0 \<leftarrow> call E C_waitDeferredWork_mParamInitJob;
       window \<leftarrow> query E Q_mPreviewWindow_set;
       rc \<leftarrow> (if rc0 \<noteq> NO_ERROR then ret rc0
             else if \<not> window then do {
               rc \<leftarrow> call E C_preparePreview;
               (if rc = NO_ERROR then set_state QCAMERA_SM_STATE_PREVIEW_READY else skip);
               ret rc }
             else do {
               rc \<leftarrow> call E C_preparePreview;
               if rc = NO_ERROR then do {
                 rc2 \<leftarrow> call E C_startPreview;
                 (if rc2 \<noteq> NO_ERROR then call0 E C_unpreparePreview
                  else set_state QCAMERA_SM_STATE_PREVIEWING);
                 ret rc2 }
               else ret rc });
       answer evt rc;
       ret rc }
     in case evt of
     QCAMERA_SM_EVT_PREPARE_PREVIEW \<Rightarrow> do {
       rc \<leftarrow> after_param_init E (call E C_preparePreview);
       (if rc = NO_ERROR then set_state QCAMERA_SM_STATE_PREVIEW_READY else skip);
       answer evt rc;
       ret rc }
   | QCAMERA_SM_EVT_START_PREVIEW \<Rightarrow> start_preview
   | QCAMERA_SM_EVT_START_NODISPLAY_PREVIEW \<Rightarrow> start_preview
   | QCAMERA_SM_EVT_STOP_PREVIEW \<Rightarrow> do { answer evt NO_ERROR; ret NO_ERROR }
   | QCAMERA_SM_EVT_PREVIEW_ENABLED \<Rightarrow> do { answer_flag evt NO_ERROR 0; ret NO_ERROR }
   | QCAMERA_SM_EVT_RECORDING_ENABLED \<Rightarrow> do { answer_flag evt NO_ERROR 0; ret NO_ERROR }
   | QCAMERA_SM_EVT_PREVIEW_RESTART_NEENED \<Rightarrow>
       do { answer_flag evt NO_ERROR 0; ret NO_ERROR }
   | QCAMERA_SM_EVT_RELEASE \<Rightarrow> call_answer E evt C_release
   | QCAMERA_SM_EVT_STORE_METADATA_IN_BUFS \<Rightarrow>
       call_answer E evt (C_storeMetaDataInBuffers (as_int pl))
   | QCAMERA_SM_EVT_DUMP \<Rightarrow> do {
       rc \<leftarrow> after_param_init E (call E (C_dump (as_int pl)));
       answer evt rc;
       ret rc }
   | QCAMERA_SM_EVT_SEND_COMMAND \<Rightarrow> do {
       rc \<leftarrow> after_param_init E (call E (SEND_COMMAND_call pl));
       answer evt rc;
       ret rc }
   | _ \<Rightarrow> other)"

definition stopped_requests ::
    "'p hwi \<Rightarrow> sm_evt \<Rightarrow> sm_payload \<Rightarrow> ('p, status) sm_monad \<Rightarrow> ('p, status) sm_monad" where
  "stopped_requests E evt pl other = (case evt of
     QCAMERA_SM_EVT_RELEASE_RECORIDNG_FRAME \<Rightarrow> do {
       call0 E (C_closeNativeHandle (as_ptr pl));
       reject evt }
   | QCAMERA_SM_EVT_PRE_START_RECORDING \<Rightarrow> reject evt
   | QCAMERA_SM_EVT_RESTART_STOP_PREVIEW \<Rightarrow> reject evt
   | QCAMERA_SM_EVT_RESTART_START_PREVIEW \<Rightarrow> reject evt
   | QCAMERA_SM_EVT_START_RECORDING \<Rightarrow> reject evt
   | QCAMERA_SM_EVT_STOP_RECORDING \<Rightarrow> reject evt
   | QCAMERA_SM_EVT_PREPARE_SNAPSHOT \<Rightarrow> reject evt
   | QCAMERA_SM_EVT_PRE_TAKE_PICTURE \<Rightarrow> reject evt
   | QCAMERA_SM_EVT_TAKE_PICTURE \<Rightarrow> reject evt
   | QCAMERA_SM_EVT_START_AUTO_FOCUS \<Rightarrow> do { answer evt NO_ERROR; ret NO_ERROR }
   | QCAMERA_SM_EVT_CANCEL_PICTURE \<Rightarrow> do { answer evt NO_ERROR; ret NO_ERROR }
   | QCAMERA_SM_EVT_STOP_AUTO_FOCUS \<Rightarrow> do {
       rc \<leftarrow> after_param_init E (call E C_cancelAutoFocus);
       answer evt rc;
       ret rc }
   | QCAMERA_SM_EVT_REG_FACE_IMAGE \<Rightarrow> REG_FACE_IMAGE_block E evt pl
   | _ \<Rightarrow> other)"

definition stopped_notifications ::
    "'p hwi \<Rightarrow> sm_evt \<Rightarrow> sm_payload \<Rightarrow> ('p, status) sm_monad" where
  "stopped_notifications E evt pl = (case evt of
     QCAMERA_SM_EVT_THERMAL_NOTIFY \<Rightarrow>
       after_param_init E (call E (C_updateThermalLevel (as_ptr pl)))
   | QCAMERA_SM_EVT_EVT_NOTIFY \<Rightarrow> (case as_server_evt pl of
       CAM_EVENT_TYPE_DAEMON_DIED \<Rightarrow> do { DAEMON_DIED_block E; ret NO_ERROR }
     | _ \<Rightarrow> ret NO_ERROR)
   | QCAMERA_SM_EVT_SNAPSHOT_DONE \<Rightarrow> do { answer_evt evt NO_ERROR; ret NO_ERROR }
   | QCAMERA_SM_EVT_EVT_INTERNAL \<Rightarrow> (case as_internal pl of
       (QCAMERA_INTERNAL_EVT_LED_MODE_OVERRIDE, led_data) \<Rightarrow>
         after_param_init E (updateFlashMode_locked E led_data)
     | _ \<Rightarrow> ret NO_ERROR)
   | _ \<Rightarrow> ret NO_ERROR)"

definition procEvtPreviewStoppedState ::
    "'p hwi \<Rightarrow> sm_evt \<Rightarrow> sm_payload \<Rightarrow> ('p, status) sm_monad" where
  "procEvtPreviewStoppedState E evt pl =
     stopped_params E evt pl (stopped_preview E evt pl
       (stopped_requests E evt pl (stopped_notifications E evt pl)))"

section \<open>Preview ready\<close>

definition ready_params ::
    "'p hwi \<Rightarrow> sm_evt \<Rightarrow> sm_payload \<Rightarrow> ('p, status) sm_monad \<Rightarrow> ('p, status) sm_monad" where
  "ready_params E evt pl other = (case evt of
     QCAMERA_SM_EVT_SET_PREVIEW_WINDOW \<Rightarrow> do {
       call0 E (C_setPreviewWindow (as_ptr pl));
       window \<leftarrow> query E Q_mPreviewWindow_set;
       rc \<leftarrow> (if window then do {
               rc \<leftarrow> call E C_startPreview;
               (if rc \<noteq> NO_ERROR then do {
                  call0 E C_unpreparePreview;
                  set_state QCAMERA_SM_STATE_PREVIEW_STOPPED }
                else set_state QCAMERA_SM_STATE_PREVIEWING);
               ret rc }
             else ret NO_ERROR);
       answer evt rc;
       ret rc }
   | QCAMERA_SM_EVT_SET_CALLBACKS \<Rightarrow> call_answer E evt (C_setCallBacks (as_setcb pl))
   | QCAMERA_SM_EVT_ENABLE_MSG_TYPE \<Rightarrow> call_answer E evt (C_enableMsgType (as_int pl))
   | QCAMERA_SM_EVT_DISABLE_MSG_TYPE \<Rightarrow> call_answer E evt (C_disableMsgType (as_int pl))
   | QCAMERA_SM_EVT_MSG_TYPE_ENABLED \<Rightarrow> MSG_TYPE_ENABLED_block E evt pl
   | QCAMERA_SM_EVT_SET_PARAMS \<Rightarrow> SET_PARAMS_block E evt pl
   | QCAMERA_SM_EVT_COMMIT_PARAMS \<Rightarrow> do {
       needs \<leftarrow> gets m_bPreviewNeedsRestart;
       rc \<leftarrow> (if needs then do {
               call0 E C_unpreparePreview;
               call0 E C_memoryPool_clear;
               call0 E C_commitParameterChanges;
               rc \<leftarrow> call E C_preparePreview;
               (if rc \<noteq> NO_ERROR then set_state QCAMERA_SM_STATE_PREVIEW_STOPPED else skip);
               ret rc }
             else call E C_commitParameterChanges);
       modify (\<lambda>v. v\<lparr>m_bPreviewNeedsRestart := False\<rparr>);
       answer evt rc;
       ret rc }
   | QCAMERA_SM_EVT_COMMIT_STOP_PREVIEW \<Rightarrow> do {
       needs \<leftarrow> gets m_bPreviewNeedsRestart;
       rc \<leftarrow> (if needs \<or> as_int pl \<noteq> 0 then do {
               call0 E C_unpreparePreview;
               call0 E C_memoryPool_clear;
               call0 E C_commitParameterChanges;
               ret NO_ERROR }
             else call E C_commitParameterChanges);
       answer evt rc;
       ret rc }
   | QCAMERA_SM_EVT_COMMIT_START_PREVIEW \<Rightarrow> do {
       needs \<leftarrow> gets m_bPreviewNeedsRestart;
       rc \<leftarrow> (if needs \<or> as_int pl \<noteq> 0 then do {
               rc \<leftarrow> call E C_preparePreview;
               (if rc \<noteq> NO_ERROR then set_state QCAMERA_SM_STATE_PREVIEW_STOPPED else skip);
               ret rc }
             else ret NO_ERROR);
       modify (\<lambda>v. v\<lparr>m_bPreviewNeedsRestart := False\<rparr>);
       answer evt rc;
       ret rc }
   | QCAMERA_SM_EVT_GET_PARAMS \<Rightarrow> GET_PARAMS_block E evt
   | QCAMERA_SM_EVT_PUT_PARAMS \<Rightarrow> call_answer E evt (C_putParameters (as_ptr pl))
   | _ \<Rightarrow> other)"

definition ready_preview ::
    "'p hwi \<Rightarrow> sm_evt \<Rightarrow> sm_payload \<Rightarrow> ('p, status) sm_monad \<Rightarrow> ('p, status) sm_monad" where
  "ready_preview E evt pl other = (
     let start_preview = do {
       window \<leftarrow> query E Q_mPreviewWindow_set;
       (if window then do {
          rc \<leftarrow> call E C_startPreview;
          (if rc \<noteq> NO_ERROR then do {
             call0 E C_unpreparePreview;
             set_state QCAMERA_SM_STATE_PREVIEW_STOPPED }
           else set_state QCAMERA_SM_STATE_PREVIEWING) }
        else skip);
       answer evt NO_ERROR;
       ret NO_ERROR }
     in case evt of
     QCAMERA_SM_EVT_PREPARE_PREVIEW \<Rightarrow> do { answer evt NO_ERROR; ret NO_ERROR }
   | QCAMERA_SM_EVT_START_PREVIEW \<Rightarrow> start_preview
   | QCAMERA_SM_EVT_START_NODISPLAY_PREVIEW \<Rightarrow> start_preview
   | QCAMERA_SM_EVT_STOP_PREVIEW \<Rightarrow> do {
       call0 E C_unpreparePreview;
       set_state QCAMERA_SM_STATE_PREVIEW_STOPPED;
       answer evt NO_ERROR;
       ret NO_ERROR }
   | QCAMERA_SM_EVT_PREVIEW_ENABLED \<Rightarrow> do { answer_flag evt NO_ERROR 1; ret NO_ERROR }
   | QCAMERA_SM_EVT_PREVIEW_RESTART_NEENED \<Rightarrow> do {
       needs \<leftarrow> gets m_bPreviewNeedsRestart;
       answer_flag evt NO_ERROR (flag_of needs);
       ret NO_ERROR }
   | QCAMERA_SM_EVT_RECORDING_ENABLED \<Rightarrow> do { answer_flag evt NO_ERROR 0; ret NO_ERROR }
   | QCAMERA_SM_EVT_STORE_METADATA_IN_BUFS \<Rightarrow>
       call_answer E evt (C_storeMetaDataInBuffers (as_int pl))
   | QCAMERA_SM_EVT_DUMP \<Rightarrow> call_answer E evt (C_dump (as_int pl))
   | QCAMERA_SM_EVT_START_AUTO_FOCUS \<Rightarrow> call_answer E evt C_autoFocus
   | QCAMERA_SM_EVT_STOP_AUTO_FOCUS \<Rightarrow> call_answer E evt C_cancelAutoFocus
   | QCAMERA_SM_EVT_SEND_COMMAND \<Rightarrow> call_answer E evt (SEND_COMMAND_call pl)
   | QCAMERA_SM_EVT_REG_FACE_IMAGE \<Rightarrow> REG_FACE_IMAGE_block E evt pl
   | _ \<Rightarrow> other)"

definition ready_requests ::
    "'p hwi \<Rightarrow> sm_evt \<Rightarrow> sm_payload \<Rightarrow> ('p, status) sm_monad \<Rightarrow> ('p, status) sm_monad" where
  "ready_requests E evt pl other = (case evt of
     QCAMERA_SM_EVT_RELEASE_RECORIDNG_FRAME \<Rightarrow> do {
       call0 E (C_closeNativeHandle (as_ptr pl));
       reject evt }
   | QCAMERA_SM_EVT_PRE_START_RECORDING \<Rightarrow> reject evt
   | QCAMERA_SM_EVT_RESTART_STOP_PREVIEW \<Rightarrow> reject evt
   | QCAMERA_SM_EVT_RESTART_START_PREVIEW \<Rightarrow> reject evt
   | QCAMERA_SM_EVT_START_RECORDING \<Rightarrow> reject evt
   | QCAMERA_SM_EVT_STOP_RECORDING \<Rightarrow> reject evt
   | QCAMERA_SM_EVT_PREPARE_SNAPSHOT \<Rightarrow> reject evt
   | QCAMERA_SM_EVT_PRE_TAKE_PICTURE \<Rightarrow> reject evt
   | QCAMERA_SM_EVT_TAKE_PICTURE \<Rightarrow> reject evt
   | QCAMERA_SM_EVT_CANCEL_PICTURE \<Rightarrow> reject evt
   | QCAMERA_SM_EVT_RELEASE \<Rightarrow> reject evt
   | _ \<Rightarrow> other)"

definition ready_notifications ::
    "'p hwi \<Rightarrow> sm_evt \<Rightarrow> sm_payload \<Rightarrow> ('p, status) sm_monad" where
  "ready_notifications E evt pl = (case evt of
     QCAMERA_SM_EVT_EVT_NOTIFY \<Rightarrow> (case as_server_evt pl of
       CAM_EVENT_TYPE_DAEMON_DIED \<Rightarrow> do { DAEMON_DIED_block E; ret NO_ERROR }
     | _ \<Rightarrow> ret NO_ERROR)
   | QCAMERA_SM_EVT_SNAPSHOT_DONE \<Rightarrow> do { answer_evt evt NO_ERROR; ret NO_ERROR }
   | QCAMERA_SM_EVT_EVT_INTERNAL \<Rightarrow> (case as_internal pl of
       (QCAMERA_INTERNAL_EVT_LED_MODE_OVERRIDE, led_data) \<Rightarrow> updateFlashMode_locked E led_data
     | _ \<Rightarrow> ret NO_ERROR)
   | _ \<Rightarrow> ret NO_ERROR)"

definition procEvtPreviewReadyState ::
    "'p hwi \<Rightarrow> sm_evt \<Rightarrow> sm_payload \<Rightarrow> ('p, status) sm_monad" where
  "procEvtPreviewReadyState E evt pl =
     ready_params E evt pl (ready_preview E evt pl
       (ready_requests E evt pl (ready_notifications E evt pl)))"

lemmas stopped_handler_defs [handler_defs] =
  procEvtPreviewStoppedState_def stopped_params_def stopped_preview_def stopped_requests_def
  stopped_notifications_def after_param_init_def

lemmas ready_handler_defs [handler_defs] =
  procEvtPreviewReadyState_def ready_params_def ready_preview_def ready_requests_def
  ready_notifications_def

end
