(* ===== verification/SmPreviewing.thy ===== *)
theory SmPreviewing
  imports SmBase
begin

text \<open>
  The states of a running preview: \<open>QCameraStateMachine::procEvtPreviewingState\<close> and
  \<open>QCameraStateMachine::procEvtPrepareSnapshotState\<close>, split into groups of cases as in
  \<open>SmStopped\<close>.
\<close>

section \<open>Previewing\<close>

definition previewing_messages ::
    "'p hwi \<Rightarrow> sm_evt \<Rightarrow> sm_payload \<Rightarrow> ('p, status) sm_monad \<Rightarrow> ('p, status) sm_monad" where
  "previewing_messages E evt pl other = (case evt of
     QCAMERA_SM_EVT_SET_PREVIEW_WINDOW \<Rightarrow> reject evt
   | QCAMERA_SM_EVT_SET_CALLBACKS \<Rightarrow> call_answer E evt (C_setCallBacks (as_setcb pl))
   | QCAMERA_SM_EVT_ENABLE_MSG_TYPE \<Rightarrow> do {
       delay \<leftarrow> gets m_bDelayPreviewMsgs;
       let frame = hw_preview_frame E;
       enable_msgs \<leftarrow>
         (if delay \<and> as_int pl AND frame \<noteq> 0 then do {
            modify (\<lambda>v. v\<lparr>m_DelayedMsgs := frame\<rparr>);
            ret (as_int pl AND NOT frame) }
          else ret (as_int pl));
       call_answer E evt (C_enableMsgType enable_msgs) }
   | QCAMERA_SM_EVT_DISABLE_MSG_TYPE \<Rightarrow> do {
       w \<leftarrow> gets id;
       (if m_bDelayPreviewMsgs w \<and> m_DelayedMsgs w \<noteq> 0 then do {
          modify (\<lambda>v. v\<lparr>m_DelayedMsgs := m_DelayedMsgs v AND NOT (as_int pl)\<rparr>);
          modify (\<lambda>v. if m_DelayedMsgs v = 0 then v\<lparr>m_bDelayPreviewMsgs := False\<rparr> else v) }
        else skip);
       call_answer E evt (C_disableMsgType (as_int pl)) }
   | QCAMERA_SM_EVT_MSG_TYPE_ENABLED \<Rightarrow> do {
       w \<leftarrow> gets id;
       let enabled = hw_msgTypeEnabled E (as_int pl) (parent w);
       let enabled = (if m_bDelayPreviewMsgs w \<and> m_DelayedMsgs w \<noteq> 0
                      then enabled OR (as_int pl AND m_DelayedMsgs w) else enabled);
       answer_flag evt NO_ERROR enabled;
       ret NO_ERROR }
   | _ \<Rightarrow> other)"

definition previewing_params ::
    "'p hwi \<Rightarrow> sm_evt \<Rightarrow> sm_payload \<Rightarrow> ('p, status) sm_monad \<Rightarrow> ('p, status) sm_monad" where
  "previewing_params E evt pl other = (case evt of
     QCAMERA_SM_EVT_SET_PARAMS \<Rightarrow> SET_PARAMS_block E evt pl
   | QCAMERA_SM_EVT_COMMIT_PARAMS \<Rightarrow> do {
       needs \<leftarrow> gets m_bPreviewNeedsRestart;
       rc \<leftarrow> (if needs then do {
               call0 E C_stopPreview;
               call0 E C_memoryPool_clear;
               call0 E C_commitParameterChanges;
               rc \<leftarrow> prepare_and_start E;
               (if rc \<noteq> NO_ERROR then set_state QCAMERA_SM_STATE_PREVIEW_STOPPED else skip);
               ret rc }
             else call E C_commitParameterChanges);
       modify (\<lambda>v. v\<lparr>m_bPreviewNeedsRestart := False\<rparr>);
       answer evt rc;
       ret rc }
   | QCAMERA_SM_EVT_COMMIT_STOP_PREVIEW \<Rightarrow> do {
       needs \<leftarrow> gets m_bPreviewNeedsRestart;
       rc \<leftarrow> (if needs \<or> as_int pl \<noteq> 0 then do {
               call0 E C_stopPreview;
               call0 E C_memoryPool_clear;
               call0 E C_commitParameterChanges;
               ret NO_ERROR }
             else call E C_commitParameterChanges);
       answer evt rc;
       ret rc }
   | QCAMERA_SM_EVT_COMMIT_START_PREVIEW \<Rightarrow> do {
       needs \<leftarrow> gets m_bPreviewNeedsRestart;
       rc \<leftarrow> (if needs \<or> as_int pl \<noteq> 0 then do {
               rc \<leftarrow> prepare_and_start E;
               (if rc \<noteq> NO_ERROR then set_state QCAMERA_SM_STATE_PREVIEW_STOPPED else skip);
               ret rc }
             else ret NO_ERROR);
       modify (\<lambda>v. v\<lparr>m_bPreviewNeedsRestart := False\<rparr>);
       answer evt rc;
       ret rc }
   | QCAMERA_SM_EVT_GET_PARAMS \<Rightarrow> GET_PARAMS_block E evt
   | QCAMERA_SM_EVT_PUT_PARAMS \<Rightarrow> call_answer E evt (C_putParameters (as_ptr pl))
   | _ \<Rightarrow> other)"

definition previewing_preview ::
    "'p hwi \<Rightarrow> sm_evt \<Rightarrow> sm_payload \<Rightarrow> ('p, status) sm_monad \<Rightarrow> ('p, status) sm_monad" where
  "previewing_preview E evt pl other = (
     let start_preview = do {
       _ \<leftarrow> applyDelayedMsgs E;
       answer evt NO_ERROR;
       ret NO_ERROR }
     in case evt of
     QCAMERA_SM_EVT_PREPARE_PREVIEW \<Rightarrow> do { answer evt NO_ERROR; ret NO_ERROR }
   | QCAMERA_SM_EVT_START_PREVIEW \<Rightarrow> start_preview
   | QCAMERA_SM_EVT_START_NODISPLAY_PREVIEW \<Rightarrow> start_preview
   | QCAMERA_SM_EVT_STOP_PREVIEW \<Rightarrow> do {
       rc \<leftarrow> call E C_stopPreview;
       _ \<leftarrow> applyDelayedMsgs E;
       set_state QCAMERA_SM_STATE_PREVIEW_STOPPED;
       answer evt rc;
       ret rc }
   | QCAMERA_SM_EVT_PREVIEW_ENABLED \<Rightarrow> do {
       _ \<leftarrow> applyDelayedMsgs E;
       answer_flag evt NO_ERROR 1;
       ret NO_ERROR }
   | QCAMERA_SM_EVT_PREVIEW_RESTART_NEENED \<Rightarrow> do {
       _ \<leftarrow> applyDelayedMsgs E;
       needs \<leftarrow> gets m_bPreviewNeedsRestart;
       answer_flag evt NO_ERROR (flag_of needs);
       ret NO_ERROR }
   | QCAMERA_SM_EVT_RECORDING_ENABLED \<Rightarrow> do { answer_flag evt NO_ERROR 0; ret NO_ERROR }
   | QCAMERA_SM_EVT_STORE_METADATA_IN_BUFS \<Rightarrow>
       call_answer E evt (C_storeMetaDataInBuffers (as_int pl))
   | QCAMERA_SM_EVT_DUMP \<Rightarrow> call_answer E evt (C_dump (as_int pl))
   | QCAMERA_SM_EVT_START_AUTO_FOCUS \<Rightarrow> call_answer E evt C_autoFocus
   | QCAMERA_SM_EVT_STOP_AUTO_FOCUS \<Rightarrow> call_answer E evt C_cancelAutoFocus
   | QCAMERA_SM_EVT_PRE_START_RECORDING \<Rightarrow> call_answer E evt C_preStartRecording
   | QCAMERA_SM_EVT_START_RECORDING \<Rightarrow> do {
       rc \<leftarrow> call E C_startRecording;
       (if rc = NO_ERROR then do {
          set_state QCAMERA_SM_STATE_RECORDING;
          _ \<leftarrow> applyDelayedMsgs E;
          skip }
        else skip);
       answer evt rc;
       ret rc }
   | _ \<Rightarrow> other)"

text \<open>
  \<open>TAKE_PICTURE\<close> first restarts the preview when the recording hint is set. The status of that
  restart is overwritten by what follows.
\<close>

definition take_picture_hint :: "'p hwi \<Rightarrow> ('p, unit) sm_monad" where
  "take_picture_hint E = do {
     hint \<leftarrow> query E Q_getRecordingHintValue;
     if hint then do {
       call0 E C_stopPreview;
       call0 E C_lock_m_parm_lock;
       call0 E (C_updateRecordingHintValue False);
       call0 E C_unlock_m_parm_lock;
       _ \<leftarrow> prepare_and_start E;
       skip }
     else skip }"

definition previewing_TAKE_PICTURE :: "'p hwi \<Rightarrow> sm_evt \<Rightarrow> ('p, status) sm_monad" where
  "previewing_TAKE_PICTURE E evt = do {
     take_picture_hint E;
     zsl \<leftarrow> query E Q_isZSLMode;
     longshot \<leftarrow> query E Q_isLongshotEnabled;
     if zsl \<or> longshot then do {
       set_state QCAMERA_SM_STATE_PREVIEW_PIC_TAKING;
       modify (\<lambda>v. v\<lparr>m_bDelayPreviewMsgs := True\<rparr>);
       rc \<leftarrow> call E C_takePicture;
       (if rc \<noteq> NO_ERROR then set_state QCAMERA_SM_STATE_PREVIEWING else skip);
       retro \<leftarrow> query E Q_isRetroPicture;
       (if \<not> retro \<or> rc \<noteq> NO_ERROR then answer evt rc else skip);
       ret rc }
     else do {
       set_state QCAMERA_SM_STATE_PIC_TAKING;
       rc \<leftarrow> call E C_takePicture;
       (if rc \<noteq> NO_ERROR then set_state QCAMERA_SM_STATE_PREVIEW_STOPPED else skip);
       answer evt rc;
       ret rc } }"

definition previewing_capture ::
    "'p hwi \<Rightarrow> sm_evt \<Rightarrow> sm_payload \<Rightarrow> ('p, status) sm_monad \<Rightarrow> ('p, status) sm_monad" where
  "previewing_capture E evt pl other = (case evt of
     QCAMERA_SM_EVT_PREPARE_SNAPSHOT \<Rightarrow> do {
       rc \<leftarrow> call E (C_prepareHardwareForSnapshot False);
       (if rc = NO_ERROR then do {
          set_state QCAMERA_SM_STATE_PREPARE_SNAPSHOT;
          _ \<leftarrow> applyDelayedMsgs E;
          skip }
        else answer evt rc);
       ret rc }
   | QCAMERA_SM_EVT_PRE_TAKE_PICTURE \<Rightarrow> call_answer E evt C_preTakePicture
   | QCAMERA_SM_EVT_TAKE_PICTURE \<Rightarrow> previewing_TAKE_PICTURE E evt
   | QCAMERA_SM_EVT_SEND_COMMAND \<Rightarrow> do {
       rc \<leftarrow> call E (SEND_COMMAND_call pl);
       modify (\<lambda>v. v\<lparr>m_bPreviewNeedsRestart :=
          evt_code QCAMERA_SM_EVT_RESTART_PERVIEW = cp_arg1 (as_cmd pl)\<rparr>);
       modify (\<lambda>v. v\<lparr>m_bPreviewDelayedRestart :=
          evt_code QCAMERA_SM_EVT_DELAYED_RESTART = cp_arg2 (as_cmd pl)\<rparr>);
       w \<leftarrow> gets id;
       rc \<leftarrow> (if cp_cmd (as_cmd pl) = CAMERA_CMD_LONGSHOT_ON \<and> m_bPreviewNeedsRestart w then do {
               call0 E C_stopPreview;
               call0 E C_memoryPool_clear;
               (if \<not> m_bPreviewDelayedRestart w then prepare_and_start E else ret rc) }
             else ret rc);
       answer evt rc;
       ret rc }
   | QCAMERA_SM_EVT_SEND_COMMAND_RESTART \<Rightarrow> do {
       w \<leftarrow> gets id;
       rc \<leftarrow> (if cp_cmd (as_cmd pl) = CAMERA_CMD_LONGSHOT_ON \<and> m_bPreviewNeedsRestart w
                \<and> m_bPreviewDelayedRestart w
             then prepare_and_start E else ret NO_ERROR);
       answer evt rc;
       ret rc }
   | QCAMERA_SM_EVT_REG_FACE_IMAGE \<Rightarrow> REG_FACE_IMAGE_block E evt pl
   | QCAMERA_SM_EVT_RELEASE_RECORIDNG_FRAME \<Rightarrow> do {
       call0 E (C_closeNativeHandle (as_ptr pl));
       reject evt }
   | QCAMERA_SM_EVT_CANCEL_PICTURE \<Rightarrow> reject evt
   | QCAMERA_SM_EVT_STOP_RECORDING \<Rightarrow> reject evt
   | QCAMERA_SM_EVT_RELEASE \<Rightarrow> reject evt
   | _ \<Rightarrow> other)"

definition previewing_internal :: "'p hwi \<Rightarrow> sm_payload \<Rightarrow> ('p, status) sm_monad" where
  "previewing_internal E pl = (case as_internal pl of (evt_type, data) \<Rightarrow> (case evt_type of
     QCAMERA_INTERNAL_EVT_FOCUS_UPDATE \<Rightarrow> call E (C_process processAutoFocusEvent data)
   | QCAMERA_INTERNAL_EVT_PREP_SNAPSHOT_DONE \<Rightarrow> ret NO_ERROR
   | QCAMERA_INTERNAL_EVT_FACE_DETECT_RESULT \<Rightarrow> call E (C_process processFaceDetectionResult data)
   | QCAMERA_INTERNAL_EVT_HISTOGRAM_STATS \<Rightarrow> call E (C_process processHistogramStats data)
   | QCAMERA_INTERNAL_EVT_CROP_INFO \<Rightarrow> call E (C_process processZoomEvent data)
   | QCAMERA_INTERNAL_EVT_ASD_UPDATE \<Rightarrow> call E (C_process processASDUpdate data)
   | QCAMERA_INTERNAL_EVT_LED_MODE_OVERRIDE \<Rightarrow> updateFlashMode_locked E data
   | QCAMERA_INTERNAL_EVT_AWB_UPDATE \<Rightarrow> call E (C_process transAwbMetaToParams data)
   | QCAMERA_INTERNAL_EVT_AE_UPDATE \<Rightarrow> call E (C_process processAEInfo data)
   | QCAMERA_INTERNAL_EVT_FOCUS_POS_UPDATE \<Rightarrow> call E (C_process processFocusPositionInfo data)
   | QCAMERA_INTERNAL_EVT_HDR_UPDATE \<Rightarrow> call E (C_process processHDRData data)
   | QCAMERA_INTERNAL_EVT_RETRO_AEC_UNLOCK \<Rightarrow> call E (C_process processRetroAECUnlock 0)
   | QCAMERA_INTERNAL_EVT_ZSL_CAPTURE_DONE \<Rightarrow> call E (C_process processZSLCaptureDone 0)
   | _ \<Rightarrow> ret NO_ERROR))"

definition previewing_notifications ::
    "'p hwi \<Rightarrow> sm_evt \<Rightarrow> sm_payload \<Rightarrow> ('p, status) sm_monad" where
  "previewing_notifications E evt pl = (case evt of
     QCAMERA_SM_EVT_EVT_INTERNAL \<Rightarrow> previewing_internal E pl
   | QCAMERA_SM_EVT_EVT_NOTIFY \<Rightarrow> (case as_server_evt pl of
       CAM_EVENT_TYPE_DAEMON_DIED \<Rightarrow> do { DAEMON_DIED_block E; ret NO_ERROR }
     | _ \<Rightarrow> ret NO_ERROR)
   | QCAMERA_SM_EVT_THERMAL_NOTIFY \<Rightarrow> call E (C_updateThermalLevel (as_ptr pl))
   | QCAMERA_SM_EVT_SNAPSHOT_DONE \<Rightarrow> do { answer_evt evt NO_ERROR; ret NO_ERROR }
   | QCAMERA_SM_EVT_RESTART_STOP_PREVIEW \<Rightarrow> do {
       call0 E C_stopPreview;
       answer evt NO_ERROR;
       ret NO_ERROR }
   | QCAMERA_SM_EVT_RESTART_START_PREVIEW \<Rightarrow> do {
       rc0 \<leftarrow> call E C_preparePreview;
       rc \<leftarrow> (if rc0 = NO_ERROR then call E C_startPreview else ret rc0);
       answer evt rc;
       ret rc }
   | _ \<Rightarrow> ret NO_ERROR)"

definition procEvtPreviewingState ::
    "'p hwi \<Rightarrow> sm_evt \<Rightarrow> sm_payload \<Rightarrow> ('p, status) sm_monad" where
  "procEvtPreviewingState E evt pl =
     previewing_messages E evt pl (previewing_params E evt pl (previewing_preview E evt pl
       (previewing_capture E evt pl (previewing_notifications E evt pl))))"

section \<open>Preparing a snapshot\<close>

definition prepare_snapshot_requests ::
    "sm_evt \<Rightarrow> ('p, status) sm_monad \<Rightarrow> ('p, status) sm_monad" where
  "prepare_snapshot_requests evt other = (case evt of
     QCAMERA_SM_EVT_SET_PREVIEW_WINDOW \<Rightarrow> reject evt
   | QCAMERA_SM_EVT_SET_CALLBACKS \<Rightarrow> reject evt
   | QCAMERA_SM_EVT_ENABLE_MSG_TYPE \<Rightarrow> reject evt
   | QCAMERA_SM_EVT_DISABLE_MSG_TYPE \<Rightarrow> reject evt
   | QCAMERA_SM_EVT_MSG_TYPE_ENABLED \<Rightarrow> reject evt
   | QCAMERA_SM_EVT_SET_PARAMS \<Rightarrow> reject evt
   | QCAMERA_SM_EVT_GET_PARAMS \<Rightarrow> reject evt
   | QCAMERA_SM_EVT_PUT_PARAMS \<Rightarrow> reject evt
   | QCAMERA_SM_EVT_PREPARE_PREVIEW \<Rightarrow> reject evt
   | QCAMERA_SM_EVT_START_PREVIEW \<Rightarrow> reject evt
   | QCAMERA_SM_EVT_START_NODISPLAY_PREVIEW \<Rightarrow> reject evt
   | QCAMERA_SM_EVT_STOP_PREVIEW \<Rightarrow> reject evt
   | QCAMERA_SM_EVT_PREVIEW_ENABLED \<Rightarrow> reject evt
   | QCAMERA_SM_EVT_PREVIEW_RESTART_NEENED \<Rightarrow> reject evt
   | QCAMERA_SM_EVT_RECORDING_ENABLED \<Rightarrow> reject evt
   | QCAMERA_SM_EVT_STORE_METADATA_IN_BUFS \<Rightarrow> reject evt
   | QCAMERA_SM_EVT_DUMP \<Rightarrow> reject evt
   | QCAMERA_SM_EVT_START_AUTO_FOCUS \<Rightarrow> reject evt
   | QCAMERA_SM_EVT_STOP_AUTO_FOCUS \<Rightarrow> reject evt
   | QCAMERA_SM_EVT_PRE_START_RECORDING \<Rightarrow> reject evt
   | QCAMERA_SM_EVT_RESTART_STOP_PREVIEW \<Rightarrow> reject evt
   | QCAMERA_SM_EVT_RESTART_START_PREVIEW \<Rightarrow> reject evt
   | QCAMERA_SM_EVT_START_RECORDING \<Rightarrow> reject evt
   | QCAMERA_SM_EVT_PRE_TAKE_PICTURE \<Rightarrow> reject evt
   | QCAMERA_SM_EVT_TAKE_PICTURE \<Rightarrow> reject evt
   | QCAMERA_SM_EVT_PREPARE_SNAPSHOT \<Rightarrow> reject evt
   | QCAMERA_SM_EVT_SEND_COMMAND \<Rightarrow> reject evt
   | QCAMERA_SM_EVT_CANCEL_PICTURE \<Rightarrow> reject evt
   | QCAMERA_SM_EVT_STOP_RECORDING \<Rightarrow> reject evt
   | QCAMERA_SM_EVT_RELEASE_RECORIDNG_FRAME \<Rightarrow> reject evt
   | QCAMERA_SM_EVT_RELEASE \<Rightarrow> reject evt
   | _ \<Rightarrow> other)"

definition prepare_snapshot_internal :: "'p hwi \<Rightarrow> sm_payload \<Rightarrow> ('p, status) sm_monad" where
  "prepare_snapshot_internal E pl = (case as_internal pl of (evt_type, data) \<Rightarrow> (case evt_type of
     QCAMERA_INTERNAL_EVT_FOCUS_UPDATE \<Rightarrow> call E (C_process processAutoFocusEvent data)
   | QCAMERA_INTERNAL_EVT_PREP_SNAPSHOT_DONE \<Rightarrow> do {
       call0 E (C_process processPrepSnapshotDoneEvent data);
       set_state QCAMERA_SM_STATE_PREVIEWING;
       answer QCAMERA_SM_EVT_PREPARE_SNAPSHOT NO_ERROR;
       ret NO_ERROR }
   | QCAMERA_INTERNAL_EVT_FACE_DETECT_RESULT \<Rightarrow> call E (C_process processFaceDetectionResult data)
   | QCAMERA_INTERNAL_EVT_HISTOGRAM_STATS \<Rightarrow> call E (C_process processHistogramStats data)
   | QCAMERA_INTERNAL_EVT_CROP_INFO \<Rightarrow> call E (C_process processZoomEvent data)
   | QCAMERA_INTERNAL_EVT_ASD_UPDATE \<Rightarrow> call E (C_process processASDUpdate data)
   | QCAMERA_INTERNAL_EVT_LED_MODE_OVERRIDE \<Rightarrow> ret NO_ERROR
   | QCAMERA_INTERNAL_EVT_AWB_UPDATE \<Rightarrow> call E (C_process transAwbMetaToParams data)
   | QCAMERA_INTERNAL_EVT_AE_UPDATE \<Rightarrow> call E (C_process processAEInfo data)
   | QCAMERA_INTERNAL_EVT_FOCUS_POS_UPDATE \<Rightarrow> call E (C_process processFocusPositionInfo data)
   | QCAMERA_INTERNAL_EVT_HDR_UPDATE \<Rightarrow> call E (C_process processHDRData data)
   | QCAMERA_INTERNAL_EVT_RETRO_AEC_UNLOCK \<Rightarrow> call E (C_process processRetroAECUnlock 0)
   | QCAMERA_INTERNAL_EVT_ZSL_CAPTURE_DONE \<Rightarrow> call E (C_process processZSLCaptureDone 0)
   | _ \<Rightarrow> ret NO_ERROR))"

definition prepare_snapshot_notifications ::
    "'p hwi \<Rightarrow> sm_evt \<Rightarrow> sm_payload \<Rightarrow> ('p, status) sm_monad" where
  "prepare_snapshot_notifications E evt pl = (case evt of
     QCAMERA_SM_EVT_EVT_INTERNAL \<Rightarrow> prepare_snapshot_internal E pl
   | QCAMERA_SM_EVT_EVT_NOTIFY \<Rightarrow> (case as_server_evt pl of
       CAM_EVENT_TYPE_DAEMON_DIED \<Rightarrow> do { DAEMON_DIED_block E; ret NO_ERROR }
     | _ \<Rightarrow> ret NO_ERROR)
   | QCAMERA_SM_EVT_SNAPSHOT_DONE \<Rightarrow> do { answer_evt evt NO_ERROR; ret NO_ERROR }
   | QCAMERA_SM_EVT_THERMAL_NOTIFY \<Rightarrow> call E (C_updateThermalLevel (as_ptr pl))
   | _ \<Rightarrow> ret NO_ERROR)"

definition procEvtPrepareSnapshotState ::
    "'p hwi \<Rightarrow> sm_evt \<Rightarrow> sm_payload \<Rightarrow> ('p, status) sm_monad" where
  "procEvtPrepareSnapshotState E evt pl =
     prepare_snapshot_requests evt (prepare_snapshot_notifications E evt pl)"

lemmas previewing_handler_defs [handler_defs] =
  procEvtPreviewingState_def previewing_messages_def previewing_params_def
  previewing_preview_def previewing_capture_def
  previewing_internal_def previewing_notifications_def

lemmas prepare_snapshot_handler_defs [handler_defs] =
  procEvtPrepareSnapshotState_def prepare_snapshot_requests_def prepare_snapshot_internal_def
  prepare_snapshot_notifications_def

text \<open>
  The restart before a picture has many paths, so the proofs do not unfold it: whatever it does, it changes
  only the parent and appends one of these lists of calls to the history.
\<close>

definition take_picture_hint_calls :: "hwi_call list list" where
  "take_picture_hint_calls = (
     let stop = [C_stopPreview, C_lock_m_parm_lock, C_updateRecordingHintValue False,
                 C_unlock_m_parm_lock, C_preparePreview]
     in [[], stop, stop @ [C_startPreview], stop @ [C_startPreview, C_unpreparePreview]])"

lemma wp_take_picture_hint:
  assumes "\<And>p es. es \<in> set take_picture_hint_calls \<Longrightarrow>
    Q () (w\<lparr>parent := p, trace := trace w @ map Call es\<rparr>)"
  shows "wp (take_picture_hint E) Q w"
proof -
  let ?stop = "[C_stopPreview, C_lock_m_parm_lock, C_updateRecordingHintValue False,
                 C_unlock_m_parm_lock, C_preparePreview]"
  have "Q () w"
    using assms [of "[]" "parent w"] by (simp add: take_picture_hint_calls_def)
  moreover have "Q () (w\<lparr>parent := p, trace := trace w @ map Call ?stop\<rparr>)" for p
    by (rule assms) (simp add: take_picture_hint_calls_def)
  moreover have "Q () (w\<lparr>parent := p, trace := trace w @ map Call (?stop @ [C_startPreview])\<rparr>)" for p
    by (rule assms) (simp add: take_picture_hint_calls_def)
  moreover have "Q () (w\<lparr>parent := p, trace := trace w @
      map Call (?stop @ [C_startPreview, C_unpreparePreview])\<rparr>)" for p
    by (rule assms) (simp add: take_picture_hint_calls_def)
  ultimately show ?thesis
    by (simp add: take_picture_hint_def prepare_and_start_def wp_rules)
qed

text \<open>A fact that holds after each of these lists holds after \<open>TAKE_PICTURE\<close> if it does from there on.\<close>

lemma wp_previewing_TAKE_PICTURE:
  assumes "\<And>p es zsl longshot. es \<in> set take_picture_hint_calls \<Longrightarrow>
     wp (if zsl \<or> longshot then do {
           set_state QCAMERA_SM_STATE_PREVIEW_PIC_TAKING;
           modify (\<lambda>v. v\<lparr>m_bDelayPreviewMsgs := True\<rparr>);
           rc \<leftarrow> call E C_takePicture;
           (if rc \<noteq> NO_ERROR then set_state QCAMERA_SM_STATE_PREVIEWING else skip);
           retro \<leftarrow> query E Q_isRetroPicture;
           (if \<not> retro \<or> rc \<noteq> NO_ERROR then answer evt rc else skip);
           ret rc }
         else do {
           set_state QCAMERA_SM_STATE_PIC_TAKING;
           rc \<leftarrow> call E C_takePicture;
           (if rc \<noteq> NO_ERROR then set_state QCAMERA_SM_STATE_PREVIEW_STOPPED else skip);
           answer evt rc;
           ret rc }) Q (w\<lparr>parent := p, trace := trace w @ map Call es\<rparr>)"
  shows "wp (previewing_TAKE_PICTURE E evt) Q w"
  unfolding previewing_TAKE_PICTURE_def wp_bind
  by (rule wp_take_picture_hint) (simp only: wp_query assms)

end
