(* ===== verification/SmCapture.thy ===== *)
theory SmCapture
  imports SmBase
begin

text \<open>
  The states that take a picture without recording: \<open>QCameraStateMachine::procEvtPicTakingState\<close>
  (the preview is stopped) and \<open>QCameraStateMachine::procEvtPreviewPicTakingState\<close> (the preview
  keeps running). \<open>#ifndef VANILLA_HAL\<close> is taken: the build defines no such macro.
\<close>

section \<open>Taking a picture\<close>

definition pic_taking_params ::
    "'p hwi \<Rightarrow> sm_evt \<Rightarrow> sm_payload \<Rightarrow> ('p, status) sm_monad \<Rightarrow> ('p, status) sm_monad" where
  "pic_taking_params E evt pl other = (
     let commit = do {
       rc \<leftarrow> call E C_commitParameterChanges;
       modify (\<lambda>v. v\<lparr>m_bPreviewNeedsRestart := False\<rparr>);
       answer evt rc;
       ret rc }
     in case evt of
     QCAMERA_SM_EVT_SET_PREVIEW_WINDOW \<Rightarrow> reject evt
   | QCAMERA_SM_EVT_SET_CALLBACKS \<Rightarrow> call_answer E evt (C_setCallBacks (as_setcb pl))
   | QCAMERA_SM_EVT_ENABLE_MSG_TYPE \<Rightarrow> call_answer E evt (C_enableMsgType (as_int pl))
   | QCAMERA_SM_EVT_DISABLE_MSG_TYPE \<Rightarrow> call_answer E evt (C_disableMsgType (as_int pl))
   | QCAMERA_SM_EVT_MSG_TYPE_ENABLED \<Rightarrow> MSG_TYPE_ENABLED_block E evt pl
   | QCAMERA_SM_EVT_SET_PARAMS \<Rightarrow> SET_PARAMS_block E evt pl
   | QCAMERA_SM_EVT_COMMIT_PARAMS \<Rightarrow> commit
   | QCAMERA_SM_EVT_COMMIT_STOP_PREVIEW \<Rightarrow> commit
   | QCAMERA_SM_EVT_COMMIT_START_PREVIEW \<Rightarrow> do { answer_evt evt NO_ERROR; ret NO_ERROR }
   | QCAMERA_SM_EVT_GET_PARAMS \<Rightarrow> GET_PARAMS_block E evt
   | QCAMERA_SM_EVT_PUT_PARAMS \<Rightarrow> call_answer E evt (C_putParameters (as_ptr pl))
   | _ \<Rightarrow> other)"

definition pic_taking_preview ::
    "'p hwi \<Rightarrow> sm_evt \<Rightarrow> sm_payload \<Rightarrow> ('p, status) sm_monad \<Rightarrow> ('p, status) sm_monad" where
  "pic_taking_preview E evt pl other = (case evt of
     QCAMERA_SM_EVT_STOP_PREVIEW \<Rightarrow> do {
       rc \<leftarrow> call E C_cancelPicture;
       set_state QCAMERA_SM_STATE_PREVIEW_STOPPED;
       answer evt rc;
       ret rc }
   | QCAMERA_SM_EVT_PREVIEW_ENABLED \<Rightarrow> do { answer_flag evt NO_ERROR 0; ret NO_ERROR }
   | QCAMERA_SM_EVT_PREVIEW_RESTART_NEENED \<Rightarrow> do {
       needs \<leftarrow> gets m_bPreviewNeedsRestart;
       answer_flag evt NO_ERROR (flag_of needs);
       ret NO_ERROR }
   | QCAMERA_SM_EVT_RECORDING_ENABLED \<Rightarrow> do { answer_flag evt NO_ERROR 0; ret NO_ERROR }
   | QCAMERA_SM_EVT_STORE_METADATA_IN_BUFS \<Rightarrow>
       call_answer E evt (C_storeMetaDataInBuffers (as_int pl))
   | QCAMERA_SM_EVT_DUMP \<Rightarrow> call_answer E evt (C_dump (as_int pl))
   | QCAMERA_SM_EVT_START_AUTO_FOCUS \<Rightarrow> call_answer E evt C_autoFocus
   | QCAMERA_SM_EVT_STOP_AUTO_FOCUS \<Rightarrow> call_answer E evt C_cancelAutoFocus
   | QCAMERA_SM_EVT_SEND_COMMAND \<Rightarrow> do {
       rc \<leftarrow> call E (SEND_COMMAND_call pl);
       (if cp_cmd (as_cmd pl) = CAMERA_CMD_LONGSHOT_OFF
        then set_state QCAMERA_SM_STATE_PREVIEWING else skip);
       answer evt rc;
       ret rc }
   | QCAMERA_SM_EVT_CANCEL_PICTURE \<Rightarrow> do {
       rc \<leftarrow> call E C_cancelPicture;
       set_state QCAMERA_SM_STATE_PREVIEW_STOPPED;
       answer evt rc;
       ret rc }
   | QCAMERA_SM_EVT_REG_FACE_IMAGE \<Rightarrow> REG_FACE_IMAGE_block E evt pl
   | _ \<Rightarrow> other)"

definition pic_taking_requests ::
    "'p hwi \<Rightarrow> sm_evt \<Rightarrow> ('p, status) sm_monad \<Rightarrow> ('p, status) sm_monad" where
  "pic_taking_requests E evt other = (case evt of
     QCAMERA_SM_EVT_PRE_TAKE_PICTURE \<Rightarrow> do {
       longshot \<leftarrow> query E Q_isLongshotEnabled;
       let rc = (if longshot then NO_ERROR else INVALID_OPERATION);
       answer evt rc;
       ret rc }
   | QCAMERA_SM_EVT_TAKE_PICTURE \<Rightarrow> do {
       longshot \<leftarrow> query E Q_isLongshotEnabled;
       rc \<leftarrow> (if longshot then call E C_longShot else ret INVALID_OPERATION);
       answer evt rc;
       ret rc }
   | QCAMERA_SM_EVT_PREPARE_SNAPSHOT \<Rightarrow> reject evt
   | QCAMERA_SM_EVT_PRE_START_RECORDING \<Rightarrow> reject evt
   | QCAMERA_SM_EVT_RESTART_STOP_PREVIEW \<Rightarrow> reject evt
   | QCAMERA_SM_EVT_RESTART_START_PREVIEW \<Rightarrow> reject evt
   | QCAMERA_SM_EVT_START_RECORDING \<Rightarrow> reject evt
   | QCAMERA_SM_EVT_STOP_RECORDING \<Rightarrow> reject evt
   | QCAMERA_SM_EVT_RELEASE_RECORIDNG_FRAME \<Rightarrow> reject evt
   | QCAMERA_SM_EVT_PREPARE_PREVIEW \<Rightarrow> reject evt
   | QCAMERA_SM_EVT_START_PREVIEW \<Rightarrow> reject evt
   | QCAMERA_SM_EVT_START_NODISPLAY_PREVIEW \<Rightarrow> reject evt
   | QCAMERA_SM_EVT_RELEASE \<Rightarrow> reject evt
   | _ \<Rightarrow> other)"

definition pic_taking_internal :: "'p hwi \<Rightarrow> sm_payload \<Rightarrow> ('p, status) sm_monad" where
  "pic_taking_internal E pl = (case as_internal pl of (evt_type, data) \<Rightarrow> (case evt_type of
     QCAMERA_INTERNAL_EVT_FOCUS_UPDATE \<Rightarrow> call E (C_process processAutoFocusEvent data)
   | QCAMERA_INTERNAL_EVT_PREP_SNAPSHOT_DONE \<Rightarrow> ret NO_ERROR
   | QCAMERA_INTERNAL_EVT_FACE_DETECT_RESULT \<Rightarrow> ret NO_ERROR
   | QCAMERA_INTERNAL_EVT_HISTOGRAM_STATS \<Rightarrow> ret NO_ERROR
   | QCAMERA_INTERNAL_EVT_CROP_INFO \<Rightarrow> call E (C_process processZoomEvent data)
   | QCAMERA_INTERNAL_EVT_ASD_UPDATE \<Rightarrow> call E (C_process processASDUpdate data)
   | QCAMERA_INTERNAL_EVT_LED_MODE_OVERRIDE \<Rightarrow> ret NO_ERROR
   | QCAMERA_INTERNAL_EVT_AWB_UPDATE \<Rightarrow> call E (C_process transAwbMetaToParams data)
   | QCAMERA_INTERNAL_EVT_AE_UPDATE \<Rightarrow> call E (C_process processAEInfo data)
   | QCAMERA_INTERNAL_EVT_FOCUS_POS_UPDATE \<Rightarrow> call E (C_process processFocusPositionInfo data)
   | QCAMERA_INTERNAL_EVT_HDR_UPDATE \<Rightarrow> call E (C_process processHDRData data)
   | QCAMERA_INTERNAL_EVT_RETRO_AEC_UNLOCK \<Rightarrow> call E (C_process processRetroAECUnlock 0)
   | QCAMERA_INTERNAL_EVT_ZSL_CAPTURE_DONE \<Rightarrow> call E (C_process processZSLCaptureDone 0)
   | _ \<Rightarrow> ret NO_ERROR))"

text \<open>The server's \<open>CAC_DONE\<close>, the same in both states.\<close>

definition CAC_DONE_block :: "'p hwi \<Rightarrow> ('p, unit) sm_monad" where
  "CAC_DONE_block E = do {
     cac \<leftarrow> query E Q_isCACEnabled;
     if cac then do {
       longshot \<leftarrow> query E Q_isLongshotEnabled;
       shutter \<leftarrow> query E Q_isCaptureShutterEnabled;
       (if longshot \<and> \<not> shutter then call0 E C_playShutter else skip);
       call0 E C_set_mCACDoneReceived }
     else skip }"

definition pic_taking_server_evt :: "'p hwi \<Rightarrow> sm_payload \<Rightarrow> ('p, status) sm_monad" where
  "pic_taking_server_evt E pl = (case as_server_evt pl of
     CAM_EVENT_TYPE_DAEMON_DIED \<Rightarrow> do {
       answer QCAMERA_SM_EVT_PREPARE_SNAPSHOT NO_ERROR;
       answer QCAMERA_SM_EVT_TAKE_PICTURE NO_ERROR;
       DAEMON_DIED_block E;
       ret NO_ERROR }
   | CAM_EVENT_TYPE_CAC_DONE \<Rightarrow> do { CAC_DONE_block E; ret NO_ERROR }
   | _ \<Rightarrow> ret NO_ERROR)"

definition pic_taking_notifications ::
    "'p hwi \<Rightarrow> sm_evt \<Rightarrow> sm_payload \<Rightarrow> ('p, status) sm_monad" where
  "pic_taking_notifications E evt pl = (case evt of
     QCAMERA_SM_EVT_EVT_INTERNAL \<Rightarrow> pic_taking_internal E pl
   | QCAMERA_SM_EVT_EVT_NOTIFY \<Rightarrow> pic_taking_server_evt E pl
   | QCAMERA_SM_EVT_JPEG_EVT_NOTIFY \<Rightarrow> call E (C_processJpegNotify (as_ptr pl))
   | QCAMERA_SM_EVT_STOP_CAPTURE_CHANNEL \<Rightarrow> do {
       restartPreview \<leftarrow> query E Q_isPreviewRestartEnabled;
       rc1 \<leftarrow> call E (C_stopCaptureChannel restartPreview);
       rc \<leftarrow> (if restartPreview \<and> rc1 = NO_ERROR then do {
               rc2 \<leftarrow> call E C_preparePreview;
               if rc2 = NO_ERROR then do {
                 call0 E C_set_m_bPreviewStarted;
                 call E C_startPreview }
               else ret rc2 }
             else ret rc1);
       answer evt rc;
       ret rc }
   | QCAMERA_SM_EVT_SNAPSHOT_DONE \<Rightarrow> do {
       rc \<leftarrow> call E C_cancelPicture;
       restartPreview \<leftarrow> query E Q_isPreviewRestartEnabled;
       (if restartPreview then set_state QCAMERA_SM_STATE_PREVIEWING
        else set_state QCAMERA_SM_STATE_PREVIEW_STOPPED);
       answer_evt evt rc;
       ret rc }
   | QCAMERA_SM_EVT_THERMAL_NOTIFY \<Rightarrow> call E (C_updateThermalLevel (as_ptr pl))
   | _ \<Rightarrow> ret NO_ERROR)"

definition procEvtPicTakingState ::
    "'p hwi \<Rightarrow> sm_evt \<Rightarrow> sm_payload \<Rightarrow> ('p, status) sm_monad" where
  "procEvtPicTakingState E evt pl =
     pic_taking_params E evt pl (pic_taking_preview E evt pl
       (pic_taking_requests E evt (pic_taking_notifications E evt pl)))"

section \<open>Taking a picture while previewing\<close>

definition preview_pic_params ::
    "'p hwi \<Rightarrow> sm_evt \<Rightarrow> sm_payload \<Rightarrow> ('p, status) sm_monad \<Rightarrow> ('p, status) sm_monad" where
  "preview_pic_params E evt pl other = (case evt of
     QCAMERA_SM_EVT_SET_CALLBACKS \<Rightarrow> call_answer E evt (C_setCallBacks (as_setcb pl))
   | QCAMERA_SM_EVT_ENABLE_MSG_TYPE \<Rightarrow> call_answer E evt (C_enableMsgType (as_int pl))
   | QCAMERA_SM_EVT_DISABLE_MSG_TYPE \<Rightarrow> call_answer E evt (C_disableMsgType (as_int pl))
   | QCAMERA_SM_EVT_MSG_TYPE_ENABLED \<Rightarrow> MSG_TYPE_ENABLED_block E evt pl
   | QCAMERA_SM_EVT_SET_PARAMS \<Rightarrow> SET_PARAMS_block E evt pl
   | QCAMERA_SM_EVT_COMMIT_PARAMS \<Rightarrow> do {
       needs \<leftarrow> gets m_bPreviewNeedsRestart;
       rc \<leftarrow> (if needs then do {
               call0 E C_stopPreview;
               call0 E C_memoryPool_clear;
               call0 E C_commitParameterChanges;
               rc \<leftarrow> prepare_and_start E;
               (if rc \<noteq> NO_ERROR then set_state QCAMERA_SM_STATE_PIC_TAKING else skip);
               ret rc }
             else call E C_commitParameterChanges);
       modify (\<lambda>v. v\<lparr>m_bPreviewNeedsRestart := False\<rparr>);
       answer evt rc;
       ret rc }
   | QCAMERA_SM_EVT_COMMIT_STOP_PREVIEW \<Rightarrow> do {
       needs \<leftarrow> gets m_bPreviewNeedsRestart;
       rc \<leftarrow> (if needs \<or> as_int pl \<noteq> 0 then do {
               call0 E C_stopPreview;
               call0 E C_memoryPool_clear;
               call0 E C_commitParameterChanges;
               ret NO_ERROR }
             else call E C_commitParameterChanges);
       answer evt rc;
       ret rc }
   | QCAMERA_SM_EVT_COMMIT_START_PREVIEW \<Rightarrow> do {
       needs \<leftarrow> gets m_bPreviewNeedsRestart;
       rc \<leftarrow> (if needs \<or> as_int pl \<noteq> 0 then do {
               rc \<leftarrow> prepare_and_start E;
               (if rc \<noteq> NO_ERROR then set_state QCAMERA_SM_STATE_PIC_TAKING else skip);
               ret rc }
             else ret NO_ERROR);
       modify (\<lambda>v. v\<lparr>m_bPreviewNeedsRestart := False\<rparr>);
       answer evt rc;
       ret rc }
   | QCAMERA_SM_EVT_GET_PARAMS \<Rightarrow> GET_PARAMS_block E evt
   | QCAMERA_SM_EVT_PUT_PARAMS \<Rightarrow> call_answer E evt (C_putParameters (as_ptr pl))
   | _ \<Rightarrow> other)"

definition preview_pic_preview ::
    "'p hwi \<Rightarrow> sm_evt \<Rightarrow> sm_payload \<Rightarrow> ('p, status) sm_monad \<Rightarrow> ('p, status) sm_monad" where
  "preview_pic_preview E evt pl other = (case evt of
     QCAMERA_SM_EVT_PREVIEW_ENABLED \<Rightarrow> do { answer_flag evt NO_ERROR 1; ret NO_ERROR }
   | QCAMERA_SM_EVT_PREVIEW_RESTART_NEENED \<Rightarrow> do {
       needs \<leftarrow> gets m_bPreviewNeedsRestart;
       answer_flag evt NO_ERROR (flag_of needs);
       ret NO_ERROR }
   | QCAMERA_SM_EVT_RECORDING_ENABLED \<Rightarrow> do { answer_flag evt NO_ERROR 0; ret NO_ERROR }
   | QCAMERA_SM_EVT_STORE_METADATA_IN_BUFS \<Rightarrow>
       call_answer E evt (C_storeMetaDataInBuffers (as_int pl))
   | QCAMERA_SM_EVT_DUMP \<Rightarrow> call_answer E evt (C_dump (as_int pl))
   | QCAMERA_SM_EVT_START_AUTO_FOCUS \<Rightarrow> call_answer E evt C_autoFocus
   | QCAMERA_SM_EVT_STOP_AUTO_FOCUS \<Rightarrow> call_answer E evt C_cancelAutoFocus
   | QCAMERA_SM_EVT_SEND_COMMAND \<Rightarrow> do {
       rc \<leftarrow> call E (SEND_COMMAND_call pl);
       (if cp_cmd (as_cmd pl) = CAMERA_CMD_LONGSHOT_OFF
        then set_state QCAMERA_SM_STATE_PREVIEWING else skip);
       answer evt rc;
       ret rc }
   | QCAMERA_SM_EVT_RELEASE_RECORIDNG_FRAME \<Rightarrow>
       call_answer E evt (C_releaseRecordingFrame (as_ptr pl))
   | QCAMERA_SM_EVT_CANCEL_PICTURE \<Rightarrow> do {
       zsl \<leftarrow> query E Q_isZSLMode;
       longshot \<leftarrow> query E Q_isLongshotEnabled;
       rc \<leftarrow> (if zsl \<or> longshot then call E C_cancelPicture else call E C_cancelLiveSnapshot);
       set_state QCAMERA_SM_STATE_PREVIEWING;
       answer evt rc;
       ret rc }
   | QCAMERA_SM_EVT_STOP_PREVIEW \<Rightarrow> do {
       zsl \<leftarrow> query E Q_isZSLMode;
       longshot \<leftarrow> query E Q_isLongshotEnabled;
       rc \<leftarrow> (if zsl then do {
               rc \<leftarrow> call E C_cancelPicture;
               call0 E (C_stopChannel QCAMERA_CH_TYPE_ZSL);
               ret rc }
             else if longshot then call E C_cancelPicture
             else do {
               rc \<leftarrow> call E C_cancelLiveSnapshot;
               call0 E (C_stopChannel QCAMERA_CH_TYPE_PREVIEW);
               ret rc });
       call0 E C_unpreparePreview;
       set_state QCAMERA_SM_STATE_PREVIEW_STOPPED;
       answer evt rc;
       ret rc }
   | _ \<Rightarrow> other)"

definition preview_pic_requests ::
    "'p hwi \<Rightarrow> sm_evt \<Rightarrow> sm_payload \<Rightarrow> ('p, status) sm_monad \<Rightarrow> ('p, status) sm_monad" where
  "preview_pic_requests E evt pl other = (case evt of
     QCAMERA_SM_EVT_PRE_START_RECORDING \<Rightarrow> do {
       zsl \<leftarrow> query E Q_isZSLMode;
       longshot \<leftarrow> query E Q_isLongshotEnabled;
       rc \<leftarrow> (if zsl then ret INVALID_OPERATION
             else if longshot then ret INVALID_OPERATION
             else call E C_preStartRecording);
       answer evt rc;
       ret rc }
   | QCAMERA_SM_EVT_START_RECORDING \<Rightarrow> do {
       zsl \<leftarrow> query E Q_isZSLMode;
       longshot \<leftarrow> query E Q_isLongshotEnabled;
       rc \<leftarrow> (if zsl then ret INVALID_OPERATION
             else if longshot then ret INVALID_OPERATION
             else do {
               rc \<leftarrow> call E C_startRecording;
               (if rc = NO_ERROR then set_state QCAMERA_SM_STATE_VIDEO_PIC_TAKING else skip);
               ret rc });
       answer evt rc;
       ret rc }
   | QCAMERA_SM_EVT_REG_FACE_IMAGE \<Rightarrow> REG_FACE_IMAGE_block E evt pl
   | QCAMERA_SM_EVT_PRE_TAKE_PICTURE \<Rightarrow> do {
       longshot \<leftarrow> query E Q_isLongshotEnabled;
       let rc = (if longshot then NO_ERROR else INVALID_OPERATION);
       answer evt rc;
       ret rc }
   | QCAMERA_SM_EVT_TAKE_PICTURE \<Rightarrow> do {
       longshot \<leftarrow> query E Q_isLongshotEnabled;
       rc \<leftarrow> (if longshot then call E C_longShot else ret INVALID_OPERATION);
       answer evt rc;
       ret rc }
   | QCAMERA_SM_EVT_PREPARE_SNAPSHOT \<Rightarrow> do {
       retro \<leftarrow> query E Q_isRetroPicture;
       if retro then do {
         rc \<leftarrow> call E (C_prepareHardwareForSnapshot False);
         (if rc \<noteq> NO_ERROR then answer evt rc else skip);
         ret rc }
       else reject evt }
   | QCAMERA_SM_EVT_STOP_RECORDING \<Rightarrow> reject evt
   | QCAMERA_SM_EVT_PREPARE_PREVIEW \<Rightarrow> reject evt
   | QCAMERA_SM_EVT_START_PREVIEW \<Rightarrow> reject evt
   | QCAMERA_SM_EVT_START_NODISPLAY_PREVIEW \<Rightarrow> reject evt
   | QCAMERA_SM_EVT_SET_PREVIEW_WINDOW \<Rightarrow> reject evt
   | QCAMERA_SM_EVT_RELEASE \<Rightarrow> reject evt
   | _ \<Rightarrow> other)"

definition preview_pic_internal :: "'p hwi \<Rightarrow> sm_payload \<Rightarrow> ('p, status) sm_monad" where
  "preview_pic_internal E pl = (case as_internal pl of (evt_type, data) \<Rightarrow> (case evt_type of
     QCAMERA_INTERNAL_EVT_FOCUS_UPDATE \<Rightarrow> call E (C_process processAutoFocusEvent data)
   | QCAMERA_INTERNAL_EVT_PREP_SNAPSHOT_DONE \<Rightarrow> do {
       retro \<leftarrow> query E Q_isRetroPicture;
       (if retro then do {
          call0 E (C_process processPrepSnapshotDoneEvent data);
          answer QCAMERA_SM_EVT_PREPARE_SNAPSHOT NO_ERROR }
        else skip);
       ret NO_ERROR }
   | QCAMERA_INTERNAL_EVT_FACE_DETECT_RESULT \<Rightarrow> call E (C_process processFaceDetectionResult data)
   | QCAMERA_INTERNAL_EVT_READY_FOR_SNAPSHOT \<Rightarrow> do {
       retro \<leftarrow> query E Q_isRetroPicture;
       (if retro then answer QCAMERA_SM_EVT_TAKE_PICTURE NO_ERROR else skip);
       ret NO_ERROR }
   | QCAMERA_INTERNAL_EVT_HISTOGRAM_STATS \<Rightarrow> call E (C_process processHistogramStats data)
   | QCAMERA_INTERNAL_EVT_CROP_INFO \<Rightarrow> call E (C_process processZoomEvent data)
   | QCAMERA_INTERNAL_EVT_ASD_UPDATE \<Rightarrow> call E (C_process processASDUpdate data)
   | QCAMERA_INTERNAL_EVT_LED_MODE_OVERRIDE \<Rightarrow> ret NO_ERROR
   | QCAMERA_INTERNAL_EVT_AWB_UPDATE \<Rightarrow> call E (C_process transAwbMetaToParams data)
   | QCAMERA_INTERNAL_EVT_AE_UPDATE \<Rightarrow> call E (C_process processAEInfo data)
   | QCAMERA_INTERNAL_EVT_FOCUS_POS_UPDATE \<Rightarrow> call E (C_process processFocusPositionInfo data)
   | QCAMERA_INTERNAL_EVT_HDR_UPDATE \<Rightarrow> call E (C_process processHDRData data)
   | QCAMERA_INTERNAL_EVT_RETRO_AEC_UNLOCK \<Rightarrow> call E (C_process processRetroAECUnlock 0)
   | QCAMERA_INTERNAL_EVT_ZSL_CAPTURE_DONE \<Rightarrow> call E (C_process processZSLCaptureDone 0)))"

definition preview_pic_notifications ::
    "'p hwi \<Rightarrow> sm_evt \<Rightarrow> sm_payload \<Rightarrow> ('p, status) sm_monad" where
  "preview_pic_notifications E evt pl = (case evt of
     QCAMERA_SM_EVT_EVT_INTERNAL \<Rightarrow> preview_pic_internal E pl
   | QCAMERA_SM_EVT_EVT_NOTIFY \<Rightarrow> (case as_server_evt pl of
       CAM_EVENT_TYPE_DAEMON_DIED \<Rightarrow> do { DAEMON_DIED_block E; ret NO_ERROR }
     | CAM_EVENT_TYPE_CAC_DONE \<Rightarrow> do { CAC_DONE_block E; ret NO_ERROR }
     | _ \<Rightarrow> ret NO_ERROR)
   | QCAMERA_SM_EVT_JPEG_EVT_NOTIFY \<Rightarrow> call E (C_processJpegNotify (as_ptr pl))
   | QCAMERA_SM_EVT_SNAPSHOT_DONE \<Rightarrow> do {
       zsl \<leftarrow> query E Q_isZSLMode;
       longshot \<leftarrow> query E Q_isLongshotEnabled;
       rc \<leftarrow> (if zsl \<or> longshot then call E C_cancelPicture else call E C_cancelLiveSnapshot);
       set_state QCAMERA_SM_STATE_PREVIEWING;
       retro \<leftarrow> query E Q_isRetroPicture;
       (if retro then answer evt rc else skip);
       answer_evt evt rc;
       ret rc }
   | QCAMERA_SM_EVT_THERMAL_NOTIFY \<Rightarrow> call E (C_updateThermalLevel (as_ptr pl))
   | QCAMERA_SM_EVT_RESTART_STOP_PREVIEW \<Rightarrow> do {
       call0 E C_stopPreview;
       answer evt NO_ERROR;
       ret NO_ERROR }
   | QCAMERA_SM_EVT_RESTART_START_PREVIEW \<Rightarrow> do {
       rc0 \<leftarrow> call E C_preparePreview;
       rc \<leftarrow> (if rc0 = NO_ERROR then call E C_startPreview else ret rc0);
       answer evt rc;
       ret rc }
   | _ \<Rightarrow> ret NO_ERROR)"

definition procEvtPreviewPicTakingState ::
    "'p hwi \<Rightarrow> sm_evt \<Rightarrow> sm_payload \<Rightarrow> ('p, status) sm_monad" where
  "procEvtPreviewPicTakingState E evt pl =
     preview_pic_params E evt pl (preview_pic_preview E evt pl
       (preview_pic_requests E evt pl (preview_pic_notifications E evt pl)))"

lemmas pic_taking_handler_defs [handler_defs] =
  procEvtPicTakingState_def pic_taking_params_def pic_taking_preview_def pic_taking_requests_def
  pic_taking_internal_def pic_taking_server_evt_def pic_taking_notifications_def
  CAC_DONE_block_def

lemmas preview_pic_handler_defs [handler_defs] =
  procEvtPreviewPicTakingState_def preview_pic_params_def preview_pic_preview_def
  preview_pic_requests_def preview_pic_internal_def preview_pic_notifications_def

end
