(* ===== verification/SmRecording.thy ===== *)
theory SmRecording
  imports SmBase
begin

text \<open>
  The recording states: \<open>QCameraStateMachine::procEvtRecordingState\<close> and
  \<open>QCameraStateMachine::procEvtVideoPicTakingState\<close> (a live snapshot during recording).
\<close>

section \<open>Recording\<close>

definition recording_params ::
    "'p hwi \<Rightarrow> sm_evt \<Rightarrow> sm_payload \<Rightarrow> ('p, status) sm_monad \<Rightarrow> ('p, status) sm_monad" where
  "recording_params E evt pl other = (case evt of
     QCAMERA_SM_EVT_PREPARE_PREVIEW \<Rightarrow> do { answer evt NO_ERROR; ret NO_ERROR }
   | QCAMERA_SM_EVT_START_PREVIEW \<Rightarrow> do { answer evt NO_ERROR; ret NO_ERROR }
   | QCAMERA_SM_EVT_SET_PREVIEW_WINDOW \<Rightarrow> do { answer evt NO_ERROR; ret NO_ERROR }
   | QCAMERA_SM_EVT_SET_CALLBACKS \<Rightarrow> call_answer E evt (C_setCallBacks (as_setcb pl))
   | QCAMERA_SM_EVT_ENABLE_MSG_TYPE \<Rightarrow> call_answer E evt (C_enableMsgType (as_int pl))
   | QCAMERA_SM_EVT_DISABLE_MSG_TYPE \<Rightarrow> call_answer E evt (C_disableMsgType (as_int pl))
   | QCAMERA_SM_EVT_MSG_TYPE_ENABLED \<Rightarrow> MSG_TYPE_ENABLED_block E evt pl
   | QCAMERA_SM_EVT_SET_PARAMS \<Rightarrow> SET_PARAMS_block E evt pl
   | QCAMERA_SM_EVT_COMMIT_PARAMS \<Rightarrow> do {
       needs \<leftarrow> gets m_bPreviewNeedsRestart;
       rc \<leftarrow> (if needs then ret BAD_VALUE else call E C_commitParameterChanges);
       modify (\<lambda>v. v\<lparr>m_bPreviewNeedsRestart := False\<rparr>);
       answer evt rc;
       ret rc }
   | QCAMERA_SM_EVT_COMMIT_STOP_PREVIEW \<Rightarrow> do {
       needs \<leftarrow> gets m_bPreviewNeedsRestart;
       rc \<leftarrow> (if needs \<or> as_int pl \<noteq> 0 then ret BAD_VALUE else call E C_commitParameterChanges);
       modify (\<lambda>v. v\<lparr>m_bPreviewNeedsRestart := False\<rparr>);
       answer evt rc;
       ret rc }
   | QCAMERA_SM_EVT_COMMIT_START_PREVIEW \<Rightarrow> do { answer evt NO_ERROR; ret NO_ERROR }
   | QCAMERA_SM_EVT_GET_PARAMS \<Rightarrow> GET_PARAMS_block E evt
   | QCAMERA_SM_EVT_PUT_PARAMS \<Rightarrow> call_answer E evt (C_putParameters (as_ptr pl))
   | _ \<Rightarrow> other)"

definition recording_queries ::
    "'p hwi \<Rightarrow> sm_evt \<Rightarrow> sm_payload \<Rightarrow> ('p, status) sm_monad \<Rightarrow> ('p, status) sm_monad" where
  "recording_queries E evt pl other = (case evt of
     QCAMERA_SM_EVT_PREVIEW_ENABLED \<Rightarrow> do { answer_flag evt NO_ERROR 0; ret NO_ERROR }
   | QCAMERA_SM_EVT_PREVIEW_RESTART_NEENED \<Rightarrow> do {
       needs \<leftarrow> gets m_bPreviewNeedsRestart;
       answer_flag evt NO_ERROR (flag_of needs);
       ret NO_ERROR }
   | QCAMERA_SM_EVT_RECORDING_ENABLED \<Rightarrow> do { answer_flag evt NO_ERROR 1; ret NO_ERROR }
   | QCAMERA_SM_EVT_STORE_METADATA_IN_BUFS \<Rightarrow>
       call_answer E evt (C_storeMetaDataInBuffers (as_int pl))
   | QCAMERA_SM_EVT_DUMP \<Rightarrow> call_answer E evt (C_dump (as_int pl))
   | QCAMERA_SM_EVT_START_AUTO_FOCUS \<Rightarrow> call_answer E evt C_autoFocus
   | QCAMERA_SM_EVT_STOP_AUTO_FOCUS \<Rightarrow> call_answer E evt C_cancelAutoFocus
   | QCAMERA_SM_EVT_SEND_COMMAND \<Rightarrow> call_answer E evt (SEND_COMMAND_call pl)
   | QCAMERA_SM_EVT_PRE_TAKE_PICTURE \<Rightarrow> do { answer evt NO_ERROR; ret NO_ERROR }
   | _ \<Rightarrow> other)"

definition recording_requests ::
    "'p hwi \<Rightarrow> sm_evt \<Rightarrow> sm_payload \<Rightarrow> ('p, status) sm_monad \<Rightarrow> ('p, status) sm_monad" where
  "recording_requests E evt pl other = (case evt of
     QCAMERA_SM_EVT_TAKE_PICTURE \<Rightarrow> do {
       set_state QCAMERA_SM_STATE_VIDEO_PIC_TAKING;
       rc \<leftarrow> call E C_takeLiveSnapshot;
       (if rc \<noteq> NO_ERROR then set_state QCAMERA_SM_STATE_RECORDING else skip);
       answer evt rc;
       ret rc }
   | QCAMERA_SM_EVT_PRE_START_RECORDING \<Rightarrow> do { answer evt NO_ERROR; ret NO_ERROR }
   | QCAMERA_SM_EVT_RESTART_STOP_PREVIEW \<Rightarrow> do { answer evt NO_ERROR; ret NO_ERROR }
   | QCAMERA_SM_EVT_RESTART_START_PREVIEW \<Rightarrow> do { answer evt NO_ERROR; ret NO_ERROR }
   | QCAMERA_SM_EVT_START_RECORDING \<Rightarrow> do { answer evt NO_ERROR; ret NO_ERROR }
   | QCAMERA_SM_EVT_STOP_RECORDING \<Rightarrow> do {
       rc \<leftarrow> call E C_stopRecording;
       set_state QCAMERA_SM_STATE_PREVIEWING;
       answer evt rc;
       ret rc }
   | QCAMERA_SM_EVT_STOP_PREVIEW \<Rightarrow> do {
       call0 E C_stopRecording;
       set_state QCAMERA_SM_STATE_PREVIEWING;
       rc \<leftarrow> call E C_stopPreview;
       set_state QCAMERA_SM_STATE_PREVIEW_STOPPED;
       answer evt rc;
       ret rc }
   | QCAMERA_SM_EVT_RELEASE_RECORIDNG_FRAME \<Rightarrow>
       call_answer E evt (C_releaseRecordingFrame (as_ptr pl))
   | QCAMERA_SM_EVT_REG_FACE_IMAGE \<Rightarrow> REG_FACE_IMAGE_block E evt pl
   | QCAMERA_SM_EVT_PREPARE_SNAPSHOT \<Rightarrow> do { answer evt NO_ERROR; ret NO_ERROR }
   | QCAMERA_SM_EVT_CANCEL_PICTURE \<Rightarrow> reject evt
   | QCAMERA_SM_EVT_START_NODISPLAY_PREVIEW \<Rightarrow> reject evt
   | QCAMERA_SM_EVT_RELEASE \<Rightarrow> reject evt
   | _ \<Rightarrow> other)"

definition recording_internal :: "'p hwi \<Rightarrow> sm_payload \<Rightarrow> ('p, status) sm_monad" where
  "recording_internal E pl = (case as_internal pl of (evt_type, data) \<Rightarrow> (case evt_type of
     QCAMERA_INTERNAL_EVT_FOCUS_UPDATE \<Rightarrow> call E (C_process processAutoFocusEvent data)
   | QCAMERA_INTERNAL_EVT_PREP_SNAPSHOT_DONE \<Rightarrow> ret NO_ERROR
   | QCAMERA_INTERNAL_EVT_FACE_DETECT_RESULT \<Rightarrow> call E (C_process processFaceDetectionResult data)
   | QCAMERA_INTERNAL_EVT_HISTOGRAM_STATS \<Rightarrow> call E (C_process processHistogramStats data)
   | QCAMERA_INTERNAL_EVT_CROP_INFO \<Rightarrow> call E (C_process processZoomEvent data)
   | QCAMERA_INTERNAL_EVT_ASD_UPDATE \<Rightarrow> call E (C_process processASDUpdate data)
   | QCAMERA_INTERNAL_EVT_LED_MODE_OVERRIDE \<Rightarrow> ret NO_ERROR
   | QCAMERA_INTERNAL_EVT_AWB_UPDATE \<Rightarrow> call E (C_process transAwbMetaToParams data)
   | QCAMERA_INTERNAL_EVT_AE_UPDATE \<Rightarrow> call E (C_process processAEInfo data)
   | QCAMERA_INTERNAL_EVT_FOCUS_POS_UPDATE \<Rightarrow> call E (C_process processFocusPositionInfo data)
   | QCAMERA_INTERNAL_EVT_HDR_UPDATE \<Rightarrow> call E (C_process processHDRData data)
   | QCAMERA_INTERNAL_EVT_RETRO_AEC_UNLOCK \<Rightarrow> call E (C_process processRetroAECUnlock 0)
   | QCAMERA_INTERNAL_EVT_ZSL_CAPTURE_DONE \<Rightarrow> call E (C_process processZSLCaptureDone 0)
   | _ \<Rightarrow> ret NO_ERROR))"

definition recording_notifications ::
    "'p hwi \<Rightarrow> sm_evt \<Rightarrow> sm_payload \<Rightarrow> ('p, status) sm_monad" where
  "recording_notifications E evt pl = (case evt of
     QCAMERA_SM_EVT_EVT_INTERNAL \<Rightarrow> recording_internal E pl
   | QCAMERA_SM_EVT_EVT_NOTIFY \<Rightarrow> (case as_server_evt pl of
       CAM_EVENT_TYPE_DAEMON_DIED \<Rightarrow> do { DAEMON_DIED_block E; ret NO_ERROR }
     | _ \<Rightarrow> ret NO_ERROR)
   | QCAMERA_SM_EVT_THERMAL_NOTIFY \<Rightarrow> call E (C_updateThermalLevel (as_ptr pl))
   | QCAMERA_SM_EVT_SNAPSHOT_DONE \<Rightarrow> do { answer_evt evt NO_ERROR; ret NO_ERROR }
   | _ \<Rightarrow> ret NO_ERROR)"

definition procEvtRecordingState ::
    "'p hwi \<Rightarrow> sm_evt \<Rightarrow> sm_payload \<Rightarrow> ('p, status) sm_monad" where
  "procEvtRecordingState E evt pl =
     recording_params E evt pl (recording_queries E evt pl
       (recording_requests E evt pl (recording_notifications E evt pl)))"

section \<open>Taking a live snapshot while recording\<close>

definition video_pic_params ::
    "'p hwi \<Rightarrow> sm_evt \<Rightarrow> sm_payload \<Rightarrow> ('p, status) sm_monad \<Rightarrow> ('p, status) sm_monad" where
  "video_pic_params E evt pl other = (case evt of
     QCAMERA_SM_EVT_SET_PREVIEW_WINDOW \<Rightarrow> reject evt
   | QCAMERA_SM_EVT_SET_CALLBACKS \<Rightarrow> call_answer E evt (C_setCallBacks (as_setcb pl))
   | QCAMERA_SM_EVT_ENABLE_MSG_TYPE \<Rightarrow> call_answer E evt (C_enableMsgType (as_int pl))
   | QCAMERA_SM_EVT_DISABLE_MSG_TYPE \<Rightarrow> call_answer E evt (C_disableMsgType (as_int pl))
   | QCAMERA_SM_EVT_MSG_TYPE_ENABLED \<Rightarrow> MSG_TYPE_ENABLED_block E evt pl
   | QCAMERA_SM_EVT_SET_PARAMS \<Rightarrow> SET_PARAMS_block E evt pl
   | QCAMERA_SM_EVT_COMMIT_PARAMS \<Rightarrow> do {
       needs \<leftarrow> gets m_bPreviewNeedsRestart;
       rc \<leftarrow> (if needs then ret BAD_VALUE else call E C_commitParameterChanges);
       modify (\<lambda>v. v\<lparr>m_bPreviewNeedsRestart := False\<rparr>);
       answer evt rc;
       ret rc }
   | QCAMERA_SM_EVT_COMMIT_STOP_PREVIEW \<Rightarrow> do {
       needs \<leftarrow> gets m_bPreviewNeedsRestart;
       rc \<leftarrow> (if needs \<or> as_int pl \<noteq> 0 then ret BAD_VALUE else call E C_commitParameterChanges);
       modify (\<lambda>v. v\<lparr>m_bPreviewNeedsRestart := False\<rparr>);
       answer evt rc;
       ret rc }
   | QCAMERA_SM_EVT_COMMIT_START_PREVIEW \<Rightarrow> do { answer evt NO_ERROR; ret NO_ERROR }
   | QCAMERA_SM_EVT_GET_PARAMS \<Rightarrow> GET_PARAMS_block E evt
   | QCAMERA_SM_EVT_PUT_PARAMS \<Rightarrow> call_answer E evt (C_putParameters (as_ptr pl))
   | _ \<Rightarrow> other)"

definition video_pic_queries ::
    "'p hwi \<Rightarrow> sm_evt \<Rightarrow> sm_payload \<Rightarrow> ('p, status) sm_monad \<Rightarrow> ('p, status) sm_monad" where
  "video_pic_queries E evt pl other = (case evt of
     QCAMERA_SM_EVT_PREVIEW_ENABLED \<Rightarrow> do { answer_flag evt NO_ERROR 1; ret NO_ERROR }
   | QCAMERA_SM_EVT_PREVIEW_RESTART_NEENED \<Rightarrow> do {
       needs \<leftarrow> gets m_bPreviewNeedsRestart;
       answer_flag evt NO_ERROR (flag_of needs);
       ret NO_ERROR }
   | QCAMERA_SM_EVT_RECORDING_ENABLED \<Rightarrow> do { answer_flag evt NO_ERROR 1; ret NO_ERROR }
   | QCAMERA_SM_EVT_STORE_METADATA_IN_BUFS \<Rightarrow>
       call_answer E evt (C_storeMetaDataInBuffers (as_int pl))
   | QCAMERA_SM_EVT_DUMP \<Rightarrow> call_answer E evt (C_dump (as_int pl))
   | QCAMERA_SM_EVT_START_AUTO_FOCUS \<Rightarrow> call_answer E evt C_autoFocus
   | QCAMERA_SM_EVT_STOP_AUTO_FOCUS \<Rightarrow> call_answer E evt C_cancelAutoFocus
   | QCAMERA_SM_EVT_SEND_COMMAND \<Rightarrow> call_answer E evt (SEND_COMMAND_call pl)
   | _ \<Rightarrow> other)"

definition video_pic_requests ::
    "'p hwi \<Rightarrow> sm_evt \<Rightarrow> sm_payload \<Rightarrow> ('p, status) sm_monad \<Rightarrow> ('p, status) sm_monad" where
  "video_pic_requests E evt pl other = (case evt of
     QCAMERA_SM_EVT_STOP_RECORDING \<Rightarrow> do {
       call0 E C_cancelLiveSnapshot;
       set_state QCAMERA_SM_STATE_RECORDING;
       rc \<leftarrow> call E C_stopRecording;
       set_state QCAMERA_SM_STATE_PREVIEWING;
       answer evt rc;
       ret rc }
   | QCAMERA_SM_EVT_RELEASE_RECORIDNG_FRAME \<Rightarrow>
       call_answer E evt (C_releaseRecordingFrame (as_ptr pl))
   | QCAMERA_SM_EVT_CANCEL_PICTURE \<Rightarrow> do {
       rc \<leftarrow> call E C_cancelLiveSnapshot;
       set_state QCAMERA_SM_STATE_RECORDING;
       answer evt rc;
       ret rc }
   | QCAMERA_SM_EVT_REG_FACE_IMAGE \<Rightarrow> REG_FACE_IMAGE_block E evt pl
   | QCAMERA_SM_EVT_STOP_PREVIEW \<Rightarrow> do {
       call0 E C_cancelLiveSnapshot;
       set_state QCAMERA_SM_STATE_RECORDING;
       call0 E C_stopRecording;
       set_state QCAMERA_SM_STATE_PREVIEWING;
       rc \<leftarrow> call E C_stopPreview;
       set_state QCAMERA_SM_STATE_PREVIEW_STOPPED;
       answer evt rc;
       ret rc }
   | QCAMERA_SM_EVT_PRE_START_RECORDING \<Rightarrow> reject evt
   | QCAMERA_SM_EVT_RESTART_STOP_PREVIEW \<Rightarrow> reject evt
   | QCAMERA_SM_EVT_RESTART_START_PREVIEW \<Rightarrow> reject evt
   | QCAMERA_SM_EVT_START_RECORDING \<Rightarrow> reject evt
   | QCAMERA_SM_EVT_PREPARE_PREVIEW \<Rightarrow> reject evt
   | QCAMERA_SM_EVT_START_PREVIEW \<Rightarrow> reject evt
   | QCAMERA_SM_EVT_START_NODISPLAY_PREVIEW \<Rightarrow> reject evt
   | QCAMERA_SM_EVT_PREPARE_SNAPSHOT \<Rightarrow> reject evt
   | QCAMERA_SM_EVT_PRE_TAKE_PICTURE \<Rightarrow> reject evt
   | QCAMERA_SM_EVT_TAKE_PICTURE \<Rightarrow> reject evt
   | QCAMERA_SM_EVT_RELEASE \<Rightarrow> reject evt
   | _ \<Rightarrow> other)"

definition video_pic_internal :: "'p hwi \<Rightarrow> sm_payload \<Rightarrow> ('p, status) sm_monad" where
  "video_pic_internal E pl = (case as_internal pl of (evt_type, data) \<Rightarrow> (case evt_type of
     QCAMERA_INTERNAL_EVT_FOCUS_UPDATE \<Rightarrow> call E (C_process processAutoFocusEvent data)
   | QCAMERA_INTERNAL_EVT_PREP_SNAPSHOT_DONE \<Rightarrow> ret NO_ERROR
   | QCAMERA_INTERNAL_EVT_FACE_DETECT_RESULT \<Rightarrow> call E (C_process processFaceDetectionResult data)
   | QCAMERA_INTERNAL_EVT_HISTOGRAM_STATS \<Rightarrow> call E (C_process processHistogramStats data)
   | QCAMERA_INTERNAL_EVT_CROP_INFO \<Rightarrow> call E (C_process processZoomEvent data)
   | QCAMERA_INTERNAL_EVT_ASD_UPDATE \<Rightarrow> call E (C_process processASDUpdate data)
   | QCAMERA_INTERNAL_EVT_LED_MODE_OVERRIDE \<Rightarrow> ret NO_ERROR
   | QCAMERA_INTERNAL_EVT_AWB_UPDATE \<Rightarrow> call E (C_process transAwbMetaToParams data)
   | QCAMERA_INTERNAL_EVT_AE_UPDATE \<Rightarrow> call E (C_process processAEInfo data)
   | QCAMERA_INTERNAL_EVT_FOCUS_POS_UPDATE \<Rightarrow> call E (C_process processFocusPositionInfo data)
   | QCAMERA_INTERNAL_EVT_HDR_UPDATE \<Rightarrow> call E (C_process processHDRData data)
   | QCAMERA_INTERNAL_EVT_RETRO_AEC_UNLOCK \<Rightarrow> call E (C_process processRetroAECUnlock 0)
   | QCAMERA_INTERNAL_EVT_ZSL_CAPTURE_DONE \<Rightarrow> call E (C_process processZSLCaptureDone 0)
   | _ \<Rightarrow> ret NO_ERROR))"

definition video_pic_notifications ::
    "'p hwi \<Rightarrow> sm_evt \<Rightarrow> sm_payload \<Rightarrow> ('p, status) sm_monad" where
  "video_pic_notifications E evt pl = (case evt of
     QCAMERA_SM_EVT_EVT_INTERNAL \<Rightarrow> video_pic_internal E pl
   | QCAMERA_SM_EVT_EVT_NOTIFY \<Rightarrow> (case as_server_evt pl of
       CAM_EVENT_TYPE_DAEMON_DIED \<Rightarrow> do { DAEMON_DIED_block E; ret NO_ERROR }
     | _ \<Rightarrow> ret NO_ERROR)
   | QCAMERA_SM_EVT_JPEG_EVT_NOTIFY \<Rightarrow> call E (C_processJpegNotify (as_ptr pl))
   | QCAMERA_SM_EVT_SNAPSHOT_DONE \<Rightarrow> do {
       rc \<leftarrow> call E C_cancelLiveSnapshot;
       set_state QCAMERA_SM_STATE_RECORDING;
       answer_evt evt rc;
       ret rc }
   | QCAMERA_SM_EVT_THERMAL_NOTIFY \<Rightarrow> call E (C_updateThermalLevel (as_ptr pl))
   | _ \<Rightarrow> ret NO_ERROR)"

definition procEvtVideoPicTakingState ::
    "'p hwi \<Rightarrow> sm_evt \<Rightarrow> sm_payload \<Rightarrow> ('p, status) sm_monad" where
  "procEvtVideoPicTakingState E evt pl =
     video_pic_params E evt pl (video_pic_queries E evt pl
       (video_pic_requests E evt pl (video_pic_notifications E evt pl)))"

lemmas recording_handler_defs [handler_defs] =
  procEvtRecordingState_def recording_params_def recording_queries_def recording_requests_def
  recording_internal_def recording_notifications_def

lemmas video_pic_handler_defs [handler_defs] =
  procEvtVideoPicTakingState_def video_pic_params_def video_pic_queries_def
  video_pic_requests_def video_pic_internal_def video_pic_notifications_def

end
