(* ===== verification/StateMachine.thy ===== *)
theory StateMachine
  imports SmStopped SmPreviewing SmCapture SmRecording
begin

text \<open>
  The whole camera state machine: the dispatch \<open>QCameraStateMachine::stateMachine\<close>, its abstract
  specifications (which events are answered at once, which are refused, which state follows, which calls a
  state may make) and the lemmas that the handlers of all eight states meet them, for every parent.
\<close>

section \<open>Dispatch\<close>

definition stateMachine :: "'p hwi \<Rightarrow> sm_evt \<Rightarrow> sm_payload \<Rightarrow> ('p, status) sm_monad" where
  "stateMachine E evt payload = do {
     s \<leftarrow> gets m_state;
     (case s of
        QCAMERA_SM_STATE_PREVIEW_STOPPED \<Rightarrow> procEvtPreviewStoppedState E evt payload
      | QCAMERA_SM_STATE_PREVIEW_READY \<Rightarrow> procEvtPreviewReadyState E evt payload
      | QCAMERA_SM_STATE_PREVIEWING \<Rightarrow> procEvtPreviewingState E evt payload
      | QCAMERA_SM_STATE_PREPARE_SNAPSHOT \<Rightarrow> procEvtPrepareSnapshotState E evt payload
      | QCAMERA_SM_STATE_PIC_TAKING \<Rightarrow> procEvtPicTakingState E evt payload
      | QCAMERA_SM_STATE_RECORDING \<Rightarrow> procEvtRecordingState E evt payload
      | QCAMERA_SM_STATE_VIDEO_PIC_TAKING \<Rightarrow> procEvtVideoPicTakingState E evt payload
      | QCAMERA_SM_STATE_PREVIEW_PIC_TAKING \<Rightarrow> procEvtPreviewPicTakingState E evt payload) }"

definition handle :: "'p hwi \<Rightarrow> sm_evt \<Rightarrow> sm_payload \<Rightarrow> 'p sm \<Rightarrow> status \<times> 'p sm" where
  "handle E evt payload w = run_state (stateMachine E evt payload) w"

text \<open>The events in the order they are handled; the statuses are dropped, as the thread drops them.\<close>

fun handle_all :: "'p hwi \<Rightarrow> (sm_evt \<times> sm_payload) list \<Rightarrow> 'p sm \<Rightarrow> 'p sm" where
  "handle_all E [] w = w"
| "handle_all E ((evt, pl) # es) w = handle_all E es (snd (handle E evt pl w))"

lemma handle_all_append [simp]:
  "handle_all E (xs @ ys) w = handle_all E ys (handle_all E xs w)"
  by (induction xs arbitrary: w) auto

lemma wp_stateMachine:
  "wp (stateMachine E evt pl) Q w = (case m_state w of
        QCAMERA_SM_STATE_PREVIEW_STOPPED \<Rightarrow> wp (procEvtPreviewStoppedState E evt pl) Q w
      | QCAMERA_SM_STATE_PREVIEW_READY \<Rightarrow> wp (procEvtPreviewReadyState E evt pl) Q w
      | QCAMERA_SM_STATE_PREVIEWING \<Rightarrow> wp (procEvtPreviewingState E evt pl) Q w
      | QCAMERA_SM_STATE_PREPARE_SNAPSHOT \<Rightarrow> wp (procEvtPrepareSnapshotState E evt pl) Q w
      | QCAMERA_SM_STATE_PIC_TAKING \<Rightarrow> wp (procEvtPicTakingState E evt pl) Q w
      | QCAMERA_SM_STATE_RECORDING \<Rightarrow> wp (procEvtRecordingState E evt pl) Q w
      | QCAMERA_SM_STATE_VIDEO_PIC_TAKING \<Rightarrow> wp (procEvtVideoPicTakingState E evt pl) Q w
      | QCAMERA_SM_STATE_PREVIEW_PIC_TAKING \<Rightarrow> wp (procEvtPreviewPicTakingState E evt pl) Q w)"
  by (simp add: stateMachine_def wp_rules split: sm_state.split)

text \<open>A fact about \<open>handle\<close> is a weakest precondition.\<close>

lemma handle_wp: "wp (stateMachine E evt pl) Q w \<Longrightarrow> handle E evt pl w = (rc, w') \<Longrightarrow> Q rc w'"
  by (simp add: handle_def wp_run)

lemma handle_snd_wp: "wp (stateMachine E evt pl) (\<lambda>_. Q) w \<Longrightarrow> Q (snd (handle E evt pl w))"
  by (simp add: handle_def wp_snd)

lemmas sm_simps = wp_stateMachine handler_defs block_defs wp_rules Let_def

lemmas take_picture_simps = take_picture_hint_calls_def wp_rules block_defs Let_def

section \<open>Answers\<close>

text \<open>
  When a client's event is answered: \<open>Now\<close>, before the handler returns; \<open>Later\<close>, now or, when the
  status is \<open>NO_ERROR\<close>, by a notification that comes after; \<open>Never\<close>, because no case of the handler
  answers it through \<open>signalAPIResult\<close>.
\<close>

datatype answer_time = Now | Later | Never

definition answer_time :: "sm_state \<Rightarrow> sm_evt \<Rightarrow> answer_time" where
  "answer_time s evt =
    (if (s, evt) \<in> {(QCAMERA_SM_STATE_PREVIEWING, QCAMERA_SM_EVT_PREPARE_SNAPSHOT),
                    (QCAMERA_SM_STATE_PREVIEWING, QCAMERA_SM_EVT_TAKE_PICTURE),
                    (QCAMERA_SM_STATE_PREVIEW_PIC_TAKING, QCAMERA_SM_EVT_PREPARE_SNAPSHOT)}
     then Later
     else if (s, evt) \<in> {(QCAMERA_SM_STATE_PREPARE_SNAPSHOT, QCAMERA_SM_EVT_COMMIT_PARAMS),
                    (QCAMERA_SM_STATE_PREPARE_SNAPSHOT, QCAMERA_SM_EVT_COMMIT_STOP_PREVIEW),
                    (QCAMERA_SM_STATE_PREPARE_SNAPSHOT, QCAMERA_SM_EVT_COMMIT_START_PREVIEW),
                    (QCAMERA_SM_STATE_PREPARE_SNAPSHOT, QCAMERA_SM_EVT_REG_FACE_IMAGE),
                    (QCAMERA_SM_STATE_PIC_TAKING, QCAMERA_SM_EVT_COMMIT_START_PREVIEW)}
     then Never
     else Now)"

lemma answered_now_wp:
  "is_api_evt evt \<Longrightarrow> answer_time (m_state w) evt = Now \<Longrightarrow>
   wp (stateMachine E evt pl)
     (\<lambda>rc w'. \<exists>v. results_of (new_effects w w') =
        [\<lparr>r_status = rc, r_request_api = evt, r_value = v\<rparr>]) w"
  by (cases "m_state w"; cases evt;
      simp add: sm_simps is_api_evt_def answer_time_def new_effects_def)

lemma answered_never_wp:
  "is_api_evt evt \<Longrightarrow> answer_time (m_state w) evt = Never \<Longrightarrow>
   wp (stateMachine E evt pl) (\<lambda>_ w'. api_signals (new_effects w w') = []) w"
  by (cases "m_state w"; cases evt;
      simp add: sm_simps is_api_evt_def answer_time_def new_effects_def)

lemma answered_later_take_picture:
  "wp (previewing_TAKE_PICTURE E evt)
     (\<lambda>rc w'. api_signals (new_effects w w') = [evt]
        \<or> rc = NO_ERROR \<and> api_signals (new_effects w w') = []) w"
  by (rule wp_previewing_TAKE_PICTURE) (auto simp: take_picture_simps new_effects_def)

lemma answered_later_wp:
  "is_api_evt evt \<Longrightarrow> answer_time (m_state w) evt = Later \<Longrightarrow>
   wp (stateMachine E evt pl)
     (\<lambda>rc w'. api_signals (new_effects w w') = [evt]
        \<or> rc = NO_ERROR \<and> api_signals (new_effects w w') = []) w"
  by (cases "m_state w"; cases evt;
      simp add: sm_simps is_api_evt_def answer_time_def answered_later_take_picture;
      simp add: new_effects_def)

section \<open>The abstract state graph\<close>

text \<open>
  The states an event may lead to, given the status the handler returns. Everything that is not
  listed stays where it is.
\<close>

definition next_states :: "sm_state \<Rightarrow> sm_evt \<Rightarrow> status \<Rightarrow> sm_state list" where
  "next_states s evt rc = (let ok = (rc = NO_ERROR) in case s of
     QCAMERA_SM_STATE_PREVIEW_STOPPED \<Rightarrow> (case evt of
         QCAMERA_SM_EVT_PREPARE_PREVIEW \<Rightarrow> if ok then [QCAMERA_SM_STATE_PREVIEW_READY] else [s]
       | QCAMERA_SM_EVT_START_PREVIEW \<Rightarrow>
           if ok then [QCAMERA_SM_STATE_PREVIEW_READY, QCAMERA_SM_STATE_PREVIEWING] else [s]
       | QCAMERA_SM_EVT_START_NODISPLAY_PREVIEW \<Rightarrow>
           if ok then [QCAMERA_SM_STATE_PREVIEW_READY, QCAMERA_SM_STATE_PREVIEWING] else [s]
       | _ \<Rightarrow> [s])
   | QCAMERA_SM_STATE_PREVIEW_READY \<Rightarrow> (case evt of
         QCAMERA_SM_EVT_SET_PREVIEW_WINDOW \<Rightarrow>
           if ok then [s, QCAMERA_SM_STATE_PREVIEWING] else [QCAMERA_SM_STATE_PREVIEW_STOPPED]
       | QCAMERA_SM_EVT_COMMIT_PARAMS \<Rightarrow>
           if ok then [s] else [s, QCAMERA_SM_STATE_PREVIEW_STOPPED]
       | QCAMERA_SM_EVT_COMMIT_START_PREVIEW \<Rightarrow>
           if ok then [s] else [QCAMERA_SM_STATE_PREVIEW_STOPPED]
       | QCAMERA_SM_EVT_START_PREVIEW \<Rightarrow>
           [s, QCAMERA_SM_STATE_PREVIEWING, QCAMERA_SM_STATE_PREVIEW_STOPPED]
       | QCAMERA_SM_EVT_START_NODISPLAY_PREVIEW \<Rightarrow>
           [s, QCAMERA_SM_STATE_PREVIEWING, QCAMERA_SM_STATE_PREVIEW_STOPPED]
       | QCAMERA_SM_EVT_STOP_PREVIEW \<Rightarrow> [QCAMERA_SM_STATE_PREVIEW_STOPPED]
       | _ \<Rightarrow> [s])
   | QCAMERA_SM_STATE_PREVIEWING \<Rightarrow> (case evt of
         QCAMERA_SM_EVT_COMMIT_PARAMS \<Rightarrow>
           if ok then [s] else [s, QCAMERA_SM_STATE_PREVIEW_STOPPED]
       | QCAMERA_SM_EVT_COMMIT_START_PREVIEW \<Rightarrow>
           if ok then [s] else [QCAMERA_SM_STATE_PREVIEW_STOPPED]
       | QCAMERA_SM_EVT_STOP_PREVIEW \<Rightarrow> [QCAMERA_SM_STATE_PREVIEW_STOPPED]
       | QCAMERA_SM_EVT_START_RECORDING \<Rightarrow> if ok then [QCAMERA_SM_STATE_RECORDING] else [s]
       | QCAMERA_SM_EVT_PREPARE_SNAPSHOT \<Rightarrow>
           if ok then [QCAMERA_SM_STATE_PREPARE_SNAPSHOT] else [s]
       | QCAMERA_SM_EVT_TAKE_PICTURE \<Rightarrow>
           if ok then [QCAMERA_SM_STATE_PREVIEW_PIC_TAKING, QCAMERA_SM_STATE_PIC_TAKING]
           else [s, QCAMERA_SM_STATE_PREVIEW_STOPPED]
       | _ \<Rightarrow> [s])
   | QCAMERA_SM_STATE_PREPARE_SNAPSHOT \<Rightarrow> (case evt of
         QCAMERA_SM_EVT_EVT_INTERNAL \<Rightarrow> [s, QCAMERA_SM_STATE_PREVIEWING]
       | _ \<Rightarrow> [s])
   | QCAMERA_SM_STATE_PIC_TAKING \<Rightarrow> (case evt of
         QCAMERA_SM_EVT_STOP_PREVIEW \<Rightarrow> [QCAMERA_SM_STATE_PREVIEW_STOPPED]
       | QCAMERA_SM_EVT_CANCEL_PICTURE \<Rightarrow> [QCAMERA_SM_STATE_PREVIEW_STOPPED]
       | QCAMERA_SM_EVT_SEND_COMMAND \<Rightarrow> [s, QCAMERA_SM_STATE_PREVIEWING]
       | QCAMERA_SM_EVT_SNAPSHOT_DONE \<Rightarrow>
           [QCAMERA_SM_STATE_PREVIEWING, QCAMERA_SM_STATE_PREVIEW_STOPPED]
       | _ \<Rightarrow> [s])
   | QCAMERA_SM_STATE_RECORDING \<Rightarrow> (case evt of
         QCAMERA_SM_EVT_TAKE_PICTURE \<Rightarrow> if ok then [QCAMERA_SM_STATE_VIDEO_PIC_TAKING] else [s]
       | QCAMERA_SM_EVT_STOP_RECORDING \<Rightarrow> [QCAMERA_SM_STATE_PREVIEWING]
       | QCAMERA_SM_EVT_STOP_PREVIEW \<Rightarrow> [QCAMERA_SM_STATE_PREVIEW_STOPPED]
       | _ \<Rightarrow> [s])
   | QCAMERA_SM_STATE_VIDEO_PIC_TAKING \<Rightarrow> (case evt of
         QCAMERA_SM_EVT_STOP_RECORDING \<Rightarrow> [QCAMERA_SM_STATE_PREVIEWING]
       | QCAMERA_SM_EVT_CANCEL_PICTURE \<Rightarrow> [QCAMERA_SM_STATE_RECORDING]
       | QCAMERA_SM_EVT_SNAPSHOT_DONE \<Rightarrow> [QCAMERA_SM_STATE_RECORDING]
       | QCAMERA_SM_EVT_STOP_PREVIEW \<Rightarrow> [QCAMERA_SM_STATE_PREVIEW_STOPPED]
       | _ \<Rightarrow> [s])
   | QCAMERA_SM_STATE_PREVIEW_PIC_TAKING \<Rightarrow> (case evt of
         QCAMERA_SM_EVT_COMMIT_PARAMS \<Rightarrow> if ok then [s] else [s, QCAMERA_SM_STATE_PIC_TAKING]
       | QCAMERA_SM_EVT_COMMIT_START_PREVIEW \<Rightarrow>
           if ok then [s] else [QCAMERA_SM_STATE_PIC_TAKING]
       | QCAMERA_SM_EVT_SEND_COMMAND \<Rightarrow> [s, QCAMERA_SM_STATE_PREVIEWING]
       | QCAMERA_SM_EVT_CANCEL_PICTURE \<Rightarrow> [QCAMERA_SM_STATE_PREVIEWING]
       | QCAMERA_SM_EVT_SNAPSHOT_DONE \<Rightarrow> [QCAMERA_SM_STATE_PREVIEWING]
       | QCAMERA_SM_EVT_STOP_PREVIEW \<Rightarrow> [QCAMERA_SM_STATE_PREVIEW_STOPPED]
       | QCAMERA_SM_EVT_START_RECORDING \<Rightarrow>
           if ok then [QCAMERA_SM_STATE_VIDEO_PIC_TAKING] else [s]
       | _ \<Rightarrow> [s]))"

lemma next_states_take_picture:
  "wp (previewing_TAKE_PICTURE E QCAMERA_SM_EVT_TAKE_PICTURE)
     (\<lambda>rc w'. m_state w' \<in> set (next_states QCAMERA_SM_STATE_PREVIEWING
        QCAMERA_SM_EVT_TAKE_PICTURE rc)) w"
  by (rule wp_previewing_TAKE_PICTURE) (auto simp: take_picture_simps next_states_def)

lemma next_states_wp:
  "wp (stateMachine E evt pl) (\<lambda>rc w'. m_state w' \<in> set (next_states (m_state w) evt rc)) w"
  by (cases "m_state w"; cases evt;
      simp add: sm_simps next_states_take_picture;
      simp add: next_states_def sm_simps split: notification_splits)

section \<open>Calls\<close>

text \<open>
  The calls that only make sense in some states. Every other call may come from any state.
\<close>

definition call_allowed :: "sm_state \<Rightarrow> hwi_call \<Rightarrow> bool" where
  "call_allowed s c = (case c of
     C_startRecording \<Rightarrow> s \<in> {QCAMERA_SM_STATE_PREVIEWING, QCAMERA_SM_STATE_PREVIEW_PIC_TAKING}
   | C_stopRecording \<Rightarrow> s \<in> {QCAMERA_SM_STATE_RECORDING, QCAMERA_SM_STATE_VIDEO_PIC_TAKING}
   | C_takePicture \<Rightarrow> s = QCAMERA_SM_STATE_PREVIEWING
   | C_takeLiveSnapshot \<Rightarrow> s = QCAMERA_SM_STATE_RECORDING
   | C_longShot \<Rightarrow> s \<in> {QCAMERA_SM_STATE_PIC_TAKING, QCAMERA_SM_STATE_PREVIEW_PIC_TAKING}
   | C_cancelPicture \<Rightarrow>
       s \<in> {QCAMERA_SM_STATE_PIC_TAKING, QCAMERA_SM_STATE_PREVIEW_PIC_TAKING}
   | C_cancelLiveSnapshot \<Rightarrow>
       s \<in> {QCAMERA_SM_STATE_VIDEO_PIC_TAKING, QCAMERA_SM_STATE_PREVIEW_PIC_TAKING}
   | C_stopPreview \<Rightarrow> s \<in> {QCAMERA_SM_STATE_PREVIEWING, QCAMERA_SM_STATE_RECORDING,
       QCAMERA_SM_STATE_VIDEO_PIC_TAKING, QCAMERA_SM_STATE_PREVIEW_PIC_TAKING}
   | C_release \<Rightarrow> s = QCAMERA_SM_STATE_PREVIEW_STOPPED
   | C_prepareHardwareForSnapshot b \<Rightarrow>
       s \<in> {QCAMERA_SM_STATE_PREVIEWING, QCAMERA_SM_STATE_PREVIEW_PIC_TAKING}
   | _ \<Rightarrow> True)"

lemma call_allowed_take_picture:
  "wp (previewing_TAKE_PICTURE E evt)
     (\<lambda>_ w'. \<forall>c\<in>set (calls_of (new_effects w w')). call_allowed QCAMERA_SM_STATE_PREVIEWING c) w"
  by (rule wp_previewing_TAKE_PICTURE)
    (auto simp: take_picture_simps new_effects_def call_allowed_def)

lemma call_allowed_wp:
  "wp (stateMachine E evt pl)
     (\<lambda>_ w'. \<forall>c\<in>set (calls_of (new_effects w w')). call_allowed (m_state w) c) w"
  by (cases "m_state w"; cases evt;
      simp add: sm_simps call_allowed_take_picture;
      simp add: new_effects_def call_allowed_def sm_simps split: notification_splits)

end
