(* ===== verification/SmSpec.thy ===== *)
theory SmSpec
  imports StateMachine
begin

text \<open>
  What the eight states refuse, and facts that hold of every event in every state: when recording starts
  and stops, the parameter lock, the delayed messages.
\<close>

section \<open>Refusals\<close>

text \<open>The events each state refuses with \<open>INVALID_OPERATION\<close> and no other effect.\<close>

definition refused_events :: "sm_state \<Rightarrow> sm_evt list" where
  "refused_events s = (case s of
     QCAMERA_SM_STATE_PREVIEW_STOPPED \<Rightarrow>
       [QCAMERA_SM_EVT_PRE_START_RECORDING, QCAMERA_SM_EVT_RESTART_STOP_PREVIEW,
        QCAMERA_SM_EVT_RESTART_START_PREVIEW, QCAMERA_SM_EVT_START_RECORDING,
        QCAMERA_SM_EVT_STOP_RECORDING, QCAMERA_SM_EVT_PREPARE_SNAPSHOT,
        QCAMERA_SM_EVT_PRE_TAKE_PICTURE, QCAMERA_SM_EVT_TAKE_PICTURE]
   | QCAMERA_SM_STATE_PREVIEW_READY \<Rightarrow>
       [QCAMERA_SM_EVT_PRE_START_RECORDING, QCAMERA_SM_EVT_RESTART_STOP_PREVIEW,
        QCAMERA_SM_EVT_RESTART_START_PREVIEW, QCAMERA_SM_EVT_START_RECORDING,
        QCAMERA_SM_EVT_STOP_RECORDING, QCAMERA_SM_EVT_PREPARE_SNAPSHOT,
        QCAMERA_SM_EVT_PRE_TAKE_PICTURE, QCAMERA_SM_EVT_TAKE_PICTURE,
        QCAMERA_SM_EVT_CANCEL_PICTURE, QCAMERA_SM_EVT_RELEASE]
   | QCAMERA_SM_STATE_PREVIEWING \<Rightarrow>
       [QCAMERA_SM_EVT_SET_PREVIEW_WINDOW, QCAMERA_SM_EVT_CANCEL_PICTURE,
        QCAMERA_SM_EVT_STOP_RECORDING, QCAMERA_SM_EVT_RELEASE]
   | QCAMERA_SM_STATE_PREPARE_SNAPSHOT \<Rightarrow>
       [QCAMERA_SM_EVT_SET_PREVIEW_WINDOW, QCAMERA_SM_EVT_SET_CALLBACKS,
        QCAMERA_SM_EVT_ENABLE_MSG_TYPE, QCAMERA_SM_EVT_DISABLE_MSG_TYPE,
        QCAMERA_SM_EVT_MSG_TYPE_ENABLED, QCAMERA_SM_EVT_SET_PARAMS, QCAMERA_SM_EVT_GET_PARAMS,
        QCAMERA_SM_EVT_PUT_PARAMS, QCAMERA_SM_EVT_PREPARE_PREVIEW, QCAMERA_SM_EVT_START_PREVIEW,
        QCAMERA_SM_EVT_START_NODISPLAY_PREVIEW, QCAMERA_SM_EVT_STOP_PREVIEW,
        QCAMERA_SM_EVT_PREVIEW_ENABLED, QCAMERA_SM_EVT_PREVIEW_RESTART_NEENED,
        QCAMERA_SM_EVT_RECORDING_ENABLED, QCAMERA_SM_EVT_STORE_METADATA_IN_BUFS,
        QCAMERA_SM_EVT_DUMP, QCAMERA_SM_EVT_START_AUTO_FOCUS, QCAMERA_SM_EVT_STOP_AUTO_FOCUS,
        QCAMERA_SM_EVT_PRE_START_RECORDING, QCAMERA_SM_EVT_RESTART_STOP_PREVIEW,
        QCAMERA_SM_EVT_RESTART_START_PREVIEW, QCAMERA_SM_EVT_START_RECORDING,
        QCAMERA_SM_EVT_PRE_TAKE_PICTURE, QCAMERA_SM_EVT_TAKE_PICTURE,
        QCAMERA_SM_EVT_PREPARE_SNAPSHOT, QCAMERA_SM_EVT_SEND_COMMAND,
        QCAMERA_SM_EVT_CANCEL_PICTURE, QCAMERA_SM_EVT_STOP_RECORDING,
        QCAMERA_SM_EVT_RELEASE_RECORIDNG_FRAME, QCAMERA_SM_EVT_RELEASE]
   | QCAMERA_SM_STATE_PIC_TAKING \<Rightarrow>
       [QCAMERA_SM_EVT_SET_PREVIEW_WINDOW, QCAMERA_SM_EVT_PREPARE_SNAPSHOT,
        QCAMERA_SM_EVT_PRE_START_RECORDING, QCAMERA_SM_EVT_RESTART_STOP_PREVIEW,
        QCAMERA_SM_EVT_RESTART_START_PREVIEW, QCAMERA_SM_EVT_START_RECORDING,
        QCAMERA_SM_EVT_STOP_RECORDING, QCAMERA_SM_EVT_RELEASE_RECORIDNG_FRAME,
        QCAMERA_SM_EVT_PREPARE_PREVIEW, QCAMERA_SM_EVT_START_PREVIEW,
        QCAMERA_SM_EVT_START_NODISPLAY_PREVIEW, QCAMERA_SM_EVT_RELEASE]
   | QCAMERA_SM_STATE_RECORDING \<Rightarrow>
       [QCAMERA_SM_EVT_CANCEL_PICTURE, QCAMERA_SM_EVT_START_NODISPLAY_PREVIEW,
        QCAMERA_SM_EVT_RELEASE]
   | QCAMERA_SM_STATE_VIDEO_PIC_TAKING \<Rightarrow>
       [QCAMERA_SM_EVT_SET_PREVIEW_WINDOW, QCAMERA_SM_EVT_PRE_START_RECORDING,
        QCAMERA_SM_EVT_RESTART_STOP_PREVIEW, QCAMERA_SM_EVT_RESTART_START_PREVIEW,
        QCAMERA_SM_EVT_START_RECORDING, QCAMERA_SM_EVT_PREPARE_PREVIEW,
        QCAMERA_SM_EVT_START_PREVIEW, QCAMERA_SM_EVT_START_NODISPLAY_PREVIEW,
        QCAMERA_SM_EVT_PREPARE_SNAPSHOT, QCAMERA_SM_EVT_PRE_TAKE_PICTURE,
        QCAMERA_SM_EVT_TAKE_PICTURE, QCAMERA_SM_EVT_RELEASE]
   | QCAMERA_SM_STATE_PREVIEW_PIC_TAKING \<Rightarrow>
       [QCAMERA_SM_EVT_STOP_RECORDING, QCAMERA_SM_EVT_PREPARE_PREVIEW,
        QCAMERA_SM_EVT_START_PREVIEW, QCAMERA_SM_EVT_START_NODISPLAY_PREVIEW,
        QCAMERA_SM_EVT_SET_PREVIEW_WINDOW, QCAMERA_SM_EVT_RELEASE])"

lemma refused_wp:
  "evt \<in> set (refused_events (m_state w)) \<Longrightarrow>
   wp (stateMachine E evt pl)
     (\<lambda>rc w'. rc = INVALID_OPERATION
        \<and> w' = w\<lparr>trace := trace w @ [SignalAPI \<lparr>r_status = INVALID_OPERATION,
                 r_request_api = evt, r_value = QCAMERA_API_RESULT_TYPE_DEF\<rparr>]\<rparr>) w"
  by (cases "m_state w"; cases evt; simp add: refused_events_def; simp add: sm_simps)

section \<open>Recording starts and stops with the parent's calls\<close>

lemma recording_take_picture:
  "m_state w = QCAMERA_SM_STATE_PREVIEWING \<Longrightarrow>
   wp (previewing_TAKE_PICTURE E evt) (\<lambda>rc w'. \<not> isRecording w') w"
  by (rule wp_previewing_TAKE_PICTURE) (auto simp: take_picture_simps isRecording_def)

lemma recording_wp:
  "wp (stateMachine E evt pl)
     (\<lambda>rc w'. (isRecording w' \<noteq> isRecording w \<longrightarrow>
        (if isRecording w' then evt = QCAMERA_SM_EVT_START_RECORDING \<and> rc = NO_ERROR
              \<and> calls_of (new_effects w w') \<noteq> [] \<and> hd (calls_of (new_effects w w')) = C_startRecording
         else evt \<in> {QCAMERA_SM_EVT_STOP_RECORDING, QCAMERA_SM_EVT_STOP_PREVIEW}
              \<and> C_stopRecording \<in> set (calls_of (new_effects w w'))))) w"
  by (cases "m_state w"; cases evt;
      simp add: sm_simps isRecording_def;
      (insert recording_take_picture [of w E evt], simp add: isRecording_def wp_mono; fail)?;
      simp add: sm_simps isRecording_def new_effects_def split: notification_splits)

section \<open>The parameter lock\<close>

text \<open>
  The lock's automaton over a handler's effects: \<open>None\<close> when it is taken twice, or given back when it is
  not held; otherwise whether it is held at the end.
\<close>

fun lock_run :: "bool \<Rightarrow> effect list \<Rightarrow> bool option" where
  "lock_run held [] = Some held"
| "lock_run held (e # es) = (
     if e = Call C_lock_m_parm_lock then (if held then None else lock_run True es)
     else if e = Call C_unlock_m_parm_lock then (if held then lock_run False es else None)
     else lock_run held es)"

lemma lock_take_picture:
  "wp (previewing_TAKE_PICTURE E evt) (\<lambda>_ w'. lock_run False (new_effects w w') = Some False) w"
  by (rule wp_previewing_TAKE_PICTURE) (auto simp: take_picture_simps new_effects_def)

lemma lock_wp:
  "wp (stateMachine E evt pl) (\<lambda>_ w'. lock_run False (new_effects w w') = Some False) w"
  by (cases "m_state w"; cases evt;
      simp add: sm_simps;
      (simp add: lock_take_picture; fail)?;
      simp add: sm_simps new_effects_def split: notification_splits)

section \<open>Delayed messages\<close>

text \<open>
  Messages wait only while delaying is on, and nothing but the preview frame message ever waits.
\<close>

definition delayed_ok :: "'p hwi \<Rightarrow> 'p sm \<Rightarrow> bool" where
  "delayed_ok E w \<longleftrightarrow>
     (m_DelayedMsgs w \<noteq> 0 \<longrightarrow> m_bDelayPreviewMsgs w)
     \<and> m_DelayedMsgs w AND NOT (hw_preview_frame E) = 0"

lemma delayed_take_picture:
  "delayed_ok E w \<Longrightarrow> wp (previewing_TAKE_PICTURE E evt) (\<lambda>_ w'. delayed_ok E w') w"
  by (rule wp_previewing_TAKE_PICTURE) (auto simp: take_picture_simps delayed_ok_def)

lemma and_not_mono: "(x::int32) AND NOT f = 0 \<Longrightarrow> (x AND y) AND NOT f = 0"
  by (metis and.assoc and.commute and_zero_eq)

lemma delayed_wp:
  "delayed_ok E w \<Longrightarrow> wp (stateMachine E evt pl) (\<lambda>_ w'. delayed_ok E w') w"
  by (cases "m_state w"; cases evt;
      simp add: sm_simps delayed_take_picture;
      simp add: sm_simps delayed_ok_def and_not_mono split: notification_splits;
      blast?)

lemma delayed_ok_run: "delayed_ok E w \<Longrightarrow> delayed_ok E (handle_all E es w)"
proof (induction es arbitrary: w)
  case Nil
  then show ?case by simp
next
  case (Cons x es)
  then show ?case
    by (cases x) (simp add: handle_snd_wp [OF delayed_wp])
qed

lemma delayed_ok_new: "delayed_ok E (QCameraStateMachine g p)"
  by (simp add: delayed_ok_def QCameraStateMachine_def)

end
