(* ===== verification/SmProtocol.thy ===== *)
theory SmProtocol
  imports SmSpec
begin

text \<open>
  Properties of whole runs of the camera state machine: its history, the answers its notifications send, how
  it stops, the preparation of a snapshot, the commit of parameters, and its agreement with the parent about
  whether video is being recorded.
\<close>

section \<open>The history only grows\<close>

lemma grows_take_picture:
  "wp (previewing_TAKE_PICTURE E evt) (\<lambda>_ w'. trace w' = trace w @ new_effects w w') w"
  by (rule wp_previewing_TAKE_PICTURE) (auto simp: take_picture_simps new_effects_def)

lemma grows_wp: "wp (stateMachine E evt pl) (\<lambda>_ w'. trace w' = trace w @ new_effects w w') w"
  by (cases "m_state w"; cases evt;
      simp add: sm_simps;
      (simp add: grows_take_picture; fail)?;
      simp add: sm_simps new_effects_def split: notification_splits)

lemma handle_grows: "trace (snd (handle E evt pl w)) = trace w @ new_effects w (snd (handle E evt pl w))"
  using handle_snd_wp [OF grows_wp] .

section \<open>Answers nobody asked for\<close>

lemma stray_take_picture:
  "wp (previewing_TAKE_PICTURE E evt)
     (\<lambda>_ w'. distinct (api_signals (new_effects w w'))
        \<and> set (api_signals (new_effects w w')) \<subseteq> {evt}) w"
  by (rule wp_previewing_TAKE_PICTURE) (auto simp: take_picture_simps new_effects_def)

lemma stray_wp:
  "wp (stateMachine E evt pl)
     (\<lambda>_ w'. distinct (api_signals (new_effects w w')) \<and>
        set (api_signals (new_effects w w')) \<subseteq>
          (if evt \<in> {QCAMERA_SM_EVT_EVT_INTERNAL, QCAMERA_SM_EVT_EVT_NOTIFY}
           then {QCAMERA_SM_EVT_PREPARE_SNAPSHOT, QCAMERA_SM_EVT_TAKE_PICTURE}
           else {evt})) w"
  by (cases "m_state w"; cases evt;
      simp add: sm_simps;
      (insert stray_take_picture [of E evt w], simp; fail)?;
      simp add: sm_simps new_effects_def split: notification_splits)

section \<open>Stopping\<close>

lemma stop_preview_wp:
  "m_state w \<noteq> QCAMERA_SM_STATE_PREPARE_SNAPSHOT \<Longrightarrow>
   wp (stateMachine E QCAMERA_SM_EVT_STOP_PREVIEW pl)
     (\<lambda>_ w'. m_state w' = QCAMERA_SM_STATE_PREVIEW_STOPPED) w"
  by (cases "m_state w"; simp add: sm_simps)

lemma release_wp:
  "m_state w = QCAMERA_SM_STATE_PREVIEW_STOPPED \<Longrightarrow>
   wp (stateMachine E QCAMERA_SM_EVT_RELEASE pl)
     (\<lambda>rc w'. calls_of (new_effects w w') = [C_release]
        \<and> rc = fst (hw_call E C_release (parent w))) w"
  by (simp add: sm_simps new_effects_def)

section \<open>The snapshot preparation\<close>

definition is_prep_done :: "sm_evt \<Rightarrow> sm_payload \<Rightarrow> bool" where
  "is_prep_done evt pl \<longleftrightarrow> evt = QCAMERA_SM_EVT_EVT_INTERNAL
     \<and> fst (as_internal pl) = QCAMERA_INTERNAL_EVT_PREP_SNAPSHOT_DONE"

lemma preparing_waits_wp:
  "m_state w = QCAMERA_SM_STATE_PREPARE_SNAPSHOT \<Longrightarrow> \<not> is_prep_done evt pl \<Longrightarrow>
   wp (stateMachine E evt pl)
     (\<lambda>rc w'. m_state w' = QCAMERA_SM_STATE_PREPARE_SNAPSHOT
        \<and> (\<forall>r. SignalAPI r \<in> set (new_effects w w') \<longrightarrow> r_status r = INVALID_OPERATION)) w"
  by (cases evt; simp add: sm_simps is_prep_done_def;
      simp add: new_effects_def sm_simps split: notification_splits; metis fst_conv)

definition run_waits :: "(sm_evt \<times> sm_payload) list \<Rightarrow> bool" where
  "run_waits es \<longleftrightarrow> (\<forall>(evt, pl)\<in>set es. \<not> is_prep_done evt pl)"

lemma preparing_waits_run:
  "m_state w = QCAMERA_SM_STATE_PREPARE_SNAPSHOT \<Longrightarrow> run_waits es \<Longrightarrow>
   m_state (handle_all E es w) = QCAMERA_SM_STATE_PREPARE_SNAPSHOT
   \<and> (\<exists>new. trace (handle_all E es w) = trace w @ new
        \<and> (\<forall>r. SignalAPI r \<in> set new \<longrightarrow> r_status r = INVALID_OPERATION))"
proof (induction es arbitrary: w)
  case Nil
  then show ?case by simp
next
  case (Cons x es)
  obtain evt pl where x: "x = (evt, pl)" by (cases x)
  let ?v = "snd (handle E evt pl w)"
  from Cons.prems x have waits: "\<not> is_prep_done evt pl" "run_waits es"
    by (auto simp: run_waits_def)
  have v: "m_state ?v = QCAMERA_SM_STATE_PREPARE_SNAPSHOT"
      "\<forall>r. SignalAPI r \<in> set (new_effects w ?v) \<longrightarrow> r_status r = INVALID_OPERATION"
    using handle_snd_wp [OF preparing_waits_wp [OF Cons.prems(1) waits(1)]] by blast+
  from Cons.IH [OF v(1) waits(2)] obtain new where
    "m_state (handle_all E es ?v) = QCAMERA_SM_STATE_PREPARE_SNAPSHOT"
    "trace (handle_all E es ?v) = trace ?v @ new"
    "\<forall>r. SignalAPI r \<in> set new \<longrightarrow> r_status r = INVALID_OPERATION"
    by blast
  with v(2) handle_grows [of E evt pl w] x show ?case
    by (intro conjI exI [of _ "new_effects w ?v @ new"]) auto
qed

lemma preparing_done_wp:
  "m_state w = QCAMERA_SM_STATE_PREPARE_SNAPSHOT \<Longrightarrow> is_prep_done evt pl \<Longrightarrow>
   wp (stateMachine E evt pl)
     (\<lambda>rc w'. m_state w' = QCAMERA_SM_STATE_PREVIEWING
        \<and> api_signals (new_effects w w') = [QCAMERA_SM_EVT_PREPARE_SNAPSHOT]) w"
  by (cases "as_internal pl"; simp add: sm_simps is_prep_done_def new_effects_def)

section \<open>Committing parameters\<close>

lemma commit_restart_wp:
  "m_state w = QCAMERA_SM_STATE_PREVIEWING \<Longrightarrow> 
   wp (stateMachine E QCAMERA_SM_EVT_COMMIT_PARAMS pl)
     (\<lambda>rc w'. \<not> m_bPreviewNeedsRestart w' \<and>
        (if m_bPreviewNeedsRestart w
         then (\<exists>tl. calls_of (new_effects w w') =
                [C_stopPreview, C_memoryPool_clear, C_commitParameterChanges, C_preparePreview] @ tl
                \<and> tl \<in> {[], [C_startPreview], [C_startPreview, C_unpreparePreview]}
                \<and> (rc = NO_ERROR \<longleftrightarrow> tl = [C_startPreview]))
         else calls_of (new_effects w w') = [C_commitParameterChanges]
           \<and> rc = fst (hw_call E C_commitParameterChanges (parent w)))) w"
  by (simp add: sm_simps new_effects_def)

section \<open>A parent that notes whether it records\<close>

definition recorder :: "'p hwi \<Rightarrow> ('p \<times> bool) hwi" where
  "recorder E =
     \<lparr>hw_call = (\<lambda>c (p, on). case hw_call E c p of (rc, p') \<Rightarrow>
         (rc, (p', if c = C_startRecording \<and> rc = NO_ERROR then True
                   else if c = C_stopRecording then False else on))),
      hw_query = (\<lambda>q (p, _). hw_query E q p),
      hw_msgTypeEnabled = (\<lambda>m (p, _). hw_msgTypeEnabled E m p),
      hw_needRestart = (\<lambda>d b (p, _). hw_needRestart E d b p),
      hw_faceID = (\<lambda>f (p, _). hw_faceID E f p),
      hw_params = (\<lambda>(p, _). hw_params E p),
      hw_preview_frame = hw_preview_frame E\<rparr>"

definition recording_ok :: "('p \<times> bool) sm \<Rightarrow> bool" where
  "recording_ok w \<longleftrightarrow> snd (parent w) = isRecording w"

lemma snd_recorder_call [simp]:
  "snd (snd (hw_call (recorder E) c p)) =
     (if c = C_startRecording \<and> fst (hw_call (recorder E) c p) = NO_ERROR then True
      else if c = C_stopRecording then False else snd p)"
  by (cases p) (auto simp: recorder_def split: prod.splits)

lemma recorder_take_picture_hint:
  "recording_ok w \<Longrightarrow> wp (take_picture_hint (recorder E)) (\<lambda>_ w'. recording_ok w' \<and> m_state w' = m_state w) w"
  by (simp add: take_picture_hint_def prepare_and_start_def wp_rules recording_ok_def isRecording_def)

lemma recorder_take_picture:
  assumes "recording_ok w" and "m_state w = QCAMERA_SM_STATE_PREVIEWING"
  shows "wp (previewing_TAKE_PICTURE (recorder E) evt) (\<lambda>_ w'. recording_ok w') w"
  unfolding previewing_TAKE_PICTURE_def wp_bind
  by (rule wp_mono [OF recorder_take_picture_hint [OF assms(1)]])
    (auto simp: wp_rules block_defs recording_ok_def isRecording_def assms(2))

lemma recorder_wp:
  "recording_ok w \<Longrightarrow> wp (stateMachine (recorder E) evt pl) (\<lambda>_ w'. recording_ok w') w"
  by (cases "m_state w"; cases evt;
      simp add: sm_simps recorder_take_picture;
      simp add: sm_simps recording_ok_def isRecording_def split: notification_splits)

lemma recording_ok_run: "recording_ok w \<Longrightarrow> recording_ok (handle_all (recorder E) es w)"
proof (induction es arbitrary: w)
  case Nil
  then show ?case by simp
next
  case (Cons x es)
  then show ?case
    by (cases x) (simp add: handle_snd_wp [OF recorder_wp])
qed

end
