(* ===== verification/SmTheorems.thy ===== *)
theory SmTheorems
  imports SmProtocol
begin

text \<open>
  What the camera state machine guarantees, each property stated over \<open>handle\<close> or
  \<open>handle_all\<close> for every parent, state, payload and event it names.
\<close>

text \<open>A parent that grants every call, for the concrete runs below.\<close>

definition willing :: "unit hwi" where
  "willing =
     \<lparr>hw_call = (\<lambda>c p. (NO_ERROR, p)), hw_query = (\<lambda>q p. q = Q_mPreviewWindow_set),
      hw_msgTypeEnabled = (\<lambda>m p. m), hw_needRestart = (\<lambda>d b p. b), hw_faceID = (\<lambda>f p. 0),
      hw_params = (\<lambda>p. 1), hw_preview_frame = 16\<rparr>"

definition no_payload :: sm_payload where
  "no_payload =
     \<lparr>as_ptr = 0, as_int = 0, as_setcb = [],
      as_cmd = \<lparr>cp_cmd = CAMERA_CMD_LONGSHOT_OFF, cp_arg1 = 0, cp_arg2 = 0\<rparr>, as_face = (0, 0),
      as_server_evt = CAM_EVENT_TYPE_CAC_DONE, as_internal = (QCAMERA_INTERNAL_EVT_FOCUS_UPDATE, 0)\<rparr>"

definition in_state :: "sm_state \<Rightarrow> unit sm" where
  "in_state s = (QCameraStateMachine False ())\<lparr>m_state := s\<rparr>"

lemmas run_simps = willing_def no_payload_def in_state_def QCameraStateMachine_def

lemmas step_simps = handle_def stateMachine_def handler_defs block_defs call_def call0_def
  query_def set_state_def signalAPIResult_def signalEvtResult_def

text \<open>
  C1: The state machine answers a client exactly once. In every state, for every API event outside the listed
  pairs, whatever the payload, the flags, the parent's state and the way its calls end, the handler signals
  one result through \<open>signalAPIResult\<close> before it returns; it names that event and carries the status the
  handler returns.
\<close>

theorem api_event_answered_once:
  "is_api_evt evt \<Longrightarrow> answer_time (m_state w) evt = Now \<Longrightarrow>
   \<exists>v. results_of (new_effects w (snd (handle E evt pl w)))
     = [\<lparr>r_status = fst (handle E evt pl w), r_request_api = evt, r_value = v\<rparr>]"
  by (rule handle_wp [OF answered_now_wp]) simp_all

theorem api_event_answered_once_witness:
  "\<exists>v. results_of (new_effects (in_state QCAMERA_SM_STATE_RECORDING)
     (snd (handle willing QCAMERA_SM_EVT_STOP_RECORDING no_payload
        (in_state QCAMERA_SM_STATE_RECORDING))))
     = [\<lparr>r_status = fst (handle willing QCAMERA_SM_EVT_STOP_RECORDING no_payload
          (in_state QCAMERA_SM_STATE_RECORDING)),
         r_request_api = QCAMERA_SM_EVT_STOP_RECORDING, r_value = v\<rparr>]"
  by (rule api_event_answered_once) (simp_all add: is_api_evt_def answer_time_def run_simps)

text \<open>
  In the three states and events where the answer may come later, the handler either answers now, once and
  with that event, or returns \<open>NO_ERROR\<close> and leaves the client waiting for a notification.
\<close>

lemma api_event_answered_later:
  "is_api_evt evt \<Longrightarrow> answer_time (m_state w) evt = Later \<Longrightarrow>
   api_signals (new_effects w (snd (handle E evt pl w))) = [evt]
   \<or> fst (handle E evt pl w) = NO_ERROR
       \<and> api_signals (new_effects w (snd (handle E evt pl w))) = []"
  using handle_wp [OF answered_later_wp, of evt w E pl "fst (handle E evt pl w)"
      "snd (handle E evt pl w)"] by simp

text \<open>
  Five pairs of a state and an API event are never answered: no result is signalled for the client that
  waits, whatever the payload and the parent.
\<close>

lemma api_event_never_answered:
  "is_api_evt evt \<Longrightarrow> answer_time (m_state w) evt = Never \<Longrightarrow>
   api_signals (new_effects w (snd (handle E evt pl w))) = []"
  using handle_snd_wp [OF answered_never_wp] by blast

text \<open>
  No event makes the machine answer twice, and it answers nothing but the event itself; only
  an internal event or a server notification also answers a pending \<open>PREPARE_SNAPSHOT\<close> or
  \<open>TAKE_PICTURE\<close>.
\<close>

lemma no_stray_answer:
  "distinct (api_signals (new_effects w (snd (handle E evt pl w))))
   \<and> set (api_signals (new_effects w (snd (handle E evt pl w)))) \<subseteq>
       (if evt \<in> {QCAMERA_SM_EVT_EVT_INTERNAL, QCAMERA_SM_EVT_EVT_NOTIFY}
        then {QCAMERA_SM_EVT_PREPARE_SNAPSHOT, QCAMERA_SM_EVT_TAKE_PICTURE}
        else {evt})"
  using handle_snd_wp [OF stray_wp [of E evt pl w]] .

text \<open>
  C3: Every step of the machine is an edge of the graph \<open>next_states\<close>, which also depends on the status the
  handler returns: the handlers of the eight states refine that graph.
\<close>

theorem transitions_follow_graph:
  "m_state (snd (handle E evt pl w)) \<in> set (next_states (m_state w) evt (fst (handle E evt pl w)))"
  by (rule handle_wp [OF next_states_wp [of E evt pl w]]) simp

text \<open>
  C5: The hardware is only asked for what the state allows: recording starts only from a preview, stops only
  while recording, a picture is taken only from the preview, a live snapshot only while recording, and the
  camera is released only when the preview is stopped.
\<close>

theorem calls_respect_state:
  "list_all (call_allowed (m_state w)) (calls_of (new_effects w (snd (handle E evt pl w))))"
  using handle_snd_wp [OF call_allowed_wp [of E evt pl w]] by (simp add: list_all_iff)

text \<open>
  C4: The machine and its parent agree about recording: from a fresh machine, after any events, the machine is
  in a recording state exactly when the last \<open>startRecording\<close> that succeeded has not been followed by a
  \<open>stopRecording\<close>.
\<close>

theorem recording_agrees:
  "snd (parent (handle_all (recorder E) es (QCameraStateMachine garbage (p, False))))
   = isRecording (handle_all (recorder E) es (QCameraStateMachine garbage (p, False)))"
  using recording_ok_run [of "QCameraStateMachine garbage (p, False)" E es]
  by (simp add: recording_ok_def QCameraStateMachine_def isRecording_def)

text \<open>
  Each event a state refuses is answered with \<open>INVALID_OPERATION\<close>, and nothing else happens: no call,
  no change of state or flag.
\<close>

lemma refused_changes_nothing:
  "evt \<in> set (refused_events (m_state w)) \<Longrightarrow>
   handle E evt pl w =
     (INVALID_OPERATION, w\<lparr>trace := trace w @ [SignalAPI \<lparr>r_status = INVALID_OPERATION,
         r_request_api = evt, r_value = QCAMERA_API_RESULT_TYPE_DEF\<rparr>]\<rparr>)"
  using handle_wp [OF refused_wp, of evt w E pl "fst (handle E evt pl w)"
      "snd (handle E evt pl w)"] by (simp add: prod_eq_iff)

text \<open>
  The snapshot preparation is a protocol: once in \<open>PREPARE_SNAPSHOT\<close>, the machine stays there and
  answers nothing but refusals through any events until \<open>PREP_SNAPSHOT_DONE\<close>, which brings the
  preview back and answers the pending \<open>PREPARE_SNAPSHOT\<close>, once.
\<close>

lemma snapshot_preparation:
  "m_state w = QCAMERA_SM_STATE_PREPARE_SNAPSHOT \<Longrightarrow> run_waits es \<Longrightarrow> is_prep_done evt pl \<Longrightarrow>
   m_state (handle_all E es w) = QCAMERA_SM_STATE_PREPARE_SNAPSHOT
   \<and> (\<exists>new. trace (handle_all E es w) = trace w @ new
        \<and> (\<forall>r. SignalAPI r \<in> set new \<longrightarrow> r_status r = INVALID_OPERATION))
   \<and> m_state (handle_all E (es @ [(evt, pl)]) w) = QCAMERA_SM_STATE_PREVIEWING
   \<and> api_signals (new_effects (handle_all E es w) (handle_all E (es @ [(evt, pl)]) w))
       = [QCAMERA_SM_EVT_PREPARE_SNAPSHOT]"
  using preparing_waits_run [of w es E]
    handle_snd_wp [OF preparing_done_wp, of "handle_all E es w" evt pl E] by simp

text \<open>
  A client can always shut the camera down, unless a snapshot is being prepared: from any other
  state, \<open>STOP_PREVIEW\<close> and then \<open>RELEASE\<close> leave the preview stopped and call the parent's
  \<open>release\<close>, whose status is the answer.
\<close>

lemma stop_then_release:
  assumes "m_state w \<noteq> QCAMERA_SM_STATE_PREPARE_SNAPSHOT"
    and "w1 = snd (handle E QCAMERA_SM_EVT_STOP_PREVIEW pl w)"
    and "handle E QCAMERA_SM_EVT_RELEASE pl' w1 = (rc, w2)"
  shows "m_state w1 = QCAMERA_SM_STATE_PREVIEW_STOPPED
    \<and> m_state w2 = QCAMERA_SM_STATE_PREVIEW_STOPPED
    \<and> calls_of (new_effects w1 w2) = [C_release] \<and> rc = fst (hw_call E C_release (parent w1))"
proof -
  have stopped: "m_state w1 = QCAMERA_SM_STATE_PREVIEW_STOPPED"
    unfolding assms(2) by (rule handle_snd_wp [OF stop_preview_wp [OF assms(1)]])
  moreover have "m_state w2 = QCAMERA_SM_STATE_PREVIEW_STOPPED"
    using handle_wp [OF next_states_wp assms(3)] by (simp add: stopped next_states_def Let_def)
  ultimately show ?thesis
    using handle_wp [OF release_wp [OF stopped] assms(3)] by simp
qed

text \<open>
  Recording starts and stops only with the parent's calls: the machine enters a recording state
  only on \<open>START_RECORDING\<close>, when \<open>startRecording\<close> was the first call and the status is
  \<open>NO_ERROR\<close>, and leaves them only on \<open>STOP_RECORDING\<close> or \<open>STOP_PREVIEW\<close>, having called
  \<open>stopRecording\<close>.
\<close>

lemma recording_changes:
  "handle E evt pl w = (rc, w') \<Longrightarrow> isRecording w' \<noteq> isRecording w \<Longrightarrow>
   (if isRecording w' then evt = QCAMERA_SM_EVT_START_RECORDING \<and> rc = NO_ERROR
        \<and> calls_of (new_effects w w') \<noteq> [] \<and> hd (calls_of (new_effects w w')) = C_startRecording
    else evt \<in> {QCAMERA_SM_EVT_STOP_RECORDING, QCAMERA_SM_EVT_STOP_PREVIEW}
        \<and> C_stopRecording \<in> set (calls_of (new_effects w w')))"
  using handle_wp [OF recording_wp, of E evt pl w rc w'] by simp

text \<open>
  Every handler takes and gives back \<open>m_parm_lock\<close> in turn: it never takes the lock twice, never gives
  back what it does not hold, and never returns holding it.
\<close>

lemma parm_lock_balanced:
  "lock_run False (new_effects w (snd (handle E evt pl w))) = Some False"
  using handle_snd_wp [OF lock_wp [of E evt pl w]] .

text \<open>
  Through any events from a fresh machine, messages are delayed only while a picture of a
  running preview asks for it, and the only message ever delayed is the preview frame.
\<close>

lemma delayed_messages_safe:
  "delayed_ok E (handle_all E es (QCameraStateMachine garbage p))"
  by (simp add: delayed_ok_run delayed_ok_new)

text \<open>
  Committing parameters while previewing restarts the preview exactly when an earlier
  \<open>SET_PARAMS\<close> asked for it: preview stopped, memory pool cleared, parameters committed, preview prepared
  and started, in this order, the preparation taken back when the start fails; the request is cleared in any
  case.
\<close>

lemma commit_restarts_in_order:
  "m_state w = QCAMERA_SM_STATE_PREVIEWING \<Longrightarrow>
   handle E QCAMERA_SM_EVT_COMMIT_PARAMS pl w = (rc, w') \<Longrightarrow>
   \<not> m_bPreviewNeedsRestart w' \<and>
   (if m_bPreviewNeedsRestart w
    then (\<exists>tl. calls_of (new_effects w w') =
           [C_stopPreview, C_memoryPool_clear, C_commitParameterChanges, C_preparePreview] @ tl
           \<and> tl \<in> {[], [C_startPreview], [C_startPreview, C_unpreparePreview]}
           \<and> (rc = NO_ERROR \<longleftrightarrow> tl = [C_startPreview]))
    else calls_of (new_effects w w') = [C_commitParameterChanges]
         \<and> rc = fst (hw_call E C_commitParameterChanges (parent w)))"
  using handle_wp [OF commit_restart_wp, of w E pl rc w'] by blast

end
