(* ===== verification/SmThread.thy ===== *)
theory SmThread
  imports SmTheorems
begin

text \<open>
  The thread of the camera state machine and its clients: \<open>procAPI\<close>, \<open>procEvt\<close>,
  \<open>releaseThread\<close> and \<open>smEvtProcRoutine\<close> of \<open>QCameraStateMachine.cpp\<close>, over the queues of
  \<open>CamQueue\<close> and the semaphore of \<open>cam_semaphore.h\<close>.

  Clients and the worker thread run concurrently, so their routines are cut where another thread can come
  in between: each operation of a queue or of the semaphore is one step, and \<open>sm_step\<close> interleaves the
  steps in any order. A client that has put its node but not posted the semaphore yet is counted in
  \<open>posting\<close>; \<open>worker\<close> is the worker's program counter. The lists \<open>accepted_api\<close>,
  \<open>accepted_evt\<close> and \<open>handled\<close> are histories that only the specification reads.
\<close>

section \<open>State\<close>

text \<open>\<open>qcamera_sm_cmd_t\<close>, with its type as the constructor.\<close>

datatype sm_cmd =
    QCAMERA_SM_CMD_TYPE_API sm_evt sm_payload
  | QCAMERA_SM_CMD_TYPE_EVT sm_evt sm_payload
  | QCAMERA_SM_CMD_TYPE_EXIT

text \<open>Where the worker is: at \<open>cam_sem_wait\<close>, at the first or second \<open>dequeue\<close>, at the \<open>switch\<close>.\<close>

datatype worker = W_WAIT | W_API | W_EVT | W_CMD sm_cmd | W_EXITED

record 'p sm_thread =
  machine :: "'p sm"
  api_queue :: "sm_cmd cam_queue"
  evt_queue :: "sm_cmd cam_queue"
  cmd_sem :: nat
  cmd_pid :: bool
  worker :: worker
  posting :: nat
  accepted_api :: "sm_cmd list"
  accepted_evt :: "sm_cmd list"
  handled :: "sm_cmd list"
  freed_payloads :: "sm_payload list"

definition new_thread :: "'p sm \<Rightarrow> 'p sm_thread" where
  "new_thread m =
     \<lparr>machine = m, api_queue = QCameraQueue False, evt_queue = QCameraQueue False,
      cmd_sem = 0, cmd_pid = True, worker = W_WAIT, posting = 0,
      accepted_api = [], accepted_evt = [], handled = [], freed_payloads = []\<rparr>"

section \<open>The clients\<close>

text \<open>
  \<open>malloc_node\<close> and \<open>malloc_qnode\<close> say whether the two allocations succeed: the command's, and the
  queue node's inside \<open>enqueue\<close>.
\<close>

definition put_api :: "bool \<Rightarrow> sm_cmd \<Rightarrow> 'p sm_thread \<Rightarrow> bool \<times> 'p sm_thread" where
  "put_api malloc_qnode c s = (case enqueue malloc_qnode (Some c) (api_queue s) of
     (True, q) \<Rightarrow> (True, s\<lparr>api_queue := q, posting := posting s + 1,
                        accepted_api := accepted_api s @ [c]\<rparr>)
   | (False, q) \<Rightarrow> (False, s\<lparr>api_queue := q\<rparr>))"

definition procAPI ::
    "bool \<Rightarrow> bool \<Rightarrow> sm_evt \<Rightarrow> sm_payload \<Rightarrow> 'p sm_thread \<Rightarrow> status \<times> 'p sm_thread" where
  "procAPI malloc_node malloc_qnode evt api_payload s =
     (if \<not> malloc_node then (NO_MEMORY, s)
      else (case put_api malloc_qnode (QCAMERA_SM_CMD_TYPE_API evt api_payload) s of
              (True, s') \<Rightarrow> (NO_ERROR, s')
            | (False, s') \<Rightarrow> (UNKNOWN_ERROR, s')))"

definition procEvt ::
    "bool \<Rightarrow> bool \<Rightarrow> sm_evt \<Rightarrow> sm_payload \<Rightarrow> 'p sm_thread \<Rightarrow> status \<times> 'p sm_thread" where
  "procEvt malloc_node malloc_qnode evt evt_payload s =
     (if \<not> malloc_node then (NO_MEMORY, s)
      else (case enqueue malloc_qnode (Some (QCAMERA_SM_CMD_TYPE_EVT evt evt_payload))
                   (evt_queue s) of
              (True, q) \<Rightarrow> (NO_ERROR, s\<lparr>evt_queue := q, posting := posting s + 1,
                  accepted_evt := accepted_evt s @ [QCAMERA_SM_CMD_TYPE_EVT evt evt_payload]\<rparr>)
            | (False, q) \<Rightarrow> (UNKNOWN_ERROR, s\<lparr>evt_queue := q\<rparr>)))"

text \<open>The post that ends a successful \<open>procAPI\<close>, \<open>procEvt\<close> or \<open>releaseThread\<close>.\<close>

definition cam_sem_post :: "'p sm_thread \<Rightarrow> 'p sm_thread" where
  "cam_sem_post s = s\<lparr>cmd_sem := cmd_sem s + 1, posting := posting s - 1\<rparr>"

text \<open>
  \<open>releaseThread\<close> up to its \<open>pthread_join\<close>; the flag says whether it goes on to the join, which it
  also does when the queue did not take the exit command.
\<close>

definition releaseThread :: "bool \<Rightarrow> bool \<Rightarrow> 'p sm_thread \<Rightarrow> bool \<times> 'p sm_thread" where
  "releaseThread malloc_node malloc_qnode s =
     (if cmd_pid s then
        (if malloc_node
         then (True, snd (put_api malloc_qnode QCAMERA_SM_CMD_TYPE_EXIT s))
         else (False, s\<lparr>cmd_pid := False\<rparr>))
      else (False, s))"

text \<open>\<open>pthread_join\<close> returns once the worker has returned.\<close>

definition pthread_join :: "'p sm_thread \<Rightarrow> 'p sm_thread option" where
  "pthread_join s = (if worker s = W_EXITED then Some (s\<lparr>cmd_pid := False\<rparr>) else None)"

section \<open>The worker\<close>

definition run_cmd :: "'p hwi \<Rightarrow> sm_cmd \<Rightarrow> 'p sm_thread \<Rightarrow> 'p sm_thread" where
  "run_cmd E c s = (case c of
     QCAMERA_SM_CMD_TYPE_API evt pl \<Rightarrow>
       s\<lparr>machine := snd (handle E evt pl (machine s)), worker := W_WAIT,
         handled := handled s @ [c]\<rparr>
   | QCAMERA_SM_CMD_TYPE_EVT evt pl \<Rightarrow>
       s\<lparr>machine := snd (handle E evt pl (machine s)), worker := W_WAIT,
         handled := handled s @ [c], freed_payloads := freed_payloads s @ [pl]\<rparr>
   | QCAMERA_SM_CMD_TYPE_EXIT \<Rightarrow>
       s\<lparr>worker := W_EXITED, handled := handled s @ [c]\<rparr>)"

text \<open>One step of \<open>smEvtProcRoutine\<close>; \<open>None\<close> when the worker is blocked or gone.\<close>

definition smEvtProcRoutine :: "'p hwi \<Rightarrow> 'p sm_thread \<Rightarrow> 'p sm_thread option" where
  "smEvtProcRoutine E s = (case worker s of
     W_WAIT \<Rightarrow>
       if cmd_sem s = 0 then None
       else Some (s\<lparr>cmd_sem := cmd_sem s - 1, worker := W_API\<rparr>)
   | W_API \<Rightarrow> (case dequeue True (api_queue s) of
       (None, q) \<Rightarrow> Some (s\<lparr>api_queue := q, worker := W_EVT\<rparr>)
     | (Some node, q) \<Rightarrow> Some (s\<lparr>api_queue := q, worker := W_CMD node\<rparr>))
   | W_EVT \<Rightarrow> (case dequeue True (evt_queue s) of
       (None, q) \<Rightarrow> Some (s\<lparr>evt_queue := q, worker := W_WAIT\<rparr>)
     | (Some node, q) \<Rightarrow> Some (s\<lparr>evt_queue := q, worker := W_CMD node\<rparr>))
   | W_CMD c \<Rightarrow> Some (run_cmd E c s)
   | W_EXITED \<Rightarrow> None)"

section \<open>Interleavings\<close>

inductive sm_step :: "'p hwi \<Rightarrow> 'p sm_thread \<Rightarrow> 'p sm_thread \<Rightarrow> bool" for E where
  api: "sm_step E s (snd (procAPI b1 b2 evt pl s))"
| evt: "sm_step E s (snd (procEvt b1 b2 evt pl s))"
| post: "posting s > 0 \<Longrightarrow> sm_step E s (cam_sem_post s)"
| release: "sm_step E s (snd (releaseThread b1 b2 s))"
| join: "pthread_join s = Some s' \<Longrightarrow> sm_step E s s'"
| work: "smEvtProcRoutine E s = Some s' \<Longrightarrow> sm_step E s s'"

inductive sm_reachable :: "'p hwi \<Rightarrow> 'p sm \<Rightarrow> 'p sm_thread \<Rightarrow> bool" for E m where
  start: "sm_reachable E m (new_thread m)"
| step: "sm_reachable E m s \<Longrightarrow> sm_step E s s' \<Longrightarrow> sm_reachable E m s'"

inductive_cases sm_stepE: "sm_step E s s'"

section \<open>The invariant\<close>

primrec is_evt_cmd :: "sm_cmd \<Rightarrow> bool" where
  "is_evt_cmd (QCAMERA_SM_CMD_TYPE_API e p) = False"
| "is_evt_cmd (QCAMERA_SM_CMD_TYPE_EVT e p) = True"
| "is_evt_cmd QCAMERA_SM_CMD_TYPE_EXIT = False"

fun events_of :: "sm_cmd list \<Rightarrow> (sm_evt \<times> sm_payload) list" where
  "events_of [] = []"
| "events_of (QCAMERA_SM_CMD_TYPE_API e p # cs) = (e, p) # events_of cs"
| "events_of (QCAMERA_SM_CMD_TYPE_EVT e p # cs) = (e, p) # events_of cs"
| "events_of (QCAMERA_SM_CMD_TYPE_EXIT # cs) = events_of cs"

lemma events_of_append [simp]: "events_of (xs @ ys) = events_of xs @ events_of ys"
  by (induction xs rule: events_of.induct) auto

definition in_hand :: "worker \<Rightarrow> sm_cmd list" where
  "in_hand w = (case w of W_CMD c \<Rightarrow> [c] | _ \<Rightarrow> [])"

abbreviation items :: "sm_cmd cam_queue \<Rightarrow> sm_cmd list" where
  "items q \<equiv> nonnull (q_list q)"

text \<open>Every node put in a queue has its permit: posted, about to be posted, or taken by the worker.\<close>

definition permits_ok :: "'p sm_thread \<Rightarrow> bool" where
  "permits_ok s \<longleftrightarrow>
     length (items (api_queue s)) + length (items (evt_queue s))
       = posting s + cmd_sem s + (if worker s = W_API \<or> worker s = W_EVT then 1 else 0)
     \<and> (worker s = W_EVT \<longrightarrow> items (evt_queue s) \<noteq> [])"

text \<open>Each queue gives its commands back in the order it took them, none lost and none twice.\<close>

definition order_ok :: "'p sm_thread \<Rightarrow> bool" where
  "order_ok s \<longleftrightarrow>
     accepted_api s = filter (\<lambda>c. \<not> is_evt_cmd c) (handled s @ in_hand (worker s))
        @ items (api_queue s)
     \<and> accepted_evt s = filter is_evt_cmd (handled s @ in_hand (worker s)) @ items (evt_queue s)
     \<and> (\<forall>c\<in>set (items (api_queue s)). \<not> is_evt_cmd c)
     \<and> (\<forall>c\<in>set (items (evt_queue s)). is_evt_cmd c)"

definition exit_ok :: "'p sm_thread \<Rightarrow> bool" where
  "exit_ok s \<longleftrightarrow>
     (if worker s = W_EXITED
      then \<exists>cs. handled s = cs @ [QCAMERA_SM_CMD_TYPE_EXIT] \<and> QCAMERA_SM_CMD_TYPE_EXIT \<notin> set cs
      else QCAMERA_SM_CMD_TYPE_EXIT \<notin> set (handled s))"

definition payloads_of_evts :: "sm_cmd list \<Rightarrow> sm_payload list" where
  "payloads_of_evts cs = map snd (events_of (filter is_evt_cmd cs))"

definition thread_ok :: "'p hwi \<Rightarrow> 'p sm \<Rightarrow> 'p sm_thread \<Rightarrow> bool" where
  "thread_ok E m s \<longleftrightarrow>
     queue_live (api_queue s) \<and> queue_live (evt_queue s)
     \<and> permits_ok s \<and> order_ok s \<and> exit_ok s
     \<and> machine s = handle_all E (events_of (handled s)) m
     \<and> freed_payloads s = payloads_of_evts (handled s)"

lemmas thread_defs = thread_ok_def permits_ok_def order_ok_def exit_ok_def in_hand_def
  payloads_of_evts_def

lemma thread_ok_new: "thread_ok E m (new_thread m)"
  by (simp add: thread_defs new_thread_def) (simp add: QCameraQueue_def)

lemma enqueue_False [simp]: "enqueue False d q = (False, q)"
  by (simp add: enqueue_def)

lemma enqueue_live:
  "queue_live q \<Longrightarrow> enqueue True (Some x) q = (True, snd (enqueue True (Some x) q))"
  using cq.put_accepts [of q x] by (simp add: prod_eq_iff)

lemma put_api_True:
  "queue_live (api_queue s) \<Longrightarrow>
   put_api True c s = (True, s\<lparr>api_queue := snd (enqueue True (Some c) (api_queue s)),
      posting := posting s + 1, accepted_api := accepted_api s @ [c]\<rparr>)"
  using enqueue_live [of "api_queue s" c] by (auto simp: put_api_def split: prod.split)

lemma put_api_False: "put_api False c s = (False, s)"
  by (simp add: put_api_def)

lemma procEvt_True:
  "queue_live (evt_queue s) \<Longrightarrow>
   procEvt True True evt pl s = (NO_ERROR,
     s\<lparr>evt_queue := snd (enqueue True (Some (QCAMERA_SM_CMD_TYPE_EVT evt pl)) (evt_queue s)),
       posting := posting s + 1,
       accepted_evt := accepted_evt s @ [QCAMERA_SM_CMD_TYPE_EVT evt pl]\<rparr>)"
  using enqueue_live [of "evt_queue s" "QCAMERA_SM_CMD_TYPE_EVT evt pl"]
  by (auto simp: procEvt_def split: prod.split)

lemma procEvt_False: "\<not> (b1 \<and> b2) \<Longrightarrow> snd (procEvt b1 b2 evt pl s) = s"
  by (auto simp: procEvt_def)

lemma thread_ok_put_api:
  assumes "thread_ok E m s" and "\<not> is_evt_cmd c"
  shows "thread_ok E m (snd (put_api b c s))"
proof (cases b)
  case True
  with assms show ?thesis
    by (simp add: put_api_True thread_defs cq.put_items cq.put_good)
next
  case False
  with assms show ?thesis by (simp add: put_api_False)
qed

lemma thread_ok_procAPI: "thread_ok E m s \<Longrightarrow> thread_ok E m (snd (procAPI b1 b2 evt pl s))"
  using thread_ok_put_api [of E m s "QCAMERA_SM_CMD_TYPE_API evt pl" b2]
  by (auto simp: procAPI_def split: prod.splits bool.splits)

lemma thread_ok_procEvt:
  assumes "thread_ok E m s"
  shows "thread_ok E m (snd (procEvt b1 b2 evt pl s))"
proof (cases "b1 \<and> b2")
  case True
  with assms show ?thesis
    by (simp add: procEvt_True thread_defs cq.put_items cq.put_good)
next
  case False
  with assms show ?thesis by (simp add: procEvt_False)
qed

lemma thread_ok_post: "thread_ok E m s \<Longrightarrow> posting s > 0 \<Longrightarrow> thread_ok E m (cam_sem_post s)"
  by (auto simp: thread_defs cam_sem_post_def)

lemma thread_ok_release: "thread_ok E m s \<Longrightarrow> thread_ok E m (snd (releaseThread b1 b2 s))"
  by (simp add: releaseThread_def thread_ok_put_api) (simp add: thread_defs)

lemma thread_ok_join: "thread_ok E m s \<Longrightarrow> pthread_join s = Some s' \<Longrightarrow> thread_ok E m s'"
proof -
  assume ok: "thread_ok E m s" and "pthread_join s = Some s'"
  then have "s' = s\<lparr>cmd_pid := False\<rparr>" by (simp add: pthread_join_def split: if_splits)
  then show ?thesis using ok by (simp add: thread_defs)
qed

text \<open>What a \<open>dequeue\<close> from a live queue gives, in terms of its items.\<close>

lemma dequeue_live:
  assumes "queue_live q" and "dequeue True q = (node, q')"
  shows "queue_live q' \<and> (case items q of [] \<Rightarrow> node = None \<and> items q' = []
     | c # cs \<Rightarrow> node = Some c \<and> items q' = cs)"
  using cq.take_value [OF assms(1)] cq.take_items [OF assms(1)] cq.take_good [OF assms(1)] assms(2)
  by (auto split: list.splits)

lemma thread_ok_W_WAIT:
  assumes "thread_ok E m s" and w: "worker s = W_WAIT" and "smEvtProcRoutine E s = Some s'"
  shows "thread_ok E m s'"
proof -
  from assms have "cmd_sem s > 0" "s' = s\<lparr>cmd_sem := cmd_sem s - 1, worker := W_API\<rparr>"
    by (simp_all add: smEvtProcRoutine_def split: if_splits)
  then show ?thesis using assms(1) w by (simp add: thread_defs)
qed

lemma thread_ok_W_API:
  assumes "thread_ok E m s" and w: "worker s = W_API" and "smEvtProcRoutine E s = Some s'"
  shows "thread_ok E m s'"
proof -
  obtain node q where d: "dequeue True (api_queue s) = (node, q)" by fastforce
  have q: "queue_live q \<and> (case items (api_queue s) of [] \<Rightarrow> node = None \<and> items q = []
     | c # cs \<Rightarrow> node = Some c \<and> items q = cs)"
    using dequeue_live [OF _ d] assms(1) by (simp add: thread_ok_def)
  show ?thesis
  proof (cases "items (api_queue s)")
    case Nil
    then have n: "node = None" "items q = []" "queue_live q" using q by (simp_all only: list.case)
    then have s': "s' = s\<lparr>api_queue := q, worker := W_EVT\<rparr>" using assms(2,3) d by (simp add: smEvtProcRoutine_def)
    have "items (evt_queue s) \<noteq> []"
      using assms(1) w Nil unfolding thread_ok_def permits_ok_def
      by (metis One_nat_def Suc_eq_plus1 add.commute list.size(3) nat.simps(3) plus_nat.add_0)
    then show ?thesis using assms(1) w Nil n unfolding s' thread_defs by simp
  next
    case (Cons c cs)
    then have n: "node = Some c" "items q = cs" "queue_live q" using q by (simp_all only: list.case)
    then have s': "s' = s\<lparr>api_queue := q, worker := W_CMD c\<rparr>" using assms(2,3) d by (simp add: smEvtProcRoutine_def)
    show ?thesis using assms(1) w Cons n unfolding s' thread_defs by simp
  qed
qed

lemma thread_ok_W_EVT:
  assumes "thread_ok E m s" and w: "worker s = W_EVT" and "smEvtProcRoutine E s = Some s'"
  shows "thread_ok E m s'"
proof -
  obtain node q where d: "dequeue True (evt_queue s) = (node, q)" by fastforce
  obtain c cs where i: "items (evt_queue s) = c # cs"
    using assms(1) w by (cases "items (evt_queue s)") (simp_all add: thread_ok_def permits_ok_def)
  have "queue_live (evt_queue s)" using assms(1) by (simp only: thread_ok_def)
  from dequeue_live [OF this d] have q: "queue_live q" "node = Some c" "items q = cs" by (simp_all only: i list.case)
  then have s': "s' = s\<lparr>evt_queue := q, worker := W_CMD c\<rparr>" using assms(2,3) d by (simp add: smEvtProcRoutine_def)
  show ?thesis using assms(1) w i q unfolding s' thread_defs by simp
qed

lemma thread_ok_W_CMD:
  assumes "thread_ok E m s" and "worker s = W_CMD c" and "smEvtProcRoutine E s = Some s'"
  shows "thread_ok E m s'"
proof -
  from assms have s': "s' = run_cmd E c s" by (simp add: smEvtProcRoutine_def)
  show ?thesis
    using assms(1,2) unfolding s' by (cases c) (simp_all add: thread_defs run_cmd_def)
qed

lemma thread_ok_work:
  assumes "thread_ok E m s" and "smEvtProcRoutine E s = Some s'"
  shows "thread_ok E m s'"
proof (cases "worker s")
  case W_EXITED
  then show ?thesis using assms by (simp add: smEvtProcRoutine_def)
qed (use assms thread_ok_W_WAIT thread_ok_W_API thread_ok_W_EVT thread_ok_W_CMD in blast)+

lemma thread_ok_step: "thread_ok E m s \<Longrightarrow> sm_step E s s' \<Longrightarrow> thread_ok E m s'"
  by (erule sm_stepE)
    (auto simp: thread_ok_procAPI thread_ok_procEvt thread_ok_post thread_ok_release
       dest: thread_ok_join thread_ok_work)

lemma thread_ok_reachable: "sm_reachable E m s \<Longrightarrow> thread_ok E m s"
  by (induction rule: sm_reachable.induct) (auto simp: thread_ok_new thread_ok_step)

section \<open>No wakeup is lost\<close>

lemma worker_not_stuck:
  assumes "thread_ok E m s" and "posting s = 0" and "worker s \<noteq> W_EXITED"
    and "smEvtProcRoutine E s = None"
  shows "worker s = W_WAIT \<and> items (api_queue s) = [] \<and> items (evt_queue s) = []"
proof (cases "worker s")
  case W_WAIT
  with assms show ?thesis by (auto simp: smEvtProcRoutine_def thread_defs split: if_splits)
qed (use assms in \<open>auto simp: smEvtProcRoutine_def split: prod.splits option.splits\<close>)

lemma second_dequeue_finds:
  assumes "thread_ok E m s" and "worker s = W_EVT"
  shows "\<exists>evt pl. fst (dequeue True (evt_queue s)) = Some (QCAMERA_SM_CMD_TYPE_EVT evt pl)"
proof -
  from assms obtain c cs where c: "items (evt_queue s) = c # cs" "is_evt_cmd c"
      "queue_live (evt_queue s)"
    by (cases "items (evt_queue s)") (auto simp: thread_defs)
  then have "fst (dequeue True (evt_queue s)) = Some c"
    by (simp add: cq.take_value)
  with c(2) show ?thesis by (cases c) auto
qed

section \<open>Draining the queues\<close>

primrec run_worker :: "'p hwi \<Rightarrow> nat \<Rightarrow> 'p sm_thread \<Rightarrow> 'p sm_thread" where
  "run_worker E 0 s = s"
| "run_worker E (Suc n) s = (case smEvtProcRoutine E s of None \<Rightarrow> s | Some s' \<Rightarrow> run_worker E n s')"

lemma run_worker_ok: "thread_ok E m s \<Longrightarrow> thread_ok E m (run_worker E n s)"
  by (induction n arbitrary: s) (auto split: option.split dest: thread_ok_work)

lemma run_worker_add: "run_worker E (a + b) s = run_worker E b (run_worker E a s)"
proof (induction a arbitrary: s)
  case 0
  then show ?case by simp
next
  case (Suc a)
  have "smEvtProcRoutine E s = None \<Longrightarrow> run_worker E b s = s" by (cases b) simp_all
  with Suc show ?case by (simp split: option.split)
qed

text \<open>One API command takes three steps of the worker, one event four.\<close>

lemma drain_one_api:
  assumes "thread_ok E m s" and "worker s = W_WAIT" and "posting s = 0"
    and "items (api_queue s) = c # cs" and "c \<noteq> QCAMERA_SM_CMD_TYPE_EXIT"
  shows "\<exists>s'. run_worker E 3 s = s' \<and> worker s' = W_WAIT \<and> posting s' = 0
     \<and> items (api_queue s') = cs \<and> items (evt_queue s') = items (evt_queue s)
     \<and> handled s' = handled s @ [c]"
proof -
  from assms have sem: "cmd_sem s > 0" and live: "queue_live (api_queue s)"
    by (auto simp: thread_defs)
  obtain node q where d: "dequeue True (api_queue s) = (node, q)" by fastforce
  with dequeue_live [OF live d] assms(4) have q: "node = Some c" "items q = cs" by auto
  have "\<not> is_evt_cmd c" using assms(1,4) by (simp add: thread_defs)
  with sem d q assms show ?thesis
    by (cases c) (simp_all add: numeral_3_eq_3 smEvtProcRoutine_def run_cmd_def)
qed

lemma drain_one_evt:
  assumes "thread_ok E m s" and "worker s = W_WAIT" and "posting s = 0"
    and "items (api_queue s) = []" and "items (evt_queue s) = c # cs"
  shows "\<exists>s'. run_worker E 4 s = s' \<and> worker s' = W_WAIT \<and> posting s' = 0
     \<and> items (api_queue s') = [] \<and> items (evt_queue s') = cs
     \<and> handled s' = handled s @ [c]"
proof -
  from assms have sem: "cmd_sem s > 0"
    and live: "queue_live (api_queue s)" "queue_live (evt_queue s)"
    by (auto simp: thread_defs)
  obtain n1 q1 where d1: "dequeue True (api_queue s) = (n1, q1)" by fastforce
  obtain n2 q2 where d2: "dequeue True (evt_queue s) = (n2, q2)" by fastforce
  have q: "n1 = None" "items q1 = []" "n2 = Some c" "items q2 = cs"
    using dequeue_live [OF live(1) d1] dequeue_live [OF live(2) d2] assms(4,5) by auto
  have "is_evt_cmd c" using assms(1,5) by (simp add: thread_defs)
  with sem d1 d2 q assms show ?thesis
    by (cases c) (simp_all add: eval_nat_numeral smEvtProcRoutine_def run_cmd_def)
qed

lemma drain_evts:
  "thread_ok E m s \<Longrightarrow> worker s = W_WAIT \<Longrightarrow> posting s = 0 \<Longrightarrow> items (api_queue s) = [] \<Longrightarrow>
   items (evt_queue s) = cs \<Longrightarrow>
   worker (run_worker E (4 * length cs) s) = W_WAIT
   \<and> items (api_queue (run_worker E (4 * length cs) s)) = []
   \<and> items (evt_queue (run_worker E (4 * length cs) s)) = []
   \<and> handled (run_worker E (4 * length cs) s) = handled s @ cs"
proof (induction cs arbitrary: s)
  case Nil
  then show ?case by simp
next
  case (Cons c cs)
  from drain_one_evt [OF Cons.prems] Cons.IH [OF run_worker_ok [OF Cons.prems(1)], of 4] show ?case
    by (simp add: run_worker_add del: run_worker.simps)
qed

lemma drain_all:
  "thread_ok E m s \<Longrightarrow> worker s = W_WAIT \<Longrightarrow> posting s = 0 \<Longrightarrow>
   QCAMERA_SM_CMD_TYPE_EXIT \<notin> set (items (api_queue s)) \<Longrightarrow> items (api_queue s) = cs \<Longrightarrow>
   items (evt_queue s) = es \<Longrightarrow>
   worker (run_worker E (3 * length cs + 4 * length es) s) = W_WAIT
   \<and> items (api_queue (run_worker E (3 * length cs + 4 * length es) s)) = []
   \<and> items (evt_queue (run_worker E (3 * length cs + 4 * length es) s)) = []
   \<and> handled (run_worker E (3 * length cs + 4 * length es) s) = handled s @ cs @ es"
proof (induction cs arbitrary: s)
  case Nil
  then show ?case using drain_evts [of E m s es] by simp
next
  case (Cons c cs)
  have "c \<noteq> QCAMERA_SM_CMD_TYPE_EXIT" using Cons.prems by auto
  from drain_one_api [OF Cons.prems(1-3,5) this] Cons.IH [OF run_worker_ok [OF Cons.prems(1)], of 3]
    Cons.prems show ?case
    by (simp add: run_worker_add add.assoc del: run_worker.simps)
qed

section \<open>Leaving\<close>

text \<open>When the worker is gone, the requests it handled are those put before the exit command.\<close>

lemma exited_handled:
  assumes "thread_ok E m s" and "worker s = W_EXITED"
  shows "\<exists>cs. handled s = cs @ [QCAMERA_SM_CMD_TYPE_EXIT]
    \<and> filter (\<lambda>c. \<not> is_evt_cmd c) cs =
        takeWhile (\<lambda>c. c \<noteq> QCAMERA_SM_CMD_TYPE_EXIT) (accepted_api s)"
proof -
  from assms obtain cs where cs: "handled s = cs @ [QCAMERA_SM_CMD_TYPE_EXIT]"
      "QCAMERA_SM_CMD_TYPE_EXIT \<notin> set cs"
    by (auto simp: thread_defs)
  have "accepted_api s = filter (\<lambda>c. \<not> is_evt_cmd c) cs
      @ QCAMERA_SM_CMD_TYPE_EXIT # items (api_queue s)"
    using assms cs(1) by (simp add: thread_defs)
  moreover have "\<forall>c\<in>set (filter (\<lambda>c. \<not> is_evt_cmd c) cs). c \<noteq> QCAMERA_SM_CMD_TYPE_EXIT"
    using cs(2) by auto
  ultimately have "takeWhile (\<lambda>c. c \<noteq> QCAMERA_SM_CMD_TYPE_EXIT) (accepted_api s)
      = filter (\<lambda>c. \<not> is_evt_cmd c) cs"
    by (simp only:) (subst takeWhile_append2, auto)
  with cs(1) show ?thesis by metis
qed

lemma exited_stays: "worker s = W_EXITED \<Longrightarrow> sm_step E s s' \<Longrightarrow>
   worker s' = W_EXITED \<and> handled s' = handled s"
  by (erule sm_stepE)
    (auto simp: procAPI_def procEvt_def put_api_def releaseThread_def cam_sem_post_def
       pthread_join_def smEvtProcRoutine_def split: prod.splits bool.splits if_splits)

text \<open>
  When only the queue node cannot be allocated, the exit command is dropped and the client still joins: with
  nothing else to wake it, the worker never ends, and neither does the join.
\<close>

lemma release_hangs:
  assumes "cmd_pid s" and "worker s = W_WAIT" and "cmd_sem s = 0"
  shows "releaseThread True False s = (True, s)"
    and "smEvtProcRoutine E s = None" and "pthread_join s = None"
  using assms
  by (simp_all add: releaseThread_def put_api_def smEvtProcRoutine_def pthread_join_def)

section \<open>Properties\<close>

text \<open>A request and an event put and posted, for the concrete runs below.\<close>

abbreviation demo :: "unit sm_thread" where
  "demo \<equiv> new_thread (in_state QCAMERA_SM_STATE_PREVIEW_STOPPED)"

definition evt_posted :: "unit sm_thread" where
  "evt_posted = cam_sem_post (snd (procEvt True True QCAMERA_SM_EVT_THERMAL_NOTIFY no_payload demo))"

definition both_posted :: "unit sm_thread" where
  "both_posted = cam_sem_post (snd (procAPI True True QCAMERA_SM_EVT_PREPARE_PREVIEW no_payload
     evt_posted))"

lemmas demo_simps = both_posted_def evt_posted_def new_thread_def procAPI_def procEvt_def
  put_api_def cam_sem_post_def enqueue_def dequeue_def QCameraQueue_def smEvtProcRoutine_def

lemma evt_posted_reachable: "sm_reachable willing (in_state QCAMERA_SM_STATE_PREVIEW_STOPPED) evt_posted"
  unfolding evt_posted_def
  by (intro sm_reachable.step [OF sm_reachable.step [OF sm_reachable.start sm_step.evt] sm_step.post])
    (simp add: demo_simps)

lemma both_posted_reachable:
  "sm_reachable willing (in_state QCAMERA_SM_STATE_PREVIEW_STOPPED) both_posted"
  unfolding both_posted_def
  by (intro sm_reachable.step [OF sm_reachable.step [OF evt_posted_reachable sm_step.api] sm_step.post])
    (simp add: demo_simps)

text \<open>
  C2: Concurrency does not show: in every state that clients and the worker can reach, however their steps
  interleave, the machine is what handling the commands handled so far one after the other gives, each
  queue's commands were handled in the order it accepted them, none lost and none twice, and exactly the
  payloads of the handled events were freed.
\<close>

theorem concurrent_runs_are_sequential:
  "sm_reachable E m s \<Longrightarrow>
   machine s = handle_all E (events_of (handled s)) m
   \<and> accepted_api s = filter (\<lambda>c. \<not> is_evt_cmd c) (handled s @ in_hand (worker s))
        @ nonnull (q_list (api_queue s))
   \<and> accepted_evt s = filter is_evt_cmd (handled s @ in_hand (worker s))
        @ nonnull (q_list (evt_queue s))
   \<and> freed_payloads s = map snd (events_of (filter is_evt_cmd (handled s)))"
  using thread_ok_reachable [of E m s] by (simp add: thread_ok_def order_ok_def payloads_of_evts_def)

theorem concurrent_runs_are_sequential_witness:
  "accepted_evt evt_posted = [QCAMERA_SM_CMD_TYPE_EVT QCAMERA_SM_EVT_THERMAL_NOTIFY no_payload]"
  using concurrent_runs_are_sequential [OF evt_posted_reachable]
  by (simp add: demo_simps in_hand_def)

text \<open>
  C6: No wakeup is lost: in every reachable state where no client is about to post the semaphore, a worker
  that cannot move is waiting and both queues are empty.
\<close>

theorem no_lost_wakeup:
  "sm_reachable E m s \<Longrightarrow> posting s = 0 \<Longrightarrow> worker s \<noteq> W_EXITED \<Longrightarrow> smEvtProcRoutine E s = None \<Longrightarrow>
   worker s = W_WAIT \<and> nonnull (q_list (api_queue s)) = [] \<and> nonnull (q_list (evt_queue s)) = []"
  using worker_not_stuck [OF thread_ok_reachable] by blast

theorem no_lost_wakeup_witness:
  "nonnull (q_list (api_queue demo)) = [] \<and> worker demo = W_WAIT"
  using no_lost_wakeup [OF sm_reachable.start, of "in_state QCAMERA_SM_STATE_PREVIEW_STOPPED" willing]
  by (simp add: demo_simps)

text \<open>
  The \<open>NULL\<close> test after the two dequeues never fails: whenever the API queue was empty, the
  event queue still holds a node at the second \<open>dequeue\<close>, whatever the clients did in between.
\<close>

lemma second_dequeue_not_null:
  "sm_reachable E m s \<Longrightarrow> worker s = W_EVT \<Longrightarrow>
   \<exists>evt pl. fst (dequeue True (evt_queue s)) = Some (QCAMERA_SM_CMD_TYPE_EVT evt pl)"
  using second_dequeue_finds [OF thread_ok_reachable] by blast

text \<open>
  C7: Requests go before events: left alone, a waiting worker handles, within three steps for each queued
  request and four for each queued event, first all requests in their order and then all events in
  theirs, and waits again with both queues empty.
\<close>

theorem worker_drains_queues:
  assumes "sm_reachable E m s" and "worker s = W_WAIT" and "posting s = 0"
    and "cs = nonnull (q_list (api_queue s))" and "es = nonnull (q_list (evt_queue s))"
    and "QCAMERA_SM_CMD_TYPE_EXIT \<notin> set cs"
    and "s' = run_worker E (3 * length cs + 4 * length es) s"
  shows "handled s' = handled s @ cs @ es \<and> worker s' = W_WAIT
    \<and> nonnull (q_list (api_queue s')) = [] \<and> nonnull (q_list (evt_queue s')) = []"
  using drain_all [OF thread_ok_reachable [OF assms(1)] assms(2,3) _ assms(4,5) [symmetric]]
    assms(4,6) unfolding assms(7) by metis

theorem worker_drains_queues_witness:
  "handled (run_worker willing 7 both_posted) =
     [QCAMERA_SM_CMD_TYPE_API QCAMERA_SM_EVT_PREPARE_PREVIEW no_payload,
      QCAMERA_SM_CMD_TYPE_EVT QCAMERA_SM_EVT_THERMAL_NOTIFY no_payload]"
  using worker_drains_queues [OF both_posted_reachable _ _ refl refl _ refl]
  by (simp add: demo_simps)

text \<open>
  \<open>releaseThread\<close> ends the worker cleanly: when the worker has returned, the requests it
  handled are exactly those put before the exit command, and it never handles another.
\<close>

lemma exit_after_accepted_requests:
  "sm_reachable E m s \<Longrightarrow> worker s = W_EXITED \<Longrightarrow>
   (\<exists>cs. handled s = cs @ [QCAMERA_SM_CMD_TYPE_EXIT]
      \<and> filter (\<lambda>c. \<not> is_evt_cmd c) cs = takeWhile (\<lambda>c. c \<noteq> QCAMERA_SM_CMD_TYPE_EXIT) (accepted_api s))
   \<and> (sm_step E s s' \<longrightarrow> worker s' = W_EXITED \<and> handled s' = handled s)"
  using exited_handled [OF thread_ok_reachable] exited_stays by blast

text \<open>
  When the command can be allocated but the queue's node cannot, \<open>releaseThread\<close> drops the exit
  command and joins all the same: an idle worker is not woken, and the join cannot return.
\<close>

lemma release_without_node_hangs:
  "cmd_pid s \<Longrightarrow> worker s = W_WAIT \<Longrightarrow> cmd_sem s = 0 \<Longrightarrow>
   releaseThread True False s = (True, s) \<and> smEvtProcRoutine E s = None \<and> pthread_join s = None"
  using release_hangs by blast

end
