(* ===== verification/HwiApi.thy ===== *)
theory HwiApi
  imports SmThread "HOL-Library.Monad_Syntax"
begin

text \<open>
  The entry points that the camera framework calls, \<open>QCamera2HWI.cpp\<close> of
  \<open>hardware/camera/QCamera2/HAL\<close> from \<open>set_preview_window\<close> to \<open>prepare_snapshot\<close>, with the
  result list between a client and the state machine's thread (\<open>processAPI\<close>,
  \<open>waitAPIResult\<close>, \<open>signalAPIResult\<close>, \<open>lockAPI\<close>, \<open>unlockAPI\<close>).

  An entry point is a function to an option: \<open>None\<close> when the client stays blocked, on a lock it already
  holds or in \<open>pthread_cond_wait\<close> with no answer. It is run as the only client: while it waits, the
  worker handles what is queued until it blocks.
\<close>

section \<open>State\<close>

text \<open>
  What the entry points read and write of the object besides the machine and the result list. The object is the
  machine's parent, so both act on the parent's state.
\<close>

datatype hal_query =
    HQ_isNoDisplayMode
  | HQ_sync_control_on
  | HQ_isLongshotEnabled
  | HQ_retro_snapshots
  | HQ_isLiveSnapshot
  | HQ_isZSLMode
  | HQ_isHDRMode
  | HQ_mPrepSnapRun
  | HQ_flash_needed

datatype hal_set =
    HS_setPreviewCallbackNeeded
  | HS_m_bPreviewStarted
  | HS_m_bRecordStarted
  | HS_mPreviewRestartNeeded_false
  | HS_setRetroPicture bool
  | HS_m_bLedAfAecLock_0
  | HS_mPrepSnapRun bool

record 'p hal_env =
  env_hwi :: "'p hwi"
  env_query :: "hal_query \<Rightarrow> 'p \<Rightarrow> bool"
  env_set :: "hal_set \<Rightarrow> 'p \<Rightarrow> 'p"

record 'p hal =
  hal_sm :: "'p sm_thread"
  m_smThreadActive :: bool
  m_apiResultList :: "api_result list"
  m_lock :: bool

text \<open>What an entry point returns: a status, one of the result's other values, or nothing.\<close>

datatype hal_ret = RET_STATUS status | RET_INT int32 | RET_PTR ptr | RET_VOID

definition hal_parent :: "'p hal \<Rightarrow> 'p" where
  "hal_parent s = parent (machine (hal_sm s))"

definition ask :: "'p hal_env \<Rightarrow> hal_query \<Rightarrow> 'p hal \<Rightarrow> bool" where
  "ask H q s = env_query H q (hal_parent s)"

definition put :: "'p hal_env \<Rightarrow> hal_set \<Rightarrow> 'p hal \<Rightarrow> 'p hal" where
  "put H c s = s\<lparr>hal_sm := (hal_sm s)\<lparr>machine :=
     (machine (hal_sm s))\<lparr>parent := env_set H c (hal_parent s)\<rparr>\<rparr>\<rparr>"

text \<open>
  The result is zeroed before it is filled, and its three values share one place of eight bytes, the first four
  of them for the two integers.
\<close>

definition u_int :: "api_value \<Rightarrow> int32" where
  "u_int v = (case v of
     QCAMERA_API_RESULT_TYPE_DEF \<Rightarrow> 0
   | QCAMERA_API_RESULT_TYPE_ENABLE_FLAG n \<Rightarrow> n
   | QCAMERA_API_RESULT_TYPE_PARAMS p \<Rightarrow> word_of_nat p
   | QCAMERA_API_RESULT_TYPE_HANDLE n \<Rightarrow> n)"

definition u_ptr :: "api_value \<Rightarrow> ptr" where
  "u_ptr v = (case v of
     QCAMERA_API_RESULT_TYPE_DEF \<Rightarrow> 0
   | QCAMERA_API_RESULT_TYPE_ENABLE_FLAG n \<Rightarrow> unat n
   | QCAMERA_API_RESULT_TYPE_PARAMS p \<Rightarrow> p
   | QCAMERA_API_RESULT_TYPE_HANDLE n \<Rightarrow> unat n)"

section \<open>The result list\<close>

text \<open>\<open>m_lock\<close> is not recursive: a thread that takes it twice blocks.\<close>

definition lockAPI :: "'p hal \<Rightarrow> 'p hal option" where
  "lockAPI s = (if m_lock s then None else Some (s\<lparr>m_lock := True\<rparr>))"

definition unlockAPI :: "'p hal \<Rightarrow> 'p hal" where
  "unlockAPI s = s\<lparr>m_lock := False\<rparr>"

text \<open>When \<open>malloc\<close> fails the result is lost, and the waiting clients are woken all the same.\<close>

definition append_result :: "bool \<Rightarrow> api_result \<Rightarrow> api_result list \<Rightarrow> api_result list" where
  "append_result malloc_ok r rs = (if malloc_ok then rs @ [r] else rs)"

text \<open>The walk along the list for the first result of an event, which it takes out.\<close>

fun take_result :: "sm_evt \<Rightarrow> api_result list \<Rightarrow> (api_result \<times> api_result list) option" where
  "take_result api_evt [] = None"
| "take_result api_evt (r # rs) =
     (if r_request_api r = api_evt then Some (r, rs)
      else (case take_result api_evt rs of
              None \<Rightarrow> None
            | Some (x, rest) \<Rightarrow> Some (x, r # rest)))"

text \<open>
  The loop of \<open>waitAPIResult\<close>. It waits before it looks at the list. \<open>wakeups\<close> holds, for each return of
  \<open>pthread_cond_wait\<close>, the results appended while the lock was free, none for a spurious one; when
  there are no more, the client is still waiting.
\<close>

fun waitAPIResult ::
    "sm_evt \<Rightarrow> api_result list list \<Rightarrow> api_result list \<Rightarrow> (api_result \<times> api_result list) option"
  where
  "waitAPIResult api_evt [] rs = None"
| "waitAPIResult api_evt (new # wakeups) rs =
     (case take_result api_evt (rs @ new) of
        Some found \<Rightarrow> Some found
      | None \<Rightarrow> waitAPIResult api_evt wakeups (rs @ new))"

definition processAPI ::
    "sm_evt \<Rightarrow> sm_payload \<Rightarrow> 'p hal \<Rightarrow> status \<times> 'p hal" where
  "processAPI api api_payload s =
     (if m_smThreadActive s
      then (case procAPI True True api api_payload (hal_sm s) of
              (rc, t) \<Rightarrow> (rc, s\<lparr>hal_sm := (if rc = NO_ERROR then cam_sem_post t else t)\<rparr>))
      else (DEAD_OBJECT, s))"

text \<open>
  The worker while the client waits: it takes at most four steps for each permit, and stops when it
  blocks. The client is woken if any result was signalled.
\<close>

definition worker_turn :: "'p hwi \<Rightarrow> 'p hal \<Rightarrow> api_result list \<times> 'p sm_thread" where
  "worker_turn E s = (let t = run_worker E (4 * cmd_sem (hal_sm s) + 4) (hal_sm s)
     in (results_of (new_effects (machine (hal_sm s)) (machine t)), t))"

definition wait_result ::
    "'p hal_env \<Rightarrow> sm_evt \<Rightarrow> 'p hal \<Rightarrow> (api_result \<times> 'p hal) option" where
  "wait_result H evt s = (case worker_turn (env_hwi H) s of (new, t) \<Rightarrow>
     (case waitAPIResult evt (if new = [] then [] else [new]) (m_apiResultList s) of
        None \<Rightarrow> None
      | Some (r, rs) \<Rightarrow> Some (r, s\<lparr>hal_sm := t, m_apiResultList := rs\<rparr>)))"

text \<open>
  The lines that every entry point has: \<open>processAPI\<close> and, when it took the event, \<open>waitAPIResult\<close>. The
  result is \<open>None\<close> when the event was not taken.
\<close>

definition api_call ::
    "'p hal_env \<Rightarrow> sm_evt \<Rightarrow> sm_payload \<Rightarrow> 'p hal \<Rightarrow> ((status \<times> api_result option) \<times> 'p hal) option"
  where
  "api_call H evt pl s = (case processAPI evt pl s of
     (rc, s1) \<Rightarrow>
       if rc = NO_ERROR
       then (case wait_result H evt s1 of
               None \<Rightarrow> None
             | Some (r, s2) \<Rightarrow> Some ((rc, Some r), s2))
       else Some ((rc, None), s1))"

definition api_status :: "status \<times> api_result option \<Rightarrow> status" where
  "api_status x = (case x of (rc, None) \<Rightarrow> rc | (rc, Some r) \<Rightarrow> r_status r)"

section \<open>The common shapes of an entry point\<close>

text \<open>
  The null test of \<open>device->priv\<close>, and the bodies that the entry points share: under the lock, do the call
  and return the status, the flag or nothing.
\<close>

definition with_hw ::
    "hal_ret \<Rightarrow> ('p hal \<Rightarrow> (hal_ret \<times> 'p hal) option) \<Rightarrow> 'p hal option
       \<Rightarrow> (hal_ret \<times> 'p hal option) option" where
  "with_hw bad f hw = (case hw of
     None \<Rightarrow> Some (bad, None)
   | Some s \<Rightarrow> (case f s of None \<Rightarrow> None | Some (r, s') \<Rightarrow> Some (r, Some s')))"

definition locked ::
    "('p hal \<Rightarrow> ('a \<times> 'p hal) option) \<Rightarrow> 'p hal \<Rightarrow> ('a \<times> 'p hal) option" where
  "locked f s = do {
     s \<leftarrow> lockAPI s;
     (x, s) \<leftarrow> f s;
     Some (x, unlockAPI s) }"

definition ret_status :: "status \<times> api_result option \<Rightarrow> hal_ret" where
  "ret_status x = RET_STATUS (api_status x)"

definition ret_enabled :: "status \<times> api_result option \<Rightarrow> hal_ret" where
  "ret_enabled x = (case x of (rc, None) \<Rightarrow> RET_STATUS rc | (rc, Some r) \<Rightarrow> RET_INT (u_int (r_value r)))"

definition status_entry ::
    "'p hal_env \<Rightarrow> sm_evt \<Rightarrow> sm_payload \<Rightarrow> 'p hal \<Rightarrow> (hal_ret \<times> 'p hal) option" where
  "status_entry H evt pl s = do {
     (x, s) \<leftarrow> locked (api_call H evt pl) s;
     Some (ret_status x, s) }"

definition void_entry ::
    "'p hal_env \<Rightarrow> sm_evt \<Rightarrow> sm_payload \<Rightarrow> 'p hal \<Rightarrow> (hal_ret \<times> 'p hal) option" where
  "void_entry H evt pl s = do {
     (_, s) \<leftarrow> locked (api_call H evt pl) s;
     Some (RET_VOID, s) }"

abbreviation bad_value :: hal_ret where
  "bad_value \<equiv> RET_STATUS BAD_VALUE"

abbreviation with_ptr :: "ptr \<Rightarrow> sm_payload" where
  "with_ptr p \<equiv> no_payload\<lparr>as_ptr := p\<rparr>"

abbreviation with_int :: "int32 \<Rightarrow> sm_payload" where
  "with_int n \<equiv> no_payload\<lparr>as_int := n\<rparr>"

section \<open>The entry points\<close>

definition set_preview_window where
  "set_preview_window H window =
     with_hw bad_value (status_entry H QCAMERA_SM_EVT_SET_PREVIEW_WINDOW (with_ptr window))"

definition set_CallBacks where
  "set_CallBacks H cbs =
     with_hw RET_VOID (void_entry H QCAMERA_SM_EVT_SET_CALLBACKS (no_payload\<lparr>as_setcb := cbs\<rparr>))"

definition enable_msg_type where
  "enable_msg_type H msg_type =
     with_hw RET_VOID (void_entry H QCAMERA_SM_EVT_ENABLE_MSG_TYPE (with_int msg_type))"

definition disable_msg_type where
  "disable_msg_type H msg_type =
     with_hw RET_VOID (void_entry H QCAMERA_SM_EVT_DISABLE_MSG_TYPE (with_int msg_type))"

definition msg_type_enabled where
  "msg_type_enabled H msg_type = with_hw bad_value (\<lambda>s. do {
     (x, s) \<leftarrow> locked (api_call H QCAMERA_SM_EVT_MSG_TYPE_ENABLED (with_int msg_type)) s;
     Some (ret_enabled x, s) })"

definition prepare_preview where
  "prepare_preview H = with_hw bad_value (status_entry H QCAMERA_SM_EVT_PREPARE_PREVIEW no_payload)"

definition start_preview where
  "start_preview H = with_hw bad_value (\<lambda>s. do {
     (x, s) \<leftarrow> locked (\<lambda>s.
        let evt = (if ask H HQ_isNoDisplayMode s then QCAMERA_SM_EVT_START_NODISPLAY_PREVIEW
                   else QCAMERA_SM_EVT_START_PREVIEW)
        in api_call H evt no_payload s) s;
     Some (ret_status x, put H HS_m_bPreviewStarted s) })"

definition stop_preview where
  "stop_preview H = with_hw RET_VOID (void_entry H QCAMERA_SM_EVT_STOP_PREVIEW no_payload)"

text \<open>
  \<open>preview_enabled\<close> looks at the result even when there is none; \<open>garbage\<close> is what its uninitialised
  variable then holds.
\<close>

definition preview_enabled where
  "preview_enabled H garbage = with_hw bad_value (\<lambda>s. do {
     (x, s) \<leftarrow> locked (\<lambda>s. do {
        (x, s) \<leftarrow> api_call H QCAMERA_SM_EVT_PREVIEW_ENABLED no_payload s;
        let enabled = (case snd x of None \<Rightarrow> garbage | Some r \<Rightarrow> u_int (r_value r));
        Some (x, if enabled \<noteq> 0 then put H HS_setPreviewCallbackNeeded s else s) }) s;
     Some (ret_enabled x, s) })"

definition store_meta_data_in_buffers where
  "store_meta_data_in_buffers H enable =
     with_hw bad_value (status_entry H QCAMERA_SM_EVT_STORE_METADATA_IN_BUFS (with_int enable))"

text \<open>The calls that only the muxer of a dual camera makes.\<close>

definition dual_camera_call ::
    "'p hal_env \<Rightarrow> sm_evt \<Rightarrow> sm_payload \<Rightarrow> 'p hal \<Rightarrow> ((status \<times> api_result option) \<times> 'p hal) option"
  where
  "dual_camera_call H evt pl s =
     (if ask H HQ_sync_control_on s then api_call H evt pl s
      else Some ((INVALID_OPERATION, None), s))"

definition restart_start_preview where
  "restart_start_preview H = with_hw bad_value (\<lambda>s. do {
     (x, s) \<leftarrow> locked (\<lambda>s. do {
        (x, s) \<leftarrow> dual_camera_call H QCAMERA_SM_EVT_RESTART_START_PREVIEW no_payload s;
        Some (x, put H HS_mPreviewRestartNeeded_false s) }) s;
     Some (ret_status x, s) })"

definition restart_stop_preview where
  "restart_stop_preview H = with_hw bad_value (\<lambda>s. do {
     (x, s) \<leftarrow> locked (dual_camera_call H QCAMERA_SM_EVT_RESTART_STOP_PREVIEW no_payload) s;
     Some (ret_status x, s) })"

definition pre_start_recording_hw where
  "pre_start_recording_hw H = status_entry H QCAMERA_SM_EVT_PRE_START_RECORDING no_payload"

definition pre_start_recording where
  "pre_start_recording H = with_hw bad_value (pre_start_recording_hw H)"

definition start_recording where
  "start_recording H = with_hw bad_value (\<lambda>s. do {
     (ret, s) \<leftarrow> (if ask H HQ_sync_control_on s then Some (RET_STATUS NO_ERROR, s)
                 else pre_start_recording_hw H s);
     if ret \<noteq> RET_STATUS NO_ERROR then Some (ret, s)
     else do {
       (ret, s) \<leftarrow> status_entry H QCAMERA_SM_EVT_START_RECORDING no_payload s;
       Some (ret, put H HS_m_bRecordStarted s) } })"

definition stop_recording where
  "stop_recording H = with_hw RET_VOID (void_entry H QCAMERA_SM_EVT_STOP_RECORDING no_payload)"

definition recording_enabled where
  "recording_enabled H = with_hw bad_value (\<lambda>s. do {
     (x, s) \<leftarrow> locked (api_call H QCAMERA_SM_EVT_RECORDING_ENABLED no_payload) s;
     Some (ret_enabled x, s) })"

definition release_recording_frame where
  "release_recording_frame H opaque = with_hw RET_VOID (\<lambda>s.
     if opaque = 0 then Some (RET_VOID, s)
     else void_entry H QCAMERA_SM_EVT_RELEASE_RECORIDNG_FRAME (with_ptr opaque) s)"

definition auto_focus where
  "auto_focus H = with_hw bad_value (status_entry H QCAMERA_SM_EVT_START_AUTO_FOCUS no_payload)"

definition cancel_auto_focus where
  "cancel_auto_focus H =
     with_hw bad_value (status_entry H QCAMERA_SM_EVT_STOP_AUTO_FOCUS no_payload)"

definition pre_take_picture_hw where
  "pre_take_picture_hw H = status_entry H QCAMERA_SM_EVT_PRE_TAKE_PICTURE no_payload"

definition pre_take_picture where
  "pre_take_picture H = with_hw bad_value (pre_take_picture_hw H)"

definition prepare_snapshot_hw ::
    "'p hal_env \<Rightarrow> 'p hal \<Rightarrow> (hal_ret \<times> 'p hal) option" where
  "prepare_snapshot_hw H s =
     (if ask H HQ_isLongshotEnabled s \<and> ask H HQ_mPrepSnapRun s then Some (RET_STATUS NO_ERROR, s)
      else do {
        (x, s) \<leftarrow> locked (\<lambda>s.
           if ask H HQ_flash_needed s then do {
             (x, s) \<leftarrow> api_call H QCAMERA_SM_EVT_PREPARE_SNAPSHOT no_payload s;
             Some (x, put H (HS_mPrepSnapRun True) s) }
           else Some ((NO_ERROR, None), s)) s;
        Some (ret_status x, s) })"

definition prepare_snapshot where
  "prepare_snapshot H = with_hw bad_value (prepare_snapshot_hw H)"

definition take_picture_retro ::
    "'p hal_env \<Rightarrow> 'p hal \<Rightarrow> (hal_ret \<times> 'p hal) option" where
  "take_picture_retro H s = do {
     let s = put H HS_m_bLedAfAecLock_0 (put H (HS_setRetroPicture True) s);
     (ret, s) \<leftarrow> (if ask H HQ_sync_control_on s then Some (RET_STATUS NO_ERROR, s)
                 else pre_take_picture_hw H s);
     if ret \<noteq> RET_STATUS NO_ERROR then Some (ret, s)
     else do {
       (_, s) \<leftarrow> status_entry H QCAMERA_SM_EVT_TAKE_PICTURE no_payload s;
       prepare_snapshot_hw H s } }"

definition take_picture_normal ::
    "'p hal_env \<Rightarrow> 'p hal \<Rightarrow> (hal_ret \<times> 'p hal) option" where
  "take_picture_normal H s = do {
     let s = put H (HS_setRetroPicture False) s;
     (_, s) \<leftarrow> (if ask H HQ_mPrepSnapRun s then Some (RET_VOID, s) else prepare_snapshot_hw H s);
     (ret, s) \<leftarrow> (if ask H HQ_sync_control_on s then Some (RET_STATUS NO_ERROR, s)
                 else pre_take_picture_hw H s);
     if ret \<noteq> RET_STATUS NO_ERROR then Some (ret, s)
     else do {
       (ret, s) \<leftarrow> status_entry H QCAMERA_SM_EVT_TAKE_PICTURE no_payload s;
       Some (ret, if ask H HQ_isLongshotEnabled s then s else put H (HS_mPrepSnapRun False) s) } }"

definition take_picture where
  "take_picture H = with_hw bad_value (\<lambda>s.
     if ask H HQ_retro_snapshots s \<and> \<not> ask H HQ_isLiveSnapshot s \<and> ask H HQ_isZSLMode s
        \<and> \<not> ask H HQ_isHDRMode s \<and> \<not> ask H HQ_isLongshotEnabled s
        \<and> \<not> ask H HQ_sync_control_on s
     then take_picture_retro H s
     else take_picture_normal H s)"

definition cancel_picture where
  "cancel_picture H = with_hw bad_value (status_entry H QCAMERA_SM_EVT_CANCEL_PICTURE no_payload)"

definition set_parameters where
  "set_parameters H parms = with_hw bad_value (\<lambda>s. do {
     (ret, s) \<leftarrow> locked (\<lambda>s. do {
        (x, s) \<leftarrow> api_call H QCAMERA_SM_EVT_SET_PARAMS (with_ptr parms) s;
        if api_status x = NO_ERROR \<and> \<not> ask H HQ_sync_control_on s then do {
          (y, s) \<leftarrow> api_call H QCAMERA_SM_EVT_COMMIT_PARAMS no_payload s;
          Some (ret_status y, s) }
        else Some (ret_status x, s) }) s;
     Some (ret, s) })"

text \<open>\<open>needRestart\<close> is a reference: its new value, if any, is returned beside the status.\<close>

definition preview_restart_needed ::
    "'p hal_env \<Rightarrow> int32 \<Rightarrow> 'p hal option \<Rightarrow> ((hal_ret \<times> int32) \<times> 'p hal option) option" where
  "preview_restart_needed H needRestart hw = (case hw of
     None \<Rightarrow> Some ((bad_value, needRestart), None)
   | Some s \<Rightarrow> do {
       (x, s) \<leftarrow> locked (api_call H QCAMERA_SM_EVT_PREVIEW_RESTART_NEENED no_payload) s;
       Some ((ret_status x,
         case snd x of None \<Rightarrow> needRestart | Some r \<Rightarrow> u_int (r_value r)), Some s) })"

definition commit_parameters_stop_preview where
  "commit_parameters_stop_preview H needRestart = with_hw bad_value (\<lambda>s. do {
     (x, s) \<leftarrow> locked (dual_camera_call H QCAMERA_SM_EVT_COMMIT_STOP_PREVIEW (with_int needRestart)) s;
     Some (ret_status x, s) })"

definition commit_parameters_start_preview where
  "commit_parameters_start_preview H needRestart = with_hw bad_value (\<lambda>s. do {
     (x, s) \<leftarrow> locked (dual_camera_call H QCAMERA_SM_EVT_COMMIT_START_PREVIEW (with_int needRestart)) s;
     Some (ret_status x, s) })"

definition get_parameters where
  "get_parameters H = with_hw (RET_PTR 0) (\<lambda>s. do {
     (x, s) \<leftarrow> locked (api_call H QCAMERA_SM_EVT_GET_PARAMS no_payload) s;
     Some (RET_PTR (case snd x of None \<Rightarrow> 0 | Some r \<Rightarrow> u_ptr (r_value r)), s) })"

definition put_parameters where
  "put_parameters H parm = with_hw RET_VOID (void_entry H QCAMERA_SM_EVT_PUT_PARAMS (with_ptr parm))"

definition send_command where
  "send_command H cmd arg1 arg2 = with_hw bad_value (status_entry H QCAMERA_SM_EVT_SEND_COMMAND
     (no_payload\<lparr>as_cmd := \<lparr>cp_cmd = cmd, cp_arg1 = arg1, cp_arg2 = arg2\<rparr>\<rparr>))"

definition send_command_restart where
  "send_command_restart H cmd arg1 arg2 =
     with_hw bad_value (status_entry H QCAMERA_SM_EVT_SEND_COMMAND_RESTART
       (no_payload\<lparr>as_cmd := \<lparr>cp_cmd = cmd, cp_arg1 = arg1, cp_arg2 = arg2\<rparr>\<rparr>))"

definition release where
  "release H = with_hw RET_VOID (void_entry H QCAMERA_SM_EVT_RELEASE no_payload)"

definition dump where
  "dump H fd = with_hw bad_value (status_entry H QCAMERA_SM_EVT_DUMP (with_int fd))"

definition register_face_image where
  "register_face_image H img_ptr config = with_hw bad_value (\<lambda>s. do {
     (x, s) \<leftarrow> locked (api_call H QCAMERA_SM_EVT_REG_FACE_IMAGE
        (no_payload\<lparr>as_face := (img_ptr, config)\<rparr>)) s;
     Some (ret_enabled x, s) })"

section \<open>All calls of a client\<close>

text \<open>
  One constructor for each call, those of the table \<open>mCameraOps\<close> and those the dual camera's muxer makes.
\<close>

datatype (plugins only: code size) hal_op =
    OP_set_preview_window ptr
  | OP_set_CallBacks "ptr list"
  | OP_enable_msg_type int32
  | OP_disable_msg_type int32
  | OP_msg_type_enabled int32
  | OP_prepare_preview
  | OP_start_preview
  | OP_stop_preview
  | OP_preview_enabled
  | OP_store_meta_data_in_buffers int32
  | OP_restart_start_preview
  | OP_restart_stop_preview
  | OP_pre_start_recording
  | OP_start_recording
  | OP_stop_recording
  | OP_recording_enabled
  | OP_release_recording_frame ptr
  | OP_auto_focus
  | OP_cancel_auto_focus
  | OP_pre_take_picture
  | OP_take_picture
  | OP_cancel_picture
  | OP_set_parameters ptr
  | OP_commit_parameters_stop_preview int32
  | OP_commit_parameters_start_preview int32
  | OP_get_parameters
  | OP_put_parameters ptr
  | OP_send_command camera_cmd int32 int32
  | OP_send_command_restart camera_cmd int32 int32
  | OP_release
  | OP_dump int32
  | OP_register_face_image ptr ptr
  | OP_prepare_snapshot

definition run_op ::
    "'p hal_env \<Rightarrow> hal_op \<Rightarrow> 'p hal option \<Rightarrow> (hal_ret \<times> 'p hal option) option" where
  "run_op H op = (case op of
     OP_set_preview_window w \<Rightarrow> set_preview_window H w
   | OP_set_CallBacks c \<Rightarrow> set_CallBacks H c
   | OP_enable_msg_type m \<Rightarrow> enable_msg_type H m
   | OP_disable_msg_type m \<Rightarrow> disable_msg_type H m
   | OP_msg_type_enabled m \<Rightarrow> msg_type_enabled H m
   | OP_prepare_preview \<Rightarrow> prepare_preview H
   | OP_start_preview \<Rightarrow> start_preview H
   | OP_stop_preview \<Rightarrow> stop_preview H
   | OP_preview_enabled \<Rightarrow> preview_enabled H 0
   | OP_store_meta_data_in_buffers e \<Rightarrow> store_meta_data_in_buffers H e
   | OP_restart_start_preview \<Rightarrow> restart_start_preview H
   | OP_restart_stop_preview \<Rightarrow> restart_stop_preview H
   | OP_pre_start_recording \<Rightarrow> pre_start_recording H
   | OP_start_recording \<Rightarrow> start_recording H
   | OP_stop_recording \<Rightarrow> stop_recording H
   | OP_recording_enabled \<Rightarrow> recording_enabled H
   | OP_release_recording_frame p \<Rightarrow> release_recording_frame H p
   | OP_auto_focus \<Rightarrow> auto_focus H
   | OP_cancel_auto_focus \<Rightarrow> cancel_auto_focus H
   | OP_pre_take_picture \<Rightarrow> pre_take_picture H
   | OP_take_picture \<Rightarrow> take_picture H
   | OP_cancel_picture \<Rightarrow> cancel_picture H
   | OP_set_parameters p \<Rightarrow> set_parameters H p
   | OP_commit_parameters_stop_preview n \<Rightarrow> commit_parameters_stop_preview H n
   | OP_commit_parameters_start_preview n \<Rightarrow> commit_parameters_start_preview H n
   | OP_get_parameters \<Rightarrow> get_parameters H
   | OP_put_parameters p \<Rightarrow> put_parameters H p
   | OP_send_command c a b \<Rightarrow> send_command H c a b
   | OP_send_command_restart c a b \<Rightarrow> send_command_restart H c a b
   | OP_release \<Rightarrow> release H
   | OP_dump fd \<Rightarrow> dump H fd
   | OP_register_face_image i c \<Rightarrow> register_face_image H i c
   | OP_prepare_snapshot \<Rightarrow> prepare_snapshot H)"

text \<open>A client's calls one after the other; \<open>None\<close> as soon as one of them never returns.\<close>

fun run_ops :: "'p hal_env \<Rightarrow> hal_op list \<Rightarrow> 'p hal \<Rightarrow> (hal_ret list \<times> 'p hal) option" where
  "run_ops H [] s = Some ([], s)"
| "run_ops H (op # ops) s = do {
     (r, hw) \<leftarrow> run_op H op (Some s);
     s' \<leftarrow> hw;
     (rs, s'') \<leftarrow> run_ops H ops s';
     Some (r # rs, s'') }"

section \<open>The walk and the wait\<close>

lemma take_result_first:
  "\<forall>x\<in>set pre. r_request_api x \<noteq> evt \<Longrightarrow> r_request_api r = evt \<Longrightarrow>
   take_result evt (pre @ r # post) = Some (r, pre @ post)"
  by (induction pre) auto

lemma take_result_None:
  "take_result evt rs = None \<longleftrightarrow> (\<forall>r\<in>set rs. r_request_api r \<noteq> evt)"
  by (induction rs) (auto split: option.split)

lemma take_result_Some:
  "take_result evt rs = Some (r, rest) \<Longrightarrow>
   \<exists>pre post. rs = pre @ r # post \<and> rest = pre @ post \<and> r_request_api r = evt
     \<and> (\<forall>x\<in>set pre. r_request_api x \<noteq> evt)"
proof (induction rs arbitrary: rest)
  case Nil
  then show ?case by simp
next
  case (Cons a rs)
  show ?case
  proof (cases "r_request_api a = evt")
    case True
    with Cons.prems show ?thesis by (intro exI [of _ "[]"] exI [of _ rs]) simp
  next
    case False
    with Cons.prems obtain q where q: "take_result evt rs = Some (r, q)" "rest = a # q"
      by (auto split: option.splits)
    from Cons.IH [OF q(1)] obtain pre post where
      "rs = pre @ r # post" "q = pre @ post" "r_request_api r = evt"
      "\<forall>x\<in>set pre. r_request_api x \<noteq> evt"
      by blast
    with False q(2) show ?thesis by (intro exI [of _ "a # pre"] exI [of _ post]) simp
  qed
qed

lemma take_result_in:
  "take_result evt rs = Some (r, rest) \<Longrightarrow> r \<in> set rs \<and> r_request_api r = evt"
  by (auto dest!: take_result_Some)

definition results_for :: "sm_evt \<Rightarrow> api_result list \<Rightarrow> api_result list" where
  "results_for evt rs = filter (\<lambda>r. r_request_api r = evt) rs"

lemma wait_blocks:
  "waitAPIResult evt wakeups rs = None \<longleftrightarrow>
     wakeups = [] \<or> results_for evt (rs @ concat wakeups) = []"
proof (induction wakeups arbitrary: rs)
  case Nil
  then show ?case by simp
next
  case (Cons new wakeups)
  show ?case
  proof (cases "take_result evt (rs @ new)")
    case None
    then have no: "filter (\<lambda>r. r_request_api r = evt) (rs @ new) = []"
      unfolding take_result_None filter_empty_conv .
    show ?thesis
    proof (cases wakeups)
      case Nil
      with None no show ?thesis by (simp add: results_for_def)
    next
      case (Cons a list)
      with None Cons.IH [of "rs @ new"] show ?thesis by simp
    qed
  next
    case (Some x)
    then obtain r rest where "take_result evt (rs @ new) = Some (r, rest)" by (cases x) auto
    then have "r \<in> set (rs @ new)" "r_request_api r = evt"
      using take_result_in by blast+
    then have "filter (\<lambda>r. r_request_api r = evt) (rs @ concat (new # wakeups)) \<noteq> []"
      unfolding filter_empty_conv by auto
    then show ?thesis using Some by (simp only: waitAPIResult.simps results_for_def) simp
  qed
qed

lemma wait_oldest:
  "waitAPIResult evt wakeups rs = Some (r, rest) \<Longrightarrow>
   r = hd (results_for evt (rs @ concat wakeups)) \<and> r_request_api r = evt
   \<and> (\<exists>n. results_for evt rest = tl (results_for evt (rs @ concat (take n wakeups)))
        \<and> (\<forall>e. e \<noteq> evt \<longrightarrow> results_for e rest = results_for e (rs @ concat (take n wakeups))))"
proof (induction wakeups arbitrary: rs)
  case Nil
  then show ?case by simp
next
  case (Cons new wakeups)
  show ?case
  proof (cases "take_result evt (rs @ new)")
    case None
    then have "waitAPIResult evt wakeups (rs @ new) = Some (r, rest)" using Cons.prems by simp
    from Cons.IH [OF this] obtain n where
      n: "r = hd (results_for evt (rs @ concat (new # wakeups)))" "r_request_api r = evt"
      "results_for evt rest = tl (results_for evt (rs @ concat (take (Suc n) (new # wakeups))))"
      "\<forall>e. e \<noteq> evt \<longrightarrow>
         results_for e rest = results_for e (rs @ concat (take (Suc n) (new # wakeups)))"
      by auto
    then show ?thesis by blast
  next
    case (Some x)
    with Cons.prems have "take_result evt (rs @ new) = Some (r, rest)" by simp
    from take_result_Some [OF this] obtain pre post where
      p: "rs @ new = pre @ r # post" "rest = pre @ post" "r_request_api r = evt"
      "\<forall>x\<in>set pre. r_request_api x \<noteq> evt"
      by blast
    have pre: "results_for evt pre = []" using p(4) by (auto simp: results_for_def filter_empty_conv)
    have "results_for evt (rs @ concat (new # wakeups))
        = results_for evt ((rs @ new) @ concat wakeups)" by simp
    also have "\<dots> = r # results_for evt (post @ concat wakeups)"
      using p(1,3) pre by (simp add: results_for_def)
    finally have hd: "r = hd (results_for evt (rs @ concat (new # wakeups)))" by simp
    have all: "rs @ concat (take 1 (new # wakeups)) = pre @ r # post" using p(1) by simp
    have "results_for evt rest = tl (results_for evt (pre @ r # post))"
      "\<forall>e. e \<noteq> evt \<longrightarrow> results_for e rest = results_for e (pre @ r # post)"
      using p(2,3) pre by (auto simp: results_for_def)
    with hd p(3) all show ?thesis by (intro conjI exI [of _ 1]) simp_all
  qed
qed

section \<open>A call with an idle worker\<close>

definition quiet :: "'p sm_thread \<Rightarrow> bool" where
  "quiet t \<longleftrightarrow> queue_live (api_queue t) \<and> queue_live (evt_queue t)
     \<and> q_list (api_queue t) = [] \<and> q_list (evt_queue t) = []
     \<and> worker t = W_WAIT \<and> posting t = 0 \<and> cmd_sem t = 0"

text \<open>The thread after it handled one request.\<close>

definition after_request ::
    "'p hwi \<Rightarrow> sm_evt \<Rightarrow> sm_payload \<Rightarrow> 'p sm_thread \<Rightarrow> 'p sm_thread" where
  "after_request E evt pl t =
     t\<lparr>machine := snd (handle E evt pl (machine t)),
       accepted_api := accepted_api t @ [QCAMERA_SM_CMD_TYPE_API evt pl],
       handled := handled t @ [QCAMERA_SM_CMD_TYPE_API evt pl]\<rparr>"

lemma quiet_after_request [simp]: "quiet (after_request E evt pl t) = quiet t"
  by (simp add: quiet_def after_request_def)

lemma quiet_worker:
  assumes "quiet t"
  shows "run_worker E 8 (cam_sem_post (snd (procAPI True True evt pl t))) = after_request E evt pl t"
proof -
  let ?c = "QCAMERA_SM_CMD_TYPE_API evt pl"
  have q: "dequeue True (snd (enqueue True (Some ?c) (api_queue t))) = (Some ?c, api_queue t)"
    using assms by (simp add: quiet_def queue_live_def enqueue_def dequeue_def)
  have live: "queue_live (api_queue t)" "worker t = W_WAIT" "posting t = 0" "cmd_sem t = 0"
    using assms by (simp_all add: quiet_def)
  show ?thesis
    by (simp add: procAPI_def put_api_True [OF live(1)] cam_sem_post_def eval_nat_numeral
        smEvtProcRoutine_def q live run_cmd_def after_request_def)
qed

lemma quiet_procAPI:
  "quiet t \<Longrightarrow> fst (procAPI True True evt pl t) = NO_ERROR"
  by (simp add: procAPI_def put_api_True quiet_def)

definition request_results :: "'p hwi \<Rightarrow> sm_evt \<Rightarrow> sm_payload \<Rightarrow> 'p hal \<Rightarrow> api_result list" where
  "request_results E evt pl s = results_of (new_effects (machine (hal_sm s))
     (snd (handle E evt pl (machine (hal_sm s)))))"

lemma machine_put_api [simp]: "machine (snd (procAPI b1 b2 evt pl t)) = machine t"
  by (auto simp: procAPI_def put_api_def split: prod.splits bool.splits)

lemma cmd_sem_procAPI [simp]: "cmd_sem (snd (procAPI b1 b2 evt pl t)) = cmd_sem t"
  by (auto simp: procAPI_def put_api_def split: prod.splits bool.splits)

lemma api_call_quiet:
  assumes "quiet (hal_sm s)" and "m_smThreadActive s"
  shows "api_call H evt pl s =
    (let new = request_results (env_hwi H) evt pl s
     in case waitAPIResult evt (if new = [] then [] else [new]) (m_apiResultList s) of
          None \<Rightarrow> None
        | Some (r, rs) \<Rightarrow> Some ((NO_ERROR, Some r),
            s\<lparr>hal_sm := after_request (env_hwi H) evt pl (hal_sm s), m_apiResultList := rs\<rparr>))"
proof -
  obtain rc t where t: "procAPI True True evt pl (hal_sm s) = (rc, t)" by fastforce
  with quiet_procAPI [OF assms(1), of evt pl] have rc: "rc = NO_ERROR" by simp
  have sem: "cmd_sem t = 0" "machine t = machine (hal_sm s)"
    using assms(1) cmd_sem_procAPI [of True True evt pl "hal_sm s"]
      machine_put_api [of True True evt pl "hal_sm s"] t
    by (simp_all add: quiet_def)
  have run: "run_worker E 8 (cam_sem_post t) = after_request E evt pl (hal_sm s)" for E
    using quiet_worker [OF assms(1), of E evt pl] t by simp
  have turn: "worker_turn E (s\<lparr>hal_sm := cam_sem_post t\<rparr>) =
      (request_results E evt pl s, after_request E evt pl (hal_sm s))" for E
    using run [of E] sem
    by (simp add: worker_turn_def Let_def cam_sem_post_def request_results_def after_request_def)
  show ?thesis
    using assms(2) t rc turn
    by (simp add: api_call_def processAPI_def wait_result_def Let_def split: option.split)
qed

section \<open>What every call keeps\<close>

definition hal_ok :: "'p hal \<Rightarrow> bool" where
  "hal_ok s \<longleftrightarrow> m_smThreadActive s \<and> quiet (hal_sm s) \<and> m_apiResultList s = []"

definition client_evt :: "sm_evt \<Rightarrow> bool" where
  "client_evt evt \<longleftrightarrow> evt \<noteq> QCAMERA_SM_EVT_EVT_INTERNAL \<and> evt \<noteq> QCAMERA_SM_EVT_EVT_NOTIFY"

lemma request_results_cases:
  assumes "client_evt evt"
  shows "request_results E evt pl s = []
    \<or> (\<exists>r. request_results E evt pl s = [r] \<and> r_request_api r = evt)"
proof -
  let ?rs = "request_results E evt pl s"
  have d: "distinct (map r_request_api ?rs)" "set (map r_request_api ?rs) \<subseteq> {evt}"
    using handle_snd_wp [OF stray_wp [of E evt pl "machine (hal_sm s)"]] assms
    by (auto simp: request_results_def api_signals_results client_evt_def)
  show ?thesis
  proof (cases ?rs)
    case Nil
    then show ?thesis by simp
  next
    case (Cons r rest)
    with d show ?thesis by (cases rest) auto
  qed
qed

lemma api_call_ok:
  assumes "hal_ok s" and "client_evt evt" and "api_call H evt pl s = Some (x, s')"
  shows "\<exists>r. x = (NO_ERROR, Some r) \<and> r_request_api r = evt
    \<and> request_results (env_hwi H) evt pl s = [r]
    \<and> s' = s\<lparr>hal_sm := after_request (env_hwi H) evt pl (hal_sm s)\<rparr>"
proof -
  have q: "quiet (hal_sm s)" "m_smThreadActive s" "m_apiResultList s = []"
    using assms(1) by (simp_all add: hal_ok_def)
  from request_results_cases [OF assms(2), of "env_hwi H" pl s] show ?thesis
  proof
    assume "request_results (env_hwi H) evt pl s = []"
    with assms(3) show ?thesis by (simp add: api_call_quiet [OF q(1,2)])
  next
    assume "\<exists>r. request_results (env_hwi H) evt pl s = [r] \<and> r_request_api r = evt"
    then obtain r where r: "request_results (env_hwi H) evt pl s = [r]" "r_request_api r = evt"
      by blast
    with assms(3) q show ?thesis
      by (auto simp: api_call_quiet [OF q(1,2)])
  qed
qed

definition keeps :: "('p hal \<Rightarrow> ('a \<times> 'p hal) option) \<Rightarrow> bool" where
  "keeps f \<longleftrightarrow>
     (\<forall>s x s'. hal_ok s \<longrightarrow> f s = Some (x, s') \<longrightarrow> hal_ok s' \<and> m_lock s' = m_lock s)"

named_theorems keeps_rules

lemma hal_ok_put [simp]: "hal_ok (put H c s) = hal_ok s"
  by (simp add: hal_ok_def put_def quiet_def)

lemma m_lock_put [simp]: "m_lock (put H c s) = m_lock s"
  by (simp add: put_def)

lemma keepsI:
  "(\<And>s x s'. hal_ok s \<Longrightarrow> f s = Some (x, s') \<Longrightarrow> hal_ok s' \<and> m_lock s' = m_lock s) \<Longrightarrow> keeps f"
  unfolding keeps_def by blast

lemma keepsD: "keeps f \<Longrightarrow> hal_ok s \<Longrightarrow> f s = Some (x, s') \<Longrightarrow> hal_ok s' \<and> m_lock s' = m_lock s"
  unfolding keeps_def by blast

lemma keeps_api_call [keeps_rules]:
  assumes "client_evt evt"
  shows "keeps (api_call H evt pl)"
proof (rule keepsI)
  fix s x s'
  assume "hal_ok s" and "api_call H evt pl s = Some (x, s')"
  with api_call_ok [OF _ assms] show "hal_ok s' \<and> m_lock s' = m_lock s"
    by (fastforce simp: hal_ok_def)
qed

lemma keeps_bind [keeps_rules]:
  assumes "keeps f" and "\<And>x. keeps (g x)"
  shows "keeps (\<lambda>s. Option.bind (f s) (\<lambda>(x, s). g x s))"
proof (rule keepsI)
  fix s y s'
  assume ok: "hal_ok s" and "Option.bind (f s) (\<lambda>(x, s). g x s) = Some (y, s')"
  then obtain x t where f: "f s = Some (x, t)" and g: "g x t = Some (y, s')"
    by (auto simp: Option.bind_eq_Some_conv)
  from keepsD [OF assms(1) ok f] keepsD [OF assms(2) _ g] show "hal_ok s' \<and> m_lock s' = m_lock s"
    by simp
qed

lemma keeps_return [keeps_rules]:
  "(\<And>s. hal_ok s \<Longrightarrow> hal_ok (h s) \<and> m_lock (h s) = m_lock s) \<Longrightarrow> keeps (\<lambda>s. Some (c s, h s))"
  by (rule keepsI) auto

lemma keeps_put [keeps_rules]: "keeps f \<Longrightarrow> keeps (\<lambda>s. f (put H c s))"
  by (rule keepsI) (metis hal_ok_put m_lock_put keepsD)

lemma keeps_if [keeps_rules]: "keeps f \<Longrightarrow> keeps g \<Longrightarrow> keeps (\<lambda>s. if b s then f s else g s)"
  by (rule keepsI) (auto dest: keepsD split: if_splits)

lemma hal_ok_lock [simp]: "hal_ok (s\<lparr>m_lock := b\<rparr>) = hal_ok s"
  by (simp add: hal_ok_def)

lemma keeps_choice [keeps_rules]:
  "client_evt a \<Longrightarrow> client_evt b \<Longrightarrow> keeps (\<lambda>s. api_call H (if q s then a else b) pl s)"
  by (rule keepsI) (auto dest: keepsD [OF keeps_api_call] split: if_splits)

lemma keeps_locked [keeps_rules]:
  assumes "keeps f"
  shows "keeps (locked f)"
proof (rule keepsI)
  fix s x s'
  assume ok: "hal_ok s" and "locked f s = Some (x, s')"
  then obtain t where free: "\<not> m_lock s" and f: "f (s\<lparr>m_lock := True\<rparr>) = Some (x, t)"
      and s': "s' = t\<lparr>m_lock := False\<rparr>"
    by (auto simp: locked_def lockAPI_def unlockAPI_def Option.bind_eq_Some_conv split: if_splits)
  from keepsD [OF assms _ f] ok free show "hal_ok s' \<and> m_lock s' = m_lock s"
    by (simp add: s')
qed

lemma client_evts [simp]: "evt \<notin> {QCAMERA_SM_EVT_EVT_INTERNAL, QCAMERA_SM_EVT_EVT_NOTIFY} \<Longrightarrow> client_evt evt"
  by (simp add: client_evt_def)

lemma keeps_status_entry [keeps_rules]: "client_evt evt \<Longrightarrow> keeps (status_entry H evt pl)"
  unfolding status_entry_def by (intro keeps_rules) simp_all

lemma keeps_void_entry [keeps_rules]: "client_evt evt \<Longrightarrow> keeps (void_entry H evt pl)"
  unfolding void_entry_def by (intro keeps_rules) simp_all

lemma keeps_dual_camera [keeps_rules]: "client_evt evt \<Longrightarrow> keeps (dual_camera_call H evt pl)"
  unfolding dual_camera_call_def by (intro keeps_rules) simp_all

lemma keeps_prepare_snapshot [keeps_rules]: "keeps (prepare_snapshot_hw H)"
  unfolding prepare_snapshot_hw_def by (intro keeps_rules) simp_all

lemma keeps_pre [keeps_rules]: "keeps (pre_take_picture_hw H)" "keeps (pre_start_recording_hw H)"
  unfolding pre_take_picture_hw_def pre_start_recording_hw_def by (intro keeps_rules; simp)+

lemma keeps_take_picture_retro [keeps_rules]: "keeps (take_picture_retro H)"
  unfolding take_picture_retro_def Let_def by (intro keeps_rules) simp_all

lemma keeps_take_picture_normal [keeps_rules]: "keeps (take_picture_normal H)"
  unfolding take_picture_normal_def Let_def by (intro keeps_rules) simp_all

definition keeps_hw :: "('p hal option \<Rightarrow> (hal_ret \<times> 'p hal option) option) \<Rightarrow> bool" where
  "keeps_hw f \<longleftrightarrow> (\<forall>s r hw. hal_ok s \<longrightarrow> f (Some s) = Some (r, hw) \<longrightarrow>
     (\<exists>s'. hw = Some s' \<and> hal_ok s' \<and> m_lock s' = m_lock s))"

lemma keeps_with_hw [keeps_rules]: "keeps f \<Longrightarrow> keeps_hw (with_hw bad f)"
  unfolding keeps_hw_def with_hw_def by (auto split: option.splits dest: keepsD)

lemmas entry_defs = set_preview_window_def set_CallBacks_def enable_msg_type_def
  disable_msg_type_def msg_type_enabled_def prepare_preview_def start_preview_def stop_preview_def
  preview_enabled_def store_meta_data_in_buffers_def restart_start_preview_def
  restart_stop_preview_def pre_start_recording_def start_recording_def stop_recording_def
  recording_enabled_def release_recording_frame_def auto_focus_def cancel_auto_focus_def
  pre_take_picture_def take_picture_def cancel_picture_def set_parameters_def
  commit_parameters_stop_preview_def commit_parameters_start_preview_def get_parameters_def
  put_parameters_def send_command_def send_command_restart_def release_def dump_def
  register_face_image_def prepare_snapshot_def

lemma run_op_keeps: "keeps_hw (run_op H op)"
  by (cases op; simp add: run_op_def; unfold entry_defs Let_def; (intro keeps_rules)?; simp?)

lemma run_ops_keeps:
  "hal_ok s \<Longrightarrow> run_ops H ops s = Some (rs, s') \<Longrightarrow>
   hal_ok s' \<and> m_lock s' = m_lock s \<and> length rs = length ops"
proof (induction ops arbitrary: s rs)
  case Nil
  then show ?case by simp
next
  case (Cons op ops)
  from Cons.prems(2) obtain r hw t us where
    t: "run_op H op (Some s) = Some (r, hw)" "hw = Some t" "run_ops H ops t = Some (us, s')" "rs = r # us"
    by (auto simp: Option.bind_eq_Some_conv)
  from run_op_keeps [of H op, unfolded keeps_hw_def, rule_format, OF Cons.prems(1) t(1)] t(2)
  have "hal_ok t" "m_lock t = m_lock s" by auto
  with Cons.IH [OF _ t(3)] t(4) show ?case by auto
qed

section \<open>When a call returns\<close>

lemma api_call_now:
  assumes "quiet (hal_sm s)" and "m_smThreadActive s" and "results_for evt (m_apiResultList s) = []"
    and "is_api_evt evt" and "answer_time (m_state (machine (hal_sm s))) evt = Now"
  shows "\<exists>v. api_call H evt pl s =
    Some ((NO_ERROR, Some \<lparr>r_status = fst (handle (env_hwi H) evt pl (machine (hal_sm s))),
            r_request_api = evt, r_value = v\<rparr>),
          s\<lparr>hal_sm := after_request (env_hwi H) evt pl (hal_sm s)\<rparr>)"
proof -
  let ?rc = "fst (handle (env_hwi H) evt pl (machine (hal_sm s)))"
  have "\<exists>v. request_results (env_hwi H) evt pl s
      = [\<lparr>r_status = ?rc, r_request_api = evt, r_value = v\<rparr>]"
    unfolding request_results_def by (rule handle_wp [OF answered_now_wp [OF assms(4,5)]]) simp
  then obtain v where v: "request_results (env_hwi H) evt pl s
      = [\<lparr>r_status = ?rc, r_request_api = evt, r_value = v\<rparr>]" ..
  have "take_result evt (m_apiResultList s @ \<lparr>r_status = ?rc, r_request_api = evt, r_value = v\<rparr> # [])
      = Some (\<lparr>r_status = ?rc, r_request_api = evt, r_value = v\<rparr>, m_apiResultList s @ [])"
    using assms(3) by (intro take_result_first) (auto simp: results_for_def filter_empty_conv)
  then show ?thesis
    by (intro exI [of _ v]) (simp add: api_call_quiet [OF assms(1,2)] v)
qed

lemma api_call_never:
  assumes "quiet (hal_sm s)" and "m_smThreadActive s"
    and "is_api_evt evt" and "answer_time (m_state (machine (hal_sm s))) evt = Never"
  shows "api_call H evt pl s = None"
proof -
  have "request_results (env_hwi H) evt pl s = []"
    using handle_snd_wp [OF answered_never_wp [OF assms(3,4)], where E = "env_hwi H" and pl = pl]
    by (simp add: request_results_def api_signals_results)
  then show ?thesis by (simp add: api_call_quiet [OF assms(1,2)])
qed

lemma api_call_stale:
  assumes "quiet (hal_sm s)" and "m_smThreadActive s" and "results_for evt (m_apiResultList s) = r # rs"
    and "request_results (env_hwi H) evt pl s \<noteq> []"
  shows "\<exists>rest. api_call H evt pl s = Some ((NO_ERROR, Some r),
      s\<lparr>hal_sm := after_request (env_hwi H) evt pl (hal_sm s), m_apiResultList := rest\<rparr>)
    \<and> results_for evt rest = rs @ results_for evt (request_results (env_hwi H) evt pl s)"
proof -
  let ?new = "request_results (env_hwi H) evt pl s"
  have some: "waitAPIResult evt [?new] (m_apiResultList s) \<noteq> None"
    using assms(3) unfolding wait_blocks by (simp add: results_for_def)
  then obtain x rest where w: "waitAPIResult evt [?new] (m_apiResultList s) = Some (x, rest)"
    by auto
  from w have t: "take_result evt (m_apiResultList s @ ?new) = Some (x, rest)"
    by (simp split: option.splits)
  from take_result_Some [OF t] obtain pre post where
    p: "m_apiResultList s @ ?new = pre @ x # post" "rest = pre @ post" "r_request_api x = evt"
    "\<forall>y\<in>set pre. r_request_api y \<noteq> evt" by blast
  have "results_for evt (m_apiResultList s @ ?new) = x # results_for evt rest"
    using p by (simp add: results_for_def)
  then have "x = r" "results_for evt rest = rs @ results_for evt ?new"
    using assms(3) by (simp_all add: results_for_def)
  with w assms(4) show ?thesis
    by (auto simp: api_call_quiet [OF assms(1,2)])
qed

lemma next_states_SET_PARAMS: "next_states st QCAMERA_SM_EVT_SET_PARAMS rc = [st]"
  by (cases st) (simp_all add: next_states_def)

lemma set_params_keeps_state:
  "m_state (snd (handle E QCAMERA_SM_EVT_SET_PARAMS pl w)) = m_state w"
  using handle_wp [OF next_states_wp [of E QCAMERA_SM_EVT_SET_PARAMS pl w] surjective_pairing]
  by (simp add: next_states_SET_PARAMS)

lemma set_params_refused:
  "m_state w = QCAMERA_SM_STATE_PREPARE_SNAPSHOT \<Longrightarrow>
   fst (handle E QCAMERA_SM_EVT_SET_PARAMS pl w) = INVALID_OPERATION"
  using handle_wp [OF refused_wp, of QCAMERA_SM_EVT_SET_PARAMS w E pl, OF _ surjective_pairing]
  by (simp add: refused_events_def)

lemma answer_time_set_commit:
  "answer_time s QCAMERA_SM_EVT_SET_PARAMS = Now"
  "s \<noteq> QCAMERA_SM_STATE_PREPARE_SNAPSHOT \<Longrightarrow> answer_time s QCAMERA_SM_EVT_COMMIT_PARAMS = Now"
  by (simp_all add: answer_time_def)

section \<open>Properties\<close>

text \<open>An object whose parent grants every call, idle in a state, for the concrete runs below.\<close>

definition willing_env :: "unit hal_env" where
  "willing_env = \<lparr>env_hwi = willing, env_query = (\<lambda>q p. False), env_set = (\<lambda>c p. p)\<rparr>"

definition idle_in :: "sm_state \<Rightarrow> unit hal" where
  "idle_in st = \<lparr>hal_sm = new_thread (in_state st), m_smThreadActive = True, m_apiResultList = [],
     m_lock = False\<rparr>"

lemma idle_ok [simp]: "hal_ok (idle_in st)" "\<not> m_lock (idle_in st)" "quiet (hal_sm (idle_in st))"
    "m_smThreadActive (idle_in st)" "m_apiResultList (idle_in st) = []"
    "machine (hal_sm (idle_in st)) = in_state st"
  by (simp_all add: hal_ok_def idle_in_def quiet_def new_thread_def)
    (simp_all add: QCameraQueue_def)

text \<open>
  A client gets the status of the handler: with an idle worker, a free lock and no old result of its event
  in the list, a call whose event is answered at once always returns; what it returns is the status the state
  machine's handler gave, the machine is in the state the handler left, the lock is free again and the
  list is as it was.
\<close>

lemma client_gets_handler_status:
  "quiet (hal_sm s) \<Longrightarrow> m_smThreadActive s \<Longrightarrow> \<not> m_lock s \<Longrightarrow>
   results_for evt (m_apiResultList s) = [] \<Longrightarrow>
   is_api_evt evt \<Longrightarrow> answer_time (m_state (machine (hal_sm s))) evt = Now \<Longrightarrow>
   status_entry H evt pl s =
     Some (RET_STATUS (fst (handle (env_hwi H) evt pl (machine (hal_sm s)))),
           s\<lparr>hal_sm := after_request (env_hwi H) evt pl (hal_sm s)\<rparr>)
   \<and> machine (after_request (env_hwi H) evt pl (hal_sm s))
       = snd (handle (env_hwi H) evt pl (machine (hal_sm s)))"
  using api_call_now [of "s\<lparr>m_lock := True\<rparr>" evt H pl]
  by (auto simp: status_entry_def locked_def lockAPI_def unlockAPI_def ret_status_def api_status_def
      after_request_def)



text \<open>
  \<open>set_parameters\<close> always returns, and commits only what was accepted: the commit follows the
  \<open>SET_PARAMS\<close> exactly when that succeeded and no second camera is in control, and the status returned is
  that of the last of the two.
\<close>

lemma set_parameters_commits_accepted:
  assumes "hal_ok s" and "\<not> m_lock s"
    and "handle (env_hwi H) QCAMERA_SM_EVT_SET_PARAMS (no_payload\<lparr>as_ptr := parms\<rparr>)
        (machine (hal_sm s)) = (rc, m1)"
    and "commit \<longleftrightarrow> rc = NO_ERROR \<and> \<not> env_query H HQ_sync_control_on (parent m1)"
  shows "\<exists>s'. set_parameters H parms (Some s) = Some (RET_STATUS (if commit
        then fst (handle (env_hwi H) QCAMERA_SM_EVT_COMMIT_PARAMS no_payload m1) else rc), Some s')
     \<and> handled (hal_sm s') = handled (hal_sm s)
        @ [QCAMERA_SM_CMD_TYPE_API QCAMERA_SM_EVT_SET_PARAMS (no_payload\<lparr>as_ptr := parms\<rparr>)]
        @ (if commit then [QCAMERA_SM_CMD_TYPE_API QCAMERA_SM_EVT_COMMIT_PARAMS no_payload] else [])"
proof -
  let ?E = "env_hwi H" and ?pl = "no_payload\<lparr>as_ptr := parms\<rparr>" and ?t = "s\<lparr>m_lock := True\<rparr>"
  have q: "quiet (hal_sm ?t)" "m_smThreadActive ?t"
      "results_for QCAMERA_SM_EVT_SET_PARAMS (m_apiResultList ?t) = []"
      "results_for QCAMERA_SM_EVT_COMMIT_PARAMS (m_apiResultList ?t) = []"
    using assms(1) by (simp_all add: hal_ok_def results_for_def)
  have api: "is_api_evt QCAMERA_SM_EVT_SET_PARAMS" "is_api_evt QCAMERA_SM_EVT_COMMIT_PARAMS"
    by (simp_all add: is_api_evt_def)
  define t1 where "t1 = s\<lparr>m_lock := True, hal_sm := after_request ?E QCAMERA_SM_EVT_SET_PARAMS ?pl (hal_sm s)\<rparr>"
  have m1: "machine (hal_sm t1) = m1" "hal_parent t1 = parent m1"
    using assms(3) by (simp_all add: t1_def after_request_def hal_parent_def)
  obtain v where set: "api_call H QCAMERA_SM_EVT_SET_PARAMS ?pl ?t =
      Some ((NO_ERROR, Some \<lparr>r_status = rc, r_request_api = QCAMERA_SM_EVT_SET_PARAMS, r_value = v\<rparr>), t1)"
    using api_call_now [OF q(1,2,3) api(1) answer_time_set_commit(1), of H ?pl] assms(3)
    by (auto simp: t1_def)
  have h1: "handled (hal_sm t1) = handled (hal_sm s)
      @ [QCAMERA_SM_CMD_TYPE_API QCAMERA_SM_EVT_SET_PARAMS ?pl]"
    by (simp add: t1_def after_request_def)
  note unfolded = set_parameters_def with_hw_def locked_def lockAPI_def unlockAPI_def
    api_status_def ret_status_def
  show ?thesis
  proof (cases commit)
    case False
    with assms(4) m1 have "rc \<noteq> NO_ERROR \<or> ask H HQ_sync_control_on t1"
      by (auto simp: ask_def)
    with False set assms(2) h1 show ?thesis by (auto simp: unfolded)
  next
    case True
    then have ok: "rc = NO_ERROR" "\<not> ask H HQ_sync_control_on t1"
      using assms(4) m1 by (simp_all add: ask_def)
    have ready: "m_state (machine (hal_sm t1)) \<noteq> QCAMERA_SM_STATE_PREPARE_SNAPSHOT"
      using set_params_keeps_state [of ?E ?pl "machine (hal_sm s)"]
        set_params_refused [of "machine (hal_sm s)" ?E ?pl] assms(3) ok(1) m1(1) by auto
    have q1: "quiet (hal_sm t1)" "m_smThreadActive t1"
        "results_for QCAMERA_SM_EVT_COMMIT_PARAMS (m_apiResultList t1) = []"
      using q by (simp_all add: t1_def)
    obtain v' where commit: "api_call H QCAMERA_SM_EVT_COMMIT_PARAMS no_payload t1 =
      Some ((NO_ERROR, Some \<lparr>r_status = fst (handle ?E QCAMERA_SM_EVT_COMMIT_PARAMS no_payload m1),
          r_request_api = QCAMERA_SM_EVT_COMMIT_PARAMS, r_value = v'\<rparr>),
        t1\<lparr>hal_sm := after_request ?E QCAMERA_SM_EVT_COMMIT_PARAMS no_payload (hal_sm t1)\<rparr>)"
      using api_call_now [OF q1 api(2) answer_time_set_commit(2) [OF ready], of H no_payload] m1(1)
      by auto
    have "handled (after_request ?E QCAMERA_SM_EVT_COMMIT_PARAMS no_payload (hal_sm t1))
        = handled (hal_sm t1) @ [QCAMERA_SM_CMD_TYPE_API QCAMERA_SM_EVT_COMMIT_PARAMS no_payload]"
      by (simp add: after_request_def)
    with True ok set commit assms(2) h1 show ?thesis by (simp add: unfolded)
  qed
qed

text \<open>
  \<open>waitAPIResult\<close> is fair to each event: it blocks only when it is never woken or no result of its event
  arrives; otherwise it gives the oldest of them, takes out that one alone, and keeps the results of every
  other event in their order.
\<close>

lemma wait_gives_oldest:
  "case waitAPIResult evt wakeups rs of
     None \<Rightarrow> wakeups = [] \<or> results_for evt (rs @ concat wakeups) = []
   | Some (r, rest) \<Rightarrow>
       wakeups \<noteq> [] \<and> results_for evt (rs @ concat wakeups) \<noteq> []
       \<and> r = hd (results_for evt (rs @ concat wakeups))
       \<and> (\<exists>n. results_for evt rest = tl (results_for evt (rs @ concat (take n wakeups)))
            \<and> (\<forall>e. e = evt \<or> results_for e rest = results_for e (rs @ concat (take n wakeups))))"
proof (cases "waitAPIResult evt wakeups rs")
  case None
  then show ?thesis using wait_blocks [of evt wakeups rs] by simp
next
  case (Some x)
  then obtain r rest where x: "waitAPIResult evt wakeups rs = Some (r, rest)" by (cases x) auto
  have "\<not> (wakeups = [] \<or> results_for evt (rs @ concat wakeups) = [])"
    using wait_blocks [of evt wakeups rs] x by simp
  with wait_oldest [OF x] x show ?thesis by auto
qed

text \<open>
  A stale result answers the wrong call: when the list already holds a result of the event (left by a
  notification that answered nobody), the next call of that event returns the stale status whatever its own
  handler says, and its own result stays in the list for the call after.
\<close>

lemma stale_result_returned:
  assumes "quiet (hal_sm s)" and "m_smThreadActive s" and "\<not> m_lock s"
    and "m_apiResultList s = [stale]" and "r_request_api stale = evt"
    and "is_api_evt evt" and "answer_time (m_state (machine (hal_sm s))) evt = Now"
  shows "\<exists>s' v. status_entry H evt pl s = Some (RET_STATUS (r_status stale), s')
    \<and> results_for evt (m_apiResultList s')
      = [\<lparr>r_status = fst (handle (env_hwi H) evt pl (machine (hal_sm s))), r_request_api = evt,
          r_value = v\<rparr>]"
proof -
  let ?t = "s\<lparr>m_lock := True\<rparr>"
  have "\<exists>v. request_results (env_hwi H) evt pl ?t = [\<lparr>r_status = fst (handle (env_hwi H) evt pl
      (machine (hal_sm s))), r_request_api = evt, r_value = v\<rparr>]"
    using handle_wp [OF answered_now_wp [OF assms(6,7)] surjective_pairing]
    by (simp add: request_results_def)
  then obtain v where v: "request_results (env_hwi H) evt pl ?t = [\<lparr>r_status = fst (handle (env_hwi H)
      evt pl (machine (hal_sm s))), r_request_api = evt, r_value = v\<rparr>]" ..
  have "results_for evt (m_apiResultList ?t) = stale # []"
    using assms(4,5) by (simp add: results_for_def)
  from api_call_stale [OF _ _ this, of H pl] v assms(1,2) obtain rest where
    "api_call H evt pl ?t = Some ((NO_ERROR, Some stale),
      ?t\<lparr>hal_sm := after_request (env_hwi H) evt pl (hal_sm ?t), m_apiResultList := rest\<rparr>)"
    "results_for evt rest = results_for evt (request_results (env_hwi H) evt pl ?t)"
    by auto
  with assms(3) v show ?thesis
    by (auto simp: status_entry_def locked_def lockAPI_def unlockAPI_def ret_status_def
        api_status_def results_for_def)
qed

text \<open>
  The calls of unanswered events never return: \<open>register_face_image\<close> while a snapshot is prepared, and
  the muxer's \<open>commit_parameters_start_preview\<close> while a picture is taken, keep their client blocked.
\<close>

lemma unanswered_calls_block:
  assumes "hal_ok s" and "m_state (machine (hal_sm s)) = QCAMERA_SM_STATE_PREPARE_SNAPSHOT"
    and "hal_ok t" and "m_state (machine (hal_sm t)) = QCAMERA_SM_STATE_PIC_TAKING"
    and "ask H HQ_sync_control_on t"
  shows "register_face_image H img config (Some s) = None
    \<and> commit_parameters_start_preview H n (Some t) = None"
proof -
  have "api_call H QCAMERA_SM_EVT_REG_FACE_IMAGE pl (s\<lparr>m_lock := True\<rparr>) = None" for pl
    using assms(1,2)
    by (intro api_call_never) (simp_all add: hal_ok_def is_api_evt_def answer_time_def)
  moreover have "api_call H QCAMERA_SM_EVT_COMMIT_START_PREVIEW pl (t\<lparr>m_lock := True\<rparr>) = None" for pl
    using assms(3,4)
    by (intro api_call_never) (simp_all add: hal_ok_def is_api_evt_def answer_time_def)
  moreover have "ask H HQ_sync_control_on (t\<lparr>m_lock := True\<rparr>)"
    using assms(5) by (simp add: ask_def hal_parent_def)
  ultimately show ?thesis
    by (simp add: register_face_image_def commit_parameters_start_preview_def with_hw_def locked_def
        lockAPI_def dual_camera_call_def)
qed

text \<open>
  Where stale results come from: the death of the camera daemon in \<open>PIC_TAKING\<close> answers two requests, and
  in that state neither is pending.
\<close>

lemma daemon_death_answers_nobody:
  "api_signals (new_effects (in_state QCAMERA_SM_STATE_PIC_TAKING) (snd (handle willing
     QCAMERA_SM_EVT_EVT_NOTIFY (no_payload\<lparr>as_server_evt := CAM_EVENT_TYPE_DAEMON_DIED\<rparr>)
     (in_state QCAMERA_SM_STATE_PIC_TAKING))))
   = [QCAMERA_SM_EVT_PREPARE_SNAPSHOT, QCAMERA_SM_EVT_TAKE_PICTURE]"
  by (simp add: run_simps step_simps new_effects_def)

end
