(* ===== verification/LocHeap.thy ===== *)
theory LocHeap
  imports Prelude
begin

text \<open>
  The heap of the location code, \<open>hardware/gps/utils/LocHeap.cpp\<close>: a binary tree that is sorted from
  parent to child only. The heap stores addresses of objects that implement \<open>LocRankable\<close>; their virtual
  method \<open>outRanks\<close> is an argument of every operation, and its contract is the locale
  \<open>rankable\<close>. The tree owns its nodes, each linked from one place, so it is a value; what a function
  does to the tree through a reference to a link (\<open>LocHeapNode*& top\<close>) is the tree it returns.
\<close>

section \<open>Nodes\<close>

datatype 'a heap_node =
    NULL_NODE
  | LocHeapNode (mSize: int) (mLeft: "'a heap_node") (mRight: "'a heap_node") (mData: 'a)
where
  "mSize NULL_NODE = 0"
| "mLeft NULL_NODE = NULL_NODE"
| "mRight NULL_NODE = NULL_NODE"

definition new_node :: "'a \<Rightarrow> 'a heap_node" where
  "new_node d = LocHeapNode 1 NULL_NODE NULL_NODE d"

text \<open>\<open>LocHeapNode::push\<close>; it is called on a node only.\<close>

fun push_node :: "('a \<Rightarrow> 'a \<Rightarrow> bool) \<Rightarrow> 'a \<Rightarrow> 'a heap_node \<Rightarrow> 'a heap_node" where
  "push_node outRanks d NULL_NODE = NULL_NODE"
| "push_node outRanks d (LocHeapNode sz l r x) =
     (let x' = (if outRanks d x then d else x);
          d' = (if outRanks d x then x else d)
      in if l = NULL_NODE then LocHeapNode (sz + 1) (new_node d') r x'
         else if r = NULL_NODE then LocHeapNode (sz + 1) l (new_node d') x'
         else if mSize l \<le> mSize r then LocHeapNode (sz + 1) (push_node outRanks d' l) r x'
         else LocHeapNode (sz + 1) l (push_node outRanks d' r) x')"

text \<open>
  \<open>LocHeapNode::pop\<close>: the data of the top is swapped with that of a child, down to a leaf, which is
  cut off. The result is the data of the node cut off and the tree left.
\<close>

fun pop_node :: "('a \<Rightarrow> 'a \<Rightarrow> bool) \<Rightarrow> 'a heap_node \<Rightarrow> 'a option \<times> 'a heap_node" where
  "pop_node outRanks NULL_NODE = (None, NULL_NODE)"
| "pop_node outRanks (LocHeapNode sz NULL_NODE NULL_NODE x) = (Some x, NULL_NODE)"
| "pop_node outRanks (LocHeapNode sz NULL_NODE (LocHeapNode s2 l2 r2 y) x) =
     (case pop_node outRanks (LocHeapNode s2 l2 r2 x) of
        (p, t) \<Rightarrow> (p, LocHeapNode (sz - 1) NULL_NODE t y))"
| "pop_node outRanks (LocHeapNode sz (LocHeapNode s1 l1 r1 z) NULL_NODE x) =
     (case pop_node outRanks (LocHeapNode s1 l1 r1 x) of
        (p, t) \<Rightarrow> (p, LocHeapNode (sz - 1) t NULL_NODE z))"
| "pop_node outRanks (LocHeapNode sz (LocHeapNode s1 l1 r1 z) (LocHeapNode s2 l2 r2 y) x) =
     (if outRanks z y
      then (case pop_node outRanks (LocHeapNode s1 l1 r1 x) of
              (p, t) \<Rightarrow> (p, LocHeapNode (sz - 1) t (LocHeapNode s2 l2 r2 y) z))
      else (case pop_node outRanks (LocHeapNode s2 l2 r2 x) of
              (p, t) \<Rightarrow> (p, LocHeapNode (sz - 1) (LocHeapNode s1 l1 r1 z) t y)))"

text \<open>
  \<open>LocHeapNode::remove\<close>: the search is by address and skips a subtree whose top the datum outranks.
\<close>

fun remove_node ::
    "('a \<Rightarrow> 'a \<Rightarrow> bool) \<Rightarrow> 'a \<Rightarrow> 'a heap_node \<Rightarrow> 'a option \<times> 'a heap_node" where
  "remove_node outRanks d NULL_NODE = (None, NULL_NODE)"
| "remove_node outRanks d (LocHeapNode sz l r x) =
     (if d = x then pop_node outRanks (LocHeapNode sz l r x)
      else if \<not> outRanks d x
      then (case (if l \<noteq> NULL_NODE then remove_node outRanks d l else (None, l)) of
              (Some p, l') \<Rightarrow> (Some p, LocHeapNode (sz - 1) l' r x)
            | (None, l') \<Rightarrow>
                (case (if r \<noteq> NULL_NODE then remove_node outRanks d r else (None, r)) of
                   (Some p, r') \<Rightarrow> (Some p, LocHeapNode (sz - 1) l' r' x)
                 | (None, r') \<Rightarrow> (None, LocHeapNode sz l' r' x)))
      else (None, LocHeapNode sz l r x))"

fun checkNodes :: "('a \<Rightarrow> 'a \<Rightarrow> bool) \<Rightarrow> 'a heap_node \<Rightarrow> bool" where
  "checkNodes outRanks NULL_NODE = True"
| "checkNodes outRanks (LocHeapNode sz l r x) =
     (if l \<noteq> NULL_NODE \<and> (outRanks (mData l) x \<or> \<not> checkNodes outRanks l) then False
      else if r \<noteq> NULL_NODE \<and> (outRanks (mData r) x \<or> \<not> checkNodes outRanks r) then False
      else sz - (if l \<noteq> NULL_NODE then mSize l else 0) - (if r \<noteq> NULL_NODE then mSize r else 0) = 1)"

section \<open>The heap\<close>

text \<open>\<open>mTree\<close>, the one field of \<open>LocHeap\<close>.\<close>

type_synonym 'a loc_heap = "'a heap_node"

definition LocHeap :: "'a loc_heap" where
  "LocHeap = NULL_NODE"

definition heap_push :: "('a \<Rightarrow> 'a \<Rightarrow> bool) \<Rightarrow> 'a \<Rightarrow> 'a loc_heap \<Rightarrow> 'a loc_heap" where
  "heap_push outRanks node mTree =
     (if mTree = NULL_NODE then new_node node else push_node outRanks node mTree)"

definition heap_peek :: "'a loc_heap \<Rightarrow> 'a option" where
  "heap_peek mTree = (if mTree \<noteq> NULL_NODE then Some (mData mTree) else None)"

definition heap_pop :: "('a \<Rightarrow> 'a \<Rightarrow> bool) \<Rightarrow> 'a loc_heap \<Rightarrow> 'a option \<times> 'a loc_heap" where
  "heap_pop outRanks mTree =
     (if mTree \<noteq> NULL_NODE then pop_node outRanks mTree else (None, mTree))"

definition heap_remove ::
    "('a \<Rightarrow> 'a \<Rightarrow> bool) \<Rightarrow> 'a \<Rightarrow> 'a loc_heap \<Rightarrow> 'a option \<times> 'a loc_heap" where
  "heap_remove outRanks rankable mTree =
     (if mTree \<noteq> NULL_NODE then remove_node outRanks rankable mTree else (None, mTree))"

definition checkTree :: "('a \<Rightarrow> 'a \<Rightarrow> bool) \<Rightarrow> 'a loc_heap \<Rightarrow> bool" where
  "checkTree outRanks mTree = (mTree = NULL_NODE \<or> checkNodes outRanks mTree)"

definition getTreeSize :: "'a loc_heap \<Rightarrow> int" where
  "getTreeSize mTree = (if mTree = NULL_NODE then 0 else mSize mTree)"

section \<open>The contents\<close>

fun elems :: "'a heap_node \<Rightarrow> 'a multiset" where
  "elems NULL_NODE = {#}"
| "elems (LocHeapNode sz l r x) = add_mset x (elems l + elems r)"

lemma elems_empty [simp]: "elems t = {#} \<longleftrightarrow> t = NULL_NODE"
  by (cases t) auto

lemma elems_new [simp]: "elems (new_node d) = {#d#}"
  by (simp add: new_node_def)

lemma new_node_not_null [simp]: "new_node d \<noteq> NULL_NODE" "mSize (new_node d) = 1"
  by (simp_all add: new_node_def)

lemma mData_in: "t \<noteq> NULL_NODE \<Longrightarrow> mData t \<in># elems t"
  by (cases t) auto

lemma push_node_null [simp]: "push_node f d t = NULL_NODE \<longleftrightarrow> t = NULL_NODE"
  by (cases t) (auto simp: Let_def)

lemma elems_push_node: "t \<noteq> NULL_NODE \<Longrightarrow> elems (push_node f d t) = add_mset d (elems t)"
  by (induction f d t rule: push_node.induct) (auto simp: Let_def)

lemma pop_node_elems:
  "t \<noteq> NULL_NODE \<Longrightarrow> \<exists>t'. pop_node f t = (Some (mData t), t')
     \<and> elems t = add_mset (mData t) (elems t')"
  by (induction f t rule: pop_node.induct) auto

lemma pop_node_cases:
  assumes "t \<noteq> NULL_NODE"
  obtains t' where "pop_node f t = (Some (mData t), t')" "elems t = add_mset (mData t) (elems t')"
  using pop_node_elems [OF assms] by blast

text \<open>Popping does not look at the data of the top, so swapping it first changes nothing else.\<close>

lemma remove_node_elems:
  "case remove_node f d t of
     (None, t') \<Rightarrow> t' = t
   | (Some p, t') \<Rightarrow> p = d \<and> elems t = add_mset d (elems t')"
proof (induction t)
  case NULL_NODE
  then show ?case by simp
next
  case (LocHeapNode sz l r x)
  show ?case
  proof (cases "d = x")
    case True
    then show ?thesis
      using pop_node_elems [of "LocHeapNode sz l r x" f] by auto
  next
    case False
    then show ?thesis
      using LocHeapNode.IH by (auto split: prod.splits option.splits)
  qed
qed

section \<open>Sizes and order\<close>

text \<open>
  What the heap promises: at every node the stored size is the number of nodes of its subtree, and nothing below
  a node outranks it.
\<close>

fun heap_ok :: "('a \<Rightarrow> 'a \<Rightarrow> bool) \<Rightarrow> 'a heap_node \<Rightarrow> bool" where
  "heap_ok f NULL_NODE = True"
| "heap_ok f (LocHeapNode sz l r x) =
     (sz = 1 + int (size (elems l)) + int (size (elems r))
      \<and> (\<forall>y\<in>#elems l + elems r. \<not> f y x) \<and> heap_ok f l \<and> heap_ok f r)"

lemma heap_ok_size: "heap_ok f t \<Longrightarrow> mSize t = int (size (elems t))"
  by (cases t) auto

lemma heap_ok_new [simp]: "heap_ok f (new_node d)"
  by (simp add: new_node_def)

definition valid_elems :: "('a \<Rightarrow> bool) \<Rightarrow> 'a heap_node \<Rightarrow> bool" where
  "valid_elems valid t \<longleftrightarrow> (\<forall>x\<in>#elems t. valid x)"

lemma valid_elems_simps [simp]:
  "valid_elems v NULL_NODE"
  "valid_elems v (LocHeapNode sz l r x) \<longleftrightarrow> v x \<and> valid_elems v l \<and> valid_elems v r"
  by (auto simp: valid_elems_def)

lemma valid_elems_new [simp]: "valid_elems v (new_node d) = v d"
  by (simp add: valid_elems_def)

text \<open>The same without the order between the top and what is below it, which \<open>pop\<close> repairs.\<close>

fun below_ok :: "('a \<Rightarrow> 'a \<Rightarrow> bool) \<Rightarrow> 'a heap_node \<Rightarrow> bool" where
  "below_ok f NULL_NODE = True"
| "below_ok f (LocHeapNode sz l r x) =
     (sz = 1 + int (size (elems l)) + int (size (elems r)) \<and> heap_ok f l \<and> heap_ok f r)"

lemma node_ok:
  "heap_ok f l \<Longrightarrow> heap_ok f r \<Longrightarrow> sz = 1 + int (size (elems l + elems r)) \<Longrightarrow>
   \<forall>y\<in>#elems l + elems r. \<not> f y x \<Longrightarrow> heap_ok f (LocHeapNode sz l r x)"
  by simp

lemma heap_ok_below: "heap_ok f t \<Longrightarrow> below_ok f t"
  by (cases t) auto

lemma pop_node_below:
  "pop_node f (LocHeapNode sz l r x) = (p, t) \<Longrightarrow> p = Some x \<and> elems t = elems l + elems r"
  using pop_node_elems [of "LocHeapNode sz l r x" f] by auto

text \<open>
  The contract of \<open>LocRankable\<close> on the objects a heap may hold: two objects never outrank each other, and not
  being outranked is transitive.
\<close>

locale rankable =
  fixes outRanks :: "'a \<Rightarrow> 'a \<Rightarrow> bool"
    and valid :: "'a \<Rightarrow> bool"
  assumes asym: "valid a \<Longrightarrow> valid b \<Longrightarrow> outRanks a b \<Longrightarrow> \<not> outRanks b a"
    and not_trans: "valid a \<Longrightarrow> valid b \<Longrightarrow> valid c \<Longrightarrow>
      \<not> outRanks a b \<Longrightarrow> \<not> outRanks b c \<Longrightarrow> \<not> outRanks a c"
begin

lemma irrefl: "valid a \<Longrightarrow> \<not> outRanks a a"
  using asym by blast

lemma below_all:
  "heap_ok outRanks t \<Longrightarrow> valid_elems valid t \<Longrightarrow> y \<in># elems t \<Longrightarrow> \<not> outRanks y (mData t)"
  using irrefl by (cases t) auto

lemma below_trans:
  assumes "heap_ok outRanks t" and "valid_elems valid t" and "t \<noteq> NULL_NODE" and "valid x"
    and "\<not> outRanks (mData t) x" and "y \<in># elems t"
  shows "\<not> outRanks y x"
proof -
  have "valid (mData t)" "valid y"
    using assms(2,3,6) mData_in [of t] by (auto simp: valid_elems_def)
  then show ?thesis
    using not_trans below_all [OF assms(1,2,6)] assms(4,5) by blast
qed

lemma checkNodes_eq: "valid_elems valid t \<Longrightarrow> checkNodes outRanks t = heap_ok outRanks t"
proof (induction t)
  case NULL_NODE
  then show ?case by simp
next
  case (LocHeapNode sz l r x)
  have order: "(\<forall>y\<in>#elems u. \<not> outRanks y x) \<longleftrightarrow> u = NULL_NODE \<or> \<not> outRanks (mData u) x"
    if "heap_ok outRanks u" and "valid_elems valid u" for u
  proof (cases "u = NULL_NODE")
    case False
    with that LocHeapNode.prems show ?thesis
      using below_trans [OF that, of x] mData_in [of u] by auto
  qed simp
  from LocHeapNode order [of l] order [of r] show ?case
    by (auto simp: heap_ok_size)
qed

lemma push_node_ok:
  "t \<noteq> NULL_NODE \<Longrightarrow> valid d \<Longrightarrow> valid_elems valid t \<Longrightarrow> heap_ok outRanks t \<Longrightarrow>
   heap_ok outRanks (push_node outRanks d t)"
proof (induction t arbitrary: d)
  case NULL_NODE
  then show ?case by simp
next
  case (LocHeapNode sz l r x)
  define x' where "x' = (if outRanks d x then d else x)"
  define d' where "d' = (if outRanks d x then x else d)"
  have v: "valid x'" "valid d'" using LocHeapNode.prems by (simp_all add: x'_def d'_def)
  have top: "\<not> outRanks d' x'" using LocHeapNode.prems asym [of d x] by (simp add: x'_def d'_def)
  have under: "\<not> outRanks y x'" if "y \<in># elems l + elems r" for y
  proof (cases "outRanks d x")
    case True
    have "valid y" "valid x" "valid d" "\<not> outRanks y x"
      using LocHeapNode.prems that by (auto simp: valid_elems_def)
    with True show ?thesis using not_trans [of y x d] asym [of d x] by (simp add: x'_def)
  next
    case False
    with LocHeapNode.prems that show ?thesis by (auto simp: x'_def)
  qed
  have step: "push_node outRanks d (LocHeapNode sz l r x) =
      (if l = NULL_NODE then LocHeapNode (sz + 1) (new_node d') r x'
       else if r = NULL_NODE then LocHeapNode (sz + 1) l (new_node d') x'
       else if mSize l \<le> mSize r then LocHeapNode (sz + 1) (push_node outRanks d' l) r x'
       else LocHeapNode (sz + 1) l (push_node outRanks d' r) x')"
    by (simp add: x'_def d'_def Let_def)
  have l: "heap_ok outRanks l" "valid_elems valid l" and r: "heap_ok outRanks r" "valid_elems valid r"
    and sz: "sz = 1 + int (size (elems l)) + int (size (elems r))"
    using LocHeapNode.prems by simp_all
  have node: "heap_ok outRanks (LocHeapNode (sz + 1) l' r' x')"
    if "heap_ok outRanks l'" "heap_ok outRanks r'" "elems l' + elems r' = add_mset d' (elems l + elems r)"
    for l' r'
  proof -
    have "size (elems l' + elems r') = Suc (size (elems l + elems r))" by (simp only: that(3)) simp
    then have "sz + 1 = 1 + int (size (elems l')) + int (size (elems r'))" using sz by simp
    moreover have "\<forall>y\<in>#elems l' + elems r'. \<not> outRanks y x'"
      unfolding that(3) using top under by auto
    ultimately show ?thesis using that(1,2) by simp
  qed
  show ?case
  proof (cases "l = NULL_NODE")
    case True
    then show ?thesis unfolding step using r(1) by (simp del: heap_ok.simps add: node)
  next
    case left: False
    show ?thesis
    proof (cases "r = NULL_NODE")
      case True
      then show ?thesis unfolding step using l(1) left by (simp del: heap_ok.simps add: node)
    next
      case right: False
      have "heap_ok outRanks (push_node outRanks d' l)" "heap_ok outRanks (push_node outRanks d' r)"
        using LocHeapNode.IH(1) [OF left v(2) l(2,1)] LocHeapNode.IH(2) [OF right v(2) r(2,1)] .
      then show ?thesis
        unfolding step using left right l(1) r(1)
        by (simp del: heap_ok.simps add: node elems_push_node)
    qed
  qed
qed

lemma pop_node_ok:
  "below_ok outRanks t \<Longrightarrow> valid_elems valid t \<Longrightarrow> heap_ok outRanks (snd (pop_node outRanks t))"
proof (induction f \<equiv> outRanks t rule: pop_node.induct)
  case (3 sz s2 l2 r2 y x)
  obtain p t where pop: "pop_node outRanks (LocHeapNode s2 l2 r2 x) = (p, t)" by fastforce
  have t: "elems t = elems l2 + elems r2" using pop_node_below [OF pop] by simp
  have "heap_ok outRanks t" using 3 pop by simp
  then have "heap_ok outRanks (LocHeapNode (sz - 1) NULL_NODE t y)"
    using 3(2) t by (intro node_ok) auto
  then show ?case using pop by simp
next
  case (4 sz s1 l1 r1 z x)
  obtain p t where pop: "pop_node outRanks (LocHeapNode s1 l1 r1 x) = (p, t)" by fastforce
  have t: "elems t = elems l1 + elems r1" using pop_node_below [OF pop] by simp
  have "heap_ok outRanks t" using 4 pop by simp
  then have "heap_ok outRanks (LocHeapNode (sz - 1) t NULL_NODE z)"
    using 4(2) t by (intro node_ok) auto
  then show ?case using pop by simp
next
  case (5 sz s1 l1 r1 z s2 l2 r2 y x)
  let ?l = "LocHeapNode s1 l1 r1 z" and ?r = "LocHeapNode s2 l2 r2 y"
  have ok: "heap_ok outRanks ?l" "heap_ok outRanks ?r" "valid_elems valid ?l" "valid_elems valid ?r"
    and v: "valid z" "valid y" "valid x" and sz: "sz = 1 + int (size (elems ?l + elems ?r))"
    using 5(3,4) by simp_all
  show ?case
  proof (cases "outRanks z y")
    case True
    obtain p t where pop: "pop_node outRanks (LocHeapNode s1 l1 r1 x) = (p, t)" by fastforce
    have t: "elems t = elems l1 + elems r1" using pop_node_below [OF pop] by simp
    have th: "heap_ok outRanks t" using 5(1) [OF True] 5(3,4) pop by simp
    have "\<not> outRanks e z" if "e \<in># elems ?r" for e
      using below_trans [OF ok(2,4) _ v(1) _ that] asym [OF v(1,2) True] by simp
    then have "heap_ok outRanks (LocHeapNode (sz - 1) t ?r z)"
      using th ok t sz by (intro node_ok) auto
    then show ?thesis using pop True by simp
  next
    case False
    obtain p t where pop: "pop_node outRanks (LocHeapNode s2 l2 r2 x) = (p, t)" by fastforce
    have t: "elems t = elems l2 + elems r2" using pop_node_below [OF pop] by simp
    have th: "heap_ok outRanks t" using 5(2) [OF False] 5(3,4) pop by simp
    have "\<not> outRanks e y" if "e \<in># elems ?l" for e
      using below_trans [OF ok(1,3) _ v(2) _ that] False by simp
    then have "heap_ok outRanks (LocHeapNode (sz - 1) ?l t y)"
      using th ok t sz by (intro node_ok) auto
    then show ?thesis using pop False by simp
  qed
qed auto

lemma remove_node_ok:
  "heap_ok outRanks t \<Longrightarrow> valid_elems valid t \<Longrightarrow> heap_ok outRanks (snd (remove_node outRanks d t))"
proof (induction t)
  case NULL_NODE
  then show ?case by simp
next
  case (LocHeapNode sz l r x)
  obtain pl l' where l': "remove_node outRanks d l = (pl, l')" by fastforce
  obtain pr r' where r': "remove_node outRanks d r = (pr, r')" by fastforce
  have sub: "heap_ok outRanks l'" "heap_ok outRanks r'"
    using LocHeapNode l' r' by simp_all
  have el: "case pl of None \<Rightarrow> l' = l | Some p \<Rightarrow> elems l = add_mset d (elems l')"
    using remove_node_elems [where f = outRanks and d = d and t = l] l' by (auto split: option.splits)
  have er: "case pr of None \<Rightarrow> r' = r | Some p \<Rightarrow> elems r = add_mset d (elems r')"
    using remove_node_elems [where f = outRanks and d = d and t = r] r' by (auto split: option.splits)
  show ?case
  proof (cases "d = x")
    case True
    then show ?thesis
      using pop_node_ok [OF heap_ok_below [OF LocHeapNode.prems(1)] LocHeapNode.prems(2)] by simp
  next
    case False
    then show ?thesis
      using LocHeapNode.prems sub el er
      by (cases "l = NULL_NODE"; cases "r = NULL_NODE"; cases pl; cases pr)
        (auto simp: l' r')
  qed
qed

lemma remove_node_finds:
  "heap_ok outRanks t \<Longrightarrow> valid_elems valid t \<Longrightarrow> d \<in># elems t \<Longrightarrow>
   fst (remove_node outRanks d t) = Some d"
proof (induction t)
  case NULL_NODE
  then show ?case by simp
next
  case (LocHeapNode sz l r x)
  show ?case
  proof (cases "d = x")
    case True
    then show ?thesis
      using pop_node_elems [of "LocHeapNode sz l r x" outRanks] by auto
  next
    case False
    then have d: "d \<in># elems l \<or> d \<in># elems r" "\<not> outRanks d x"
      using LocHeapNode.prems by auto
    obtain pl l' where l': "remove_node outRanks d l = (pl, l')" by fastforce
    obtain pr r' where r': "remove_node outRanks d r = (pr, r')" by fastforce
    have "pl = None \<or> pl = Some d"
      using remove_node_elems [where f = outRanks and d = d and t = l] l' by (auto split: option.splits)
    moreover have "d \<in># elems l \<Longrightarrow> pl = Some d" "d \<in># elems r \<Longrightarrow> pr = Some d"
      using LocHeapNode l' r' by simp_all
    ultimately show ?thesis
      using False d by (auto simp: l' r' split: option.splits)
  qed
qed

lemma remove_node_absent: "d \<notin># elems t \<Longrightarrow> remove_node outRanks d t = (None, t)"
  using remove_node_elems [where f = outRanks and d = d and t = t] by (auto split: prod.splits option.splits)

end

section \<open>Draining the heap\<close>

text \<open>Pops until the heap is empty, as the library's own test program does at its end.\<close>

function drain :: "('a \<Rightarrow> 'a \<Rightarrow> bool) \<Rightarrow> 'a loc_heap \<Rightarrow> 'a list" where
  "drain outRanks t = (case heap_pop outRanks t of
     (None, _) \<Rightarrow> []
   | (Some d, t') \<Rightarrow> d # drain outRanks t')"
  by auto

lemma heap_pop_some:
  "heap_pop f t = (Some d, t') \<Longrightarrow> t \<noteq> NULL_NODE \<and> d = mData t \<and> elems t = add_mset d (elems t')"
  using pop_node_elems [of t f] by (auto simp: heap_pop_def split: if_splits)

termination drain
  by (relation "measure (\<lambda>(f, t). size (elems t))") (auto dest!: heap_pop_some [OF sym])

declare drain.simps [simp del]

context rankable
begin

lemma drain_sorted:
  "heap_ok outRanks t \<Longrightarrow> valid_elems valid t \<Longrightarrow>
   sorted_wrt (\<lambda>a b. \<not> outRanks b a) (drain outRanks t) \<and> mset (drain outRanks t) = elems t"
proof (induction "size (elems t)" arbitrary: t rule: less_induct)
  case less
  show ?case
  proof (cases "t = NULL_NODE")
    case True
    then show ?thesis by (simp add: drain.simps [of outRanks NULL_NODE] heap_pop_def)
  next
    case False
    obtain t' where pop: "pop_node outRanks t = (Some (mData t), t')"
        "elems t = add_mset (mData t) (elems t')"
      using pop_node_cases [OF False] by blast
    have t': "heap_ok outRanks t'" "valid_elems valid t'"
      using pop_node_ok [OF heap_ok_below [OF less.prems(1)] less.prems(2)] pop less.prems(2)
      by (auto simp: valid_elems_def)
    have d: "drain outRanks t = mData t # drain outRanks t'"
      using False pop by (simp add: drain.simps [of outRanks t] heap_pop_def)
    have IH: "sorted_wrt (\<lambda>a b. \<not> outRanks b a) (drain outRanks t')" "mset (drain outRanks t') = elems t'"
      using less.hyps [OF _ t'] pop(2) by simp_all
    have "\<not> outRanks y (mData t)" if "y \<in> set (drain outRanks t')" for y
    proof -
      have "y \<in># elems t" using that IH(2) pop(2) by (metis insert_iff set_mset_add_mset_insert set_mset_mset)
      then show ?thesis by (rule below_all [OF less.prems])
    qed
    with IH d pop(2) show ?thesis by auto
  qed
qed

end

section \<open>Balance\<close>

text \<open>
  \<open>push\<close> gives the new node to the smaller subtree: as long as nothing is taken out, the left
  subtree has as many nodes as the right one or one more, at every node.
\<close>

fun balanced :: "'a heap_node \<Rightarrow> bool" where
  "balanced NULL_NODE = True"
| "balanced (LocHeapNode sz l r x) =
     (mSize l = int (size (elems l)) \<and> mSize r = int (size (elems r))
      \<and> (size (elems l) = size (elems r) \<or> size (elems l) = size (elems r) + 1)
      \<and> balanced l \<and> balanced r)"

fun height :: "'a heap_node \<Rightarrow> nat" where
  "height NULL_NODE = 0"
| "height (LocHeapNode sz l r x) = 1 + max (height l) (height r)"

lemma mSize_push_node: "t \<noteq> NULL_NODE \<Longrightarrow> mSize (push_node f d t) = mSize t + 1"
  by (cases t) (auto simp: Let_def)

lemma balanced_new [simp]: "balanced (new_node d)" "height (new_node d) = 1"
  by (simp_all add: new_node_def)

lemma balanced_push_node:
  "balanced t \<Longrightarrow> t \<noteq> NULL_NODE \<Longrightarrow> balanced (push_node f d t)"
proof (induction f d t rule: push_node.induct)
  case (1 f d)
  then show ?case by simp
next
  case (2 f d sz l r x)
  then show ?case
    by (cases "l = NULL_NODE"; cases "r = NULL_NODE"; cases "mSize l \<le> mSize r")
      (auto simp: Let_def elems_push_node mSize_push_node)
qed

lemma balanced_height:
  "balanced t \<Longrightarrow> t \<noteq> NULL_NODE \<Longrightarrow>
   2 ^ (height t - 1) \<le> size (elems t) \<and> size (elems t) < 2 ^ height t"
proof (induction t)
  case NULL_NODE
  then show ?case by simp
next
  case (LocHeapNode sz l r x)
  let ?a = "size (elems l)" and ?b = "size (elems r)"
  have ab: "?a = ?b \<or> ?a = ?b + 1" using LocHeapNode.prems by simp
  show ?case
  proof (cases "l = NULL_NODE")
    case True
    with ab have "r = NULL_NODE" by auto
    with True show ?thesis by simp
  next
    case False
    have l: "2 ^ (height l - 1) \<le> ?a" "?a < 2 ^ height l"
      using LocHeapNode False by simp_all
    have hl: "height l = Suc (height l - 1)" using False by (cases l) simp_all
    have r: "height r \<le> height l"
    proof (cases "r = NULL_NODE")
      case True
      then show ?thesis by simp
    next
      case right: False
      then have "2 ^ (height r - 1) \<le> ?b" using LocHeapNode by simp
      with l(2) ab have "(2::nat) ^ (height r - 1) < 2 ^ height l" by linarith
      then have "height r - 1 < height l" by simp
      then show ?thesis by linarith
    qed
    have "2 * 2 ^ (height l - 1) \<le> 1 + ?a + ?b" using l(1) ab by linarith
    then have low: "2 ^ height l \<le> 1 + ?a + ?b" using hl by (metis power_Suc)
    have "1 + ?a + ?b < 2 * 2 ^ height l" using l(2) ab by linarith
    with low r show ?thesis by (simp add: max_def)
  qed
qed

end
