(* ===== verification/LocTimer.thy ===== *)
theory LocTimer
  imports LocHeap
begin

text \<open>
  The timers of the location code, \<open>hardware/gps/utils/LocTimer.cpp\<close>: how timers rank, the time a new timer
  gets, and the container, a \<open>LocHeap\<close> of timers with the kernel timer that is armed for the soonest of
  them. A timer is its address; its time never changes while it is in a heap, so the object store is a
  function \<open>time\<close> from addresses to times. All operations of the container but \<open>expire\<close> are
  messages handled by one thread, one after the other.
\<close>

section \<open>Times and ranks\<close>

record timespec =
  tv_sec :: int
  tv_nsec :: int

text \<open>
  \<open>LocTimerDelegate::ranks\<close>; the differences are of type \<open>long\<close> and are stored in an \<open>int\<close>, which
  keeps their low 32 bits.
\<close>

definition ranks :: "timespec \<Rightarrow> timespec \<Rightarrow> int" where
  "ranks this timer =
     (let rank = signed_take_bit 31 (tv_sec timer - tv_sec this)
      in if 0 = rank then signed_take_bit 31 (tv_nsec timer - tv_nsec this) else rank)"

definition outRanks :: "(ptr \<Rightarrow> timespec) \<Rightarrow> ptr \<Rightarrow> ptr \<Rightarrow> bool" where
  "outRanks time a b \<longleftrightarrow> ranks (time a) (time b) > 0"

text \<open>The times the clock gives until 2038: there the truncation is harmless.\<close>

definition valid_time :: "timespec \<Rightarrow> bool" where
  "valid_time t \<longleftrightarrow> 0 \<le> tv_sec t \<and> tv_sec t < 2 ^ 31 \<and> 0 \<le> tv_nsec t \<and> tv_nsec t < 1000000000"

definition earlier :: "timespec \<Rightarrow> timespec \<Rightarrow> bool" where
  "earlier s t \<longleftrightarrow> tv_sec s < tv_sec t \<or> tv_sec s = tv_sec t \<and> tv_nsec s < tv_nsec t"

lemma ranks_earlier:
  assumes "valid_time s" and "valid_time t"
  shows "ranks s t > 0 \<longleftrightarrow> earlier s t"
proof -
  have "signed_take_bit 31 (tv_sec t - tv_sec s) = tv_sec t - tv_sec s"
    "signed_take_bit 31 (tv_nsec t - tv_nsec s) = tv_nsec t - tv_nsec s"
    unfolding signed_take_bit_int_eq_self_iff using assms by (auto simp: valid_time_def)
  then show ?thesis by (auto simp: ranks_def Let_def earlier_def)
qed

interpretation timers: rankable "outRanks time" "\<lambda>p. valid_time (time p)"
  for time :: "ptr \<Rightarrow> timespec"
  by unfold_locales (auto simp: outRanks_def ranks_earlier earlier_def)

text \<open>The expiration time that \<open>LocTimer::start\<close> computes.\<close>

definition future_time :: "32 word \<Rightarrow> timespec \<Rightarrow> timespec" where
  "future_time timeOutInMs now =
     (let sec = tv_sec now + uint (timeOutInMs div 1000);
          nsec = tv_nsec now + uint (timeOutInMs mod 1000 * 1000000)
      in if nsec \<ge> 1000000000
         then \<lparr>tv_sec = sec + nsec div 1000000000, tv_nsec = nsec mod 1000000000\<rparr>
         else \<lparr>tv_sec = sec, tv_nsec = nsec\<rparr>)"

section \<open>The container\<close>

text \<open>
  \<open>fd\<close> is what the kernel timer is armed for, \<open>polled\<close> whether the container is in the poll
  set. \<open>fired\<close> and \<open>deleted\<close> are the timers whose \<open>expire\<close> was called and those deleted.
\<close>

record container =
  mTree :: "ptr loc_heap"
  fd :: "timespec option"
  polled :: bool
  fired :: "ptr list"
  deleted :: "ptr list"

definition LocTimerContainer :: container where
  "LocTimerContainer = \<lparr>mTree = LocHeap, fd = None, polled = False, fired = [], deleted = []\<rparr>"

definition getSoonestTimer :: "container \<Rightarrow> ptr option" where
  "getSoonestTimer c = heap_peek (mTree c)"

text \<open>A zero time disarms a kernel timer.\<close>

definition timerfd_settime :: "timespec \<Rightarrow> timespec option" where
  "timerfd_settime t = (if tv_sec t = 0 \<and> tv_nsec t = 0 then None else Some t)"

definition updateSoonestTime ::
    "(ptr \<Rightarrow> timespec) \<Rightarrow> ptr option \<Rightarrow> container \<Rightarrow> container" where
  "updateSoonestTime time priorTop c =
     (let curTop = getSoonestTimer c
      in if curTop \<noteq> priorTop
         then (case curTop of
                 None \<Rightarrow> c\<lparr>polled := False, fd := None\<rparr>
               | Some cur \<Rightarrow>
                   if priorTop = None \<or> outRanks time cur (the priorTop)
                   then c\<lparr>polled := True, fd := timerfd_settime (time cur)\<rparr>
                   else c)
         else c)"

definition MsgTimerPush :: "(ptr \<Rightarrow> timespec) \<Rightarrow> ptr \<Rightarrow> container \<Rightarrow> container" where
  "MsgTimerPush time timer c =
     (let priorTop = getSoonestTimer c
      in updateSoonestTime time priorTop (c\<lparr>mTree := heap_push (outRanks time) timer (mTree c)\<rparr>))"

definition MsgTimerRemove :: "(ptr \<Rightarrow> timespec) \<Rightarrow> ptr \<Rightarrow> container \<Rightarrow> container" where
  "MsgTimerRemove time timer c =
     (let priorTop = getSoonestTimer c;
          (removed, tree) = heap_remove (outRanks time) timer (mTree c);
          c1 = c\<lparr>mTree := tree\<rparr>;
          c2 = (if priorTop = removed then updateSoonestTime time None c1 else c1)
      in c2\<lparr>deleted := deleted c2 @ [timer]\<rparr>)"

text \<open>The poll thread's part of \<open>expire\<close>, before it sends the message.\<close>

definition expire :: "container \<Rightarrow> container" where
  "expire c = c\<lparr>fd := None, polled := False\<rparr>"

definition popIfOutRanks ::
    "(ptr \<Rightarrow> timespec) \<Rightarrow> timespec \<Rightarrow> ptr loc_heap \<Rightarrow> ptr option \<times> ptr loc_heap" where
  "popIfOutRanks time now t =
     (if t \<noteq> NULL_NODE \<and> \<not> ranks now (time (mData t)) > 0
      then heap_pop (outRanks time) t
      else (None, t))"

lemma popIfOutRanks_some:
  "popIfOutRanks time now t = (Some d, t') \<Longrightarrow>
   t \<noteq> NULL_NODE \<and> d = mData t \<and> elems t = add_mset d (elems t')
   \<and> heap_pop (outRanks time) t = (Some d, t') \<and> \<not> ranks now (time d) > 0"
  by (auto simp: popIfOutRanks_def dest: heap_pop_some split: if_splits)

lemma popIfOutRanks_none:
  assumes "popIfOutRanks time now t = (None, t')"
  shows "t' = t \<and> (t = NULL_NODE \<or> ranks now (time (mData t)) > 0)"
proof (cases "t \<noteq> NULL_NODE \<and> \<not> ranks now (time (mData t)) > 0")
  case True
  then obtain u where "pop_node (outRanks time) t = (Some (mData t), u)"
    using pop_node_cases by blast
  with True assms show ?thesis by (simp add: popIfOutRanks_def heap_pop_def)
next
  case False
  then show ?thesis using assms unfolding popIfOutRanks_def if_not_P [OF False] by auto
qed

text \<open>The loop of \<open>MsgTimerExpire\<close> after its first pop; the result is the timers expired in turn.\<close>

function expire_loop ::
    "(ptr \<Rightarrow> timespec) \<Rightarrow> timespec \<Rightarrow> ptr loc_heap \<Rightarrow> ptr list \<times> ptr loc_heap" where
  "expire_loop time now t = (case popIfOutRanks time now t of
     (None, t') \<Rightarrow> ([], t')
   | (Some d, t') \<Rightarrow> (case expire_loop time now t' of (ds, t'') \<Rightarrow> (d # ds, t'')))"
  by auto

termination expire_loop
  by (relation "measure (\<lambda>(time, now, t). size (elems t))") (auto dest!: popIfOutRanks_some [OF sym])

declare expire_loop.simps [simp del]

definition MsgTimerExpire ::
    "(ptr \<Rightarrow> timespec) \<Rightarrow> timespec \<Rightarrow> container \<Rightarrow> container" where
  "MsgTimerExpire time now c =
     (case heap_pop (outRanks time) (mTree c) of
        (None, t) \<Rightarrow> updateSoonestTime time None (c\<lparr>mTree := t\<rparr>)
      | (Some d, t) \<Rightarrow>
          (case expire_loop time now t of
             (ds, t') \<Rightarrow> updateSoonestTime time None (c\<lparr>mTree := t', fired := fired c @ d # ds\<rparr>)))"

section \<open>What the operations do to the heap\<close>

definition heap_valid :: "(ptr \<Rightarrow> timespec) \<Rightarrow> ptr loc_heap \<Rightarrow> bool" where
  "heap_valid time t \<longleftrightarrow> heap_ok (outRanks time) t \<and> valid_elems (\<lambda>p. valid_time (time p)) t"

lemma heap_valid_push:
  "heap_valid time t \<Longrightarrow> valid_time (time d) \<Longrightarrow>
   heap_valid time (heap_push (outRanks time) d t)
   \<and> elems (heap_push (outRanks time) d t) = add_mset d (elems t)"
  using timers.push_node_ok [of t time d]
  by (auto simp: heap_valid_def heap_push_def elems_push_node valid_elems_def)

lemma heap_valid_pop:
  assumes "heap_valid time t" and "heap_pop (outRanks time) t = (p, t')"
  shows "heap_valid time t' \<and> (case p of
      None \<Rightarrow> t = NULL_NODE \<and> t' = NULL_NODE
    | Some d \<Rightarrow> elems t = add_mset d (elems t') \<and> (\<forall>x\<in>#elems t. \<not> outRanks time x d))"
proof (cases "t = NULL_NODE")
  case True
  with assms show ?thesis by (auto simp: heap_pop_def)
next
  case False
  have ok: "heap_ok (outRanks time) t" "valid_elems (\<lambda>p. valid_time (time p)) t"
    using assms(1) by (simp_all add: heap_valid_def)
  obtain u where u: "pop_node (outRanks time) t = (Some (mData t), u)"
      "elems t = add_mset (mData t) (elems u)"
    using pop_node_cases [OF False] by blast
  have "heap_ok (outRanks time) u"
    using timers.pop_node_ok [OF heap_ok_below [OF ok(1)] ok(2)] u(1) by simp
  moreover have "\<forall>x\<in>#elems t. \<not> outRanks time x (mData t)"
    using timers.below_all [OF ok] by blast
  moreover have "valid_elems (\<lambda>p. valid_time (time p)) u"
    using ok(2) u(2) by (simp add: valid_elems_def)
  moreover have "p = Some (mData t)" "t' = u"
    using False assms(2) u(1) by (simp_all add: heap_pop_def)
  ultimately show ?thesis
    using u(2) by (simp add: heap_valid_def)
qed

lemma heap_valid_remove:
  assumes "heap_valid time t" and "heap_remove (outRanks time) d t = (p, t')"
  shows "heap_valid time t' \<and> (if d \<in># elems t then p = Some d \<and> elems t = add_mset d (elems t')
    else p = None \<and> t' = t)"
proof (cases "t = NULL_NODE")
  case True
  with assms show ?thesis by (auto simp: heap_remove_def)
next
  case False
  have ok: "heap_ok (outRanks time) t" "valid_elems (\<lambda>p. valid_time (time p)) t"
    using assms(1) by (simp_all add: heap_valid_def)
  have r: "remove_node (outRanks time) d t = (p, t')"
    using False assms(2) by (simp add: heap_remove_def)
  have t': "heap_ok (outRanks time) t'"
    using timers.remove_node_ok [OF ok, of d] r by simp
  show ?thesis
  proof (cases "d \<in># elems t")
    case True
    then have p: "p = Some d"
      using timers.remove_node_finds [OF ok, of d] r by simp
    then have e: "elems t = add_mset d (elems t')"
      using remove_node_elems [where f = "outRanks time" and d = d and t = t] r by simp
    have "valid_elems (\<lambda>p. valid_time (time p)) t'"
      using ok(2) unfolding valid_elems_def e by simp
    with True p e t' show ?thesis by (simp add: heap_valid_def)
  next
    case False
    then have "p = None" "t' = t"
      using timers.remove_node_absent [of d t time] r by simp_all
    with False assms(1) show ?thesis by simp
  qed
qed

lemma earlier_trans: "earlier s t \<Longrightarrow> earlier t u \<Longrightarrow> earlier s u"
  by (auto simp: earlier_def)

text \<open>What the expiry loop takes out: the timers that are due, soonest first.\<close>

lemma expire_loop_due:
  assumes "heap_valid time t" and "valid_time now" and "expire_loop time now t = (ds, t')"
  shows "heap_valid time t' \<and> elems t = mset ds + elems t'
     \<and> (\<forall>d\<in>set ds. \<not> earlier now (time d)) \<and> (\<forall>d\<in>#elems t'. earlier now (time d))
     \<and> sorted_wrt (\<lambda>a b. \<not> earlier (time b) (time a)) ds"
  using assms(1,3)
proof (induction "size (elems t)" arbitrary: t ds rule: less_induct)
  case less
  obtain q u where q: "popIfOutRanks time now t = (q, u)" by fastforce
  show ?case
  proof (cases q)
    case None
    then have res: "ds = []" "t' = u" using less.prems(2) q by (simp_all add: expire_loop.simps [of time now t])
    have u: "u = t" "t = NULL_NODE \<or> ranks now (time (mData t)) > 0"
      using popIfOutRanks_none [OF q [unfolded None]] by simp_all
    have "earlier now (time d)" if d: "d \<in># elems t" for d
    proof -
      have "t \<noteq> NULL_NODE" using d by auto
      then have top: "earlier now (time (mData t))" "mData t \<in># elems t"
        using u(2) assms(2) less.prems(1) mData_in [of t]
        by (auto simp: heap_valid_def valid_elems_def ranks_earlier)
      have "\<not> outRanks time d (mData t)"
        using timers.below_all [of time t d] less.prems(1) d by (simp add: heap_valid_def)
      then have "\<not> earlier (time d) (time (mData t))"
        using less.prems(1) d top(2) by (simp add: heap_valid_def valid_elems_def outRanks_def ranks_earlier)
      with top(1) show ?thesis by (auto simp: earlier_def)
    qed
    with res u less.prems(1) show ?thesis by simp
  next
    case (Some d)
    from popIfOutRanks_some [OF q [unfolded Some]] have
      p: "elems t = add_mset d (elems u)" "heap_pop (outRanks time) t = (Some d, u)"
        "\<not> ranks now (time d) > 0"
      by auto
    from heap_valid_pop [OF less.prems(1) p(2)] have
      u: "heap_valid time u" "\<forall>x\<in>#elems t. \<not> outRanks time x d"
      by auto
    obtain es where es: "expire_loop time now u = (es, t')" "ds = d # es"
      using less.prems(2) q Some by (auto simp: expire_loop.simps [of time now t] split: prod.splits)
    have IH: "heap_valid time t'" "elems u = mset es + elems t'"
        "\<forall>e\<in>set es. \<not> earlier now (time e)" "\<forall>e\<in>#elems t'. earlier now (time e)"
        "sorted_wrt (\<lambda>a b. \<not> earlier (time b) (time a)) es"
      using less.hyps [OF _ u(1) es(1)] p(1) by auto
    have v: "valid_time (time x)" if "x \<in># elems t" for x
      using less.prems(1) that by (simp add: heap_valid_def valid_elems_def)
    have "\<not> earlier (time e) (time d)" if "e \<in> set es" for e
    proof -
      have "e \<in># elems t" "d \<in># elems t" using that IH(2) p(1) by auto
      with u(2) v show ?thesis by (auto simp: outRanks_def ranks_earlier)
    qed
    moreover have "\<not> earlier now (time d)"
      using p(1,3) v [of d] assms(2) by (simp add: ranks_earlier)
    ultimately show ?thesis using IH es(2) p(1) by simp
  qed
qed

section \<open>The armed time\<close>

text \<open>While timers tick, the container is polled and its kernel timer is armed for the soonest of them.\<close>

definition armed_ok :: "(ptr \<Rightarrow> timespec) \<Rightarrow> container \<Rightarrow> bool" where
  "armed_ok time c = (case getSoonestTimer c of
     None \<Rightarrow> True
   | Some t \<Rightarrow> polled c \<and> fd c = timerfd_settime (time t))"

lemma push_top:
  "heap_peek (heap_push f d t) = Some (if t \<noteq> NULL_NODE \<and> \<not> f d (mData t) then mData t else d)"
  by (cases t) (auto simp: heap_push_def heap_peek_def new_node_def Let_def)

lemma remove_top:
  "remove_node f d t = (p, t') \<Longrightarrow> t \<noteq> NULL_NODE \<Longrightarrow> d \<noteq> mData t \<Longrightarrow> t' \<noteq> NULL_NODE \<and> mData t' = mData t"
  by (cases t) (auto split: prod.splits option.splits if_splits)

lemma armed_update_None: "armed_ok time (updateSoonestTime time None c)"
  by (auto simp: armed_ok_def updateSoonestTime_def getSoonestTimer_def Let_def split: option.splits)

lemma armed_push:
  assumes "armed_ok time c"
  shows "armed_ok time (MsgTimerPush time timer c)"
proof (cases "mTree c = NULL_NODE")
  case True
  then show ?thesis
    by (simp add: MsgTimerPush_def Let_def getSoonestTimer_def heap_peek_def armed_update_None)
next
  case False
  then have prior: "getSoonestTimer c = Some (mData (mTree c))"
    by (simp add: getSoonestTimer_def heap_peek_def)
  show ?thesis
    using assms False
    by (auto simp: MsgTimerPush_def updateSoonestTime_def armed_ok_def getSoonestTimer_def Let_def
        push_top prior [unfolded getSoonestTimer_def] split: if_splits)
qed

lemma armed_remove:
  assumes "armed_ok time c"
  shows "armed_ok time (MsgTimerRemove time timer c)"
proof -
  obtain removed tree where r: "heap_remove (outRanks time) timer (mTree c) = (removed, tree)"
    by fastforce
  have del: "armed_ok time (v\<lparr>deleted := x\<rparr>) = armed_ok time v" for v x
    by (simp add: armed_ok_def getSoonestTimer_def split: option.split)
  show ?thesis
  proof (cases "getSoonestTimer c = removed")
    case True
    then show ?thesis by (simp add: MsgTimerRemove_def Let_def r del armed_update_None)
  next
    case False
    have same: "heap_peek tree = heap_peek (mTree c)"
    proof (cases "mTree c = NULL_NODE")
      case True
      with r show ?thesis by (simp add: heap_remove_def)
    next
      case nonempty: False
      have rn: "remove_node (outRanks time) timer (mTree c) = (removed, tree)"
        using r nonempty by (simp add: heap_remove_def)
      show ?thesis
      proof (cases "timer = mData (mTree c)")
        case True
        then obtain u where "remove_node (outRanks time) timer (mTree c) = (Some (mData (mTree c)), u)"
          using nonempty pop_node_cases [OF nonempty, of "outRanks time"]
          by (cases "mTree c") auto
        with rn False nonempty show ?thesis by (simp add: getSoonestTimer_def heap_peek_def)
      next
        case False
        from remove_top [OF rn nonempty this] nonempty show ?thesis by (simp add: heap_peek_def)
      qed
    qed
    with False assms show ?thesis
      by (simp add: MsgTimerRemove_def Let_def r del) (auto simp: armed_ok_def getSoonestTimer_def split: option.splits)
  qed
qed

section \<open>Every heap the operations reach\<close>

inductive heap_reachable :: "(ptr \<Rightarrow> timespec) \<Rightarrow> ptr loc_heap \<Rightarrow> bool" for time where
  new: "heap_reachable time LocHeap"
| push: "heap_reachable time t \<Longrightarrow> valid_time (time d) \<Longrightarrow>
    heap_reachable time (heap_push (outRanks time) d t)"
| pop: "heap_reachable time t \<Longrightarrow> heap_reachable time (snd (heap_pop (outRanks time) t))"
| remove: "heap_reachable time t \<Longrightarrow> heap_reachable time (snd (heap_remove (outRanks time) d t))"

lemma heap_reachable_valid: "heap_reachable time t \<Longrightarrow> heap_valid time t"
proof (induction rule: heap_reachable.induct)
  case new
  then show ?case by (simp add: heap_valid_def LocHeap_def)
next
  case (push t d)
  then show ?case using heap_valid_push by blast
next
  case (pop t)
  then show ?case using heap_valid_pop [OF pop.IH surjective_pairing] by blast
next
  case (remove t d)
  then show ?case using heap_valid_remove [OF remove.IH surjective_pairing] by blast
qed

lemma heap_valid_check:
  "heap_valid time t \<Longrightarrow> checkTree (outRanks time) t \<and> getTreeSize t = int (size (elems t))"
  using timers.checkNodes_eq [of time t] heap_ok_size [of "outRanks time" t]
  by (auto simp: heap_valid_def checkTree_def getTreeSize_def)

lemma balanced_pushes:
  "balanced (fold (heap_push f) ds t) \<and> size (elems (fold (heap_push f) ds t)) = size (elems t) + length ds"
  if "balanced t"
  using that
proof (induction ds arbitrary: t)
  case Nil
  then show ?case by simp
next
  case (Cons d ds)
  have "balanced (heap_push f d t)" "size (elems (heap_push f d t)) = size (elems t) + 1"
    using Cons.prems by (auto simp: heap_push_def balanced_push_node elems_push_node)
  with Cons.IH [of "heap_push f d t"] show ?case by simp
qed

section \<open>Properties\<close>

text \<open>Two timers, for the concrete runs below: timer 1 is due at second 10, timer 2 at second 100.\<close>

definition two_times :: "ptr \<Rightarrow> timespec" where
  "two_times p = (if p = 1 then \<lparr>tv_sec = 10, tv_nsec = 0\<rparr> else \<lparr>tv_sec = 100, tv_nsec = 0\<rparr>)"

lemma two_times_valid [simp]: "valid_time (two_times p)"
  by (simp add: two_times_def valid_time_def)

lemma two_ranks [simp]: "outRanks two_times p q \<longleftrightarrow> p = 1 \<and> q \<noteq> 1"
  by (simp add: outRanks_def ranks_earlier) (simp add: two_times_def earlier_def)

definition two_timers :: "ptr loc_heap" where
  "two_timers = heap_push (outRanks two_times) 1 (heap_push (outRanks two_times) 2 LocHeap)"

lemma two_timers_reachable: "heap_reachable two_times two_timers"
  unfolding two_timers_def by (intro heap_reachable.intros) simp_all

lemma two_timers_eq: "two_timers = LocHeapNode 2 (LocHeapNode 1 NULL_NODE NULL_NODE 2) NULL_NODE 1"
  by (simp add: two_timers_def heap_push_def LocHeap_def new_node_def)

lemma two_timers_elems: "elems two_timers = {#1, 2#}"
  by (simp add: two_timers_eq)



text \<open>
  Popping until the heap is empty gives every timer once, the soonest first.
\<close>

lemma drain_gives_timers_in_order:
  "heap_reachable time t \<Longrightarrow>
   mset (drain (outRanks time) t) = elems t
   \<and> sorted_wrt (\<lambda>a b. \<not> earlier (time b) (time a)) (drain (outRanks time) t)"
proof -
  assume "heap_reachable time t"
  then have t: "heap_ok (outRanks time) t" "valid_elems (\<lambda>p. valid_time (time p)) t"
    using heap_reachable_valid by (simp_all add: heap_valid_def)
  note d = timers.drain_sorted [OF t]
  have "valid_time (time x)" if "x \<in> set (drain (outRanks time) t)" for x
    using d t(2) that unfolding valid_elems_def by (metis set_mset_mset)
  with d show ?thesis
    by (auto intro: sorted_wrt_mono_rel [rotated] simp: outRanks_def ranks_earlier)
qed

text \<open>
  Pushing balances the tree: after any pushes, whatever the ranking, the height is at most one more than the
  logarithm of the number of nodes.
\<close>

lemma pushes_balanced:
  "2 ^ (height (fold (heap_push f) ds LocHeap) - 1) \<le> max 1 (length ds)"
  using balanced_pushes [of LocHeap f ds]
    balanced_height [of "fold (heap_push f) ds LocHeap"]
  by (cases "fold (heap_push f) ds LocHeap = NULL_NODE") (auto simp: LocHeap_def)

text \<open>
  Expiry empties what is due: the message expires the soonest timer, then every timer whose time has come and no
  other, soonest first; each timer left is later than now, and the kernel is armed for the soonest of them.
\<close>

lemma expiry_takes_due_timers:
  assumes "heap_reachable time (mTree c)" and "valid_time now"
    and "c' = MsgTimerExpire time now c"
  shows "\<exists>ds. fired c' = fired c @ ds \<and> elems (mTree c) = mset ds + elems (mTree c')
    \<and> list_all (\<lambda>d. \<not> earlier now (time d)) (tl ds)
    \<and> sorted_wrt (\<lambda>a b. \<not> earlier (time b) (time a)) ds
    \<and> (\<forall>d\<in>#elems (mTree c'). earlier now (time d)) \<and> armed_ok time c'"
proof -
  have tree: "mTree (updateSoonestTime time None v) = mTree v"
    "fired (updateSoonestTime time None v) = fired v" for v
    by (auto simp: updateSoonestTime_def Let_def split: option.splits)
  have t: "heap_valid time (mTree c)" by (rule heap_reachable_valid [OF assms(1)])
  obtain p u where pop: "heap_pop (outRanks time) (mTree c) = (p, u)" by fastforce
  note pu = heap_valid_pop [OF t pop]
  show ?thesis
  proof (cases p)
    case None
    then have "c' = updateSoonestTime time None (c\<lparr>mTree := u\<rparr>)"
      unfolding assms(3) by (simp add: MsgTimerExpire_def pop)
    then have "mTree c' = NULL_NODE" "mTree c = NULL_NODE" "fired c' = fired c"
      using pu None by (simp_all add: tree)
    moreover have "armed_ok time c'"
      unfolding assms(3) by (simp add: MsgTimerExpire_def pop None armed_update_None)
    ultimately show ?thesis by (intro exI [of _ "[]"]) simp
  next
    case (Some d)
    obtain ds w where loop: "expire_loop time now u = (ds, w)" by fastforce
    from pu Some have u: "heap_valid time u" "elems (mTree c) = add_mset d (elems u)"
        "\<forall>x\<in>#elems (mTree c). \<not> outRanks time x d"
      by simp_all
    note l = expire_loop_due [OF u(1) assms(2) loop]
    have c': "mTree c' = w" "fired c' = fired c @ d # ds"
      unfolding assms(3) by (simp_all add: MsgTimerExpire_def pop Some loop tree)
    have "\<not> earlier (time e) (time d)" if "e \<in> set ds" for e
    proof -
      have "e \<in># elems (mTree c)" "d \<in># elems (mTree c)" using that l u(2) by auto
      with u(3) t show ?thesis
        by (auto simp: heap_valid_def valid_elems_def outRanks_def ranks_earlier)
    qed
    moreover have "armed_ok time c'"
      unfolding assms(3) by (simp add: MsgTimerExpire_def pop Some loop armed_update_None)
    ultimately show ?thesis
      using l u(2) c' by (intro exI [of _ "d # ds"]) (simp add: list_all_iff)
  qed
qed

text \<open>
  The kernel timer follows the heap: adding and removing timers keep the container polled and its kernel
  timer armed for the soonest timer, whatever the ranks.
\<close>

lemma kernel_timer_follows_heap:
  "armed_ok time c \<Longrightarrow>
   armed_ok time (MsgTimerPush time timer c) \<and> armed_ok time (MsgTimerRemove time timer c)"
  using armed_push armed_remove by blast

text \<open>
  A timer can fire early: the clock reaches timer 1 and the poll thread sends the expiry message, but a
  removal of timer 1 is handled first. The message then expires timer 2, 90 seconds before its time, because its
  first pop does not look at the clock.
\<close>

lemma timer_fires_early:
  "fired (MsgTimerExpire two_times \<lparr>tv_sec = 10, tv_nsec = 0\<rparr>
     (MsgTimerRemove two_times 1 (expire (LocTimerContainer\<lparr>mTree := two_timers,
        fd := Some (two_times 1), polled := True\<rparr>)))) = [2]
   \<and> earlier \<lparr>tv_sec = 10, tv_nsec = 0\<rparr> (two_times 2)"
proof -
  let ?c = "expire (LocTimerContainer\<lparr>mTree := two_timers, fd := Some (two_times 1), polled := True\<rparr>)"
  have "mTree (MsgTimerRemove two_times 1 ?c) = LocHeapNode 1 NULL_NODE NULL_NODE 2"
    "fired (MsgTimerRemove two_times 1 ?c) = []"
    unfolding two_timers_eq
    by (simp_all add: MsgTimerRemove_def expire_def LocTimerContainer_def getSoonestTimer_def
        heap_peek_def heap_remove_def updateSoonestTime_def Let_def)
  moreover have "expire_loop two_times now NULL_NODE = ([], NULL_NODE)" for now
    by (simp add: expire_loop.simps [of two_times now NULL_NODE] popIfOutRanks_def)
  ultimately show ?thesis
    by (simp add: MsgTimerExpire_def heap_pop_def updateSoonestTime_def getSoonestTimer_def
        heap_peek_def two_times_def earlier_def)
qed

text \<open>
  Removing the last timer does not disarm the kernel timer: the branch that would is never taken.
\<close>

lemma last_removal_leaves_kernel_armed:
  "fd (MsgTimerRemove two_times 1 (LocTimerContainer\<lparr>mTree := new_node 1, fd := Some (two_times 1),
     polled := True\<rparr>)) = Some (two_times 1)"
  by (simp add: MsgTimerRemove_def LocTimerContainer_def getSoonestTimer_def heap_peek_def
      heap_remove_def updateSoonestTime_def Let_def new_node_def)

text \<open>
  A new timer is due exactly when asked: the time computed is the clock's plus the delay, to the nanosecond,
  for every 32-bit delay, and its nanoseconds stay below a second.
\<close>

lemma future_time_exact:
  "valid_time now \<Longrightarrow>
   tv_sec (future_time ms now) * 1000000000 + tv_nsec (future_time ms now)
     = tv_sec now * 1000000000 + tv_nsec now + uint ms * 1000000
   \<and> 0 \<le> tv_nsec (future_time ms now) \<and> tv_nsec (future_time ms now) < 1000000000"
proof -
  assume now: "valid_time now"
  have m: "uint (ms mod 1000) = uint ms mod 1000" "uint (ms div 1000) = uint ms div 1000"
    by (simp_all add: uint_mod_distrib uint_div_distrib)
  then have small: "uint (ms mod 1000) < 1000" by simp
  have "uint (ms mod 1000 * 1000000) = uint ms mod 1000 * 1000000"
    using small m(1) by (simp add: uint_word_ariths(3))
  moreover have "uint ms mod 1000 * 1000000 + uint ms div 1000 * 1000000000 = uint ms * 1000000"
    using div_mult_mod_eq [of "uint ms" 1000] by linarith
  ultimately show ?thesis
    using m now by (auto simp: future_time_def Let_def valid_time_def)
qed

end
