(* ===== verification/Agps.thy ===== *)
theory Agps
  imports Prelude
begin

text \<open>
  The assisted-GPS data connections, \<open>hardware/gps/gnss/Agps.cpp\<close>: the subscribers of a connection, the
  state machine that requests and releases it (\<open>AgpsStateMachine\<close>), its emergency variant over the data
  service client (\<open>DSStateMachine\<close>), and the manager that owns three machines. All of them run in the
  adapter's message thread, so an operation is one step.

  The two virtual methods \<open>requestOrReleaseDataConn\<close> and \<open>notifyEventToSubscriber\<close> are a record of
  functions that every base method takes. The callbacks the adapter registers, and the data service client, are not
  under this file: what they are told is kept in the history \<open>out\<close>, and what they answer comes from the
  environment \<open>agps_env\<close>.
\<close>

section \<open>Vocabulary\<close>

datatype AgpsState =
    AGPS_STATE_INVALID
  | AGPS_STATE_RELEASED
  | AGPS_STATE_PENDING
  | AGPS_STATE_ACQUIRED
  | AGPS_STATE_RELEASING

datatype AgpsEvent =
    AGPS_EVENT_INVALID
  | AGPS_EVENT_SUBSCRIBE
  | AGPS_EVENT_UNSUBSCRIBE
  | AGPS_EVENT_GRANTED
  | AGPS_EVENT_RELEASED
  | AGPS_EVENT_DENIED

datatype AgpsNotificationType =
    AGPS_NOTIFICATION_TYPE_INVALID
  | AGPS_NOTIFICATION_TYPE_FOR_ALL_SUBSCRIBERS
  | AGPS_NOTIFICATION_TYPE_FOR_INACTIVE_SUBSCRIBERS
  | AGPS_NOTIFICATION_TYPE_FOR_ACTIVE_SUBSCRIBERS

text \<open>The connection types of \<open>gps_extended_c.h\<close> are numbers, and so are the bearers.\<close>

definition LOC_AGPS_TYPE_INVALID :: int where "LOC_AGPS_TYPE_INVALID = - 1"
definition LOC_AGPS_TYPE_SUPL :: int where "LOC_AGPS_TYPE_SUPL = 1"
definition LOC_AGPS_TYPE_WWAN_ANY :: int where "LOC_AGPS_TYPE_WWAN_ANY = 3"
definition LOC_AGPS_TYPE_SUPL_ES :: int where "LOC_AGPS_TYPE_SUPL_ES = 5"
definition AGPS_APN_BEARER_INVALID :: int where "AGPS_APN_BEARER_INVALID = 0"
definition LOC_API_ADAPTER_ERR_SUCCESS :: int where "LOC_API_ADAPTER_ERR_SUCCESS = 0"
definition LOC_API_ADAPTER_ERR_UNSUPPORTED :: int where "LOC_API_ADAPTER_ERR_UNSUPPORTED = 2"
definition LOC_API_ADAPTER_ERR_ENGINE_BUSY :: int where "LOC_API_ADAPTER_ERR_ENGINE_BUSY = 6"
definition MAX_APN_LEN :: "32 word" where "MAX_APN_LEN = 100"
definition MAX_START_DATA_CALL_RETRIES :: int where "MAX_START_DATA_CALL_RETRIES = 4"

lemmas agps_consts = LOC_AGPS_TYPE_INVALID_def LOC_AGPS_TYPE_SUPL_def LOC_AGPS_TYPE_WWAN_ANY_def
  LOC_AGPS_TYPE_SUPL_ES_def AGPS_APN_BEARER_INVALID_def LOC_API_ADAPTER_ERR_SUCCESS_def
  LOC_API_ADAPTER_ERR_UNSUPPORTED_def LOC_API_ADAPTER_ERR_ENGINE_BUSY_def MAX_APN_LEN_def
  MAX_START_DATA_CALL_RETRIES_def

record AgpsSubscriber =
  mConnHandle :: int
  mWaitForCloseComplete :: bool
  mIsInactive :: bool

text \<open>What the machines tell the outside, in the order they tell it.\<close>

datatype agps_out =
    FrameworkStatus int bool
  | AtlOpenStatus int int "string option" int int
  | AtlCloseStatus int int
  | SendRequestATL int int
  | DSClientInit bool
  | DSClientOpenAndStart
  | DSClientStop
  | DSClientClose
  | DSClientRelease
  | StartRetryTimer

text \<open>
  The environment: the status of the n-th start of the data call, when the client has registered the function;
  whether the stop function is registered; whether the n-th retry timer gets a handle (\<open>loc_timer_start\<close>
  returns \<open>NULL\<close> when it fails); the status of the client's initialisation; the two configuration flags;
  and \<open>freed\<close>, what a deleted subscriber's memory reads as from then on.
\<close>

record agps_env =
  ds_open :: "(nat \<Rightarrow> int) option"
  ds_stop_registered :: bool
  timer_handle :: "nat \<Rightarrow> bool"
  ds_init :: "(bool \<Rightarrow> int) option"
  agps_capable :: bool
  use_emergency_pdn :: bool
  freed :: "AgpsSubscriber \<Rightarrow> AgpsSubscriber"

text \<open>
  A machine. The subscribers are objects that the list and \<open>mCurrentSubscriber\<close> point to; address \<open>0\<close> is
  the caller's local variable, the addresses from \<open>1\<close> on are clones. \<open>mRetries\<close> belongs to the data
  service machine; \<open>starts\<close> counts its calls of the start function.
\<close>

record agps_sm =
  objs :: "ptr \<Rightarrow> AgpsSubscriber"
  next_obj :: ptr
  mSubscriberList :: "ptr list"
  mCurrentSubscriber :: ptr
  mState :: AgpsState
  mAgpsType :: int
  mAPN :: "string option"
  mAPNLen :: "32 word"
  mBearer :: int
  mRetries :: int
  starts :: nat
  out :: "agps_out list"

definition AgpsStateMachine :: "int \<Rightarrow> agps_sm" where
  "AgpsStateMachine agpsType = \<lparr>objs = (\<lambda>_. \<lparr>mConnHandle = 0, mWaitForCloseComplete = False, mIsInactive = False\<rparr>),
     next_obj = 1, mSubscriberList = [], mCurrentSubscriber = 0, mState = AGPS_STATE_RELEASED,
     mAgpsType = agpsType, mAPN = None, mAPNLen = 0, mBearer = AGPS_APN_BEARER_INVALID, mRetries = 0,
     starts = 0, out = []\<rparr>"

definition DSStateMachine :: agps_sm where
  "DSStateMachine = AgpsStateMachine LOC_AGPS_TYPE_SUPL_ES"

definition emit :: "agps_out \<Rightarrow> agps_sm \<Rightarrow> agps_sm" where
  "emit e s = s\<lparr>out := out s @ [e]\<rparr>"

definition equals :: "AgpsSubscriber \<Rightarrow> AgpsSubscriber \<Rightarrow> bool" where
  "equals a b \<longleftrightarrow> mConnHandle a = mConnHandle b"

section \<open>The subscriber list\<close>

definition addSubscriber :: "ptr \<Rightarrow> agps_sm \<Rightarrow> agps_sm" where
  "addSubscriber p s =
     (if list_ex (\<lambda>q. equals (objs s q) (objs s p)) (mSubscriberList s) then s
      else s\<lparr>objs := (objs s)(next_obj s := objs s p), next_obj := next_obj s + 1,
             mSubscriberList := mSubscriberList s @ [next_obj s]\<rparr>)"

text \<open>
  The loop of \<open>deleteSubscriber\<close>. The argument usually points into the list: once its object is deleted,
  every later comparison reads freed memory.
\<close>

fun delete_loop ::
    "agps_env \<Rightarrow> ptr \<Rightarrow> ptr list \<Rightarrow> (ptr \<Rightarrow> AgpsSubscriber) \<Rightarrow> ptr list \<times> (ptr \<Rightarrow> AgpsSubscriber)" where
  "delete_loop e p [] m = ([], m)"
| "delete_loop e p (q # qs) m =
     (if equals (m q) (m p) then delete_loop e p qs (m(q := freed e (m q)))
      else (case delete_loop e p qs m of (rest, m') \<Rightarrow> (q # rest, m')))"

definition deleteSubscriber :: "agps_env \<Rightarrow> ptr \<Rightarrow> agps_sm \<Rightarrow> agps_sm" where
  "deleteSubscriber e p s = (case delete_loop e p (mSubscriberList s) (objs s) of
     (l, m) \<Rightarrow> s\<lparr>mSubscriberList := l, objs := m\<rparr>)"

definition anyActiveSubscribers :: "agps_sm \<Rightarrow> bool" where
  "anyActiveSubscribers s \<longleftrightarrow> list_ex (\<lambda>p. \<not> mIsInactive (objs s p)) (mSubscriberList s)"

definition getSubscriber :: "int \<Rightarrow> agps_sm \<Rightarrow> ptr option" where
  "getSubscriber connHandle s = List.find (\<lambda>p. mConnHandle (objs s p) = connHandle) (mSubscriberList s)"

definition getFirstSubscriber :: "bool \<Rightarrow> agps_sm \<Rightarrow> ptr option" where
  "getFirstSubscriber isInactive s =
     List.find (\<lambda>p. mIsInactive (objs s p) = isInactive) (mSubscriberList s)"

fun drop_loop :: "agps_env \<Rightarrow> ptr list \<Rightarrow> (ptr \<Rightarrow> AgpsSubscriber) \<Rightarrow> (ptr \<Rightarrow> AgpsSubscriber)" where
  "drop_loop e [] m = m"
| "drop_loop e (q # qs) m = drop_loop e qs (m(q := freed e (m q)))"

definition dropAllSubscribers :: "agps_env \<Rightarrow> agps_sm \<Rightarrow> agps_sm" where
  "dropAllSubscribers e s = s\<lparr>objs := drop_loop e (mSubscriberList s) (objs s), mSubscriberList := []\<rparr>"

text \<open>The name is taken over only when its length is as told and at most \<open>MAX_APN_LEN\<close>.\<close>

definition setAPN :: "string option \<Rightarrow> 32 word \<Rightarrow> agps_sm \<Rightarrow> agps_sm" where
  "setAPN apn len s = (case apn of
     None \<Rightarrow> s\<lparr>mAPN := None, mAPNLen := 0\<rparr>
   | Some name \<Rightarrow>
       if len = 0 \<or> len > MAX_APN_LEN \<or> int (length name) \<noteq> uint len
       then s\<lparr>mAPN := None, mAPNLen := 0\<rparr>
       else s\<lparr>mAPN := Some name, mAPNLen := len\<rparr>)"

section \<open>The virtual methods\<close>

record agps_vtable =
  v_request :: "bool \<Rightarrow> agps_sm \<Rightarrow> int \<times> agps_sm"
  v_notify :: "AgpsEvent \<Rightarrow> ptr \<Rightarrow> bool \<Rightarrow> agps_sm \<Rightarrow> agps_sm"

definition base_requestOrReleaseDataConn :: "bool \<Rightarrow> agps_sm \<Rightarrow> int \<times> agps_sm" where
  "base_requestOrReleaseDataConn request s = (0, emit (FrameworkStatus (mAgpsType s) request) s)"

definition base_notifyEventToSubscriber ::
    "agps_env \<Rightarrow> AgpsEvent \<Rightarrow> ptr \<Rightarrow> bool \<Rightarrow> agps_sm \<Rightarrow> agps_sm" where
  "base_notifyEventToSubscriber e event p del s =
     (let h = mConnHandle (objs s p);
          s1 = (case event of
             AGPS_EVENT_GRANTED \<Rightarrow> emit (AtlOpenStatus h 1 (mAPN s) (mBearer s) (mAgpsType s)) s
           | AGPS_EVENT_DENIED \<Rightarrow> emit (AtlOpenStatus h 0 (mAPN s) (mBearer s) (mAgpsType s)) s
           | AGPS_EVENT_UNSUBSCRIBE \<Rightarrow> emit (AtlCloseStatus h 1) s
           | AGPS_EVENT_RELEASED \<Rightarrow> emit (AtlCloseStatus h 1) s
           | _ \<Rightarrow> s)
      in if del then deleteSubscriber e p s1 else s1)"

definition base_vt :: "agps_env \<Rightarrow> agps_vtable" where
  "base_vt e = \<lparr>v_request = base_requestOrReleaseDataConn, v_notify = base_notifyEventToSubscriber e\<rparr>"

definition DS_notifyEventToSubscriber ::
    "agps_env \<Rightarrow> AgpsEvent \<Rightarrow> ptr \<Rightarrow> bool \<Rightarrow> agps_sm \<Rightarrow> agps_sm" where
  "DS_notifyEventToSubscriber e event p del s =
     (let h = mConnHandle (objs s p);
          s1 = (case event of
             AGPS_EVENT_GRANTED \<Rightarrow>
               emit (AtlOpenStatus h 1 None AGPS_APN_BEARER_INVALID LOC_AGPS_TYPE_SUPL_ES) s
           | AGPS_EVENT_DENIED \<Rightarrow> emit (SendRequestATL h LOC_AGPS_TYPE_SUPL) (s\<lparr>mRetries := 0\<rparr>)
           | AGPS_EVENT_UNSUBSCRIBE \<Rightarrow> emit (AtlCloseStatus h 1) s
           | AGPS_EVENT_RELEASED \<Rightarrow> emit (AtlCloseStatus h 1) (emit DSClientClose s)
           | _ \<Rightarrow> s)
      in if del then deleteSubscriber e p s1 else s1)"

text \<open>
  The start of an emergency data call. \<open>loc_timer_start\<close> returns the handle of the timer, and the code takes
  a handle for an error: it returns \<open>-1\<close> although the timer runs.
\<close>

definition DS_start_data_call ::
    "agps_env \<Rightarrow> (nat \<Rightarrow> int) \<Rightarrow> ptr \<Rightarrow> agps_sm \<Rightarrow> int \<times> agps_sm" where
  "DS_start_data_call e open_fn subscriber s0 =
     (let ret = open_fn (starts s0);
          s = (emit DSClientOpenAndStart s0)\<lparr>starts := starts s0 + 1\<rparr>
      in if ret = LOC_API_ADAPTER_ERR_ENGINE_BUSY then
           (let s = s\<lparr>mRetries := mRetries s + 1\<rparr>
            in if mRetries s > MAX_START_DATA_CALL_RETRIES
               then (ret, DS_notifyEventToSubscriber e AGPS_EVENT_DENIED subscriber False s)
               else if timer_handle e (starts s0) then (- 1, emit StartRetryTimer s)
               else (ret, s))
         else if ret = LOC_API_ADAPTER_ERR_UNSUPPORTED
         then (ret, DS_notifyEventToSubscriber e AGPS_EVENT_DENIED subscriber False s)
         else (ret, s))"

definition DS_requestOrReleaseDataConn :: "agps_env \<Rightarrow> bool \<Rightarrow> agps_sm \<Rightarrow> int \<times> agps_sm" where
  "DS_requestOrReleaseDataConn e request s =
     (if \<not> request \<and> ds_stop_registered e then (0, emit DSClientStop s)
      else (case getFirstSubscriber False s of
          None \<Rightarrow> (- 1, s)
        | Some subscriber \<Rightarrow> (case ds_open e of
            None \<Rightarrow> (- 1, DS_notifyEventToSubscriber e AGPS_EVENT_DENIED subscriber False s)
          | Some open_fn \<Rightarrow> DS_start_data_call e open_fn subscriber s)))"

definition ds_vt :: "agps_env \<Rightarrow> agps_vtable" where
  "ds_vt e = \<lparr>v_request = DS_requestOrReleaseDataConn e, v_notify = DS_notifyEventToSubscriber e\<rparr>"

section \<open>The state machine\<close>

definition wanted :: "AgpsNotificationType \<Rightarrow> AgpsSubscriber \<Rightarrow> bool" where
  "wanted ty x \<longleftrightarrow> ty = AGPS_NOTIFICATION_TYPE_FOR_ALL_SUBSCRIBERS
     \<or> ty = AGPS_NOTIFICATION_TYPE_FOR_INACTIVE_SUBSCRIBERS \<and> mIsInactive x
     \<or> ty = AGPS_NOTIFICATION_TYPE_FOR_ACTIVE_SUBSCRIBERS \<and> \<not> mIsInactive x"

text \<open>The loop of \<open>notifyAllSubscribers\<close>: \<open>kept\<close> is the list before the iterator.\<close>

fun notify_loop ::
    "agps_env \<Rightarrow> agps_vtable \<Rightarrow> AgpsEvent \<Rightarrow> bool \<Rightarrow> AgpsNotificationType \<Rightarrow> ptr list \<Rightarrow> ptr list
       \<Rightarrow> agps_sm \<Rightarrow> agps_sm" where
  "notify_loop e V event del ty kept [] s = s\<lparr>mSubscriberList := kept\<rparr>"
| "notify_loop e V event del ty kept (p # ps) s =
     (if wanted ty (objs s p) then
        (let s1 = v_notify V event p False s
         in if del
            then notify_loop e V event del ty kept ps
                   (s1\<lparr>mSubscriberList := kept @ ps, objs := (objs s1)(p := freed e (objs s1 p))\<rparr>)
            else notify_loop e V event del ty (kept @ [p]) ps s1)
      else notify_loop e V event del ty (kept @ [p]) ps s)"

definition notifyAllSubscribers ::
    "agps_env \<Rightarrow> agps_vtable \<Rightarrow> AgpsEvent \<Rightarrow> bool \<Rightarrow> AgpsNotificationType \<Rightarrow> agps_sm \<Rightarrow> agps_sm" where
  "notifyAllSubscribers e V event del ty s = notify_loop e V event del ty [] (mSubscriberList s) s"

definition transitionState :: "AgpsState \<Rightarrow> agps_sm \<Rightarrow> agps_sm" where
  "transitionState newState s = s\<lparr>mState := newState\<rparr>"

definition processAgpsEventSubscribe :: "agps_vtable \<Rightarrow> agps_sm \<Rightarrow> agps_sm" where
  "processAgpsEventSubscribe V s = (case mState s of
     AGPS_STATE_RELEASED \<Rightarrow>
       (case v_request V True (addSubscriber (mCurrentSubscriber s) s) of
          (rc, s1) \<Rightarrow> if rc = 0 then transitionState AGPS_STATE_PENDING s1 else s1)
   | AGPS_STATE_PENDING \<Rightarrow> addSubscriber (mCurrentSubscriber s) s
   | AGPS_STATE_ACQUIRED \<Rightarrow>
       addSubscriber (mCurrentSubscriber s)
         (v_notify V AGPS_EVENT_GRANTED (mCurrentSubscriber s) False s)
   | AGPS_STATE_RELEASING \<Rightarrow> addSubscriber (mCurrentSubscriber s) s
   | _ \<Rightarrow> s)"

text \<open>The part that the states share: wait for the close, or be notified and deleted.\<close>

definition leave_subscriber :: "agps_vtable \<Rightarrow> agps_sm \<Rightarrow> agps_sm" where
  "leave_subscriber V s =
     (let p = mCurrentSubscriber s
      in if mWaitForCloseComplete (objs s p)
         then s\<lparr>objs := (objs s)(p := (objs s p)\<lparr>mIsInactive := True\<rparr>)\<rparr>
         else v_notify V AGPS_EVENT_UNSUBSCRIBE p True s)"

definition processAgpsEventUnsubscribe :: "agps_vtable \<Rightarrow> agps_sm \<Rightarrow> agps_sm" where
  "processAgpsEventUnsubscribe V s =
     (if mState s = AGPS_STATE_RELEASED then
        v_notify V AGPS_EVENT_UNSUBSCRIBE (mCurrentSubscriber s) False s
      else if mState s = AGPS_STATE_PENDING \<or> mState s = AGPS_STATE_ACQUIRED then
        (let s1 = leave_subscriber V s
         in if mSubscriberList s1 = [] then
              snd (v_request V False (transitionState AGPS_STATE_RELEASED s1))
            else if \<not> anyActiveSubscribers s1 then
              snd (v_request V False (transitionState AGPS_STATE_RELEASING s1))
            else s1)
      else if mState s = AGPS_STATE_RELEASING then
        (let s1 = leave_subscriber V s
         in if mSubscriberList s1 = [] then transitionState AGPS_STATE_RELEASED s1 else s1)
      else s)"

definition processAgpsEventGranted :: "agps_env \<Rightarrow> agps_vtable \<Rightarrow> agps_sm \<Rightarrow> agps_sm" where
  "processAgpsEventGranted e V s =
     (if mState s = AGPS_STATE_PENDING then
        notifyAllSubscribers e V AGPS_EVENT_GRANTED False
          AGPS_NOTIFICATION_TYPE_FOR_ACTIVE_SUBSCRIBERS (transitionState AGPS_STATE_ACQUIRED s)
      else s)"

text \<open>The end of a release, the same for \<open>RELEASED\<close> and \<open>DENIED\<close>.\<close>

definition release_done :: "agps_env \<Rightarrow> agps_vtable \<Rightarrow> agps_sm \<Rightarrow> agps_sm" where
  "release_done e V s =
     (let s1 = notifyAllSubscribers e V AGPS_EVENT_RELEASED True
                 AGPS_NOTIFICATION_TYPE_FOR_INACTIVE_SUBSCRIBERS s
      in if anyActiveSubscribers s1
         then snd (v_request V True (transitionState AGPS_STATE_PENDING s1))
         else transitionState AGPS_STATE_RELEASED s1)"

definition processAgpsEventReleased :: "agps_env \<Rightarrow> agps_vtable \<Rightarrow> agps_sm \<Rightarrow> agps_sm" where
  "processAgpsEventReleased e V s = (case mState s of
     AGPS_STATE_ACQUIRED \<Rightarrow>
       notifyAllSubscribers e V AGPS_EVENT_RELEASED True
         AGPS_NOTIFICATION_TYPE_FOR_ALL_SUBSCRIBERS (transitionState AGPS_STATE_RELEASED s)
   | AGPS_STATE_RELEASING \<Rightarrow> release_done e V s
   | _ \<Rightarrow> s)"

definition processAgpsEventDenied :: "agps_env \<Rightarrow> agps_vtable \<Rightarrow> agps_sm \<Rightarrow> agps_sm" where
  "processAgpsEventDenied e V s = (case mState s of
     AGPS_STATE_RELEASING \<Rightarrow> release_done e V s
   | AGPS_STATE_PENDING \<Rightarrow>
       notifyAllSubscribers e V AGPS_EVENT_DENIED True
         AGPS_NOTIFICATION_TYPE_FOR_ALL_SUBSCRIBERS (transitionState AGPS_STATE_RELEASED s)
   | _ \<Rightarrow> s)"

definition processAgpsEvent :: "agps_env \<Rightarrow> agps_vtable \<Rightarrow> AgpsEvent \<Rightarrow> agps_sm \<Rightarrow> agps_sm" where
  "processAgpsEvent e V event s = (case event of
     AGPS_EVENT_SUBSCRIBE \<Rightarrow> processAgpsEventSubscribe V s
   | AGPS_EVENT_UNSUBSCRIBE \<Rightarrow> processAgpsEventUnsubscribe V s
   | AGPS_EVENT_GRANTED \<Rightarrow> processAgpsEventGranted e V s
   | AGPS_EVENT_RELEASED \<Rightarrow> processAgpsEventReleased e V s
   | AGPS_EVENT_DENIED \<Rightarrow> processAgpsEventDenied e V s
   | _ \<Rightarrow> s)"

definition DS_processAgpsEvent :: "agps_env \<Rightarrow> AgpsEvent \<Rightarrow> agps_sm \<Rightarrow> agps_sm" where
  "DS_processAgpsEvent e event s =
     processAgpsEvent e (ds_vt e)
       (if event = AGPS_EVENT_RELEASED \<and> mState s = AGPS_STATE_PENDING then AGPS_EVENT_DENIED else event) s"

definition retryCallback :: "agps_sm \<Rightarrow> agps_sm" where
  "retryCallback s = (case getFirstSubscriber False s of
     None \<Rightarrow> s
   | Some p \<Rightarrow> emit (SendRequestATL (mConnHandle (objs s p)) LOC_AGPS_TYPE_SUPL_ES) s)"

section \<open>The manager\<close>

datatype nif = Agnss | Internet | Ds

record agps_manager =
  mAgnssNif :: "agps_sm option"
  mInternetNif :: "agps_sm option"
  mDsNif :: "agps_sm option"
  mgr_out :: "agps_out list"

definition AgpsManager :: agps_manager where
  "AgpsManager = \<lparr>mAgnssNif = None, mInternetNif = None, mDsNif = None, mgr_out = []\<rparr>"

fun get_nif :: "nif \<Rightarrow> agps_manager \<Rightarrow> agps_sm option" where
  "get_nif Agnss m = mAgnssNif m"
| "get_nif Internet m = mInternetNif m"
| "get_nif Ds m = mDsNif m"

fun put_nif :: "nif \<Rightarrow> agps_sm \<Rightarrow> agps_manager \<Rightarrow> agps_manager" where
  "put_nif Agnss s m = m\<lparr>mAgnssNif := Some s\<rparr>"
| "put_nif Internet s m = m\<lparr>mInternetNif := Some s\<rparr>"
| "put_nif Ds s m = m\<lparr>mDsNif := Some s\<rparr>"

definition mgr_emit :: "agps_out \<Rightarrow> agps_manager \<Rightarrow> agps_manager" where
  "mgr_emit x m = m\<lparr>mgr_out := mgr_out m @ [x]\<rparr>"

text \<open>The dynamic dispatch, and a step of one machine: what it tells goes to the manager's history.\<close>

definition sm_process :: "agps_env \<Rightarrow> nif \<Rightarrow> AgpsEvent \<Rightarrow> agps_sm \<Rightarrow> agps_sm" where
  "sm_process e k event s =
     (if k = Ds then DS_processAgpsEvent e event s else processAgpsEvent e (base_vt e) event s)"

definition on_nif :: "nif \<Rightarrow> (agps_sm \<Rightarrow> agps_sm) \<Rightarrow> agps_manager \<Rightarrow> agps_manager" where
  "on_nif k f m = (case get_nif k m of
     None \<Rightarrow> m
   | Some s \<Rightarrow> (let s' = f (s\<lparr>out := []\<rparr>) in (put_nif k s' m)\<lparr>mgr_out := mgr_out m @ out s'\<rparr>))"

definition createAgpsStateMachines :: "agps_env \<Rightarrow> agps_manager \<Rightarrow> agps_manager" where
  "createAgpsStateMachines e m =
     (let m = (if mInternetNif m = None then put_nif Internet (AgpsStateMachine LOC_AGPS_TYPE_WWAN_ANY) m else m)
      in if agps_capable e then
           (let m = (if mAgnssNif m = None then put_nif Agnss (AgpsStateMachine LOC_AGPS_TYPE_SUPL) m else m)
            in if mDsNif m = None \<and> use_emergency_pdn e then
                 (case ds_init e of
                    None \<Rightarrow> m
                  | Some init_fn \<Rightarrow>
                      (let m = mgr_emit (DSClientInit False) m
                       in if init_fn False \<noteq> 0 then m else put_nif Ds DSStateMachine m))
               else m)
         else m)"

text \<open>The machine a type names, and the manager after it: the emergency machine is created on demand.\<close>

definition getAgpsStateMachine :: "agps_env \<Rightarrow> int \<Rightarrow> agps_manager \<Rightarrow> nif option \<times> agps_manager" where
  "getAgpsStateMachine e agpsType m =
     (let some = (\<lambda>k m. if get_nif k m = None then None else Some k)
      in if agpsType = LOC_AGPS_TYPE_INVALID \<or> agpsType = LOC_AGPS_TYPE_SUPL then (some Agnss m, m)
         else if agpsType = LOC_AGPS_TYPE_SUPL_ES then
           (if use_emergency_pdn e
            then (let m = (if mDsNif m = None then createAgpsStateMachines e m else m) in (some Ds m, m))
            else (some Agnss m, m))
         else (some Internet m, m))"

definition set_local :: "AgpsSubscriber \<Rightarrow> agps_sm \<Rightarrow> agps_sm" where
  "set_local x s = s\<lparr>objs := (objs s)(0 := x), mCurrentSubscriber := 0\<rparr>"

definition requestATL :: "agps_env \<Rightarrow> int \<Rightarrow> int \<Rightarrow> agps_manager \<Rightarrow> agps_manager" where
  "requestATL e connHandle agpsType m = (case getAgpsStateMachine e agpsType m of
     (None, m) \<Rightarrow> mgr_emit (AtlOpenStatus connHandle 0 None AGPS_APN_BEARER_INVALID agpsType) m
   | (Some k, m) \<Rightarrow> on_nif k (\<lambda>s. sm_process e k AGPS_EVENT_SUBSCRIBE
        (set_local \<lparr>mConnHandle = connHandle, mWaitForCloseComplete = (agpsType = LOC_AGPS_TYPE_SUPL_ES),
                    mIsInactive = False\<rparr> s)) m)"

definition look_nif :: "int \<Rightarrow> agps_manager \<Rightarrow> nif \<Rightarrow> (nif \<times> ptr) option" where
  "look_nif connHandle m k = (case get_nif k m of
     None \<Rightarrow> None
   | Some s \<Rightarrow> map_option (\<lambda>p. (k, p)) (getSubscriber connHandle s))"

definition find_nif :: "int \<Rightarrow> agps_manager \<Rightarrow> (nif \<times> ptr) option" where
  "find_nif connHandle m = (case look_nif connHandle m Agnss of
     Some x \<Rightarrow> Some x
   | None \<Rightarrow> (case look_nif connHandle m Internet of
       Some x \<Rightarrow> Some x
     | None \<Rightarrow> look_nif connHandle m Ds))"

definition releaseATL :: "agps_env \<Rightarrow> int \<Rightarrow> agps_manager \<Rightarrow> agps_manager" where
  "releaseATL e connHandle m = (case find_nif connHandle m of
     None \<Rightarrow> mgr_emit (AtlCloseStatus connHandle 0) m
   | Some (k, p) \<Rightarrow>
       on_nif k (\<lambda>s. sm_process e k AGPS_EVENT_UNSUBSCRIBE (s\<lparr>mCurrentSubscriber := p\<rparr>)) m)"

definition reportDataCallOpened :: "agps_env \<Rightarrow> agps_manager \<Rightarrow> agps_manager" where
  "reportDataCallOpened e m = on_nif Ds (sm_process e Ds AGPS_EVENT_GRANTED) m"

definition reportDataCallClosed :: "agps_env \<Rightarrow> agps_manager \<Rightarrow> agps_manager" where
  "reportDataCallClosed e m = on_nif Ds (sm_process e Ds AGPS_EVENT_RELEASED) m"

text \<open>The three reports use the machine without a null test: \<open>None\<close> is the crash.\<close>

definition reportAtlOpenSuccess ::
    "agps_env \<Rightarrow> int \<Rightarrow> string option \<Rightarrow> 32 word \<Rightarrow> int \<Rightarrow> agps_manager \<Rightarrow> agps_manager option" where
  "reportAtlOpenSuccess e agpsType apnName apnLen bearerType m =
     (case getAgpsStateMachine e agpsType m of
        (None, m) \<Rightarrow> None
      | (Some k, m) \<Rightarrow> Some (on_nif k (\<lambda>s. sm_process e k AGPS_EVENT_GRANTED
           (setAPN apnName apnLen (s\<lparr>mBearer := bearerType\<rparr>))) m))"

definition reportAtlOpenFailed :: "agps_env \<Rightarrow> int \<Rightarrow> agps_manager \<Rightarrow> agps_manager option" where
  "reportAtlOpenFailed e agpsType m = (case getAgpsStateMachine e agpsType m of
     (None, m) \<Rightarrow> None
   | (Some k, m) \<Rightarrow> Some (on_nif k (sm_process e k AGPS_EVENT_DENIED) m))"

definition reportAtlClosed :: "agps_env \<Rightarrow> int \<Rightarrow> agps_manager \<Rightarrow> agps_manager option" where
  "reportAtlClosed e agpsType m = (case getAgpsStateMachine e agpsType m of
     (None, m) \<Rightarrow> None
   | (Some k, m) \<Rightarrow> Some (on_nif k (sm_process e k AGPS_EVENT_RELEASED) m))"

definition handleModemSSR :: "agps_env \<Rightarrow> agps_manager \<Rightarrow> agps_manager" where
  "handleModemSSR e m =
     (let drop = (\<lambda>k. on_nif k (dropAllSubscribers e));
          m = drop Ds (drop Internet (drop Agnss m))
      in if use_emergency_pdn e
         then fold mgr_emit [DSClientStop, DSClientClose, DSClientRelease, DSClientInit True] m
         else m)"

text \<open>The retry timer's callback.\<close>

definition delay_callback :: "agps_manager \<Rightarrow> agps_manager" where
  "delay_callback m = on_nif Ds retryCallback m"

end
