(* ===== verification/AgpsProps.thy ===== *)
theory AgpsProps
  imports Agps
begin

text \<open>
  What the assisted-GPS machines guarantee. The interface that the base machine needs of its virtual methods is the
  locale \<open>agps_virtual\<close>, interpreted on the methods of both machines; the invariant is proved once inside it.
\<close>

section \<open>The invariant\<close>

definition handles :: "agps_sm \<Rightarrow> int list" where
  "handles s = map (\<lambda>p. mConnHandle (objs s p)) (mSubscriberList s)"

text \<open>The list points to different, allocated objects with different handles.\<close>

definition list_ok :: "agps_sm \<Rightarrow> bool" where
  "list_ok s \<longleftrightarrow> distinct (mSubscriberList s) \<and> distinct (handles s)
     \<and> list_all (\<lambda>p. 0 < p \<and> p < next_obj s) (mSubscriberList s) \<and> 0 < next_obj s"

definition retries_ok :: "agps_sm \<Rightarrow> bool" where
  "retries_ok s \<longleftrightarrow> 0 \<le> mRetries s \<and> mRetries s \<le> MAX_START_DATA_CALL_RETRIES"

text \<open>A connection is held for someone; \<open>tidy\<close> adds that a released machine has no subscriber.\<close>

definition state_ok :: "bool \<Rightarrow> agps_sm \<Rightarrow> bool" where
  "state_ok tidy s \<longleftrightarrow> (case mState s of
     AGPS_STATE_RELEASED \<Rightarrow> tidy \<longrightarrow> mSubscriberList s = []
   | AGPS_STATE_PENDING \<Rightarrow> anyActiveSubscribers s
   | AGPS_STATE_ACQUIRED \<Rightarrow> anyActiveSubscribers s
   | AGPS_STATE_RELEASING \<Rightarrow> mSubscriberList s \<noteq> []
   | AGPS_STATE_INVALID \<Rightarrow> False)"

definition sm_ok :: "bool \<Rightarrow> agps_sm \<Rightarrow> bool" where
  "sm_ok tidy s \<longleftrightarrow> list_ok s \<and> retries_ok s \<and> state_ok tidy s"

text \<open>What the manager passes with an event: the caller's new subscriber, or one of the list.\<close>

definition input_ok :: "AgpsEvent \<Rightarrow> agps_sm \<Rightarrow> bool" where
  "input_ok event s \<longleftrightarrow>
     (event = AGPS_EVENT_SUBSCRIBE \<longrightarrow> mCurrentSubscriber s = 0 \<and> \<not> mIsInactive (objs s 0))
     \<and> (event = AGPS_EVENT_UNSUBSCRIBE \<longrightarrow> mCurrentSubscriber s \<in> set (mSubscriberList s))"

text \<open>A freed subscriber's memory keeps its handle until it is reused.\<close>

definition benign :: "agps_env \<Rightarrow> bool" where
  "benign e \<longleftrightarrow> (\<forall>x. mConnHandle (freed e x) = mConnHandle x)"

section \<open>The list operations\<close>

text \<open>Everything the subscriber list and the state are made of.\<close>

definition same_list :: "agps_sm \<Rightarrow> agps_sm \<Rightarrow> bool" where
  "same_list s' s \<longleftrightarrow> objs s' = objs s \<and> next_obj s' = next_obj s \<and> mSubscriberList s' = mSubscriberList s
     \<and> mCurrentSubscriber s' = mCurrentSubscriber s \<and> mState s' = mState s"

lemma same_list_refl [simp]: "same_list s s"
  by (simp add: same_list_def)

lemma same_list_emit [simp]: "same_list (emit x s') s = same_list s' s"
  by (simp add: same_list_def emit_def)

lemma same_list_retries [simp]:
  "same_list (s'\<lparr>mRetries := n\<rparr>) s = same_list s' s" "same_list (s'\<lparr>starts := k\<rparr>) s = same_list s' s"
  by (simp_all add: same_list_def)

lemma retries_emit [simp]: "retries_ok (emit x s) = retries_ok s"
  by (simp add: retries_ok_def emit_def)

lemma same_list_trans: "same_list a b \<Longrightarrow> same_list b c \<Longrightarrow> same_list a c"
  by (simp add: same_list_def)

lemma same_list_ok:
  "same_list s' s \<Longrightarrow> list_ok s' = list_ok s" "same_list s' s \<Longrightarrow> state_ok tidy s' = state_ok tidy s"
  "same_list s' s \<Longrightarrow> anyActiveSubscribers s' = anyActiveSubscribers s"
  "same_list s' s \<Longrightarrow> handles s' = handles s"
  by (auto simp: same_list_def list_ok_def handles_def state_ok_def anyActiveSubscribers_def
      split: AgpsState.splits)

lemma delete_loop_filter:
  assumes "benign e"
  shows "delete_loop e p l m = (l', m') \<Longrightarrow>
     l' = filter (\<lambda>q. mConnHandle (m q) \<noteq> mConnHandle (m p)) l
     \<and> (\<forall>q. mConnHandle (m' q) = mConnHandle (m q))
     \<and> (\<forall>q. mConnHandle (m q) \<noteq> mConnHandle (m p) \<longrightarrow> m' q = m q)"
proof (induction l arbitrary: m l' m')
  case Nil
  then show ?case by simp
next
  case (Cons q qs)
  have f: "mConnHandle (freed e x) = mConnHandle x" for x
    using assms by (simp add: benign_def)
  have h: "(\<lambda>r. mConnHandle ((m(q := freed e (m q))) r)) = (\<lambda>r. mConnHandle (m r))"
    by (auto simp: f)
  then have h': "mConnHandle ((m(q := freed e (m q))) r) = mConnHandle (m r)" for r
    by (rule fun_cong)
  show ?case
  proof (cases "equals (m q) (m p)")
    case True
    with Cons.prems have "delete_loop e p qs (m(q := freed e (m q))) = (l', m')" by simp
    from Cons.IH [OF this] True show ?thesis
      by (auto simp: h' equals_def simp del: fun_upd_apply) (auto simp: equals_def)
  next
    case False
    then obtain r where "delete_loop e p qs m = (r, m')" "l' = q # r"
      using Cons.prems by (auto split: prod.splits)
    with Cons.IH False show ?thesis by (auto simp: equals_def)
  qed
qed

lemma deleteSubscriber_effect:
  assumes "benign e"
  shows "mSubscriberList (deleteSubscriber e p s)
      = filter (\<lambda>q. mConnHandle (objs s q) \<noteq> mConnHandle (objs s p)) (mSubscriberList s)"
    and "mConnHandle (objs (deleteSubscriber e p s) q) = mConnHandle (objs s q)"
    and "mConnHandle (objs s q) \<noteq> mConnHandle (objs s p) \<Longrightarrow> objs (deleteSubscriber e p s) q = objs s q"
    and "next_obj (deleteSubscriber e p s) = next_obj s"
    and "mState (deleteSubscriber e p s) = mState s"
    and "mRetries (deleteSubscriber e p s) = mRetries s"
    and "out (deleteSubscriber e p s) = out s"
    and "mAgpsType (deleteSubscriber e p s) = mAgpsType s"
proof -
  obtain l m where d: "delete_loop e p (mSubscriberList s) (objs s) = (l, m)" by fastforce
  note delete_loop_filter [OF assms d]
  with d show "mSubscriberList (deleteSubscriber e p s)
      = filter (\<lambda>q. mConnHandle (objs s q) \<noteq> mConnHandle (objs s p)) (mSubscriberList s)"
    "mConnHandle (objs (deleteSubscriber e p s) q) = mConnHandle (objs s q)"
    "mConnHandle (objs s q) \<noteq> mConnHandle (objs s p) \<Longrightarrow> objs (deleteSubscriber e p s) q = objs s q"
    "next_obj (deleteSubscriber e p s) = next_obj s" "mState (deleteSubscriber e p s) = mState s"
    "mRetries (deleteSubscriber e p s) = mRetries s" "out (deleteSubscriber e p s) = out s"
    "mAgpsType (deleteSubscriber e p s) = mAgpsType s"
    by (simp_all add: deleteSubscriber_def)
qed

lemma handles_delete:
  "benign e \<Longrightarrow> handles (deleteSubscriber e p s) = filter (\<lambda>h. h \<noteq> mConnHandle (objs s p)) (handles s)"
  by (simp add: handles_def deleteSubscriber_effect filter_map comp_def)

lemma list_ok_delete: "benign e \<Longrightarrow> list_ok s \<Longrightarrow> list_ok (deleteSubscriber e p s)"
  unfolding list_ok_def handles_delete
  by (auto simp: deleteSubscriber_effect list_all_iff)

lemma addSubscriber_handles:
  "handles (addSubscriber p s) =
     (if mConnHandle (objs s p) \<in> set (handles s) then handles s else handles s @ [mConnHandle (objs s p)])"
  if "list_ok s"
  using that
  by (auto simp: addSubscriber_def handles_def list_ok_def equals_def list_ex_iff list_all_iff
      image_iff) metis

lemma addSubscriber_ok:
  assumes "list_ok s"
  shows "list_ok (addSubscriber p s)" and "anyActiveSubscribers s \<Longrightarrow> anyActiveSubscribers (addSubscriber p s)"
    and "mSubscriberList (addSubscriber p s) \<noteq> []"
    and "mSubscriberList s = [] \<Longrightarrow> \<not> mIsInactive (objs s p) \<Longrightarrow> anyActiveSubscribers (addSubscriber p s)"
    and "mState (addSubscriber p s) = mState s" and "mRetries (addSubscriber p s) = mRetries s"
    and "mAgpsType (addSubscriber p s) = mAgpsType s" and "out (addSubscriber p s) = out s"
  using assms addSubscriber_handles [OF assms, of p]
  by (auto simp: addSubscriber_def list_ok_def list_all_iff list_ex_iff anyActiveSubscribers_def
      handles_def equals_def less_Suc_eq_le image_iff order_less_imp_le split: if_splits)

section \<open>The interface of the virtual methods\<close>

text \<open>
  The base machine's methods need this of the methods that a subclass may override: they leave the list and the
  state alone, deletion after a notification is the base's, and a started connection has someone active to serve
  (or the machine is tidy, where the request always succeeds).
\<close>

locale agps_virtual =
  fixes e :: agps_env and V :: agps_vtable and tidy :: bool
  assumes request_same: "same_list (snd (v_request V b s)) s"
    and request_retries: "retries_ok s \<Longrightarrow> retries_ok (snd (v_request V b s))"
    and notify_same: "same_list (v_notify V event p False s) s"
    and notify_retries: "retries_ok s \<Longrightarrow> retries_ok (v_notify V event p False s)"
    and notify_delete: "v_notify V event p True s = deleteSubscriber e p (v_notify V event p False s)"
    and request_active: "fst (v_request V True s) = 0 \<Longrightarrow> \<not> tidy \<Longrightarrow> anyActiveSubscribers s"
    and request_succeeds: "tidy \<Longrightarrow> fst (v_request V True s) = 0"

context agps_virtual
begin

text \<open>The notification loop keeps what it does not delete, and deletes what it was asked to.\<close>

lemma notify_loop_effect:
  "distinct (kept @ l) \<Longrightarrow> retries_ok s \<Longrightarrow> s' = notify_loop e V event del ty kept l s \<Longrightarrow>
   mSubscriberList s' = kept @ (if del then filter (\<lambda>p. \<not> wanted ty (objs s p)) l else l)
   \<and> (\<forall>q. q \<notin> set l \<or> \<not> del \<or> \<not> wanted ty (objs s q) \<longrightarrow> objs s' q = objs s q)
   \<and> mState s' = mState s \<and> next_obj s' = next_obj s \<and> retries_ok s'"
proof (induction l arbitrary: kept s)
  case Nil
  then show ?case by (simp add: retries_ok_def)
next
  case (Cons p ps)
  let ?s1 = "v_notify V event p False s"
  let ?d = "?s1\<lparr>mSubscriberList := kept @ ps, objs := (objs ?s1)(p := freed e (objs ?s1 p))\<rparr>"
  have s1: "objs ?s1 = objs s" "mState ?s1 = mState s" "next_obj ?s1 = next_obj s" "retries_ok ?s1"
    using notify_same [of event p s] notify_retries [OF Cons.prems(2)] by (simp_all add: same_list_def)
  have p: "p \<notin> set kept" "p \<notin> set ps" using Cons.prems(1) by simp_all
  consider (skip) "\<not> wanted ty (objs s p)" | (keep) "wanted ty (objs s p)" "\<not> del"
    | (drop) "wanted ty (objs s p)" del by blast
  then show ?case
  proof cases
    case skip
    with Cons.IH [of "kept @ [p]" s] Cons.prems show ?thesis by auto
  next
    case keep
    with Cons.IH [of "kept @ [p]" ?s1] Cons.prems s1 show ?thesis by auto
  next
    case drop
    have "retries_ok ?d" using s1(4) by (simp add: retries_ok_def)
    moreover have "s' = notify_loop e V event del ty kept ps ?d"
      using drop Cons.prems(3) by (simp add: Let_def)
    moreover have "filter (\<lambda>q. \<not> wanted ty (objs ?d q)) ps = filter (\<lambda>q. \<not> wanted ty (objs s q)) ps"
      using p s1 by (intro filter_cong) auto
    ultimately show ?thesis
      using Cons.IH [of kept ?d] Cons.prems(1) drop p s1 by auto
  qed
qed

lemma notifyAll_effect:
  assumes "list_ok s" and "retries_ok s" and "s' = notifyAllSubscribers e V event del ty s"
  shows "mSubscriberList s' = (if del then filter (\<lambda>p. \<not> wanted ty (objs s p)) (mSubscriberList s)
      else mSubscriberList s)"
    and "q \<in> set (mSubscriberList s') \<Longrightarrow> objs s' q = objs s q"
    and "mState s' = mState s" and "next_obj s' = next_obj s" and "retries_ok s'" and "list_ok s'"
proof -
  have d: "distinct ([] @ mSubscriberList s)" using assms(1) by (simp add: list_ok_def)
  note eff = notify_loop_effect [OF d assms(2), of s' event del ty,
      OF assms(3) [unfolded notifyAllSubscribers_def]]
  show l: "mSubscriberList s' = (if del then filter (\<lambda>p. \<not> wanted ty (objs s p)) (mSubscriberList s)
      else mSubscriberList s)"
    and "mState s' = mState s" and n: "next_obj s' = next_obj s" and "retries_ok s'"
    using eff by simp_all
  show o: "objs s' q = objs s q" if "q \<in> set (mSubscriberList s')" for q
    using eff l that by (cases del) auto
  have "handles s' = map (\<lambda>p. mConnHandle (objs s p)) (mSubscriberList s')"
    using o by (simp add: handles_def)
  then have "distinct (handles s')"
    unfolding \<open>handles s' = _\<close> using assms(1) by (simp add: l list_ok_def handles_def distinct_map_filter)
  with assms(1) n l show "list_ok s'"
    by (auto simp: list_ok_def list_all_iff)
qed

lemma leave_effect:
  assumes "benign e" and "sm_ok tidy s" and "s' = leave_subscriber V s"
  shows "list_ok s'" and "retries_ok s'" and "mState s' = mState s"
proof -
  let ?p = "mCurrentSubscriber s"
  let ?n = "v_notify V AGPS_EVENT_UNSUBSCRIBE ?p False s"
  have n: "list_ok ?n" "retries_ok ?n" "mState ?n = mState s"
    using notify_same [of AGPS_EVENT_UNSUBSCRIBE ?p s] notify_retries [of s] assms(2)
    by (simp_all add: same_list_ok sm_ok_def) (simp add: same_list_def)
  have h: "mConnHandle ((if q = ?p then (objs s ?p)\<lparr>mIsInactive := True\<rparr> else objs s q))
      = mConnHandle (objs s q)" for q
    by simp
  show "list_ok s'" "retries_ok s'" "mState s' = mState s"
    using assms n list_ok_delete [OF assms(1) n(1), of ?p]
    by (auto simp: leave_subscriber_def Let_def notify_delete sm_ok_def list_ok_def handles_def h
        retries_ok_def deleteSubscriber_effect [OF assms(1)] cong: if_cong)
qed

lemma request_ok:
  "list_ok s \<Longrightarrow> retries_ok s \<Longrightarrow> state_ok tidy s \<Longrightarrow> sm_ok tidy (snd (v_request V b s))"
  using request_same [of b s] request_retries [of s b] by (simp add: sm_ok_def same_list_ok)

lemma subscribe_ok:
  assumes "sm_ok tidy s" and "input_ok AGPS_EVENT_SUBSCRIBE s"
  shows "sm_ok tidy (processAgpsEventSubscribe V s)"
proof -
  let ?p = "mCurrentSubscriber s"
  let ?a = "addSubscriber ?p s"
  have s: "list_ok s" "retries_ok s" "state_ok tidy s" "\<not> mIsInactive (objs s ?p)"
    using assms by (simp_all add: sm_ok_def input_ok_def)
  note a = addSubscriber_ok [OF s(1), of ?p]
  have r: "retries_ok ?a" using a s by (simp add: retries_ok_def)
  show ?thesis
  proof (cases "mState s")
    case AGPS_STATE_RELEASED
    obtain rc s1 where q: "v_request V True ?a = (rc, s1)" by fastforce
    then have s1: "same_list s1 ?a" "retries_ok s1"
      using request_same [of True ?a] request_retries [OF r, of True] by simp_all
    have act: "anyActiveSubscribers s1" if "rc = 0"
      using that q request_active [of ?a] s AGPS_STATE_RELEASED a same_list_ok(3) [OF s1(1)]
      by (cases tidy) (simp_all add: state_ok_def)
    have l: "list_ok s1" using s1 a same_list_ok(1) by blast
    have "mState s1 = AGPS_STATE_RELEASED" using s1 a AGPS_STATE_RELEASED by (simp add: same_list_def)
    moreover have "rc = 0" if tidy using that q request_succeeds [of ?a] by simp
    ultimately show ?thesis
      using AGPS_STATE_RELEASED q l s1(2) act
      by (auto simp: processAgpsEventSubscribe_def transitionState_def sm_ok_def list_ok_def handles_def
          retries_ok_def state_ok_def anyActiveSubscribers_def)
  next
    case AGPS_STATE_ACQUIRED
    let ?n = "v_notify V AGPS_EVENT_GRANTED ?p False s"
    have n: "same_list ?n s" "retries_ok ?n" "list_ok ?n"
      using notify_same notify_retries [OF s(2)] s(1) same_list_ok(1) by blast+
    note a' = addSubscriber_ok [OF n(3), of ?p]
    have "anyActiveSubscribers ?n" using s AGPS_STATE_ACQUIRED n(1) by (simp add: same_list_ok state_ok_def)
    moreover have "mState ?n = AGPS_STATE_ACQUIRED" using n(1) AGPS_STATE_ACQUIRED by (simp add: same_list_def)
    ultimately show ?thesis
      using a' AGPS_STATE_ACQUIRED n by (simp add: processAgpsEventSubscribe_def sm_ok_def retries_ok_def state_ok_def)
  qed (use s a r in \<open>simp_all add: processAgpsEventSubscribe_def sm_ok_def state_ok_def\<close>)
qed

lemma unsubscribe_ok:
  assumes "benign e" and "sm_ok tidy s" and "input_ok AGPS_EVENT_UNSUBSCRIBE s"
  shows "sm_ok tidy (processAgpsEventUnsubscribe V s)"
proof -
  let ?l = "leave_subscriber V s"
  have s: "list_ok s" "retries_ok s" "state_ok tidy s" "mSubscriberList s \<noteq> []"
    using assms(2,3) by (auto simp: sm_ok_def input_ok_def)
  note l = leave_effect [OF assms(1,2) refl]
  have moved: "list_ok (transitionState st ?l)" "retries_ok (transitionState st ?l)" for st
    using l by (simp_all add: transitionState_def list_ok_def handles_def retries_ok_def)
  have released: "sm_ok tidy (snd (v_request V False (transitionState AGPS_STATE_RELEASED ?l)))"
      "sm_ok tidy (transitionState AGPS_STATE_RELEASED ?l)" if "mSubscriberList ?l = []"
  proof -
    have "state_ok tidy (transitionState AGPS_STATE_RELEASED ?l)"
      using that by (simp add: state_ok_def transitionState_def)
    with moved show "sm_ok tidy (snd (v_request V False (transitionState AGPS_STATE_RELEASED ?l)))"
      "sm_ok tidy (transitionState AGPS_STATE_RELEASED ?l)"
      by (simp_all add: request_ok) (simp add: sm_ok_def)
  qed
  have releasing: "sm_ok tidy (snd (v_request V False (transitionState AGPS_STATE_RELEASING ?l)))"
    if "mSubscriberList ?l \<noteq> []"
    using that moved by (intro request_ok) (simp_all add: state_ok_def transitionState_def)
  show ?thesis
  proof (cases "mState s")
    case AGPS_STATE_RELEASED
    then show ?thesis
      using s notify_same [of AGPS_EVENT_UNSUBSCRIBE "mCurrentSubscriber s" s]
        notify_retries [OF s(2), of AGPS_EVENT_UNSUBSCRIBE "mCurrentSubscriber s"]
      by (simp add: processAgpsEventUnsubscribe_def sm_ok_def same_list_ok)
  next
    case AGPS_STATE_RELEASING
    then have "sm_ok tidy ?l" if "mSubscriberList ?l \<noteq> []"
      using that l by (simp add: sm_ok_def state_ok_def)
    with AGPS_STATE_RELEASING released(2) show ?thesis
      by (simp add: processAgpsEventUnsubscribe_def Let_def)
  next
    case AGPS_STATE_INVALID
    with s show ?thesis by (simp add: state_ok_def)
  next
    case AGPS_STATE_PENDING
    then have "sm_ok tidy ?l" if "anyActiveSubscribers ?l"
      using that l by (simp add: sm_ok_def state_ok_def)
    with AGPS_STATE_PENDING released(1) releasing show ?thesis
      by (simp add: processAgpsEventUnsubscribe_def Let_def)
  next
    case AGPS_STATE_ACQUIRED
    then have "sm_ok tidy ?l" if "anyActiveSubscribers ?l"
      using that l by (simp add: sm_ok_def state_ok_def)
    with AGPS_STATE_ACQUIRED released(1) releasing show ?thesis
      by (simp add: processAgpsEventUnsubscribe_def Let_def)
  qed
qed

lemma active_after_notify:
  assumes "list_ok s" and "retries_ok s" and "s' = notifyAllSubscribers e V event False ty s"
  shows "anyActiveSubscribers s' = anyActiveSubscribers s"
  using notifyAll_effect [OF assms] by (simp add: anyActiveSubscribers_def list_ex_iff)

lemma granted_ok: "sm_ok tidy s \<Longrightarrow> sm_ok tidy (processAgpsEventGranted e V s)"
proof -
  assume s: "sm_ok tidy s"
  let ?t = "transitionState AGPS_STATE_ACQUIRED s"
  have t: "list_ok ?t" "retries_ok ?t"
    using s by (simp_all add: sm_ok_def transitionState_def list_ok_def handles_def retries_ok_def)
  show ?thesis
  proof (cases "mState s = AGPS_STATE_PENDING")
    case True
    then have "anyActiveSubscribers ?t"
      using s by (simp add: sm_ok_def state_ok_def transitionState_def anyActiveSubscribers_def)
    with True notifyAll_effect(3,5,6) [OF t refl, of AGPS_EVENT_GRANTED False AGPS_NOTIFICATION_TYPE_FOR_ACTIVE_SUBSCRIBERS]
      active_after_notify [OF t refl] show ?thesis
      by (simp add: processAgpsEventGranted_def sm_ok_def state_ok_def transitionState_def)
  next
    case False
    with s show ?thesis by (simp add: processAgpsEventGranted_def)
  qed
qed

lemma release_done_ok: "sm_ok tidy s \<Longrightarrow> sm_ok tidy (release_done e V s)"
proof -
  assume s: "sm_ok tidy s"
  define s1 where "s1 = notifyAllSubscribers e V AGPS_EVENT_RELEASED True
    AGPS_NOTIFICATION_TYPE_FOR_INACTIVE_SUBSCRIBERS s"
  note n = notifyAll_effect [OF _ _ s1_def]
  have s1: "list_ok s1" "retries_ok s1" using n s by (simp_all add: sm_ok_def)
  have moved: "list_ok (transitionState st s1)" "retries_ok (transitionState st s1)" for st
    using s1 by (simp_all add: transitionState_def list_ok_def handles_def retries_ok_def)
  have active: "mSubscriberList s1 = []" if "\<not> anyActiveSubscribers s1"
    using that n(1,2) s
    by (auto simp: anyActiveSubscribers_def list_ex_iff wanted_def sm_ok_def filter_empty_conv)
  show ?thesis
  proof (cases "anyActiveSubscribers s1")
    case True
    then have "state_ok tidy (transitionState AGPS_STATE_PENDING s1)"
      by (simp add: state_ok_def transitionState_def anyActiveSubscribers_def)
    with True moved show ?thesis by (simp add: release_done_def s1_def [symmetric] request_ok)
  next
    case False
    with active moved show ?thesis
      by (simp add: release_done_def s1_def [symmetric] sm_ok_def state_ok_def transitionState_def)
  qed
qed

text \<open>When everybody is notified and deleted, the released machine is empty.\<close>

lemma drop_all_ok:
  assumes "sm_ok tidy s" and
    "s' = notifyAllSubscribers e V event True AGPS_NOTIFICATION_TYPE_FOR_ALL_SUBSCRIBERS
      (transitionState AGPS_STATE_RELEASED s)"
  shows "sm_ok tidy s'"
proof -
  have t: "list_ok (transitionState AGPS_STATE_RELEASED s)" "retries_ok (transitionState AGPS_STATE_RELEASED s)"
    using assms(1) by (simp_all add: sm_ok_def transitionState_def list_ok_def handles_def retries_ok_def)
  from notifyAll_effect [OF t assms(2)] show ?thesis
    by (simp add: sm_ok_def state_ok_def wanted_def transitionState_def)
qed

lemma released_ok: "sm_ok tidy s \<Longrightarrow> sm_ok tidy (processAgpsEventReleased e V s)"
  using release_done_ok [of s] drop_all_ok [OF _ refl, of s]
  by (auto simp: processAgpsEventReleased_def split: AgpsState.splits)

lemma denied_ok: "sm_ok tidy s \<Longrightarrow> sm_ok tidy (processAgpsEventDenied e V s)"
  using release_done_ok [of s] drop_all_ok [OF _ refl, of s]
  by (auto simp: processAgpsEventDenied_def split: AgpsState.splits)

theorem process_ok:
  "benign e \<Longrightarrow> sm_ok tidy s \<Longrightarrow> input_ok event s \<Longrightarrow> sm_ok tidy (processAgpsEvent e V event s)"
  by (cases event) (simp_all add: processAgpsEvent_def subscribe_ok unsubscribe_ok granted_ok released_ok denied_ok)

end

section \<open>The two machines\<close>

lemma same_list_delete_notify:
  "base_notifyEventToSubscriber e event p True s =
     deleteSubscriber e p (base_notifyEventToSubscriber e event p False s)"
  "DS_notifyEventToSubscriber e event p True s =
     deleteSubscriber e p (DS_notifyEventToSubscriber e event p False s)"
  by (simp_all add: base_notifyEventToSubscriber_def DS_notifyEventToSubscriber_def Let_def)

lemma base_notify_frame:
  "same_list (base_notifyEventToSubscriber e event p False s) s"
  "mRetries (base_notifyEventToSubscriber e event p False s) = mRetries s"
  by (cases event; simp add: base_notifyEventToSubscriber_def emit_def same_list_def Let_def)+

lemma DS_notify_frame:
  "same_list (DS_notifyEventToSubscriber e event p False s) s"
  "retries_ok s \<Longrightarrow> retries_ok (DS_notifyEventToSubscriber e event p False s)"
  "mRetries (DS_notifyEventToSubscriber e AGPS_EVENT_DENIED p False s) = 0"
  by (cases event; simp add: DS_notifyEventToSubscriber_def emit_def same_list_def retries_ok_def
      agps_consts Let_def)+

lemma DS_start_frame:
  "same_list (snd (DS_start_data_call e f p s)) s"
  "retries_ok s \<Longrightarrow> retries_ok (snd (DS_start_data_call e f p s))"
proof -
  show "same_list (snd (DS_start_data_call e f p s)) s"
    using same_list_trans [OF DS_notify_frame(1)] by (simp add: DS_start_data_call_def Let_def)
  show "retries_ok s \<Longrightarrow> retries_ok (snd (DS_start_data_call e f p s))"
    using DS_notify_frame(3) by (auto simp: DS_start_data_call_def Let_def retries_ok_def emit_def agps_consts)
qed

lemma getFirst_active: "getFirstSubscriber False s = Some p \<Longrightarrow> anyActiveSubscribers s"
  by (auto simp: getFirstSubscriber_def find_Some_iff anyActiveSubscribers_def list_ex_iff)

lemma DS_request_frame:
  "same_list (snd (DS_requestOrReleaseDataConn e b s)) s"
  "retries_ok s \<Longrightarrow> retries_ok (snd (DS_requestOrReleaseDataConn e b s))"
  "fst (DS_requestOrReleaseDataConn e True s) = 0 \<Longrightarrow> anyActiveSubscribers s"
  by (auto simp: DS_requestOrReleaseDataConn_def DS_start_frame DS_notify_frame
      split: option.splits dest: getFirst_active)

interpretation base: agps_virtual e "base_vt e" True for e
  by unfold_locales
    (simp_all add: base_vt_def base_requestOrReleaseDataConn_def base_notify_frame same_list_delete_notify
      retries_ok_def, simp add: emit_def)

interpretation ds: agps_virtual e "ds_vt e" False for e
  by unfold_locales (simp_all add: ds_vt_def DS_request_frame DS_notify_frame same_list_delete_notify)

section \<open>The manager\<close>

definition mgr_ok :: "agps_manager \<Rightarrow> bool" where
  "mgr_ok m \<longleftrightarrow> (\<forall>k s. get_nif k m = Some s \<longrightarrow> sm_ok (k \<noteq> Ds) s)"

lemma get_put [simp]: "get_nif k (put_nif k' s m) = (if k = k' then Some s else get_nif k m)"
  by (cases k; cases k') simp_all

lemma get_out [simp]: "get_nif k (m\<lparr>mgr_out := x\<rparr>) = get_nif k m" "get_nif k (mgr_emit y m) = get_nif k m"
  by (cases k; simp add: mgr_emit_def)+

lemma mgr_ok_emit [simp]: "mgr_ok (mgr_emit x m) = mgr_ok m" "mgr_ok (m\<lparr>mgr_out := xs\<rparr>) = mgr_ok m"
  by (simp_all add: mgr_ok_def)

text \<open>The fields the invariant does not look at.\<close>

lemma sm_ok_fields [simp]:
  "sm_ok t (s\<lparr>out := xs\<rparr>) = sm_ok t s" "sm_ok t (s\<lparr>mBearer := b\<rparr>) = sm_ok t s"
  "sm_ok t (s\<lparr>mCurrentSubscriber := p\<rparr>) = sm_ok t s" "sm_ok t (s\<lparr>mAPN := a, mAPNLen := n\<rparr>) = sm_ok t s"
  by (cases "mState s"; simp add: sm_ok_def list_ok_def retries_ok_def state_ok_def handles_def
      anyActiveSubscribers_def)+

lemma sm_ok_setAPN [simp]: "sm_ok t (setAPN apn len s) = sm_ok t s"
  by (simp add: setAPN_def split: option.split)

lemma sm_ok_new [simp]: "sm_ok t (AgpsStateMachine ty)" "sm_ok t DSStateMachine"
  by (simp_all add: sm_ok_def list_ok_def retries_ok_def state_ok_def handles_def AgpsStateMachine_def
      DSStateMachine_def agps_consts)

lemma set_local_same:
  assumes "list_ok s"
  shows "handles (set_local x s) = handles s" "anyActiveSubscribers (set_local x s) = anyActiveSubscribers s"
    "list_ok (set_local x s)"
proof -
  have o: "objs (set_local x s) p = objs s p" if "p \<in> set (mSubscriberList s)" for p
    using that assms by (auto simp: set_local_def list_ok_def list_all_iff)
  then show h: "handles (set_local x s) = handles s" "anyActiveSubscribers (set_local x s) = anyActiveSubscribers s"
    by (auto simp: handles_def anyActiveSubscribers_def set_local_def list_ex_iff)
  show "list_ok (set_local x s)"
    using assms unfolding list_ok_def h by (simp add: set_local_def)
qed

lemma sm_ok_set_local:
  assumes "sm_ok t s"
  shows "sm_ok t (set_local x s)"
proof -
  have "list_ok s" using assms by (simp add: sm_ok_def)
  from set_local_same [OF this, of x] assms show ?thesis
    by (cases "mState s") (simp_all add: sm_ok_def state_ok_def retries_ok_def, simp_all add: set_local_def)
qed

lemma sm_process_ok:
  "benign e \<Longrightarrow> sm_ok (k \<noteq> Ds) s \<Longrightarrow> input_ok event s \<Longrightarrow> sm_ok (k \<noteq> Ds) (sm_process e k event s)"
  using base.process_ok [of e s event] ds.process_ok [of e s event] ds.process_ok [of e s AGPS_EVENT_DENIED]
  by (cases k) (auto simp: sm_process_def DS_processAgpsEvent_def input_ok_def)

lemma on_nif_ok:
  "mgr_ok m \<Longrightarrow> (\<And>s. get_nif k m = Some s \<Longrightarrow> sm_ok (k \<noteq> Ds) s \<Longrightarrow> sm_ok (k \<noteq> Ds) (f (s\<lparr>out := []\<rparr>)))
   \<Longrightarrow> mgr_ok (on_nif k f m)"
  by (auto simp: mgr_ok_def on_nif_def Let_def split: option.splits if_splits)

lemma mgr_ok_put: "mgr_ok m \<Longrightarrow> sm_ok (k \<noteq> Ds) s \<Longrightarrow> mgr_ok (put_nif k s m)"
  by (simp add: mgr_ok_def)

lemma create_ok: "mgr_ok m \<Longrightarrow> mgr_ok (createAgpsStateMachines e m)"
  by (simp add: createAgpsStateMachines_def Let_def mgr_ok_put del: put_nif.simps split: option.split)

lemma getAgps_ok: "mgr_ok m \<Longrightarrow> getAgpsStateMachine e ty m = (k, m') \<Longrightarrow> mgr_ok m'"
  by (auto simp: getAgpsStateMachine_def Let_def create_ok split: if_splits)

lemma look_nif_some:
  "look_nif h m j = Some (k, p) \<Longrightarrow>
   k = j \<and> (\<exists>s. get_nif k m = Some s \<and> p \<in> set (mSubscriberList s) \<and> mConnHandle (objs s p) = h)"
  by (auto simp: look_nif_def getSubscriber_def find_Some_iff split: option.splits)

lemma find_nif_some:
  "find_nif h m = Some (k, p) \<Longrightarrow>
   \<exists>s. get_nif k m = Some s \<and> p \<in> set (mSubscriberList s) \<and> mConnHandle (objs s p) = h"
  unfolding find_nif_def
  using look_nif_some [of h m Agnss k p] look_nif_some [of h m Internet k p] look_nif_some [of h m Ds k p]
  by (cases "look_nif h m Agnss"; cases "look_nif h m Internet"; auto simp del: get_nif.simps)

text \<open>The calls of the adapter, as one step; \<open>None\<close> is the crash on a null machine.\<close>

datatype agps_op =
    Op_create
  | Op_requestATL int int
  | Op_releaseATL int
  | Op_DataCallOpened
  | Op_DataCallClosed
  | Op_AtlOpenSuccess int "string option" "32 word" int
  | Op_AtlOpenFailed int
  | Op_AtlClosed int
  | Op_ModemSSR
  | Op_retry

definition agps_step :: "agps_env \<Rightarrow> agps_op \<Rightarrow> agps_manager \<Rightarrow> agps_manager option" where
  "agps_step e op m = (case op of
     Op_create \<Rightarrow> Some (createAgpsStateMachines e m)
   | Op_requestATL h ty \<Rightarrow> Some (requestATL e h ty m)
   | Op_releaseATL h \<Rightarrow> Some (releaseATL e h m)
   | Op_DataCallOpened \<Rightarrow> Some (reportDataCallOpened e m)
   | Op_DataCallClosed \<Rightarrow> Some (reportDataCallClosed e m)
   | Op_AtlOpenSuccess ty apn len b \<Rightarrow> reportAtlOpenSuccess e ty apn len b m
   | Op_AtlOpenFailed ty \<Rightarrow> reportAtlOpenFailed e ty m
   | Op_AtlClosed ty \<Rightarrow> reportAtlClosed e ty m
   | Op_ModemSSR \<Rightarrow> Some (handleModemSSR e m)
   | Op_retry \<Rightarrow> Some (delay_callback m))"

fun agps_run :: "agps_env \<Rightarrow> agps_op list \<Rightarrow> agps_manager \<Rightarrow> agps_manager option" where
  "agps_run e [] m = Some m"
| "agps_run e (op # ops) m = (case agps_step e op m of None \<Rightarrow> None | Some m' \<Rightarrow> agps_run e ops m')"

lemma retry_ok: "sm_ok t s \<Longrightarrow> sm_ok t (retryCallback s)"
  by (auto simp: retryCallback_def emit_def split: option.splits)

lemma process_nif_ok:
  assumes "benign e" and "mgr_ok m"
    and "\<And>s t. sm_ok t s \<Longrightarrow> sm_ok t (g s)"
    and "\<And>s. get_nif k m = Some s \<Longrightarrow> input_ok event (g (s\<lparr>out := []\<rparr>))"
  shows "mgr_ok (on_nif k (\<lambda>s. sm_process e k event (g s)) m)"
  using assms sm_process_ok [OF assms(1)] by (intro on_nif_ok) auto

lemma requestATL_ok:
  assumes "benign e" and "mgr_ok m"
  shows "mgr_ok (requestATL e h ty m)"
proof -
  obtain k m1 where k: "getAgpsStateMachine e ty m = (k, m1)" by fastforce
  then have m1: "mgr_ok m1" by (rule getAgps_ok [OF assms(2)])
  let ?x = "\<lparr>mConnHandle = h, mWaitForCloseComplete = (ty = LOC_AGPS_TYPE_SUPL_ES), mIsInactive = False\<rparr>"
  have "mgr_ok (on_nif j (\<lambda>s. sm_process e j AGPS_EVENT_SUBSCRIBE (set_local ?x s)) m1)" for j
    by (rule process_nif_ok [OF assms(1) m1]) (simp_all add: sm_ok_set_local, simp add: input_ok_def set_local_def)
  with m1 k show ?thesis by (simp add: requestATL_def split: option.splits)
qed

lemma releaseATL_ok:
  assumes "benign e" and "mgr_ok m"
  shows "mgr_ok (releaseATL e h m)"
proof (cases "find_nif h m")
  case None
  with assms show ?thesis by (simp add: releaseATL_def)
next
  case (Some x)
  then obtain k p where x: "find_nif h m = Some (k, p)" by (cases x) simp
  have "mgr_ok (on_nif k (\<lambda>s. sm_process e k AGPS_EVENT_UNSUBSCRIBE (s\<lparr>mCurrentSubscriber := p\<rparr>)) m)"
    using find_nif_some [OF x] by (intro process_nif_ok [OF assms]) (auto simp: input_ok_def)
  with x show ?thesis by (simp add: releaseATL_def)
qed

lemma report_ok:
  assumes "benign e" and "mgr_ok m" and "event \<notin> {AGPS_EVENT_SUBSCRIBE, AGPS_EVENT_UNSUBSCRIBE}"
  shows "mgr_ok (on_nif k (sm_process e k event) m)"
    and "mgr_ok (on_nif k (\<lambda>s. sm_process e k event (setAPN apn len (s\<lparr>mBearer := b\<rparr>))) m)"
  using assms process_nif_ok [OF assms(1,2), of "\<lambda>s. s" k event]
    process_nif_ok [OF assms(1,2), of "\<lambda>s. setAPN apn len (s\<lparr>mBearer := b\<rparr>)" k event]
  by (simp_all add: input_ok_def)

lemma agps_step_ok:
  assumes "benign e" and "op \<noteq> Op_ModemSSR" and "mgr_ok m" and "agps_step e op m = Some m'"
  shows "mgr_ok m'"
proof -
  have "mgr_ok (on_nif Ds retryCallback m)"
    by (rule on_nif_ok [OF assms(3)]) (simp add: retry_ok)
  with assms show ?thesis
    by (cases op; auto simp: agps_step_def create_ok requestATL_ok releaseATL_ok reportDataCallOpened_def
        reportDataCallClosed_def reportAtlOpenSuccess_def reportAtlOpenFailed_def reportAtlClosed_def
        delay_callback_def split: prod.splits option.splits dest: getAgps_ok intro!: report_ok)
qed

lemma agps_run_ok:
  "benign e \<Longrightarrow> Op_ModemSSR \<notin> set ops \<Longrightarrow> mgr_ok m \<Longrightarrow> agps_run e ops m = Some m' \<Longrightarrow> mgr_ok m'"
proof (induction ops arbitrary: m)
  case Nil
  then show ?case by simp
next
  case (Cons op ops)
  then obtain m1 where m1: "agps_step e op m = Some m1" "agps_run e ops m1 = Some m'"
    by (auto split: option.splits)
  have "mgr_ok m1" using agps_step_ok [OF Cons.prems(1) _ Cons.prems(3) m1(1)] Cons.prems(2) by auto
  with Cons m1(2) show ?case by auto
qed

lemma mgr_ok_init [simp]: "mgr_ok AgpsManager"
  unfolding mgr_ok_def
proof (intro allI impI)
  fix k s assume "get_nif k AgpsManager = Some s"
  then show "sm_ok (k \<noteq> Ds) s" by (cases k) (simp_all add: AgpsManager_def)
qed

section \<open>What the base machine tells\<close>

text \<open>The handles told that their connection is closed or refused, those told it is open, and the requests.\<close>

fun closed :: "agps_out list \<Rightarrow> int list" where
  "closed [] = []"
| "closed (AtlCloseStatus h r # xs) = h # closed xs"
| "closed (AtlOpenStatus h r a b t # xs) = (if r = 0 then h # closed xs else closed xs)"
| "closed (_ # xs) = closed xs"

fun opened :: "agps_out list \<Rightarrow> int list" where
  "opened [] = []"
| "opened (AtlOpenStatus h r a b t # xs) = (if r = 0 then opened xs else h # opened xs)"
| "opened (_ # xs) = opened xs"

fun requests :: "agps_out list \<Rightarrow> bool list" where
  "requests [] = []"
| "requests (FrameworkStatus ty b # xs) = b # requests xs"
| "requests (_ # xs) = requests xs"

lemma closed_append [simp]: "closed (xs @ ys) = closed xs @ closed ys"
  by (induction xs rule: closed.induct) simp_all

lemma opened_append [simp]: "opened (xs @ ys) = opened xs @ opened ys"
  by (induction xs rule: opened.induct) simp_all

lemma requests_append [simp]: "requests (xs @ ys) = requests xs @ requests ys"
  by (induction xs rule: requests.induct) simp_all

text \<open>\<open>tells s s' c op r\<close>: between the two states these were told closed, these open, these requested.\<close>

definition tells :: "agps_sm \<Rightarrow> agps_sm \<Rightarrow> int list \<Rightarrow> int list \<Rightarrow> bool list \<Rightarrow> bool" where
  "tells s s' c op r \<longleftrightarrow> (\<exists>os. out s' = out s @ os \<and> closed os = c \<and> opened os = op \<and> requests os = r)"

lemma tells_same [simp]: "out s' = out s \<Longrightarrow> tells s s' [] [] []"
  by (simp add: tells_def)

lemma tells_trans:
  "tells s s1 c1 o1 r1 \<Longrightarrow> tells s1 s2 c2 o2 r2 \<Longrightarrow> tells s s2 (c1 @ c2) (o1 @ o2) (r1 @ r2)"
  by (force simp: tells_def)

lemma tells_out: "out s1 = out s \<Longrightarrow> tells s1 s' c op r = tells s s' c op r"
  "out s1 = out s' \<Longrightarrow> tells s s1 c op r = tells s s' c op r"
  by (simp_all add: tells_def)

text \<open>Whom an event tells what.\<close>

definition told_closed :: "AgpsEvent \<Rightarrow> int list \<Rightarrow> int list" where
  "told_closed event hs =
     (if event \<in> {AGPS_EVENT_DENIED, AGPS_EVENT_UNSUBSCRIBE, AGPS_EVENT_RELEASED} then hs else [])"

definition told_opened :: "AgpsEvent \<Rightarrow> int list \<Rightarrow> int list" where
  "told_opened event hs = (if event = AGPS_EVENT_GRANTED then hs else [])"

lemma told_simps [simp]:
  "told_closed event [] = []" "told_opened event [] = []"
  "told_closed event [h] @ told_closed event hs = told_closed event (h # hs)"
  "told_opened event [h] @ told_opened event hs = told_opened event (h # hs)"
  "told_closed AGPS_EVENT_GRANTED hs = []" "told_opened AGPS_EVENT_GRANTED hs = hs"
  "told_closed AGPS_EVENT_RELEASED hs = hs" "told_opened AGPS_EVENT_RELEASED hs = []"
  "told_closed AGPS_EVENT_DENIED hs = hs" "told_opened AGPS_EVENT_DENIED hs = []"
  "told_closed AGPS_EVENT_UNSUBSCRIBE hs = hs" "told_opened AGPS_EVENT_UNSUBSCRIBE hs = []"
  by (simp_all add: told_closed_def told_opened_def)

lemma base_notify_tells:
  "tells s (base_notifyEventToSubscriber e event p False s)
     (told_closed event [mConnHandle (objs s p)]) (told_opened event [mConnHandle (objs s p)]) []"
  by (cases event) (simp_all add: base_notifyEventToSubscriber_def Let_def emit_def tells_def
      told_closed_def told_opened_def)

lemma base_request_tells: "tells s (snd (base_requestOrReleaseDataConn b s)) [] [] [b]"
  by (simp add: base_requestOrReleaseDataConn_def emit_def tells_def)

definition wanted_handles :: "AgpsNotificationType \<Rightarrow> ptr list \<Rightarrow> agps_sm \<Rightarrow> int list" where
  "wanted_handles ty l s = map (\<lambda>p. mConnHandle (objs s p)) (filter (\<lambda>p. wanted ty (objs s p)) l)"

lemma base_loop_tells:
  "distinct (kept @ l) \<Longrightarrow>
    tells s (notify_loop e (base_vt e) event del ty kept l s)
     (told_closed event (wanted_handles ty l s)) (told_opened event (wanted_handles ty l s)) []"
proof (induction l arbitrary: kept s)
  case Nil
  then show ?case by (simp add: wanted_handles_def)
next
  case (Cons p ps)
  let ?n = "base_notifyEventToSubscriber e event p False s"
  let ?d = "?n\<lparr>mSubscriberList := kept @ ps, objs := (objs ?n)(p := freed e (objs ?n p))\<rparr>"
  have o: "objs ?n = objs s" using base_notify_frame(1) [of e event p s] by (simp add: same_list_def)
  then have n: "wanted_handles ty ps ?n = wanted_handles ty ps s" by (simp add: wanted_handles_def)
  have "map (\<lambda>q. mConnHandle (objs ?d q)) (filter (\<lambda>q. wanted ty (objs ?d q)) ps)
      = map (\<lambda>q. mConnHandle (objs s q)) (filter (\<lambda>q. wanted ty (objs s q)) ps)"
    using Cons.prems o by (auto intro!: map_cong filter_cong)
  then have f: "wanted_handles ty ps ?d = wanted_handles ty ps s" by (simp add: wanted_handles_def)
  have v: "v_notify (base_vt e) = base_notifyEventToSubscriber e" by (simp add: base_vt_def)
  have d: "tells ?d s' c op r = tells ?n s' c op r" for s' c op r by (simp add: tells_def)
  show ?case
  proof (cases "wanted ty (objs s p)")
    case False
    then have "wanted_handles ty (p # ps) s = wanted_handles ty ps s" by (simp add: wanted_handles_def)
    with False Cons.IH [of "kept @ [p]" s] Cons.prems show ?thesis by simp
  next
    case True
    then have w: "wanted_handles ty (p # ps) s = mConnHandle (objs s p) # wanted_handles ty ps s"
      by (simp add: wanted_handles_def)
    have "tells ?n (notify_loop e (base_vt e) event del ty kept (p # ps) s)
       (told_closed event (wanted_handles ty ps s)) (told_opened event (wanted_handles ty ps s)) []"
    proof (cases del)
      case True
      with Cons.IH [of kept ?d] Cons.prems \<open>wanted ty (objs s p)\<close> show ?thesis
        unfolding f d by (simp add: Let_def v)
    next
      case False
      with Cons.IH [of "kept @ [p]" ?n] Cons.prems True n show ?thesis by (simp add: Let_def v)
    qed
    from tells_trans [OF base_notify_tells this] show ?thesis unfolding w by simp
  qed
qed

lemma base_notifyAll_tells:
  "list_ok s \<Longrightarrow> tells s (notifyAllSubscribers e (base_vt e) event del ty s)
     (told_closed event (wanted_handles ty (mSubscriberList s) s))
     (told_opened event (wanted_handles ty (mSubscriberList s) s)) []"
  unfolding notifyAllSubscribers_def by (rule base_loop_tells) (simp add: list_ok_def)

lemma mset_map_filter:
  "mset (map f xs) = mset (map f (filter (\<lambda>x. \<not> P x) xs)) + mset (map f (filter P xs))"
  by (induction xs) auto

text \<open>The handles after a notification that deletes: those before, without those told.\<close>

lemma base_notifyAll_handles:
  assumes "list_ok s" and "retries_ok s"
  shows "mset (handles s) = mset (handles (notifyAllSubscribers e (base_vt e) event True ty s))
    + mset (wanted_handles ty (mSubscriberList s) s)"
proof -
  let ?n = "notifyAllSubscribers e (base_vt e) event True ty s"
  note n = base.notifyAll_effect [OF assms, of ?n e event True ty, OF refl]
  have "handles ?n = map (\<lambda>p. mConnHandle (objs s p)) (mSubscriberList ?n)"
    using n(2) by (simp add: handles_def)
  then have h: "handles ?n = map (\<lambda>p. mConnHandle (objs s p)) (filter (\<lambda>p. \<not> wanted ty (objs s p)) (mSubscriberList s))"
    by (simp add: n(1))
  show ?thesis
    unfolding h handles_def [of s] wanted_handles_def by (rule mset_map_filter)
qed

lemma base_leave:
  assumes "benign e" and "list_ok s" and "mCurrentSubscriber s \<in> set (mSubscriberList s)"
  shows "\<exists>c. tells s (leave_subscriber (base_vt e) s) c [] []
    \<and> mset (handles s) = mset (handles (leave_subscriber (base_vt e) s)) + mset c
    \<and> mAgpsType (leave_subscriber (base_vt e) s) = mAgpsType s"
proof (cases "mWaitForCloseComplete (objs s (mCurrentSubscriber s))")
  case True
  have "handles (leave_subscriber (base_vt e) s) = handles s"
    using True by (auto simp: leave_subscriber_def handles_def Let_def)
  with True show ?thesis by (intro exI [of _ "[]"]) (simp add: leave_subscriber_def Let_def)
next
  case False
  let ?p = "mCurrentSubscriber s"
  let ?n = "base_notifyEventToSubscriber e AGPS_EVENT_UNSUBSCRIBE ?p False s"
  have l: "leave_subscriber (base_vt e) s = deleteSubscriber e ?p ?n"
    using False by (simp add: leave_subscriber_def base_vt_def same_list_delete_notify Let_def)
  have n: "handles ?n = handles s" "objs ?n = objs s" "mAgpsType ?n = mAgpsType s"
    using base_notify_frame(1) [of e AGPS_EVENT_UNSUBSCRIBE ?p s]
    by (simp_all add: same_list_ok) (simp_all add: same_list_def base_notifyEventToSubscriber_def emit_def Let_def)
  have "mConnHandle (objs s ?p) \<in> set (handles s)" "distinct (handles s)"
    using assms(2,3) by (auto simp: handles_def list_ok_def)
  then have "mset (handles s) = mset (handles (deleteSubscriber e ?p ?n)) + mset [mConnHandle (objs s ?p)]"
    unfolding handles_delete [OF assms(1)] n
    by (simp add: mset_filter distinct_count_atmost_1) (auto simp: multiset_eq_iff distinct_count_atmost_1)
  moreover have "tells s (deleteSubscriber e ?p ?n) [mConnHandle (objs s ?p)] [] []"
    using base_notify_tells [of s e AGPS_EVENT_UNSUBSCRIBE ?p]
    by (simp add: tells_def deleteSubscriber_effect [OF assms(1)])
  ultimately show ?thesis
    unfolding l using n(3) by (intro exI [of _ "[mConnHandle (objs s ?p)]"]) (simp add: deleteSubscriber_effect [OF assms(1)])
qed

text \<open>
  One step of the base machine: who is added, told closed, told open, and what is requested of the framework.
\<close>

definition step_tells :: "AgpsEvent \<Rightarrow> agps_sm \<Rightarrow> agps_sm \<Rightarrow> int list \<Rightarrow> int list \<Rightarrow> bool list \<Rightarrow> bool" where
  "step_tells event s s' added op r \<longleftrightarrow>
     (\<exists>c. tells s s' c op r \<and> mset (handles s) + mset added = mset (handles s') + mset c)"

definition new_handle :: "agps_sm \<Rightarrow> int list" where
  "new_handle s = (let h = mConnHandle (objs s (mCurrentSubscriber s)) in if h \<in> set (handles s) then [] else [h])"

lemma add_tells:
  assumes "list_ok s"
  shows "mset (handles s) + mset (new_handle s) = mset (handles (addSubscriber (mCurrentSubscriber s) s))"
  by (simp add: addSubscriber_handles [OF assms] new_handle_def Let_def)

lemma base_vt_simps [simp]:
  "v_request (base_vt e) = base_requestOrReleaseDataConn" "v_notify (base_vt e) = base_notifyEventToSubscriber e"
  by (simp_all add: base_vt_def)

lemma handles_frame [simp]:
  "handles (transitionState st s) = handles s" "handles (snd (base_requestOrReleaseDataConn b s)) = handles s"
  "mState (snd (base_requestOrReleaseDataConn b s)) = mState s" "mState (transitionState st s) = st"
  "out (transitionState st s) = out s"
  by (simp_all add: transitionState_def handles_def base_requestOrReleaseDataConn_def emit_def)

lemma list_ok_transition [simp]: "list_ok (transitionState st s) = list_ok s"
  "retries_ok (transitionState st s) = retries_ok s" "anyActiveSubscribers (transitionState st s) = anyActiveSubscribers s"
  "mSubscriberList (transitionState st s) = mSubscriberList s"
  "wanted_handles ty l (transitionState st s) = wanted_handles ty l s"
  by (simp_all add: transitionState_def list_ok_def handles_def retries_ok_def anyActiveSubscribers_def wanted_handles_def)

lemma transition_tells [simp]:
  "tells s (transitionState st s') c op r = tells s s' c op r"
  "tells (transitionState st s) s' c op r = tells s s' c op r"
  by (simp_all add: tells_def)

lemma base_subscribe:
  "processAgpsEventSubscribe (base_vt e) s = (case mState s of
     AGPS_STATE_RELEASED \<Rightarrow> transitionState AGPS_STATE_PENDING
       (snd (base_requestOrReleaseDataConn True (addSubscriber (mCurrentSubscriber s) s)))
   | AGPS_STATE_PENDING \<Rightarrow> addSubscriber (mCurrentSubscriber s) s
   | AGPS_STATE_ACQUIRED \<Rightarrow> addSubscriber (mCurrentSubscriber s)
       (base_notifyEventToSubscriber e AGPS_EVENT_GRANTED (mCurrentSubscriber s) False s)
   | AGPS_STATE_RELEASING \<Rightarrow> addSubscriber (mCurrentSubscriber s) s
   | AGPS_STATE_INVALID \<Rightarrow> s)"
  by (simp add: processAgpsEventSubscribe_def base_requestOrReleaseDataConn_def cong: AgpsState.case_cong)

lemma subscribe_tells:
  assumes "list_ok s"
  shows "step_tells AGPS_EVENT_SUBSCRIBE s (processAgpsEventSubscribe (base_vt e) s)
    (if mState s = AGPS_STATE_INVALID then [] else new_handle s)
    (if mState s = AGPS_STATE_ACQUIRED then [mConnHandle (objs s (mCurrentSubscriber s))] else [])
    (if mState s = AGPS_STATE_RELEASED then [True] else [])"
proof -
  let ?p = "mCurrentSubscriber s"
  let ?a = "addSubscriber ?p s"
  have a: "tells s ?a [] [] []" by (simp add: addSubscriber_ok [OF assms])
  let ?n = "base_notifyEventToSubscriber e AGPS_EVENT_GRANTED ?p False s"
  have n: "same_list ?n s" by (rule base_notify_frame)
  then have n': "list_ok ?n" "handles ?n = handles s" "new_handle ?n = new_handle s" "mCurrentSubscriber ?n = ?p"
    using assms by (simp_all add: same_list_ok) (simp_all add: new_handle_def same_list_ok, simp_all add: same_list_def)
  have "tells ?n (addSubscriber ?p ?n) [] [] []" by (simp add: addSubscriber_ok [OF n'(1)])
  from tells_trans [OF base_notify_tells this]
  have t: "tells s (addSubscriber ?p ?n) [] [mConnHandle (objs s ?p)] []" by simp
  have r: "tells s (snd (base_requestOrReleaseDataConn True ?a)) [] [] [True]"
    using tells_trans [OF a base_request_tells] by simp
  show ?thesis
    using a t r add_tells [OF assms] add_tells [OF n'(1)] n'
    by (cases "mState s"; fastforce simp: step_tells_def base_subscribe)
qed

lemma unsubscribe_tells:
  assumes "benign e" and "sm_ok True s" and "mCurrentSubscriber s \<in> set (mSubscriberList s)"
    and "s' = processAgpsEventUnsubscribe (base_vt e) s"
  shows "step_tells AGPS_EVENT_UNSUBSCRIBE s s' [] []
    (if mState s' \<noteq> mState s \<and> mState s \<noteq> AGPS_STATE_RELEASING then [False] else [])"
proof -
  let ?l = "leave_subscriber (base_vt e) s"
  have s: "list_ok s" "state_ok True s" "mSubscriberList s \<noteq> []"
    using assms(2,3) by (auto simp: sm_ok_def)
  have m: "mState ?l = mState s" using base.leave_effect [OF assms(1,2) refl] by simp
  obtain c where c: "tells s ?l c [] []" "mset (handles s) = mset (handles ?l) + mset c"
    using base_leave [OF assms(1) s(1) assms(3)] by blast
  have r: "tells s (snd (base_requestOrReleaseDataConn False (transitionState st ?l))) c [] [False]" for st
    using tells_trans [OF c(1), of "snd (base_requestOrReleaseDataConn False (transitionState st ?l))" "[]" "[]" "[False]"]
      base_request_tells [of "transitionState st ?l" False] by simp
  show ?thesis
    using s c r m unfolding assms(4) step_tells_def
    by (cases "mState s") (auto simp: processAgpsEventUnsubscribe_def Let_def state_ok_def)
qed

lemma release_done_tells:
  assumes "list_ok s" and "retries_ok s" and "mState s = AGPS_STATE_RELEASING"
  shows "step_tells event s (release_done e (base_vt e) s) [] []
    (if mState (release_done e (base_vt e) s) = AGPS_STATE_PENDING then [True] else [])"
proof -
  let ?n = "notifyAllSubscribers e (base_vt e) AGPS_EVENT_RELEASED True
    AGPS_NOTIFICATION_TYPE_FOR_INACTIVE_SUBSCRIBERS s"
  let ?c = "wanted_handles AGPS_NOTIFICATION_TYPE_FOR_INACTIVE_SUBSCRIBERS (mSubscriberList s) s"
  have n: "tells s ?n ?c [] []"
    using base_notifyAll_tells [OF assms(1), of e AGPS_EVENT_RELEASED True] by simp
  have h: "mset (handles s) = mset (handles ?n) + mset ?c"
    by (rule base_notifyAll_handles [OF assms(1,2)])
  have r: "tells s (snd (base_requestOrReleaseDataConn True (transitionState AGPS_STATE_PENDING ?n))) ?c [] [True]"
    using tells_trans [OF n, of "snd (base_requestOrReleaseDataConn True (transitionState AGPS_STATE_PENDING ?n))" "[]" "[]" "[True]"]
      base_request_tells [of "transitionState AGPS_STATE_PENDING ?n" True] by simp
  show ?thesis
    using n h r by (auto simp: step_tells_def release_done_def Let_def)
qed

text \<open>Everybody is told, and nobody stays.\<close>

lemma drop_all_tells:
  assumes "list_ok s" and "retries_ok s" and "event \<in> {AGPS_EVENT_RELEASED, AGPS_EVENT_DENIED}"
  shows "step_tells ev s (notifyAllSubscribers e (base_vt e) event True
      AGPS_NOTIFICATION_TYPE_FOR_ALL_SUBSCRIBERS (transitionState st s)) [] [] []"
proof -
  have t: "list_ok (transitionState st s)" "retries_ok (transitionState st s)" using assms by simp_all
  show ?thesis
    using base_notifyAll_tells [OF t(1), of e event True AGPS_NOTIFICATION_TYPE_FOR_ALL_SUBSCRIBERS]
      base_notifyAll_handles [OF t, of e event AGPS_NOTIFICATION_TYPE_FOR_ALL_SUBSCRIBERS] assms(3)
    by (auto simp: step_tells_def)
qed

lemma granted_tells:
  assumes "list_ok s" and "retries_ok s"
  shows "step_tells AGPS_EVENT_GRANTED s (processAgpsEventGranted e (base_vt e) s) []
    (if mState s = AGPS_STATE_PENDING
     then wanted_handles AGPS_NOTIFICATION_TYPE_FOR_ACTIVE_SUBSCRIBERS (mSubscriberList s) s else []) []"
proof (cases "mState s = AGPS_STATE_PENDING")
  case True
  let ?t = "transitionState AGPS_STATE_ACQUIRED s"
  let ?n = "notifyAllSubscribers e (base_vt e) AGPS_EVENT_GRANTED False
    AGPS_NOTIFICATION_TYPE_FOR_ACTIVE_SUBSCRIBERS ?t"
  have t: "list_ok ?t" "retries_ok ?t" using assms by simp_all
  note n = base.notifyAll_effect [OF t, of ?n e AGPS_EVENT_GRANTED False AGPS_NOTIFICATION_TYPE_FOR_ACTIVE_SUBSCRIBERS, OF refl]
  have "handles ?n = handles s" using n(1,2) by (simp add: handles_def transitionState_def)
  with True base_notifyAll_tells [OF t(1), of e AGPS_EVENT_GRANTED False AGPS_NOTIFICATION_TYPE_FOR_ACTIVE_SUBSCRIBERS]
  show ?thesis by (auto simp: step_tells_def processAgpsEventGranted_def)
next
  case False
  then show ?thesis by (auto simp: step_tells_def processAgpsEventGranted_def)
qed

lemma base_step_tells:
  assumes "benign e" and "sm_ok True s" and "input_ok event s"
    and "s' = processAgpsEvent e (base_vt e) event s"
  shows "step_tells event s s' (if event = AGPS_EVENT_SUBSCRIBE then new_handle s else [])
    (if event = AGPS_EVENT_GRANTED \<and> mState s = AGPS_STATE_PENDING
     then wanted_handles AGPS_NOTIFICATION_TYPE_FOR_ACTIVE_SUBSCRIBERS (mSubscriberList s) s
     else if event = AGPS_EVENT_SUBSCRIBE \<and> mState s = AGPS_STATE_ACQUIRED
     then [mConnHandle (objs s (mCurrentSubscriber s))] else [])
    (if mState s' = AGPS_STATE_PENDING \<and> mState s \<noteq> AGPS_STATE_PENDING then [True]
     else if event = AGPS_EVENT_UNSUBSCRIBE \<and> mState s \<noteq> AGPS_STATE_RELEASING \<and> mState s' \<noteq> mState s
     then [False] else [])"
proof -
  have s: "list_ok s" "retries_ok s" "mState s \<noteq> AGPS_STATE_INVALID"
    using assms(2) by (auto simp: sm_ok_def state_ok_def)
  have same: "step_tells event s s [] [] []" by (auto simp: step_tells_def)
  have add: "mState (addSubscriber p t) = mState t" for p t by (simp add: addSubscriber_def)
  have note_state: "mState (base_notifyEventToSubscriber e ev p False t) = mState t" for ev p t
    using base_notify_frame(1) by (simp add: same_list_def)
  show ?thesis
  proof (cases event)
    case AGPS_EVENT_SUBSCRIBE
    with subscribe_tells [OF s(1), of e] s(3) show ?thesis
      unfolding assms(4) by (cases "mState s") (simp_all add: processAgpsEvent_def base_subscribe add note_state)
  next
    case AGPS_EVENT_UNSUBSCRIBE
    have "mState s' \<noteq> AGPS_STATE_PENDING" if "mState s \<noteq> AGPS_STATE_PENDING"
      using that base.leave_effect(3) [OF assms(1,2) refl]
      unfolding assms(4) AGPS_EVENT_UNSUBSCRIBE
      by (auto simp: processAgpsEvent_def processAgpsEventUnsubscribe_def Let_def note_state)
    with AGPS_EVENT_UNSUBSCRIBE unsubscribe_tells [OF assms(1,2)] assms(3,4) show ?thesis
      by (auto simp: processAgpsEvent_def input_ok_def)
  next
    case AGPS_EVENT_GRANTED
    have "mState s' \<noteq> AGPS_STATE_PENDING" if "mState s \<noteq> AGPS_STATE_PENDING"
      using that unfolding assms(4) AGPS_EVENT_GRANTED by (simp add: processAgpsEvent_def processAgpsEventGranted_def)
    with AGPS_EVENT_GRANTED granted_tells [OF s(1,2), of e] assms(4) show ?thesis
      by (auto simp: processAgpsEvent_def)
  next
    case AGPS_EVENT_RELEASED
    let ?d = "notifyAllSubscribers e (base_vt e) AGPS_EVENT_RELEASED True
      AGPS_NOTIFICATION_TYPE_FOR_ALL_SUBSCRIBERS (transitionState AGPS_STATE_RELEASED s)"
    have d: "mState ?d = AGPS_STATE_RELEASED"
      using base.notifyAll_effect(3) [of "transitionState AGPS_STATE_RELEASED s", OF _ _ refl] s by simp
    show ?thesis
      using AGPS_EVENT_RELEASED drop_all_tells [OF s(1,2), of AGPS_EVENT_RELEASED] same d
        release_done_tells [OF s(1,2), of AGPS_EVENT_RELEASED e] s(3)
      unfolding assms(4) by (cases "mState s") (simp_all split: if_splits add: processAgpsEvent_def processAgpsEventReleased_def)
  next
    case AGPS_EVENT_DENIED
    let ?d = "notifyAllSubscribers e (base_vt e) AGPS_EVENT_DENIED True
      AGPS_NOTIFICATION_TYPE_FOR_ALL_SUBSCRIBERS (transitionState AGPS_STATE_RELEASED s)"
    have d: "mState ?d = AGPS_STATE_RELEASED"
      using base.notifyAll_effect(3) [of "transitionState AGPS_STATE_RELEASED s", OF _ _ refl] s by simp
    show ?thesis
      using AGPS_EVENT_DENIED drop_all_tells [OF s(1,2), of AGPS_EVENT_DENIED] same d
        release_done_tells [OF s(1,2), of AGPS_EVENT_DENIED e] s(3)
      unfolding assms(4) by (cases "mState s") (simp_all split: if_splits add: processAgpsEvent_def processAgpsEventDenied_def)
  next
    case AGPS_EVENT_INVALID
    with same assms(4) show ?thesis by (simp add: processAgpsEvent_def)
  qed
qed

section \<open>Properties\<close>

lemmas agps_list_defs = addSubscriber_def deleteSubscriber_def anyActiveSubscribers_def getSubscriber_def
  getFirstSubscriber_def equals_def transitionState_def emit_def wanted_def notifyAllSubscribers_def
  leave_subscriber_def release_done_def

lemmas agps_event_defs = processAgpsEvent_def processAgpsEventSubscribe_def processAgpsEventUnsubscribe_def
  processAgpsEventGranted_def processAgpsEventReleased_def processAgpsEventDenied_def DS_processAgpsEvent_def
  base_requestOrReleaseDataConn_def base_notifyEventToSubscriber_def DS_notifyEventToSubscriber_def
  DS_requestOrReleaseDataConn_def DS_start_data_call_def ds_vt_def retryCallback_def

lemmas agps_run_defs = agps_step_def createAgpsStateMachines_def requestATL_def releaseATL_def
  reportDataCallOpened_def reportDataCallClosed_def reportAtlOpenSuccess_def reportAtlOpenFailed_def
  reportAtlClosed_def handleModemSSR_def delay_callback_def getAgpsStateMachine_def find_nif_def look_nif_def
  on_nif_def sm_process_def set_local_def mgr_emit_def AgpsManager_def AgpsStateMachine_def DSStateMachine_def
  setAPN_def agps_consts

text \<open>An environment in which everything is registered and every call succeeds.\<close>

definition kind_env :: agps_env where
  "kind_env = \<lparr>ds_open = Some (\<lambda>_. 0), ds_stop_registered = True, timer_handle = (\<lambda>_. True),
     ds_init = Some (\<lambda>_. 0), agps_capable = True, use_emergency_pdn = True, freed = (\<lambda>x. x)\<rparr>"

lemma kind_benign [simp]: "benign kind_env"
  by (simp add: kind_env_def benign_def)


definition acquired_run :: "agps_op list" where
  "acquired_run = [Op_create, Op_requestATL 7 1, Op_requestATL 8 1, Op_AtlOpenSuccess 1 (Some ''ims'') 3 1]"

definition acquired_sm :: agps_sm where
  "acquired_sm = (case agps_run kind_env acquired_run AgpsManager of Some m \<Rightarrow> (case mAgnssNif m of Some s \<Rightarrow> s))"



text \<open>The machine that holds the connection after \<open>acquired_run\<close>.\<close>

lemma acquired_sm_ok:
  "sm_ok True acquired_sm" "mState acquired_sm = AGPS_STATE_ACQUIRED" "mSubscriberList acquired_sm = [1, 2]"
  "handles acquired_sm = [7, 8]" "mConnHandle (objs acquired_sm 1) = 7" "mConnHandle (objs acquired_sm 2) = 8"
proof -
  obtain m s where m: "agps_run kind_env acquired_run AgpsManager = Some m" "get_nif Agnss m = Some s"
      "mState s = AGPS_STATE_ACQUIRED" "mSubscriberList s = [1, 2]" "handles s = [7, 8]"
      "mConnHandle (objs s 1) = 7" "mConnHandle (objs s 2) = 8"
    by (simp add: acquired_run_def agps_run_defs agps_event_defs agps_list_defs kind_env_def Let_def handles_def)
  have "mgr_ok m"
    using agps_run_ok [OF kind_benign _ mgr_ok_init m(1)] by (simp add: acquired_run_def)
  with m(2) have "sm_ok (Agnss \<noteq> Ds) s" unfolding mgr_ok_def by blast
  with m show "sm_ok True acquired_sm" "mState acquired_sm = AGPS_STATE_ACQUIRED"
    "mSubscriberList acquired_sm = [1, 2]" "handles acquired_sm = [7, 8]"
    "mConnHandle (objs acquired_sm 1) = 7" "mConnHandle (objs acquired_sm 2) = 8"
    by (simp_all add: acquired_sm_def)
qed

lemma acquired_input:
  "input_ok AGPS_EVENT_UNSUBSCRIBE (acquired_sm\<lparr>mCurrentSubscriber := 1\<rparr>)" "input_ok AGPS_EVENT_RELEASED acquired_sm"
  by (simp_all add: input_ok_def acquired_sm_ok)


text \<open>
  The framework is asked for a data connection exactly when the base machine starts to wait for one, and asked to
  release it exactly when the last active subscriber of a pending or open connection leaves; nothing else is asked.
\<close>

lemma agps_requests_exact:
  assumes "benign e" and "sm_ok True s" and "input_ok event s"
    and "s' = processAgpsEvent e (base_vt e) event s"
  shows "\<exists>os. out s' = out s @ os \<and> requests os =
    (if mState s' = AGPS_STATE_PENDING \<and> mState s \<noteq> AGPS_STATE_PENDING then [True]
     else if event = AGPS_EVENT_UNSUBSCRIBE \<and> mState s \<noteq> AGPS_STATE_RELEASING \<and> mState s' \<noteq> mState s
     then [False] else [])"
  using base_step_tells [OF assms] by (auto simp: step_tells_def tells_def)

text \<open>
  An emergency call that the data service client keeps refusing as busy is started five times, half a second
  apart, and then handed to the normal connection; no retry follows. The subscriber stays in the emergency machine's
  list for ever, although its request has gone to another machine.
\<close>

lemma emergency_call_falls_back:
  assumes "ds_open e = Some (\<lambda>_. LOC_API_ADAPTER_ERR_ENGINE_BUSY)" and "timer_handle e = (\<lambda>_. True)"
    and "ds_init e = Some (\<lambda>_. 0)" and "agps_capable e" and "use_emergency_pdn e"
  shows "\<exists>m s. agps_run e ([Op_create, Op_requestATL h LOC_AGPS_TYPE_SUPL_ES]
        @ concat (replicate 4 [Op_retry, Op_requestATL h LOC_AGPS_TYPE_SUPL_ES])) AgpsManager = Some m
    \<and> mgr_out m = DSClientInit False
        # concat (replicate 4 [DSClientOpenAndStart, StartRetryTimer, SendRequestATL h LOC_AGPS_TYPE_SUPL_ES])
        @ [DSClientOpenAndStart, SendRequestATL h LOC_AGPS_TYPE_SUPL]
    \<and> mDsNif m = Some s \<and> mState s = AGPS_STATE_RELEASED \<and> mRetries s = 0 \<and> handles s = [h]"
  by (simp add: assms agps_run_defs agps_event_defs agps_list_defs Let_def handles_def numeral_eq_Suc)

text \<open>
  A refused emergency retry is lost. When the old connection has closed and an active subscriber waits, the
  machine moves to pending whatever the data client answers; if it answers busy, the timer and the retried request
  come, but a pending machine only notes the request: the data call is not started again, and the subscriber is never
  answered by further retries.
\<close>

lemma emergency_retry_lost:
  assumes "ds_open e = Some f" and "f 0 = LOC_API_ADAPTER_ERR_SUCCESS" and "f 1 = LOC_API_ADAPTER_ERR_ENGINE_BUSY"
    and "timer_handle e = (\<lambda>_. True)" and "ds_stop_registered e"
    and "ds_init e = Some (\<lambda>_. 0)" and "agps_capable e" and "use_emergency_pdn e" and "h \<noteq> h'"
  shows "\<exists>m s. agps_run e [Op_create, Op_requestATL h LOC_AGPS_TYPE_SUPL_ES, Op_DataCallOpened, Op_releaseATL h,
        Op_requestATL h' LOC_AGPS_TYPE_SUPL_ES, Op_DataCallClosed] AgpsManager = Some m
    \<and> mDsNif m = Some s \<and> mState s = AGPS_STATE_PENDING \<and> handles s = [h']
    \<and> last (mgr_out m) = StartRetryTimer
    \<and> (\<forall>n. \<exists>m'. agps_run e (concat (replicate n [Op_retry, Op_requestATL h' LOC_AGPS_TYPE_SUPL_ES])) m = Some m'
          \<and> mgr_out m' = mgr_out m @ replicate n (SendRequestATL h' LOC_AGPS_TYPE_SUPL_ES))"
proof -
  let ?ops = "[Op_create, Op_requestATL h LOC_AGPS_TYPE_SUPL_ES, Op_DataCallOpened, Op_releaseATL h,
      Op_requestATL h' LOC_AGPS_TYPE_SUPL_ES, Op_DataCallClosed]"
  obtain m s p where m: "agps_run e ?ops AgpsManager = Some m" "mDsNif m = Some s"
      "mState s = AGPS_STATE_PENDING" "handles s = [h']" "last (mgr_out m) = StartRetryTimer"
      "mSubscriberList s = [p]" "0 < p" "\<not> mIsInactive (objs s p)" "mConnHandle (objs s p) = h'"
    using assms by (simp add: agps_run_defs agps_event_defs agps_list_defs Let_def handles_def)
  have retries: "\<exists>m'. agps_run e (concat (replicate n [Op_retry, Op_requestATL h' LOC_AGPS_TYPE_SUPL_ES])) m1 = Some m'
      \<and> mgr_out m' = mgr_out m1 @ replicate n (SendRequestATL h' LOC_AGPS_TYPE_SUPL_ES)"
    if "mDsNif m1 = Some s1" "mState s1 = AGPS_STATE_PENDING" "mSubscriberList s1 = [p]"
      "\<not> mIsInactive (objs s1 p)" "mConnHandle (objs s1 p) = h'" for n m1 s1
    using that
  proof (induction n arbitrary: m1 s1)
    case 0
    then show ?case by simp
  next
    case (Suc n)
    let ?r = "[Op_retry, Op_requestATL h' LOC_AGPS_TYPE_SUPL_ES]"
    obtain m2 s2 where m2: "agps_run e ?r m1 = Some m2" "mDsNif m2 = Some s2"
        "mState s2 = AGPS_STATE_PENDING" "mSubscriberList s2 = [p]" "\<not> mIsInactive (objs s2 p)"
        "mConnHandle (objs s2 p) = h'" "mgr_out m2 = mgr_out m1 @ [SendRequestATL h' LOC_AGPS_TYPE_SUPL_ES]"
      using Suc.prems assms \<open>0 < p\<close>
      by (simp add: agps_run_defs agps_event_defs agps_list_defs Let_def)
    from Suc.IH [OF m2(2-6)] m2(1,7) show ?case
      by (auto split: option.splits)
  qed
  show ?thesis using m retries [OF m(2,3,6,8,9)] by blast
qed

section \<open>Flaws\<close>

text \<open>
  A freed subscriber is compared with the rest of the list. If its memory has been reused and now holds another
  subscriber's handle, releasing subscriber 7 also deletes subscriber 8, which is told nothing.
\<close>

lemma release_reads_freed_memory:
  "\<exists>m s. agps_run (kind_env\<lparr>freed := (\<lambda>x. x\<lparr>mConnHandle := 8\<rparr>)\<rparr>) (acquired_run @ [Op_releaseATL 7]) AgpsManager = Some m
    \<and> mAgnssNif m = Some s \<and> handles s = [] \<and> closed (mgr_out m) = [7]"
  by (simp add: acquired_run_def agps_run_defs agps_event_defs agps_list_defs kind_env_def Let_def handles_def)

text \<open>
  A modem restart drops the subscribers and keeps the state: the next subscriber is told at once that its
  connection is open, although nothing was requested from the restarted modem.
\<close>

lemma restart_keeps_connection_state:
  "\<exists>m. agps_run kind_env (acquired_run @ [Op_ModemSSR, Op_requestATL 9 1]) AgpsManager = Some m
    \<and> last (mgr_out m) = AtlOpenStatus 9 1 (Some ''ims'') 1 1"
  by (simp add: acquired_run_def agps_run_defs agps_event_defs agps_list_defs kind_env_def Let_def
      dropAllSubscribers_def)

text \<open>A report for a machine that was never created dereferences a null pointer.\<close>

lemma report_without_machine_crashes:
  "\<not> agps_capable e \<Longrightarrow> agps_run e [Op_create, Op_AtlClosed LOC_AGPS_TYPE_SUPL] AgpsManager = None"
  by (simp add: agps_run_defs Let_def)

end
