(* ===== verification/RuleStore.thy ===== *)
theory RuleStore
  imports Prelude
begin

text \<open>
  The contract of a store that gives out a handle for every rule it takes and removes a rule by its handle: the
  abstract map, what a reply says about it, and what follows for a whole run of requests. The NAT driver provides it.
\<close>

datatype 'r store_request = Add_rule 'r | Del_rule nat
datatype store_reply = Added nat | Deleted | Refused

text \<open>
  The step of the map that a reply tells of; \<open>None\<close> where the reply is wrong: a handle that is in use, a deletion of
  what is not there, the refusal to delete what is there.
\<close>

fun store_step :: "'r store_request \<Rightarrow> store_reply \<Rightarrow> (nat \<rightharpoonup> 'r) \<Rightarrow> (nat \<rightharpoonup> 'r) option" where
  "store_step (Add_rule r) (Added h) m = (if m h = None then Some (m(h \<mapsto> r)) else None)"
| "store_step (Add_rule r) Refused m = Some m"
| "store_step (Del_rule h) Deleted m = (if m h = None then None else Some (m(h := None)))"
| "store_step (Del_rule h) Refused m = (if m h = None then Some m else None)"
| "store_step _ _ m = None"

fun replay :: "'r store_request list \<Rightarrow> store_reply list \<Rightarrow> (nat \<rightharpoonup> 'r) \<Rightarrow> (nat \<rightharpoonup> 'r) option" where
  "replay [] [] m = Some m"
| "replay (q # qs) (a # as) m = Option.bind (store_step q a m) (replay qs as)"
| "replay _ _ m = None"

primrec serve_all ::
    "('r store_request \<Rightarrow> 'c \<Rightarrow> (store_reply \<times> 'c) option) \<Rightarrow> 'r store_request list \<Rightarrow> 'c
     \<Rightarrow> (store_reply list \<times> 'c) option" where
  "serve_all serve [] c = Some ([], c)"
| "serve_all serve (q # qs) c =
     Option.bind (serve q c) (\<lambda>(a, c). map_option (\<lambda>(as, c). (a # as, c)) (serve_all serve qs c))"

text \<open>A handle in use is not given out again, and names the same rule until it is deleted.\<close>

lemma replay_keeps:
  assumes "replay qs as m = Some m'" "m h = Some r" "Del_rule h \<notin> set qs"
  shows "m' h = Some r \<and> Added h \<notin> set as"
  using assms
proof (induction qs as m rule: replay.induct)
  case (2 q qs a as m)
  then obtain m1 where m1: "store_step q a m = Some m1" "replay qs as m1 = Some m'"
    by (auto split: Option.bind_splits)
  have "m1 h = Some r \<and> a \<noteq> Added h"
    using m1(1) "2.prems"(2,3) by (cases q; cases a) (auto split: if_splits)
  then show ?case using "2.IH" [OF m1] "2.prems"(3) by auto
qed simp_all

text \<open>The handles in use are those given out and not deleted since.\<close>

fun handles_out :: "'r store_request list \<Rightarrow> store_reply list \<Rightarrow> nat set \<Rightarrow> nat set" where
  "handles_out (q # qs) (a # as) H = handles_out qs as (case (q, a) of
     (Add_rule _, Added h) \<Rightarrow> insert h H
   | (Del_rule h, Deleted) \<Rightarrow> H - {h}
   | _ \<Rightarrow> H)"
| "handles_out _ _ H = H"

lemma replay_dom: "replay qs as m = Some m' \<Longrightarrow> dom m' = handles_out qs as (dom m)"
proof (induction qs as m rule: replay.induct)
  case (2 q qs a as m)
  then obtain m1 where m1: "store_step q a m = Some m1" "replay qs as m1 = Some m'"
    by (auto split: Option.bind_splits)
  have "dom m1 = (case (q, a) of (Add_rule _, Added h) \<Rightarrow> insert h (dom m) | (Del_rule h, Deleted) \<Rightarrow> dom m - {h}
      | _ \<Rightarrow> dom m)"
    using m1(1) by (cases q; cases a) (auto split: if_splits)
  then show ?case using "2.IH" [OF m1] by simp
qed auto

locale rule_store =
  fixes ok :: "'c \<Rightarrow> bool"
    and rules :: "'c \<Rightarrow> nat \<Rightarrow> 'r option"
    and allowed :: "'r store_request \<Rightarrow> bool"
    and serve :: "'r store_request \<Rightarrow> 'c \<Rightarrow> (store_reply \<times> 'c) option"
  assumes serve_law: "ok c \<Longrightarrow> allowed q \<Longrightarrow>
    \<exists>a c'. serve q c = Some (a, c') \<and> ok c' \<and> store_step q a (rules c) = Some (rules c')"
begin

text \<open>Every run ends, keeps the store's invariant and is a run of the map.\<close>

lemma runs_refine:
  "ok c \<Longrightarrow> \<forall>q\<in>set qs. allowed q \<Longrightarrow>
   \<exists>as c'. serve_all serve qs c = Some (as, c') \<and> ok c' \<and> replay qs as (rules c) = Some (rules c')"
proof (induction qs arbitrary: c)
  case (Cons q qs)
  obtain a c1 where 1: "serve q c = Some (a, c1)" "ok c1" "store_step q a (rules c) = Some (rules c1)"
    using serve_law [OF Cons.prems(1), of q] Cons.prems(2) by auto
  obtain as c' where "serve_all serve qs c1 = Some (as, c')" "ok c'" "replay qs as (rules c1) = Some (rules c')"
    using Cons.IH [OF 1(2)] Cons.prems(2) by auto
  then show ?case using 1 by auto
qed simp

lemma rule_kept:
  assumes "ok c" "\<forall>q\<in>set qs. allowed q" "rules c h = Some r" "Del_rule h \<notin> set qs"
    and "serve_all serve qs c = Some (as, c')"
  shows "rules c' h = Some r" "Added h \<notin> set as"
proof -
  have "replay qs as (rules c) = Some (rules c')" using runs_refine [OF assms(1,2)] assms(5) by auto
  from replay_keeps [OF this assms(3,4)] show "rules c' h = Some r" "Added h \<notin> set as" by auto
qed

text \<open>A rule that was added is deleted by its handle, and the store is what it was.\<close>

lemma add_then_delete:
  assumes "ok c" "allowed (Add_rule r)" "serve (Add_rule r) c = Some (Added h, c1)" "allowed (Del_rule h)"
  shows "\<exists>c2. serve (Del_rule h) c1 = Some (Deleted, c2) \<and> rules c2 = rules c"
proof -
  have 1: "ok c1" "rules c h = None" "rules c1 = (rules c)(h \<mapsto> r)"
    using serve_law [OF assms(1,2)] assms(3) by (auto split: if_splits)
  obtain a c2 where 2: "serve (Del_rule h) c1 = Some (a, c2)"
    "store_step (Del_rule h) a (rules c1) = Some (rules c2)"
    using serve_law [OF 1(1) assms(4)] by blast
  then have "a = Deleted \<and> rules c2 = rules c" using 1(2,3) by (cases a) (auto simp: fun_upd_idem)
  then show ?thesis using 2(1) by simp
qed

end

end
