(* ===== verification/NatWords.thy ===== *)
theory NatWords
  imports Prelude
begin

text \<open>
  The vocabulary of the NAT driver library, \<open>hardware/data-ipa-cfg-mgr/ipanat\<close>: the layouts of a NAT rule
  (\<open>inc/ipa_nat_drvi.h\<close>) and the utility functions of \<open>src/ipa_nat_drvi.c\<close> that work on
  machine integers alone. A bit field of the C structures is a word of its width; the 32-bit members that the code
  takes apart with \<open>Read8BitFieldValue\<close> and its kin stay 32-bit words.
\<close>

section \<open>Layouts\<close>

text \<open>The client's rule, \<open>ipa_nat_ipv4_rule\<close>.\<close>

record ipa_nat_ipv4_rule =
  cl_target_ip :: "32 word"
  cl_private_ip :: "32 word"
  cl_target_port :: "16 word"
  cl_private_port :: "16 word"
  cl_public_port :: "16 word"
  cl_protocol :: "8 word"
  cl_pdn_index :: "8 word"

text \<open>\<open>struct ipa_nat_rule\<close>, the entry of the tables the hardware reads.\<close>

record ipa_nat_rule =
  hw_private_ip :: "32 word"
  hw_target_ip :: "32 word"
  nxt_indx_pub_port :: "32 word"
  hw_private_port :: "16 word"
  hw_target_port :: "16 word"
  ip_cksm_enbl :: "32 word"
  ts_proto :: "32 word"
  sw_spec_params :: "32 word"
  hw_rsvd2 :: "8 word"
  hw_rsvd3 :: "4 word"
  hw_pdn_index :: "4 word"
  hw_tcp_udp_chksum :: "16 word"

definition zero_rule :: ipa_nat_rule where
  "zero_rule = \<lparr>hw_private_ip = 0, hw_target_ip = 0, nxt_indx_pub_port = 0, hw_private_port = 0,
     hw_target_port = 0, ip_cksm_enbl = 0, ts_proto = 0, sw_spec_params = 0, hw_rsvd2 = 0, hw_rsvd3 = 0,
     hw_pdn_index = 0, hw_tcp_udp_chksum = 0\<rparr>"

text \<open>\<open>struct ipa_nat_sw_rule\<close>, the same 32 bytes with the fields the driver fills.\<close>

record ipa_nat_sw_rule =
  sw_private_ip :: "32 word"
  sw_target_ip :: "32 word"
  sw_next_index :: "16 word"
  sw_public_port :: "16 word"
  sw_private_port :: "16 word"
  sw_target_port :: "16 word"
  sw_ip_chksum :: "16 word"
  sw_rsvd1 :: "14 word"
  sw_redirect :: "1 word"
  sw_enable :: "1 word"
  sw_time_stamp :: "24 word"
  sw_protocol :: "8 word"
  sw_prev_index :: "16 word"
  sw_indx_tbl_entry :: "16 word"
  sw_rsvd2 :: "8 word"
  sw_rsvd3 :: "4 word"
  sw_pdn_index :: "4 word"
  sw_tcp_udp_chksum :: "16 word"

definition zero_sw_rule :: ipa_nat_sw_rule where
  "zero_sw_rule = \<lparr>sw_private_ip = 0, sw_target_ip = 0, sw_next_index = 0, sw_public_port = 0,
     sw_private_port = 0, sw_target_port = 0, sw_ip_chksum = 0, sw_rsvd1 = 0, sw_redirect = 0, sw_enable = 0,
     sw_time_stamp = 0, sw_protocol = 0, sw_prev_index = 0, sw_indx_tbl_entry = 0, sw_rsvd2 = 0, sw_rsvd3 = 0,
     sw_pdn_index = 0, sw_tcp_udp_chksum = 0\<rparr>"

text \<open>
  Two halves of a little endian 32-bit word, and the fields at bits 0, 16, 30 and 31 or 0 and 24. \<open>hw_rule\<close> is
  what a \<open>memcpy\<close> of the driver's layout means in the hardware's.
\<close>

definition halves :: "16 word \<Rightarrow> 16 word \<Rightarrow> 32 word" where
  "halves lo hi = ucast lo OR push_bit 16 (ucast hi)"

definition hw_rule :: "ipa_nat_sw_rule \<Rightarrow> ipa_nat_rule" where
  "hw_rule s = \<lparr>
     hw_private_ip = sw_private_ip s,
     hw_target_ip = sw_target_ip s,
     nxt_indx_pub_port = halves (sw_next_index s) (sw_public_port s),
     hw_private_port = sw_private_port s,
     hw_target_port = sw_target_port s,
     ip_cksm_enbl = ucast (sw_ip_chksum s) OR push_bit 16 (ucast (sw_rsvd1 s))
                    OR push_bit 30 (ucast (sw_redirect s)) OR push_bit 31 (ucast (sw_enable s)),
     ts_proto = ucast (sw_time_stamp s) OR push_bit 24 (ucast (sw_protocol s)),
     sw_spec_params = halves (sw_prev_index s) (sw_indx_tbl_entry s),
     hw_rsvd2 = sw_rsvd2 s,
     hw_rsvd3 = sw_rsvd3 s,
     hw_pdn_index = sw_pdn_index s,
     hw_tcp_udp_chksum = sw_tcp_udp_chksum s\<rparr>"

section \<open>Reading and writing fields\<close>

datatype ipa_nat_rule_field_type =
    NEXT_INDEX_FIELD
  | PUBLIC_PORT_FILED
  | PRIVATE_PORT_FIELD
  | TARGET_PORT_FIELD
  | IP_CHKSUM_FIELD
  | ENABLE_FIELD
  | TIME_STAMP_FIELD
  | PROTOCOL_FIELD
  | TCP_UDP_CHKSUM_FIELD
  | SW_SPEC_PARAM_PREV_INDEX_FIELD
  | SW_SPEC_PARAM_INDX_TBL_ENTRY_FIELD
  | INDX_TBL_TBL_ENTRY_FIELD
  | INDX_TBL_NEXT_INDEX_FILED

datatype sw_param_type = IPA_NAT_SW_PARAM_PREV_INDX_BYTE | IPA_NAT_SW_PARAM_INDX_TBL_ENTRY_BYTE

definition UpdateSwSpecParams :: "ipa_nat_rule \<Rightarrow> sw_param_type \<Rightarrow> 32 word \<Rightarrow> ipa_nat_rule" where
  "UpdateSwSpecParams rule param_type value = (
     let temp = sw_spec_params rule in
     case param_type of
       IPA_NAT_SW_PARAM_INDX_TBL_ENTRY_BYTE \<Rightarrow>
         rule\<lparr>sw_spec_params := (temp AND 0x0000FFFF) OR push_bit 16 value\<rparr>
     | IPA_NAT_SW_PARAM_PREV_INDX_BYTE \<Rightarrow>
         rule\<lparr>sw_spec_params := (temp AND 0xFFFF0000) OR value\<rparr>)"

definition Read8BitFieldValue :: "32 word \<Rightarrow> ipa_nat_rule_field_type \<Rightarrow> 8 word" where
  "Read8BitFieldValue param fld_type = (case fld_type of
     PROTOCOL_FIELD \<Rightarrow> ucast (drop_bit 24 param)
   | _ \<Rightarrow> 0)"

definition Read16BitFieldValue :: "32 word \<Rightarrow> ipa_nat_rule_field_type \<Rightarrow> 16 word" where
  "Read16BitFieldValue param fld_type = (case fld_type of
     NEXT_INDEX_FIELD \<Rightarrow> ucast param
   | PUBLIC_PORT_FILED \<Rightarrow> ucast (drop_bit 16 param)
   | ENABLE_FIELD \<Rightarrow> ucast (drop_bit 31 param)
   | SW_SPEC_PARAM_PREV_INDEX_FIELD \<Rightarrow> ucast param
   | SW_SPEC_PARAM_INDX_TBL_ENTRY_FIELD \<Rightarrow> ucast (drop_bit 16 param)
   | INDX_TBL_TBL_ENTRY_FIELD \<Rightarrow> ucast param
   | INDX_TBL_NEXT_INDEX_FILED \<Rightarrow> ucast (drop_bit 16 param)
   | IP_CHKSUM_FIELD \<Rightarrow> ucast param
   | _ \<Rightarrow> 0)"

definition Read32BitFieldValue :: "32 word \<Rightarrow> ipa_nat_rule_field_type \<Rightarrow> 32 word" where
  "Read32BitFieldValue param fld_type = (case fld_type of
     TIME_STAMP_FIELD \<Rightarrow> param AND 0xFFFFFF
   | _ \<Rightarrow> 0)"

section \<open>Sizes\<close>

text \<open>
  \<open>None\<close> stands for the loop that does not end, which a number of 0 would give; the caller of the loop has
  excluded it. The result of \<open>GetNearest2Power\<close> is \<open>None\<close> for \<open>-EINVAL\<close>.
\<close>

function pow2_loop :: "16 word \<Rightarrow> 16 word \<Rightarrow> 16 word \<Rightarrow> 16 word option" where
  "pow2_loop number num tmp =
     (if num = 1 then Some (if number \<noteq> tmp then tmp * 2 else tmp)
      else if num = 0 then None
      else pow2_loop number (drop_bit 1 num) (tmp * 2))"
  by pat_completeness auto

lemma unat_drop_1: "unat (drop_bit 1 (w :: 16 word)) = unat w div 2"
  unfolding unat_drop_bit_eq by (simp add: drop_bit_eq_div)

termination pow2_loop
proof (relation "measure (\<lambda>(_, num, _). unat num)", goal_cases)
  case (2 number num tmp)
  then have "0 < unat num" by (simp add: unat_gt_0)
  then have "unat (drop_bit 1 num) < unat num"
    unfolding unat_drop_1 by simp
  then show ?case by simp
qed simp

declare pow2_loop.simps [simp del]

definition GetNearest2Power :: "16 word \<Rightarrow> 16 word option" where
  "GetNearest2Power num =
     (if num = 0 then None
      else if num = 1 then Some 2
      else pow2_loop num num 1)"

function even_loop :: "16 word \<Rightarrow> 16 word" where
  "even_loop num = (if num AND 1 \<noteq> 0 then even_loop (num + 1) else num)"
  by pat_completeness auto

lemma odd_word_plus: "(w :: 16 word) AND 1 \<noteq> 0 \<Longrightarrow> (w + 1) AND 1 = 0"
  by (simp add: and_one_eq flip: even_iff_mod_2_eq_zero)

termination even_loop
  by (relation "measure (\<lambda>num. unat (num AND 1))") (auto simp: odd_word_plus unat_gt_0)

declare even_loop.simps [simp del]

definition GetNearestEven :: "16 word \<Rightarrow> 16 word" where
  "GetNearestEven num = (if num < 2 then 2 else even_loop num)"

text \<open>
  The shares \<open>.8\<close> and \<open>.2\<close> of a 16-bit number, in \<open>double\<close> and cut to 16 bits: for each of the
  65536 numbers the double product truncates to the quotient of integers.
\<close>

definition base_share :: "16 word \<Rightarrow> 16 word" where
  "base_share n = of_nat (4 * unat n div 5)"

definition expansion_share :: "16 word \<Rightarrow> 16 word" where
  "expansion_share n = of_nat (unat n div 5)"

section \<open>Hashes\<close>

definition dst_hash :: "bool \<Rightarrow> 32 word \<Rightarrow> 32 word \<Rightarrow> 16 word \<Rightarrow> 16 word \<Rightarrow> 8 word \<Rightarrow> 16 word \<Rightarrow> 16 word" where
  "dst_hash v4_0 public_ip trgt_ip trgt_port public_port proto sz = (
     let hash = ucast trgt_ip XOR ucast (drop_bit 16 trgt_ip) XOR trgt_port XOR public_port XOR ucast proto;
         hash = (if v4_0 then hash XOR (ucast public_ip XOR ucast (drop_bit 16 public_ip)) else hash);
         hash = hash AND sz
     in if hash = 0 then sz else hash)"

definition src_hash :: "32 word \<Rightarrow> 16 word \<Rightarrow> 32 word \<Rightarrow> 16 word \<Rightarrow> 8 word \<Rightarrow> 16 word \<Rightarrow> 16 word" where
  "src_hash priv_ip priv_port trgt_ip trgt_port proto sz = (
     let hash = ucast priv_ip XOR ucast (drop_bit 16 priv_ip) XOR priv_port
                XOR ucast trgt_ip XOR ucast (drop_bit 16 trgt_ip) XOR trgt_port XOR ucast proto;
         hash = hash AND sz
     in if hash = 0 then sz else hash)"

section \<open>Checksums\<close>

text \<open>The carry that the checksum functions test for after most additions.\<close>

definition end_around :: "32 word \<Rightarrow> 32 word" where
  "end_around cksum = (if drop_bit 16 cksum \<noteq> 0 then (cksum AND 0x0000FFFF) + 1 else cksum)"

definition ipa_nati_calc_ip_cksum :: "32 word \<Rightarrow> 32 word \<Rightarrow> 16 word" where
  "ipa_nati_calc_ip_cksum pub_ip_addr priv_ip_addr = (
     let cksum = 0 + (pub_ip_addr AND 0xFFFF);
         cksum = end_around (cksum + drop_bit 16 pub_ip_addr);
         priv_ip_addr = NOT priv_ip_addr;
         cksum = end_around (cksum + (priv_ip_addr AND 0xFFFF));
         cksum = end_around (cksum + drop_bit 16 priv_ip_addr)
     in ucast cksum)"

definition ipa_nati_calc_tcp_udp_cksum :: "32 word \<Rightarrow> 16 word \<Rightarrow> 32 word \<Rightarrow> 16 word \<Rightarrow> 16 word" where
  "ipa_nati_calc_tcp_udp_cksum pub_ip_addr pub_port priv_ip_addr priv_port = (
     let cksum = 0 + (pub_ip_addr AND 0xFFFF);
         cksum = end_around (cksum + drop_bit 16 pub_ip_addr);
         cksum = end_around (cksum + ucast pub_port);
         priv_ip_addr = NOT priv_ip_addr;
         cksum = end_around (cksum + (priv_ip_addr AND 0xFFFF));
         cksum = end_around (cksum + drop_bit 16 priv_ip_addr);
         priv_port = NOT priv_port;
         cksum = end_around (cksum + ucast priv_port)
     in ucast cksum)"

section \<open>Facts about fields\<close>

lemma bit_16_high: "bit (w :: 16 word) (16 + n) \<longleftrightarrow> False"
  using bit_imp_le_length by fastforce

lemma ucast_low: "ucast ((ucast lo :: 32 word) OR push_bit 16 (ucast hi)) = (lo :: 16 word)"
  for lo hi :: "16 word"
  by (rule bit_word_eqI) (auto simp: bit_simps)

lemma ucast_high: "ucast (drop_bit 16 ((ucast lo :: 32 word) OR push_bit 16 (ucast hi))) = (hi :: 16 word)"
  for lo hi :: "16 word"
  by (rule bit_word_eqI) (auto simp: bit_simps bit_16_high)

lemma ucast_join: "(ucast (ucast w :: 16 word) :: 32 word) OR push_bit 16 (ucast (ucast (drop_bit 16 w) :: 16 word)) = w"
  for w :: "32 word"
  by (rule bit_word_eqI) (auto simp: bit_simps)

lemma read_halves [simp]:
  "Read16BitFieldValue (halves lo hi) NEXT_INDEX_FIELD = lo"
  "Read16BitFieldValue (halves lo hi) PUBLIC_PORT_FILED = hi"
  "Read16BitFieldValue (halves lo hi) SW_SPEC_PARAM_PREV_INDEX_FIELD = lo"
  "Read16BitFieldValue (halves lo hi) SW_SPEC_PARAM_INDX_TBL_ENTRY_FIELD = hi"
  "Read16BitFieldValue (halves lo hi) INDX_TBL_TBL_ENTRY_FIELD = lo"
  "Read16BitFieldValue (halves lo hi) INDX_TBL_NEXT_INDEX_FILED = hi"
  unfolding Read16BitFieldValue_def halves_def ipa_nat_rule_field_type.case ucast_low ucast_high
  by (rule refl)+

lemma read_zero [simp]: "Read16BitFieldValue 0 f = 0" "Read8BitFieldValue 0 f = 0"
  by (cases f; simp add: Read16BitFieldValue_def Read8BitFieldValue_def)+

lemma halves_read:
  "halves (Read16BitFieldValue w NEXT_INDEX_FIELD) (Read16BitFieldValue w PUBLIC_PORT_FILED) = w"
  "halves (Read16BitFieldValue w SW_SPEC_PARAM_PREV_INDEX_FIELD)
     (Read16BitFieldValue w SW_SPEC_PARAM_INDX_TBL_ENTRY_FIELD) = w"
  "halves (Read16BitFieldValue w INDX_TBL_TBL_ENTRY_FIELD)
     (Read16BitFieldValue w INDX_TBL_NEXT_INDEX_FILED) = w"
  unfolding Read16BitFieldValue_def halves_def ipa_nat_rule_field_type.case ucast_join
  by (rule refl)+

lemma mask_low: "(0xFFFF :: 32 word) = mask 16" and mask_high: "(0xFFFF0000 :: 32 word) = NOT (mask 16)"
  by (simp_all add: mask_eq_exp_minus_1)

lemma update_prev:
  "UpdateSwSpecParams r IPA_NAT_SW_PARAM_PREV_INDX_BYTE (ucast (v :: 16 word)) =
   r\<lparr>sw_spec_params := halves v (Read16BitFieldValue (sw_spec_params r) SW_SPEC_PARAM_INDX_TBL_ENTRY_FIELD)\<rparr>"
proof -
  have "(sw_spec_params r AND 0xFFFF0000) OR ucast v =
      halves v (ucast (drop_bit 16 (sw_spec_params r)))"
    unfolding halves_def mask_high
    by (rule bit_word_eqI) (auto simp: bit_simps dest: bit_imp_le_length)
  then show ?thesis
    by (simp add: UpdateSwSpecParams_def Read16BitFieldValue_def)
qed

lemma update_indx:
  "UpdateSwSpecParams r IPA_NAT_SW_PARAM_INDX_TBL_ENTRY_BYTE (ucast (v :: 16 word)) =
   r\<lparr>sw_spec_params := halves (Read16BitFieldValue (sw_spec_params r) SW_SPEC_PARAM_PREV_INDEX_FIELD) v\<rparr>"
proof -
  have "(sw_spec_params r AND 0xFFFF) OR push_bit 16 (ucast v) = halves (ucast (sw_spec_params r)) v"
    unfolding halves_def mask_low
    by (rule bit_word_eqI) (auto simp: bit_simps)
  then show ?thesis
    by (simp add: UpdateSwSpecParams_def Read16BitFieldValue_def)
qed

lemma bit_1_high: "bit (w :: 1 word) (Suc n) \<longleftrightarrow> False"
  using bit_imp_le_length by fastforce

lemma bit_8_high: "bit (w :: 8 word) (8 + n) \<longleftrightarrow> False"
  using bit_imp_le_length by fastforce

lemma read_enable_halves:
  "Read16BitFieldValue (halves lo hi) ENABLE_FIELD = ucast (drop_bit 15 hi)"
  unfolding Read16BitFieldValue_def halves_def ipa_nat_rule_field_type.case
  by (rule bit_word_eqI) (auto simp: bit_simps dest: bit_imp_le_length)

lemma read_protocol_halves:
  "Read8BitFieldValue (halves lo hi) PROTOCOL_FIELD = ucast (drop_bit 8 hi)"
  unfolding Read8BitFieldValue_def halves_def ipa_nat_rule_field_type.case
  by (rule bit_word_eqI) (auto simp: bit_simps dest: bit_imp_le_length)

text \<open>What a packed rule reads back as.\<close>

lemma hw_rule_reads:
  "Read16BitFieldValue (nxt_indx_pub_port (hw_rule s)) NEXT_INDEX_FIELD = sw_next_index s"
  "Read16BitFieldValue (nxt_indx_pub_port (hw_rule s)) PUBLIC_PORT_FILED = sw_public_port s"
  "Read16BitFieldValue (sw_spec_params (hw_rule s)) SW_SPEC_PARAM_PREV_INDEX_FIELD = sw_prev_index s"
  "Read16BitFieldValue (sw_spec_params (hw_rule s)) SW_SPEC_PARAM_INDX_TBL_ENTRY_FIELD = sw_indx_tbl_entry s"
  by (simp_all add: hw_rule_def)

lemma hw_rule_reads_flags:
  "Read16BitFieldValue (ip_cksm_enbl (hw_rule s)) ENABLE_FIELD = ucast (sw_enable s)"
  "Read16BitFieldValue (ip_cksm_enbl (hw_rule s)) IP_CHKSUM_FIELD = sw_ip_chksum s"
  unfolding Read16BitFieldValue_def hw_rule_def ipa_nat_rule_field_type.case ipa_nat_rule.simps
  by (rule bit_word_eqI; auto simp: bit_simps dest: bit_imp_le_length)+

lemma hw_rule_reads_time:
  "Read8BitFieldValue (ts_proto (hw_rule s)) PROTOCOL_FIELD = sw_protocol s"
  "Read32BitFieldValue (ts_proto (hw_rule s)) TIME_STAMP_FIELD = ucast (sw_time_stamp s)"
proof -
  have m: "(0xFFFFFF :: 32 word) = mask 24" by (simp add: mask_eq_exp_minus_1)
  show "Read8BitFieldValue (ts_proto (hw_rule s)) PROTOCOL_FIELD = sw_protocol s"
    unfolding Read8BitFieldValue_def hw_rule_def ipa_nat_rule_field_type.case ipa_nat_rule.simps
    by (rule bit_word_eqI) (auto simp: bit_simps dest: bit_imp_le_length)
  show "Read32BitFieldValue (ts_proto (hw_rule s)) TIME_STAMP_FIELD = ucast (sw_time_stamp s)"
    unfolding Read32BitFieldValue_def hw_rule_def ipa_nat_rule_field_type.case ipa_nat_rule.simps m
    by (rule bit_word_eqI) (auto simp: bit_simps dest: bit_imp_le_length)
qed

section \<open>Facts about hashes and sizes\<close>

lemma hash_bounds:
  "0 < sz \<Longrightarrow> 0 < dst_hash v ip t tp pp pr sz \<and> dst_hash v ip t tp pp pr sz \<le> sz"
  "0 < sz \<Longrightarrow> 0 < src_hash ip pp t tp pr sz \<and> src_hash ip pp t tp pr sz \<le> sz"
  by (auto simp: dst_hash_def src_hash_def Let_def word_and_le1 word_gt_0)

text \<open>The least power of two that is not smaller, and 2 for 1; above 32768 the result wraps to 0.\<close>

lemma div_one:
  assumes "(n :: nat) div d = 1"
  shows "d \<le> n \<and> n < 2 * d"
proof -
  have "0 < d" using assms by (cases d) simp_all
  then have "n mod d < d" and "n = d + n mod d"
    using div_mult_mod_eq [of n d] assms by simp_all
  then show ?thesis by linarith
qed

lemma unat_of_nat16: "n < 65536 \<Longrightarrow> unat (of_nat n :: 16 word) = n"
  by (simp add: unsigned_of_nat take_bit_nat_eq_self)

lemma unat16_less: "unat (w :: 16 word) < 65536"
  using unsigned_less [of w, where ?'a = nat] by simp

lemma pow2_loop_result:
  assumes "unat num = unat number div 2 ^ k" "tmp = of_nat (2 ^ k)" "num \<noteq> 0"
  shows "\<exists>f. pow2_loop number num tmp =
               Some (if unat number = 2 ^ f then of_nat (2 ^ f) else of_nat (2 ^ Suc f)) \<and>
             2 ^ f \<le> unat number \<and> unat number < 2 ^ Suc f"
  using assms
proof (induction number num tmp arbitrary: k rule: pow2_loop.induct)
  case (1 number num tmp)
  have pos: "0 < unat num" using "1.prems"(3) by (simp add: unat_gt_0)
  show ?case
  proof (cases "num = 1")
    case True
    then have "unat number div 2 ^ k = 1" using "1.prems"(1) by simp
    then have b: "2 ^ k \<le> unat number" "unat number < 2 ^ Suc k"
      using div_one [of "unat number" "2 ^ k"] by auto
    have "2 ^ k < (65536 :: nat)" using b(1) unat16_less [of number] by linarith
    then have "unat (of_nat (2 ^ k) :: 16 word) = 2 ^ k" by (rule unat_of_nat16)
    then have eq: "number = of_nat (2 ^ k) \<longleftrightarrow> unat number = 2 ^ k"
      by (simp add: word_unat_eq_iff)
    show ?thesis
      using True b eq "1.prems"(2) by (intro exI [of _ k]) (simp add: pow2_loop.simps mult.commute)
  next
    case False
    have "drop_bit 1 num \<noteq> 0"
    proof
      assume "drop_bit 1 num = 0"
      then have "unat num div 2 = 0" using unat_drop_1 [of num] by simp
      then have "unat num = 1" using pos by simp
      then show False using False by (simp add: word_unat_eq_iff)
    qed
    moreover have "unat (drop_bit 1 num) = unat number div 2 ^ Suc k"
      using "1.prems"(1) unat_drop_1 [of num] by (simp only: power_Suc2 div_mult2_eq)
    moreover have "tmp * 2 = of_nat (2 ^ Suc k)" using "1.prems"(2) by (simp add: mult.commute)
    ultimately show ?thesis
      using "1.IH" [of "Suc k"] False "1.prems"(3) by (subst pow2_loop.simps) simp
  qed
qed

lemma power_above:
  assumes "(2 :: nat) ^ f \<le> n" "n < 2 ^ Suc f" "1 < n"
  shows "n \<le> 32768 \<Longrightarrow> (if n = 2 ^ f then 2 ^ f else 2 ^ Suc f) \<le> (32768 :: nat)"
    and "32768 < n \<Longrightarrow> n < 65536 \<Longrightarrow> n \<noteq> 2 ^ f \<and> f = 15"
proof -
  show "(if n = 2 ^ f then 2 ^ f else 2 ^ Suc f) \<le> (32768 :: nat)" if n: "n \<le> 32768"
  proof (cases "n = 2 ^ f")
    case False
    then have "(2 :: nat) ^ f < 2 ^ 15" using n assms(1) by simp
    then have "f < 15" by (rule power_less_imp_less_exp [rotated]) simp
    then have "(2 :: nat) ^ Suc f \<le> 2 ^ 15" by (intro power_increasing) auto
    then show ?thesis using False by simp
  qed (use n in simp)
  show "n \<noteq> 2 ^ f \<and> f = 15" if n: "32768 < n" "n < 65536"
  proof -
    have "(2 :: nat) ^ 15 < 2 ^ Suc f" using n(1) assms(2) by simp
    then have "15 < Suc f" by (rule power_less_imp_less_exp [rotated]) simp
    moreover have "(2 :: nat) ^ f < 2 ^ 16" using n(2) assms(1) by simp
    then have "f < 16" by (rule power_less_imp_less_exp [rotated]) simp
    ultimately have "f = 15" by simp
    then show ?thesis using n(1) by simp
  qed
qed

lemma GetNearest2Power_result:
  assumes "1 < unat num"
  shows "\<exists>f p. GetNearest2Power num = Some p \<and>
           (unat num \<le> 32768 \<longrightarrow> unat p = 2 ^ f \<and> unat num \<le> unat p \<and> unat p < 2 * unat num) \<and>
           (32768 < unat num \<longrightarrow> p = 0)"
proof -
  have nz: "num \<noteq> 0" "num \<noteq> 1" using assms by auto
  obtain f where f: "pow2_loop num num 1 =
      Some (if unat num = 2 ^ f then of_nat (2 ^ f) else of_nat (2 ^ Suc f))"
      "2 ^ f \<le> unat num" "unat num < 2 ^ Suc f"
    using pow2_loop_result [of num num 0 1] nz by auto
  define n where "n = unat num"
  define k where "k = (if n = 2 ^ f then f else Suc f)"
  note f = f [folded n_def]
  have "GetNearest2Power num = pow2_loop num num 1" using nz by (simp only: GetNearest2Power_def if_False)
  then have res: "GetNearest2Power num = Some (of_nat (2 ^ k))"
    using f(1) by (cases "n = 2 ^ f") (simp_all add: k_def)
  have assms: "1 < n" using assms by (simp add: n_def)
  have low: "unat (of_nat (2 ^ k) :: 16 word) = 2 ^ k \<and> n \<le> 2 ^ k \<and> 2 ^ k < 2 * n" if "n \<le> 32768"
  proof -
    have "2 ^ k \<le> (32768 :: nat)"
      using power_above(1) [OF f(2,3) assms that] by (cases "n = 2 ^ f") (simp_all add: k_def)
    then have "unat (of_nat (2 ^ k) :: 16 word) = 2 ^ k" by (intro unat_of_nat16) linarith
    then show ?thesis using f(2,3) assms by (cases "n = 2 ^ f") (auto simp: k_def)
  qed
  have high: "of_nat (2 ^ k) = (0 :: 16 word)" if "32768 < n"
  proof -
    have "k = 16"
      using power_above(2) [OF f(2,3) assms that unat16_less [of num, folded n_def]] by (auto simp: k_def)
    then show ?thesis by simp
  qed
  show ?thesis
  proof (intro exI conjI impI)
    show "GetNearest2Power num = Some (of_nat (2 ^ k))" by (rule res)
  qed (use low high in \<open>simp_all add: n_def\<close>)
qed

section \<open>Facts about checksums\<close>

definition ip_lo :: "32 word \<Rightarrow> nat" where "ip_lo a = unat (a AND 0xFFFF)"
definition ip_hi :: "32 word \<Rightarrow> nat" where "ip_hi a = unat (drop_bit 16 a)"

lemma unat32_less: "unat (w :: 32 word) < 4294967296"
  using unsigned_less [of w, where ?'a = nat] by simp

lemma ip_lo_eq: "ip_lo a = unat a mod 65536"
proof -
  have "unat (take_bit 16 a) = take_bit 16 (unat a)" by (rule unsigned_take_bit_eq)
  then show ?thesis by (simp only: ip_lo_def mask_low take_bit_eq_mask [symmetric]) (simp add: take_bit_eq_mod)
qed

lemma ip_hi_eq: "ip_hi a = unat a div 65536"
  unfolding ip_hi_def unat_drop_bit_eq by (simp add: drop_bit_eq_div)

lemma ip_halves_less: "ip_lo a \<le> 65535" "ip_hi a \<le> 65535"
  using unat32_less [of a] by (auto simp: ip_lo_eq ip_hi_eq)

lemma ip_not: "ip_lo (NOT a) = 65535 - ip_lo a" "ip_hi (NOT a) = 65535 - ip_hi a"
proof -
  have "unat (NOT a) = 4294967295 - unat a"
  proof -
    have "NOT a = 0xFFFFFFFF - a" by (simp add: not_eq_complement)
    moreover have "a \<le> 0xFFFFFFFF" using unat32_less [of a] by (simp add: word_le_nat_alt)
    ultimately show ?thesis by (simp add: unat_sub)
  qed
  moreover have "unat a = 65536 * ip_hi a + ip_lo a" by (simp add: ip_lo_eq ip_hi_eq)
  ultimately have "unat (NOT a) = 65536 * (65535 - ip_hi a) + (65535 - ip_lo a)"
    using ip_halves_less [of a] by simp
  then show "ip_lo (NOT a) = 65535 - ip_lo a" "ip_hi (NOT a) = 65535 - ip_hi a"
    unfolding ip_lo_eq [of "NOT a"] ip_hi_eq [of "NOT a"] by (simp_all only: mod_mult_self4 div_mult_self4) simp_all
qed

lemma end_around_sum:
  assumes "unat c \<le> 65535" "unat d \<le> 65535"
  shows "unat (end_around (c + d)) \<le> 65535"
    and "unat (end_around (c + d)) mod 65535 = (unat c + unat d) mod 65535"
proof -
  let ?s = "unat c + unat d"
  have s: "unat (c + d) = ?s" using assms by (simp add: unat_plus_if')
  have hi: "drop_bit 16 (c + d) \<noteq> 0 \<longleftrightarrow> 65536 \<le> ?s"
    using ip_hi_eq [of "c + d"] s by (auto simp: ip_hi_def word_unat_eq_iff)
  have "unat (((c + d) AND 0xFFFF) + 1) = ?s - 65535" if "65536 \<le> ?s"
  proof -
    have "unat ((c + d) AND 0xFFFF) = ?s - 65536"
      using ip_lo_eq [of "c + d"] s that assms by (simp add: ip_lo_def le_mod_geq)
    moreover have "Suc (?s - 65536) = ?s - 65535" using that by linarith
    ultimately show ?thesis using assms by (simp add: unat_plus_if')
  qed
  then have e: "unat (end_around (c + d)) = (if 65536 \<le> ?s then ?s - 65535 else ?s)"
    using hi s by (simp add: end_around_def)
  show "unat (end_around (c + d)) \<le> 65535" using e assms by (auto split: if_splits)
  show "unat (end_around (c + d)) mod 65535 = ?s mod 65535"
    using e by (simp add: le_mod_geq)
qed

lemma ucast_small: "unat (c :: 32 word) \<le> 65535 \<Longrightarrow> unat (ucast c :: 16 word) = unat c"
  by (simp add: unsigned_ucast_eq take_bit_nat_eq_self)

text \<open>One step of a checksum: an addition with its carry brought around.\<close>

lemma checksum_step:
  assumes "unat c \<le> 65535 \<and> unat c mod 65535 = n mod 65535" "unat d = k" "k \<le> 65535"
  shows "unat (end_around (c + d)) \<le> 65535 \<and> unat (end_around (c + d)) mod 65535 = (n + k) mod 65535"
  using end_around_sum [of c d] assms by (metis mod_add_left_eq)

lemma checksum_start: "unat (0 + (a AND 0xFFFF)) \<le> 65535 \<and> unat (0 + (a AND 0xFFFF)) mod 65535 = ip_lo a mod 65535"
  using ip_halves_less(1) [of a] by (simp add: ip_lo_def)

lemma unat_not16: "unat (NOT p) = 65535 - unat p" for p :: "16 word"
proof -
  have "NOT p = 0xFFFF - p" by (simp add: not_eq_complement)
  moreover have "p \<le> 0xFFFF" using unat16_less [of p] by (simp add: word_le_nat_alt)
  ultimately show ?thesis by (simp add: unat_sub)
qed

lemma ip_cksum_sum:
  "unat (ipa_nati_calc_ip_cksum pub priv) mod 65535 =
   (ip_lo pub + ip_hi pub + (65535 - ip_lo priv) + (65535 - ip_hi priv)) mod 65535"
proof -
  note h = ip_halves_less [of pub] ip_halves_less [of "NOT priv"]
  note s1 = checksum_step [OF checksum_start [of pub] ip_hi_def [symmetric] h(2)]
  note s2 = checksum_step [OF s1 ip_lo_def [symmetric] h(3)]
  note s3 = checksum_step [OF s2 ip_hi_def [symmetric] h(4)]
  show ?thesis using s3 by (simp add: ipa_nati_calc_ip_cksum_def ucast_small ip_not Let_def)
qed

lemma tcp_udp_cksum_sum:
  "unat (ipa_nati_calc_tcp_udp_cksum pub pub_port priv priv_port) mod 65535 =
   (ip_lo pub + ip_hi pub + unat pub_port + (65535 - ip_lo priv) + (65535 - ip_hi priv)
    + (65535 - unat priv_port)) mod 65535"
proof -
  have u: "unat (ucast p :: 32 word) = unat p" "unat p \<le> 65535" for p :: "16 word"
    using unat16_less [of p] by (simp_all add: unsigned_ucast_eq take_bit_nat_eq_self)
  note h = ip_halves_less [of pub] ip_halves_less [of "NOT priv"]
  note s1 = checksum_step [OF checksum_start [of pub] ip_hi_def [symmetric] h(2)]
  note s2 = checksum_step [OF s1 u [of pub_port]]
  note s3 = checksum_step [OF s2 ip_lo_def [symmetric] h(3)]
  note s4 = checksum_step [OF s3 ip_hi_def [symmetric] h(4)]
  note s5 = checksum_step [OF s4 u [of "NOT priv_port"]]
  show ?thesis
    using s5 by (simp add: ipa_nati_calc_tcp_udp_cksum_def ucast_small ip_not unat_not16 Let_def)
qed

text \<open>Adding \<open>65535 - x\<close> takes \<open>x\<close> away in one's complement arithmetic.\<close>

lemma ones_complement_cancel:
  assumes "x \<le> 65535"
  shows "(r + x + (a + (65535 - x))) mod 65535 = (r + a) mod (65535 :: nat)"
proof -
  have "r + x + (a + (65535 - x)) = r + a + 65535" using assms by simp
  then show ?thesis by (simp only: mod_add_self2)
qed

section \<open>Properties\<close>

text \<open>
  C39: The checksum differences are right. Replacing the private address (and port) by the public ones in data whose
  one's complement sum is known, and adding the difference the driver computes to that sum instead, come to the same
  sum modulo 65535, for all addresses and ports and whatever the rest of the data.
\<close>
theorem checksums_exact:
  "(rest + ip_lo priv + ip_hi priv + unat (ipa_nati_calc_ip_cksum pub priv)) mod 65535
     = (rest + ip_lo pub + ip_hi pub) mod 65535 \<and>
   (rest + ip_lo priv + ip_hi priv + unat priv_port
      + unat (ipa_nati_calc_tcp_udp_cksum pub pub_port priv priv_port)) mod 65535
     = (rest + ip_lo pub + ip_hi pub + unat pub_port) mod 65535"
proof -
  note le = ip_halves_less [of priv]
  have p: "unat priv_port \<le> 65535" using unat16_less [of priv_port] by linarith
  have "(rest + ip_lo priv + ip_hi priv + unat (ipa_nati_calc_ip_cksum pub priv)) mod 65535 =
      (rest + ip_lo priv + ip_hi priv
        + (ip_lo pub + ip_hi pub + (65535 - ip_lo priv) + (65535 - ip_hi priv))) mod 65535"
    using ip_cksum_sum [of pub priv] by (metis mod_add_right_eq)
  also have "\<dots> = (rest + ip_lo priv + (ip_lo pub + ip_hi pub + (65535 - ip_lo priv))) mod 65535"
    by (rule ones_complement_cancel [OF le(2)])
  also have "\<dots> = (rest + (ip_lo pub + ip_hi pub)) mod 65535"
    by (rule ones_complement_cancel [OF le(1)])
  finally have one: "(rest + ip_lo priv + ip_hi priv + unat (ipa_nati_calc_ip_cksum pub priv)) mod 65535
     = (rest + ip_lo pub + ip_hi pub) mod 65535" by (simp only: add.assoc)
  have "(rest + ip_lo priv + ip_hi priv + unat priv_port
      + unat (ipa_nati_calc_tcp_udp_cksum pub pub_port priv priv_port)) mod 65535 =
      (rest + ip_lo priv + ip_hi priv + unat priv_port + (ip_lo pub + ip_hi pub + unat pub_port
        + (65535 - ip_lo priv) + (65535 - ip_hi priv) + (65535 - unat priv_port))) mod 65535"
    using tcp_udp_cksum_sum [of pub pub_port priv priv_port] by (metis mod_add_right_eq)
  also have "\<dots> = (rest + ip_lo priv + ip_hi priv + (ip_lo pub + ip_hi pub + unat pub_port
        + (65535 - ip_lo priv) + (65535 - ip_hi priv))) mod 65535"
    by (rule ones_complement_cancel [OF p])
  also have "\<dots> = (rest + ip_lo priv + (ip_lo pub + ip_hi pub + unat pub_port
        + (65535 - ip_lo priv))) mod 65535"
    by (rule ones_complement_cancel [OF le(2)])
  also have "\<dots> = (rest + (ip_lo pub + ip_hi pub + unat pub_port)) mod 65535"
    by (rule ones_complement_cancel [OF le(1)])
  finally show ?thesis using one by (simp only: add.assoc)
qed


end
