(* ===== verification/NatDriver.thy ===== *)
theory NatDriver
  imports NatWords "HOL-Library.Monad_Syntax"
begin

text \<open>
  The NAT driver library, \<open>hardware/data-ipa-cfg-mgr/ipanat\<close>: the table it shares with the hardware and every
  operation of \<open>src/ipa_nat_drvi.c\<close> and \<open>src/ipa_nat_drv.c\<close> but the dumps.

  An operation works on the cache and gives \<open>None\<close> when the code would read or write outside an array or an
  unmapped region, or loop for ever. A call of the kernel or of \<open>malloc\<close> takes the next answer of the list
  \<open>answers\<close>; when the list is empty the call succeeds. What the kernel does with the table on
  \<open>IPA_IOC_NAT_DMA\<close>, and what it returns elsewhere, is the environment \<open>nat_env\<close>. The driver's mutex is free
  whenever it is taken, since the operations are run one after the other.
\<close>

section \<open>State\<close>

datatype nat_table_type =
    IPA_NAT_BASE_TBL
  | IPA_NAT_EXPN_TBL
  | IPA_NAT_INDX_TBL
  | IPA_NAT_INDEX_EXPN_TBL

datatype del_type =
    IPA_NAT_DEL_TYPE_ONLY_ONE
  | IPA_NAT_DEL_TYPE_HEAD
  | IPA_NAT_DEL_TYPE_MIDDLE
  | IPA_NAT_DEL_TYPE_LAST

datatype nat_ret = RET_0 | EINVAL | ENOMEM | EIO

text \<open>One command of \<open>struct ipa_ioc_nat_dma_cmd\<close>.\<close>

record dma_one =
  table_index :: "8 word"
  base_addr :: nat_table_type
  dma_offset :: "32 word"
  dma_data :: "16 word"

text \<open>The mapped region: the four tables that lie one behind the other.\<close>

record nat_mem =
  ipv4_rules :: "ipa_nat_rule list"
  ipv4_expn_rules :: "ipa_nat_rule list"
  index_table :: "32 word list"
  index_table_expn :: "32 word list"

datatype nat_region = NO_REGION | UNMAPPED | MAPPED nat_mem

record ip4_table =
  valid :: bool
  public_addr :: "32 word"
  tbl_size :: nat
  tbl_addr_offset :: "32 word"
  region :: nat_region
  table_entries :: "16 word"
  expn_table_entries :: "16 word"
  index_expn_table_meta :: "16 word list option"
  rule_id_array :: "16 word list option"
  cur_tbl_cnt :: "16 word"
  cur_expn_tbl_cnt :: "16 word"

definition zero_table :: ip4_table where
  "zero_table = \<lparr>valid = False, public_addr = 0, tbl_size = 0, tbl_addr_offset = 0, region = NO_REGION,
     table_entries = 0, expn_table_entries = 0, index_expn_table_meta = None, rule_id_array = None,
     cur_tbl_cnt = 0, cur_expn_tbl_cnt = 0\<rparr>"

record nat_pdn =
  public_ip :: "32 word"
  src_metadata :: "32 word"
  dst_metadata :: "32 word"

text \<open>\<open>ipv4_nat_cache\<close> and \<open>pdns\<close>; the latter's length is \<open>IPA_MAX_PDN_NUM\<close>.\<close>

record nat_cache =
  ip4_tbl :: "ip4_table list"
  ipa_fd :: nat
  table_cnt :: "8 word"
  ver :: nat
  pdns :: "nat_pdn list"
  answers :: "bool list"

definition nat_start :: "nat \<Rightarrow> nat_cache" where
  "nat_start IPA_MAX_PDN_NUM = \<lparr>ip4_tbl = [zero_table], ipa_fd = 0, table_cnt = 0, ver = 0,
     pdns = replicate IPA_MAX_PDN_NUM \<lparr>public_ip = 0, src_metadata = 0, dst_metadata = 0\<rparr>, answers = []\<rparr>"

text \<open>
  The kernel: what a list of DMA commands does to the tables, the descriptor and the version it hands out, the offset
  of the table memory, what a fresh mapping holds, and the number of version 4.0 in the kernel's header.
\<close>

record nat_env =
  dma_write :: "dma_one list \<Rightarrow> nat_mem \<Rightarrow> nat_mem"
  opened_fd :: nat
  hw_version :: nat
  mem_offset :: "32 word"
  mapped_rule :: "nat \<Rightarrow> ipa_nat_rule"
  mapped_index :: "nat \<Rightarrow> 32 word"
  IPA_HW_v4_0 :: nat

section \<open>Access\<close>

definition rd :: "'a list \<Rightarrow> nat \<Rightarrow> 'a option" where
  "rd xs i = (if i < length xs then Some (xs ! i) else None)"

definition wr :: "'a list \<Rightarrow> nat \<Rightarrow> 'a \<Rightarrow> 'a list option" where
  "wr xs i x = (if i < length xs then Some (xs[i := x]) else None)"

fun mapped :: "nat_region \<Rightarrow> nat_mem option" where
  "mapped (MAPPED m) = Some m"
| "mapped _ = None"

text \<open>The next answer of the outside.\<close>

definition ask :: "nat_cache \<Rightarrow> bool \<times> nat_cache" where
  "ask c = (case answers c of [] \<Rightarrow> (True, c) | a # as \<Rightarrow> (a, c\<lparr>answers := as\<rparr>))"

definition set_tbl :: "nat \<Rightarrow> ip4_table \<Rightarrow> nat_cache \<Rightarrow> nat_cache" where
  "set_tbl i t c = c\<lparr>ip4_tbl := (ip4_tbl c)[i := t]\<rparr>"

definition set_mem :: "nat_mem \<Rightarrow> ip4_table \<Rightarrow> ip4_table" where
  "set_mem m t = t\<lparr>region := MAPPED m\<rparr>"

text \<open>A search upwards through an array: the first index of the list whose element satisfies the test.\<close>

fun scan :: "('a \<Rightarrow> bool) \<Rightarrow> 'a list \<Rightarrow> nat list \<Rightarrow> nat option option" where
  "scan P xs [] = Some None"
| "scan P xs (i # is) = do {
     x \<leftarrow> rd xs i;
     if P x then Some (Some i) else scan P xs is }"

definition ipa_nati_get_entry_offset :: "ip4_table \<Rightarrow> 16 word \<Rightarrow> 32 word" where
  "ipa_nati_get_entry_offset t tbl_entry = 32 * ucast tbl_entry + tbl_addr_offset t"

definition ipa_nati_get_index_entry_offset :: "ip4_table \<Rightarrow> 16 word \<Rightarrow> 32 word" where
  "ipa_nati_get_index_entry_offset t indx_tbl_entry = 4 * ucast indx_tbl_entry + tbl_addr_offset t"

abbreviation (input) IPA_NAT_RULE_FLAG_FIELD_OFFSET :: "32 word" where "IPA_NAT_RULE_FLAG_FIELD_OFFSET \<equiv> 18"
abbreviation (input) IPA_NAT_RULE_NEXT_FIELD_OFFSET :: "32 word" where "IPA_NAT_RULE_NEXT_FIELD_OFFSET \<equiv> 8"
abbreviation (input) IPA_NAT_RULE_PROTO_FIELD_OFFSET :: "32 word" where "IPA_NAT_RULE_PROTO_FIELD_OFFSET \<equiv> 22"
abbreviation (input) IPA_NAT_INDEX_RULE_NEXT_FIELD_OFFSET :: "32 word" where
  "IPA_NAT_INDEX_RULE_NEXT_FIELD_OFFSET \<equiv> 2"
abbreviation (input) IPA_NAT_INDEX_RULE_NAT_INDEX_FIELD_OFFSET :: "32 word" where
  "IPA_NAT_INDEX_RULE_NAT_INDEX_FIELD_OFFSET \<equiv> 0"

abbreviation rule_enabled :: "ipa_nat_rule \<Rightarrow> 16 word" where
  "rule_enabled r \<equiv> Read16BitFieldValue (ip_cksm_enbl r) ENABLE_FIELD"
abbreviation rule_next :: "ipa_nat_rule \<Rightarrow> 16 word" where
  "rule_next r \<equiv> Read16BitFieldValue (nxt_indx_pub_port r) NEXT_INDEX_FIELD"
abbreviation rule_prev :: "ipa_nat_rule \<Rightarrow> 16 word" where
  "rule_prev r \<equiv> Read16BitFieldValue (sw_spec_params r) SW_SPEC_PARAM_PREV_INDEX_FIELD"
abbreviation rule_index :: "ipa_nat_rule \<Rightarrow> 16 word" where
  "rule_index r \<equiv> Read16BitFieldValue (sw_spec_params r) SW_SPEC_PARAM_INDX_TBL_ENTRY_FIELD"
abbreviation rule_proto :: "ipa_nat_rule \<Rightarrow> 8 word" where
  "rule_proto r \<equiv> Read8BitFieldValue (ts_proto r) PROTOCOL_FIELD"
abbreviation index_entry :: "32 word \<Rightarrow> 16 word" where
  "index_entry w \<equiv> Read16BitFieldValue w INDX_TBL_TBL_ENTRY_FIELD"
abbreviation index_next :: "32 word \<Rightarrow> 16 word" where
  "index_next w \<equiv> Read16BitFieldValue w INDX_TBL_NEXT_INDEX_FILED"

section \<open>Creating and deleting the table\<close>

definition ipa_nati_alloc_table ::
    "nat_env \<Rightarrow> 16 word \<Rightarrow> nat_cache \<Rightarrow> (nat_ret \<times> nat \<times> 16 word \<times> 16 word) \<times> nat_cache" where
  "ipa_nati_alloc_table E number_of_entries c = (
     let tbl_entries = base_share number_of_entries;
         tbl_entries = (if tbl_entries = 0 then 1 else tbl_entries)
     in case GetNearest2Power tbl_entries of
       None \<Rightarrow> ((EINVAL, 0, 0, 0), c)
     | Some tbl_entries \<Rightarrow>
       let expn_entries = GetNearestEven (expansion_share number_of_entries);
           total_entries = tbl_entries + expn_entries;
           mem_size = 32 * unat total_entries + 4 * unat total_entries;
           res = (\<lambda>r. (r, mem_size, tbl_entries, expn_entries));
           (open_ok, c) = (if ipa_fd c = 0 then ask c else (True, c))
       in if \<not> open_ok then (res EIO, c)
          else let c = (if ipa_fd c = 0 then c\<lparr>ipa_fd := opened_fd E\<rparr> else c);
                   (ver_ok, c) = ask c
               in if \<not> ver_ok then (res EIO, c)
                  else let (create_ok, c) = ask (c\<lparr>ver := hw_version E\<rparr>)
                       in (res (if create_ok then RET_0 else EINVAL), c))"

text \<open>
  \<open>ipa_nati_update_cache\<close>: filling the table's record, the two arrays of the driver, then the mapping. The
  arrays are allocated only where their pointer is \<open>NULL\<close>, and a failed allocation returns 0 without a mapping.
\<close>

definition update_cache_fill ::
    "nat_env \<Rightarrow> nat \<Rightarrow> 32 word \<Rightarrow> 16 word \<Rightarrow> 16 word \<Rightarrow> ip4_table \<Rightarrow> ip4_table" where
  "update_cache_fill E mem_size pub_addr tbl_entries expn_tbl_entries t =
     t\<lparr>valid := True, public_addr := pub_addr, tbl_size := mem_size, tbl_addr_offset := mem_offset E,
       table_entries := tbl_entries, expn_table_entries := expn_tbl_entries\<rparr>"

definition fresh_mapping :: "nat_env \<Rightarrow> 16 word \<Rightarrow> 16 word \<Rightarrow> nat_mem" where
  "fresh_mapping E tbl_entries expn_tbl_entries =
     \<lparr>ipv4_rules = map (mapped_rule E) [0..<unat tbl_entries],
      ipv4_expn_rules = map (mapped_rule E) [0..<unat expn_tbl_entries],
      index_table = map (mapped_index E) [0..<unat tbl_entries],
      index_table_expn = map (mapped_index E) [0..<unat expn_tbl_entries]\<rparr>"

definition ipa_nati_update_cache ::
    "nat_env \<Rightarrow> nat \<Rightarrow> 32 word \<Rightarrow> 16 word \<Rightarrow> 16 word \<Rightarrow> nat_cache \<Rightarrow> (nat_ret \<times> nat_cache) option" where
  "ipa_nati_update_cache E mem_size pub_addr tbl_entries expn_tbl_entries c = (
     let index = unat (table_cnt c) in do {
       t \<leftarrow> rd (ip4_tbl c) index;
       let t = update_cache_fill E mem_size pub_addr tbl_entries expn_tbl_entries t;
       let (meta_ok, c) = (if index_expn_table_meta t = None then ask c else (True, c));
       if \<not> meta_ok then Some (RET_0, set_tbl index t c)
       else do {
         let t = (if index_expn_table_meta t = None
                  then t\<lparr>index_expn_table_meta := Some (replicate (unat expn_tbl_entries) 0)\<rparr> else t);
         let (ids_ok, c) = (if rule_id_array t = None then ask c else (True, c));
         if \<not> ids_ok then Some (RET_0, set_tbl index t c)
         else do {
           let t = (if rule_id_array t = None
                    then t\<lparr>rule_id_array := Some (replicate (unat tbl_entries + unat expn_tbl_entries) 0)\<rparr> else t);
           let (open_ok, c) = ask c;
           if \<not> open_ok then Some (EIO, set_tbl index t c)
           else do {
             let (mmap_ok, c) = ask c;
             if \<not> mmap_ok then Some (EINVAL, set_tbl index t c)
             else Some (RET_0, set_tbl index (set_mem (fresh_mapping E tbl_entries expn_tbl_entries) t) c) }}}})"

definition ipa_nati_reset_tbl :: "nat \<Rightarrow> nat_cache \<Rightarrow> nat_cache option" where
  "ipa_nati_reset_tbl index c = do {
     t \<leftarrow> rd (ip4_tbl c) index;
     m \<leftarrow> mapped (region t);
     Some (set_tbl index (set_mem
       \<lparr>ipv4_rules = replicate (unat (table_entries t)) zero_rule,
        ipv4_expn_rules = replicate (unat (expn_table_entries t)) zero_rule,
        index_table = replicate (unat (table_entries t)) 0,
        index_table_expn = replicate (unat (expn_table_entries t)) 0\<rparr> t) c) }"

definition ipa_nati_post_ipv4_init_cmd :: "nat_cache \<Rightarrow> nat_ret \<times> nat_cache" where
  "ipa_nati_post_ipv4_init_cmd c = (case ask c of (ok, c) \<Rightarrow> (if ok then RET_0 else EINVAL, c))"

text \<open>The result is the return value and the handle written to \<open>*tbl_hdl\<close>.\<close>

definition ipa_nati_add_ipv4_tbl ::
    "nat_env \<Rightarrow> 32 word \<Rightarrow> 16 word \<Rightarrow> nat_cache \<Rightarrow> ((nat_ret \<times> 32 word) \<times> nat_cache) option" where
  "ipa_nati_add_ipv4_tbl E public_ip_addr number_of_entries c = (
     let tbl_indx = unat (table_cnt c);
         ((r, mem_size, tbl_entries, expn_entries), c) = ipa_nati_alloc_table E number_of_entries c
     in if r \<noteq> RET_0 then Some ((ENOMEM, 0), c)
        else do {
          (r, c) \<leftarrow> ipa_nati_update_cache E mem_size public_ip_addr tbl_entries expn_entries c;
          if r \<noteq> RET_0 then Some ((EINVAL, 0), c)
          else do {
            c \<leftarrow> ipa_nati_reset_tbl tbl_indx c;
            let (r, c) = ipa_nati_post_ipv4_init_cmd c;
            if r \<noteq> RET_0 then Some ((EINVAL, 0), c)
            else do {
              p \<leftarrow> rd (pdns c) 0;
              let c = c\<lparr>pdns := (pdns c)[0 := p\<lparr>public_ip := public_ip_addr\<rparr>]\<rparr>;
              let c = c\<lparr>table_cnt := table_cnt c + 1\<rparr>;
              Some ((RET_0, ucast (table_cnt c)), c) }}})"

definition ipa_nati_del_ipv4_table :: "32 word \<Rightarrow> nat_cache \<Rightarrow> (nat_ret \<times> nat_cache) option" where
  "ipa_nati_del_ipv4_table tbl_hdl c = (
     let index = unat (ucast (tbl_hdl - 1) :: 8 word) in do {
       t \<leftarrow> rd (ip4_tbl c) index;
       if \<not> valid t then Some (EINVAL, c)
       else do {
         let t = (case region t of MAPPED _ \<Rightarrow> t\<lparr>region := UNMAPPED\<rparr> | _ \<Rightarrow> t);
         let c = set_tbl index t c;
         let (close_ok, c) = ask c;
         if \<not> close_ok then Some (EINVAL, c)
         else do {
           let (del_ok, c) = ask c;
           if \<not> del_ok then Some (EINVAL, c)
           else Some (RET_0, (set_tbl index zero_table c)\<lparr>table_cnt := table_cnt c - 1\<rparr>) }}})"

section \<open>Handles\<close>

text \<open>
  A handle is one more than a place in \<open>rule_id_array\<close>; the array holds the entry shifted left, with bit 0 for
  the expansion table. \<open>ipa_nati_make_rule_hdl\<close> returns 0 when no place is free.
\<close>

definition rule_id :: "16 word \<Rightarrow> 16 word \<Rightarrow> 16 word" where
  "rule_id tbl_entries tbl_entry =
     (if tbl_entry \<ge> tbl_entries then push_bit 1 (tbl_entry - tbl_entries) OR 1 else push_bit 1 tbl_entry)"

definition ipa_nati_make_rule_hdl :: "nat \<Rightarrow> 16 word \<Rightarrow> nat_cache \<Rightarrow> (16 word \<times> nat_cache) option" where
  "ipa_nati_make_rule_hdl index tbl_entry c = do {
     t \<leftarrow> rd (ip4_tbl c) index;
     let t = (if tbl_entry \<ge> table_entries t then t\<lparr>cur_expn_tbl_cnt := cur_expn_tbl_cnt t + 1\<rparr>
              else t\<lparr>cur_tbl_cnt := cur_tbl_cnt t + 1\<rparr>);
     let rule_hdl = rule_id (table_entries t) tbl_entry;
     ids \<leftarrow> rule_id_array t;
     cnt \<leftarrow> scan (\<lambda>x. x = 0) ids [0..<unat (table_entries t) + unat (expn_table_entries t)];
     (case cnt of
        Some cnt \<Rightarrow> do {
          ids \<leftarrow> wr ids cnt rule_hdl;
          Some (of_nat cnt + 1, set_tbl index (t\<lparr>rule_id_array := Some ids\<rparr>) c) }
      | None \<Rightarrow> Some (0, set_tbl index t c)) }"

text \<open>The result: is it in the expansion table, and its entry, 0 for an invalid handle.\<close>

definition ipa_nati_parse_ipv4_rule_hdl :: "nat \<Rightarrow> 16 word \<Rightarrow> nat_cache \<Rightarrow> (bool \<times> 16 word) option" where
  "ipa_nati_parse_ipv4_rule_hdl tbl_index rule_hdl c = do {
     t \<leftarrow> rd (ip4_tbl c) tbl_index;
     if unat rule_hdl \<ge> unat (table_entries t) + unat (expn_table_entries t) then Some (False, 0)
     else if rule_hdl = 0 then None
     else do {
       ids \<leftarrow> rule_id_array t;
       id \<leftarrow> rd ids (unat rule_hdl - 1);
       Some (id AND 1 \<noteq> 0, drop_bit 1 id) }}"

definition ipa_nati_query_timestamp ::
    "32 word \<Rightarrow> 32 word \<Rightarrow> nat_cache \<Rightarrow> (nat_ret \<times> 32 word option) option" where
  "ipa_nati_query_timestamp tbl_hdl rule_hdl c = (
     let tbl_index = unat (ucast (tbl_hdl - 1) :: 8 word) in do {
       t \<leftarrow> rd (ip4_tbl c) tbl_index;
       if \<not> valid t then Some (EINVAL, None)
       else do {
         (expn_tbl, tbl_entry) \<leftarrow> ipa_nati_parse_ipv4_rule_hdl tbl_index (ucast rule_hdl) c;
         if region t = NO_REGION then Some (RET_0, None)
         else do {
           m \<leftarrow> mapped (region t);
           r \<leftarrow> rd (if expn_tbl then ipv4_expn_rules m else ipv4_rules m) (unat tbl_entry);
           Some (RET_0, Some (Read32BitFieldValue (ts_proto r) TIME_STAMP_FIELD)) }}})"

definition ipa_nati_modify_pdn :: "nat \<Rightarrow> nat_pdn \<Rightarrow> nat_cache \<Rightarrow> (nat_ret \<times> nat_cache) option" where
  "ipa_nati_modify_pdn pdn_idx entry c = (
     let (ok, c) = ask c in
     if \<not> ok then Some (EIO, c)
     else do {
       ps \<leftarrow> wr (pdns c) pdn_idx entry;
       Some (RET_0, c\<lparr>pdns := ps\<rparr>) })"

section \<open>Generating a rule\<close>

text \<open>
  The walk to the end of a chain in an expansion table, from a non-zero \<open>next\<close>: the last index, or \<open>Some None\<close>
  when an entry names itself as its next. The rule tables and the index tables are walked by the same code with
  another reading of an entry (\<open>next\<close>).
\<close>

partial_function (option) chain_end ::
    "('a \<Rightarrow> 16 word) \<Rightarrow> 'a list \<Rightarrow> 16 word \<Rightarrow> 16 word \<Rightarrow> 16 word \<Rightarrow> 16 word option option" where
  "chain_end next expn tbl_entries nxt_indx prev =
     (if nxt_indx = 0 then Some (Some prev)
      else Option.bind (rd expn (unat (nxt_indx - tbl_entries))) (\<lambda>x.
        if nxt_indx = next x then Some None
        else chain_end next expn tbl_entries (next x) nxt_indx))"

declare chain_end.simps [code]

definition ipa_nati_expn_tbl_free_entry :: "ipa_nat_rule list \<Rightarrow> 16 word \<Rightarrow> 16 word option" where
  "ipa_nati_expn_tbl_free_entry expn sz =
     map_option (\<lambda>cnt. case cnt of Some cnt \<Rightarrow> of_nat cnt | None \<Rightarrow> 0)
       (scan (\<lambda>r. rule_enabled r = 0) expn [1..<unat sz])"

definition ipa_nati_index_expn_get_free_entry :: "32 word list \<Rightarrow> 16 word \<Rightarrow> 16 word option" where
  "ipa_nati_index_expn_get_free_entry expn sz =
     map_option (\<lambda>cnt. case cnt of Some cnt \<Rightarrow> of_nat cnt | None \<Rightarrow> 0)
       (scan (\<lambda>w. index_entry w = 0) expn [1..<unat sz])"

definition clnt_sw_rule :: "ipa_nat_ipv4_rule \<Rightarrow> 32 word \<Rightarrow> ipa_nat_sw_rule" where
  "clnt_sw_rule clnt pub_ip_addr = zero_sw_rule\<lparr>
     sw_private_ip := cl_private_ip clnt,
     sw_private_port := cl_private_port clnt,
     sw_protocol := cl_protocol clnt,
     sw_public_port := cl_public_port clnt,
     sw_target_ip := cl_target_ip clnt,
     sw_target_port := cl_target_port clnt,
     sw_pdn_index := ucast (cl_pdn_index clnt),
     sw_ip_chksum := ipa_nati_calc_ip_cksum pub_ip_addr (cl_private_ip clnt),
     sw_tcp_udp_chksum :=
       (if cl_protocol clnt = 6 \<or> cl_protocol clnt = 17
        then ipa_nati_calc_tcp_udp_cksum pub_ip_addr (cl_public_port clnt) (cl_private_ip clnt) (cl_private_port clnt)
        else 0)\<rparr>"

definition clnt_dst_hash :: "nat_env \<Rightarrow> nat_cache \<Rightarrow> ipa_nat_ipv4_rule \<Rightarrow> 32 word \<Rightarrow> 16 word \<Rightarrow> 16 word" where
  "clnt_dst_hash E c clnt pub_ip_addr tbl_entries =
     dst_hash (IPA_HW_v4_0 E \<le> ver c) pub_ip_addr (cl_target_ip clnt) (cl_target_port clnt) (cl_public_port clnt)
       (cl_protocol clnt) (tbl_entries - 1)"

definition clnt_src_hash :: "ipa_nat_ipv4_rule \<Rightarrow> 16 word \<Rightarrow> 16 word" where
  "clnt_src_hash clnt tbl_entries =
     src_hash (cl_private_ip clnt) (cl_private_port clnt) (cl_target_ip clnt) (cl_target_port clnt)
       (cl_protocol clnt) (tbl_entries - 1)"

text \<open>The results: the new entry, 0 for an error, and the previous entry of its chain.\<close>

definition ipa_nati_generate_tbl_rule ::
    "nat_env \<Rightarrow> nat_cache \<Rightarrow> ip4_table \<Rightarrow> ipa_nat_ipv4_rule \<Rightarrow> 32 word
     \<Rightarrow> (16 word \<times> ipa_nat_sw_rule) option" where
  "ipa_nati_generate_tbl_rule E c t clnt pub_ip_addr = do {
     m \<leftarrow> mapped (region t);
     let sw_rule = clnt_sw_rule clnt pub_ip_addr;
     let new_entry = clnt_dst_hash E c clnt pub_ip_addr (table_entries t);
     r \<leftarrow> rd (ipv4_rules m) (unat new_entry);
     if rule_enabled r = 0 then Some (new_entry, sw_rule)
     else do {
       prev \<leftarrow> (if rule_next r = 0 then Some (Some new_entry)
                 else chain_end rule_next (ipv4_expn_rules m) (table_entries t) (rule_next r) 0);
       (case prev of
          None \<Rightarrow> Some (0, sw_rule)
        | Some prev \<Rightarrow> do {
            free \<leftarrow> ipa_nati_expn_tbl_free_entry (ipv4_expn_rules m) (expn_table_entries t);
            if free = 0 then Some (0, sw_rule\<lparr>sw_prev_index := prev\<rparr>)
            else Some (free + table_entries t, sw_rule\<lparr>sw_prev_index := prev\<rparr>) }) }}"

definition ipa_nati_generate_index_rule ::
    "ip4_table \<Rightarrow> ipa_nat_ipv4_rule \<Rightarrow> (16 word \<times> 16 word) option" where
  "ipa_nati_generate_index_rule t clnt = do {
     m \<leftarrow> mapped (region t);
     let new_entry = clnt_src_hash clnt (table_entries t);
     w \<leftarrow> rd (index_table m) (unat new_entry);
     if index_entry w = 0 then Some (new_entry, 0)
     else do {
       prev \<leftarrow> (if index_next w = 0 then Some (Some new_entry)
                 else chain_end index_next (index_table_expn m) (table_entries t) (index_next w) 0);
       (case prev of
          None \<Rightarrow> Some (0, 0)
        | Some prev \<Rightarrow> do {
            free \<leftarrow> ipa_nati_index_expn_get_free_entry (index_table_expn m) (expn_table_entries t);
            if free = 0 then Some (0, prev)
            else let new_entry = free + table_entries t in
              if prev = new_entry then Some (0, prev) else Some (new_entry, prev) }) }}"

text \<open>
  \<open>ipa_nati_generate_rule\<close>: the rule, its entry, its entry in the index tables and what comes before that in its
  chain. \<open>None\<close> inside the option is \<open>-EINVAL\<close>.
\<close>

definition ipa_nati_generate_rule ::
    "nat_env \<Rightarrow> nat \<Rightarrow> ipa_nat_ipv4_rule \<Rightarrow> 32 word \<Rightarrow> nat_cache
     \<Rightarrow> ((ipa_nat_sw_rule \<times> 16 word \<times> 16 word \<times> 16 word) option \<times> nat_cache) option" where
  "ipa_nati_generate_rule E index clnt pub_ip_addr c = do {
     t \<leftarrow> rd (ip4_tbl c) index;
     (entry, rule) \<leftarrow> ipa_nati_generate_tbl_rule E c t clnt pub_ip_addr;
     if entry = 0 then Some (None, c)
     else do {
       (indx_entry, indx_prev) \<leftarrow> ipa_nati_generate_index_rule t clnt;
       if indx_entry = 0 then Some (None, c)
       else do {
         let rule = rule\<lparr>sw_indx_tbl_entry := indx_entry\<rparr>;
         c \<leftarrow> (if indx_entry \<ge> table_entries t then do {
                  meta \<leftarrow> index_expn_table_meta t;
                  meta \<leftarrow> wr meta (unat (indx_entry - table_entries t)) indx_prev;
                  Some (set_tbl index (t\<lparr>index_expn_table_meta := Some meta\<rparr>) c) }
                else Some c);
         Some (Some (rule, entry, indx_entry, indx_prev), c) }}}"

section \<open>Writing a rule\<close>

text \<open>\<open>ioctl(IPA_IOC_NAT_DMA)\<close> that the kernel accepts.\<close>

definition nat_dma :: "nat_env \<Rightarrow> nat \<Rightarrow> dma_one list \<Rightarrow> nat_cache \<Rightarrow> nat_cache option" where
  "nat_dma E index cmds c = do {
     t \<leftarrow> rd (ip4_tbl c) index;
     m \<leftarrow> mapped (region t);
     Some (set_tbl index (set_mem (dma_write E cmds m) t) c) }"

definition ipa_nati_write_next_index ::
    "nat_env \<Rightarrow> nat \<Rightarrow> nat_table_type \<Rightarrow> 16 word \<Rightarrow> 32 word \<Rightarrow> nat_cache \<Rightarrow> nat_cache option" where
  "ipa_nati_write_next_index E index tbl_type value offset c = (
     let (malloc_ok, c) = ask c in
     if \<not> malloc_ok then Some c
     else let (ioctl_ok, c) = ask c in
       if \<not> ioctl_ok then Some c
       else nat_dma E index
         [\<lparr>table_index = of_nat index, base_addr = tbl_type, dma_offset = offset, dma_data = value\<rparr>] c)"

definition ipa_nati_copy_ipv4_rule_to_hw ::
    "nat_env \<Rightarrow> nat \<Rightarrow> ipa_nat_sw_rule \<Rightarrow> 16 word \<Rightarrow> nat_cache \<Rightarrow> nat_cache option" where
  "ipa_nati_copy_ipv4_rule_to_hw E index rule entry c = do {
     t \<leftarrow> rd (ip4_tbl c) index;
     m \<leftarrow> mapped (region t);
     m \<leftarrow> (if entry < table_entries t
           then map_option (\<lambda>rs. m\<lparr>ipv4_rules := rs\<rparr>) (wr (ipv4_rules m) (unat entry) (hw_rule rule))
           else map_option (\<lambda>rs. m\<lparr>ipv4_expn_rules := rs\<rparr>)
                  (wr (ipv4_expn_rules m) (unat (entry - table_entries t)) (hw_rule rule)));
     let c = set_tbl index (set_mem m t) c;
     let prev_entry = sw_prev_index rule;
     if prev_entry = 0 then Some c
     else
       let (tbl_type, prev_entry) =
             (if prev_entry < table_entries t then (IPA_NAT_BASE_TBL, prev_entry)
              else (IPA_NAT_EXPN_TBL, prev_entry - table_entries t));
           offset = ipa_nati_get_entry_offset t prev_entry + IPA_NAT_RULE_NEXT_FIELD_OFFSET
       in ipa_nati_write_next_index E index tbl_type entry offset c }"

text \<open>The local variable \<open>offset\<close> of the index tables' copy has 16 bits.\<close>

definition ipa_nati_copy_ipv4_index_rule_to_hw ::
    "nat_env \<Rightarrow> nat \<Rightarrow> 16 word \<Rightarrow> 16 word \<Rightarrow> 16 word \<Rightarrow> nat_cache \<Rightarrow> nat_cache option" where
  "ipa_nati_copy_ipv4_index_rule_to_hw E index tbl_entry prev_entry entry c = do {
     t \<leftarrow> rd (ip4_tbl c) index;
     m \<leftarrow> mapped (region t);
     let sw_rule = halves tbl_entry 0;
     m \<leftarrow> (if entry < table_entries t
           then map_option (\<lambda>ws. m\<lparr>index_table := ws\<rparr>) (wr (index_table m) (unat entry) sw_rule)
           else map_option (\<lambda>ws. m\<lparr>index_table_expn := ws\<rparr>)
                  (wr (index_table_expn m) (unat (entry - table_entries t)) sw_rule));
     let c = set_tbl index (set_mem m t) c;
     if prev_entry = 0 then Some c
     else
       let (tbl_type, prev_entry) =
             (if prev_entry < table_entries t then (IPA_NAT_INDX_TBL, prev_entry)
              else (IPA_NAT_INDEX_EXPN_TBL, prev_entry - table_entries t));
           offset = (ucast (ipa_nati_get_index_entry_offset t prev_entry) :: 16 word);
           offset = offset + ucast IPA_NAT_INDEX_RULE_NEXT_FIELD_OFFSET
       in ipa_nati_write_next_index E index tbl_type entry (ucast offset) c }"

text \<open>The offset into the base table is not shifted by \<open>tbl_addr_offset\<close> here.\<close>

definition ipa_nati_post_ipv4_dma_cmd :: "nat_env \<Rightarrow> nat \<Rightarrow> 16 word \<Rightarrow> nat_cache \<Rightarrow> (nat_ret \<times> nat_cache) option" where
  "ipa_nati_post_ipv4_dma_cmd E index entry c = do {
     t \<leftarrow> rd (ip4_tbl c) index;
     let (malloc_ok, c) = ask c;
     if \<not> malloc_ok then Some (ENOMEM, c)
     else do {
       let (tbl_type, offset) =
         (if entry < table_entries t
          then (IPA_NAT_BASE_TBL, 32 * ucast entry + IPA_NAT_RULE_FLAG_FIELD_OFFSET)
          else (IPA_NAT_EXPN_TBL, 32 * ucast (entry - table_entries t) + IPA_NAT_RULE_FLAG_FIELD_OFFSET
                                  + tbl_addr_offset t));
       let (ioctl_ok, c) = ask c;
       if \<not> ioctl_ok then Some (EIO, c)
       else do {
         c \<leftarrow> nat_dma E index
           [\<lparr>table_index = of_nat index, base_addr = tbl_type, dma_offset = offset, dma_data = 0x8000\<rparr>] c;
         Some (RET_0, c) }}}"

text \<open>The result is the return value and the handle written to \<open>*rule_hdl\<close>, if one is written.\<close>

definition ipa_nati_add_ipv4_rule ::
    "nat_env \<Rightarrow> 32 word \<Rightarrow> ipa_nat_ipv4_rule \<Rightarrow> nat_cache \<Rightarrow> ((nat_ret \<times> 16 word option) \<times> nat_cache) option" where
  "ipa_nati_add_ipv4_rule E tbl_hdl clnt c = (
     let index = unat (tbl_hdl - 1); pdn = unat (cl_pdn_index clnt) in
     if pdn \<ge> length (pdns c) then Some ((EINVAL, None), c)
     else if public_ip (pdns c ! pdn) = 0 then Some ((EINVAL, None), c)
     else do {
       (generated, c) \<leftarrow> ipa_nati_generate_rule E index clnt (public_ip (pdns c ! pdn)) c;
       (case generated of
          None \<Rightarrow> Some ((EINVAL, None), c)
        | Some (rule, entry, indx_entry, indx_prev) \<Rightarrow> do {
            c \<leftarrow> ipa_nati_copy_ipv4_rule_to_hw E index rule entry c;
            c \<leftarrow> ipa_nati_copy_ipv4_index_rule_to_hw E index entry indx_prev indx_entry c;
            (r, c) \<leftarrow> ipa_nati_post_ipv4_dma_cmd E index entry c;
            if r \<noteq> RET_0 then Some ((EIO, None), c)
            else do {
              (hdl, c) \<leftarrow> ipa_nati_make_rule_hdl index entry c;
              if hdl = 0 then Some ((EINVAL, Some 0), c)
              else Some ((RET_0, Some hdl), c) }}) })"

section \<open>Deleting a rule\<close>

definition ipa_nati_find_rule_pos :: "nat_mem \<Rightarrow> bool \<Rightarrow> 16 word \<Rightarrow> del_type option" where
  "ipa_nati_find_rule_pos m expn_tbl tbl_entry =
     (if expn_tbl then do {
        r \<leftarrow> rd (ipv4_expn_rules m) (unat tbl_entry);
        Some (if rule_next r = 0 then IPA_NAT_DEL_TYPE_LAST else IPA_NAT_DEL_TYPE_MIDDLE) }
      else do {
        r \<leftarrow> rd (ipv4_rules m) (unat tbl_entry);
        Some (if rule_next r = 0 then IPA_NAT_DEL_TYPE_ONLY_ONE else IPA_NAT_DEL_TYPE_HEAD) })"

definition ipa_nati_find_index_rule_pos :: "ip4_table \<Rightarrow> nat_mem \<Rightarrow> 16 word \<Rightarrow> del_type option" where
  "ipa_nati_find_index_rule_pos t m tbl_entry =
     (if tbl_entry \<ge> table_entries t then do {
        w \<leftarrow> rd (index_table_expn m) (unat (tbl_entry - table_entries t));
        Some (if index_next w = 0 then IPA_NAT_DEL_TYPE_LAST else IPA_NAT_DEL_TYPE_MIDDLE) }
      else do {
        w \<leftarrow> rd (index_table m) (unat tbl_entry);
        Some (if index_next w = 0 then IPA_NAT_DEL_TYPE_ONLY_ONE else IPA_NAT_DEL_TYPE_HEAD) })"

definition is_index_cmd :: "dma_one \<Rightarrow> bool" where
  "is_index_cmd d = (base_addr d = IPA_NAT_INDX_TBL \<or> base_addr d = IPA_NAT_INDEX_EXPN_TBL)"

text \<open>The commands for the index tables go first; without memory the order stays.\<close>

definition ReorderCmds :: "dma_one list \<Rightarrow> nat_cache \<Rightarrow> dma_one list \<times> nat_cache" where
  "ReorderCmds cmds c = (
     let start = length (takeWhile (\<lambda>d. \<not> is_index_cmd d) cmds);
         indx_tbl_start = (if start = length cmds then 0 else start)
     in if indx_tbl_start = 0 then (cmds, c)
        else let (malloc_ok, c) = ask c in
          if \<not> malloc_ok then (cmds, c)
          else (drop indx_tbl_start cmds @ take indx_tbl_start cmds, c))"

text \<open>
  The parts of \<open>ipa_nati_post_del_dma_cmd\<close>, in its order: the command for the rule tables (by the position of the
  rule in its chain), the commands for the index tables, and what is updated by the processor afterwards.
\<close>

definition del_prev_cmd :: "nat \<Rightarrow> ip4_table \<Rightarrow> ipa_nat_rule \<Rightarrow> 16 word \<Rightarrow> dma_one" where
  "del_prev_cmd index t cur value = (
     let prev_entry = rule_prev cur;
         (tbl_type, prev_entry) = (if prev_entry \<ge> table_entries t then (IPA_NAT_EXPN_TBL, prev_entry - table_entries t)
                                   else (IPA_NAT_BASE_TBL, prev_entry))
     in \<lparr>table_index = of_nat index, base_addr = tbl_type,
         dma_offset = ipa_nati_get_entry_offset t prev_entry + IPA_NAT_RULE_NEXT_FIELD_OFFSET,
         dma_data = value\<rparr>)"

definition del_rule_cmd :: "nat \<Rightarrow> ip4_table \<Rightarrow> ipa_nat_rule \<Rightarrow> 16 word \<Rightarrow> del_type \<Rightarrow> dma_one" where
  "del_rule_cmd index t cur cur_tbl_entry rule_pos = (case rule_pos of
     IPA_NAT_DEL_TYPE_ONLY_ONE \<Rightarrow>
       \<lparr>table_index = of_nat index, base_addr = IPA_NAT_BASE_TBL,
        dma_offset = ipa_nati_get_entry_offset t cur_tbl_entry + IPA_NAT_RULE_FLAG_FIELD_OFFSET, dma_data = 0\<rparr>
   | IPA_NAT_DEL_TYPE_HEAD \<Rightarrow>
       \<lparr>table_index = of_nat index, base_addr = IPA_NAT_BASE_TBL,
        dma_offset = ipa_nati_get_entry_offset t cur_tbl_entry + IPA_NAT_RULE_PROTO_FIELD_OFFSET,
        dma_data = 0xFF00\<rparr>
   | IPA_NAT_DEL_TYPE_MIDDLE \<Rightarrow> del_prev_cmd index t cur (rule_next cur)
   | IPA_NAT_DEL_TYPE_LAST \<Rightarrow> del_prev_cmd index t cur 0)"

definition del_index_prev_cmd :: "nat \<Rightarrow> ip4_table \<Rightarrow> 16 word \<Rightarrow> 16 word \<Rightarrow> dma_one option" where
  "del_index_prev_cmd index t indx_entry value = do {
     meta \<leftarrow> index_expn_table_meta t;
     prev_entry \<leftarrow> rd meta (unat indx_entry);
     let (tbl_type, prev_entry) = (if prev_entry \<ge> table_entries t then (IPA_NAT_INDEX_EXPN_TBL, prev_entry - table_entries t)
                                   else (IPA_NAT_INDX_TBL, prev_entry));
     Some \<lparr>table_index = of_nat index, base_addr = tbl_type,
           dma_offset = ipa_nati_get_index_entry_offset t prev_entry + IPA_NAT_INDEX_RULE_NEXT_FIELD_OFFSET,
           dma_data = value\<rparr> }"

text \<open>\<open>indx_entry\<close> is the entry in the index table or, taken down by the size of that, in its expansion.\<close>

definition del_index_cmds :: "nat \<Rightarrow> ip4_table \<Rightarrow> nat_mem \<Rightarrow> 32 word \<Rightarrow> 16 word \<Rightarrow> del_type \<Rightarrow> dma_one list option" where
  "del_index_cmds index t m cur indx_entry indx_rule_pos = (case indx_rule_pos of
     IPA_NAT_DEL_TYPE_ONLY_ONE \<Rightarrow> Some
       [\<lparr>table_index = of_nat index, base_addr = IPA_NAT_INDX_TBL,
         dma_offset = ipa_nati_get_index_entry_offset t indx_entry + IPA_NAT_INDEX_RULE_NAT_INDEX_FIELD_OFFSET,
         dma_data = 0\<rparr>]
   | IPA_NAT_DEL_TYPE_HEAD \<Rightarrow> do {
       next \<leftarrow> rd (index_table_expn m) (unat (index_next cur - table_entries t));
       Some
         [\<lparr>table_index = of_nat index, base_addr = IPA_NAT_INDX_TBL,
           dma_offset = ipa_nati_get_index_entry_offset t indx_entry + IPA_NAT_INDEX_RULE_NAT_INDEX_FIELD_OFFSET,
           dma_data = index_entry next\<rparr>,
          \<lparr>table_index = of_nat index, base_addr = IPA_NAT_INDX_TBL,
           dma_offset = ipa_nati_get_index_entry_offset t indx_entry + IPA_NAT_INDEX_RULE_NEXT_FIELD_OFFSET,
           dma_data = index_next next\<rparr>] }
   | IPA_NAT_DEL_TYPE_MIDDLE \<Rightarrow> map_option (\<lambda>d. [d]) (del_index_prev_cmd index t indx_entry (index_next cur))
   | IPA_NAT_DEL_TYPE_LAST \<Rightarrow> map_option (\<lambda>d. [d]) (del_index_prev_cmd index t indx_entry 0))"

text \<open>
  After the DMA, the rule tables: a rule in the middle hands its predecessor to its successor, and every rule but the
  head of a longer chain is cleared.
\<close>

definition del_fix_rules :: "ip4_table \<Rightarrow> bool \<Rightarrow> 16 word \<Rightarrow> del_type \<Rightarrow> nat_mem \<Rightarrow> nat_mem option" where
  "del_fix_rules t expn_tbl cur_tbl_entry rule_pos m = (case rule_pos of
     IPA_NAT_DEL_TYPE_MIDDLE \<Rightarrow> do {
       cur \<leftarrow> rd (if expn_tbl then ipv4_expn_rules m else ipv4_rules m) (unat cur_tbl_entry);
       let next_entry = unat (rule_next cur - table_entries t);
       next \<leftarrow> rd (ipv4_expn_rules m) next_entry;
       expn \<leftarrow> wr (ipv4_expn_rules m) next_entry
         (UpdateSwSpecParams next IPA_NAT_SW_PARAM_PREV_INDX_BYTE (ucast (rule_prev cur)));
       expn \<leftarrow> wr expn (unat cur_tbl_entry) zero_rule;
       Some (m\<lparr>ipv4_expn_rules := expn\<rparr>) }
   | IPA_NAT_DEL_TYPE_HEAD \<Rightarrow> Some m
   | _ \<Rightarrow>
       if expn_tbl then map_option (\<lambda>rs. m\<lparr>ipv4_expn_rules := rs\<rparr>) (wr (ipv4_expn_rules m) (unat cur_tbl_entry) zero_rule)
       else map_option (\<lambda>rs. m\<lparr>ipv4_rules := rs\<rparr>) (wr (ipv4_rules m) (unat cur_tbl_entry) zero_rule))"

text \<open>
  The index tables: when the next entry was copied into the head, the entry after it gets the head as predecessor, the
  copied entry is cleared, and the rule it names learns its new place.
\<close>

definition del_fix_index_head :: "16 word \<Rightarrow> 16 word \<Rightarrow> ip4_table \<Rightarrow> nat_mem \<Rightarrow> (ip4_table \<times> nat_mem) option" where
  "del_fix_index_head indx_entry indx_next_entry t m = do {
     w \<leftarrow> rd (index_table_expn m) (unat indx_next_entry);
     let next_next = index_next w;
     t \<leftarrow> (if next_next \<noteq> 0 \<and> next_next \<ge> table_entries t then do {
              meta \<leftarrow> index_expn_table_meta t;
              meta \<leftarrow> wr meta (unat (next_next - table_entries t)) indx_entry;
              Some (t\<lparr>index_expn_table_meta := Some meta\<rparr>) }
            else Some t);
     ws \<leftarrow> wr (index_table_expn m) (unat indx_next_entry) 0;
     let m = m\<lparr>index_table_expn := ws\<rparr>;
     head \<leftarrow> rd (index_table m) (unat indx_entry);
     let table_entry = index_entry head;
     (if table_entry \<ge> table_entries t then do {
        r \<leftarrow> rd (ipv4_expn_rules m) (unat (table_entry - table_entries t));
        rs \<leftarrow> wr (ipv4_expn_rules m) (unat (table_entry - table_entries t))
          (UpdateSwSpecParams r IPA_NAT_SW_PARAM_INDX_TBL_ENTRY_BYTE (ucast indx_entry));
        Some (t, m\<lparr>ipv4_expn_rules := rs\<rparr>) }
      else do {
        r \<leftarrow> rd (ipv4_rules m) (unat table_entry);
        rs \<leftarrow> wr (ipv4_rules m) (unat table_entry)
          (UpdateSwSpecParams r IPA_NAT_SW_PARAM_INDX_TBL_ENTRY_BYTE (ucast indx_entry));
        Some (t, m\<lparr>ipv4_rules := rs\<rparr>) }) }"

text \<open>Otherwise the entry is cleared; one in the middle first hands its predecessor to its successor.\<close>

definition del_fix_index_other ::
    "bool \<Rightarrow> 16 word \<Rightarrow> del_type \<Rightarrow> ip4_table \<Rightarrow> nat_mem \<Rightarrow> (ip4_table \<times> nat_mem) option" where
  "del_fix_index_other indx_expn indx_entry indx_rule_pos t m = do {
     t \<leftarrow> (if indx_rule_pos = IPA_NAT_DEL_TYPE_MIDDLE then do {
              w \<leftarrow> rd (if indx_expn then index_table_expn m else index_table m) (unat indx_entry);
              let next_entry = (if index_next w \<ge> table_entries t then index_next w - table_entries t else index_next w);
              meta \<leftarrow> index_expn_table_meta t;
              prev \<leftarrow> rd meta (unat indx_entry);
              meta \<leftarrow> wr meta (unat next_entry) prev;
              meta \<leftarrow> wr meta (unat indx_entry) 0;
              Some (t\<lparr>index_expn_table_meta := Some meta\<rparr>) }
            else Some t);
     if indx_expn then do { ws \<leftarrow> wr (index_table_expn m) (unat indx_entry) 0; Some (t, m\<lparr>index_table_expn := ws\<rparr>) }
     else do { ws \<leftarrow> wr (index_table m) (unat indx_entry) 0; Some (t, m\<lparr>index_table := ws\<rparr>) } }"

definition ipa_nati_post_del_dma_cmd ::
    "nat_env \<Rightarrow> nat \<Rightarrow> 16 word \<Rightarrow> bool \<Rightarrow> del_type \<Rightarrow> nat_cache \<Rightarrow> (nat_ret \<times> nat_cache) option" where
  "ipa_nati_post_del_dma_cmd E index cur_tbl_entry expn_tbl rule_pos c = (
     let (malloc_ok, c) = ask c in
     if \<not> malloc_ok then Some (ENOMEM, c)
     else do {
       t \<leftarrow> rd (ip4_tbl c) index;
       m \<leftarrow> mapped (region t);
       cur \<leftarrow> rd (if expn_tbl then ipv4_expn_rules m else ipv4_rules m) (unat cur_tbl_entry);
       if rule_enabled cur = 0 then Some (EINVAL, c)
       else do {
         let indx_tbl_entry = rule_index cur;
         let rule_cmd = del_rule_cmd index t cur cur_tbl_entry rule_pos;
         indx_rule_pos \<leftarrow> ipa_nati_find_index_rule_pos t m indx_tbl_entry;
         let indx_expn = (indx_tbl_entry \<ge> table_entries t);
         let indx_entry = (if indx_expn then indx_tbl_entry - table_entries t else indx_tbl_entry);
         indx_cur \<leftarrow> rd (if indx_expn then index_table_expn m else index_table m) (unat indx_entry);
         indx_cmds \<leftarrow> del_index_cmds index t m indx_cur indx_entry indx_rule_pos;
         let (cmds, c) = ReorderCmds (rule_cmd # indx_cmds) c;
         let (ioctl_ok, c) = ask c;
         if \<not> ioctl_ok then Some (EIO, c)
         else do {
           m \<leftarrow> del_fix_rules t expn_tbl cur_tbl_entry rule_pos (dma_write E cmds m);
           (t, m) \<leftarrow> (if indx_rule_pos = IPA_NAT_DEL_TYPE_HEAD
                       then del_fix_index_head indx_entry (index_next indx_cur - table_entries t) t m
                       else del_fix_index_other indx_expn indx_entry indx_rule_pos t m);
           Some (RET_0, set_tbl index (set_mem m t) c) }}})"

text \<open>A head whose rule was deleted while others hung on it goes when it hangs alone.\<close>

definition ipa_nati_del_dead_ipv4_head_nodes :: "nat \<Rightarrow> nat_cache \<Rightarrow> nat_cache option" where
  "ipa_nati_del_dead_ipv4_head_nodes index c = do {
     t \<leftarrow> rd (ip4_tbl c) index;
     m \<leftarrow> mapped (region t);
     if length (ipv4_rules m) < unat (table_entries t) then None
     else
       let (swept, rest) = (take (unat (table_entries t)) (ipv4_rules m), drop (unat (table_entries t)) (ipv4_rules m));
           swept = map (\<lambda>r. if rule_proto r = 0xFF \<and> rule_next r = 0 then zero_rule else r) swept
       in Some (set_tbl index (set_mem (m\<lparr>ipv4_rules := swept @ rest\<rparr>) t) c) }"

text \<open>The handle is cut to 16 bits to find the rule, and used whole to clear its place.\<close>

definition ipa_nati_del_ipv4_rule :: "nat_env \<Rightarrow> 32 word \<Rightarrow> 32 word \<Rightarrow> nat_cache \<Rightarrow> (nat_ret \<times> nat_cache) option" where
  "ipa_nati_del_ipv4_rule E tbl_hdl rule_hdl c = (
     let index = unat (ucast (tbl_hdl - 1) :: 8 word) in do {
       (expn_tbl, tbl_entry) \<leftarrow> ipa_nati_parse_ipv4_rule_hdl index (ucast rule_hdl) c;
       if tbl_entry = 0 then Some (EINVAL, c)
       else do {
         t \<leftarrow> rd (ip4_tbl c) index;
         if \<not> valid t then Some (EINVAL, c)
         else do {
           m \<leftarrow> mapped (region t);
           rule_pos \<leftarrow> ipa_nati_find_rule_pos m expn_tbl tbl_entry;
           (r, c) \<leftarrow> ipa_nati_post_del_dma_cmd E index tbl_entry expn_tbl rule_pos c;
           if r \<noteq> RET_0 then Some (EINVAL, c)
           else do {
             c \<leftarrow> ipa_nati_del_dead_ipv4_head_nodes index c;
             t \<leftarrow> rd (ip4_tbl c) index;
             ids \<leftarrow> rule_id_array t;
             ids \<leftarrow> wr ids (unat (rule_hdl - 1)) 0;
             Some (RET_0, set_tbl index (t\<lparr>rule_id_array := Some ids\<rparr>) c) }}}})"

section \<open>The library's interface\<close>

text \<open>\<open>ipa_nat_drv.c\<close>: the checks of the arguments before each call. A \<open>NULL\<close> argument is \<open>None\<close>.\<close>

definition ipa_nat_add_ipv4_tbl ::
    "nat_env \<Rightarrow> 32 word \<Rightarrow> 16 word \<Rightarrow> nat_cache \<Rightarrow> ((nat_ret \<times> 32 word) \<times> nat_cache) option" where
  "ipa_nat_add_ipv4_tbl E public_ip_addr number_of_entries c =
     (if number_of_entries = 0 then Some ((EINVAL, 0), c)
      else do {
        ((r, hdl), c) \<leftarrow> ipa_nati_add_ipv4_tbl E public_ip_addr number_of_entries c;
        Some ((if r \<noteq> RET_0 then EINVAL else r, hdl), c) })"

definition bad_tbl_hdl :: "32 word \<Rightarrow> bool" where
  "bad_tbl_hdl tbl_hdl = (tbl_hdl = 0 \<or> tbl_hdl > 1)"

definition ipa_nat_del_ipv4_tbl :: "32 word \<Rightarrow> nat_cache \<Rightarrow> (nat_ret \<times> nat_cache) option" where
  "ipa_nat_del_ipv4_tbl tbl_hdl c =
     (if bad_tbl_hdl tbl_hdl then Some (EINVAL, c) else ipa_nati_del_ipv4_table tbl_hdl c)"

definition ipa_nat_add_ipv4_rule ::
    "nat_env \<Rightarrow> 32 word \<Rightarrow> ipa_nat_ipv4_rule option \<Rightarrow> nat_cache \<Rightarrow> ((nat_ret \<times> 16 word option) \<times> nat_cache) option" where
  "ipa_nat_add_ipv4_rule E tbl_hdl clnt_rule c = (case clnt_rule of
     None \<Rightarrow> Some ((EINVAL, None), c)
   | Some clnt \<Rightarrow>
       if bad_tbl_hdl tbl_hdl then Some ((EINVAL, None), c)
       else do {
         ((r, hdl), c) \<leftarrow> ipa_nati_add_ipv4_rule E tbl_hdl clnt c;
         Some ((if r \<noteq> RET_0 then EINVAL else RET_0, hdl), c) })"

definition ipa_nat_del_ipv4_rule :: "nat_env \<Rightarrow> 32 word \<Rightarrow> 32 word \<Rightarrow> nat_cache \<Rightarrow> (nat_ret \<times> nat_cache) option" where
  "ipa_nat_del_ipv4_rule E tbl_hdl rule_hdl c =
     (if tbl_hdl = 0 \<or> rule_hdl = 0 then Some (EINVAL, c) else ipa_nati_del_ipv4_rule E tbl_hdl rule_hdl c)"

definition ipa_nat_query_timestamp :: "32 word \<Rightarrow> 32 word \<Rightarrow> nat_cache \<Rightarrow> (nat_ret \<times> 32 word option) option" where
  "ipa_nat_query_timestamp tbl_hdl rule_hdl c =
     (if bad_tbl_hdl tbl_hdl then Some (EINVAL, None) else ipa_nati_query_timestamp tbl_hdl rule_hdl c)"

definition ipa_nat_modify_pdn :: "32 word \<Rightarrow> 8 word \<Rightarrow> nat_pdn option \<Rightarrow> nat_cache \<Rightarrow> (nat_ret \<times> nat_cache) option" where
  "ipa_nat_modify_pdn tbl_hdl pdn_idx pdn_info c = (case pdn_info of
     None \<Rightarrow> Some (EINVAL, c)
   | Some entry \<Rightarrow>
       if bad_tbl_hdl tbl_hdl then Some (EINVAL, c)
       else if unat pdn_idx > length (pdns c) then Some (EINVAL, c)
       else ipa_nati_modify_pdn (unat pdn_idx) entry c)"

end
