(* ===== verification/NatChain.thy ===== *)
theory NatChain
  imports Prelude
begin

text \<open>
  Hash tables with collision chains in an expansion table, as the NAT driver keeps two of: entries \<open>1..T-1\<close> are
  the heads, entries \<open>T+1..N-1\<close> the expansion. An entry is \<open>used\<close>, has a next entry \<open>nx\<close> (0 for none) and,
  in the expansion, a previous one \<open>pv\<close>. The predicate \<open>chained\<close> says that the links are the chains \<open>C\<close>, one
  list for each head, and the lemmas say what appending and removing an entry do to it.
\<close>

section \<open>Segments\<close>

text \<open>From \<open>a\<close> the links run through \<open>xs\<close> and then to \<open>z\<close>.\<close>

fun seg :: "(nat \<Rightarrow> nat) \<Rightarrow> (nat \<Rightarrow> nat) \<Rightarrow> nat \<Rightarrow> nat list \<Rightarrow> nat \<Rightarrow> bool" where
  "seg nx pv a [] z = (nx a = z)"
| "seg nx pv a (x # xs) z = (nx a = x \<and> pv x = a \<and> seg nx pv x xs z)"

lemma seg_append:
  "seg nx pv a (xs @ y # ys) z \<longleftrightarrow> seg nx pv a xs y \<and> pv y = last (a # xs) \<and> seg nx pv y ys z"
  by (induction xs arbitrary: a) auto

lemma seg_cong:
  "seg nx pv a xs z \<Longrightarrow> (\<And>e. e \<in> insert a (set xs) \<Longrightarrow> nx' e = nx e) \<Longrightarrow>
   (\<And>e. e \<in> set xs \<Longrightarrow> pv' e = pv e) \<Longrightarrow> seg nx' pv' a xs z"
  by (induction xs arbitrary: a) auto

lemma seg_retarget:
  "seg nx pv a xs z \<Longrightarrow> distinct (a # xs) \<Longrightarrow> seg (nx(last (a # xs) := z')) pv a xs z'"
proof (induction xs arbitrary: a)
  case (Cons x xs)
  have "seg (nx(last (x # xs) := z')) pv x xs z'"
    using Cons.prems by (intro Cons.IH) (simp_all only: seg.simps distinct.simps simp_thms)
  moreover have "a \<noteq> last (x # xs)" using Cons.prems(2) by (metis distinct.simps(2) last_in_set list.distinct(1))
  then have "(nx(last (x # xs) := z')) a = nx a" by (rule fun_upd_other)
  moreover have "last (a # x # xs) = last (x # xs)" by simp
  ultimately show ?case using Cons.prems(1) unfolding seg.simps by metis
qed simp

lemma seg_last: "seg nx pv a xs z \<Longrightarrow> nx (last (a # xs)) = z"
  by (induction xs arbitrary: a) auto

section \<open>Chains\<close>

definition chained ::
    "nat \<Rightarrow> nat \<Rightarrow> (nat \<Rightarrow> bool) \<Rightarrow> (nat \<Rightarrow> nat) \<Rightarrow> (nat \<Rightarrow> nat) \<Rightarrow> (nat \<Rightarrow> nat list) \<Rightarrow> bool" where
  "chained T N used nx pv C \<longleftrightarrow>
     (\<forall>b. C b \<noteq> [] \<longrightarrow> 0 < b \<and> b < T \<and> hd (C b) = b \<and> seg nx pv b (tl (C b)) 0) \<and>
     (\<forall>b. \<forall>e\<in>set (tl (C b)). T < e \<and> e < N) \<and>
     (\<forall>b. distinct (C b)) \<and>
     (\<forall>b b' e. e \<in> set (C b) \<longrightarrow> e \<in> set (C b') \<longrightarrow> b = b') \<and>
     (\<forall>e. used e \<longleftrightarrow> (\<exists>b. e \<in> set (C b)))"

lemma chained_head:
  assumes "chained T N used nx pv C" "C b \<noteq> []"
  shows "\<exists>xs. C b = b # xs \<and> seg nx pv b xs 0 \<and> 0 < b \<and> b < T"
proof -
  have "0 < b \<and> b < T \<and> hd (C b) = b \<and> seg nx pv b (tl (C b)) 0"
    using assms unfolding chained_def by blast
  then show ?thesis using assms(2) by (intro exI [of _ "tl (C b)"]) (cases "C b"; simp)
qed

lemma chainedI:
  assumes "\<And>b. C b \<noteq> [] \<Longrightarrow> 0 < b \<and> b < T \<and> hd (C b) = b \<and> seg nx pv b (tl (C b)) 0"
    and "\<And>b e. e \<in> set (tl (C b)) \<Longrightarrow> T < e \<and> e < N"
    and "\<And>b. distinct (C b)"
    and "\<And>b b' e. e \<in> set (C b) \<Longrightarrow> e \<in> set (C b') \<Longrightarrow> b = b'"
    and "\<And>e. used e \<longleftrightarrow> (\<exists>b. e \<in> set (C b))"
  shows "chained T N used nx pv C"
  using assms unfolding chained_def by blast

lemma chained_tl: "chained T N used nx pv C \<Longrightarrow> e \<in> set (tl (C b)) \<Longrightarrow> T < e \<and> e < N"
  by (auto simp: chained_def)

lemma chained_used: "chained T N used nx pv C \<Longrightarrow> used e \<longleftrightarrow> (\<exists>b. e \<in> set (C b))"
  by (auto simp: chained_def)

lemma chained_distinct: "chained T N used nx pv C \<Longrightarrow> distinct (C b)"
  by (auto simp: chained_def)

lemma chained_unique: "chained T N used nx pv C \<Longrightarrow> e \<in> set (C b) \<Longrightarrow> e \<in> set (C b') \<Longrightarrow> b = b'"
  unfolding chained_def by blast

lemma chained_member:
  assumes "chained T N used nx pv C" "e \<in> set (C b)"
  shows "e = b \<and> 0 < e \<and> e < T \<or> e \<in> set (tl (C b)) \<and> T < e \<and> e < N"
proof -
  obtain xs where "C b = b # xs" "0 < b" "b < T"
    using chained_head [OF assms(1), of b] assms(2) by fastforce
  then show ?thesis using assms chained_tl [OF assms(1), of e b] by auto
qed

lemma chained_base_used: "chained T N used nx pv C \<Longrightarrow> b < T \<Longrightarrow> used b \<longleftrightarrow> C b \<noteq> []"
  by (metis chained_head chained_member chained_used empty_iff list.set(1) list.set_intros(1) less_asym)

lemma chained_range: "chained T N used nx pv C \<Longrightarrow> used e \<Longrightarrow> 0 < e \<and> e \<noteq> T \<and> (e < T \<or> e < N)"
  by (metis chained_member chained_used less_irrefl less_trans not_less_zero zero_less_iff_neq_zero)

lemma chained_cong:
  assumes "chained T N used nx pv C" "\<And>e. used' e = used e"
    and "\<And>e. used e \<Longrightarrow> nx' e = nx e" "\<And>e. used e \<Longrightarrow> T < e \<Longrightarrow> pv' e = pv e"
  shows "chained T N used' nx' pv' C"
proof -
  have "seg nx' pv' b (tl (C b)) 0" if ne: "C b \<noteq> []" for b
  proof -
    obtain xs where xs: "C b = b # xs" "seg nx pv b xs 0" using chained_head [OF assms(1) ne] by blast
    have "e \<in> set (C b) \<Longrightarrow> used e" for e using chained_used [OF assms(1)] by blast
    then show ?thesis
      using xs seg_cong [OF xs(2)] assms(3,4) chained_tl [OF assms(1), of _ b] by auto
  qed
  then show ?thesis using assms(1,2) by (auto simp: chained_def)
qed

section \<open>Walking a chain\<close>

lemma chained_next_zero:
  assumes "chained T N used nx pv C" "C b = b # xs"
  shows "nx b = 0 \<longleftrightarrow> xs = []"
proof (cases xs)
  case (Cons x ys)
  then have "nx b = x" "T < x"
    using chained_head [OF assms(1), of b] chained_tl [OF assms(1), of x b] assms(2) by auto
  then show ?thesis using Cons by simp
qed (use chained_head [OF assms(1), of b] assms(2) in auto)

text \<open>An entry of the expansion: where it is linked.\<close>

lemma chained_expansion:
  assumes c: "chained T N used nx pv C" and e: "used e" "T < e"
  shows "\<exists>b xs ys. C b = b # xs @ e # ys \<and> pv e = last (b # xs) \<and> nx (pv e) = e \<and> used (pv e) \<and> e < N \<and>
           (ys = [] \<longrightarrow> nx e = 0) \<and> (\<forall>y zs. ys = y # zs \<longrightarrow> nx e = y \<and> pv y = e \<and> used y \<and> T < y \<and> y < N)"
proof -
  obtain b where b: "e \<in> set (C b)" using c e(1) by (auto simp: chained_used)
  then obtain cs where cs: "C b = b # cs" "seg nx pv b cs 0" "b < T"
    using chained_head [OF c, of b] by fastforce
  then have "e \<in> set cs" using b e(2) by auto
  then obtain xs ys where split: "cs = xs @ e # ys" by (meson split_list)
  then have s: "seg nx pv b xs e" "pv e = last (b # xs)" "seg nx pv e ys 0"
    using cs(2) by (simp_all add: seg_append)
  have "nx (pv e) = e" using seg_last [OF s(1)] s(2) by simp
  moreover have "pv e \<in> set (C b)" using cs(1) split s(2) last_in_set [of "b # xs"] by auto
  then have "used (pv e)" using chained_used [OF c] by blast
  moreover have "\<forall>y zs. ys = y # zs \<longrightarrow> nx e = y \<and> pv y = e \<and> used y \<and> T < y \<and> y < N"
  proof (intro allI impI)
    fix y zs assume ys: "ys = y # zs"
    then have "y \<in> set (tl (C b))" using cs(1) split by simp
    moreover have "y \<in> set (C b)" using cs(1) split ys by simp
    then have "used y" using chained_used [OF c] by blast
    ultimately show "nx e = y \<and> pv y = e \<and> used y \<and> T < y \<and> y < N"
      using s(3) ys chained_tl [OF c, of y b] by simp
  qed
  moreover have "e < N" using chained_tl [OF c, of e b] cs(1) split by simp
  moreover have "ys = [] \<longrightarrow> nx e = 0" using s(3) by auto
  ultimately show ?thesis
    using s(2) split cs(1) by (intro exI [of _ b] exI [of _ xs] exI [of _ ys] conjI) simp_all
qed

section \<open>Changing a chain\<close>

lemma chained_new_head:
  assumes c: "chained T N used nx pv C" and b: "0 < b" "b < T" "\<not> used b"
  shows "chained T N (used(b := True)) (nx(b := 0)) (pv(b := q)) (C(b := [b]))"
    (is "chained T N ?u ?n ?p ?C")
proof (rule chainedI)
  have notin: "b \<notin> set (C b')" for b' using b(3) chained_used [OF c] by blast
  fix b'
  show "0 < b' \<and> b' < T \<and> hd (?C b') = b' \<and> seg ?n ?p b' (tl (?C b')) 0" if ne: "?C b' \<noteq> []"
  proof (cases "b' = b")
    case False
    then obtain xs where xs: "C b' = b' # xs" "seg nx pv b' xs 0" "0 < b'" "b' < T"
      using chained_head [OF c, of b'] ne by auto
    have "seg ?n ?p b' xs 0" using xs notin [of b'] by (intro seg_cong [OF xs(2)]) auto
    then show ?thesis using xs False by simp
  qed (use b in simp)
  show "distinct (?C b')" using chained_distinct [OF c] by simp
  fix e
  show "e \<in> set (tl (?C b')) \<Longrightarrow> T < e \<and> e < N"
    using chained_tl [OF c, of e b'] by (auto split: if_splits)
  have "C b = []" using chained_head [OF c, of b] notin [of b] by fastforce
  then have "e \<noteq> b \<Longrightarrow> (\<exists>b. e \<in> set (?C b)) \<longleftrightarrow> (\<exists>b. e \<in> set (C b))" by (metis empty_iff fun_upd_other fun_upd_same list.set(1) set_ConsD)
  then show "?u e \<longleftrightarrow> (\<exists>b. e \<in> set (?C b))"
    using chained_used [OF c, of e] notin by (cases "e = b") auto
  show "e \<in> set (?C b') \<Longrightarrow> e \<in> set (?C b'') \<Longrightarrow> b' = b''" for b''
    using chained_unique [OF c, of e b' b''] notin by (auto split: if_splits)
qed

lemma chained_append:
  assumes c: "chained T N used nx pv C" and some: "C b \<noteq> []" and e: "T < e" "e < N" "\<not> used e"
    and l: "l = last (C b)"
  shows "chained T N (used(e := True)) (nx(e := 0, l := e)) (pv(e := l)) (C(b := C b @ [e]))"
proof -
  obtain xs where xs: "C b = b # xs" "seg nx pv b xs 0" "0 < b" "b < T"
    using chained_head [OF c some] by blast
  have notin: "e \<notin> set (C b')" for b' using e(3) chained_used [OF c] by blast
  have l_in: "l \<in> set (C b)" using l some by simp
  have other: "seg (nx(e := 0, l := e)) (pv(e := l)) b' (tl (C b')) 0" if ne: "C b' \<noteq> []" "b' \<noteq> b" for b'
  proof -
    obtain ys where ys: "C b' = b' # ys" "seg nx pv b' ys 0" using chained_head [OF c ne(1)] by blast
    have "l \<notin> set (C b')" using chained_unique [OF c l_in] ne(2) by blast
    then show ?thesis using ys notin [of b'] by (auto intro!: seg_cong [OF ys(2)])
  qed
  have "seg (nx(l := e)) pv b xs e"
    using seg_retarget [OF xs(2)] chained_distinct [OF c, of b] xs(1) l by simp
  then have "seg (nx(e := 0, l := e)) (pv(e := l)) b xs e"
    using notin [of b] xs(1) by (auto intro: seg_cong)
  moreover have "e \<noteq> l" using l_in notin by blast
  ultimately have this_chain: "seg (nx(e := 0, l := e)) (pv(e := l)) b (xs @ [e]) 0"
    using l xs(1) by (simp add: seg_append)
  have uniq: "\<And>b b' e. e \<in> set (C b) \<Longrightarrow> e \<in> set (C b') \<Longrightarrow> b = b'" using chained_unique [OF c] by blast
  show ?thesis
    unfolding chained_def
  proof (intro conjI allI impI)
    fix b' assume "(C(b := C b @ [e])) b' \<noteq> []"
    then show "0 < b'" "b' < T" "hd ((C(b := C b @ [e])) b') = b'"
      "seg (nx(e := 0, l := e)) (pv(e := l)) b' (tl ((C(b := C b @ [e])) b')) 0"
      using xs this_chain other [of b'] chained_head [OF c, of b'] by (auto split: if_splits)
  next
    fix b' show "\<forall>x\<in>set (tl ((C(b := C b @ [e])) b')). T < x \<and> x < N"
      using xs(1) e chained_tl [OF c, of _ b'] by auto
  next
    fix b' show "distinct ((C(b := C b @ [e])) b')"
      using chained_distinct [OF c] notin by auto
  next
    fix b1 b2 x assume "x \<in> set ((C(b := C b @ [e])) b1)" "x \<in> set ((C(b := C b @ [e])) b2)"
    then show "b1 = b2" using uniq [of x] notin by (auto split: if_splits)
  next
    fix x show "(used(e := True)) x = (\<exists>b'. x \<in> set ((C(b := C b @ [e])) b'))"
      using chained_used [OF c, of x] by auto
  qed
qed

text \<open>Removing an entry of the expansion: its predecessor takes over its next, its successor its previous.\<close>

lemma chained_remove:
  assumes c: "chained T N used nx pv C" and split: "C b = b # xs @ e # ys" and p: "p = last (b # xs)"
  shows "chained T N (used(e := False)) (nx(p := nx e, e := n')) (if ys = [] then pv(e := q) else pv(nx e := p, e := q))
           (C(b := b # xs @ ys))"
    (is "chained T N ?u ?n ?p ?C")
proof -
  have h: "0 < b" "b < T" "seg nx pv b (xs @ e # ys) 0"
    using chained_head [OF c, of b] split by auto
  then have s: "seg nx pv b xs e" "pv e = p" "seg nx pv e ys 0"
    using p by (simp_all add: seg_append)
  have d: "distinct (b # xs @ e # ys)" using chained_distinct [OF c, of b] split by simp
  have p_in: "p \<in> set (b # xs)" using p last_in_set by blast
  then have pe: "p \<noteq> e" and p_ys: "p \<notin> set ys" using d by auto
  have other: "seg ?n ?p b' (tl (C b')) 0" if ne: "C b' \<noteq> []" "b' \<noteq> b" for b'
  proof -
    obtain zs where zs: "C b' = b' # zs" "seg nx pv b' zs 0" using chained_head [OF c ne(1)] by blast
    have "e \<notin> set (C b')" "p \<notin> set (C b')" "ys \<noteq> [] \<Longrightarrow> hd ys \<notin> set (C b')"
      using chained_unique [OF c, of _ b b'] ne(2) p_in hd_in_set [of ys] unfolding split by fastforce+
    moreover have "ys \<noteq> [] \<Longrightarrow> nx e = hd ys" using s(3) by (cases ys) auto
    ultimately show ?thesis using zs by (auto intro!: seg_cong [OF zs(2)])
  qed
  have this_chain: "seg ?n ?p b (xs @ ys) 0"
  proof (cases ys)
    case Nil
    then have "nx e = 0" using s(3) by simp
    moreover have "seg (nx(p := 0)) pv b xs 0" using seg_retarget [OF s(1)] d p by simp
    ultimately show ?thesis using Nil d by (auto intro: seg_cong)
  next
    case (Cons y zs)
    then have y: "nx e = y" "pv y = e" "seg nx pv y zs 0" using s(3) by simp_all
    have "seg (nx(p := y)) pv b xs y" using seg_retarget [OF s(1)] d p by simp
    then have "seg ?n ?p b xs y" using Cons d y(1) by (auto intro: seg_cong)
    moreover have "seg ?n ?p y zs 0"
      by (intro seg_cong [OF y(3)]) (use Cons d y(1) p_ys in auto)
    ultimately show ?thesis using Cons y(1) d p by (auto simp: seg_append)
  qed
  have uniq: "\<And>b b' e. e \<in> set (C b) \<Longrightarrow> e \<in> set (C b') \<Longrightarrow> b = b'" using chained_unique [OF c] by blast
  show ?thesis
    unfolding chained_def
  proof (intro conjI allI impI)
    fix b' assume "?C b' \<noteq> []"
    then show "0 < b'" "b' < T" "hd (?C b') = b'" "seg ?n ?p b' (tl (?C b')) 0"
      using h this_chain other [of b'] chained_head [OF c, of b'] by (auto split: if_splits)
  next
    fix b' show "\<forall>x\<in>set (tl (?C b')). T < x \<and> x < N"
      using chained_tl [OF c, of _ b'] split by auto
  next
    fix b' show "distinct (?C b')" using chained_distinct [OF c] d by auto
  next
    fix b1 b2 x assume "x \<in> set (?C b1)" "x \<in> set (?C b2)"
    then show "b1 = b2" using uniq [of x b1 b2] uniq [of x b b2] uniq [of x b1 b] split
      by (auto split: if_splits)
  next
    fix x
    have "x \<in> set (C b') \<Longrightarrow> x = e \<Longrightarrow> b' = b" for b' using uniq [of e b' b] split by auto
    then show "?u x = (\<exists>b'. x \<in> set (?C b'))"
      using chained_used [OF c, of x] d split by (auto split: if_splits) (metis Un_iff insert_iff list.set(2) set_append)+
  qed
qed

text \<open>Removing a head that stands alone.\<close>

lemma chained_remove_head:
  assumes c: "chained T N used nx pv C" and one: "C b = [b]"
  shows "chained T N (used(b := False)) (nx(b := n')) (pv(b := q)) (C(b := []))"
    (is "chained T N ?u ?n ?p ?C")
proof (rule chainedI)
  have notin: "b' \<noteq> b \<Longrightarrow> b \<notin> set (C b')" for b' using chained_unique [OF c, of b b b'] one by auto
  fix b'
  show "0 < b' \<and> b' < T \<and> hd (?C b') = b' \<and> seg ?n ?p b' (tl (?C b')) 0" if ne: "?C b' \<noteq> []"
  proof -
    have b': "b' \<noteq> b" using ne by auto
    then obtain xs where xs: "C b' = b' # xs" "seg nx pv b' xs 0" "0 < b'" "b' < T"
      using chained_head [OF c, of b'] ne by auto
    have "seg ?n ?p b' xs 0" using xs notin [OF b'] by (intro seg_cong [OF xs(2)]) auto
    then show ?thesis using xs b' by simp
  qed
  show "distinct (?C b')" using chained_distinct [OF c] by simp
  fix e
  show "e \<in> set (tl (?C b')) \<Longrightarrow> T < e \<and> e < N"
    using chained_tl [OF c, of e b'] by (auto split: if_splits)
  show "?u e \<longleftrightarrow> (\<exists>b. e \<in> set (?C b))"
  proof (cases "e = b")
    case False
    have "e \<in> set (?C x) \<longleftrightarrow> e \<in> set (C x)" for x using one False by simp
    then show ?thesis using chained_used [OF c, of e] False by simp
  qed (use notin in auto)
  have "e \<in> set (?C x) \<Longrightarrow> e \<in> set (C x)" for x by (cases "x = b") simp_all
  then show "e \<in> set (?C b') \<Longrightarrow> e \<in> set (?C b'') \<Longrightarrow> b' = b''" for b''
    using chained_unique [OF c] by blast
qed

end
