(* ===== verification/NatTables.thy ===== *)
theory NatTables
  imports NatDriver NatChain
begin

text \<open>
  The contents of the NAT driver's tables as functions of one index: an entry below \<open>T\<close> is in a base table, entry
  \<open>T + i\<close> is entry \<open>i\<close> of its expansion. The invariant of the rule tables, of the index tables and of the
  handles, each kept by what an addition and a deletion do to them.
\<close>

section \<open>Rules\<close>

definition rule_client :: "ipa_nat_rule \<Rightarrow> ipa_nat_ipv4_rule" where
  "rule_client r = \<lparr>cl_target_ip = hw_target_ip r, cl_private_ip = hw_private_ip r,
     cl_target_port = hw_target_port r, cl_private_port = hw_private_port r,
     cl_public_port = Read16BitFieldValue (nxt_indx_pub_port r) PUBLIC_PORT_FILED,
     cl_protocol = rule_proto r, cl_pdn_index = ucast (hw_pdn_index r)\<rparr>"

text \<open>What the kernel writes: the low or the high half of a member.\<close>

definition set_low :: "32 word \<Rightarrow> 16 word \<Rightarrow> 32 word" where
  "set_low w d = halves d (ucast (drop_bit 16 w))"

definition set_high :: "32 word \<Rightarrow> 16 word \<Rightarrow> 32 word" where
  "set_high w d = halves (ucast w) d"

definition set_next :: "16 word \<Rightarrow> ipa_nat_rule \<Rightarrow> ipa_nat_rule" where
  "set_next v r = r\<lparr>nxt_indx_pub_port := set_low (nxt_indx_pub_port r) v\<rparr>"

definition set_flags :: "16 word \<Rightarrow> ipa_nat_rule \<Rightarrow> ipa_nat_rule" where
  "set_flags v r = r\<lparr>ip_cksm_enbl := set_high (ip_cksm_enbl r) v\<rparr>"

definition set_proto :: "16 word \<Rightarrow> ipa_nat_rule \<Rightarrow> ipa_nat_rule" where
  "set_proto v r = r\<lparr>ts_proto := set_high (ts_proto r) v\<rparr>"

definition set_prev :: "16 word \<Rightarrow> ipa_nat_rule \<Rightarrow> ipa_nat_rule" where
  "set_prev v r = UpdateSwSpecParams r IPA_NAT_SW_PARAM_PREV_INDX_BYTE (ucast v)"

definition set_index :: "16 word \<Rightarrow> ipa_nat_rule \<Rightarrow> ipa_nat_rule" where
  "set_index v r = UpdateSwSpecParams r IPA_NAT_SW_PARAM_INDX_TBL_ENTRY_BYTE (ucast v)"

lemma read_low_public: "Read16BitFieldValue (set_low w d) PUBLIC_PORT_FILED = Read16BitFieldValue w PUBLIC_PORT_FILED"
  unfolding set_low_def read_halves by (simp add: Read16BitFieldValue_def)

lemma reads_set_next [simp]:
  "rule_next (set_next v r) = v" "rule_enabled (set_next v r) = rule_enabled r"
  "rule_prev (set_next v r) = rule_prev r" "rule_index (set_next v r) = rule_index r"
  "rule_proto (set_next v r) = rule_proto r" "rule_client (set_next v r) = rule_client r"
  by (simp_all add: set_next_def rule_client_def read_low_public) (simp add: set_low_def)

lemma reads_set_prev [simp]:
  "rule_prev (set_prev v r) = v" "rule_next (set_prev v r) = rule_next r"
  "rule_enabled (set_prev v r) = rule_enabled r" "rule_index (set_prev v r) = rule_index r"
  "rule_proto (set_prev v r) = rule_proto r" "rule_client (set_prev v r) = rule_client r"
  by (simp_all add: set_prev_def update_prev rule_client_def)

lemma reads_set_index [simp]:
  "rule_index (set_index v r) = v" "rule_next (set_index v r) = rule_next r"
  "rule_enabled (set_index v r) = rule_enabled r" "rule_prev (set_index v r) = rule_prev r"
  "rule_proto (set_index v r) = rule_proto r" "rule_client (set_index v r) = rule_client r"
  by (simp_all add: set_index_def update_indx rule_client_def)

lemma reads_set_flags [simp]:
  "rule_enabled (set_flags v r) = ucast (drop_bit 15 v)" "rule_next (set_flags v r) = rule_next r"
  "rule_prev (set_flags v r) = rule_prev r" "rule_index (set_flags v r) = rule_index r"
  "rule_proto (set_flags v r) = rule_proto r" "rule_client (set_flags v r) = rule_client r"
  by (simp_all add: set_flags_def rule_client_def) (simp add: set_high_def read_enable_halves)

lemma reads_set_proto [simp]:
  "rule_proto (set_proto v r) = ucast (drop_bit 8 v)" "rule_next (set_proto v r) = rule_next r"
  "rule_enabled (set_proto v r) = rule_enabled r" "rule_prev (set_proto v r) = rule_prev r"
  "rule_index (set_proto v r) = rule_index r"
  by (simp_all add: set_proto_def set_high_def read_protocol_halves)

lemma reads_zero_rule [simp]:
  "rule_enabled zero_rule = 0" "rule_next zero_rule = 0" "rule_proto zero_rule = 0"
  by (simp_all add: zero_rule_def)

lemma reads_hw_clnt [simp]:
  "rule_enabled (hw_rule (clnt_sw_rule clnt ip\<lparr>sw_prev_index := p, sw_indx_tbl_entry := i\<rparr>)) = 0"
  "rule_next (hw_rule (clnt_sw_rule clnt ip\<lparr>sw_prev_index := p, sw_indx_tbl_entry := i\<rparr>)) = 0"
  "rule_prev (hw_rule (clnt_sw_rule clnt ip\<lparr>sw_prev_index := p, sw_indx_tbl_entry := i\<rparr>)) = p"
  "rule_index (hw_rule (clnt_sw_rule clnt ip\<lparr>sw_prev_index := p, sw_indx_tbl_entry := i\<rparr>)) = i"
  "rule_proto (hw_rule (clnt_sw_rule clnt ip\<lparr>sw_prev_index := p, sw_indx_tbl_entry := i\<rparr>)) = cl_protocol clnt"
  unfolding hw_rule_reads hw_rule_reads_flags hw_rule_reads_time
  by (simp_all add: clnt_sw_rule_def zero_sw_rule_def)

lemma client_hw_clnt:
  assumes "unat (cl_pdn_index clnt) < 16"
  shows "rule_client (hw_rule (clnt_sw_rule clnt ip\<lparr>sw_prev_index := p, sw_indx_tbl_entry := i\<rparr>)) = clnt"
proof -
  have "ucast (ucast (cl_pdn_index clnt) :: 4 word) = cl_pdn_index clnt"
    using assms by (simp add: word_unat_eq_iff unsigned_ucast_eq unsigned_take_bit_eq take_bit_nat_eq_self)
  then show ?thesis
    unfolding rule_client_def hw_rule_reads hw_rule_reads_time
    by (simp add: clnt_sw_rule_def zero_sw_rule_def hw_rule_def)
qed

lemma reads_index_word [simp]:
  "index_entry (set_low w v) = v" "index_next (set_low w v) = index_next w"
  "index_next (set_high w v) = v" "index_entry (set_high w v) = index_entry w"
  unfolding set_low_def set_high_def read_halves by (simp_all add: Read16BitFieldValue_def)

section \<open>The rule tables\<close>

definition live :: "(nat \<Rightarrow> ipa_nat_rule) \<Rightarrow> nat set" where
  "live R = {e. rule_enabled (R e) \<noteq> 0 \<and> rule_proto (R e) \<noteq> 0xFF}"

abbreviation rule_chains :: "nat \<Rightarrow> nat \<Rightarrow> (nat \<Rightarrow> ipa_nat_rule) \<Rightarrow> (nat \<Rightarrow> nat list) \<Rightarrow> bool" where
  "rule_chains T N R C \<equiv>
     chained T N (\<lambda>e. rule_enabled (R e) \<noteq> 0) (\<lambda>e. unat (rule_next (R e))) (\<lambda>e. unat (rule_prev (R e))) C"

text \<open>
  Every enabled entry is in one chain; one with the invalid protocol is a head with entries hanging on it; every other
  is in the chain of its hash.
\<close>

definition rules_inv ::
    "nat \<Rightarrow> nat \<Rightarrow> (ipa_nat_ipv4_rule \<Rightarrow> nat) \<Rightarrow> (nat \<Rightarrow> ipa_nat_rule) \<Rightarrow> (nat \<Rightarrow> nat list) \<Rightarrow> bool" where
  "rules_inv T N dst R C \<longleftrightarrow>
     rule_chains T N R C \<and>
     (\<forall>e. rule_enabled (R e) \<noteq> 0 \<longrightarrow> rule_proto (R e) = 0xFF \<longrightarrow> e < T \<and> C e \<noteq> [e]) \<and>
     (\<forall>e\<in>live R. e \<in> set (C (dst (rule_client (R e)))))"

text \<open>Without the condition on lonely heads: what holds before the heads are swept.\<close>

definition rules_weak ::
    "nat \<Rightarrow> nat \<Rightarrow> (ipa_nat_ipv4_rule \<Rightarrow> nat) \<Rightarrow> (nat \<Rightarrow> ipa_nat_rule) \<Rightarrow> (nat \<Rightarrow> nat list) \<Rightarrow> bool" where
  "rules_weak T N dst R C \<longleftrightarrow>
     rule_chains T N R C \<and>
     (\<forall>e. rule_enabled (R e) \<noteq> 0 \<longrightarrow> rule_proto (R e) = 0xFF \<longrightarrow> e < T) \<and>
     (\<forall>e\<in>live R. e \<in> set (C (dst (rule_client (R e)))))"

definition sweep :: "nat \<Rightarrow> (nat \<Rightarrow> ipa_nat_rule) \<Rightarrow> nat \<Rightarrow> ipa_nat_rule" where
  "sweep T R e = (if e < T \<and> rule_proto (R e) = 0xFF \<and> rule_next (R e) = 0 then zero_rule else R e)"

lemma live_enabled: "e \<in> live R \<Longrightarrow> rule_enabled (R e) \<noteq> 0 \<and> rule_proto (R e) \<noteq> 0xFF"
  by (simp add: live_def)

lemma rules_invI:
  "rule_chains T N R C \<Longrightarrow>
   (\<And>e. rule_enabled (R e) \<noteq> 0 \<Longrightarrow> rule_proto (R e) = 0xFF \<Longrightarrow> e < T \<and> C e \<noteq> [e]) \<Longrightarrow>
   (\<And>e. e \<in> live R \<Longrightarrow> e \<in> set (C (dst (rule_client (R e))))) \<Longrightarrow> rules_inv T N dst R C"
  by (simp add: rules_inv_def)

lemma rules_weakI:
  "rule_chains T N R C \<Longrightarrow>
   (\<And>e. rule_enabled (R e) \<noteq> 0 \<Longrightarrow> rule_proto (R e) = 0xFF \<Longrightarrow> e < T) \<Longrightarrow>
   (\<And>e. e \<in> live R \<Longrightarrow> e \<in> set (C (dst (rule_client (R e))))) \<Longrightarrow> rules_weak T N dst R C"
  by (simp add: rules_weak_def)

lemma rules_inv_parts:
  assumes "rules_inv T N dst R C"
  shows "rule_chains T N R C"
    and "rule_enabled (R e) \<noteq> 0 \<Longrightarrow> rule_proto (R e) = 0xFF \<Longrightarrow> e < T \<and> C e \<noteq> [e]"
    and "e \<in> live R \<Longrightarrow> e \<in> set (C (dst (rule_client (R e))))"
  using assms by (simp_all add: rules_inv_def)

lemma rules_weak_parts:
  assumes "rules_weak T N dst R C"
  shows "rule_chains T N R C"
    and "rule_enabled (R e) \<noteq> 0 \<Longrightarrow> rule_proto (R e) = 0xFF \<Longrightarrow> e < T"
    and "e \<in> live R \<Longrightarrow> e \<in> set (C (dst (rule_client (R e))))"
  using assms by (simp_all add: rules_weak_def)

lemma rules_inv_weak: "rules_inv T N dst R C \<Longrightarrow> rules_weak T N dst R C"
  by (auto simp: rules_inv_def rules_weak_def)

lemma live_range: "rules_weak T N dst R C \<Longrightarrow> e \<in> live R \<Longrightarrow> 0 < e \<and> e \<noteq> T \<and> (e < T \<or> e < N)"
  unfolding rules_weak_def using chained_range live_enabled by fastforce

lemma rules_add_head:
  assumes inv: "rules_inv T N dst R C" and b: "b = dst (rule_client r)" "0 < b" "b < T" "rule_enabled (R b) = 0"
    and r: "rule_enabled r \<noteq> 0" "rule_next r = 0" "rule_proto r \<noteq> 0xFF"
  shows "rules_inv T N dst (R(b := r)) (C(b := [b]))" and "live (R(b := r)) = insert b (live R)"
proof -
  note c = rules_inv_parts(1) [OF inv]
  note step = chained_new_head [OF c b(2,3), of "unat (rule_prev r)"]
  have "rule_chains T N (R(b := r)) (C(b := [b]))"
    by (rule chained_cong [OF step]) (use b(4) r in auto)
  moreover have Cb: "C b = []" using chained_base_used [OF c b(3)] b(4) by simp
  ultimately show "rules_inv T N dst (R(b := r)) (C(b := [b]))"
    using inv b(1) r by (auto simp: rules_inv_def live_def)
  show "live (R(b := r)) = insert b (live R)" using r by (auto simp: live_def)
qed

lemma rules_append:
  assumes inv: "rules_inv T N dst R C" and b: "b = dst (rule_client r)" "C b \<noteq> []"
    and e: "T < e" "e < N" "rule_enabled (R e) = 0" "unat v = e"
    and r: "rule_enabled r \<noteq> 0" "rule_next r = 0" "rule_proto r \<noteq> 0xFF" "unat (rule_prev r) = last (C b)"
    and R': "R' = R(e := r, last (C b) := set_next v (R (last (C b))))"
  shows "rules_inv T N dst R' (C(b := C b @ [e]))" and "live R' = insert e (live R)"
    and "\<And>x. x \<noteq> e \<Longrightarrow> rule_client (R' x) = rule_client (R x) \<and> rule_index (R' x) = rule_index (R x)"
    and "R' e = r"
proof -
  note c = rules_inv_parts(1) [OF inv]
  have "last (C b) \<in> set (C b)" using b(2) by simp
  then have l: "rule_enabled (R (last (C b))) \<noteq> 0" using chained_used [OF c] by blast
  then have le: "last (C b) \<noteq> e" using e(3) by auto
  have en: "rule_enabled (R' x) = (if x = e then rule_enabled r else rule_enabled (R x))"
    and pr: "rule_proto (R' x) = (if x = e then rule_proto r else rule_proto (R x))"
    and cl: "x \<noteq> e \<Longrightarrow> rule_client (R' x) = rule_client (R x)" for x
    using le by (simp_all add: R')
  note step = chained_append [OF c b(2) e(1,2) _ refl]
  have "rule_chains T N R' (C(b := C b @ [e]))"
    by (rule chained_cong [OF step]) (use le e(3,4) r in \<open>auto simp: R'\<close>)
  then show "rules_inv T N dst R' (C(b := C b @ [e]))"
  proof (rule rules_invI)
    fix x
    show "x < T \<and> (C(b := C b @ [e])) x \<noteq> [x]" if "rule_enabled (R' x) \<noteq> 0" "rule_proto (R' x) = 0xFF"
      using that rules_inv_parts(2) [OF inv, of x] b(2) r(3) by (auto simp: en pr split: if_splits)
    show "x \<in> set ((C(b := C b @ [e])) (dst (rule_client (R' x))))" if "x \<in> live R'"
    proof (cases "x = e")
      case True
      then show ?thesis using b(1) le by (simp add: R')
    next
      case False
      then have "x \<in> live R" using that by (simp add: live_def en pr)
      then show ?thesis using rules_inv_parts(3) [OF inv, of x] cl [OF False] by auto
    qed
  qed
  show "live R' = insert e (live R)" using r by (auto simp: live_def en pr)
  show "\<And>x. x \<noteq> e \<Longrightarrow> rule_client (R' x) = rule_client (R x) \<and> rule_index (R' x) = rule_index (R x)"
    and "R' e = r" using le by (simp_all add: R')
qed

lemma rules_remove_alone:
  assumes inv: "rules_inv T N dst R C" and e: "e \<in> live R" "e < T" "rule_next (R e) = 0"
  shows "rules_weak T N dst (R(e := zero_rule)) (C(e := []))" and "live (R(e := zero_rule)) = live R - {e}"
proof -
  note c = rules_inv_parts(1) [OF inv]
  have "C e \<noteq> []" using chained_base_used [OF c e(2)] live_enabled [OF e(1)] by simp
  then obtain xs where "C e = e # xs" using chained_head [OF c, of e] by blast
  then have one: "C e = [e]" using chained_next_zero [OF c, of e xs] e(3) by simp
  note step = chained_remove_head [OF c one, of 0 "unat (rule_prev zero_rule)"]
  have "rule_chains T N (R(e := zero_rule)) (C(e := []))"
    by (rule chained_cong [OF step]) auto
  then show "rules_weak T N dst (R(e := zero_rule)) (C(e := []))"
  proof (rule rules_weakI)
    fix x
    show "x < T" if "rule_enabled ((R(e := zero_rule)) x) \<noteq> 0" "rule_proto ((R(e := zero_rule)) x) = 0xFF"
      using that rules_inv_parts(2) [OF inv, of x] by (auto split: if_splits)
    assume "x \<in> live (R(e := zero_rule))"
    then have x: "x \<noteq> e" "x \<in> live R" by (auto simp: live_def split: if_splits)
    then have "dst (rule_client (R x)) \<noteq> e" using rules_inv_parts(3) [OF inv, of x] one by auto
    then show "x \<in> set ((C(e := [])) (dst (rule_client ((R(e := zero_rule)) x))))"
      using rules_inv_parts(3) [OF inv, of x] x by simp
  qed
  show "live (R(e := zero_rule)) = live R - {e}" by (auto simp: live_def)
qed

lemma rules_remove_head:
  assumes inv: "rules_inv T N dst R C" and e: "e \<in> live R" "e < T"
  shows "rules_weak T N dst (R(e := set_proto 0xFF00 (R e))) C"
    and "live (R(e := set_proto 0xFF00 (R e))) = live R - {e}"
proof -
  let ?R = "R(e := set_proto 0xFF00 (R e))"
  have "(ucast (drop_bit 8 (0xFF00 :: 16 word)) :: 8 word) = 0xFF" by simp
  then have dead: "rule_proto (?R e) = 0xFF" by simp
  have "rule_chains T N ?R C"
    by (rule chained_cong [OF rules_inv_parts(1) [OF inv]]) auto
  then show "rules_weak T N dst ?R C"
  proof (rule rules_weakI)
    fix x
    show "x < T" if "rule_enabled (?R x) \<noteq> 0" "rule_proto (?R x) = 0xFF"
      using that rules_inv_parts(2) [OF inv, of x] e(2) by (cases "x = e") auto
    assume "x \<in> live ?R"
    then have "x \<noteq> e" "x \<in> live R" using dead by (auto simp: live_def split: if_splits)
    then show "x \<in> set (C (dst (rule_client (?R x))))" using rules_inv_parts(3) [OF inv, of x] by simp
  qed
  show "live ?R = live R - {e}" using dead by (auto simp: live_def)
qed

text \<open>What the deletion of a rule in the expansion leaves: \<open>y\<close> is its next entry, 0 for none.\<close>

definition unlink_rule :: "nat \<Rightarrow> (nat \<Rightarrow> ipa_nat_rule) \<Rightarrow> nat \<Rightarrow> ipa_nat_rule" where
  "unlink_rule e R = (
     let p = unat (rule_prev (R e)); y = unat (rule_next (R e));
         R = R(p := set_next (rule_next (R e)) (R p)) in
     if y = 0 then R(e := zero_rule) else R(y := set_prev (rule_prev (R e)) (R y), e := zero_rule))"

lemma rules_unlink:
  assumes inv: "rules_inv T N dst R C" and e: "e \<in> live R" "T < e"
  shows "\<exists>C'. rules_weak T N dst (unlink_rule e R) C'"
    and "live (unlink_rule e R) = live R - {e}"
    and "\<And>x. x \<noteq> e \<Longrightarrow> rule_client (unlink_rule e R x) = rule_client (R x) \<and>
           rule_index (unlink_rule e R x) = rule_index (R x)"
proof -
  let ?R = "unlink_rule e R"
  let ?p = "unat (rule_prev (R e))" and ?y = "unat (rule_next (R e))"
  note c = rules_inv_parts(1) [OF inv]
  have used: "rule_enabled (R e) \<noteq> 0" using live_enabled [OF e(1)] by simp
  obtain b xs ys where split: "C b = b # xs @ e # ys" and p: "?p = last (b # xs)"
    and ys: "ys = [] \<longrightarrow> ?y = 0" "\<forall>y zs. ys = y # zs \<longrightarrow> ?y = y \<and> T < y"
    using chained_expansion [OF c used e(2)] by blast
  have d: "distinct (b # xs @ e # ys)" using chained_distinct [OF c, of b] split by simp
  have pe: "?p \<noteq> e" using p d last_in_set [of "b # xs"] by fastforce
  have ye: "?y \<noteq> e" using ys d e(2) by (cases ys) auto
  have py: "?y \<noteq> 0 \<Longrightarrow> ?p \<noteq> ?y" using ys d p last_in_set [of "b # xs"] by (cases ys) fastforce+
  have same: "x \<noteq> e \<Longrightarrow> rule_enabled (?R x) = rule_enabled (R x) \<and> rule_proto (?R x) = rule_proto (R x) \<and>
      rule_client (?R x) = rule_client (R x) \<and> rule_index (?R x) = rule_index (R x)" for x
    by (simp add: unlink_rule_def Let_def)
  have zero: "?R e = zero_rule" by (simp add: unlink_rule_def Let_def)
  note step = chained_remove [OF c split p, of 0 "unat (rule_prev zero_rule)"]
  have nx: "rule_next (?R x) = (if x = e then 0 else if x = ?p then rule_next (R e) else rule_next (R x))" for x
    using pe ye by (simp add: unlink_rule_def Let_def)
  have pv: "rule_prev (?R x) = (if x = e then rule_prev zero_rule else if ?y \<noteq> 0 \<and> x = ?y then rule_prev (R e)
      else rule_prev (R x))" for x
    using pe ye by (simp add: unlink_rule_def Let_def)
  let ?C = "C(b := b # xs @ ys)"
  have "rule_chains T N ?R ?C"
  proof (rule chained_cong [OF step])
    fix x
    show "(rule_enabled (?R x) \<noteq> 0) = ((\<lambda>e. rule_enabled (R e) \<noteq> 0)(e := False)) x"
      using same [of x] zero by (cases "x = e") simp_all
    show "unat (rule_next (?R x)) = ((\<lambda>e. unat (rule_next (R e)))(?p := ?y, e := 0)) x"
      using nx [of x] by simp
    show "unat (rule_prev (?R x)) =
        (if ys = [] then (\<lambda>e. unat (rule_prev (R e)))(e := unat (rule_prev zero_rule))
         else (\<lambda>e. unat (rule_prev (R e)))(?y := ?p, e := unat (rule_prev zero_rule))) x"
      using pv [of x] ys by (cases ys) auto
  qed
  then have "rules_weak T N dst ?R ?C"
  proof (rule rules_weakI)
    fix x
    show "x < T" if "rule_enabled (?R x) \<noteq> 0" "rule_proto (?R x) = 0xFF"
      using that rules_inv_parts(2) [OF inv, of x] same [of x] zero by (cases "x = e") auto
    assume "x \<in> live ?R"
    then have x: "x \<noteq> e" "x \<in> live R" using same [of x] zero by (cases "x = e"; simp add: live_def)+
    then show "x \<in> set (?C (dst (rule_client (?R x))))"
      using rules_inv_parts(3) [OF inv, of x] same [of x] split by auto
  qed
  then show "\<exists>C'. rules_weak T N dst ?R C'" by blast
  show "live ?R = live R - {e}" using same zero by (auto simp: live_def) (metis reads_zero_rule(1))+
  show "\<And>x. x \<noteq> e \<Longrightarrow> rule_client (?R x) = rule_client (R x) \<and> rule_index (?R x) = rule_index (R x)"
    using same by blast
qed

text \<open>Sweeping the heads brings the invariant back and touches no live rule.\<close>

lemma sweep_live:
  assumes "rules_weak T N dst R C"
  shows "live (sweep T R) = live R" and "x \<in> live R \<Longrightarrow> sweep T R x = R x"
  by (auto simp: live_def sweep_def)

lemma rules_sweep:
  assumes w: "rules_weak T N dst R C"
  shows "rules_inv T N dst (sweep T R) (\<lambda>b. if C b = [b] \<and> rule_proto (R b) = 0xFF then [] else C b)"
    (is "rules_inv T N dst ?R ?C")
proof (rule rules_invI)
  note c = rules_weak_parts(1) [OF w]
  have sub: "e \<in> set (?C b) \<Longrightarrow> e \<in> set (C b)" for e b by (auto split: if_splits)
  have same: "?R e = R e" if e: "e \<in> set (?C b)" for e b
  proof (rule ccontr)
    assume "?R e \<noteq> R e"
    then have h: "e < T" "rule_proto (R e) = 0xFF" "rule_next (R e) = 0" by (auto simp: sweep_def split: if_splits)
    have "e = b" using chained_member [OF c sub [OF e]] h(1) by auto
    moreover obtain xs where "C b = b # xs" using chained_head [OF c, of b] sub [OF e] by fastforce
    ultimately have "C b = [b]" using chained_next_zero [OF c, of b xs] h(3) by simp
    then show False using e h(2) \<open>e = b\<close> by simp
  qed
  show "rule_chains T N ?R ?C"
  proof (rule chainedI)
    fix b
    show "0 < b \<and> b < T \<and> hd (?C b) = b \<and>
        seg (\<lambda>e. unat (rule_next (?R e))) (\<lambda>e. unat (rule_prev (?R e))) b (tl (?C b)) 0" if ne: "?C b \<noteq> []"
    proof -
      have Cb: "?C b = C b" using ne by (auto split: if_splits)
      obtain xs where xs: "C b = b # xs" "0 < b" "b < T"
        "seg (\<lambda>e. unat (rule_next (R e))) (\<lambda>e. unat (rule_prev (R e))) b xs 0"
        using chained_head [OF c, of b] ne Cb by auto
      have "?R e = R e" if "e \<in> insert b (set xs)" for e
        using same [of e b] that xs(1) Cb by auto
      then have "seg (\<lambda>e. unat (rule_next (?R e))) (\<lambda>e. unat (rule_prev (?R e))) b xs 0"
        by (intro seg_cong [OF xs(4)]) auto
      then show ?thesis using xs Cb by simp
    qed
    show "distinct (?C b)" using chained_distinct [OF c] by simp
    fix e
    show "e \<in> set (tl (?C b)) \<Longrightarrow> T < e \<and> e < N"
      using chained_tl [OF c, of e b] by (auto split: if_splits)
    show "e \<in> set (?C b) \<Longrightarrow> e \<in> set (?C b') \<Longrightarrow> b = b'" for b'
      using chained_unique [OF c] sub by blast
    show "(rule_enabled (?R e) \<noteq> 0) = (\<exists>b. e \<in> set (?C b))"
    proof
      assume r: "rule_enabled (?R e) \<noteq> 0"
      then have R: "?R e = R e" by (auto simp: sweep_def split: if_splits)
      then obtain b where b: "e \<in> set (C b)" using chained_used [OF c, of e] r by auto
      have "\<not> (C b = [b] \<and> rule_proto (R b) = 0xFF)"
      proof
        assume h: "C b = [b] \<and> rule_proto (R b) = 0xFF"
        then have "e = b" "rule_next (R e) = 0" "e < T"
          using b chained_next_zero [OF c, of b "[]"] chained_head [OF c, of b] by (auto simp: unat_eq_0)
        then show False using R r h by (simp add: sweep_def)
      qed
      then have "e \<in> set (?C b)" using b by simp
      then show "\<exists>b. e \<in> set (?C b)" by blast
    next
      assume "\<exists>b. e \<in> set (?C b)"
      then obtain b where b: "e \<in> set (?C b)" by blast
      then show "rule_enabled (?R e) \<noteq> 0"
        using same [OF b] chained_used [OF c, of e] sub [OF b] by auto
    qed
  qed
  fix e
  show "e < T \<and> ?C e \<noteq> [e]" if e: "rule_enabled (?R e) \<noteq> 0" "rule_proto (?R e) = 0xFF"
  proof -
    have "?R e = R e" using e(1) by (auto simp: sweep_def split: if_splits)
    then show ?thesis using e rules_weak_parts(2) [OF w, of e] by auto
  qed
  assume "e \<in> live ?R"
  then have e: "e \<in> live R" and R: "?R e = R e" using sweep_live [OF w] by auto
  have "\<not> (C b = [b] \<and> rule_proto (R b) = 0xFF)" if "e \<in> set (C b)" for b
    using that live_enabled [OF e] by auto
  then show "e \<in> set (?C (dst (rule_client (?R e))))"
    using rules_weak_parts(3) [OF w e] R by simp
qed

section \<open>The index tables\<close>

text \<open>
  Seen from the live entries \<open>L\<close> of the rule tables: \<open>ix e\<close> is the place of entry \<open>e\<close> in the index tables and
  \<open>src e\<close> the head its chain hangs on.
\<close>

abbreviation index_chains :: "nat \<Rightarrow> nat \<Rightarrow> (nat \<Rightarrow> 32 word) \<Rightarrow> (nat \<Rightarrow> 16 word) \<Rightarrow> (nat \<Rightarrow> nat list) \<Rightarrow> bool" where
  "index_chains T N I P D \<equiv>
     chained T N (\<lambda>i. index_entry (I i) \<noteq> 0) (\<lambda>i. unat (index_next (I i))) (\<lambda>i. unat (P i)) D"

definition index_inv ::
    "nat \<Rightarrow> nat \<Rightarrow> nat set \<Rightarrow> (nat \<Rightarrow> nat) \<Rightarrow> (nat \<Rightarrow> nat) \<Rightarrow> (nat \<Rightarrow> 32 word) \<Rightarrow> (nat \<Rightarrow> 16 word) \<Rightarrow> (nat \<Rightarrow> nat list) \<Rightarrow> bool" where
  "index_inv T N L ix src I P D \<longleftrightarrow>
     index_chains T N I P D \<and>
     (\<forall>e\<in>L. unat (index_entry (I (ix e))) = e \<and> ix e \<in> set (D (src e))) \<and>
     (\<forall>i. index_entry (I i) \<noteq> 0 \<longrightarrow> unat (index_entry (I i)) \<in> L \<and> ix (unat (index_entry (I i))) = i)"

lemma index_invI:
  "index_chains T N I P D \<Longrightarrow>
   (\<And>e. e \<in> L \<Longrightarrow> unat (index_entry (I (ix e))) = e \<and> ix e \<in> set (D (src e))) \<Longrightarrow>
   (\<And>i. index_entry (I i) \<noteq> 0 \<Longrightarrow> unat (index_entry (I i)) \<in> L \<and> ix (unat (index_entry (I i))) = i) \<Longrightarrow>
   index_inv T N L ix src I P D"
  by (simp add: index_inv_def)

lemma index_inv_parts:
  assumes "index_inv T N L ix src I P D"
  shows "index_chains T N I P D"
    and "e \<in> L \<Longrightarrow> unat (index_entry (I (ix e))) = e \<and> ix e \<in> set (D (src e))"
    and "index_entry (I i) \<noteq> 0 \<Longrightarrow> unat (index_entry (I i)) \<in> L \<and> ix (unat (index_entry (I i))) = i"
  using assms by (simp_all add: index_inv_def)

lemma index_used:
  assumes "index_inv T N L ix src I P D" "e \<in> L"
  shows "index_entry (I (ix e)) \<noteq> 0"
  using index_inv_parts(2) [OF assms] chained_used [OF index_inv_parts(1) [OF assms(1)], of "ix e"] by blast

lemma index_inv_cong:
  assumes inv: "index_inv T N L ix src I P D" and "\<And>e. e \<in> L \<Longrightarrow> ix' e = ix e" "\<And>e. e \<in> L \<Longrightarrow> src' e = src e"
  shows "index_inv T N L ix' src' I P D"
  by (rule index_invI) (use index_inv_parts [OF inv] assms(2,3) in auto)

lemma index_add_head:
  assumes inv: "index_inv T N L ix src I P D" and e: "e \<notin> L" "unat v = e" "v \<noteq> 0"
    and b: "b = src e" "0 < b" "b < T" "index_entry (I b) = 0" and ix: "ix e = b"
  shows "index_inv T N (insert e L) ix src (I(b := halves v 0)) P (D(b := [b]))"
proof (rule index_invI)
  note c = index_inv_parts(1) [OF inv]
  have "D b = []" using chained_base_used [OF c b(3)] b(4) by simp
  note step = chained_new_head [OF c b(2,3), of "unat (P b)"]
  show "index_chains T N (I(b := halves v 0)) P (D(b := [b]))"
    by (rule chained_cong [OF step]) (use b(4) e(3) in auto)
  fix x
  show "unat (index_entry ((I(b := halves v 0)) (ix x))) = x \<and> ix x \<in> set ((D(b := [b])) (src x))" if "x \<in> insert e L"
  proof (cases "x = e")
    case False
    then have x: "x \<in> L" using that by simp
    then have "ix x \<noteq> b" using index_used [OF inv x] b(4) by auto
    then show ?thesis using index_inv_parts(2) [OF inv x] \<open>D b = []\<close> by auto
  qed (use e b ix in simp)
  show "unat (index_entry ((I(b := halves v 0)) x)) \<in> insert e L \<and> ix (unat (index_entry ((I(b := halves v 0)) x))) = x"
    if "index_entry ((I(b := halves v 0)) x) \<noteq> 0"
    using that index_inv_parts(3) [OF inv, of x] e ix by (cases "x = b") auto
qed

lemma index_append:
  assumes inv: "index_inv T N L ix src I P D" and e: "e \<notin> L" "unat v = e" "v \<noteq> 0"
    and b: "b = src e" "D b \<noteq> []" and i: "T < i" "i < N" "index_entry (I i) = 0" "unat w = i" and ix: "ix e = i"
    and I': "I' = I(i := halves v 0, last (D b) := set_high (I (last (D b))) w)"
    and P': "unat (P' i) = last (D b)" "\<And>x. x \<noteq> i \<Longrightarrow> P' x = P x"
  shows "index_inv T N (insert e L) ix src I' P' (D(b := D b @ [i]))"
proof (rule index_invI)
  note c = index_inv_parts(1) [OF inv]
  have "last (D b) \<in> set (D b)" using b(2) by simp
  then have "index_entry (I (last (D b))) \<noteq> 0" using chained_used [OF c] by blast
  then have li: "last (D b) \<noteq> i" using i(3) by auto
  have en: "index_entry (I' x) = (if x = i then v else index_entry (I x))" for x
    using li by (simp add: I')
  note step = chained_append [OF c b(2) i(1,2) _ refl]
  show "index_chains T N I' P' (D(b := D b @ [i]))"
    by (rule chained_cong [OF step]) (use li i(3,4) e(3) P' in \<open>auto simp: I'\<close>)
  fix x
  show "unat (index_entry (I' (ix x))) = x \<and> ix x \<in> set ((D(b := D b @ [i])) (src x))" if "x \<in> insert e L"
  proof (cases "x = e")
    case False
    then have x: "x \<in> L" using that by simp
    then have "ix x \<noteq> i" using index_used [OF inv x] i(3) by auto
    then show ?thesis using index_inv_parts(2) [OF inv x] by (auto simp: en)
  qed (use e b ix in \<open>simp add: en\<close>)
  show "unat (index_entry (I' x)) \<in> insert e L \<and> ix (unat (index_entry (I' x))) = x"
    if "index_entry (I' x) \<noteq> 0"
    using that index_inv_parts(3) [OF inv, of x] e ix by (cases "x = i") (auto simp: en)
qed

lemma index_other:
  assumes inv: "index_inv T N L ix src I P D" and e: "e \<in> L" and x: "x \<in> L" "x \<noteq> e"
  shows "ix x \<noteq> ix e"
  using index_inv_parts(2) [OF inv e] index_inv_parts(2) [OF inv x(1)] x(2) by auto

lemma index_remove_alone:
  assumes inv: "index_inv T N L ix src I P D" and e: "e \<in> L" "ix e = i" "i < T" "index_next (I i) = 0"
  shows "index_inv T N (L - {e}) ix src (I(i := 0)) P (D(i := []))"
proof (rule index_invI)
  note c = index_inv_parts(1) [OF inv]
  have "D i \<noteq> []" using chained_base_used [OF c e(3)] index_used [OF inv e(1)] e(2) by simp
  then obtain xs where "D i = i # xs" using chained_head [OF c, of i] by blast
  then have one: "D i = [i]" using chained_next_zero [OF c, of i xs] e(4) by simp
  note step = chained_remove_head [OF c one, of 0 "unat (P i)"]
  show "index_chains T N (I(i := 0)) P (D(i := []))"
    by (rule chained_cong [OF step]) auto
  fix x
  show "unat (index_entry ((I(i := 0)) (ix x))) = x \<and> ix x \<in> set ((D(i := [])) (src x))" if "x \<in> L - {e}"
  proof -
    have x: "x \<in> L" "ix x \<noteq> i" using that index_other [OF inv e(1)] e(2) by auto
    then have "src x \<noteq> i" using index_inv_parts(2) [OF inv x(1)] one by auto
    then show ?thesis using x index_inv_parts(2) [OF inv x(1)] by simp
  qed
  show "unat (index_entry ((I(i := 0)) x)) \<in> L - {e} \<and> ix (unat (index_entry ((I(i := 0)) x))) = x"
    if "index_entry ((I(i := 0)) x) \<noteq> 0"
    using that index_inv_parts(3) [OF inv, of x] e(2) by (cases "x = i") auto
qed

text \<open>An entry of the expansion, in the middle or at the end of its chain.\<close>

lemma index_unlink:
  assumes inv: "index_inv T N L ix src I P D" and e: "e \<in> L" "ix e = i" "T < i"
    and I': "I' = I(unat (P i) := set_high (I (unat (P i))) (index_next (I i)), i := 0)"
    and P': "P' = (if index_next (I i) = 0 then P else P(unat (index_next (I i)) := P i, i := 0))"
  shows "\<exists>D'. index_inv T N (L - {e}) ix src I' P' D'"
proof -
  let ?p = "unat (P i)" and ?y = "unat (index_next (I i))"
  note c = index_inv_parts(1) [OF inv]
  have used: "index_entry (I i) \<noteq> 0" using index_used [OF inv e(1)] e(2) by simp
  obtain b xs ys where split: "D b = b # xs @ i # ys" and p: "?p = last (b # xs)"
    and ys: "ys = [] \<longrightarrow> ?y = 0" "\<forall>y zs. ys = y # zs \<longrightarrow> ?y = y \<and> T < y"
    using chained_expansion [OF c used e(3)] by blast
  have d: "distinct (b # xs @ i # ys)" using chained_distinct [OF c, of b] split by simp
  have pi: "?p \<noteq> i" using p d last_in_set [of "b # xs"] by fastforce
  have yi: "?y \<noteq> i" using ys d e(3) by (cases ys) auto
  have y0: "ys = [] \<longleftrightarrow> index_next (I i) = 0" using ys by (cases ys) (auto simp: unat_eq_0)
  have en: "index_entry (I' x) = (if x = i then 0 else index_entry (I x))" for x
    using pi by (simp add: I')
  note step = chained_remove [OF c split p, of 0 "if index_next (I i) = 0 then unat (P i) else 0"]
  have chains: "index_chains T N I' P' (D(b := b # xs @ ys))"
  proof (rule chained_cong [OF step])
    fix x
    show "(index_entry (I' x) \<noteq> 0) = ((\<lambda>i. index_entry (I i) \<noteq> 0)(i := False)) x" by (simp add: en)
    show "unat (index_next (I' x)) = ((\<lambda>i. unat (index_next (I i)))(?p := ?y, i := 0)) x"
      using pi by (simp add: I')
    show "unat (P' x) = (if ys = [] then (\<lambda>i. unat (P i))(i := if index_next (I i) = 0 then unat (P i) else 0)
        else (\<lambda>i. unat (P i))(?y := ?p, i := if index_next (I i) = 0 then unat (P i) else 0)) x"
      using y0 by (simp add: P')
  qed
  have "index_inv T N (L - {e}) ix src I' P' (D(b := b # xs @ ys))"
  proof (rule index_invI [OF chains])
    fix x
    show "unat (index_entry (I' (ix x))) = x \<and> ix x \<in> set ((D(b := b # xs @ ys)) (src x))" if "x \<in> L - {e}"
    proof -
      have x: "x \<in> L" "ix x \<noteq> i" using that index_other [OF inv e(1)] e(2) by auto
      then show ?thesis using index_inv_parts(2) [OF inv x(1)] split by (auto simp: en)
    qed
    show "unat (index_entry (I' x)) \<in> L - {e} \<and> ix (unat (index_entry (I' x))) = x"
      if "index_entry (I' x) \<noteq> 0"
      using that index_inv_parts(3) [OF inv, of x] e(2) by (cases "x = i") (auto simp: en)
  qed
  then show ?thesis by blast
qed

text \<open>A head with entries on it takes over the next entry, whose rule learns its new place.\<close>

lemma index_remove_head:
  assumes inv: "index_inv T N L ix src I P D" and e: "e \<in> L" "ix e = i" "i < T" "index_next (I i) \<noteq> 0"
    and x: "x = unat (index_next (I i))" and f: "f = unat (index_entry (I x))"
    and I': "I' = I(i := set_high (set_low (I i) (index_entry (I x))) (index_next (I x)), x := 0)"
    and P': "P' = (if index_next (I x) = 0 then P else P(unat (index_next (I x)) := w))" "unat w = i"
  shows "\<exists>D'. index_inv T N (L - {e}) (ix(f := i)) src I' P' D'"
    and "f \<in> L" "f \<noteq> e" "T < x" "x < N" "ix f = x"
    and "index_next (I x) \<noteq> 0 \<Longrightarrow> T < unat (index_next (I x)) \<and> unat (index_next (I x)) < N"
proof -
  let ?y = "unat (index_next (I x))"
  note c = index_inv_parts(1) [OF inv]
  have "D i \<noteq> []" using chained_base_used [OF c e(3)] index_used [OF inv e(1)] e(2) by simp
  then obtain xs where xs: "D i = i # xs" "seg (\<lambda>i. unat (index_next (I i))) (\<lambda>i. unat (P i)) i xs 0"
    using chained_head [OF c, of i] by blast
  moreover have "xs \<noteq> []" using chained_next_zero [OF c xs(1)] e(4) by (simp add: unat_eq_0)
  ultimately obtain ys where ys: "D i = i # [] @ x # ys" using x by (cases xs) auto
  have "x \<in> set (D i)" using ys by simp
  then have ux: "index_entry (I x) \<noteq> 0" using chained_used [OF c] by blast
  have range: "T < x" "x < N" using chained_tl [OF c, of x i] ys by auto
  have "f \<in> L" "ix f = x" using index_inv_parts(3) [OF inv ux] f by auto
  moreover have xi: "x \<noteq> i" using range e(3) by simp
  ultimately have fe: "f \<in> L" "f \<noteq> e" "ix f = x" using e(2) by auto
  have s: "seg (\<lambda>i. unat (index_next (I i))) (\<lambda>i. unat (P i)) x ys 0"
  proof -
    have "xs = x # ys" using xs(1) ys by simp
    then show ?thesis using xs(2) unfolding seg.simps by simp
  qed
  have y: "ys = [] \<longleftrightarrow> index_next (I x) = 0" "ys \<noteq> [] \<Longrightarrow> ?y \<in> set ys"
    using s chained_tl [OF c, of _ i] ys by (cases ys; force simp: unat_eq_0)+
  have y_range: "index_next (I x) \<noteq> 0 \<Longrightarrow> T < ?y \<and> ?y < N"
    using y chained_tl [OF c, of ?y i] ys by auto
  have d: "distinct (i # x # ys)" using chained_distinct [OF c, of i] ys by simp
  have en: "index_entry (I' z) = (if z = x then 0 else if z = i then index_entry (I x) else index_entry (I z))" for z
    using xi by (simp add: I')
  note step = chained_remove [OF c ys, of i 0 "unat (P' x)"]
  have chains: "index_chains T N I' P' (D(i := i # [] @ ys))"
  proof (rule chained_cong [OF step])
    fix z
    show "(index_entry (I' z) \<noteq> 0) = ((\<lambda>i. index_entry (I i) \<noteq> 0)(x := False)) z"
      using ux index_used [OF inv e(1)] e(2) by (simp add: en)
    show "unat (index_next (I' z)) = ((\<lambda>i. unat (index_next (I i)))(i := ?y, x := 0)) z"
      using xi by (simp add: I')
    have "index_next (I x) \<noteq> 0 \<Longrightarrow> ?y \<noteq> x" using y d by auto
    then show "unat (P' z) = (if ys = [] then (\<lambda>i. unat (P i))(x := unat (P' x))
        else (\<lambda>i. unat (P i))(?y := i, x := unat (P' x))) z"
      using y(1) P' by simp
  qed simp
  have "index_inv T N (L - {e}) (ix(f := i)) src I' P' (D(i := i # [] @ ys))"
  proof (rule index_invI [OF chains])
    fix z
    show "unat (index_entry (I' ((ix(f := i)) z))) = z \<and>
        (ix(f := i)) z \<in> set ((D(i := i # [] @ ys)) (src z))" if "z \<in> L - {e}"
    proof (cases "z = f")
      case True
      have "ix f \<in> set (D (src f))" using index_inv_parts(2) [OF inv fe(1)] by simp
      then have "src f = i" using chained_unique [OF c, of x "src f" i] fe(3) ys by auto
      then show ?thesis using True xi f by (simp add: en)
    next
      case False
      then have z: "z \<in> L" "ix z \<noteq> i" "ix z \<noteq> x"
        using that index_other [OF inv e(1)] index_other [OF inv fe(1)] e(2) fe(3) by auto
      then show ?thesis using index_inv_parts(2) [OF inv z(1)] False ys by (auto simp: en)
    qed
    show "unat (index_entry (I' z)) \<in> L - {e} \<and> (ix(f := i)) (unat (index_entry (I' z))) = z"
      if nz: "index_entry (I' z) \<noteq> 0"
    proof (cases "z = i")
      case True
      then show ?thesis using xi fe f by (simp add: en)
    next
      case False
      then have z: "z \<noteq> x" "index_entry (I z) \<noteq> 0" "index_entry (I' z) = index_entry (I z)"
        using nz by (simp_all add: en split: if_splits)
      then show ?thesis using index_inv_parts(3) [OF inv z(2)] False e(2) fe(3) by auto
    qed
  qed
  then show "\<exists>D'. index_inv T N (L - {e}) (ix(f := i)) src I' P' D'" by blast
  show "f \<in> L" "f \<noteq> e" "T < x" "x < N" "ix f = x" using fe range by simp_all
  show "index_next (I x) \<noteq> 0 \<Longrightarrow> T < ?y \<and> ?y < N" by (rule y_range)
qed

section \<open>Handles\<close>

definition entry_of :: "nat \<Rightarrow> 16 word \<Rightarrow> nat" where
  "entry_of T hid = (if hid AND 1 \<noteq> 0 then T + unat (drop_bit 1 hid) else unat (drop_bit 1 hid))"

definition handles_inv :: "nat \<Rightarrow> nat \<Rightarrow> nat set \<Rightarrow> (nat \<Rightarrow> 16 word) \<Rightarrow> bool" where
  "handles_inv T N L H \<longleftrightarrow>
     (\<forall>k. H k \<noteq> 0 \<longrightarrow> entry_of T (H k) \<in> L \<and> (H k AND 1 \<noteq> 0 \<longleftrightarrow> T \<le> entry_of T (H k)) \<and> Suc k < N) \<and>
     (\<forall>k k'. H k \<noteq> 0 \<longrightarrow> H k' \<noteq> 0 \<longrightarrow> entry_of T (H k) = entry_of T (H k') \<longrightarrow> k = k')"

lemma handles_add:
  assumes "handles_inv T N L H" "H k = 0" "Suc k < N" "hid \<noteq> 0" "entry_of T hid = e" "hid AND 1 \<noteq> 0 \<longleftrightarrow> T \<le> e" "e \<notin> L"
  shows "handles_inv T N (insert e L) (H(k := hid))"
  using assms unfolding handles_inv_def by (auto split: if_splits)

lemma handles_remove:
  assumes "handles_inv T N L H" "H k \<noteq> 0" "entry_of T (H k) = e"
  shows "handles_inv T N (L - {e}) (H(k := 0))"
  using assms unfolding handles_inv_def by (auto split: if_splits)

text \<open>The first free place is found in time: every place before it holds a rule of its own.\<close>

lemma handles_room:
  assumes h: "handles_inv T N L H" and L: "L \<subseteq> {0<..<N} - {T}" "e \<in> {0<..<N} - {T} - L" "0 < T" "T < N"
    and full: "\<And>j. j < k \<Longrightarrow> H j \<noteq> 0"
  shows "Suc k < N"
proof -
  have "inj_on (\<lambda>j. entry_of T (H j)) {..<k}"
    using h full by (auto simp: inj_on_def handles_inv_def)
  then have "k = card ((\<lambda>j. entry_of T (H j)) ` {..<k})" by (simp add: card_image)
  also have "\<dots> \<le> card L"
    using h full L(1) by (intro card_mono) (auto simp: handles_inv_def intro: finite_subset)
  also have "L \<subseteq> {0<..<N} - {T} - {e}" using L by auto
  then have "card L \<le> card ({0<..<N} - {T} - {e})" by (intro card_mono) auto
  also have "\<dots> = N - 3" using L by (simp add: card_Diff_singleton)
  finally have "k \<le> N - 3" .
  moreover have "3 \<le> N"
  proof -
    have "0 < e" "e < N" "e \<noteq> T" using L(2) by auto
    then show ?thesis using L(3,4) by linarith
  qed
  ultimately show ?thesis by simp
qed

text \<open>Parsing undoes making.\<close>

lemma drop_push_16: "unat x < 32768 \<Longrightarrow> drop_bit 1 (push_bit 1 x) = x" for x :: "16 word"
proof -
  assume x: "unat x < 32768"
  have "unat (push_bit 1 x) = 2 * unat x"
    using x unfolding unsigned_push_bit_eq by (simp add: push_bit_eq_mult take_bit_nat_eq_self)
  then have "unat (drop_bit 1 (push_bit 1 x)) = unat x"
    unfolding unat_drop_1 by simp
  then show ?thesis by (simp add: word_unat_eq_iff)
qed

lemma entry_of_rule_id:
  assumes T: "unat T16 = T" "T < 32768" and w: "unat w = e" "e - T < 32768" "e \<noteq> 0" "e \<noteq> T"
  shows "rule_id T16 w \<noteq> 0" and "entry_of T (rule_id T16 w) = e" and "rule_id T16 w AND 1 \<noteq> 0 \<longleftrightarrow> T \<le> e"
proof -
  have even: "push_bit 1 x AND 1 = 0" for x :: "16 word"
    by (simp add: and_one_eq flip: even_iff_mod_2_eq_zero)
  have odd: "(y OR 1) AND 1 = 1" and drop: "drop_bit 1 (y OR 1) = drop_bit 1 y" for y :: "16 word"
    by (rule bit_word_eqI; auto simp: bit_simps)+
  have "entry_of T (rule_id T16 w) = e \<and> rule_id T16 w \<noteq> 0 \<and> (rule_id T16 w AND 1 \<noteq> 0 \<longleftrightarrow> T \<le> e)"
  proof (cases "w \<ge> T16")
    case True
    then have le: "T \<le> e" using T(1) w(1) by (simp add: word_le_nat_alt)
    have x: "unat (w - T16) = e - T" using unat_sub [OF True] T(1) w(1) by simp
    have dp: "drop_bit 1 (push_bit 1 (w - T16)) = w - T16" by (rule drop_push_16) (use x w(2) in simp)
    have r: "rule_id T16 w = push_bit 1 (w - T16) OR 1" using True by (simp add: rule_id_def)
    have "rule_id T16 w AND 1 \<noteq> 0" unfolding r odd by simp
    then have "rule_id T16 w \<noteq> 0" by auto
    moreover have "drop_bit 1 (rule_id T16 w) = w - T16" unfolding r drop dp ..
    ultimately show ?thesis
      using \<open>rule_id T16 w AND 1 \<noteq> 0\<close> x le by (simp add: entry_of_def)
  next
    case False
    then have lt: "e < T" using T(1) w(1) by (simp add: word_le_nat_alt)
    have dp: "drop_bit 1 (push_bit 1 w) = w" by (rule drop_push_16) (use w(1) lt T(2) in simp)
    have r: "rule_id T16 w = push_bit 1 w" using False by (simp add: rule_id_def)
    have "rule_id T16 w AND 1 = 0" unfolding r even ..
    moreover have "drop_bit 1 (rule_id T16 w) = w" unfolding r dp ..
    moreover from this have "rule_id T16 w \<noteq> 0" using w(1,3) by auto
    ultimately show ?thesis using w(1) lt by (simp add: entry_of_def)
  qed
  then show "rule_id T16 w \<noteq> 0" and "entry_of T (rule_id T16 w) = e"
    and "rule_id T16 w AND 1 \<noteq> 0 \<longleftrightarrow> T \<le> e" by simp_all
qed

end
