(* ===== verification/NatRefine.thy ===== *)
theory NatRefine
  imports NatTables
begin

text \<open>
  From the driver's operations to the tables as functions: what each step of an addition or a deletion reads and
  writes, when the table is well formed, the kernel does what it is told and the calls outside succeed.
\<close>

section \<open>Two arrays as one\<close>

definition at :: "'a \<Rightarrow> 'a list \<Rightarrow> nat \<Rightarrow> 'a" where
  "at d xs i = (if i < length xs then xs ! i else d)"

definition two :: "'a \<Rightarrow> nat \<Rightarrow> 'a list \<Rightarrow> 'a list \<Rightarrow> nat \<Rightarrow> 'a" where
  "two d T xs ys e = (if e < T then at d xs e else at d ys (e - T))"

lemma at_update: "i < length xs \<Longrightarrow> at d (xs[i := x]) = (at d xs)(i := x)"
  by (auto simp: at_def)

lemma two_update_low: "e < T \<Longrightarrow> T = length xs \<Longrightarrow> two d T (xs[e := x]) ys = (two d T xs ys)(e := x)"
  by (auto simp: two_def at_def)

lemma two_update_high:
  "T \<le> e \<Longrightarrow> e - T < length ys \<Longrightarrow> two d T xs (ys[e - T := y]) = (two d T xs ys)(e := y)"
  by (auto simp: two_def at_def fun_eq_iff)

lemma rd_low: "e < T \<Longrightarrow> T = length xs \<Longrightarrow> rd xs e = Some (two d T xs ys e)"
  by (simp add: rd_def two_def at_def)

lemma rd_high: "T \<le> e \<Longrightarrow> e - T < length ys \<Longrightarrow> rd ys (e - T) = Some (two d T xs ys e)"
  by (simp add: rd_def two_def at_def)

lemma rd_at: "i < length xs \<Longrightarrow> rd xs i = Some (at d xs i)"
  by (simp add: rd_def at_def)

section \<open>The memory of a table\<close>

definition rules_at :: "nat \<Rightarrow> nat_mem \<Rightarrow> nat \<Rightarrow> ipa_nat_rule" where
  "rules_at T m = two zero_rule T (ipv4_rules m) (ipv4_expn_rules m)"

definition words_at :: "nat \<Rightarrow> nat_mem \<Rightarrow> nat \<Rightarrow> 32 word" where
  "words_at T m = two 0 T (index_table m) (index_table_expn m)"

definition lens :: "nat \<Rightarrow> nat \<Rightarrow> nat_mem \<Rightarrow> bool" where
  "lens T N m \<longleftrightarrow> length (ipv4_rules m) = T \<and> length (ipv4_expn_rules m) = N - T \<and>
     length (index_table m) = T \<and> length (index_table_expn m) = N - T \<and> T \<le> N"

definition store_rule :: "nat \<Rightarrow> nat \<Rightarrow> ipa_nat_rule \<Rightarrow> nat_mem \<Rightarrow> nat_mem" where
  "store_rule T e r m =
     (if e < T then m\<lparr>ipv4_rules := (ipv4_rules m)[e := r]\<rparr>
      else m\<lparr>ipv4_expn_rules := (ipv4_expn_rules m)[e - T := r]\<rparr>)"

definition store_word :: "nat \<Rightarrow> nat \<Rightarrow> 32 word \<Rightarrow> nat_mem \<Rightarrow> nat_mem" where
  "store_word T i w m =
     (if i < T then m\<lparr>index_table := (index_table m)[i := w]\<rparr>
      else m\<lparr>index_table_expn := (index_table_expn m)[i - T := w]\<rparr>)"

lemma lens_store [simp]:
  "lens T N (store_rule T e r m) = lens T N m" "lens T N (store_word T e w m) = lens T N m"
  by (simp_all add: lens_def store_rule_def store_word_def)

lemma views_store_rule:
  assumes "lens T N m" "e < N"
  shows "rules_at T (store_rule T e r m) = (rules_at T m)(e := r)" "words_at T (store_rule T e r m) = words_at T m"
  using assms
  by (auto simp: lens_def store_rule_def rules_at_def words_at_def two_update_low two_update_high)

lemma views_store_word:
  assumes "lens T N m" "i < N"
  shows "words_at T (store_word T i w m) = (words_at T m)(i := w)" "rules_at T (store_word T i w m) = rules_at T m"
  using assms
  by (auto simp: lens_def store_word_def rules_at_def words_at_def two_update_low two_update_high)

lemma rd_rules:
  assumes "lens T N m"
  shows "e < T \<Longrightarrow> rd (ipv4_rules m) e = Some (rules_at T m e)"
    and "T \<le> e \<Longrightarrow> e < N \<Longrightarrow> rd (ipv4_expn_rules m) (e - T) = Some (rules_at T m e)"
    and "e < T \<Longrightarrow> rd (index_table m) e = Some (words_at T m e)"
    and "T \<le> e \<Longrightarrow> e < N \<Longrightarrow> rd (index_table_expn m) (e - T) = Some (words_at T m e)"
  using assms by (simp_all add: lens_def rules_at_def words_at_def rd_low rd_high)

lemma wr_rules:
  assumes "lens T N m"
  shows "e < T \<Longrightarrow> map_option (\<lambda>rs. m\<lparr>ipv4_rules := rs\<rparr>) (wr (ipv4_rules m) e r) = Some (store_rule T e r m)"
    and "T \<le> e \<Longrightarrow> e < N \<Longrightarrow>
      map_option (\<lambda>rs. m\<lparr>ipv4_expn_rules := rs\<rparr>) (wr (ipv4_expn_rules m) (e - T) r) = Some (store_rule T e r m)"
    and "e < T \<Longrightarrow> map_option (\<lambda>ws. m\<lparr>index_table := ws\<rparr>) (wr (index_table m) e w) = Some (store_word T e w m)"
    and "T \<le> e \<Longrightarrow> e < N \<Longrightarrow>
      map_option (\<lambda>ws. m\<lparr>index_table_expn := ws\<rparr>) (wr (index_table_expn m) (e - T) w) = Some (store_word T e w m)"
  using assms by (auto simp: lens_def wr_def store_rule_def store_word_def)

section \<open>What the kernel does\<close>

text \<open>
  A DMA command writes 16 bits at an offset of a table: of the rule tables the driver only asks for the next index, the
  flags and the upper half of the time stamp and protocol, of the index tables for either half of an entry. The
  contract says that a list of such commands inside the tables is carried out one after the other.
\<close>

definition upd :: "'a list \<Rightarrow> nat \<Rightarrow> ('a \<Rightarrow> 'a) \<Rightarrow> 'a list" where
  "upd xs i f = (if i < length xs then xs[i := f (xs ! i)] else xs)"

definition dma_rule_field :: "nat \<Rightarrow> 16 word \<Rightarrow> ipa_nat_rule \<Rightarrow> ipa_nat_rule" where
  "dma_rule_field f v r =
     (if f = 8 then set_next v r else if f = 18 then set_flags v r else if f = 22 then set_proto v r else r)"

definition dma_word_field :: "nat \<Rightarrow> 16 word \<Rightarrow> 32 word \<Rightarrow> 32 word" where
  "dma_word_field f v w = (if f = 0 then set_low w v else if f = 2 then set_high w v else w)"

definition dma_at :: "dma_one \<Rightarrow> nat_mem \<Rightarrow> nat_mem" where
  "dma_at d m = (
     let off = unat (dma_offset d);
         on_rule = (\<lambda>rs. upd rs (off div 32) (dma_rule_field (off mod 32) (dma_data d)));
         on_word = (\<lambda>ws. upd ws (off div 4) (dma_word_field (off mod 4) (dma_data d)))
     in case base_addr d of
       IPA_NAT_BASE_TBL \<Rightarrow> m\<lparr>ipv4_rules := on_rule (ipv4_rules m)\<rparr>
     | IPA_NAT_EXPN_TBL \<Rightarrow> m\<lparr>ipv4_expn_rules := on_rule (ipv4_expn_rules m)\<rparr>
     | IPA_NAT_INDX_TBL \<Rightarrow> m\<lparr>index_table := on_word (index_table m)\<rparr>
     | IPA_NAT_INDEX_EXPN_TBL \<Rightarrow> m\<lparr>index_table_expn := on_word (index_table_expn m)\<rparr>)"

definition dma_inside :: "nat_mem \<Rightarrow> dma_one \<Rightarrow> bool" where
  "dma_inside m d = (
     let off = unat (dma_offset d) in case base_addr d of
       IPA_NAT_BASE_TBL \<Rightarrow> off mod 32 \<in> {8, 18, 22} \<and> off div 32 < length (ipv4_rules m)
     | IPA_NAT_EXPN_TBL \<Rightarrow> off mod 32 \<in> {8, 18, 22} \<and> off div 32 < length (ipv4_expn_rules m)
     | IPA_NAT_INDX_TBL \<Rightarrow> off mod 4 \<in> {0, 2} \<and> off div 4 < length (index_table m)
     | IPA_NAT_INDEX_EXPN_TBL \<Rightarrow> off mod 4 \<in> {0, 2} \<and> off div 4 < length (index_table_expn m))"

definition dma_contract :: "nat_env \<Rightarrow> bool" where
  "dma_contract E \<longleftrightarrow>
     mem_offset E = 0 \<and>
     (\<forall>m cmds. (\<forall>d\<in>set cmds. dma_inside m d) \<longrightarrow> dma_write E cmds m = fold dma_at cmds m)"

text \<open>A command that names field \<open>f\<close> of entry \<open>e\<close> of the rule tables or of the index tables.\<close>

definition rule_cmd :: "nat \<Rightarrow> nat \<Rightarrow> nat \<Rightarrow> dma_one \<Rightarrow> bool" where
  "rule_cmd T e f d \<longleftrightarrow>
     (if e < T then base_addr d = IPA_NAT_BASE_TBL \<and> unat (dma_offset d) = 32 * e + f
      else base_addr d = IPA_NAT_EXPN_TBL \<and> unat (dma_offset d) = 32 * (e - T) + f)"

definition word_cmd :: "nat \<Rightarrow> nat \<Rightarrow> nat \<Rightarrow> dma_one \<Rightarrow> bool" where
  "word_cmd T i f d \<longleftrightarrow>
     (if i < T then base_addr d = IPA_NAT_INDX_TBL \<and> unat (dma_offset d) = 4 * i + f
      else base_addr d = IPA_NAT_INDEX_EXPN_TBL \<and> unat (dma_offset d) = 4 * (i - T) + f)"

lemma rule_cmd_dma:
  assumes "lens T N m" "rule_cmd T e f d" "e < N" "f \<in> {8, 18, 22}"
  shows "dma_inside m d" and "dma_at d m = store_rule T e (dma_rule_field f (dma_data d) (rules_at T m e)) m"
proof -
  have "(32 * x + f) mod 32 = f" "(32 * x + f) div 32 = x" for x :: nat
    using assms(4) by auto
  then show "dma_inside m d" and "dma_at d m = store_rule T e (dma_rule_field f (dma_data d) (rules_at T m e)) m"
    using assms
    by (auto simp: lens_def rule_cmd_def dma_inside_def dma_at_def upd_def store_rule_def rules_at_def two_def at_def
        Let_def split: if_splits)
qed

lemma word_cmd_dma:
  assumes "lens T N m" "word_cmd T i f d" "i < N" "f \<in> {0, 2}"
  shows "dma_inside m d" and "dma_at d m = store_word T i (dma_word_field f (dma_data d) (words_at T m i)) m"
proof -
  have "(4 * x + f) mod 4 = f" "(4 * x + f) div 4 = x" for x :: nat
    using assms(4) by auto
  then show "dma_inside m d" and "dma_at d m = store_word T i (dma_word_field f (dma_data d) (words_at T m i)) m"
    using assms
    by (auto simp: lens_def word_cmd_def dma_inside_def dma_at_def upd_def store_word_def words_at_def two_def at_def
        Let_def split: if_splits)
qed

section \<open>A table in working order\<close>

definition prevs_at :: "nat \<Rightarrow> ip4_table \<Rightarrow> nat \<Rightarrow> 16 word" where
  "prevs_at T t i = (case index_expn_table_meta t of Some meta \<Rightarrow> if T \<le> i then at 0 meta (i - T) else 0 | None \<Rightarrow> 0)"

definition ids_at :: "ip4_table \<Rightarrow> nat \<Rightarrow> 16 word" where
  "ids_at t k = (case rule_id_array t of Some ids \<Rightarrow> at 0 ids k | None \<Rightarrow> 0)"

text \<open>
  A base table has at most 16384 entries: above that the 16-bit offset of an index entry wraps. The library reaches
  that size only for a table of more than 20480 rules.
\<close>

definition sized :: "nat \<Rightarrow> nat \<Rightarrow> ip4_table \<Rightarrow> bool" where
  "sized T N t \<longleftrightarrow>
     valid t \<and> unat (table_entries t) = T \<and> N = T + unat (expn_table_entries t) \<and>
     2 \<le> T \<and> T \<le> 16384 \<and> T + 2 \<le> N \<and> N \<le> T + 16384 \<and> tbl_addr_offset t = 0 \<and>
     (\<exists>meta. index_expn_table_meta t = Some meta \<and> length meta = N - T) \<and>
     (\<exists>ids. rule_id_array t = Some ids \<and> length ids = N)"

definition shaped :: "nat \<Rightarrow> nat \<Rightarrow> ip4_table \<Rightarrow> nat_mem \<Rightarrow> bool" where
  "shaped T N t m \<longleftrightarrow> sized T N t \<and> region t = MAPPED m \<and> lens T N m"

lemma shaped_parts:
  assumes "shaped T N t m"
  shows "sized T N t" "region t = MAPPED m" "lens T N m" "valid t"
    "unat (table_entries t) = T" "unat (expn_table_entries t) = N - T" "N = T + unat (expn_table_entries t)"
    "2 \<le> T" "T \<le> 16384" "T + 2 \<le> N" "N \<le> T + 16384" "N < 65536" "tbl_addr_offset t = 0"
  using assms by (auto simp: shaped_def sized_def)

lemma shaped_set_mem: "shaped T N t m \<Longrightarrow> lens T N m' \<Longrightarrow> shaped T N (set_mem m' t) m'"
  by (auto simp: shaped_def sized_def set_mem_def)

lemma set_mem_same [simp]:
  "table_entries (set_mem m t) = table_entries t" "expn_table_entries (set_mem m t) = expn_table_entries t"
  "tbl_addr_offset (set_mem m t) = tbl_addr_offset t" "index_expn_table_meta (set_mem m t) = index_expn_table_meta t"
  "rule_id_array (set_mem m t) = rule_id_array t" "valid (set_mem m t) = valid t"
  "region (set_mem m t) = MAPPED m" "prevs_at T (set_mem m t) = prevs_at T t" "ids_at (set_mem m t) = ids_at t"
  "set_mem m' (set_mem m t) = set_mem m' t"
  by (simp_all add: set_mem_def prevs_at_def ids_at_def fun_eq_iff)

text \<open>Calls that succeed.\<close>

definition willing :: "nat_cache \<Rightarrow> bool" where
  "willing c \<longleftrightarrow> set (answers c) \<subseteq> {True}"

definition later :: "nat_cache \<Rightarrow> nat_cache" where
  "later c = c\<lparr>answers := tl (answers c)\<rparr>"

lemma ask_willing: "willing c \<Longrightarrow> ask c = (True, later c)"
  by (cases "answers c") (auto simp: willing_def ask_def later_def)

lemma later_same [simp]:
  "ip4_tbl (later c) = ip4_tbl c" "pdns (later c) = pdns c" "ver (later c) = ver c"
  "table_cnt (later c) = table_cnt c" "ipa_fd (later c) = ipa_fd c"
  by (simp_all add: later_def)

lemma willing_later [simp]: "willing c \<Longrightarrow> willing (later c)"
  by (cases "answers c") (auto simp: willing_def later_def)

lemma willing_set_tbl [simp]: "willing (set_tbl i t c) = willing c"
  by (simp add: willing_def set_tbl_def)

lemma later_set_tbl: "later (set_tbl i t c) = set_tbl i t (later c)"
  by (simp add: later_def set_tbl_def)

lemma set_tbl_one [simp]: "ip4_tbl c = [t] \<Longrightarrow> ip4_tbl (set_tbl 0 t' c) = [t']"
  by (simp add: set_tbl_def)

lemma set_tbl_twice [simp]: "set_tbl 0 t' (set_tbl 0 t c) = set_tbl 0 t' c"
  by (simp add: set_tbl_def)

lemma set_tbl_fields [simp]:
  "pdns (set_tbl i t c) = pdns c" "ver (set_tbl i t c) = ver c" "table_cnt (set_tbl i t c) = table_cnt c"
  "answers (set_tbl i t c) = answers c"
  by (simp_all add: set_tbl_def)

lemma rd_one: "ip4_tbl c = [t] \<Longrightarrow> rd (ip4_tbl c) 0 = Some t"
  by (simp add: rd_def)

section \<open>Arithmetic of entries\<close>

lemma word_below: "unat w = e \<Longrightarrow> unat T16 = T \<Longrightarrow> w < T16 \<longleftrightarrow> e < T" for w T16 :: "16 word"
  by (simp add: word_less_nat_alt)

lemma word_from: "unat w = e \<Longrightarrow> unat T16 = T \<Longrightarrow> w \<ge> T16 \<longleftrightarrow> T \<le> e" for w T16 :: "16 word"
  by (simp add: word_le_nat_alt)

lemma word_minus: "unat w = e \<Longrightarrow> unat T16 = T \<Longrightarrow> T \<le> e \<Longrightarrow> unat (w - T16) = e - T" for w T16 :: "16 word"
  by (simp add: unat_sub word_le_nat_alt)

lemma unat_of_nat32: "n < 4294967296 \<Longrightarrow> unat (of_nat n :: 32 word) = n"
  by (simp add: unsigned_of_nat take_bit_nat_eq_self)

lemma entry_offset:
  assumes "unat w = e" "e < 65536" "f < 32"
  shows "unat (32 * ucast w + of_nat f :: 32 word) = 32 * e + f"
proof -
  have "(ucast w :: 32 word) = of_nat e" unfolding assms(1) [symmetric] by simp
  then have eq: "(32 * ucast w + of_nat f :: 32 word) = of_nat (32 * e + f)" by simp
  show ?thesis unfolding eq using assms(2,3) by (intro unat_of_nat32) simp
qed

lemma index_offset:
  assumes "unat w = e" "e < 65536" "f < 32"
  shows "unat (4 * ucast w + of_nat f :: 32 word) = 4 * e + f"
proof -
  have "(ucast w :: 32 word) = of_nat e" unfolding assms(1) [symmetric] by simp
  then have eq: "(4 * ucast w + of_nat f :: 32 word) = of_nat (4 * e + f)" by simp
  show ?thesis unfolding eq using assms(2,3) by (intro unat_of_nat32) simp
qed

section \<open>Finding the place of a rule\<close>

lemma scan_first:
  assumes "scan P xs is = Some (Some i)"
  shows "i \<in> set is \<and> i < length xs \<and> P (xs ! i)"
  using assms
  by (induction "is") (auto simp: rd_def Option.bind_eq_Some_conv split: if_splits)

lemma scan_none:
  "scan P xs is = Some None \<Longrightarrow> i \<in> set is \<Longrightarrow> i < length xs \<and> \<not> P (xs ! i)"
  by (induction "is") (auto simp: rd_def Option.bind_eq_Some_conv split: if_splits)

lemma scan_total: "(\<And>i. i \<in> set is \<Longrightarrow> i < length xs) \<Longrightarrow> \<exists>r. scan P xs is = Some r"
  by (induction "is") (auto simp: rd_def)

lemma scan_upt_first:
  assumes "scan P xs [a..<b] = Some (Some i)" "a \<le> j" "j < i"
  shows "\<not> P (xs ! j)"
  using assms
proof (induction "b - a" arbitrary: a)
  case (Suc n)
  then have up: "[a..<b] = a # [Suc a..<b]" by (simp add: upt_rec)
  show ?case
  proof (cases "P (xs ! a)")
    case True
    then have "i = a" using Suc.prems(1) up by (auto simp: rd_def Option.bind_eq_Some_conv split: if_splits)
    then show ?thesis using Suc.prems by simp
  next
    case False
    then have "scan P xs [Suc a..<b] = Some (Some i)"
      using Suc.prems(1) up by (auto simp: rd_def Option.bind_eq_Some_conv split: if_splits)
    then show ?thesis using Suc.hyps(1) [of "Suc a"] Suc.hyps(2) Suc.prems(2,3) False by (cases "j = a") auto
  qed
qed simp

text \<open>The walk along a chain ends at its last entry.\<close>

lemma chain_end_last:
  fixes W :: "nat \<Rightarrow> 'a"
  assumes "seg (\<lambda>i. unat (nx (W i))) pv a xs 0" "distinct (a # xs)" "\<And>x. x \<in> set xs \<Longrightarrow> T < x \<and> x < N"
    and "unat T16 = T" "length ys = N - T" "\<And>x. T \<le> x \<Longrightarrow> x < N \<Longrightarrow> rd ys (x - T) = Some (W x)"
    and "xs = [] \<Longrightarrow> unat p = a"
  shows "\<exists>r. chain_end nx ys T16 (nx (W a)) p = Some (Some r) \<and> unat r = last (a # xs)"
  using assms(1-3,7)
proof (induction xs arbitrary: a p)
  case Nil
  then have "nx (W a) = 0" by (simp add: unat_eq_0)
  then show ?case using Nil by (subst chain_end.simps) simp
next
  case (Cons x xs)
  have x: "unat (nx (W a)) = x" "T < x" "x < N" using Cons.prems by simp_all
  then have "nx (W a) \<noteq> 0" by auto
  moreover have "rd ys (unat (nx (W a) - T16)) = Some (W x)"
    using word_minus [OF x(1) assms(4)] x assms(6) by simp
  moreover have "unat (nx (W x)) \<noteq> x"
  proof (cases xs)
    case Nil
    then show ?thesis using Cons.prems(1) x(2) by simp
  next
    case (Cons y zs)
    then show ?thesis using Cons.prems(1,2) by simp
  qed
  then have "nx (W a) \<noteq> nx (W x)" using x(1) by auto
  moreover obtain r where "chain_end nx ys T16 (nx (W x)) (nx (W a)) = Some (Some r)" "unat r = last (x # xs)"
    using Cons.IH [of x "nx (W a)"] Cons.prems x(1) by auto
  ultimately show ?case by (subst chain_end.simps) simp
qed

lemma free_place:
  assumes "length ys = N - T" "T < N" "N < 65536" "unat X = N - T"
    and "\<And>x. T \<le> x \<Longrightarrow> x < N \<Longrightarrow> rd ys (x - T) = Some (W x)"
  shows "\<exists>f. map_option (\<lambda>cnt. case cnt of Some cnt \<Rightarrow> of_nat cnt | None \<Rightarrow> 0) (scan P ys [1..<unat X]) = Some (f :: 16 word) \<and>
     (f = 0 \<and> (\<forall>e. T < e \<and> e < N \<longrightarrow> \<not> P (W e)) \<or>
      f \<noteq> 0 \<and> T + unat f < N \<and> P (W (T + unat f)))"
proof -
  have nth: "j < N - T \<Longrightarrow> ys ! j = W (T + j)" for j
    using assms(5) [of "T + j"] assms(1) by (simp add: rd_def)
  obtain r where r: "scan P ys [1..<unat X] = Some r"
    using scan_total [of "[1..<unat X]" ys P] assms(1,4) by auto
  show ?thesis
  proof (cases r)
    case None
    have "\<not> P (W e)" if "T < e" "e < N" for e
    proof -
      have "1 \<le> e - T" "e - T < N - T" using that by linarith+
      then show ?thesis using scan_none [OF r [unfolded None], of "e - T"] nth [of "e - T"] that assms(4) by simp
    qed
    then show ?thesis using r None by auto
  next
    case (Some i)
    then have i: "1 \<le> i" "i < N - T" "P (W (T + i))"
      using scan_first [of P ys "[1..<unat X]" i] r nth [of i] assms(4) by auto
    then have "unat (of_nat i :: 16 word) = i" using assms(3) by (intro unat_of_nat16) simp
    then show ?thesis using r Some i by (intro exI [of _ "of_nat i"]) (auto simp: unat_gt_0 [symmetric])
  qed
qed

lemma table_hash_range:
  assumes "unat T16 = T" "2 \<le> T"
  shows "0 < unat (clnt_dst_hash E c clnt ip T16) \<and> unat (clnt_dst_hash E c clnt ip T16) < T"
    and "0 < unat (clnt_src_hash clnt T16) \<and> unat (clnt_src_hash clnt T16) < T"
proof -
  have u: "unat (T16 - 1) = T - 1" using word_minus [of T16 T 1 1] assms by simp
  have pos: "0 < T16 - 1"
    unfolding word_less_nat_alt u using assms(2) by simp
  have less: "w \<le> T16 - 1 \<Longrightarrow> unat w < T" for w
    unfolding word_le_nat_alt u using assms(2) by simp
  have "0 < clnt_dst_hash E c clnt ip T16 \<and> clnt_dst_hash E c clnt ip T16 \<le> T16 - 1"
    unfolding clnt_dst_hash_def by (rule hash_bounds(1) [OF pos])
  then show "0 < unat (clnt_dst_hash E c clnt ip T16) \<and> unat (clnt_dst_hash E c clnt ip T16) < T"
    using less by (auto simp: word_less_nat_alt)
  have "0 < clnt_src_hash clnt T16 \<and> clnt_src_hash clnt T16 \<le> T16 - 1"
    unfolding clnt_src_hash_def by (rule hash_bounds(2) [OF pos])
  then show "0 < unat (clnt_src_hash clnt T16) \<and> unat (clnt_src_hash clnt T16) < T"
    using less by (auto simp: word_less_nat_alt)
qed

lemma sw_prev_zero: "clnt_sw_rule clnt ip = clnt_sw_rule clnt ip\<lparr>sw_prev_index := 0\<rparr>"
  by (simp add: clnt_sw_rule_def zero_sw_rule_def)

text \<open>
  The place of a new rule: its head when that is free, otherwise a free entry of the expansion behind the last entry of
  its chain, otherwise none.
\<close>

lemma generate_tbl_rule_spec:
  assumes s: "shaped T N t m" and inv: "rules_inv T N dst (rules_at T m) C"
    and b: "b = unat (clnt_dst_hash E c clnt ip (table_entries t))"
  shows "\<exists>e p. ipa_nati_generate_tbl_rule E c t clnt ip = Some (e, clnt_sw_rule clnt ip\<lparr>sw_prev_index := p\<rparr>) \<and>
     (C b = [] \<and> unat e = b \<and> p = 0 \<and> rule_enabled (rules_at T m b) = 0 \<or>
      C b \<noteq> [] \<and> unat p = last (C b) \<and>
        (T < unat e \<and> unat e < N \<and> rule_enabled (rules_at T m (unat e)) = 0 \<or>
         e = 0 \<and> (\<forall>x. T < x \<and> x < N \<longrightarrow> rule_enabled (rules_at T m x) \<noteq> 0)))"
proof -
  note sp = shaped_parts [OF s]
  note c = rules_inv_parts(1) [OF inv]
  let ?R = "rules_at T m" and ?h = "clnt_dst_hash E c clnt ip (table_entries t)"
  have b': "0 < b" "b < T" using table_hash_range(1) [OF sp(5,8)] b by auto
  have rdb: "rd (ipv4_rules m) (unat ?h) = Some (?R b)"
    using rd_rules(1) [OF sp(3) b'(2)] b by simp
  show ?thesis
  proof (cases "rule_enabled (?R b) = 0")
    case True
    then have "C b = []" using chained_base_used [OF c b'(2)] by simp
    then show ?thesis
      using True b sp(2) rdb sw_prev_zero [of clnt ip] by (auto simp: ipa_nati_generate_tbl_rule_def)
  next
    case False
    then have "C b \<noteq> []" using chained_base_used [OF c b'(2)] by simp
    then obtain xs where xs: "C b = b # xs" "seg (\<lambda>e. unat (rule_next (?R e))) (\<lambda>e. unat (rule_prev (?R e))) b xs 0"
      using chained_head [OF c, of b] by blast
    have rdx: "\<And>x. T \<le> x \<Longrightarrow> x < N \<Longrightarrow> rd (ipv4_expn_rules m) (x - T) = Some (?R x)"
      using rd_rules(2) [OF sp(3)] by blast
    have len: "length (ipv4_expn_rules m) = N - T" using sp(3) by (simp add: lens_def)
    have walk: "\<exists>r. (if rule_next (?R b) = 0 then Some (Some ?h)
         else chain_end rule_next (ipv4_expn_rules m) (table_entries t) (rule_next (?R b)) 0) = Some (Some r) \<and>
         unat r = last (C b)"
    proof (cases "xs = []")
      case True
      then show ?thesis using chained_next_zero [OF c xs(1)] xs(1) b by (simp add: unat_eq_0)
    next
      case False
      then have "rule_next (?R b) \<noteq> 0" using chained_next_zero [OF c xs(1)] by (auto simp: unat_eq_0)
      moreover have "distinct (b # xs)" using chained_distinct [OF c, of b] xs(1) by simp
      moreover have "\<And>x. x \<in> set xs \<Longrightarrow> T < x \<and> x < N" using chained_tl [OF c, of _ b] xs(1) by simp
      ultimately show ?thesis
        using chain_end_last [OF xs(2) _ _ sp(5) len rdx, of 0] xs(1) False by simp
    qed
    obtain f where f: "ipa_nati_expn_tbl_free_entry (ipv4_expn_rules m) (expn_table_entries t) = Some f"
      "f = 0 \<and> (\<forall>e. T < e \<and> e < N \<longrightarrow> rule_enabled (?R e) \<noteq> 0) \<or>
       f \<noteq> 0 \<and> T + unat f < N \<and> rule_enabled (?R (T + unat f)) = 0"
      using free_place [OF len _ sp(12,6) rdx, of "\<lambda>r. rule_enabled r = 0"] sp(10)
      unfolding ipa_nati_expn_tbl_free_entry_def by auto
    have u: "f \<noteq> 0 \<Longrightarrow> unat (f + table_entries t) = T + unat f"
      using f(2) sp(5,12) by (subst unat_plus_if') auto
    obtain r where r: "(if rule_next (?R b) = 0 then Some (Some ?h)
         else chain_end rule_next (ipv4_expn_rules m) (table_entries t) (rule_next (?R b)) 0) = Some (Some r)"
         "unat r = last (C b)"
      using walk by blast
    have "ipa_nati_generate_tbl_rule E c t clnt ip =
        Some (if f = 0 then 0 else f + table_entries t, clnt_sw_rule clnt ip\<lparr>sw_prev_index := r\<rparr>)"
      using False rdb sp(2) r(1) f(1) by (simp add: ipa_nati_generate_tbl_rule_def)
    moreover have "f \<noteq> 0 \<Longrightarrow> T < unat (f + table_entries t) \<and> unat (f + table_entries t) < N \<and>
        rule_enabled (?R (unat (f + table_entries t))) = 0"
      using f(2) u by (auto simp: unat_gt_0)
    ultimately show ?thesis
      using f(2) r(2) \<open>C b \<noteq> []\<close>
      by (intro exI [of _ "if f = 0 then 0 else f + table_entries t"] exI [of _ r]) (cases "f = 0"; simp)
  qed
qed

lemma generate_index_rule_spec:
  assumes s: "shaped T N t m" and inv: "index_inv T N L ix src (words_at T m) (prevs_at T t) D"
    and b: "b = unat (clnt_src_hash clnt (table_entries t))"
  shows "\<exists>i p. ipa_nati_generate_index_rule t clnt = Some (i, p) \<and>
     (D b = [] \<and> unat i = b \<and> p = 0 \<and> index_entry (words_at T m b) = 0 \<or>
      D b \<noteq> [] \<and> unat p = last (D b) \<and>
        (T < unat i \<and> unat i < N \<and> index_entry (words_at T m (unat i)) = 0 \<or>
         i = 0 \<and> (\<forall>x. T < x \<and> x < N \<longrightarrow> index_entry (words_at T m x) \<noteq> 0)))"
proof -
  note sp = shaped_parts [OF s]
  note c = index_inv_parts(1) [OF inv]
  let ?I = "words_at T m" and ?h = "clnt_src_hash clnt (table_entries t)"
  have b': "0 < b" "b < T" using table_hash_range(2) [OF sp(5,8)] b by auto
  have rdb: "rd (index_table m) (unat ?h) = Some (?I b)"
    using rd_rules(3) [OF sp(3) b'(2)] b by simp
  show ?thesis
  proof (cases "index_entry (?I b) = 0")
    case True
    then have "D b = []" using chained_base_used [OF c b'(2)] by simp
    then show ?thesis using True b sp(2) rdb by (auto simp: ipa_nati_generate_index_rule_def)
  next
    case False
    then have "D b \<noteq> []" using chained_base_used [OF c b'(2)] by simp
    then obtain xs where xs: "D b = b # xs" "seg (\<lambda>i. unat (index_next (?I i))) (\<lambda>i. unat (prevs_at T t i)) b xs 0"
      using chained_head [OF c, of b] by blast
    have rdx: "\<And>x. T \<le> x \<Longrightarrow> x < N \<Longrightarrow> rd (index_table_expn m) (x - T) = Some (?I x)"
      using rd_rules(4) [OF sp(3)] by blast
    have len: "length (index_table_expn m) = N - T" using sp(3) by (simp add: lens_def)
    have walk: "\<exists>r. (if index_next (?I b) = 0 then Some (Some ?h)
         else chain_end index_next (index_table_expn m) (table_entries t) (index_next (?I b)) 0) = Some (Some r) \<and>
         unat r = last (D b)"
    proof (cases "xs = []")
      case True
      then show ?thesis using chained_next_zero [OF c xs(1)] xs(1) b by (simp add: unat_eq_0)
    next
      case False
      then have "index_next (?I b) \<noteq> 0" using chained_next_zero [OF c xs(1)] by (auto simp: unat_eq_0)
      moreover have "distinct (b # xs)" using chained_distinct [OF c, of b] xs(1) by simp
      moreover have "\<And>x. x \<in> set xs \<Longrightarrow> T < x \<and> x < N" using chained_tl [OF c, of _ b] xs(1) by simp
      ultimately show ?thesis
        using chain_end_last [OF xs(2) _ _ sp(5) len rdx, of 0] xs(1) False by simp
    qed
    then obtain r where r: "(if index_next (?I b) = 0 then Some (Some ?h)
         else chain_end index_next (index_table_expn m) (table_entries t) (index_next (?I b)) 0) = Some (Some r)"
         "unat r = last (D b)"
      by blast
    obtain f where f: "ipa_nati_index_expn_get_free_entry (index_table_expn m) (expn_table_entries t) = Some f"
      "f = 0 \<and> (\<forall>e. T < e \<and> e < N \<longrightarrow> index_entry (?I e) \<noteq> 0) \<or>
       f \<noteq> 0 \<and> T + unat f < N \<and> index_entry (?I (T + unat f)) = 0"
      using free_place [OF len _ sp(12,6) rdx, of "\<lambda>w. index_entry w = 0"] sp(10)
      unfolding ipa_nati_index_expn_get_free_entry_def by auto
    have u: "f \<noteq> 0 \<Longrightarrow> unat (f + table_entries t) = T + unat f"
      using f(2) sp(5,12) by (subst unat_plus_if') auto
    have "unat r \<in> set (D b)" using r(2) \<open>D b \<noteq> []\<close> by simp
    then have "index_entry (?I (unat r)) \<noteq> 0" using chained_used [OF c] by blast
    then have "f \<noteq> 0 \<Longrightarrow> r \<noteq> f + table_entries t" using f(2) u by auto
    then have "ipa_nati_generate_index_rule t clnt = Some (if f = 0 then 0 else f + table_entries t, r)"
      using False rdb sp(2) r(1) f(1) by (simp add: ipa_nati_generate_index_rule_def Let_def)
    moreover have "f \<noteq> 0 \<Longrightarrow> T < unat (f + table_entries t) \<and> unat (f + table_entries t) < N \<and>
        index_entry (?I (unat (f + table_entries t))) = 0"
      using f(2) u by (auto simp: unat_gt_0)
    ultimately show ?thesis
      using f(2) r(2) \<open>D b \<noteq> []\<close>
      by (intro exI [of _ "if f = 0 then 0 else f + table_entries t"] exI [of _ r]) (cases "f = 0"; simp)
  qed
qed

section \<open>Writing a new rule\<close>

text \<open>The commands of an addition name the entries they should.\<close>

lemma next_cmd:
  assumes s: "shaped T N t m" and w: "unat w = x" "x < N"
    and d: "(ty, w') = (if w < table_entries t then (IPA_NAT_BASE_TBL, w) else (IPA_NAT_EXPN_TBL, w - table_entries t))"
    and f: "f < 32"
  shows "rule_cmd T x f \<lparr>table_index = k, base_addr = ty,
           dma_offset = ipa_nati_get_entry_offset t w' + of_nat f, dma_data = v\<rparr>"
proof -
  note sp = shaped_parts [OF s]
  have lt: "w < table_entries t \<longleftrightarrow> x < T" by (rule word_below [OF w(1) sp(5)])
  show ?thesis
  proof (cases "x < T")
    case True
    then show ?thesis
      using d lt entry_offset [OF w(1) _ f] w(2) sp(12,13)
      by (simp add: rule_cmd_def ipa_nati_get_entry_offset_def)
  next
    case False
    then have u: "unat (w - table_entries t) = x - T" using word_minus [OF w(1) sp(5)] by simp
    show ?thesis
      using d lt False entry_offset [OF u _ f] w(2) sp(12,13)
      by (simp add: rule_cmd_def ipa_nati_get_entry_offset_def)
  qed
qed

lemma index_cmd:
  assumes s: "shaped T N t m" and w: "unat w = x" "x < N"
    and d: "(ty, w') = (if w < table_entries t then (IPA_NAT_INDX_TBL, w) else (IPA_NAT_INDEX_EXPN_TBL, w - table_entries t))"
    and f: "f < 32"
  shows "word_cmd T x f \<lparr>table_index = k, base_addr = ty,
           dma_offset = ipa_nati_get_index_entry_offset t w' + of_nat f, dma_data = v\<rparr>"
proof -
  note sp = shaped_parts [OF s]
  have lt: "w < table_entries t \<longleftrightarrow> x < T" by (rule word_below [OF w(1) sp(5)])
  show ?thesis
  proof (cases "x < T")
    case True
    then show ?thesis
      using d lt index_offset [OF w(1) _ f] w(2) sp(12,13)
      by (simp add: word_cmd_def ipa_nati_get_index_entry_offset_def)
  next
    case False
    then have u: "unat (w - table_entries t) = x - T" using word_minus [OF w(1) sp(5)] by simp
    show ?thesis
      using d lt False index_offset [OF u _ f] w(2) sp(12,13)
      by (simp add: word_cmd_def ipa_nati_get_index_entry_offset_def)
  qed
qed

lemma nat_dma_one:
  assumes k: "dma_contract E" and c: "ip4_tbl c = [t]" and s: "shaped T N t m"
    and d: "rule_cmd T x f d" "x < N" "f \<in> {8, 18, 22}"
  shows "nat_dma E 0 [d] c =
     Some (set_tbl 0 (set_mem (store_rule T x (dma_rule_field f (dma_data d) (rules_at T m x)) m) t) c)"
proof -
  note sp = shaped_parts [OF s]
  have "dma_write E [d] m = dma_at d m"
    using k rule_cmd_dma(1) [OF sp(3) d] by (simp add: dma_contract_def)
  then show ?thesis using c sp(2) rule_cmd_dma(2) [OF sp(3) d] by (simp add: nat_dma_def rd_def)
qed

lemma nat_dma_one_word:
  assumes k: "dma_contract E" and c: "ip4_tbl c = [t]" and s: "shaped T N t m"
    and d: "word_cmd T x f d" "x < N" "f \<in> {0, 2}"
  shows "nat_dma E 0 [d] c =
     Some (set_tbl 0 (set_mem (store_word T x (dma_word_field f (dma_data d) (words_at T m x)) m) t) c)"
proof -
  note sp = shaped_parts [OF s]
  have "dma_write E [d] m = dma_at d m"
    using k word_cmd_dma(1) [OF sp(3) d] by (simp add: dma_contract_def)
  then show ?thesis using c sp(2) word_cmd_dma(2) [OF sp(3) d] by (simp add: nat_dma_def rd_def)
qed

lemma write_next_willing:
  assumes "willing c" "ip4_tbl c = [t]"
  shows "ipa_nati_write_next_index E 0 ty v off c =
     nat_dma E 0 [\<lparr>table_index = 0, base_addr = ty, dma_offset = off, dma_data = v\<rparr>] (later (later c))"
  using assms by (simp add: ipa_nati_write_next_index_def ask_willing)

text \<open>\<open>c'\<close> is \<open>c\<close> with another table record and some answers taken.\<close>

definition moved :: "nat_cache \<Rightarrow> ip4_table \<Rightarrow> nat_cache \<Rightarrow> bool" where
  "moved c t c' \<longleftrightarrow> (\<exists>as. c' = c\<lparr>ip4_tbl := [t], answers := as\<rparr> \<and> set as \<subseteq> {True})"

lemma movedD:
  assumes "moved c t c'"
  shows "ip4_tbl c' = [t]" "willing c'" "pdns c' = pdns c" "ver c' = ver c" "table_cnt c' = table_cnt c"
  using assms by (auto simp: moved_def willing_def)

lemma moved_trans: "moved c t c' \<Longrightarrow> moved c' t' c'' \<Longrightarrow> moved c t' c''"
  by (auto simp: moved_def)

lemma moved_refl: "willing c \<Longrightarrow> ip4_tbl c = [t] \<Longrightarrow> moved c t c"
  unfolding moved_def willing_def by (rule exI [of _ "answers c"]) simp

lemma moved_later: "moved c t c' \<Longrightarrow> moved c t (later c')"
  unfolding moved_def later_def
proof (elim exE conjE)
  fix as assume "c' = c\<lparr>ip4_tbl := [t], answers := as\<rparr>" "set as \<subseteq> {True}"
  then show "\<exists>bs. c'\<lparr>answers := tl (answers c')\<rparr> = c\<lparr>ip4_tbl := [t], answers := bs\<rparr> \<and> set bs \<subseteq> {True}"
    by (intro exI [of _ "tl as"]) (cases as; simp)
qed

lemma moved_set_tbl: "moved c t c' \<Longrightarrow> moved c t' (set_tbl 0 t' c')"
  unfolding moved_def set_tbl_def
proof (elim exE conjE)
  fix as assume "c' = c\<lparr>ip4_tbl := [t], answers := as\<rparr>" "set as \<subseteq> {True}"
  then show "\<exists>bs. c'\<lparr>ip4_tbl := (ip4_tbl c')[0 := t']\<rparr> = c\<lparr>ip4_tbl := [t'], answers := bs\<rparr> \<and> set bs \<subseteq> {True}"
    by (intro exI [of _ as]) simp
qed

lemma rd_single [simp]: "rd [t] 0 = Some t"
  by (simp add: rd_def)

lemma copy_rule_spec:
  assumes k: "dma_contract E" and c: "ip4_tbl c = [t]" "willing c" and s: "shaped T N t m"
    and e: "unat e = x" "x < N" and p: "p = sw_prev_index rule" "unat p = l" "l < N" "l \<noteq> x"
  shows "\<exists>c' m'. ipa_nati_copy_ipv4_rule_to_hw E 0 rule e c = Some c' \<and> moved c (set_mem m' t) c' \<and>
     shaped T N (set_mem m' t) m' \<and> words_at T m' = words_at T m \<and>
     rules_at T m' = (if p = 0 then (rules_at T m)(x := hw_rule rule)
       else (rules_at T m)(x := hw_rule rule, l := set_next e (rules_at T m l)))"
proof -
  note sp = shaped_parts [OF s]
  let ?m = "store_rule T x (hw_rule rule) m"
  let ?t = "set_mem ?m t"
  let ?c = "set_tbl 0 ?t c"
  have store: "(if e < table_entries t
           then map_option (\<lambda>rs. m\<lparr>ipv4_rules := rs\<rparr>) (wr (ipv4_rules m) (unat e) (hw_rule rule))
           else map_option (\<lambda>rs. m\<lparr>ipv4_expn_rules := rs\<rparr>)
                  (wr (ipv4_expn_rules m) (unat (e - table_entries t)) (hw_rule rule))) = Some ?m"
    using wr_rules(1,2) [OF sp(3)] word_below [OF e(1) sp(5)] word_minus [OF e(1) sp(5)] e by auto
  have s1: "shaped T N ?t ?m" using shaped_set_mem [OF s] sp(3) by simp
  note v1 = views_store_rule [OF sp(3) e(2), of "hw_rule rule"]
  have c1: "ip4_tbl ?c = [?t]" "willing ?c" using c by simp_all
  show ?thesis
  proof (cases "p = 0")
    case True
    then have "ipa_nati_copy_ipv4_rule_to_hw E 0 rule e c = Some ?c"
      using c(1) sp(2) store p(1) by (simp add: ipa_nati_copy_ipv4_rule_to_hw_def rd_one)
    then show ?thesis using True s1 v1 moved_set_tbl [OF moved_refl [OF c(2,1)]] by auto
  next
    case False
    obtain ty w where tw: "(ty, w) = (if p < table_entries t then (IPA_NAT_BASE_TBL, p)
        else (IPA_NAT_EXPN_TBL, p - table_entries t))" by (metis surj_pair)
    let ?d = "\<lparr>table_index = 0, base_addr = ty, dma_offset = ipa_nati_get_entry_offset t w + of_nat 8, dma_data = e\<rparr>"
    have cmd: "rule_cmd T l 8 ?d"
      using next_cmd [OF s p(2,3) tw, of 8 0 e] by simp
    let ?m2 = "store_rule T l (set_next e (rules_at T ?m l)) ?m"
    have "nat_dma E 0 [?d] (later (later ?c)) = Some (set_tbl 0 (set_mem ?m2 ?t) (later (later ?c)))"
      using nat_dma_one [OF k _ s1 cmd p(3)] c1 by (simp add: dma_rule_field_def)
    then have "ipa_nati_copy_ipv4_rule_to_hw E 0 rule e c = Some (set_tbl 0 (set_mem ?m2 ?t) (later (later ?c)))"
      using c(1) sp(2) store p(1) False tw write_next_willing [OF c1(2,1)]
      by (auto simp: ipa_nati_copy_ipv4_rule_to_hw_def rd_one split: if_splits)
    moreover have "moved c (set_mem ?m2 ?t) (set_tbl 0 (set_mem ?m2 ?t) (later (later ?c)))"
      by (intro moved_set_tbl [where t = ?t] moved_later moved_set_tbl [where t = t] moved_refl c)
    moreover have "shaped T N (set_mem ?m2 t) ?m2" using shaped_set_mem [OF s] sp(3) by simp
    moreover have "rules_at T ?m2 = (rules_at T m)(x := hw_rule rule, l := set_next e (rules_at T m l))"
      and "words_at T ?m2 = words_at T m"
      using views_store_rule [OF _ p(3), of T ?m] v1 sp(3) p(4) by simp_all
    ultimately show ?thesis using False by auto
  qed
qed

lemma offset_16:
  assumes "unat off + 2 < 65536"
  shows "ucast (ucast off + ucast (2 :: 32 word) :: 16 word) = off + (2 :: 32 word)"
proof -
  have "unat (ucast off :: 16 word) = unat off"
    using assms by (simp add: unsigned_ucast_eq take_bit_nat_eq_self)
  then have "unat (ucast off + ucast (2 :: 32 word) :: 16 word) = unat off + 2"
    using assms by (simp add: unat_plus_if')
  then have "unat (ucast (ucast off + ucast (2 :: 32 word) :: 16 word) :: 32 word) = unat off + 2"
    using assms by (simp add: unsigned_ucast_eq take_bit_nat_eq_self)
  then show ?thesis using assms by (simp add: word_unat_eq_iff unat_plus_if')
qed

lemma copy_index_spec:
  assumes k: "dma_contract E" and c: "ip4_tbl c = [t]" "willing c" and s: "shaped T N t m"
    and e: "unat e = x" "x < N" and p: "unat p = l" "l < N" "l \<noteq> x"
  shows "\<exists>c' m'. ipa_nati_copy_ipv4_index_rule_to_hw E 0 v p e c = Some c' \<and> moved c (set_mem m' t) c' \<and>
     shaped T N (set_mem m' t) m' \<and> rules_at T m' = rules_at T m \<and>
     words_at T m' = (if p = 0 then (words_at T m)(x := halves v 0)
       else (words_at T m)(x := halves v 0, l := set_high (words_at T m l) e))"
proof -
  note sp = shaped_parts [OF s]
  let ?m = "store_word T x (halves v 0) m"
  let ?t = "set_mem ?m t"
  let ?c = "set_tbl 0 ?t c"
  have store: "(if e < table_entries t
           then map_option (\<lambda>ws. m\<lparr>index_table := ws\<rparr>) (wr (index_table m) (unat e) (halves v 0))
           else map_option (\<lambda>ws. m\<lparr>index_table_expn := ws\<rparr>)
                  (wr (index_table_expn m) (unat (e - table_entries t)) (halves v 0))) = Some ?m"
    using wr_rules(3,4) [OF sp(3)] word_below [OF e(1) sp(5)] word_minus [OF e(1) sp(5)] e by auto
  have s1: "shaped T N ?t ?m" using shaped_set_mem [OF s] sp(3) by simp
  note v1 = views_store_word [OF sp(3) e(2), of "halves v 0"]
  have c1: "ip4_tbl ?c = [?t]" "willing ?c" using c by simp_all
  show ?thesis
  proof (cases "p = 0")
    case True
    then have "ipa_nati_copy_ipv4_index_rule_to_hw E 0 v p e c = Some ?c"
      using c(1) sp(2) store by (simp add: ipa_nati_copy_ipv4_index_rule_to_hw_def)
    then show ?thesis using True s1 v1 moved_set_tbl [OF moved_refl [OF c(2,1)]] by auto
  next
    case False
    obtain ty w where tw: "(ty, w) = (if p < table_entries t then (IPA_NAT_INDX_TBL, p)
        else (IPA_NAT_INDEX_EXPN_TBL, p - table_entries t))" by (metis surj_pair)
    have "unat w < 16384"
      using tw word_below [OF p(1) sp(5)] word_minus [OF p(1) sp(5)] p(1,2) sp(9,11) by (auto split: if_splits)
    then have "unat (ipa_nati_get_index_entry_offset t w) + 2 < 65536"
      using index_offset [of w "unat w" 0] sp(13) by (simp add: ipa_nati_get_index_entry_offset_def)
    note off = offset_16 [OF this]
    let ?d = "\<lparr>table_index = 0, base_addr = ty, dma_offset = ipa_nati_get_index_entry_offset t w + of_nat 2, dma_data = e\<rparr>"
    have cmd: "word_cmd T l 2 ?d"
      using index_cmd [OF s p(1,2) tw, of 2 0 e] by simp
    let ?m2 = "store_word T l (set_high (words_at T ?m l) e) ?m"
    have "nat_dma E 0 [?d] (later (later ?c)) = Some (set_tbl 0 (set_mem ?m2 ?t) (later (later ?c)))"
      using nat_dma_one_word [OF k _ s1 cmd p(2)] c1 by (simp add: dma_word_field_def)
    then have "ipa_nati_copy_ipv4_index_rule_to_hw E 0 v p e c = Some (set_tbl 0 (set_mem ?m2 ?t) (later (later ?c)))"
      using c(1) sp(2) store False tw write_next_willing [OF c1(2,1)] off
      by (auto simp: ipa_nati_copy_ipv4_index_rule_to_hw_def Let_def split: if_splits)
    moreover have "moved c (set_mem ?m2 ?t) (set_tbl 0 (set_mem ?m2 ?t) (later (later ?c)))"
      by (intro moved_set_tbl [where t = ?t] moved_later moved_set_tbl [where t = t] moved_refl c)
    moreover have "shaped T N (set_mem ?m2 t) ?m2" using shaped_set_mem [OF s] sp(3) by simp
    moreover have "words_at T ?m2 = (words_at T m)(x := halves v 0, l := set_high (words_at T m l) e)"
      and "rules_at T ?m2 = rules_at T m"
      using views_store_word [OF _ p(2), of T ?m] v1 sp(3) p(3) by simp_all
    ultimately show ?thesis using False by auto
  qed
qed

lemma post_dma_spec:
  assumes k: "dma_contract E" and c: "ip4_tbl c = [t]" "willing c" and s: "shaped T N t m"
    and e: "unat e = x" "x < N"
  shows "\<exists>c' m'. ipa_nati_post_ipv4_dma_cmd E 0 e c = Some (RET_0, c') \<and> moved c (set_mem m' t) c' \<and>
     shaped T N (set_mem m' t) m' \<and> words_at T m' = words_at T m \<and>
     rules_at T m' = (rules_at T m)(x := set_flags 0x8000 (rules_at T m x))"
proof -
  note sp = shaped_parts [OF s]
  obtain ty w where tw: "(ty, w) = (if e < table_entries t then (IPA_NAT_BASE_TBL, e)
      else (IPA_NAT_EXPN_TBL, e - table_entries t))" by (metis surj_pair)
  let ?d = "\<lparr>table_index = 0, base_addr = ty, dma_offset = ipa_nati_get_entry_offset t w + of_nat 18, dma_data = 0x8000\<rparr>"
  have cmd: "rule_cmd T x 18 ?d"
    using next_cmd [OF s e tw, of 18 0 "0x8000"] by simp
  let ?m = "store_rule T x (set_flags 0x8000 (rules_at T m x)) m"
  have dma: "nat_dma E 0 [?d] (later (later c)) = Some (set_tbl 0 (set_mem ?m t) (later (later c)))"
    using nat_dma_one [OF k _ s cmd e(2)] c by (simp add: dma_rule_field_def)
  have "ipa_nati_post_ipv4_dma_cmd E 0 e c = Some (RET_0, set_tbl 0 (set_mem ?m t) (later (later c)))"
    using c dma tw sp(13) ask_willing [of c] ask_willing [of "later c"]
    by (auto simp: ipa_nati_post_ipv4_dma_cmd_def ipa_nati_get_entry_offset_def add.commute split: if_splits)
  moreover have "moved c (set_mem ?m t) (set_tbl 0 (set_mem ?m t) (later (later c)))"
    by (intro moved_set_tbl [where t = t] moved_later moved_refl c)
  moreover have "shaped T N (set_mem ?m t) ?m" using shaped_set_mem [OF s] sp(3) by simp
  ultimately show ?thesis using views_store_rule [OF sp(3) e(2)] by blast
qed

lemma make_handle_spec:
  assumes c: "ip4_tbl c = [t]" "willing c" and s: "shaped T N t m"
    and h: "handles_inv T N L (ids_at t)" "L \<subseteq> {0<..<N} - {T}" "x \<in> {0<..<N} - {T} - L"
  shows "\<exists>k c' t'. ipa_nati_make_rule_hdl 0 e c = Some (of_nat (Suc k), c') \<and> moved c t' c' \<and>
     shaped T N t' m \<and> prevs_at T t' = prevs_at T t \<and> ids_at t k = 0 \<and> Suc k < N \<and>
     ids_at t' = (ids_at t)(k := rule_id (table_entries t) e)"
proof -
  note sp = shaped_parts [OF s]
  obtain ids where ids: "rule_id_array t = Some ids" "length ids = N" using sp(1) by (auto simp: sized_def)
  have H: "ids_at t j = ids ! j" if "j < N" for j using that ids by (simp add: ids_at_def at_def)
  have r: "unat (table_entries t) + unat (expn_table_entries t) = N" using sp(5,7) by simp
  obtain q where q: "scan (\<lambda>x. x = 0) ids [0..<N] = Some q"
    using scan_total [of "[0..<N]" ids "\<lambda>x. x = 0"] ids(2) by auto
  have room: "Suc k < N" if "\<And>j. j < k \<Longrightarrow> ids_at t j \<noteq> 0" for k
    using handles_room [OF h _ _ that] sp(8,10) by simp
  have "q \<noteq> None"
  proof
    assume "q = None"
    then have "ids_at t j \<noteq> 0" if "j < N" for j
      using scan_none [OF q [unfolded \<open>q = None\<close>], of j] H [OF that] that by simp
    then show False using room [of N] by simp
  qed
  then obtain k where k: "q = Some k" by blast
  have k0: "k < N" "ids_at t k = 0" using scan_first [OF q [unfolded k]] H by auto
  have "\<And>j. j < k \<Longrightarrow> ids_at t j \<noteq> 0"
    using scan_upt_first [OF q [unfolded k]] H k0(1) by auto
  then have kN: "Suc k < N" by (rule room)
  let ?t = "(if e \<ge> table_entries t then t\<lparr>cur_expn_tbl_cnt := cur_expn_tbl_cnt t + 1\<rparr>
              else t\<lparr>cur_tbl_cnt := cur_tbl_cnt t + 1\<rparr>)"
  let ?t' = "?t\<lparr>rule_id_array := Some (ids[k := rule_id (table_entries t) e])\<rparr>"
  have same: "table_entries ?t = table_entries t" "expn_table_entries ?t = expn_table_entries t"
    "rule_id_array ?t = Some ids"
    using ids by simp_all
  have "ipa_nati_make_rule_hdl 0 e c = Some (of_nat (Suc k), set_tbl 0 ?t' c)"
    using c(1) q k k0(1) ids(2) r unfolding ipa_nati_make_rule_hdl_def Let_def
    by (simp only: rd_single Option.bind.simps same) (simp add: wr_def add.commute)
  moreover have "moved c ?t' (set_tbl 0 ?t' c)"
    by (intro moved_set_tbl [where t = t] moved_refl c)
  moreover have "shaped T N ?t' m" using s ids(2) by (auto simp: shaped_def sized_def)
  moreover have "prevs_at T ?t' = prevs_at T t" by (simp add: prevs_at_def fun_eq_iff)
  moreover have "ids_at ?t' = (ids_at t)(k := rule_id (table_entries t) e)"
    using ids k0(1) by (simp add: ids_at_def fun_eq_iff at_update)
  ultimately show ?thesis using k0(2) kN by blast
qed

end
