(* ===== verification/NatAdd.thy ===== *)
theory NatAdd
  imports NatRefine
begin

text \<open>
  The invariant of the NAT driver between its operations, the rules that it holds by their handles, and the proof that
  an addition is an insertion into that map.
\<close>

section \<open>The invariant of the driver\<close>

definition dst_head :: "nat_env \<Rightarrow> nat_cache \<Rightarrow> 16 word \<Rightarrow> ipa_nat_ipv4_rule \<Rightarrow> nat" where
  "dst_head E c T16 clnt = unat (clnt_dst_hash E c clnt (public_ip (pdns c ! unat (cl_pdn_index clnt))) T16)"

definition src_head :: "16 word \<Rightarrow> ipa_nat_ipv4_rule \<Rightarrow> nat" where
  "src_head T16 clnt = unat (clnt_src_hash clnt T16)"

text \<open>The part of the invariant below the cache: of the table \<open>t\<close> with memory \<open>m\<close>.\<close>

definition tables_ok ::
    "nat \<Rightarrow> nat \<Rightarrow> (ipa_nat_ipv4_rule \<Rightarrow> nat) \<Rightarrow> ip4_table \<Rightarrow> nat_mem \<Rightarrow> (nat \<Rightarrow> nat list) \<Rightarrow> (nat \<Rightarrow> nat list) \<Rightarrow> bool" where
  "tables_ok T N dst t m C D \<longleftrightarrow>
     shaped T N t m \<and>
     rules_inv T N dst (rules_at T m) C \<and>
     index_inv T N (live (rules_at T m)) (\<lambda>e. unat (rule_index (rules_at T m e)))
       (\<lambda>e. src_head (table_entries t) (rule_client (rules_at T m e))) (words_at T m) (prevs_at T t) D \<and>
     handles_inv T N (live (rules_at T m)) (ids_at t)"

definition nat_ok :: "nat_env \<Rightarrow> nat_cache \<Rightarrow> bool" where
  "nat_ok E c \<longleftrightarrow> (\<exists>t m T N C D. ip4_tbl c = [t] \<and> length (pdns c) \<le> 16 \<and>
     tables_ok T N (dst_head E c (table_entries t)) t m C D)"

lemma nat_okI:
  "ip4_tbl c = [t] \<Longrightarrow> length (pdns c) \<le> 16 \<Longrightarrow> tables_ok T N (dst_head E c (table_entries t)) t m C D \<Longrightarrow>
   nat_ok E c"
  unfolding nat_ok_def by blast

text \<open>The rules that clients have added and not deleted, by their handles.\<close>

definition nat_rules :: "nat_cache \<Rightarrow> nat \<Rightarrow> ipa_nat_ipv4_rule option" where
  "nat_rules c h = (case ip4_tbl c of
     t # _ \<Rightarrow> (case region t of
       MAPPED m \<Rightarrow>
         let T = unat (table_entries t) in
         if h \<noteq> 0 \<and> ids_at t (h - 1) \<noteq> 0 then Some (rule_client (rules_at T m (entry_of T (ids_at t (h - 1)))))
         else None
     | _ \<Rightarrow> None)
   | [] \<Rightarrow> None)"

text \<open>No free entry is left in the expansion of the rule tables or in that of the index tables.\<close>

definition expansion_full :: "nat_cache \<Rightarrow> bool" where
  "expansion_full c \<longleftrightarrow> (\<exists>t m T N. ip4_tbl c = [t] \<and> shaped T N t m \<and>
     ((\<forall>x. T < x \<and> x < N \<longrightarrow> rule_enabled (rules_at T m x) \<noteq> 0) \<or>
      (\<forall>x. T < x \<and> x < N \<longrightarrow> index_entry (words_at T m x) \<noteq> 0)))"

lemma dst_head_moved: "moved c t c' \<Longrightarrow> dst_head E c' T16 = dst_head E c T16"
  by (auto simp: moved_def dst_head_def clnt_dst_hash_def fun_eq_iff)

lemma tables_okD:
  assumes "tables_ok T N dst t m C D"
  shows "shaped T N t m" "rules_inv T N dst (rules_at T m) C"
    "index_inv T N (live (rules_at T m)) (\<lambda>e. unat (rule_index (rules_at T m e)))
       (\<lambda>e. src_head (table_entries t) (rule_client (rules_at T m e))) (words_at T m) (prevs_at T t) D"
    "handles_inv T N (live (rules_at T m)) (ids_at t)"
  using assms by (simp_all add: tables_ok_def)

lemma nat_rules_eq:
  assumes "ip4_tbl c = [t]" "shaped T N t m"
  shows "nat_rules c h = (if h \<noteq> 0 \<and> ids_at t (h - 1) \<noteq> 0
    then Some (rule_client (rules_at T m (entry_of T (ids_at t (h - 1))))) else None)"
  using assms shaped_parts(2,5) [OF assms(2)] by (simp add: nat_rules_def)

lemma live_entries:
  assumes "tables_ok T N dst t m C D"
  shows "live (rules_at T m) \<subseteq> {0<..<N} - {T}"
proof
  fix e assume e: "e \<in> live (rules_at T m)"
  show "e \<in> {0<..<N} - {T}"
    using live_range [OF rules_inv_weak [OF tables_okD(2) [OF assms]] e]
      shaped_parts(10) [OF tables_okD(1) [OF assms]]
    by auto
qed

section \<open>Adding a rule\<close>

lemma generate_rule_spec:
  assumes c: "ip4_tbl c = [t]" "willing c" and ok: "tables_ok T N dst t m C D"
    and b: "b = unat (clnt_dst_hash E c clnt ip (table_entries t))" and g: "g = src_head (table_entries t) clnt"
  shows "(\<exists>sw e p i q c' t'.
      ipa_nati_generate_rule E 0 clnt ip c = Some (Some (sw, e, i, q), c') \<and>
      sw = clnt_sw_rule clnt ip\<lparr>sw_prev_index := p, sw_indx_tbl_entry := i\<rparr> \<and>
      (C b = [] \<and> unat e = b \<and> p = 0 \<or>
       C b \<noteq> [] \<and> unat p = last (C b) \<and> T < unat e) \<and> unat e < N \<and> rule_enabled (rules_at T m (unat e)) = 0 \<and>
      (D g = [] \<and> unat i = g \<and> q = 0 \<or> D g \<noteq> [] \<and> unat q = last (D g) \<and> T < unat i) \<and> unat i < N \<and>
      index_entry (words_at T m (unat i)) = 0 \<and>
      moved c t' c' \<and> shaped T N t' m \<and> ids_at t' = ids_at t \<and> table_entries t' = table_entries t \<and>
      prevs_at T t' = (if T \<le> unat i then (prevs_at T t)(unat i := q) else prevs_at T t)) \<or>
    ipa_nati_generate_rule E 0 clnt ip c = Some (None, c) \<and> expansion_full c"
proof -
  note s = tables_okD(1) [OF ok]
  note sp = shaped_parts [OF s]
  obtain e p where r: "ipa_nati_generate_tbl_rule E c t clnt ip = Some (e, clnt_sw_rule clnt ip\<lparr>sw_prev_index := p\<rparr>)"
    and r': "C b = [] \<and> unat e = b \<and> p = 0 \<and> rule_enabled (rules_at T m b) = 0 \<or>
      C b \<noteq> [] \<and> unat p = last (C b) \<and>
        (T < unat e \<and> unat e < N \<and> rule_enabled (rules_at T m (unat e)) = 0 \<or>
         e = 0 \<and> (\<forall>x. T < x \<and> x < N \<longrightarrow> rule_enabled (rules_at T m x) \<noteq> 0))"
    using generate_tbl_rule_spec [OF s tables_okD(2) [OF ok] b] by blast
  obtain i q where x: "ipa_nati_generate_index_rule t clnt = Some (i, q)"
    and x': "D g = [] \<and> unat i = g \<and> q = 0 \<and> index_entry (words_at T m g) = 0 \<or>
      D g \<noteq> [] \<and> unat q = last (D g) \<and>
        (T < unat i \<and> unat i < N \<and> index_entry (words_at T m (unat i)) = 0 \<or>
         i = 0 \<and> (\<forall>x. T < x \<and> x < N \<longrightarrow> index_entry (words_at T m x) \<noteq> 0))"
    using generate_index_rule_spec [OF s tables_okD(3) [OF ok] g [unfolded src_head_def]] by blast
  have b': "0 < b" "b < T" "0 < g" "g < T"
    using table_hash_range [OF sp(5,8)] b g by (auto simp: src_head_def)
  show ?thesis
  proof (cases "e = 0 \<or> i = 0")
    case True
    then have "expansion_full c"
      using r' x' b' c(1) s by (auto simp: expansion_full_def)
    moreover have "ipa_nati_generate_rule E 0 clnt ip c = Some (None, c)"
      using True c(1) r x by (cases "e = 0") (simp_all add: ipa_nati_generate_rule_def)
    ultimately show ?thesis by blast
  next
    case False
    then have e: "unat e < N" "rule_enabled (rules_at T m (unat e)) = 0"
      "C b = [] \<and> unat e = b \<and> p = 0 \<or> C b \<noteq> [] \<and> unat p = last (C b) \<and> T < unat e"
      using r' b' sp(10) by auto
    have i: "unat i < N" "index_entry (words_at T m (unat i)) = 0"
      "D g = [] \<and> unat i = g \<and> q = 0 \<or> D g \<noteq> [] \<and> unat q = last (D g) \<and> T < unat i"
      using False x' b' sp(10) by auto
    obtain meta where meta: "index_expn_table_meta t = Some meta" "length meta = N - T"
      using sp(1) by (auto simp: sized_def)
    let ?sw = "clnt_sw_rule clnt ip\<lparr>sw_prev_index := p, sw_indx_tbl_entry := i\<rparr>"
    have from_T: "i \<ge> table_entries t \<longleftrightarrow> T \<le> unat i" by (rule word_from [OF refl sp(5)])
    show ?thesis
    proof (cases "T \<le> unat i")
      case True
      let ?t = "t\<lparr>index_expn_table_meta := Some (meta[unat i - T := q])\<rparr>"
      have j: "unat (i - table_entries t) = unat i - T" by (rule word_minus [OF refl sp(5) True])
      have "unat i - T < length meta" using meta(2) i(1) True by simp
      then have "ipa_nati_generate_rule E 0 clnt ip c = Some (Some (?sw, e, i, q), set_tbl 0 ?t c)"
        using False c(1) r x from_T True j meta by (simp add: ipa_nati_generate_rule_def wr_def)
      moreover have "moved c ?t (set_tbl 0 ?t c)" by (intro moved_set_tbl [where t = t] moved_refl c)
      moreover have "shaped T N ?t m" using s meta by (auto simp: shaped_def sized_def)
      moreover have "ids_at ?t = ids_at t" by (simp add: ids_at_def fun_eq_iff)
      moreover have "prevs_at T ?t = (if T \<le> unat i then (prevs_at T t)(unat i := q) else prevs_at T t)"
        using meta i(1) True by (auto simp: prevs_at_def fun_eq_iff at_update)
      moreover have "table_entries ?t = table_entries t" by simp
      ultimately show ?thesis using e i by blast
    next
      case low: False
      then have "ipa_nati_generate_rule E 0 clnt ip c = Some (Some (?sw, e, i, q), c)"
        using False c(1) r x from_T by (simp add: ipa_nati_generate_rule_def)
      moreover have "prevs_at T t = (if T \<le> unat i then (prevs_at T t)(unat i := q) else prevs_at T t)"
        using low by simp
      ultimately show ?thesis using e i moved_refl [OF c(2,1)] s by blast
    qed
  qed
qed

text \<open>The rule tables and the index tables after both copies and the flag.\<close>

lemma rules_installed:
  assumes inv: "rules_inv T N dst R C" and b: "b = dst (rule_client r)" "0 < b" "b < T" and e: "unat e = x" "x < N" "rule_enabled (R x) = 0"
    and place: "C b = [] \<and> x = b \<and> p = 0 \<or> C b \<noteq> [] \<and> unat p = last (C b) \<and> T < x"
    and r: "rule_enabled r \<noteq> 0" "rule_next r = 0" "rule_proto r \<noteq> 0xFF" "rule_prev r = p"
    and R': "R' = (if p = 0 then R(x := r) else R(x := r, unat p := set_next e (R (unat p))))"
  shows "\<exists>C'. rules_inv T N dst R' C'" and "live R' = insert x (live R)"
    and "\<And>y. y \<noteq> x \<Longrightarrow> rule_client (R' y) = rule_client (R y) \<and> rule_index (R' y) = rule_index (R y)"
    and "R' x = r"
proof -
  have "(\<exists>C'. rules_inv T N dst R' C') \<and> live R' = insert x (live R) \<and>
    (\<forall>y. y \<noteq> x \<longrightarrow> rule_client (R' y) = rule_client (R y) \<and> rule_index (R' y) = rule_index (R y)) \<and> R' x = r"
  proof (cases "C b = []")
    case True
    then have x: "x = b" and p: "p = 0" using place by auto
    have R'': "R' = R(b := r)" using R' p x by simp
    show ?thesis
      using rules_add_head [OF inv b, of] e(3) r x unfolding R'' by auto
  next
    case False
    then have p: "unat p = last (C b)" "T < x" using place by auto
    have "last (C b) \<in> set (C b)" using False by simp
    then have "0 < last (C b)" using chained_member [OF rules_inv_parts(1) [OF inv]] by fastforce
    then have "p \<noteq> 0" using p(1) by auto
    then have R'': "R' = R(x := r, last (C b) := set_next e (R (last (C b))))" using R' p(1) by simp
    have rp: "unat (rule_prev r) = last (C b)" using r(4) p(1) by simp
    note app = rules_append [OF inv b(1) False p(2) e(2,3,1) r(1-3) rp R'']
    show ?thesis using app by blast
  qed
  then show "\<exists>C'. rules_inv T N dst R' C'" and "live R' = insert x (live R)"
    and "\<And>y. y \<noteq> x \<Longrightarrow> rule_client (R' y) = rule_client (R y) \<and> rule_index (R' y) = rule_index (R y)"
    and "R' x = r" by blast+
qed

lemma index_installed:
  assumes inv: "index_inv T N L ix src I P D" and e: "x \<notin> L" "unat e = x" "e \<noteq> 0"
    and g: "g = src x" "0 < g" "g < T" and i: "unat i = y" "y < N" "index_entry (I y) = 0" "ix x = y"
    and place: "D g = [] \<and> y = g \<and> q = 0 \<or> D g \<noteq> [] \<and> unat q = last (D g) \<and> T < y"
    and I': "I' = (if q = 0 then I(y := halves e 0) else I(y := halves e 0, unat q := set_high (I (unat q)) i))"
    and P': "P' = (if T \<le> y then P(y := q) else P)"
  shows "\<exists>D'. index_inv T N (insert x L) ix src I' P' D'"
proof (cases "D g = []")
  case True
  then have y: "y = g" "q = 0" using place by auto
  have "I' = I(g := halves e 0)" "P' = P" using I' P' y g(3) by auto
  then show ?thesis using index_add_head [OF inv e g, of] i y by auto
next
  case False
  then have q: "unat q = last (D g)" "T < y" using place by auto
  have "last (D g) \<in> set (D g)" using False by simp
  then have "0 < last (D g)" using chained_member [OF index_inv_parts(1) [OF inv]] by fastforce
  then have "q \<noteq> 0" using q(1) by auto
  then have I'': "I' = I(y := halves e 0, last (D g) := set_high (I (last (D g))) i)" using I' q(1) by simp
  have "unat (P' y) = last (D g)" "\<And>z. z \<noteq> y \<Longrightarrow> P' z = P z" using P' q by simp_all
  then show ?thesis
    using index_append [OF inv e g(1) False q(2) i(2,3,1,4) I''] by blast
qed

lemma chain_last_range:
  assumes "chained T N used nx pv C" "C b \<noteq> []" "T < N"
  shows "used (last (C b))" "last (C b) < N" "0 < last (C b)"
proof -
  have m: "last (C b) \<in> set (C b)" using assms(2) by simp
  then show "used (last (C b))" using chained_used [OF assms(1)] by blast
  show "last (C b) < N" "0 < last (C b)" using chained_member [OF assms(1) m] assms(3) by auto
qed

lemma add_rule_installed:
  assumes k: "dma_contract E" and c: "ip4_tbl c = [t]" "willing c" and ok: "tables_ok T N dst t m C D"
    and clnt: "cl_protocol clnt \<noteq> 0xFF" "unat (cl_pdn_index clnt) < 16"
    and b: "b = unat (clnt_dst_hash E c clnt ip (table_entries t))" "b = dst clnt"
    and gen: "ipa_nati_generate_rule E 0 clnt ip c = Some (Some (sw, e, i, q), c1)"
      "sw = clnt_sw_rule clnt ip\<lparr>sw_prev_index := p, sw_indx_tbl_entry := i\<rparr>"
      "C b = [] \<and> unat e = b \<and> p = 0 \<or> C b \<noteq> [] \<and> unat p = last (C b) \<and> T < unat e"
      "unat e < N" "rule_enabled (rules_at T m (unat e)) = 0"
      "D g = [] \<and> unat i = g \<and> q = 0 \<or> D g \<noteq> [] \<and> unat q = last (D g) \<and> T < unat i"
      "unat i < N" "index_entry (words_at T m (unat i)) = 0" "g = src_head (table_entries t) clnt"
    and t1: "moved c t1 c1" "shaped T N t1 m" "ids_at t1 = ids_at t" "table_entries t1 = table_entries t"
      "prevs_at T t1 = (if T \<le> unat i then (prevs_at T t)(unat i := q) else prevs_at T t)"
  shows "\<exists>c2 c3 c4 m4 C' D'.
     ipa_nati_copy_ipv4_rule_to_hw E 0 sw e c1 = Some c2 \<and>
     ipa_nati_copy_ipv4_index_rule_to_hw E 0 e q i c2 = Some c3 \<and>
     ipa_nati_post_ipv4_dma_cmd E 0 e c3 = Some (RET_0, c4) \<and>
     moved c (set_mem m4 t1) c4 \<and> shaped T N (set_mem m4 t1) m4 \<and>
     live (rules_at T m4) = insert (unat e) (live (rules_at T m)) \<and> unat e \<notin> live (rules_at T m) \<and> 0 < unat e \<and>
     rules_inv T N dst (rules_at T m4) C' \<and>
     index_inv T N (live (rules_at T m4)) (\<lambda>e. unat (rule_index (rules_at T m4 e)))
       (\<lambda>e. src_head (table_entries t1) (rule_client (rules_at T m4 e))) (words_at T m4) (prevs_at T t1) D' \<and>
     rule_client (rules_at T m4 (unat e)) = clnt \<and>
     (\<forall>y. y \<noteq> unat e \<longrightarrow> rule_client (rules_at T m4 y) = rule_client (rules_at T m y))"
proof -
  note s = tables_okD(1) [OF ok]
  note sp = shaped_parts [OF s]
  let ?x = "unat e" and ?y = "unat i" and ?R = "rules_at T m" and ?I = "words_at T m"
  note rc = rules_inv_parts(1) [OF tables_okD(2) [OF ok]]
  note ic = index_inv_parts(1) [OF tables_okD(3) [OF ok]]
  have TN: "T < N" using sp(10) by simp
  have b': "0 < b" "b < T" using table_hash_range(1) [OF sp(5,8)] b by auto
  have g': "0 < g" "g < T" using table_hash_range(2) [OF sp(5,8)] gen(9) by (auto simp: src_head_def)
  have x0: "0 < ?x" "0 < ?y" using gen(3,6) b'(1) g'(1) by auto
  have notin: "?x \<notin> live ?R" using gen(5) by (simp add: live_def)
  have p: "unat p < N" "unat p \<noteq> ?x"
    using gen(3,5) chain_last_range [OF rc _ TN, of b] x0 TN by auto
  have q: "unat q < N" "unat q \<noteq> ?y"
    using gen(6,8) chain_last_range [OF ic _ TN, of g] x0 TN by auto
  have c1: "ip4_tbl c1 = [t1]" "willing c1" using movedD [OF t1(1)] by simp_all
  have psw: "p = sw_prev_index sw" by (simp add: gen(2))
  obtain c2 m2 where 2: "ipa_nati_copy_ipv4_rule_to_hw E 0 sw e c1 = Some c2" "moved c1 (set_mem m2 t1) c2"
    "shaped T N (set_mem m2 t1) m2" "words_at T m2 = ?I"
    "rules_at T m2 = (if p = 0 then ?R(?x := hw_rule sw) else ?R(?x := hw_rule sw, unat p := set_next e (?R (unat p))))"
    using copy_rule_spec [OF k c1 t1(2) refl gen(4) psw refl p] by blast
  obtain c3 m3 where 3: "ipa_nati_copy_ipv4_index_rule_to_hw E 0 e q i c2 = Some c3" "moved c2 (set_mem m3 t1) c3"
    "shaped T N (set_mem m3 t1) m3" "rules_at T m3 = rules_at T m2"
    "words_at T m3 = (if q = 0 then ?I(?y := halves e 0) else ?I(?y := halves e 0, unat q := set_high (?I (unat q)) i))"
    using copy_index_spec [OF k movedD(1,2) [OF 2(2)] 2(3) refl gen(7) refl q, of e] 2(4) by auto
  obtain c4 m4 where 4: "ipa_nati_post_ipv4_dma_cmd E 0 e c3 = Some (RET_0, c4)" "moved c3 (set_mem m4 t1) c4"
    "shaped T N (set_mem m4 t1) m4" "words_at T m4 = words_at T m3"
    "rules_at T m4 = (rules_at T m3)(?x := set_flags 0x8000 (rules_at T m3 ?x))"
    using post_dma_spec [OF k movedD(1,2) [OF 3(2)] 3(3) refl gen(4)] by auto
  let ?r = "set_flags 0x8000 (hw_rule sw)"
  have R4: "rules_at T m4 = (if p = 0 then ?R(?x := ?r) else ?R(?x := ?r, unat p := set_next e (?R (unat p))))"
    using 4(5) 3(4) 2(5) p(2) by (auto simp: fun_eq_iff)
  have en: "(ucast (drop_bit 15 (0x8000 :: 16 word)) :: 16 word) \<noteq> 0" by simp
  have r: "rule_enabled ?r \<noteq> 0" "rule_next ?r = 0" "rule_proto ?r \<noteq> 0xFF" "rule_prev ?r = p" "rule_client ?r = clnt"
    "rule_index ?r = i"
    using en clnt client_hw_clnt [OF clnt(2)] by (simp_all add: gen(2))
  have br: "b = dst (rule_client ?r)" using b(2) r(5) by simp
  note inst = rules_installed [OF tables_okD(2) [OF ok] br b' refl gen(4,5,3) r(1-4) R4]
  let ?ix = "\<lambda>e. unat (rule_index (rules_at T m4 e))"
  let ?src = "\<lambda>e. src_head (table_entries t1) (rule_client (rules_at T m4 e))"
  have same: "y \<in> live ?R \<Longrightarrow> rule_client (rules_at T m4 y) = rule_client (?R y) \<and>
      rule_index (rules_at T m4 y) = rule_index (?R y)" for y
    using notin inst(3) [of y] by auto
  have base: "index_inv T N (live ?R) ?ix ?src ?I (prevs_at T t) D"
    by (rule index_inv_cong [OF tables_okD(3) [OF ok]]) (simp_all add: same t1(4))
  have gs: "g = ?src ?x" using gen(9) inst(4) r(5) t1(4) by simp
  have ixx: "?ix ?x = ?y" using inst(4) r(6) by simp
  have e0: "e \<noteq> 0" using x0 by auto
  have I4: "words_at T m4 = (if q = 0 then ?I(?y := halves e 0)
      else ?I(?y := halves e 0, unat q := set_high (?I (unat q)) i))"
    using 4(4) 3(5) by simp
  have D': "\<exists>D'. index_inv T N (insert ?x (live ?R)) ?ix ?src (words_at T m4) (prevs_at T t1) D'"
    by (rule index_installed [OF base notin refl e0 gs g' refl gen(7,8) ixx gen(6) I4 t1(5)])
  have m4: "moved c (set_mem m4 t1) c4"
    using t1(1) 2(2) 3(2) 4(2) by (blast intro: moved_trans)
  obtain C' where C': "rules_inv T N dst (rules_at T m4) C'" using inst(1) by blast
  obtain D' where D': "index_inv T N (live (rules_at T m4)) ?ix ?src (words_at T m4) (prevs_at T t1) D'"
    using D' unfolding inst(2) by blast
  have "rule_client (rules_at T m4 ?x) = clnt" using inst(4) r(5) by simp
  moreover have "\<forall>y. y \<noteq> ?x \<longrightarrow> rule_client (rules_at T m4 y) = rule_client (?R y)"
    using inst(3) by blast
  ultimately show ?thesis
    using 2(1) 3(1) 4(1,3) m4 inst(2) notin x0(1) C' D'
    by (intro exI [of _ c2] exI [of _ c3] exI [of _ c4] exI [of _ m4] exI [of _ C'] exI [of _ D'] conjI)
qed

text \<open>
  An addition whose calls outside succeed: either a handle that names no rule yet now names the new one, or nothing
  changes because the packet network is not configured or no place is left.
\<close>

definition pdn_ready :: "nat_cache \<Rightarrow> ipa_nat_ipv4_rule \<Rightarrow> bool" where
  "pdn_ready c clnt \<longleftrightarrow>
     unat (cl_pdn_index clnt) < length (pdns c) \<and> public_ip (pdns c ! unat (cl_pdn_index clnt)) \<noteq> 0"

lemma add_rule_spec:
  assumes k: "dma_contract E" and ok: "nat_ok E c" and w: "willing c" and pr: "cl_protocol clnt \<noteq> 0xFF"
  shows "\<exists>r h c'. ipa_nati_add_ipv4_rule E 1 clnt c = Some ((r, h), c') \<and> nat_ok E c' \<and> willing c' \<and>
     pdns c' = pdns c \<and>
     (r = RET_0 \<and> pdn_ready c clnt \<and>
        (\<exists>hdl. h = Some hdl \<and> hdl \<noteq> 0 \<and> nat_rules c (unat hdl) = None \<and>
               nat_rules c' = (nat_rules c)(unat hdl \<mapsto> clnt)) \<or>
      r = EINVAL \<and> c' = c \<and> (\<not> pdn_ready c clnt \<or> expansion_full c))"
proof (cases "pdn_ready c clnt")
  case False
  then have "ipa_nati_add_ipv4_rule E 1 clnt c = Some ((EINVAL, None), c)"
    by (auto simp: ipa_nati_add_ipv4_rule_def pdn_ready_def Let_def)
  then show ?thesis using ok w False by blast
next
  case True
  let ?ip = "public_ip (pdns c ! unat (cl_pdn_index clnt))"
  obtain t m T N C D where c: "ip4_tbl c = [t]" and len: "length (pdns c) \<le> 16"
    and tok: "tables_ok T N (dst_head E c (table_entries t)) t m C D"
    using ok by (auto simp: nat_ok_def)
  note s = tables_okD(1) [OF tok]
  note sp = shaped_parts [OF s]
  have pdn16: "unat (cl_pdn_index clnt) < 16" using True len by (simp add: pdn_ready_def)
  have start: "ipa_nati_add_ipv4_rule E 1 clnt c =
      do { (generated, c) \<leftarrow> ipa_nati_generate_rule E 0 clnt ?ip c;
       (case generated of
          None \<Rightarrow> Some ((EINVAL, None), c)
        | Some (rule, entry, indx_entry, indx_prev) \<Rightarrow> do {
            c \<leftarrow> ipa_nati_copy_ipv4_rule_to_hw E 0 rule entry c;
            c \<leftarrow> ipa_nati_copy_ipv4_index_rule_to_hw E 0 entry indx_prev indx_entry c;
            (r, c) \<leftarrow> ipa_nati_post_ipv4_dma_cmd E 0 entry c;
            if r \<noteq> RET_0 then Some ((EIO, None), c)
            else do {
              (hdl, c) \<leftarrow> ipa_nati_make_rule_hdl 0 entry c;
              if hdl = 0 then Some ((EINVAL, Some 0), c)
              else Some ((RET_0, Some hdl), c) }}) }"
    using True by (simp add: ipa_nati_add_ipv4_rule_def pdn_ready_def Let_def)
  define b where "b = unat (clnt_dst_hash E c clnt ?ip (table_entries t))"
  define g where "g = src_head (table_entries t) clnt"
  have bd: "b = dst_head E c (table_entries t) clnt" by (simp add: b_def dst_head_def)
  consider (full) "ipa_nati_generate_rule E 0 clnt ?ip c = Some (None, c)" "expansion_full c"
    | (place) sw e p i q c1 t1 where
      "ipa_nati_generate_rule E 0 clnt ?ip c = Some (Some (sw, e, i, q), c1)"
      "sw = clnt_sw_rule clnt ?ip\<lparr>sw_prev_index := p, sw_indx_tbl_entry := i\<rparr>"
      "C b = [] \<and> unat e = b \<and> p = 0 \<or> C b \<noteq> [] \<and> unat p = last (C b) \<and> T < unat e"
      "unat e < N" "rule_enabled (rules_at T m (unat e)) = 0"
      "D g = [] \<and> unat i = g \<and> q = 0 \<or> D g \<noteq> [] \<and> unat q = last (D g) \<and> T < unat i"
      "unat i < N" "index_entry (words_at T m (unat i)) = 0"
      "moved c t1 c1" "shaped T N t1 m" "ids_at t1 = ids_at t" "table_entries t1 = table_entries t"
      "prevs_at T t1 = (if T \<le> unat i then (prevs_at T t)(unat i := q) else prevs_at T t)"
    using generate_rule_spec [OF c w tok b_def g_def] by blast
  then show ?thesis
  proof cases
    case full
    then show ?thesis using ok w start by simp
  next
    case place
    obtain c2 c3 c4 m4 C' D' where i:
      "ipa_nati_copy_ipv4_rule_to_hw E 0 sw e c1 = Some c2"
      "ipa_nati_copy_ipv4_index_rule_to_hw E 0 e q i c2 = Some c3"
      "ipa_nati_post_ipv4_dma_cmd E 0 e c3 = Some (RET_0, c4)"
      and c4: "moved c (set_mem m4 t1) c4" "shaped T N (set_mem m4 t1) m4"
      and L: "live (rules_at T m4) = insert (unat e) (live (rules_at T m))" "unat e \<notin> live (rules_at T m)" "0 < unat e"
      and inv: "rules_inv T N (dst_head E c (table_entries t)) (rules_at T m4) C'"
       "index_inv T N (live (rules_at T m4)) (\<lambda>e. unat (rule_index (rules_at T m4 e)))
         (\<lambda>e. src_head (table_entries t1) (rule_client (rules_at T m4 e))) (words_at T m4) (prevs_at T t1) D'"
      and cl: "rule_client (rules_at T m4 (unat e)) = clnt"
       "\<forall>y. y \<noteq> unat e \<longrightarrow> rule_client (rules_at T m4 y) = rule_client (rules_at T m y)"
      using add_rule_installed [OF k c w tok pr pdn16 b_def bd place(1-8) g_def place(9-13)] by blast
    have "b < T" using table_hash_range(1) [OF sp(5,8), of E c clnt ?ip] b_def by simp
    then have eT: "unat e \<noteq> T" using place(3) by auto
    have ids: "handles_inv T N (live (rules_at T m)) (ids_at (set_mem m4 t1))"
      using tables_okD(4) [OF tok] place(11) by simp
    obtain j c5 t5 where h: "ipa_nati_make_rule_hdl 0 e c4 = Some (of_nat (Suc j), c5)" "moved c4 t5 c5"
      "shaped T N t5 m4" "prevs_at T t5 = prevs_at T (set_mem m4 t1)" "ids_at (set_mem m4 t1) j = 0" "Suc j < N"
      "ids_at t5 = (ids_at (set_mem m4 t1))(j := rule_id (table_entries (set_mem m4 t1)) e)"
      using make_handle_spec [OF movedD(1,2) [OF c4(1)] c4(2) ids live_entries [OF tok], of "unat e" e]
        L(2,3) place(4) eT by auto
    have ids5: "ids_at t5 = (ids_at t)(j := rule_id (table_entries t) e)" "ids_at t j = 0"
      using h(5,7) place(11,12) by simp_all
    have rid: "rule_id (table_entries t) e \<noteq> 0" "entry_of T (rule_id (table_entries t) e) = unat e"
      "rule_id (table_entries t) e AND 1 \<noteq> 0 \<longleftrightarrow> T \<le> unat e"
      using entry_of_rule_id [OF sp(5) _ refl, of e] sp(9,11) place(4) L(3) eT by auto
    have te: "table_entries t5 = table_entries t"
      using shaped_parts(5) [OF h(3)] sp(5) by (simp add: word_unat_eq_iff)
    have m5: "moved c t5 c5" using moved_trans [OF c4(1) h(2)] .
    note m5' = movedD [OF m5]
    have "tables_ok T N (dst_head E c5 (table_entries t5)) t5 m4 C' D'"
      unfolding tables_ok_def
    proof (intro conjI)
      show "shaped T N t5 m4" by (rule h(3))
      show "rules_inv T N (dst_head E c5 (table_entries t5)) (rules_at T m4) C'"
        using inv(1) te dst_head_moved [OF m5] by simp
      show "index_inv T N (live (rules_at T m4)) (\<lambda>e. unat (rule_index (rules_at T m4 e)))
         (\<lambda>e. src_head (table_entries t5) (rule_client (rules_at T m4 e))) (words_at T m4) (prevs_at T t5) D'"
        using inv(2) te h(4) place(12) by simp
      show "handles_inv T N (live (rules_at T m4)) (ids_at t5)"
        unfolding L(1) ids5(1)
        by (rule handles_add [OF tables_okD(4) [OF tok] ids5(2) h(6) rid L(2)])
    qed
    then have ok5: "nat_ok E c5" using m5' len by (intro nat_okI) simp_all
    have u: "unat (of_nat (Suc j) :: 16 word) = Suc j"
      using h(6) sp(12) by (intro unat_of_nat16) simp
    then have nz: "(of_nat (Suc j) :: 16 word) \<noteq> 0" by auto
    have none: "nat_rules c (Suc j) = None" using ids5(2) by (simp add: nat_rules_eq [OF c s])
    have "nat_rules c5 = (nat_rules c)(Suc j \<mapsto> clnt)"
    proof
      fix x
      show "nat_rules c5 x = ((nat_rules c)(Suc j \<mapsto> clnt)) x"
      proof (cases "x = Suc j")
        case True
        then show ?thesis using cl(1) rid by (simp add: nat_rules_eq [OF m5'(1) h(3)] ids5(1))
      next
        case False
        then have same: "x \<noteq> 0 \<Longrightarrow> ids_at t5 (x - 1) = ids_at t (x - 1)" by (auto simp: ids5(1))
        have "entry_of T (ids_at t (x - 1)) \<noteq> unat e" if "ids_at t (x - 1) \<noteq> 0"
          using tables_okD(4) [OF tok] that L(2) by (auto simp: handles_inv_def)
        then show ?thesis
          using False same cl(2)
          by (cases "x = 0") (simp_all add: nat_rules_eq [OF m5'(1) h(3)] nat_rules_eq [OF c s])
      qed
    qed
    then have rules5: "nat_rules c5 = (nat_rules c)(unat (of_nat (Suc j) :: 16 word) \<mapsto> clnt)" using u by simp
    have "ipa_nati_add_ipv4_rule E 1 clnt c = Some ((RET_0, Some (of_nat (Suc j))), c5)"
      unfolding start using place(1) i h(1) nz by simp
    moreover have "nat_rules c (unat (of_nat (Suc j) :: 16 word)) = None" using none u by simp
    ultimately show ?thesis using ok5 m5'(2,3) True rules5 nz by blast
  qed
qed

end
