(* ===== verification/NatDelete.thy ===== *)
theory NatDelete
  imports NatAdd
begin

text \<open>
  The deletion of a rule in the NAT driver: its DMA commands, what the processor does after them, the sweep of the dead
  heads, and the proof that together they take one rule out of the map of the rules, or fail and change nothing.
\<close>

section \<open>Calls that may fail\<close>

definition answer :: "nat_cache \<Rightarrow> bool" where
  "answer c \<longleftrightarrow> answers c = [] \<or> hd (answers c)"

lemma ask_later: "ask c = (answer c, later c)"
  by (cases "answers c") (auto simp: ask_def answer_def later_def)

lemma willing_answer: "willing c \<Longrightarrow> answer c"
  by (cases "answers c") (auto simp: willing_def answer_def)

text \<open>\<open>c'\<close> is \<open>c\<close> with another table record after some calls.\<close>

definition shifted :: "nat_cache \<Rightarrow> ip4_table \<Rightarrow> nat_cache \<Rightarrow> bool" where
  "shifted c t c' \<longleftrightarrow> (\<exists>n. c' = c\<lparr>ip4_tbl := [t], answers := drop n (answers c)\<rparr>)"

lemma shiftedD:
  assumes "shifted c t c'"
  shows "ip4_tbl c' = [t]" "pdns c' = pdns c" "ver c' = ver c" "willing c \<Longrightarrow> willing c'"
    "dst_head E c' T16 = dst_head E c T16"
proof -
  obtain n where c': "c' = c\<lparr>ip4_tbl := [t], answers := drop n (answers c)\<rparr>"
    using assms by (auto simp: shifted_def)
  show "ip4_tbl c' = [t]" "pdns c' = pdns c" "ver c' = ver c" by (simp_all add: c')
  show "willing c \<Longrightarrow> willing c'"
    using set_drop_subset [of n "answers c"] by (simp add: c' willing_def order_trans)
  show "dst_head E c' T16 = dst_head E c T16" by (simp add: c' dst_head_def clnt_dst_hash_def fun_eq_iff)
qed

lemma shifted_refl: "ip4_tbl c = [t] \<Longrightarrow> shifted c t c"
  unfolding shifted_def by (rule exI [of _ 0]) simp

lemma shifted_later: "shifted c t c' \<Longrightarrow> shifted c t (later c')"
  unfolding shifted_def later_def
proof (elim exE)
  fix n assume "c' = c\<lparr>ip4_tbl := [t], answers := drop n (answers c)\<rparr>"
  then show "\<exists>n. c'\<lparr>answers := tl (answers c')\<rparr> = c\<lparr>ip4_tbl := [t], answers := drop n (answers c)\<rparr>"
    by (intro exI [of _ "Suc n"]) (simp add: drop_Suc tl_drop)
qed

lemma shifted_set_tbl: "shifted c t c' \<Longrightarrow> shifted c t' (set_tbl 0 t' c')"
  unfolding shifted_def set_tbl_def
proof (elim exE)
  fix n assume "c' = c\<lparr>ip4_tbl := [t], answers := drop n (answers c)\<rparr>"
  then show "\<exists>n. c'\<lparr>ip4_tbl := (ip4_tbl c')[0 := t']\<rparr> = c\<lparr>ip4_tbl := [t'], answers := drop n (answers c)\<rparr>"
    by (intro exI [of _ n]) simp
qed

lemma shifted_same:
  assumes c: "ip4_tbl c = [t]" and sh: "shifted c t c'" and ok: "nat_ok E c"
  shows "nat_ok E c' \<and> nat_rules c' = nat_rules c"
proof -
  obtain m T N C D where "length (pdns c) \<le> 16" "tables_ok T N (dst_head E c (table_entries t)) t m C D"
    using ok c by (auto simp: nat_ok_def)
  then have "nat_ok E c'"
    using shiftedD [OF sh] by (intro nat_okI) simp_all
  then show ?thesis using c shiftedD(1) [OF sh] by (simp add: nat_rules_def fun_eq_iff)
qed

section \<open>The commands of a deletion\<close>

lemma next_cmd_at:
  assumes s: "shaped T N t m" and w: "unat w = x" "x < N"
    and d: "base_addr d = (if x < T then IPA_NAT_BASE_TBL else IPA_NAT_EXPN_TBL)"
      "dma_offset d = ipa_nati_get_entry_offset t (if x < T then w else w - table_entries t) + of_nat f" "f < 32"
  shows "rule_cmd T x f d"
proof -
  note sp = shaped_parts [OF s]
  have "(base_addr d, if x < T then w else w - table_entries t) =
      (if w < table_entries t then (IPA_NAT_BASE_TBL, w) else (IPA_NAT_EXPN_TBL, w - table_entries t))"
    using word_below [OF w(1) sp(5)] d(1) by simp
  note cmd = next_cmd [OF s w this d(3), of "table_index d" "dma_data d"]
  have "d = \<lparr>table_index = table_index d, base_addr = base_addr d,
      dma_offset = ipa_nati_get_entry_offset t (if x < T then w else w - table_entries t) + of_nat f,
      dma_data = dma_data d\<rparr>"
    using d(2) by (cases d) simp
  then show ?thesis using cmd by metis
qed

lemma index_cmd_at:
  assumes s: "shaped T N t m" and w: "unat w = x" "x < N"
    and d: "base_addr d = (if x < T then IPA_NAT_INDX_TBL else IPA_NAT_INDEX_EXPN_TBL)"
      "dma_offset d = ipa_nati_get_index_entry_offset t (if x < T then w else w - table_entries t) + of_nat f" "f < 32"
  shows "word_cmd T x f d"
proof -
  note sp = shaped_parts [OF s]
  have "(base_addr d, if x < T then w else w - table_entries t) =
      (if w < table_entries t then (IPA_NAT_INDX_TBL, w) else (IPA_NAT_INDEX_EXPN_TBL, w - table_entries t))"
    using word_below [OF w(1) sp(5)] d(1) by simp
  note cmd = index_cmd [OF s w this d(3), of "table_index d" "dma_data d"]
  have "d = \<lparr>table_index = table_index d, base_addr = base_addr d,
      dma_offset = ipa_nati_get_index_entry_offset t (if x < T then w else w - table_entries t) + of_nat f,
      dma_data = dma_data d\<rparr>"
    using d(2) by (cases d) simp
  then show ?thesis using cmd by metis
qed

text \<open>A command for the rule tables and commands for the index tables do not disturb each other.\<close>

lemma word_cmds_fold:
  assumes "lens T N m" "\<And>d. d \<in> set ds \<Longrightarrow> \<exists>i f. word_cmd T i f d \<and> i < N \<and> f \<in> {0, 2}"
  shows "lens T N (fold dma_at ds m) \<and> rules_at T (fold dma_at ds m) = rules_at T m"
  using assms
proof (induction ds arbitrary: m)
  case (Cons d ds)
  obtain i f where d: "word_cmd T i f d" "i < N" "f \<in> {0, 2}" using Cons.prems(2) [of d] by auto
  have l: "lens T N (dma_at d m)" unfolding word_cmd_dma(2) [OF Cons.prems(1) d] using Cons.prems(1) by simp
  have r: "rules_at T (dma_at d m) = rules_at T m"
    unfolding word_cmd_dma(2) [OF Cons.prems(1) d] by (rule views_store_word(2) [OF Cons.prems(1) d(2)])
  show ?case using Cons.IH [OF l] Cons.prems(2) r by auto
qed simp_all

lemma word_cmds_words:
  assumes "lens T N m" "lens T N m'" "words_at T m' = words_at T m"
    and "\<And>d. d \<in> set ds \<Longrightarrow> \<exists>i f. word_cmd T i f d \<and> i < N \<and> f \<in> {0, 2}"
  shows "words_at T (fold dma_at ds m') = words_at T (fold dma_at ds m)"
  using assms
proof (induction ds arbitrary: m m')
  case (Cons d ds)
  obtain i f where d: "word_cmd T i f d" "i < N" "f \<in> {0, 2}" using Cons.prems(4) [of d] by auto
  note dm = word_cmd_dma(2) [OF Cons.prems(1) d] and dm' = word_cmd_dma(2) [OF Cons.prems(2) d]
  have "words_at T (dma_at d m') = words_at T (dma_at d m)"
    unfolding dm dm' views_store_word(1) [OF Cons.prems(1) d(2)] views_store_word(1) [OF Cons.prems(2) d(2)]
    by (simp add: Cons.prems(3))
  moreover have "lens T N (dma_at d m)" "lens T N (dma_at d m')"
    unfolding dm dm' using Cons.prems(1,2) by simp_all
  ultimately show ?case using Cons.IH [of "dma_at d m" "dma_at d m'"] Cons.prems(4) by simp
qed simp

lemma delete_dma:
  assumes k: "dma_contract E" and l: "lens T N m" and d: "rule_cmd T x f d" "x < N" "f \<in> {8, 18, 22}"
    and ds: "\<And>d. d \<in> set ds \<Longrightarrow> \<exists>i f. word_cmd T i f d \<and> i < N \<and> f \<in> {0, 2}"
    and cmds: "cmds = d # ds \<or> cmds = ds @ [d]"
  shows "lens T N (dma_write E cmds m)"
    and "rules_at T (dma_write E cmds m) = (rules_at T m)(x := dma_rule_field f (dma_data d) (rules_at T m x))"
    and "words_at T (dma_write E cmds m) = words_at T (fold dma_at ds m)"
proof -
  note dm = rule_cmd_dma(2) [OF l d]
  let ?m = "store_rule T x (dma_rule_field f (dma_data d) (rules_at T m x)) m"
  have l1: "lens T N ?m" using l by simp
  note v1 = views_store_rule [OF l d(2)]
  have inside: "\<forall>d\<in>set cmds. dma_inside m d"
    using cmds rule_cmd_dma(1) [OF l d] word_cmd_dma(1) [OF l] ds by fastforce
  then have w: "dma_write E cmds m = fold dma_at cmds m" using k by (simp add: dma_contract_def)
  note f = word_cmds_fold [OF l ds, THEN conjunct1] word_cmds_fold [OF l ds, THEN conjunct2]
  note f1 = word_cmds_fold [OF l1 ds, THEN conjunct1] word_cmds_fold [OF l1 ds, THEN conjunct2]
  have first: "dma_write E cmds m = fold dma_at ds ?m" if "cmds = d # ds" using w that dm by simp
  have last: "dma_write E cmds m = store_rule T x (dma_rule_field f (dma_data d) (rules_at T m x)) (fold dma_at ds m)"
    if "cmds = ds @ [d]"
    using w that rule_cmd_dma(2) [OF f(1) d] f(2) by simp
  show "lens T N (dma_write E cmds m)" using cmds first last f(1) f1(1) by auto
  show "rules_at T (dma_write E cmds m) = (rules_at T m)(x := dma_rule_field f (dma_data d) (rules_at T m x))"
    using cmds first last f1(2) v1(1) views_store_rule(1) [OF f(1) d(2)] f(2) by auto
  show "words_at T (dma_write E cmds m) = words_at T (fold dma_at ds m)"
    using cmds first last word_cmds_words [OF l l1 v1(2) ds] views_store_rule(2) [OF f(1) d(2)] by auto
qed

section \<open>What a deletion leaves\<close>

definition rules_after :: "nat \<Rightarrow> nat \<Rightarrow> (nat \<Rightarrow> ipa_nat_rule) \<Rightarrow> nat \<Rightarrow> ipa_nat_rule" where
  "rules_after T e R =
     (if T \<le> e then unlink_rule e R
      else if rule_next (R e) = 0 then R(e := zero_rule) else R(e := set_proto 0xFF00 (R e)))"

definition words_after :: "nat \<Rightarrow> nat \<Rightarrow> (nat \<Rightarrow> 16 word) \<Rightarrow> (nat \<Rightarrow> 32 word) \<Rightarrow> nat \<Rightarrow> 32 word" where
  "words_after T i P I =
     (if T \<le> i then I(unat (P i) := set_high (I (unat (P i))) (index_next (I i)), i := 0)
      else if index_next (I i) = 0 then I(i := 0)
      else let x = unat (index_next (I i)) in
        I(i := set_high (set_low (I i) (index_entry (I x))) (index_next (I x)), x := 0))"

definition prevs_after :: "nat \<Rightarrow> nat \<Rightarrow> (nat \<Rightarrow> 32 word) \<Rightarrow> (nat \<Rightarrow> 16 word) \<Rightarrow> nat \<Rightarrow> 16 word" where
  "prevs_after T i I P =
     (if T \<le> i then (if index_next (I i) = 0 then P else P(unat (index_next (I i)) := P i, i := 0))
      else if index_next (I i) = 0 then P
      else let x = unat (index_next (I i)) in
        if index_next (I x) = 0 then P else P(unat (index_next (I x)) := of_nat i))"

text \<open>The rule whose index entry moves into a head, if any.\<close>

definition moves :: "nat \<Rightarrow> nat \<Rightarrow> (nat \<Rightarrow> 32 word) \<Rightarrow> bool" where
  "moves T i I \<longleftrightarrow> i < T \<and> index_next (I i) \<noteq> 0"

definition mover :: "nat \<Rightarrow> (nat \<Rightarrow> 32 word) \<Rightarrow> nat" where
  "mover i I = unat (index_entry (I (unat (index_next (I i)))))"

lemma rules_after_weak:
  assumes inv: "rules_inv T N dst R C" and e: "e \<in> live R"
  shows "\<exists>C'. rules_weak T N dst (rules_after T e R) C'" and "live (rules_after T e R) = live R - {e}"
    and "\<And>x. x \<noteq> e \<Longrightarrow> rule_client (rules_after T e R x) = rule_client (R x) \<and>
           rule_index (rules_after T e R x) = rule_index (R x)"
proof -
  have eT: "e \<noteq> T" using live_range [OF rules_inv_weak [OF inv] e] by simp
  have "(\<exists>C'. rules_weak T N dst (rules_after T e R) C') \<and> live (rules_after T e R) = live R - {e} \<and>
    (\<forall>x. x \<noteq> e \<longrightarrow> rule_client (rules_after T e R x) = rule_client (R x) \<and>
           rule_index (rules_after T e R x) = rule_index (R x))"
  proof (cases "T \<le> e")
    case True
    then have "T < e" using eT by simp
    note u = rules_unlink [OF inv e this]
    show ?thesis using True u by (simp add: rules_after_def)
  next
    case False
    then have lt: "e < T" by simp
    show ?thesis
    proof (cases "rule_next (R e) = 0")
      case True
      then show ?thesis using False rules_remove_alone [OF inv e lt True] by (auto simp: rules_after_def)
    next
      case nz: False
      then show ?thesis using False rules_remove_head [OF inv e lt] by (auto simp: rules_after_def)
    qed
  qed
  then show "\<exists>C'. rules_weak T N dst (rules_after T e R) C'" and "live (rules_after T e R) = live R - {e}"
    and "\<And>x. x \<noteq> e \<Longrightarrow> rule_client (rules_after T e R x) = rule_client (R x) \<and>
           rule_index (rules_after T e R x) = rule_index (R x)" by blast+
qed

lemma set_index_weak:
  assumes w: "rules_weak T N dst R C"
  shows "rules_weak T N dst (R(f := set_index v (R f))) C" and "live (R(f := set_index v (R f))) = live R"
proof -
  let ?R = "R(f := set_index v (R f))"
  show L: "live ?R = live R" by (auto simp: live_def)
  have "rule_chains T N ?R C"
    by (rule chained_cong [OF rules_weak_parts(1) [OF w]]) auto
  then show "rules_weak T N dst ?R C"
  proof (rule rules_weakI)
    fix x
    show "x < T" if "rule_enabled (?R x) \<noteq> 0" "rule_proto (?R x) = 0xFF"
      using that rules_weak_parts(2) [OF w, of x] by (auto split: if_splits)
    show "x \<in> set (C (dst (rule_client (?R x))))" if "x \<in> live ?R"
      using that rules_weak_parts(3) [OF w, of x] L by auto
  qed
qed

lemma words_after_inv:
  assumes inv: "index_inv T N L ix src I P D" and e: "e \<in> L" "ix e = i" "i < 65536"
  shows "\<exists>D'. index_inv T N (L - {e}) (if moves T i I then ix(mover i I := i) else ix) src
           (words_after T i P I) (prevs_after T i I P) D'"
proof -
  have iT: "i \<noteq> T"
    using chained_range [OF index_inv_parts(1) [OF inv] index_used [OF inv e(1)]] e(2) by simp
  show ?thesis
  proof (cases "T \<le> i")
    case True
    then have "T < i" using iT by simp
    note u = index_unlink [OF inv e(1,2) this refl refl]
    then show ?thesis using True by (simp add: words_after_def prevs_after_def moves_def)
  next
    case False
    then have lt: "i < T" by simp
    show ?thesis
    proof (cases "index_next (I i) = 0")
      case True
      note u = index_remove_alone [OF inv e(1,2) lt True]
      then show ?thesis using lt True by (auto simp: words_after_def prevs_after_def moves_def)
    next
      case nz: False
      have iw: "unat (of_nat i :: 16 word) = i" using e(3) by (rule unat_of_nat16)
      note u = index_remove_head(1) [OF inv e(1,2) lt nz refl refl refl refl iw]
      then show ?thesis using lt nz by (simp add: words_after_def prevs_after_def moves_def mover_def Let_def)
    qed
  qed
qed

lemma mover_facts:
  assumes inv: "index_inv T N L ix src I P D" and e: "e \<in> L" "ix e = i" "moves T i I" "i < 65536"
  shows "mover i I \<in> L" "mover i I \<noteq> e"
    and "T < unat (index_next (I i))" "unat (index_next (I i)) < N"
    and "index_next (I (unat (index_next (I i)))) \<noteq> 0 \<Longrightarrow>
      T < unat (index_next (I (unat (index_next (I i))))) \<and> unat (index_next (I (unat (index_next (I i))))) < N"
proof -
  have m: "i < T" "index_next (I i) \<noteq> 0" using e(3) by (simp_all add: moves_def)
  have w: "unat (of_nat i :: 16 word) = i" using e(4) by (rule unat_of_nat16)
  show "mover i I \<in> L" "mover i I \<noteq> e" "T < unat (index_next (I i))" "unat (index_next (I i)) < N"
    "index_next (I (unat (index_next (I i)))) \<noteq> 0 \<Longrightarrow>
      T < unat (index_next (I (unat (index_next (I i))))) \<and> unat (index_next (I (unat (index_next (I i))))) < N"
    using index_remove_head(2-5,7) [OF inv e(1,2) m refl refl refl refl w] unfolding mover_def by blast+
qed

section \<open>The steps of a deletion\<close>

lemma rule_pos_spec:
  assumes s: "shaped T N t m" and w: "unat w = (if T \<le> e then e - T else e)" "e < N"
  shows "ipa_nati_find_rule_pos m (T \<le> e) w = Some
     (if T \<le> e then (if rule_next (rules_at T m e) = 0 then IPA_NAT_DEL_TYPE_LAST else IPA_NAT_DEL_TYPE_MIDDLE)
      else (if rule_next (rules_at T m e) = 0 then IPA_NAT_DEL_TYPE_ONLY_ONE else IPA_NAT_DEL_TYPE_HEAD))"
  using rd_rules(1,2) [OF shaped_parts(3) [OF s]] w by (simp add: ipa_nati_find_rule_pos_def)

text \<open>The field that the command for the rule tables writes, of which entry, and what.\<close>

lemma del_rule_cmd_spec:
  assumes s: "shaped T N t m" and inv: "rules_inv T N dst (rules_at T m) C" and e: "e \<in> live (rules_at T m)"
    and w: "unat w = (if T \<le> e then e - T else e)"
    and pos: "ipa_nati_find_rule_pos m (T \<le> e) w = Some pos"
  shows "\<exists>x f. rule_cmd T x f (del_rule_cmd 0 t (rules_at T m e) w pos) \<and> x < N \<and> f \<in> {8, 18, 22} \<and>
     (rules_at T m)(x := dma_rule_field f (dma_data (del_rule_cmd 0 t (rules_at T m e) w pos)) (rules_at T m x)) =
     (if T \<le> e then (rules_at T m)(unat (rule_prev (rules_at T m e)) :=
           set_next (rule_next (rules_at T m e)) (rules_at T m (unat (rule_prev (rules_at T m e)))))
      else if rule_next (rules_at T m e) = 0 then (rules_at T m)(e := set_flags 0 (rules_at T m e))
      else (rules_at T m)(e := set_proto 0xFF00 (rules_at T m e)))"
proof -
  note sp = shaped_parts [OF s]
  let ?R = "rules_at T m"
  have range: "e < N" using live_range [OF rules_inv_weak [OF inv] e] sp(10) by auto
  have pos': "pos = (if T \<le> e then (if rule_next (?R e) = 0 then IPA_NAT_DEL_TYPE_LAST else IPA_NAT_DEL_TYPE_MIDDLE)
      else (if rule_next (?R e) = 0 then IPA_NAT_DEL_TYPE_ONLY_ONE else IPA_NAT_DEL_TYPE_HEAD))"
    using pos rule_pos_spec [OF s w range] by simp
  show ?thesis
  proof (cases "T \<le> e")
    case True
    let ?p = "unat (rule_prev (?R e))" and ?d = "del_rule_cmd 0 t (?R e) w pos"
    have eT: "T < e" using True live_range [OF rules_inv_weak [OF inv] e] by auto
    have "rule_enabled (?R e) \<noteq> 0" using live_enabled [OF e] by simp
    then have "rule_enabled (?R ?p) \<noteq> 0"
      using chained_expansion [OF rules_inv_parts(1) [OF inv] _ eT] by blast
    then have p: "?p < N" using chained_range [OF rules_inv_parts(1) [OF inv], of ?p] sp(10) by auto
    have d: "?d = del_prev_cmd 0 t (?R e) (rule_next (?R e))"
      using True pos' by (simp add: del_rule_cmd_def)
    have "rule_cmd T ?p 8 ?d"
      using word_from [OF refl sp(5), of "rule_prev (?R e)"]
      by (intro next_cmd_at [OF s refl p]) (auto simp: d del_prev_cmd_def)
    moreover have "dma_data ?d = rule_next (?R e)" by (simp add: d del_prev_cmd_def Let_def split: prod.splits)
    ultimately show ?thesis using True p by (intro exI [of _ ?p] exI [of _ 8]) (simp add: dma_rule_field_def)
  next
    case False
    then have we: "unat w = e" "e < T" using w by simp_all
    let ?d = "del_rule_cmd 0 t (?R e) w pos"
    show ?thesis
    proof (cases "rule_next (?R e) = 0")
      case True
      have "rule_cmd T e 18 ?d"
        by (intro next_cmd_at [OF s we(1) range]) (use we(2) True pos' in \<open>auto simp: del_rule_cmd_def\<close>)
      then show ?thesis using False True pos' range
        by (intro exI [of _ e] exI [of _ 18]) (simp add: dma_rule_field_def del_rule_cmd_def)
    next
      case nz: False
      have "rule_cmd T e 22 ?d"
        by (intro next_cmd_at [OF s we(1) range]) (use we(2) nz pos' in \<open>auto simp: del_rule_cmd_def\<close>)
      then show ?thesis using False nz pos' range
        by (intro exI [of _ e] exI [of _ 22]) (simp add: dma_rule_field_def del_rule_cmd_def)
    qed
  qed
qed

lemma del_fix_rules_spec:
  assumes s: "shaped T N t m0" and inv: "rules_inv T N dst R C" and e: "e \<in> live R"
    and w: "unat w = (if T \<le> e then e - T else e)"
    and pos: "pos = (if T \<le> e then (if rule_next (R e) = 0 then IPA_NAT_DEL_TYPE_LAST else IPA_NAT_DEL_TYPE_MIDDLE)
      else (if rule_next (R e) = 0 then IPA_NAT_DEL_TYPE_ONLY_ONE else IPA_NAT_DEL_TYPE_HEAD))"
    and m: "lens T N m" "rules_at T m = (if T \<le> e then R(unat (rule_prev (R e)) := set_next (rule_next (R e)) (R (unat (rule_prev (R e)))))
      else if rule_next (R e) = 0 then R(e := set_flags 0 (R e)) else R(e := set_proto 0xFF00 (R e)))"
  shows "\<exists>m'. del_fix_rules t (T \<le> e) w pos m = Some m' \<and> lens T N m' \<and> words_at T m' = words_at T m \<and>
     rules_at T m' = rules_after T e R"
proof -
  note sp = shaped_parts [OF s]
  have eT: "0 < e" "e \<noteq> T" "e < N" using live_range [OF rules_inv_weak [OF inv] e] sp(10) by auto
  show ?thesis
  proof (cases "T \<le> e")
    case True
    then have Te: "T < e" and we: "unat w = e - T" using eT w by simp_all
    let ?p = "unat (rule_prev (R e))" and ?y = "unat (rule_next (R e))"
    have used: "rule_enabled (R e) \<noteq> 0" using live_enabled [OF e] by simp
    obtain b xs ys where split: "C b = b # xs @ e # ys" and p: "?p = last (b # xs)"
      and ys: "ys = [] \<longrightarrow> ?y = 0" "\<forall>y zs. ys = y # zs \<longrightarrow> ?y = y \<and> T < y \<and> y < N"
      using chained_expansion [OF rules_inv_parts(1) [OF inv] used Te] by blast
    have d: "distinct (b # xs @ e # ys)" using chained_distinct [OF rules_inv_parts(1) [OF inv], of b] split by simp
    have pe: "?p \<noteq> e" using p d last_in_set [of "b # xs"] by fastforce
    have m': "rules_at T m = R(?p := set_next (rule_next (R e)) (R ?p))" using True m(2) by simp
    then have Re: "rules_at T m e = R e" using pe by simp
    show ?thesis
    proof (cases "rule_next (R e) = 0")
      case nil: True
      let ?m = "store_rule T e zero_rule m"
      have "del_fix_rules t (T \<le> e) w pos m = Some ?m"
        using True nil pos wr_rules(2) [OF m(1) True eT(3), of zero_rule] we by (simp add: del_fix_rules_def)
      moreover have "rules_at T ?m = rules_after T e R"
        using views_store_rule(1) [OF m(1) eT(3)] m' True nil by (simp add: rules_after_def unlink_rule_def Let_def)
      ultimately show ?thesis using m(1) views_store_rule(2) [OF m(1) eT(3)] by auto
    next
      case nz: False
      then have y: "T < ?y" "?y < N" using ys by (cases ys; simp add: unat_eq_0)+
      have ye: "?y \<noteq> e" using ys d nz by (cases ys) (auto simp: unat_eq_0)
      let ?v = "set_prev (rule_prev (R e)) (rules_at T m ?y)"
      let ?m = "store_rule T e zero_rule (store_rule T ?y ?v m)"
      have yw: "unat (rule_next (R e) - table_entries t) = ?y - T"
        by (rule word_minus [OF refl sp(5)]) (use y in simp)
      have r1: "rd (ipv4_expn_rules m) (e - T) = Some (R e)" using rd_rules(2) [OF m(1) True eT(3)] Re by simp
      have r2: "rd (ipv4_expn_rules m) (?y - T) = Some (rules_at T m ?y)" using rd_rules(2) [OF m(1), of ?y] y by simp
      have len: "length (ipv4_expn_rules m) = N - T" using m(1) by (simp add: lens_def)
      have in_range: "?y - T < N - T" "e - T < N - T" using y eT(3) True by linarith+
      have "del_fix_rules t (T \<le> e) w pos m = Some ?m"
        using True nz pos r1 r2 yw we y(1) in_range len
        by (simp add: del_fix_rules_def wr_def store_rule_def set_prev_def Let_def)
      moreover have l: "lens T N (store_rule T ?y ?v m)" using m(1) by simp
      moreover have "rules_at T ?m = (rules_at T m)(?y := ?v, e := zero_rule)"
        by (simp only: views_store_rule(1) [OF l eT(3)] views_store_rule(1) [OF m(1) y(2)])
      then have "rules_at T ?m = rules_after T e R"
        using True nz m' by (simp add: rules_after_def unlink_rule_def Let_def unat_eq_0)
      moreover have "words_at T ?m = words_at T m"
        unfolding views_store_rule(2) [OF l eT(3)] views_store_rule(2) [OF m(1) y(2)] ..
      ultimately show ?thesis by auto
    qed
  next
    case False
    then have we: "unat w = e" "e < T" using w by simp_all
    show ?thesis
    proof (cases "rule_next (R e) = 0")
      case True
      let ?m = "store_rule T e zero_rule m"
      have "del_fix_rules t (T \<le> e) w pos m = Some ?m"
        using True False pos wr_rules(1) [OF m(1) we(2), of zero_rule] we by (simp add: del_fix_rules_def)
      moreover have "rules_at T ?m = rules_after T e R"
        using views_store_rule(1) [OF m(1) eT(3)] m(2) True False by (simp add: rules_after_def)
      ultimately show ?thesis using m(1) views_store_rule(2) [OF m(1) eT(3)] by auto
    next
      case nz: False
      then have "del_fix_rules t (T \<le> e) w pos m = Some m" using False pos by (simp add: del_fix_rules_def)
      then show ?thesis using m False nz by (simp add: rules_after_def)
    qed
  qed
qed

abbreviation index_pos :: "nat \<Rightarrow> (nat \<Rightarrow> 32 word) \<Rightarrow> nat \<Rightarrow> del_type" where
  "index_pos T I i \<equiv>
     (if T \<le> i then (if index_next (I i) = 0 then IPA_NAT_DEL_TYPE_LAST else IPA_NAT_DEL_TYPE_MIDDLE)
      else (if index_next (I i) = 0 then IPA_NAT_DEL_TYPE_ONLY_ONE else IPA_NAT_DEL_TYPE_HEAD))"

lemma index_pos_spec:
  assumes s: "shaped T N t m" and w: "unat w = i" "i < N"
  shows "ipa_nati_find_index_rule_pos t m w = Some (index_pos T (words_at T m) i)"
    and "(w \<ge> table_entries t) = (T \<le> i)"
    and "unat (if w \<ge> table_entries t then w - table_entries t else w) = (if T \<le> i then i - T else i)"
    and "rd (if w \<ge> table_entries t then index_table_expn m else index_table m)
           (unat (if w \<ge> table_entries t then w - table_entries t else w)) = Some (words_at T m i)"
proof -
  note sp = shaped_parts [OF s]
  show f: "(w \<ge> table_entries t) = (T \<le> i)" by (rule word_from [OF w(1) sp(5)])
  have u: "T \<le> i \<Longrightarrow> unat (w - table_entries t) = i - T" by (rule word_minus [OF w(1) sp(5)])
  show "unat (if w \<ge> table_entries t then w - table_entries t else w) = (if T \<le> i then i - T else i)"
    using f u w(1) by simp
  show "ipa_nati_find_index_rule_pos t m w = Some (index_pos T (words_at T m) i)"
    using f u w rd_rules(3,4) [OF sp(3)] by (simp add: ipa_nati_find_index_rule_pos_def)
  show "rd (if w \<ge> table_entries t then index_table_expn m else index_table m)
           (unat (if w \<ge> table_entries t then w - table_entries t else w)) = Some (words_at T m i)"
    using f u w rd_rules(3,4) [OF sp(3)] by simp
qed

text \<open>The words after the commands for the index tables, before the processor clears the freed entry.\<close>

definition words_linked :: "nat \<Rightarrow> nat \<Rightarrow> (nat \<Rightarrow> 16 word) \<Rightarrow> (nat \<Rightarrow> 32 word) \<Rightarrow> nat \<Rightarrow> 32 word" where
  "words_linked T i P I =
     (if T \<le> i then I(unat (P i) := set_high (I (unat (P i))) (index_next (I i)))
      else if index_next (I i) = 0 then I(i := set_low (I i) 0)
      else let x = unat (index_next (I i)) in
        I(i := set_high (set_low (I i) (index_entry (I x))) (index_next (I x))))"

lemma index_place:
  assumes inv: "index_inv T N L ix src I P D" and e: "e \<in> L" "ix e = i" and TN: "T < N"
  shows "i < N" "i \<noteq> T" and "T \<le> i \<Longrightarrow> unat (P i) < N \<and> unat (P i) \<noteq> i"
    and "T \<le> i \<Longrightarrow> index_next (I i) \<noteq> 0 \<Longrightarrow> T < unat (index_next (I i)) \<and> unat (index_next (I i)) < N \<and>
      unat (index_next (I i)) \<noteq> i"
proof -
  note c = index_inv_parts(1) [OF inv]
  have used: "index_entry (I i) \<noteq> 0" using index_used [OF inv e(1)] e(2) by simp
  show i: "i < N" "i \<noteq> T" using chained_range [OF c used] TN by auto
  assume "T \<le> i"
  then have Ti: "T < i" using i by simp
  obtain b xs ys where x: "D b = b # xs @ i # ys" "unat (P i) = last (b # xs)" "index_entry (I (unat (P i))) \<noteq> 0"
    "ys = [] \<longrightarrow> unat (index_next (I i)) = 0"
    "\<forall>y zs. ys = y # zs \<longrightarrow> unat (index_next (I i)) = y \<and> T < y \<and> y < N"
    using chained_expansion [OF c used Ti] by blast
  have d: "distinct (b # xs @ i # ys)" using chained_distinct [OF c, of b] x(1) by simp
  have "unat (P i) \<noteq> i" using x(2) d last_in_set [of "b # xs"] by fastforce
  then show "unat (P i) < N \<and> unat (P i) \<noteq> i" using chained_range [OF c x(3)] TN by auto
  show "T < unat (index_next (I i)) \<and> unat (index_next (I i)) < N \<and> unat (index_next (I i)) \<noteq> i"
    if "index_next (I i) \<noteq> 0"
    using x(4,5) d that by (cases ys) (auto simp: unat_eq_0)
qed

lemma del_index_cmds_spec:
  assumes s: "shaped T N t m" and inv: "index_inv T N L ix src (words_at T m) (prevs_at T t) D"
    and e: "e \<in> L" "ix e = i" and w: "unat w = (if T \<le> i then i - T else i)"
  shows "\<exists>ds. del_index_cmds 0 t m (words_at T m i) w (index_pos T (words_at T m) i) = Some ds \<and> ds \<noteq> [] \<and>
     (\<forall>d\<in>set ds. is_index_cmd d \<and> (\<exists>i f. word_cmd T i f d \<and> i < N \<and> f \<in> {0, 2})) \<and>
     words_at T (fold dma_at ds m) = words_linked T i (prevs_at T t) (words_at T m)"
proof -
  note sp = shaped_parts [OF s]
  let ?I = "words_at T m" and ?P = "prevs_at T t"
  have TN: "T < N" using sp(10) by simp
  note place = index_place [OF inv e TN]
  have cmd_index: "word_cmd T i f d \<Longrightarrow> is_index_cmd d" for i f d
    by (auto simp: word_cmd_def is_index_cmd_def split: if_splits)
  have one: "words_at T (dma_at d m') = (words_at T m')(j := dma_word_field f (dma_data d) (words_at T m' j))"
    if "lens T N m'" "word_cmd T j f d" "j < N" "f \<in> {0, 2}" for d j f m'
    unfolding word_cmd_dma(2) [OF that] by (rule views_store_word(1) [OF that(1,3)])
  show ?thesis
  proof (cases "T \<le> i")
    case True
    obtain meta where meta: "index_expn_table_meta t = Some meta" "length meta = N - T"
      using sp(1) by (auto simp: sized_def)
    have w': "unat w = i - T" using w True by simp
    have rdp: "rd meta (unat w) = Some (?P i)"
      using meta True place(1) w' by (simp add: prevs_at_def rd_at)
    obtain d where d: "del_index_prev_cmd 0 t w (index_next (?I i)) = Some d" "dma_data d = index_next (?I i)"
      "word_cmd T (unat (?P i)) 2 d"
    proof -
      let ?ty = "if ?P i \<ge> table_entries t then IPA_NAT_INDEX_EXPN_TBL else IPA_NAT_INDX_TBL"
      let ?q = "if ?P i \<ge> table_entries t then ?P i - table_entries t else ?P i"
      let ?d = "\<lparr>table_index = 0, base_addr = ?ty,
        dma_offset = ipa_nati_get_index_entry_offset t ?q + 2, dma_data = index_next (?I i)\<rparr>"
      have "del_index_prev_cmd 0 t w (index_next (?I i)) = Some ?d"
        using meta(1) rdp by (simp add: del_index_prev_cmd_def)
      moreover have "word_cmd T (unat (?P i)) 2 ?d"
        using word_from [OF refl sp(5), of "?P i"] place(3) [OF True]
        by (intro index_cmd_at [OF s refl]) auto
      ultimately show ?thesis using that by simp
    qed
    have "words_at T (dma_at d m) = words_linked T i ?P ?I"
      using one [OF sp(3) d(3)] place(3) [OF True] d(2) True by (simp add: words_linked_def dma_word_field_def)
    moreover have "\<exists>i f. word_cmd T i f d \<and> i < N \<and> f \<in> {0, 2}"
      using d(3) place(3) [OF True] by (intro exI [of _ "unat (?P i)"] exI [of _ 2]) simp
    moreover have "del_index_cmds 0 t m (?I i) w (index_pos T ?I i) = Some [d]"
      using True d(1) by (auto simp: del_index_cmds_def)
    ultimately show ?thesis using cmd_index [OF d(3)] by (intro exI [of _ "[d]"]) simp
  next
    case False
    then have w': "unat w = i" "i < T" using w by simp_all
    show ?thesis
    proof (cases "index_next (?I i) = 0")
      case True
      let ?d = "\<lparr>table_index = 0, base_addr = IPA_NAT_INDX_TBL,
         dma_offset = ipa_nati_get_index_entry_offset t w + 0, dma_data = 0\<rparr>"
      have "word_cmd T i 0 ?d"
        by (intro index_cmd_at [OF s w'(1) place(1)]) (use w' in auto)
      moreover from one [OF sp(3) this place(1)] have "words_at T (dma_at ?d m) = words_linked T i ?P ?I"
        using True False by (simp add: words_linked_def dma_word_field_def)
      ultimately show ?thesis using False True place(1) cmd_index by (auto simp: del_index_cmds_def)
    next
      case nz: False
      let ?x = "unat (index_next (?I i))"
      have mv: "moves T i ?I" using w'(2) nz by (simp add: moves_def)
      have x: "T < ?x" "?x < N"
        using mover_facts(3,4) [OF inv e mv] place(1) sp(12) by simp_all
      have "unat (index_next (?I i) - table_entries t) = ?x - T"
        by (rule word_minus [OF refl sp(5)]) (use x in simp)
      then have rdx: "rd (index_table_expn m) (unat (index_next (?I i) - table_entries t)) = Some (?I ?x)"
        using rd_rules(4) [OF sp(3), of ?x] x by simp
      let ?d = "\<lparr>table_index = 0, base_addr = IPA_NAT_INDX_TBL,
         dma_offset = ipa_nati_get_index_entry_offset t w + 0, dma_data = index_entry (?I ?x)\<rparr>"
      let ?d2 = "\<lparr>table_index = 0, base_addr = IPA_NAT_INDX_TBL,
         dma_offset = ipa_nati_get_index_entry_offset t w + 2, dma_data = index_next (?I ?x)\<rparr>"
      have cmds: "del_index_cmds 0 t m (?I i) w (index_pos T ?I i) = Some [?d, ?d2]"
        using False nz rdx by (simp add: del_index_cmds_def)
      have c1: "word_cmd T i 0 ?d"
        by (intro index_cmd_at [OF s w'(1) place(1)]) (use w' in auto)
      have c2: "word_cmd T i 2 ?d2"
        by (intro index_cmd_at [OF s w'(1) place(1)]) (use w' in auto)
      have l1: "lens T N (dma_at ?d m)"
        unfolding word_cmd_dma(2) [OF sp(3) c1 place(1) insertI1] using sp(3) by simp
      have "words_at T (fold dma_at [?d, ?d2] m) = words_linked T i ?P ?I"
        using one [OF sp(3) c1 place(1)] one [OF l1 c2 place(1)] False nz
        by (simp add: words_linked_def dma_word_field_def Let_def)
      then show ?thesis using cmds c1 c2 place(1) cmd_index by (intro exI [of _ "[?d, ?d2]"]) auto
    qed
  qed
qed


text \<open>What the processor does with the index tables after the DMA.\<close>

lemma sized_meta:
  assumes "sized T N t" "length meta = N - T"
  shows "sized T N (t\<lparr>index_expn_table_meta := Some meta\<rparr>)"
    and "ids_at (t\<lparr>index_expn_table_meta := Some meta\<rparr>) = ids_at t"
  using assms by (auto simp: sized_def ids_at_def fun_eq_iff)

lemma prevs_at_meta:
  assumes "index_expn_table_meta t = Some meta" "length meta = N - T" "T \<le> j" "j < N"
  shows "rd meta (j - T) = Some (prevs_at T t j)"
    and "prevs_at T (t\<lparr>index_expn_table_meta := Some (meta[j - T := v])\<rparr>) = (prevs_at T t)(j := v)"
proof -
  have "j - T < length meta" using assms by (simp add: diff_less_mono)
  then show "rd meta (j - T) = Some (prevs_at T t j)"
    and "prevs_at T (t\<lparr>index_expn_table_meta := Some (meta[j - T := v])\<rparr>) = (prevs_at T t)(j := v)"
    using assms by (auto simp: prevs_at_def fun_eq_iff at_update rd_at)
qed

lemma fix_index_head_spec:
  assumes s: "sized T N t" and inv: "index_inv T N L ix src I (prevs_at T t) D"
    and e: "e \<in> L" "ix e = i" and mv: "moves T i I" and L: "L \<subseteq> {0<..<N} - {T}"
    and m: "lens T N m" "words_at T m = words_linked T i (prevs_at T t) I" and w: "unat w = i"
  shows "\<exists>t' m'. del_fix_index_head w (index_next (I i) - table_entries t) t m = Some (t', m') \<and>
     sized T N t' \<and> lens T N m' \<and> ids_at t' = ids_at t \<and> table_entries t' = table_entries t \<and>
     words_at T m' = words_after T i (prevs_at T t) I \<and> prevs_at T t' = prevs_after T i I (prevs_at T t) \<and>
     rules_at T m' = (rules_at T m)(mover i I := set_index w (rules_at T m (mover i I)))"
proof -
  have sT: "unat (table_entries t) = T" "N < 65536" "T < N" using s by (auto simp: sized_def)
  have i: "i < T" "index_next (I i) \<noteq> 0" using mv by (simp_all add: moves_def)
  let ?x = "unat (index_next (I i))" and ?I = "words_at T m" and ?f = "mover i I"
  let ?y = "unat (index_next (I ?x))"
  note mf = mover_facts [OF inv e mv]
  have i16: "i < 65536" using i sT by simp
  have x: "T < ?x" "?x < N" using mf(3,4) [OF i16] by simp_all
  have y: "T < ?y \<and> ?y < N" if "index_next (I ?x) \<noteq> 0" using mf(5) [OF i16 that] .
  have f: "?f < N" "0 < ?f" "?f \<noteq> T" using mf(1) [OF i16] L by auto
  have xw: "unat (index_next (I i) - table_entries t) = ?x - T"
    by (rule word_minus [OF refl sT(1)]) (use x in simp)
  have Ix: "?I ?x = I ?x" and Ii: "index_entry (?I i) = index_entry (I ?x)"
    using i x by (simp_all add: m(2) words_linked_def Let_def)
  have rx: "rd (index_table_expn m) (?x - T) = Some (I ?x)"
    using rd_rules(4) [OF m(1), of ?x] x Ix by simp
  obtain meta where meta: "index_expn_table_meta t = Some meta" "length meta = N - T"
    using s by (auto simp: sized_def)
  let ?nn = "index_next (I ?x)"
  have yw: "?nn \<noteq> 0 \<Longrightarrow> unat (?nn - table_entries t) = ?y - T"
    by (rule word_minus [OF refl sT(1)]) (use y in simp)
  have yl: "?nn \<noteq> 0 \<Longrightarrow> ?y - T < N - T" using y by (auto intro: diff_less_mono)
  have yge: "?nn \<noteq> 0 \<Longrightarrow> ?nn \<ge> table_entries t"
    using word_from [OF refl sT(1), of ?nn] y by simp
  define t' where "t' = (if ?nn \<noteq> 0 then t\<lparr>index_expn_table_meta := Some (meta[?y - T := w])\<rparr> else t)"
  have t1: "(if ?nn \<noteq> 0 \<and> ?nn \<ge> table_entries t then do {
              meta \<leftarrow> index_expn_table_meta t;
              meta \<leftarrow> wr meta (unat (?nn - table_entries t)) w;
              Some (t\<lparr>index_expn_table_meta := Some meta\<rparr>) }
            else Some t) = Some t'"
    using yw yge yl meta by (auto simp: t'_def wr_def)
  have t': "sized T N t'" "ids_at t' = ids_at t" "table_entries t' = table_entries t"
    using sized_meta [OF s, of "meta[?y - T := w]"] meta(2) s by (simp_all add: t'_def)
  have wi: "w = of_nat i" using w by (metis of_nat_unat ucast_id)
  have pv: "prevs_at T t' = prevs_after T i I (prevs_at T t)"
    using i y prevs_at_meta(2) [OF meta, of ?y w] wi by (auto simp: t'_def prevs_after_def Let_def)
  let ?m1 = "store_word T ?x 0 m"
  have w1: "wr (index_table_expn m) (?x - T) 0 = Some ((index_table_expn m)[?x - T := 0])"
    and m1: "m\<lparr>index_table_expn := (index_table_expn m)[?x - T := 0]\<rparr> = ?m1"
    using m(1) x diff_less_mono [of ?x N T] by (simp_all add: wr_def lens_def store_word_def)
  have l1: "lens T N ?m1" using m(1) by simp
  note v1 = views_store_word [OF m(1) x(2), of 0]
  have head: "rd (index_table ?m1) i = Some (?I i)"
    using rd_rules(3) [OF l1 i(1)] v1 i x by simp
  let ?m2 = "store_rule T ?f (set_index w (rules_at T ?m1 ?f)) ?m1"
  have fe: "unat (index_entry (?I i)) = ?f" by (simp add: Ii mover_def)
  have ge: "(index_entry (?I i) \<ge> table_entries t') = (T \<le> ?f)"
    using word_from [OF fe sT(1)] t'(3) by simp
  have fw: "T \<le> ?f \<Longrightarrow> unat (index_entry (?I i) - table_entries t') = ?f - T"
    using word_minus [OF fe sT(1)] t'(3) by simp
  have len1: "length (ipv4_rules ?m1) = T" "length (ipv4_expn_rules ?m1) = N - T"
    using l1 by (simp_all add: lens_def)
  have last: "(if index_entry (?I i) \<ge> table_entries t' then do {
        r \<leftarrow> rd (ipv4_expn_rules ?m1) (unat (index_entry (?I i) - table_entries t'));
        rs \<leftarrow> wr (ipv4_expn_rules ?m1) (unat (index_entry (?I i) - table_entries t'))
          (UpdateSwSpecParams r IPA_NAT_SW_PARAM_INDX_TBL_ENTRY_BYTE (ucast w));
        Some (t', ?m1\<lparr>ipv4_expn_rules := rs\<rparr>) }
      else do {
        r \<leftarrow> rd (ipv4_rules ?m1) (unat (index_entry (?I i)));
        rs \<leftarrow> wr (ipv4_rules ?m1) (unat (index_entry (?I i)))
          (UpdateSwSpecParams r IPA_NAT_SW_PARAM_INDX_TBL_ENTRY_BYTE (ucast w));
        Some (t', ?m1\<lparr>ipv4_rules := rs\<rparr>) }) = Some (t', ?m2)"
    using rd_rules(1,2) [OF l1, of ?f] f len1 fw fe ge
    by (cases "T \<le> ?f") (simp_all add: wr_def store_rule_def set_index_def)
  have "del_fix_index_head w (index_next (I i) - table_entries t) t m = Some (t', ?m2)"
    unfolding del_fix_index_head_def xw rx w Let_def
    by (simp only: Option.bind.simps t1 w1 m1 head last)
  moreover have "lens T N ?m2" using m(1) by simp
  moreover have "words_at T ?m2 = words_after T i (prevs_at T t) I"
    unfolding views_store_rule(2) [OF l1 f(1)] v1(1) m(2)
    using i x by (auto simp: words_linked_def words_after_def Let_def fun_eq_iff)
  moreover have "rules_at T ?m2 = (rules_at T m)(?f := set_index w (rules_at T m ?f))"
    unfolding views_store_rule(1) [OF l1 f(1)] v1(2) ..
  ultimately show ?thesis using t' pv by blast
qed

lemma fix_index_other_spec:
  assumes s: "sized T N t" and inv: "index_inv T N L ix src I (prevs_at T t) D"
    and e: "e \<in> L" "ix e = i" and mv: "\<not> moves T i I"
    and m: "lens T N m" "words_at T m = words_linked T i (prevs_at T t) I"
    and w: "unat w = (if T \<le> i then i - T else i)"
  shows "\<exists>t' m'. del_fix_index_other (T \<le> i) w (index_pos T I i) t m = Some (t', m') \<and>
     sized T N t' \<and> lens T N m' \<and> ids_at t' = ids_at t \<and> table_entries t' = table_entries t \<and>
     words_at T m' = words_after T i (prevs_at T t) I \<and> prevs_at T t' = prevs_after T i I (prevs_at T t) \<and>
     rules_at T m' = rules_at T m"
proof -
  have sT: "unat (table_entries t) = T" "N < 65536" "T < N" using s by (auto simp: sized_def)
  note place = index_place [OF inv e sT(3)]
  let ?P = "prevs_at T t" and ?m = "store_word T i 0 m"
  note v = views_store_word [OF m(1) place(1), of 0]
  have l: "lens T N ?m" using m(1) by simp
  have clear: "(if T \<le> i then do { ws \<leftarrow> wr (index_table_expn m) (unat w) 0; Some (t', m\<lparr>index_table_expn := ws\<rparr>) }
     else do { ws \<leftarrow> wr (index_table m) (unat w) 0; Some (t', m\<lparr>index_table := ws\<rparr>) }) = Some (t', ?m)" for t'
    using m(1) w place(1) diff_less_mono [of i N T] by (simp add: wr_def lens_def store_word_def)
  have words: "words_at T ?m = words_after T i ?P I"
    unfolding v(1) m(2) using mv place(3)
    by (auto simp: words_linked_def words_after_def moves_def fun_eq_iff)
  show ?thesis
  proof (cases "T \<le> i \<and> index_next (I i) \<noteq> 0")
    case False
    then have "index_pos T I i \<noteq> IPA_NAT_DEL_TYPE_MIDDLE" by auto
    then have "del_fix_index_other (T \<le> i) w (index_pos T I i) t m = Some (t, ?m)"
      unfolding del_fix_index_other_def by (simp only: if_False Option.bind.simps clear)
    moreover have "?P = prevs_after T i I ?P" using False mv by (auto simp: prevs_after_def moves_def)
    ultimately show ?thesis using s l words v(2) by blast
  next
    case True
    let ?y = "unat (index_next (I i))"
    have y: "T < ?y" "?y < N" "?y \<noteq> i" using place(4) True by auto
    have wi: "unat w = i - T" using w True by simp
    obtain meta where meta: "index_expn_table_meta t = Some meta" "length meta = N - T"
      using s by (auto simp: sized_def)
    have Ii: "index_next (words_at T m i) = index_next (I i)"
      using place(3) True by (simp add: m(2) words_linked_def)
    have r: "rd (index_table_expn m) (i - T) = Some (words_at T m i)"
      using rd_rules(4) [OF m(1), of i] True place(1) by simp
    have yge: "index_next (I i) \<ge> table_entries t"
      using word_from [OF refl sT(1), of "index_next (I i)"] y by simp
    have yw: "unat (index_next (I i) - table_entries t) = ?y - T"
      by (rule word_minus [OF refl sT(1)]) (use y in simp)
    have rp: "rd meta (i - T) = Some (?P i)"
      using prevs_at_meta(1) [OF meta] True place(1) by simp
    let ?meta = "meta[?y - T := ?P i, i - T := 0]"
    let ?t = "t\<lparr>index_expn_table_meta := Some ?meta\<rparr>"
    have in_range: "?y - T < N - T" "i - T < N - T" using y place(1) True by linarith+
    have "del_fix_index_other (T \<le> i) w (index_pos T I i) t m = Some (?t, ?m)"
      using True r rp meta in_range yge yw clear [of ?t]
      by (simp add: del_fix_index_other_def wi Ii wr_def)
    moreover have "prevs_at T ?t = prevs_after T i I ?P"
      using prevs_at_meta(2) [OF meta, of ?y "?P i"]
        prevs_at_meta(2) [of "t\<lparr>index_expn_table_meta := Some (meta[?y - T := ?P i])\<rparr>" "meta[?y - T := ?P i]" N T i 0]
        True y place(1) meta(2)
      by (simp add: prevs_after_def)
    ultimately show ?thesis
      using sized_meta [OF s, of ?meta] meta(2) l words v(2) by (intro exI [of _ ?t] exI [of _ ?m]) simp
  qed
qed


lemma reorder_spec:
  assumes "\<not> is_index_cmd d" "ds \<noteq> []" "\<forall>d\<in>set ds. is_index_cmd d"
  shows "\<exists>cmds. ReorderCmds (d # ds) c = (cmds, later c) \<and> (cmds = d # ds \<or> cmds = ds @ [d])"
proof -
  have "length (takeWhile (\<lambda>d. \<not> is_index_cmd d) (d # ds)) = 1" using assms by (cases ds) simp_all
  then show ?thesis
    using assms(2) unfolding ReorderCmds_def by (cases "answer c") (simp_all add: ask_later)
qed

text \<open>The rules and the tables a deletion leaves before the heads are swept.\<close>

definition rules_deleted :: "nat \<Rightarrow> nat \<Rightarrow> (nat \<Rightarrow> 32 word) \<Rightarrow> (nat \<Rightarrow> ipa_nat_rule) \<Rightarrow> nat \<Rightarrow> ipa_nat_rule" where
  "rules_deleted T e I R = (
     let i = unat (rule_index (R e)); R' = rules_after T e R; f = mover i I in
     if moves T i I then R'(f := set_index (of_nat i) (R' f)) else R')"

lemma rules_deleted_inv:
  assumes ok: "tables_ok T N dst t m C D" and e: "e \<in> live (rules_at T m)"
    and i: "i = unat (rule_index (rules_at T m e))" and R': "R' = rules_deleted T e (words_at T m) (rules_at T m)"
  shows "\<exists>C'. rules_weak T N dst R' C'" and "live R' = live (rules_at T m) - {e}"
    and "\<And>x. x \<noteq> e \<Longrightarrow> rule_client (R' x) = rule_client (rules_at T m x)"
    and "\<exists>D'. index_inv T N (live (rules_at T m) - {e}) (\<lambda>e. unat (rule_index (R' e)))
       (\<lambda>e. src_head (table_entries t) (rule_client (R' e)))
       (words_after T i (prevs_at T t) (words_at T m)) (prevs_after T i (words_at T m) (prevs_at T t)) D'"
proof -
  let ?R = "rules_at T m" and ?I = "words_at T m" and ?A = "rules_after T e (rules_at T m)"
  note inv = tables_okD(2) [OF ok] and xinv = tables_okD(3) [OF ok]
  note A = rules_after_weak [OF inv e]
  let ?f = "mover i ?I" and ?v = "of_nat i :: 16 word"
  have R'': "R' = (if moves T i ?I then ?A(?f := set_index ?v (?A ?f)) else ?A)"
    by (simp add: R' rules_deleted_def i Let_def)
  obtain C' where C': "rules_weak T N dst ?A C'" using A(1) by blast
  note W = set_index_weak [OF C', of ?f ?v]
  show "\<exists>C'. rules_weak T N dst R' C'" using C' W(1) R'' by auto
  show "live R' = live ?R - {e}" using A(2) W(2) R'' by simp
  show cl: "rule_client (R' x) = rule_client (?R x)" if "x \<noteq> e" for x
    using A(3) [OF that] R'' by (cases "x = mover i ?I") simp_all
  have i16: "i < 65536" unfolding i by (rule unat16_less)
  have vi: "unat ?v = i" using i16 by (rule unat_of_nat16)
  have ix: "unat (rule_index (R' x)) = (if moves T i ?I then (\<lambda>e. unat (rule_index (?R e)))(?f := i)
      else (\<lambda>e. unat (rule_index (?R e)))) x" if "x \<noteq> e" for x
    using A(3) [OF that] vi by (simp add: R'')
  obtain D' where D': "index_inv T N (live ?R - {e})
      (if moves T i ?I then (\<lambda>e. unat (rule_index (?R e)))(?f := i) else (\<lambda>e. unat (rule_index (?R e))))
      (\<lambda>e. src_head (table_entries t) (rule_client (?R e)))
      (words_after T i (prevs_at T t) ?I) (prevs_after T i ?I (prevs_at T t)) D'"
    using words_after_inv [OF xinv e i [symmetric] i16] by blast
  show "\<exists>D'. index_inv T N (live ?R - {e}) (\<lambda>e. unat (rule_index (R' e)))
       (\<lambda>e. src_head (table_entries t) (rule_client (R' e)))
       (words_after T i (prevs_at T t) ?I) (prevs_after T i ?I (prevs_at T t)) D'"
    by (rule exI [of _ D'], rule index_inv_cong [OF D']) (use ix cl in auto)
qed

lemma fix_index_spec:
  assumes s: "sized T N t" and inv: "index_inv T N L ix src I (prevs_at T t) D"
    and e: "e \<in> L" "ix e = i" and L: "L \<subseteq> {0<..<N} - {T}"
    and m: "lens T N m" "words_at T m = words_linked T i (prevs_at T t) I"
    and w: "unat w = (if T \<le> i then i - T else i)"
  shows "\<exists>t' m'. (if index_pos T I i = IPA_NAT_DEL_TYPE_HEAD
       then del_fix_index_head w (index_next (I i) - table_entries t) t m
       else del_fix_index_other (T \<le> i) w (index_pos T I i) t m) = Some (t', m') \<and>
     sized T N t' \<and> lens T N m' \<and> ids_at t' = ids_at t \<and> table_entries t' = table_entries t \<and>
     words_at T m' = words_after T i (prevs_at T t) I \<and> prevs_at T t' = prevs_after T i I (prevs_at T t) \<and>
     rules_at T m' = (if moves T i I then (rules_at T m)(mover i I := set_index (of_nat i) (rules_at T m (mover i I)))
       else rules_at T m)"
proof (cases "moves T i I")
  case True
  then have "index_pos T I i = IPA_NAT_DEL_TYPE_HEAD" "unat w = i" using w by (auto simp: moves_def)
  moreover from this have "w = of_nat i" by (metis of_nat_unat ucast_id)
  ultimately show ?thesis using fix_index_head_spec [OF s inv e True L m] True by simp
next
  case False
  then have "index_pos T I i \<noteq> IPA_NAT_DEL_TYPE_HEAD" by (auto simp: moves_def)
  then show ?thesis using fix_index_other_spec [OF s inv e False m w] False by simp
qed


lemma rule_cmd_not_index: "rule_cmd T x f d \<Longrightarrow> \<not> is_index_cmd d"
  by (auto simp: rule_cmd_def is_index_cmd_def split: if_splits)

text \<open>
  The whole of \<open>ipa_nati_post_del_dma_cmd\<close>: a failure of the allocation or of the kernel leaves the tables, otherwise the rule is taken out.
\<close>

lemma post_del_spec:
  assumes k: "dma_contract E" and c: "ip4_tbl c = [t]" and ok: "tables_ok T N dst t m C D"
    and e: "e \<in> live (rules_at T m)" and w: "unat w = (if T \<le> e then e - T else e)"
    and pos: "ipa_nati_find_rule_pos m (T \<le> e) w = Some pos" and i: "i = unat (rule_index (rules_at T m e))"
  shows "(\<exists>r c'. ipa_nati_post_del_dma_cmd E 0 w (T \<le> e) pos c = Some (r, c') \<and> r \<noteq> RET_0 \<and> \<not> willing c \<and>
       shifted c t c') \<or>
    (\<exists>c' t' m'. ipa_nati_post_del_dma_cmd E 0 w (T \<le> e) pos c = Some (RET_0, c') \<and> shifted c (set_mem m' t') c' \<and>
       shaped T N (set_mem m' t') m' \<and> ids_at t' = ids_at t \<and> table_entries t' = table_entries t \<and>
       words_at T m' = words_after T i (prevs_at T t) (words_at T m) \<and>
       prevs_at T t' = prevs_after T i (words_at T m) (prevs_at T t) \<and>
       rules_at T m' = rules_deleted T e (words_at T m) (rules_at T m))"
proof -
  note s = tables_okD(1) [OF ok] and inv = tables_okD(2) [OF ok] and xinv = tables_okD(3) [OF ok]
  note sp = shaped_parts [OF s]
  let ?R = "rules_at T m" and ?I = "words_at T m" and ?P = "prevs_at T t"
  have L: "live ?R \<subseteq> {0<..<N} - {T}" by (rule live_entries [OF ok])
  have range: "e < N" "T < N" using L e sp(10) by auto
  note place = index_place [OF xinv e i [symmetric] range(2)]
  define iw where "iw = rule_index (?R e)"
  have iwi: "unat iw = i" by (simp add: iw_def i)
  note ip = index_pos_spec [OF s iwi place(1)]
  define jw where "jw = (if iw \<ge> table_entries t then iw - table_entries t else iw)"
  have jwi: "unat jw = (if T \<le> i then i - T else i)" unfolding jw_def by (rule ip(3))
  obtain ds where ds: "del_index_cmds 0 t m (?I i) jw (index_pos T ?I i) = Some ds" "ds \<noteq> []"
    "\<forall>d\<in>set ds. is_index_cmd d" "\<And>d. d \<in> set ds \<Longrightarrow> \<exists>i f. word_cmd T i f d \<and> i < N \<and> f \<in> {0, 2}"
    "words_at T (fold dma_at ds m) = words_linked T i ?P ?I"
    using del_index_cmds_spec [OF s xinv e i [symmetric] jwi] by blast
  define d where "d = del_rule_cmd 0 t (?R e) w pos"
  obtain x f where d: "rule_cmd T x f d" "x < N" "f \<in> {8, 18, 22}"
    "?R(x := dma_rule_field f (dma_data d) (?R x)) =
      (if T \<le> e then ?R(unat (rule_prev (?R e)) := set_next (rule_next (?R e)) (?R (unat (rule_prev (?R e)))))
       else if rule_next (?R e) = 0 then ?R(e := set_flags 0 (?R e)) else ?R(e := set_proto 0xFF00 (?R e)))"
    using del_rule_cmd_spec [OF s inv e w pos] unfolding d_def by blast
  obtain cmds where cmds: "ReorderCmds (d # ds) (later c) = (cmds, later (later c))" "cmds = d # ds \<or> cmds = ds @ [d]"
    using reorder_spec [OF rule_cmd_not_index [OF d(1)] ds(2,3)] by blast
  note dma = delete_dma [OF k sp(3) d(1-3) ds(4) cmds(2)]
  let ?m1 = "dma_write E cmds m"
  have pos': "pos = (if T \<le> e then (if rule_next (?R e) = 0 then IPA_NAT_DEL_TYPE_LAST else IPA_NAT_DEL_TYPE_MIDDLE)
      else (if rule_next (?R e) = 0 then IPA_NAT_DEL_TYPE_ONLY_ONE else IPA_NAT_DEL_TYPE_HEAD))"
    using pos rule_pos_spec [OF s w range(1)] by simp
  obtain m2 where m2: "del_fix_rules t (T \<le> e) w pos ?m1 = Some m2" "lens T N m2" "words_at T m2 = words_linked T i ?P ?I"
    "rules_at T m2 = rules_after T e ?R"
    using del_fix_rules_spec [OF s inv e w pos' dma(1) dma(2) [unfolded d(4)]] dma(3) ds(5) by auto
  obtain t' m' where fin: "(if index_pos T ?I i = IPA_NAT_DEL_TYPE_HEAD
       then del_fix_index_head jw (index_next (?I i) - table_entries t) t m2
       else del_fix_index_other (T \<le> i) jw (index_pos T ?I i) t m2) = Some (t', m')"
    and fin': "sized T N t'" "lens T N m'" "ids_at t' = ids_at t" "table_entries t' = table_entries t"
     "words_at T m' = words_after T i ?P ?I" "prevs_at T t' = prevs_after T i ?I ?P"
     "rules_at T m' = (if moves T i ?I then (rules_at T m2)(mover i ?I := set_index (of_nat i) (rules_at T m2 (mover i ?I)))
       else rules_at T m2)"
    using fix_index_spec [OF sp(1) xinv e i [symmetric] L m2(2,3) jwi] by blast
  have deleted: "rules_at T m' = rules_deleted T e ?I ?R"
    using fin'(7) m2(4) by (simp add: rules_deleted_def i Let_def)
  have cur: "rd (if T \<le> e then ipv4_expn_rules m else ipv4_rules m) (unat w) = Some (?R e)"
    using rd_rules(1,2) [OF sp(3), of e] w range(1) by simp
  have icur: "rd (if T \<le> i then index_table_expn m else index_table m) (unat jw) = Some (?I i)"
    using ip(2,4) by (simp add: jw_def)
  have en: "rule_enabled (?R e) \<noteq> 0" using live_enabled [OF e] by simp
  define ipos where "ipos = index_pos T ?I i"
  note ipos = ipos_def [symmetric]
  have jw: "(if T \<le> i then iw - table_entries t else iw) = jw" by (simp add: jw_def ip(2))
  have iw: "rule_index (?R e) = iw" by (simp add: iw_def)
  have run: "ipa_nati_post_del_dma_cmd E 0 w (T \<le> e) pos c =
    (if \<not> answer c then Some (ENOMEM, later c)
     else if \<not> answer (later (later c)) then Some (EIO, later (later (later c)))
     else Some (RET_0, set_tbl 0 (set_mem m' t') (later (later (later c)))))"
  proof (cases "answer c")
    case True
    have "rule_enabled (?R e) = 0 \<longleftrightarrow> False" using en by simp
    note steps = c later_same rd_single Option.bind.simps mapped.simps sp(2) ask_later prod.case True not_True_eq_False
      if_False if_True cur iw this ip(1) [unfolded ipos] ip(2) jw icur ds(1) [unfolded ipos] d_def [symmetric] cmds(1)
    show ?thesis
      unfolding ipa_nati_post_del_dma_cmd_def Let_def
      by (simp only: steps) (simp add: m2(1) fin [unfolded ipos])
  qed (simp add: ipa_nati_post_del_dma_cmd_def ask_later)
  have sh: "shifted c t (later c)" "shifted c t (later (later (later c)))"
    by (intro shifted_later shifted_refl c)+
  show ?thesis
  proof (cases "answer c \<and> answer (later (later c))")
    case True
    have "shifted c (set_mem m' t') (set_tbl 0 (set_mem m' t') (later (later (later c))))"
      by (rule shifted_set_tbl [OF sh(2)])
    moreover have "shaped T N (set_mem m' t') m'" using fin'(1,2) by (auto simp: shaped_def sized_def set_mem_def)
    ultimately show ?thesis using run True fin'(3-6) deleted by auto
  next
    case False
    then have "\<not> willing c" using willing_answer [of c] willing_answer [of "later (later c)"] by auto
    then show ?thesis using run False sh by (cases "answer c") auto
  qed
qed


section \<open>Deleting a rule\<close>

lemma sweep_spec:
  assumes c: "ip4_tbl c = [t]" and s: "shaped T N t m"
  shows "\<exists>m'. ipa_nati_del_dead_ipv4_head_nodes 0 c = Some (set_tbl 0 (set_mem m' t) c) \<and> lens T N m' \<and>
     words_at T m' = words_at T m \<and> rules_at T m' = sweep T (rules_at T m)"
proof -
  note sp = shaped_parts [OF s]
  have len: "length (ipv4_rules m) = T" using sp(3) by (simp add: lens_def)
  let ?m = "m\<lparr>ipv4_rules := map (\<lambda>r. if rule_proto r = 0xFF \<and> rule_next r = 0 then zero_rule else r) (ipv4_rules m)\<rparr>"
  have "ipa_nati_del_dead_ipv4_head_nodes 0 c = Some (set_tbl 0 (set_mem ?m t) c)"
    using c sp(2,5) len by (simp add: ipa_nati_del_dead_ipv4_head_nodes_def)
  moreover have "lens T N ?m" using sp(3) by (simp add: lens_def)
  moreover have "words_at T ?m = words_at T m" by (simp add: words_at_def)
  moreover have "rules_at T ?m = sweep T (rules_at T m)"
    using len by (auto simp: fun_eq_iff rules_at_def two_def at_def sweep_def)
  ultimately show ?thesis by blast
qed

lemma parse_spec:
  assumes c: "ip4_tbl c = [t]" and ok: "tables_ok T N dst t m C D" and h: "h \<noteq> 0"
    and id: "hid = ids_at t (unat h - 1)"
  shows "hid = 0 \<Longrightarrow> \<exists>x. ipa_nati_parse_ipv4_rule_hdl 0 h c = Some (x, 0)"
    and "hid \<noteq> 0 \<Longrightarrow> \<exists>w e. ipa_nati_parse_ipv4_rule_hdl 0 h c = Some (T \<le> e, w) \<and> e = entry_of T hid \<and>
       w \<noteq> 0 \<and> unat w = (if T \<le> e then e - T else e) \<and> e \<in> live (rules_at T m) \<and> unat h < N"
proof -
  note s = tables_okD(1) [OF ok]
  note sp = shaped_parts [OF s]
  obtain ids where ids: "rule_id_array t = Some ids" "length ids = N" using sp(1) by (auto simp: sized_def)
  have h0: "0 < unat h" using h by (simp add: unat_gt_0)
  have run: "ipa_nati_parse_ipv4_rule_hdl 0 h c =
      (if N \<le> unat h then Some (False, 0) else Some (hid AND 1 \<noteq> 0, drop_bit 1 hid))"
    using c ids h h0 sp(5,7) by (auto simp: ipa_nati_parse_ipv4_rule_hdl_def id ids_at_def rd_def at_def)
  show "\<exists>x. ipa_nati_parse_ipv4_rule_hdl 0 h c = Some (x, 0)" if "hid = 0"
    using run that by auto
  assume nz: "hid \<noteq> 0"
  let ?e = "entry_of T hid" and ?w = "drop_bit 1 hid"
  have H: "?e \<in> live (rules_at T m)" "hid AND 1 \<noteq> 0 \<longleftrightarrow> T \<le> ?e" "unat h < N"
    using tables_okD(4) [OF ok] nz h0 unfolding handles_inv_def id
    by (metis Suc_diff_1)+
  have w: "unat ?w = (if T \<le> ?e then ?e - T else ?e)" using H(2) by (auto simp: entry_of_def)
  have "?e \<noteq> 0" "?e \<noteq> T" using live_entries [OF ok] H(1) by auto
  then have "?w \<noteq> 0" using w by (metis diff_is_0_eq le_antisym unsigned_0)
  then show "\<exists>w e. ipa_nati_parse_ipv4_rule_hdl 0 h c = Some (T \<le> e, w) \<and> e = entry_of T hid \<and>
       w \<noteq> 0 \<and> unat w = (if T \<le> e then e - T else e) \<and> e \<in> live (rules_at T m) \<and> unat h < N"
    using run H w by auto
qed

lemma dst_head_shifted: "shifted c t c' \<Longrightarrow> dst_head E c' = dst_head E c"
  using shiftedD(5) by blast

text \<open>
  A deletion of any 16-bit handle: the rule it names goes, or nothing changes because it names none or a call outside failed.
\<close>

lemma del_rule_spec:
  assumes k: "dma_contract E" and ok: "nat_ok E c" and h: "hdl \<noteq> 0" "unat hdl < 65536"
  shows "\<exists>r c'. ipa_nati_del_ipv4_rule E 1 hdl c = Some (r, c') \<and> nat_ok E c' \<and> pdns c' = pdns c \<and>
     (willing c \<longrightarrow> willing c') \<and>
     (r = RET_0 \<and> nat_rules c (unat hdl) \<noteq> None \<and> nat_rules c' = (nat_rules c)(unat hdl := None) \<or>
      r = EINVAL \<and> nat_rules c' = nat_rules c \<and> (nat_rules c (unat hdl) = None \<and> c' = c \<or> \<not> willing c))"
proof -
  obtain t m T N C D where c: "ip4_tbl c = [t]" and len: "length (pdns c) \<le> 16"
    and tok: "tables_ok T N (dst_head E c (table_entries t)) t m C D"
    using ok by (auto simp: nat_ok_def)
  note s = tables_okD(1) [OF tok]
  note sp = shaped_parts [OF s]
  let ?h = "ucast hdl :: 16 word" and ?k = "unat hdl - 1"
  have uh: "unat ?h = unat hdl" using h(2) by (simp add: unsigned_ucast_eq take_bit_nat_eq_self)
  then have h16: "?h \<noteq> 0" using h(1) by (metis unat_eq_0 unsigned_0)
  have h0: "0 < unat hdl" using h(1) by (simp add: unat_gt_0)
  have hk: "unat (hdl - 1) = ?k" using h0 by (simp add: unat_sub_if')
  define hid where "hid = ids_at t ?k"
  have hid': "hid = ids_at t (unat ?h - 1)" by (simp add: hid_def uh)
  note rules = nat_rules_eq [OF c s]
  note parse = parse_spec [OF c tok h16 hid']
  have idx: "unat (ucast ((1 :: 32 word) - 1) :: 8 word) = 0" by simp
  show ?thesis
  proof (cases "hid = 0")
    case True
    then have "ipa_nati_del_ipv4_rule E 1 hdl c = Some (EINVAL, c)"
      using parse(1) by (auto simp: ipa_nati_del_ipv4_rule_def)
    then show ?thesis using ok True rules [of "unat hdl"] by (auto simp: hid_def)
  next
    case False
    then obtain w e where p: "ipa_nati_parse_ipv4_rule_hdl 0 ?h c = Some (T \<le> e, w)" "e = entry_of T hid"
      "w \<noteq> 0" "unat w = (if T \<le> e then e - T else e)" "e \<in> live (rules_at T m)" "unat hdl < N"
      using parse(2) uh by auto
    have some: "nat_rules c (unat hdl) \<noteq> None" using False h0 rules [of "unat hdl"] by (simp add: hid_def)
    have eN: "e < N" using live_entries [OF tok] p(5) by auto
    obtain pos where pos: "ipa_nati_find_rule_pos m (T \<le> e) w = Some pos"
      using rule_pos_spec [OF s p(4) eN] by blast
    have start: "ipa_nati_del_ipv4_rule E 1 hdl c =
        do { (r, c) \<leftarrow> ipa_nati_post_del_dma_cmd E 0 w (T \<le> e) pos c;
           if r \<noteq> RET_0 then Some (EINVAL, c)
           else do {
             c \<leftarrow> ipa_nati_del_dead_ipv4_head_nodes 0 c;
             t \<leftarrow> rd (ip4_tbl c) 0;
             ids \<leftarrow> rule_id_array t;
             ids \<leftarrow> wr ids ?k 0;
             Some (RET_0, set_tbl 0 (t\<lparr>rule_id_array := Some ids\<rparr>) c) }}"
      unfolding ipa_nati_del_ipv4_rule_def idx Let_def hk
      by (simp add: p(1,3) c sp(2,4) pos)
    consider (failed) r c' where "ipa_nati_post_del_dma_cmd E 0 w (T \<le> e) pos c = Some (r, c')" "r \<noteq> RET_0"
        "\<not> willing c" "shifted c t c'"
      | (gone) c1 t1 m1 where "ipa_nati_post_del_dma_cmd E 0 w (T \<le> e) pos c = Some (RET_0, c1)"
        "shifted c (set_mem m1 t1) c1" "shaped T N (set_mem m1 t1) m1" "ids_at t1 = ids_at t"
        "table_entries t1 = table_entries t"
        "words_at T m1 = words_after T (unat (rule_index (rules_at T m e))) (prevs_at T t) (words_at T m)"
        "prevs_at T t1 = prevs_after T (unat (rule_index (rules_at T m e))) (words_at T m) (prevs_at T t)"
        "rules_at T m1 = rules_deleted T e (words_at T m) (rules_at T m)"
      using post_del_spec [OF k c tok p(5,4) pos refl] by blast
    then show ?thesis
    proof cases
      case failed
      then show ?thesis using start shifted_same [OF c failed(4) ok] shiftedD(2) [OF failed(4)] by auto
    next
      case gone
      let ?R = "rules_at T m" and ?R1 = "rules_at T m1"
      note D = rules_deleted_inv [OF tok p(5) refl gone(8)]
      obtain C1 where C1: "rules_weak T N (dst_head E c (table_entries t)) ?R1 C1" using D(1) by blast
      obtain D1 where D1: "index_inv T N (live ?R - {e}) (\<lambda>e. unat (rule_index (?R1 e)))
         (\<lambda>e. src_head (table_entries t) (rule_client (?R1 e))) (words_at T m1) (prevs_at T t1) D1"
        using D(4) gone(6,7) by auto
      obtain m2 where m2: "ipa_nati_del_dead_ipv4_head_nodes 0 c1 = Some (set_tbl 0 (set_mem m2 t1) c1)" "lens T N m2"
        "words_at T m2 = words_at T m1" "rules_at T m2 = sweep T ?R1"
        using sweep_spec [OF shiftedD(1) [OF gone(2)] gone(3)] by auto
      obtain ids where ids: "rule_id_array t1 = Some ids" "length ids = N"
        using shaped_parts(1) [OF gone(3)] by (auto simp: sized_def)
      have kN: "?k < N" using p(6) by simp
      define t3 where "t3 = (set_mem m2 t1)\<lparr>rule_id_array := Some (ids[?k := 0])\<rparr>"
      let ?c = "set_tbl 0 t3 c1"
      have run: "ipa_nati_del_ipv4_rule E 1 hdl c = Some (RET_0, ?c)"
        unfolding start using gone(1) m2(1) ids kN shiftedD(1) [OF gone(2)] by (simp add: t3_def wr_def)
      have sh: "shifted c t3 ?c" by (rule shifted_set_tbl [OF gone(2)])
      have s3: "shaped T N t3 m2"
        using gone(3) m2(2) ids by (auto simp: t3_def shaped_def sized_def set_mem_def)
      have same: "table_entries t3 = table_entries t" "prevs_at T t3 = prevs_at T t1"
        using gone(5) by (simp_all add: t3_def prevs_at_def fun_eq_iff set_mem_def)
      have "ids_at t3 = (ids_at t1)(?k := 0)"
        using ids kN by (simp add: t3_def ids_at_def fun_eq_iff at_update)
      then have ids3: "ids_at t3 = (ids_at t)(?k := 0)" using gone(4) by simp
      have live2: "live (rules_at T m2) = live ?R - {e}" using sweep_live(1) [OF C1] D(2) m2(4) by simp
      have R2: "rules_at T m2 x = ?R1 x" if "x \<in> live ?R - {e}" for x
        using sweep_live(2) [OF C1] that D(2) m2(4) by simp
      have tok3: "tables_ok T N (dst_head E ?c (table_entries t3)) t3 m2
          (\<lambda>b. if C1 b = [b] \<and> rule_proto (?R1 b) = 0xFF then [] else C1 b) D1"
        unfolding tables_ok_def
      proof (intro conjI s3)
        show "rules_inv T N (dst_head E ?c (table_entries t3)) (rules_at T m2)
            (\<lambda>b. if C1 b = [b] \<and> rule_proto (?R1 b) = 0xFF then [] else C1 b)"
          using rules_sweep [OF C1] m2(4) same(1) dst_head_shifted [OF sh] by simp
        show "index_inv T N (live (rules_at T m2)) (\<lambda>e. unat (rule_index (rules_at T m2 e)))
           (\<lambda>e. src_head (table_entries t3) (rule_client (rules_at T m2 e))) (words_at T m2) (prevs_at T t3) D1"
          unfolding live2 same m2(3)
          by (rule index_inv_cong [OF D1]) (simp_all add: R2)
        show "handles_inv T N (live (rules_at T m2)) (ids_at t3)"
          unfolding live2 ids3
          by (rule handles_remove [OF tables_okD(4) [OF tok]]) (use False p(2) in \<open>simp_all add: hid_def\<close>)
      qed
      note sh' = shiftedD [OF sh]
      have ok3: "nat_ok E ?c" using tok3 sh'(1,2) len by (intro nat_okI) simp_all
      have "nat_rules ?c = (nat_rules c)(unat hdl := None)"
      proof
        fix x
        show "nat_rules ?c x = ((nat_rules c)(unat hdl := None)) x"
        proof (cases "x = unat hdl \<or> x = 0")
          case True
          then show ?thesis using h0 by (auto simp: nat_rules_eq [OF sh'(1) s3] rules ids3)
        next
          case other: False
          then have ix: "x - 1 \<noteq> ?k" using h0 by auto
          have "rule_client (rules_at T m2 (entry_of T (ids_at t (x - 1)))) =
              rule_client (?R (entry_of T (ids_at t (x - 1))))" if nz: "ids_at t (x - 1) \<noteq> 0"
          proof -
            have "entry_of T (ids_at t (x - 1)) \<in> live ?R" "entry_of T (ids_at t (x - 1)) \<noteq> e"
              using tables_okD(4) [OF tok] nz False ix p(2) unfolding handles_inv_def hid_def by auto
            then show ?thesis using R2 D(3) by simp
          qed
          then show ?thesis using other ix by (simp add: nat_rules_eq [OF sh'(1) s3] rules ids3)
        qed
      qed
      then show ?thesis using run ok3 sh'(2,4) some by blast
    qed
  qed
qed

end
