(* ===== verification/NatLife.thy ===== *)
theory NatLife
  imports NatDelete
begin

text \<open>
  The life of the NAT driver's table: the sizes it is created with, the table in working order that a creation leaves,
  its deletion, and the way from a hash to each rule.
\<close>

section \<open>Creating the table\<close>

lemma even_loop_result:
  assumes "unat num < 65535"
  shows "unat (even_loop num) = unat num + unat num mod 2"
proof -
  have m: "num AND 1 \<noteq> 0 \<longleftrightarrow> unat num mod 2 = 1"
    by (simp add: and_one_eq word_unat_eq_iff unat_mod) 
  show ?thesis
  proof (cases "num AND 1 = 0")
    case True
    then show ?thesis using m by (subst even_loop.simps) simp
  next
    case False
    then have "even_loop num = num + 1"
      by (subst even_loop.simps, subst even_loop.simps) (simp add: odd_word_plus)
    moreover have "unat (num + 1) = unat num + 1" using assms by (simp add: unat_plus_if')
    ultimately show ?thesis using False m by simp
  qed
qed

lemma GetNearestEven_result:
  assumes "unat num < 65535"
  shows "even (unat (GetNearestEven num))" "2 \<le> unat (GetNearestEven num)"
    "unat num \<le> unat (GetNearestEven num)" "unat (GetNearestEven num) \<le> unat num + 2"
proof -
  have "unat (GetNearestEven num) = (if unat num < 2 then 2 else unat num + unat num mod 2)"
    using even_loop_result [OF assms] by (simp add: GetNearestEven_def word_less_nat_alt)
  moreover have "even (unat num + unat num mod 2)" by presburger
  ultimately show "even (unat (GetNearestEven num))" "2 \<le> unat (GetNearestEven num)"
    "unat num \<le> unat (GetNearestEven num)" "unat (GetNearestEven num) \<le> unat num + 2"
    by (auto split: if_splits)
qed

lemma base_entries:
  assumes us: "unat s = (if b = 0 then 1 else b)"
  shows "\<exists>T. GetNearest2Power s = Some T \<and>
    (b \<le> 32768 \<longrightarrow> (\<exists>k. unat T = 2 ^ k) \<and> 2 \<le> unat T \<and> b \<le> unat T \<and> unat T \<le> max 2 (2 * b - 1)) \<and>
    (32768 < b \<longrightarrow> T = 0)"
proof (cases "b \<le> 1")
  case True
  then have "unat s = 1" using us by auto
  then have "s = 1" by (simp add: word_unat_eq_iff)
  then have "GetNearest2Power s = Some 2" by (simp add: GetNearest2Power_def)
  moreover have "\<exists>k. unat (2 :: 16 word) = 2 ^ k" by (rule exI [of _ 1]) simp
  moreover have "unat (2 :: 16 word) = 2" by simp
  ultimately show ?thesis using True by (intro exI [of _ 2]) auto
next
  case False
  then have b: "1 < b" "unat s = b" using us by auto
  obtain f p where p: "GetNearest2Power s = Some p" "b \<le> 32768 \<longrightarrow> unat p = 2 ^ f \<and> b \<le> unat p \<and> unat p < 2 * b"
    "32768 < b \<longrightarrow> p = 0"
    using GetNearest2Power_result [of s] b(1) unfolding b(2) by blast
  have "2 \<le> unat p \<and> unat p \<le> max 2 (2 * b - 1)" if "b \<le> 32768"
    using p(2) that b(1) by linarith
  then show ?thesis using p by (intro exI [of _ p]) blast
qed

text \<open>The sizes the driver asks the kernel for, whatever its answers.\<close>

lemma alloc_sizes:
  assumes n: "n \<noteq> 0"
  shows "\<exists>r T X. fst (ipa_nati_alloc_table E n c) = (r, 36 * (unat T + unat X), T, X) \<and>
     (4 * unat n div 5 \<le> 32768 \<longrightarrow> (\<exists>k. unat T = 2 ^ k) \<and> 2 \<le> unat T \<and> 4 * unat n div 5 \<le> unat T \<and>
        unat T \<le> max 2 (2 * (4 * unat n div 5) - 1)) \<and>
     (32768 < 4 * unat n div 5 \<longrightarrow> T = 0) \<and>
     even (unat X) \<and> 2 \<le> unat X \<and> unat n div 5 \<le> unat X \<and> unat X \<le> unat n div 5 + 2"
proof -
  let ?b = "4 * unat n div 5" and ?x = "unat n div 5"
  define s where "s = (if base_share n = 0 then 1 else base_share n)"
  have n16: "unat n < 65536" by (rule unat16_less)
  have ub: "unat (base_share n) = ?b" unfolding base_share_def by (rule unat_of_nat16) (use n16 in simp)
  have "base_share n = 0 \<longleftrightarrow> ?b = 0" using ub by (metis unat_eq_0)
  then have us: "unat s = (if ?b = 0 then 1 else ?b)" using ub by (simp only: s_def split: if_split) simp
  have ux: "unat (expansion_share n) = ?x" unfolding expansion_share_def by (rule unat_of_nat16) (use n16 in simp)
  define X where "X = GetNearestEven (expansion_share n)"
  have X: "even (unat X)" "2 \<le> unat X" "?x \<le> unat X" "unat X \<le> ?x + 2"
    using GetNearestEven_result [of "expansion_share n"] ux n16 unfolding X_def by auto
  obtain T where T: "GetNearest2Power s = Some T"
    "?b \<le> 32768 \<Longrightarrow> (\<exists>k. unat T = 2 ^ k) \<and> 2 \<le> unat T \<and> ?b \<le> unat T \<and> unat T \<le> max 2 (2 * ?b - 1)"
    "32768 < ?b \<Longrightarrow> T = 0"
    using base_entries [OF us] by blast
  have TX: "unat (T + X) = unat T + unat X"
  proof -
    have "unat T \<le> 32768"
    proof (cases "?b \<le> 32768")
      case True
      then obtain k where "unat T = 2 ^ k" "unat T \<le> 65535" using T(2) by auto
      then have "(2 :: nat) ^ k < 2 ^ 16" by simp
      then have "k < 16" by (rule power_less_imp_less_exp [rotated]) simp
      then have "(2 :: nat) ^ k \<le> 2 ^ 15" by (intro power_increasing) auto
      then show ?thesis using \<open>unat T = 2 ^ k\<close> by simp
    qed (use T(3) in simp)
    moreover have "unat X \<le> 13109" using X(4) n16 by linarith
    ultimately show ?thesis by (simp add: unat_plus_if')
  qed
  have "\<exists>r. fst (ipa_nati_alloc_table E n c) = (r, 36 * (unat T + unat X), T, X)"
    using T(1) TX unfolding ipa_nati_alloc_table_def Let_def s_def [symmetric] X_def [symmetric]
    by (auto split: prod.splits if_splits)
  then show ?thesis using T(2,3) X by blast
qed


lemma chained_none: "(\<And>e. \<not> used e) \<Longrightarrow> chained T N used nx pv (\<lambda>_. [])"
  by (rule chainedI) simp_all

lemma fresh_tables_ok:
  assumes s: "shaped T N t m" and z: "\<And>e. rules_at T m e = zero_rule" "\<And>i. words_at T m i = 0" "\<And>k. ids_at t k = 0"
  shows "tables_ok T N dst t m (\<lambda>_. []) (\<lambda>_. [])"
proof -
  have live: "live (rules_at T m) = {}" by (simp add: live_def z(1))
  have no_word: "index_entry 0 = 0" by (simp add: Read16BitFieldValue_def)
  have "rules_inv T N dst (rules_at T m) (\<lambda>_. [])"
    by (rule rules_invI [OF chained_none]) (simp_all add: z(1) live)
  moreover have "index_inv T N {} ix src (words_at T m) P (\<lambda>_. [])" for ix src P
    by (rule index_invI [OF chained_none]) (simp_all add: z(2) no_word)
  moreover have "handles_inv T N {} (ids_at t)" by (simp add: handles_inv_def z(3))
  ultimately show ?thesis using s by (simp add: tables_ok_def live)
qed

lemma alloc_willing:
  assumes w: "willing c" and n: "n \<noteq> 0" "unat n \<le> 20480"
  shows "\<exists>T X c'. ipa_nati_alloc_table E n c = ((RET_0, 36 * (unat T + unat X), T, X), c') \<and>
     willing c' \<and> ip4_tbl c' = ip4_tbl c \<and> pdns c' = pdns c \<and> table_cnt c' = table_cnt c \<and>
     2 \<le> unat T \<and> unat T \<le> 16384 \<and> 2 \<le> unat X \<and> unat X \<le> 16384"
proof -
  obtain r T X where f: "fst (ipa_nati_alloc_table E n c) = (r, 36 * (unat T + unat X), T, X)"
    and b: "4 * unat n div 5 \<le> 32768 \<longrightarrow> (\<exists>k. unat T = 2 ^ k) \<and> 2 \<le> unat T \<and> 4 * unat n div 5 \<le> unat T \<and>
        unat T \<le> max 2 (2 * (4 * unat n div 5) - 1)"
      "2 \<le> unat X" "unat X \<le> unat n div 5 + 2"
    using alloc_sizes [OF n(1), of E c] by blast
  have "4 * unat n div 5 \<le> 16384" using n(2) by simp
  then obtain k where k: "unat T = 2 ^ k" "2 \<le> unat T" "unat T < 32768" using b(1) by auto
  have "(2 :: nat) ^ k < 2 ^ 15" using k by simp
  then have "k < 15" by (rule power_less_imp_less_exp [rotated]) simp
  then have "(2 :: nat) ^ k \<le> 2 ^ 14" by (intro power_increasing) auto
  then have T: "unat T \<le> 16384" using k(1) by simp
  let ?c1 = "if ipa_fd c = 0 then (later c)\<lparr>ipa_fd := opened_fd E\<rparr> else c"
  let ?c = "later ((later ?c1)\<lparr>ver := hw_version E\<rparr>)"
  have w1: "willing ?c1" using willing_later [OF w] w by (simp add: willing_def)
  have w2: "willing ((later ?c1)\<lparr>ver := hw_version E\<rparr>)" using willing_later [OF w1] by (simp add: willing_def)
  note w3 = willing_later [OF w2]
  define s where "s = (if base_share n = 0 then 1 else base_share n)"
  have "unat T \<noteq> 0" using k(2) by simp
  then have "GetNearest2Power s \<noteq> None"
    using f unfolding ipa_nati_alloc_table_def Let_def s_def [symmetric] by (auto split: option.splits)
  then obtain T' where T': "GetNearest2Power s = Some T'" by blast
  have "ipa_nati_alloc_table E n c = ((RET_0, snd (fst (ipa_nati_alloc_table E n c))), ?c)"
    using ask_willing [OF w1] ask_willing [OF w2]
    unfolding ipa_nati_alloc_table_def Let_def s_def [symmetric] T' option.case
    by (cases "ipa_fd c = 0") (simp_all add: ask_willing [OF w])
  then have "ipa_nati_alloc_table E n c = ((RET_0, 36 * (unat T + unat X), T, X), ?c)" using f by simp
  moreover have "ip4_tbl ?c = ip4_tbl c" "pdns ?c = pdns c" "table_cnt ?c = table_cnt c"
    by (simp_all add: later_def)
  moreover have "unat X \<le> 16384" using b(3) n(2) by linarith
  ultimately show ?thesis using w3 k(2) T b(2) by blast
qed


text \<open>
  A table of at most 20480 rules, created where there is none: it is in working order and holds no rule. Larger
  numbers give a base table above the limit of \<open>sized\<close>.
\<close>

definition no_table :: "nat_cache \<Rightarrow> bool" where
  "no_table c \<longleftrightarrow> ip4_tbl c = [zero_table] \<and> table_cnt c = 0 \<and> 0 < length (pdns c) \<and> length (pdns c) \<le> 16"

lemma rules_at_zero: "rules_at T \<lparr>ipv4_rules = replicate a zero_rule, ipv4_expn_rules = replicate b zero_rule,
    index_table = u, index_table_expn = v\<rparr> e = zero_rule"
  by (simp add: rules_at_def two_def at_def)

lemma words_at_zero: "words_at T \<lparr>ipv4_rules = u, ipv4_expn_rules = v, index_table = replicate a 0,
    index_table_expn = replicate b 0\<rparr> i = 0"
  by (simp add: words_at_def two_def at_def)

lemma create_spec:
  assumes k: "dma_contract E" and c: "no_table c" "willing c" and n: "n \<noteq> 0" "unat n \<le> 20480"
  shows "\<exists>c'. ipa_nat_add_ipv4_tbl E ip n c = Some ((RET_0, 1), c') \<and> nat_ok E c' \<and> willing c' \<and>
     nat_rules c' = Map.empty \<and> pdns c' = (pdns c)[0 := (pdns c ! 0)\<lparr>public_ip := ip\<rparr>] \<and> table_cnt c' = 1"
proof -
  have z: "ip4_tbl c = [zero_table]" "table_cnt c = 0" "0 < length (pdns c)" "length (pdns c) \<le> 16"
    using c(1) by (simp_all add: no_table_def)
  obtain T X c1 where a: "ipa_nati_alloc_table E n c = ((RET_0, 36 * (unat T + unat X), T, X), c1)"
    and c1: "willing c1" "ip4_tbl c1 = ip4_tbl c" "pdns c1 = pdns c" "table_cnt c1 = table_cnt c"
    and sizes: "2 \<le> unat T" "unat T \<le> 16384" "2 \<le> unat X" "unat X \<le> 16384"
    using alloc_willing [OF c(2) n] by blast
  define t1 where "t1 = (update_cache_fill E (36 * (unat T + unat X)) ip T X zero_table)
    \<lparr>index_expn_table_meta := Some (replicate (unat X) 0), rule_id_array := Some (replicate (unat T + unat X) 0)\<rparr>"
  let ?c2 = "later (later (later (later c1)))"
  let ?t2 = "set_mem (fresh_mapping E T X) t1"
  let ?m = "\<lparr>ipv4_rules = replicate (unat T) zero_rule, ipv4_expn_rules = replicate (unat X) zero_rule,
        index_table = replicate (unat T) 0, index_table_expn = replicate (unat X) 0\<rparr>"
  have w: "ask c1 = (True, later c1)" "ask (later c1) = (True, later (later c1))"
    "ask (later (later c1)) = (True, later (later (later c1)))" "ask (later (later (later c1))) = (True, ?c2)"
    using c1(1) by (simp_all add: ask_willing)
  have u: "ipa_nati_update_cache E (36 * (unat T + unat X)) ip T X c1 = Some (RET_0, set_tbl 0 ?t2 ?c2)"
    using z c1 w
    by (simp add: ipa_nati_update_cache_def update_cache_fill_def zero_table_def t1_def Let_def)
  have te: "table_entries t1 = T" "expn_table_entries t1 = X" by (simp_all add: t1_def update_cache_fill_def)
  have r: "ipa_nati_reset_tbl 0 (set_tbl 0 ?t2 ?c2) = Some (set_tbl 0 (set_mem ?m t1) ?c2)"
    using z(1) c1(2) te by (simp add: ipa_nati_reset_tbl_def)
  let ?c3 = "set_tbl 0 (set_mem ?m t1) ?c2"
  have p: "ipa_nati_post_ipv4_init_cmd ?c3 = (RET_0, later ?c3)"
    using ask_willing [of ?c3] c1(1) by (simp add: ipa_nati_post_ipv4_init_cmd_def)
  let ?c4 = "(later ?c3)\<lparr>pdns := (pdns c)[0 := (pdns c ! 0)\<lparr>public_ip := ip\<rparr>], table_cnt := 1\<rparr>"
  have run: "ipa_nat_add_ipv4_tbl E ip n c = Some ((RET_0, 1), ?c4)"
    using n(1) a u r p z c1
    by (simp add: ipa_nat_add_ipv4_tbl_def ipa_nati_add_ipv4_tbl_def rd_def Let_def)
  have shape: "shaped (unat T) (unat T + unat X) (set_mem ?m t1) ?m"
    using sizes k
    by (simp add: shaped_def sized_def lens_def te)
      (simp add: t1_def update_cache_fill_def dma_contract_def)
  have ids1: "ids_at t1 k = 0" for k by (simp add: ids_at_def t1_def at_def)
  then have ids: "ids_at (set_mem ?m t1) k = 0" for k by simp
  have "ip4_tbl ?c4 = [set_mem ?m t1]" using z(1) c1(2) by simp
  moreover from this have "nat_ok E ?c4"
    using z(4) by (intro nat_okI [OF _ _ fresh_tables_ok [OF shape rules_at_zero words_at_zero ids]]) simp_all
  moreover from calculation(1) have "nat_rules ?c4 = Map.empty"
    by (intro ext) (subst nat_rules_eq [OF _ shape], simp_all add: ids1)
  moreover have "willing (later ?c3)" using c1(1) by simp
  then have "willing ?c4" unfolding willing_def by simp
  ultimately show ?thesis using run by simp
qed


section \<open>Deleting the table\<close>

lemma del_table_spec:
  assumes ok: "nat_ok E c"
  shows "\<exists>r c' t. ipa_nat_del_ipv4_tbl 1 c = Some (r, c') \<and> ip4_tbl c' = [t] \<and> mapped (region t) = None \<and>
     pdns c' = pdns c \<and> (willing c \<longrightarrow> r = RET_0 \<and> t = zero_table \<and> table_cnt c' = table_cnt c - 1 \<and> willing c')"
proof -
  obtain t m T N C D where c: "ip4_tbl c = [t]"
    and tok: "tables_ok T N (dst_head E c (table_entries t)) t m C D"
    using ok by (auto simp: nat_ok_def)
  note sp = shaped_parts [OF tables_okD(1) [OF tok]]
  let ?t = "t\<lparr>region := UNMAPPED\<rparr>" and ?c = "set_tbl 0 (t\<lparr>region := UNMAPPED\<rparr>) c"
  have z: "mapped (region zero_table) = None" by (simp add: zero_table_def)
  have run: "ipa_nat_del_ipv4_tbl 1 c =
    (if \<not> answer ?c then Some (EINVAL, later ?c)
     else if \<not> answer (later ?c) then Some (EINVAL, later (later ?c))
     else Some (RET_0, (set_tbl 0 zero_table (later (later ?c)))\<lparr>table_cnt := table_cnt c - 1\<rparr>))"
    using c sp(2,4) by (simp add: ipa_nat_del_ipv4_tbl_def bad_tbl_hdl_def ipa_nati_del_ipv4_table_def ask_later)
  have wl: "answer ?c \<and> answer (later ?c) \<and> willing (later (later ?c))" if "willing c"
    using that by (simp add: willing_answer)
  show ?thesis
  proof (cases "answer ?c \<and> answer (later ?c)")
    case True
    let ?r = "(set_tbl 0 zero_table (later (later ?c)))\<lparr>table_cnt := table_cnt c - 1\<rparr>"
    have "ip4_tbl ?r = [zero_table]" "pdns ?r = pdns c" using c by simp_all
    moreover have "willing ?r" if "willing c" using wl [OF that] by (simp add: willing_def)
    ultimately show ?thesis using run True z by auto
  next
    case False
    then have "\<not> willing c" using wl by blast
    moreover have "ip4_tbl (later ?c) = [?t]" "ip4_tbl (later (later ?c)) = [?t]"
      "pdns (later ?c) = pdns c" "pdns (later (later ?c)) = pdns c" using c by simp_all
    ultimately show ?thesis using run False by (cases "answer ?c") auto
  qed
qed

lemma add_unmapped:
  assumes "ip4_tbl c = [t]" "mapped (region t) = None" "pdn_ready c clnt"
  shows "ipa_nat_add_ipv4_rule E 1 (Some clnt) c = None"
  using assms
  by (simp add: ipa_nat_add_ipv4_rule_def bad_tbl_hdl_def ipa_nati_add_ipv4_rule_def pdn_ready_def
      ipa_nati_generate_rule_def ipa_nati_generate_tbl_rule_def Let_def)

section \<open>Following a chain\<close>

lemma seg_reaches: "seg nx pv a xs z \<Longrightarrow> e \<in> set (a # xs) \<Longrightarrow> \<exists>k. (nx ^^ k) a = e"
proof (induction xs arbitrary: a)
  case (Cons x xs)
  show ?case
  proof (cases "e = a")
    case False
    then have "e \<in> set (x # xs)" "seg nx pv x xs z" "nx a = x" using Cons.prems by auto
    then obtain k where "(nx ^^ k) x = e" using Cons.IH by blast
    then have "(nx ^^ Suc k) a = e" using \<open>nx a = x\<close> by (simp add: funpow_swap1)
    then show ?thesis by blast
  qed (rule exI [of _ 0], simp)
qed (rule exI [of _ 0], simp)

lemma chained_reaches:
  assumes "chained T N used nx pv C" "e \<in> set (C b)"
  shows "\<exists>k. (nx ^^ k) b = e"
proof -
  have "C b \<noteq> []" using assms(2) by auto
  then obtain xs where "C b = b # xs" "seg nx pv b xs 0" using chained_head [OF assms(1)] by blast
  then show ?thesis using seg_reaches [of nx pv b xs 0 e] assms(2) by auto
qed

lemma live_reached:
  assumes ok: "nat_ok E c" and h: "nat_rules c h = Some clnt" and c: "ip4_tbl c = [t]" "region t = MAPPED m"
    and T: "T = unat (table_entries t)"
  shows "\<exists>e j k. ((\<lambda>x. unat (rule_next (rules_at T m x))) ^^ k) (dst_head E c (table_entries t) clnt) = e \<and>
     rule_enabled (rules_at T m e) \<noteq> 0 \<and> rule_client (rules_at T m e) = clnt \<and>
     unat (index_entry (words_at T m
       (((\<lambda>x. unat (index_next (words_at T m x))) ^^ j) (src_head (table_entries t) clnt)))) = e"
proof -
  obtain t0 m0 T0 N C D where c0: "ip4_tbl c = [t0]"
    and tok0: "tables_ok T0 N (dst_head E c (table_entries t0)) t0 m0 C D"
    using ok by (auto simp: nat_ok_def)
  have "t0 = t" using c0 c by simp
  moreover have "m0 = m" "T0 = T"
    using shaped_parts(2,5) [OF tables_okD(1) [OF tok0]] c(2) T \<open>t0 = t\<close> by simp_all
  ultimately have tok: "tables_ok T N (dst_head E c (table_entries t)) t m C D" using tok0 by simp
  let ?R = "rules_at T m"
  obtain id where id: "id \<noteq> 0" "id = ids_at t (h - 1)" and cl: "rule_client (?R (entry_of T id)) = clnt"
    using h nat_rules_eq [OF c(1) tables_okD(1) [OF tok], of h] by (auto split: if_splits)
  let ?e = "entry_of T id"
  have e: "?e \<in> live ?R" using tables_okD(4) [OF tok] id by (auto simp: handles_inv_def)
  note inv = tables_okD(2) [OF tok] and xinv = tables_okD(3) [OF tok]
  obtain k where k: "((\<lambda>x. unat (rule_next (?R x))) ^^ k) (dst_head E c (table_entries t) clnt) = ?e"
    using chained_reaches [OF rules_inv_parts(1) [OF inv] rules_inv_parts(3) [OF inv e]] cl by auto
  note x = index_inv_parts(2) [OF xinv e]
  obtain j where "((\<lambda>x. unat (index_next (words_at T m x))) ^^ j) (src_head (table_entries t) clnt) =
      unat (rule_index (?R ?e))"
    using chained_reaches [OF index_inv_parts(1) [OF xinv] x [THEN conjunct2]] cl by auto
  then have "unat (index_entry (words_at T m
       (((\<lambda>x. unat (index_next (words_at T m x))) ^^ j) (src_head (table_entries t) clnt)))) = ?e"
    using x by simp
  then show ?thesis using k cl live_enabled [OF e] by blast
qed

end
