(* ===== verification/NatProps.thy ===== *)
theory NatProps
  imports NatLife RuleStore
begin

text \<open>
  The NAT driver provides the contract of \<open>RuleStore\<close>, and what that and the theories below it say of the driver's
  interface: additions, deletions, the table's sizes and its end, and where errors outside leave a table that is broken.
\<close>

section \<open>The driver as a store of rules\<close>

text \<open>
  The store's requests on the driver: \<open>Added\<close> with the handle when the addition returns 0, \<open>Deleted\<close> when the
  deletion does.
\<close>

definition nat_serve :: "nat_env \<Rightarrow> ipa_nat_ipv4_rule store_request \<Rightarrow> nat_cache \<Rightarrow> (store_reply \<times> nat_cache) option" where
  "nat_serve E q c = (case q of
     Add_rule clnt \<Rightarrow> do {
       ((r, h), c) \<leftarrow> ipa_nat_add_ipv4_rule E 1 (Some clnt) c;
       Some (case h of Some h \<Rightarrow> if r = RET_0 then Added (unat h) else Refused | None \<Rightarrow> Refused, c) }
   | Del_rule h \<Rightarrow> do {
       (r, c) \<leftarrow> ipa_nat_del_ipv4_rule E 1 (of_nat h) c;
       Some (if r = RET_0 then Deleted else Refused, c) })"

text \<open>A handle has 16 bits and is not 0; protocol 255 marks dead entries and is not a client's.\<close>

fun nat_allowed :: "ipa_nat_ipv4_rule store_request \<Rightarrow> bool" where
  "nat_allowed (Add_rule clnt) = (cl_protocol clnt \<noteq> 0xFF)"
| "nat_allowed (Del_rule h) = (0 < h \<and> h < 65536)"

definition nat_ready :: "nat_env \<Rightarrow> nat_cache \<Rightarrow> bool" where
  "nat_ready E c \<longleftrightarrow> dma_contract E \<and> nat_ok E c \<and> willing c"

lemma serve_add_law:
  assumes r: "nat_ready E c" and a: "cl_protocol clnt \<noteq> 0xFF"
  shows "\<exists>a c'. nat_serve E (Add_rule clnt) c = Some (a, c') \<and> nat_ready E c' \<and>
     store_step (Add_rule clnt) a (nat_rules c) = Some (nat_rules c')"
proof -
  obtain r h c' where add: "ipa_nati_add_ipv4_rule E 1 clnt c = Some ((r, h), c')" "nat_ok E c'" "willing c'"
    and res: "(r = RET_0 \<and> pdn_ready c clnt \<and> (\<exists>hdl. h = Some hdl \<and> hdl \<noteq> 0 \<and> nat_rules c (unat hdl) = None \<and>
          nat_rules c' = (nat_rules c)(unat hdl \<mapsto> clnt))) \<or>
        (r = EINVAL \<and> c' = c \<and> (\<not> pdn_ready c clnt \<or> expansion_full c))"
    using add_rule_spec [of E c clnt] assms unfolding nat_ready_def by blast
  have api: "ipa_nat_add_ipv4_rule E 1 (Some clnt) c = Some ((if r \<noteq> RET_0 then EINVAL else RET_0, h), c')"
    using add(1) by (simp add: ipa_nat_add_ipv4_rule_def bad_tbl_hdl_def)
  have ready: "nat_ready E c'" using assms(1) add(2,3) by (simp add: nat_ready_def)
  from res show ?thesis
  proof
    assume "r = RET_0 \<and> pdn_ready c clnt \<and> (\<exists>hdl. h = Some hdl \<and> hdl \<noteq> 0 \<and> nat_rules c (unat hdl) = None \<and>
          nat_rules c' = (nat_rules c)(unat hdl \<mapsto> clnt))"
    then show ?thesis using api ready by (auto simp: nat_serve_def)
  next
    assume "r = EINVAL \<and> c' = c \<and> (\<not> pdn_ready c clnt \<or> expansion_full c)"
    then show ?thesis using api ready by (cases h) (simp_all add: nat_serve_def)
  qed
qed

lemma of_nat_handle: "h < 65536 \<Longrightarrow> unat (of_nat h :: 32 word) = h"
  by (rule unat_of_nat32) simp

lemma serve_del_law:
  assumes r: "nat_ready E c" and a: "0 < h" "h < 65536"
  shows "\<exists>a c'. nat_serve E (Del_rule h) c = Some (a, c') \<and> nat_ready E c' \<and>
     store_step (Del_rule h) a (nat_rules c) = Some (nat_rules c')"
proof -
  let ?h = "of_nat h :: 32 word"
  have h: "unat ?h = h" by (rule of_nat_handle [OF a(2)])
  then have h0: "?h \<noteq> 0" using a(1) by auto
  obtain r c' where del: "ipa_nati_del_ipv4_rule E 1 ?h c = Some (r, c')" "nat_ok E c'" "willing c'"
    and res: "(r = RET_0 \<and> nat_rules c h \<noteq> None \<and> nat_rules c' = (nat_rules c)(h := None)) \<or>
      (r = EINVAL \<and> nat_rules c' = nat_rules c \<and> nat_rules c h = None)"
    using del_rule_spec [of E c ?h] assms h h0 unfolding nat_ready_def by auto
  have "ipa_nat_del_ipv4_rule E 1 ?h c = Some (r, c')"
    using del(1) h0 by (simp add: ipa_nat_del_ipv4_rule_def)
  moreover have "nat_ready E c'" using assms(1) del(2,3) by (simp add: nat_ready_def)
  ultimately show ?thesis using res by (auto simp: nat_serve_def)
qed

interpretation nat_driver: rule_store "nat_ready E" nat_rules nat_allowed "nat_serve E" for E
proof
  fix c q
  assume "nat_ready E c" "nat_allowed q"
  then show "\<exists>a c'. nat_serve E q c = Some (a, c') \<and> nat_ready E c' \<and> store_step q a (nat_rules c) = Some (nat_rules c')"
    by (cases q) (simp_all add: serve_add_law serve_del_law)
qed

definition nat_session ::
    "nat_env \<Rightarrow> 32 word \<Rightarrow> 16 word \<Rightarrow> ipa_nat_ipv4_rule store_request list \<Rightarrow> nat_cache
     \<Rightarrow> (store_reply list \<times> nat_cache) option" where
  "nat_session E ip n qs c = do {
     (_, c) \<leftarrow> ipa_nat_add_ipv4_tbl E ip n c;
     serve_all (nat_serve E) qs c }"

section \<open>An environment\<close>

text \<open>The kernel of the witnesses: it carries out each command and maps zeroed memory.\<close>

definition plain_kernel :: nat_env where
  "plain_kernel = \<lparr>dma_write = fold dma_at, opened_fd = 3, hw_version = 1, mem_offset = 0,
     mapped_rule = (\<lambda>_. zero_rule), mapped_index = (\<lambda>_. 0), IPA_HW_v4_0 = 10\<rparr>"

definition a_rule :: "nat \<Rightarrow> ipa_nat_ipv4_rule" where
  "a_rule k = \<lparr>cl_target_ip = 0, cl_private_ip = of_nat k, cl_target_port = 4, cl_private_port = 7,
     cl_public_port = of_nat (16 * k), cl_protocol = 6, cl_pdn_index = 0\<rparr>"

lemma plain_kernel_contract: "dma_contract plain_kernel"
  by (simp add: dma_contract_def plain_kernel_def)

lemma start_facts: "no_table (nat_start 5)" "willing (nat_start 5)"
  by (simp_all add: no_table_def nat_start_def willing_def)

lemma a_rule_protocol: "cl_protocol (a_rule k) \<noteq> 0xFF"
  by (simp add: a_rule_def)

lemma created:
  obtains c where "ipa_nat_add_ipv4_tbl plain_kernel 1 5 (nat_start 5) = Some ((RET_0, 1), c)"
    "nat_ok plain_kernel c" "willing c" "nat_rules c = Map.empty" "pdn_ready c (a_rule k)"
proof -
  obtain c where c: "ipa_nat_add_ipv4_tbl plain_kernel 1 5 (nat_start 5) = Some ((RET_0, 1), c)"
    "nat_ok plain_kernel c" "willing c" "nat_rules c = Map.empty"
    "pdns c = (pdns (nat_start 5))[0 := (pdns (nat_start 5) ! 0)\<lparr>public_ip := 1\<rparr>]"
    using create_spec [OF plain_kernel_contract start_facts, of 5 1] by auto
  have "pdn_ready c (a_rule k)"
    unfolding pdn_ready_def c(5) by (simp add: a_rule_def nat_start_def)
  then show ?thesis using c(1-4) that by blast
qed

section \<open>Properties\<close>

lemma nat_session_ready:
  assumes "dma_contract E" "no_table c" "willing c" "n \<noteq> 0" "unat n \<le> 20480" "\<forall>q\<in>set qs. nat_allowed q"
    and "nat_session E ip n qs c = Some (as, c')"
  shows "nat_ready E c' \<and> replay qs as Map.empty = Some (nat_rules c')"
proof -
  obtain c1 where c1: "ipa_nat_add_ipv4_tbl E ip n c = Some ((RET_0, 1), c1)" "nat_rules c1 = Map.empty"
    "nat_ready E c1"
    using create_spec [OF assms(1-5)] assms(1) unfolding nat_ready_def by blast
  then have "serve_all (nat_serve E) qs c1 = Some (as, c')" using assms(7) by (simp add: nat_session_def)
  then show ?thesis using nat_driver.runs_refine [OF c1(3) assms(6)] c1(2) by auto
qed

lemma nat_session_total:
  assumes "dma_contract E" "no_table c" "willing c" "n \<noteq> 0" "unat n \<le> 20480" "\<forall>q\<in>set qs. nat_allowed q"
  shows "\<exists>as c'. nat_session E ip n qs c = Some (as, c')"
proof -
  obtain c1 where c1: "ipa_nat_add_ipv4_tbl E ip n c = Some ((RET_0, 1), c1)" "nat_ready E c1"
    using create_spec [OF assms(1-5)] assms(1) unfolding nat_ready_def by blast
  then show ?thesis using nat_driver.runs_refine [OF c1(2) assms(6)] by (auto simp: nat_session_def)
qed

text \<open>
  C30: The driver is a map from handles to rules. Whatever sequence of additions and deletions follows the creation of
  a table of at most 20480 rules, while the calls outside succeed: no operation reads or writes outside an array or
  loops, every handle given out was free, a deletion succeeds exactly when its handle is in use, and the rules held at
  the end are those that were added and not deleted, under their handles.
\<close>
theorem nat_session_refines:
  assumes "dma_contract E" "no_table c" "willing c" "n \<noteq> 0" "unat n \<le> 20480" "\<forall>q\<in>set qs. nat_allowed q"
  shows "\<exists>as c'. nat_session E ip n qs c = Some (as, c') \<and> nat_ready E c' \<and>
    replay qs as Map.empty = Some (nat_rules c') \<and> dom (nat_rules c') = handles_out qs as {}"
proof -
  obtain as c' where run: "nat_session E ip n qs c = Some (as, c')" using nat_session_total [OF assms] by blast
  note r = nat_session_ready [OF assms run]
  have "dom (nat_rules c') = handles_out qs as {}" using replay_dom [OF r [THEN conjunct2]] by simp
  then show ?thesis using run r by blast
qed

theorem nat_session_refines_witness:
  "\<exists>as c'. nat_session plain_kernel 1 5 [Add_rule (a_rule 0), Add_rule (a_rule 1), Del_rule 1] (nat_start 5) =
     Some (as, c') \<and> nat_ready plain_kernel c' \<and>
     replay [Add_rule (a_rule 0), Add_rule (a_rule 1), Del_rule 1] as Map.empty = Some (nat_rules c') \<and>
     dom (nat_rules c') = handles_out [Add_rule (a_rule 0), Add_rule (a_rule 1), Del_rule 1] as {}"
  by (rule nat_session_refines [OF plain_kernel_contract start_facts]) (simp_all add: a_rule_protocol)

text \<open>
  C31: Every rule the driver holds is found from its hashes. After any such session, following the next indexes from
  the head that the destination hash of the rule names leads to an enabled entry with that rule, and following those
  of the index tables from the head of its source hash leads to an index entry that names the same rule entry.
\<close>
theorem nat_rules_reachable:
  assumes "dma_contract E" "no_table c" "willing c" "n \<noteq> 0" "unat n \<le> 20480" "\<forall>q\<in>set qs. nat_allowed q"
    and "nat_session E ip n qs c = Some (as, c')" "nat_rules c' h = Some clnt"
    and "ip4_tbl c' = [t]" "region t = MAPPED m"
  shows "\<exists>e j k. let T = unat (table_entries t) in
    ((\<lambda>x. unat (rule_next (rules_at T m x))) ^^ k) (dst_head E c' (table_entries t) clnt) = e \<and>
    rule_enabled (rules_at T m e) \<noteq> 0 \<and> rule_client (rules_at T m e) = clnt \<and>
    unat (index_entry (words_at T m
      (((\<lambda>x. unat (index_next (words_at T m x))) ^^ j) (src_head (table_entries t) clnt)))) = e"
proof -
  have "nat_ok E c'"
    using nat_session_ready [OF assms(1-7)] by (simp add: nat_ready_def)
  from live_reached [OF this assms(8-10) refl] show ?thesis by (simp add: Let_def)
qed

lemma short_session:
  obtains c t m where "nat_session plain_kernel 1 5 [Add_rule (a_rule 0)] (nat_start 5) = Some ([Added 1], c)"
    "nat_rules c 1 = Some (a_rule 0)" "ip4_tbl c = [t]" "region t = MAPPED m" "nat_ready plain_kernel c"
proof -
  have allowed: "\<forall>q\<in>set [Add_rule (a_rule 0)]. nat_allowed q" by (simp add: a_rule_protocol)
  have "map_option fst (nat_session plain_kernel 1 5 [Add_rule (a_rule 0)] (nat_start 5)) = Some [Added 1]"
    by code_simp
  then obtain c where c: "nat_session plain_kernel 1 5 [Add_rule (a_rule 0)] (nat_start 5) = Some ([Added 1], c)"
    by auto
  have n5: "(5 :: 16 word) \<noteq> 0" "unat (5 :: 16 word) \<le> 20480" by simp_all
  note r = nat_session_ready [OF plain_kernel_contract start_facts n5 allowed c]
  then obtain t m where "ip4_tbl c = [t]" "region t = MAPPED m"
    unfolding nat_ready_def nat_ok_def tables_ok_def shaped_def by blast
  moreover from r have "nat_rules c = [1 \<mapsto> a_rule 0]" by simp
  then have "nat_rules c 1 = Some (a_rule 0)" by simp
  ultimately show ?thesis using that c r by blast
qed

theorem nat_rules_reachable_witness:
  "\<exists>c t m e j k. nat_session plain_kernel 1 5 [Add_rule (a_rule 0)] (nat_start 5) = Some ([Added 1], c) \<and>
    nat_rules c 1 = Some (a_rule 0) \<and> ip4_tbl c = [t] \<and> region t = MAPPED m \<and>
    (let T = unat (table_entries t) in
      ((\<lambda>x. unat (rule_next (rules_at T m x))) ^^ k) (dst_head plain_kernel c (table_entries t) (a_rule 0)) = e \<and>
      rule_enabled (rules_at T m e) \<noteq> 0 \<and> rule_client (rules_at T m e) = a_rule 0 \<and>
      unat (index_entry (words_at T m
        (((\<lambda>x. unat (index_next (words_at T m x))) ^^ j) (src_head (table_entries t) (a_rule 0))))) = e)"
proof -
  obtain c t m where c: "nat_session plain_kernel 1 5 [Add_rule (a_rule 0)] (nat_start 5) = Some ([Added 1], c)"
    "nat_rules c 1 = Some (a_rule 0)" "ip4_tbl c = [t]" "region t = MAPPED m"
    using short_session by blast
  have "\<forall>q\<in>set [Add_rule (a_rule 0)]. nat_allowed q" by (simp add: a_rule_protocol)
  from nat_rules_reachable [OF plain_kernel_contract start_facts _ _ this c] show ?thesis using c by auto
qed



text \<open>
  C33: What a deletion does, whatever the calls outside answer. Either it returns 0 and exactly the rule of the handle
  is gone; or it returns \<open>-EINVAL\<close>, every rule is still held under its handle, and the handle named no rule or a
  call outside failed. In both cases the tables are in working order.
\<close>
theorem nat_delete_exact:
  assumes "dma_contract E" "nat_ok E c" "hdl \<noteq> 0" "unat hdl < 65536"
  shows "\<exists>r c'. ipa_nat_del_ipv4_rule E 1 hdl c = Some (r, c') \<and> nat_ok E c' \<and>
    (r = RET_0 \<and> nat_rules c (unat hdl) \<noteq> None \<and> nat_rules c' = (nat_rules c)(unat hdl := None) \<or>
     r = EINVAL \<and> nat_rules c' = nat_rules c \<and> (nat_rules c (unat hdl) = None \<or> \<not> willing c))"
  using del_rule_spec [OF assms] assms(3) by (simp add: ipa_nat_del_ipv4_rule_def) blast

theorem nat_delete_exact_witness:
  "\<exists>c r c'. ipa_nat_del_ipv4_rule plain_kernel 1 1 c = Some (r, c') \<and> nat_rules c 1 = Some (a_rule 0) \<and>
    nat_ok plain_kernel c' \<and>
    (r = RET_0 \<and> nat_rules c (unat (1 :: 32 word)) \<noteq> None \<and> nat_rules c' = (nat_rules c)(unat (1 :: 32 word) := None) \<or>
     r = EINVAL \<and> nat_rules c' = nat_rules c \<and> (nat_rules c (unat (1 :: 32 word)) = None \<or> \<not> willing c))"
proof -
  obtain c where c: "nat_ready plain_kernel c" "nat_rules c 1 = Some (a_rule 0)" using short_session by metis
  have ok: "nat_ok plain_kernel c" using c(1) by (simp add: nat_ready_def)
  have "(1 :: 32 word) \<noteq> 0" "unat (1 :: 32 word) < 65536" by simp_all
  from nat_delete_exact [OF plain_kernel_contract ok this] show ?thesis using c(2) by blast
qed

text \<open>
  The sizes of a table. For every number of rules the base table gets a power of two of entries that holds four
  fifths of it and is less than twice that (2 at least), the expansion an even number that holds a fifth; from four
  fifths above 32768 on the power of two no longer fits its 16 bits and the base table has no entry at all.
\<close>
lemma table_sizes:
  assumes "n \<noteq> 0"
  shows "\<exists>r T X. fst (ipa_nati_alloc_table E n c) = (r, 36 * (unat T + unat X), T, X) \<and>
    (4 * unat n div 5 \<le> 32768 \<longrightarrow> (\<exists>k. unat T = 2 ^ k) \<and> 2 \<le> unat T \<and> 4 * unat n div 5 \<le> unat T \<and>
       unat T \<le> max 2 (2 * (4 * unat n div 5) - 1)) \<and>
    (32768 < 4 * unat n div 5 \<longrightarrow> T = 0) \<and>
    even (unat X) \<and> 2 \<le> unat X \<and> unat n div 5 \<le> unat X \<and> unat X \<le> unat n div 5 + 2"
  by (rule alloc_sizes [OF assms])

text \<open>
  Changing a packet network. An index up to the number of networks passes the check: below it the entry is
  stored, above it the call is refused, and the number itself makes the driver write behind its array once the
  kernel has accepted the change.
\<close>
lemma modify_pdn_exact:
  "ipa_nat_modify_pdn 1 idx (Some entry) c =
     (if length (pdns c) < unat idx then Some (EINVAL, c)
      else if \<not> answer c then Some (EIO, later c)
      else if unat idx = length (pdns c) then None
      else Some (RET_0, (later c)\<lparr>pdns := (pdns c)[unat idx := entry]\<rparr>))"
  by (simp add: ipa_nat_modify_pdn_def bad_tbl_hdl_def ipa_nati_modify_pdn_def ask_later wr_def)

text \<open>
  No rule can be added after the table was deleted. Whether the deletion succeeds or fails, the table is unmapped
  and the driver does not look at that: the next addition for a configured packet network reads unmapped memory.
\<close>
lemma add_after_table_deleted:
  assumes "nat_ok E c" "pdn_ready c clnt"
  shows "\<exists>r c'. ipa_nat_del_ipv4_tbl 1 c = Some (r, c') \<and> (willing c \<longrightarrow> r = RET_0) \<and>
    ipa_nat_add_ipv4_rule E 1 (Some clnt) c' = None"
proof -
  obtain r c' t where d: "ipa_nat_del_ipv4_tbl 1 c = Some (r, c')" "ip4_tbl c' = [t]" "mapped (region t) = None"
    "pdns c' = pdns c" "willing c \<longrightarrow> r = RET_0"
    using del_table_spec [OF assms(1)] by blast
  have "pdn_ready c' clnt" using assms(2) d(4) by (simp add: pdn_ready_def)
  then show ?thesis using add_unmapped [OF d(2,3)] d(1,5) by blast
qed

text \<open>The additions of rules with answers of the outside for each, on a table of 20 rules.\<close>

fun nat_adds :: "(nat \<times> bool list) list \<Rightarrow> nat_cache \<Rightarrow> (nat_ret list \<times> nat_cache) option" where
  "nat_adds [] c = Some ([], c)"
| "nat_adds ((k, as) # qs) c = do {
     ((r, _), c) \<leftarrow> ipa_nat_add_ipv4_rule plain_kernel 1 (Some (a_rule k)) (c\<lparr>answers := as\<rparr>);
     (rs, c) \<leftarrow> nat_adds qs c;
     Some (r # rs, c) }"

definition poisoned :: "(nat_ret list \<times> nat_cache) option" where
  "poisoned = do {
     (_, c) \<leftarrow> ipa_nat_add_ipv4_tbl plain_kernel 1 20 (nat_start 5);
     nat_adds [(0, []), (1, [True, True, True, False]), (2, []), (3, [])] c }"

definition expansion_links :: "nat_cache \<Rightarrow> (16 word \<times> 16 word) list" where
  "expansion_links c = (case ip4_tbl c of
     t # _ \<Rightarrow> (case region t of MAPPED m \<Rightarrow> map (\<lambda>r. (rule_enabled r, rule_next r)) (ipv4_expn_rules m) | _ \<Rightarrow> [])
   | [] \<Rightarrow> [])"

text \<open>
  A failed addition breaks its chain. When the kernel refuses to enable a rule that was already linked to the end
  of its chain, the entry stays linked and free: the next addition to that chain takes it again, links it to itself
  (entry 17 here, the first of the expansion) and succeeds, and every later addition to that chain is refused although
  entries 18 and 19 are free.
\<close>
lemma failed_enable_poisons_chain:
  "map_option (\<lambda>(rs, c). (rs, expansion_links c)) poisoned =
     Some ([RET_0, EINVAL, RET_0, EINVAL], [(0, 0), (1, 17), (0, 0), (0, 0)])"
  by code_simp

end
