(* ===== verification/RuleSlots.thy ===== *)
theory RuleSlots
  imports RuleStore
begin

text \<open>
  The client's side of a rule store: a table of slots, each empty or holding a handle and the rule added under it, that
  agrees with the store. What the client does to a slot when the store answers keeps the agreement.
\<close>

definition slots_agree :: "(nat \<times> 'r) option list \<Rightarrow> (nat \<rightharpoonup> 'r) \<Rightarrow> bool" where
  "slots_agree xs m \<longleftrightarrow> (\<forall>h r. m h = Some r \<longleftrightarrow> Some (h, r) \<in> set xs) \<and>
     (\<forall>i j h r r'. i < length xs \<longrightarrow> j < length xs \<longrightarrow> xs ! i = Some (h, r) \<longrightarrow> xs ! j = Some (h, r') \<longrightarrow> i = j)"

lemma slots_held: "slots_agree xs m \<Longrightarrow> i < length xs \<Longrightarrow> xs ! i = Some (h, r) \<Longrightarrow> m h = Some r"
  unfolding slots_agree_def by (metis nth_mem)

lemma slots_apart:
  "slots_agree xs m \<Longrightarrow> i < length xs \<Longrightarrow> j < length xs \<Longrightarrow> xs ! i = Some (h, r) \<Longrightarrow> xs ! j = Some (h, r') \<Longrightarrow> i = j"
  unfolding slots_agree_def by blast

lemma slots_known: "slots_agree xs m \<Longrightarrow> m h = Some r \<Longrightarrow> \<exists>i<length xs. xs ! i = Some (h, r)"
  unfolding slots_agree_def by (metis in_set_conv_nth)

lemma slots_empty: "set xs \<subseteq> {None} \<Longrightarrow> slots_agree xs Map.empty"
  unfolding slots_agree_def by (auto dest: nth_mem)

lemma slots_add:
  assumes a: "slots_agree xs m" and i: "i < length xs" "xs ! i = None" and h: "m h = None"
  shows "slots_agree (xs[i := Some (h, r)]) (m(h \<mapsto> r))"
proof -
  have new: "xs ! j \<noteq> Some (h, r')" if "j < length xs" for j r'
    using slots_held [OF a that, of h r'] h by auto
  have "Some (k, q) \<in> set (xs[i := Some (h, r)]) \<longleftrightarrow> (m(h \<mapsto> r)) k = Some q" for k q
  proof -
    have "Some (k, q) \<in> set xs \<longleftrightarrow> m k = Some q" using a by (auto simp: slots_agree_def)
    moreover have "Some (k, q) \<in> set (xs[i := Some (h, r)]) \<longleftrightarrow> (k, q) = (h, r) \<or> Some (k, q) \<in> set xs"
      using i by (auto simp: in_set_conv_nth nth_list_update) (metis option.distinct(1))
    ultimately show ?thesis using h by auto
  qed
  moreover have "j = k" if l: "j < length xs" "k < length xs" and e: "(xs[i := Some (h, r)]) ! j = Some (g, p)"
      "(xs[i := Some (h, r)]) ! k = Some (g, p')" for j k g p p'
  proof (cases "j = i \<or> k = i")
    case True
    then have "g = h" using e i(1) by (auto simp: nth_list_update split: if_splits)
    then have "j = i \<and> k = i" using e new [OF l(1), of p] new [OF l(2), of p'] by (metis nth_list_update_neq)
    then show ?thesis by simp
  next
    case False
    then show ?thesis using slots_apart [OF a l, of g p p'] e by simp
  qed
  ultimately show ?thesis unfolding slots_agree_def by simp
qed

lemma slots_del:
  assumes a: "slots_agree xs m" and i: "i < length xs" "xs ! i = Some (h, r)"
  shows "slots_agree (xs[i := None]) (m(h := None))"
proof -
  have one: "j = i" if "j < length xs" "xs ! j = Some (h, r')" for j r'
    using slots_apart [OF a that(1) i(1) that(2) i(2)] .
  have "Some (k, q) \<in> set (xs[i := None]) \<longleftrightarrow> (m(h := None)) k = Some q" for k q
  proof -
    have "Some (k, q) \<in> set xs \<longleftrightarrow> m k = Some q" using a by (auto simp: slots_agree_def)
    moreover have "Some (k, q) \<in> set (xs[i := None]) \<longleftrightarrow> Some (k, q) \<in> set xs \<and> k \<noteq> h"
    proof
      assume "Some (k, q) \<in> set (xs[i := None])"
      then obtain j where j: "j < length xs" "(xs[i := None]) ! j = Some (k, q)" by (auto simp: in_set_conv_nth)
      then have "j \<noteq> i" using i(1) by auto
      then have "xs ! j = Some (k, q)" using j(2) by simp
      then show "Some (k, q) \<in> set xs \<and> k \<noteq> h" using j(1) one \<open>j \<noteq> i\<close> nth_mem [OF j(1)] by auto
    next
      assume k: "Some (k, q) \<in> set xs \<and> k \<noteq> h"
      then obtain j where j: "j < length xs" "xs ! j = Some (k, q)" by (auto simp: in_set_conv_nth)
      then have "j \<noteq> i" using k i(2) by auto
      then have "(xs[i := None]) ! j = Some (k, q)" using j(2) by simp
      then show "Some (k, q) \<in> set (xs[i := None])" using j(1) by (metis length_list_update nth_mem)
    qed
    ultimately show ?thesis by auto
  qed
  moreover have "j = k" if l: "j < length xs" "k < length xs" and e: "(xs[i := None]) ! j = Some (g, p)"
      "(xs[i := None]) ! k = Some (g, p')" for j k g p p'
  proof -
    have "j \<noteq> i" "k \<noteq> i" using e i(1) by auto
    then show ?thesis using slots_apart [OF a l, of g p p'] e by simp
  qed
  ultimately show ?thesis unfolding slots_agree_def by simp
qed

text \<open>A store that accepts the deletion of every handle in use.\<close>

locale closed_store = rule_store +
  assumes held_allowed: "ok c \<Longrightarrow> rules c h \<noteq> None \<Longrightarrow> allowed (Del_rule h)"
begin

lemma add_slot:
  assumes "ok c" "allowed (Add_rule r)" "slots_agree xs (rules c)" "i < length xs" "xs ! i = None"
  shows "\<exists>a c'. serve (Add_rule r) c = Some (a, c') \<and> ok c' \<and>
     (a = Refused \<and> slots_agree xs (rules c') \<or>
      (\<exists>h. a = Added h \<and> slots_agree (xs[i := Some (h, r)]) (rules c')))"
proof -
  obtain a c' where 1: "serve (Add_rule r) c = Some (a, c')" "ok c'"
    "store_step (Add_rule r) a (rules c) = Some (rules c')"
    using serve_law [OF assms(1,2)] by blast
  show ?thesis
  proof (cases a)
    case (Added h)
    then have "rules c h = None" "rules c' = (rules c)(h \<mapsto> r)" using 1(3) by (auto split: if_splits)
    then show ?thesis using 1(1,2) Added slots_add [OF assms(3-5), of h r] by auto
  qed (use 1 assms(3) in auto)
qed

lemma del_slot:
  assumes "ok c" "slots_agree xs (rules c)" "i < length xs" "xs ! i = Some (h, r)"
  shows "\<exists>c'. serve (Del_rule h) c = Some (Deleted, c') \<and> ok c' \<and> slots_agree (xs[i := None]) (rules c')"
proof -
  have held: "rules c h = Some r" using slots_held [OF assms(2-4)] .
  then have "allowed (Del_rule h)" using held_allowed [OF assms(1)] by simp
  then obtain a c' where 1: "serve (Del_rule h) c = Some (a, c')" "ok c'"
    "store_step (Del_rule h) a (rules c) = Some (rules c')"
    using serve_law [OF assms(1)] by blast
  then have "a = Deleted \<and> rules c' = (rules c)(h := None)" using held by (cases a) auto
  then show ?thesis using 1 slots_del [OF assms(2-4)] by auto
qed

end

end
