(* ===== verification/NatSlots.thy ===== *)
theory NatSlots
  imports NatProps RuleSlots
begin

text \<open>
  What the driver's client needs beside the contract: the operations on rules leave the count of tables and the PDNs alone, a handle
  in use has 16 bits, and a rule keeps its slot.
\<close>

section \<open>What the operations on rules leave alone\<close>

lemma ask_frame: "ask c = (x, c') \<Longrightarrow> table_cnt c' = table_cnt c \<and> pdns c' = pdns c"
  by (auto simp: ask_def split: list.splits)

lemma set_tbl_frame [simp]: "table_cnt (set_tbl i t c) = table_cnt c" "pdns (set_tbl i t c) = pdns c"
  by (simp_all add: set_tbl_def)

lemma generate_frame:
  "ipa_nati_generate_rule E i clnt ip c = Some (g, c') \<Longrightarrow> table_cnt c' = table_cnt c \<and> pdns c' = pdns c"
  by (auto simp: ipa_nati_generate_rule_def Let_def split: if_splits Option.bind_splits)

lemma nat_dma_frame: "nat_dma E i cmds c = Some c' \<Longrightarrow> table_cnt c' = table_cnt c \<and> pdns c' = pdns c"
  by (auto simp: nat_dma_def split: Option.bind_splits)

lemma write_next_frame: "ipa_nati_write_next_index E i ty v off c = Some c' \<Longrightarrow> table_cnt c' = table_cnt c \<and> pdns c' = pdns c"
  by (auto simp: ipa_nati_write_next_index_def Let_def split: if_splits prod.splits
      dest!: nat_dma_frame ask_frame)

lemma copy_rule_frame: "ipa_nati_copy_ipv4_rule_to_hw E i r e c = Some c' \<Longrightarrow> table_cnt c' = table_cnt c \<and> pdns c' = pdns c"
  by (auto simp: ipa_nati_copy_ipv4_rule_to_hw_def Let_def split: if_splits prod.splits Option.bind_splits
      dest!: write_next_frame)

lemma copy_index_frame:
  "ipa_nati_copy_ipv4_index_rule_to_hw E i x p e c = Some c' \<Longrightarrow> table_cnt c' = table_cnt c \<and> pdns c' = pdns c"
  by (auto simp: ipa_nati_copy_ipv4_index_rule_to_hw_def Let_def split: if_splits prod.splits Option.bind_splits
      dest!: write_next_frame)

lemma post_dma_frame: "ipa_nati_post_ipv4_dma_cmd E i e c = Some (r, c') \<Longrightarrow> table_cnt c' = table_cnt c \<and> pdns c' = pdns c"
  by (auto simp: ipa_nati_post_ipv4_dma_cmd_def Let_def split: if_splits prod.splits Option.bind_splits
      dest!: nat_dma_frame ask_frame)

lemma make_hdl_frame: "ipa_nati_make_rule_hdl i e c = Some (h, c') \<Longrightarrow> table_cnt c' = table_cnt c \<and> pdns c' = pdns c"
  by (auto simp: ipa_nati_make_rule_hdl_def Let_def split: if_splits option.splits Option.bind_splits)

lemma add_rule_frame:
  "ipa_nati_add_ipv4_rule E h clnt c = Some (r, c') \<Longrightarrow> table_cnt c' = table_cnt c \<and> pdns c' = pdns c"
  by (auto simp: ipa_nati_add_ipv4_rule_def Let_def split: if_splits option.splits Option.bind_splits
      dest!: generate_frame copy_rule_frame copy_index_frame post_dma_frame make_hdl_frame)

lemma reorder_frame: "ReorderCmds cmds c = (x, c') \<Longrightarrow> table_cnt c' = table_cnt c \<and> pdns c' = pdns c"
  by (auto simp: ReorderCmds_def Let_def split: if_splits prod.splits dest!: ask_frame)

lemma post_del_frame:
  "ipa_nati_post_del_dma_cmd E i e x p c = Some (r, c') \<Longrightarrow> table_cnt c' = table_cnt c \<and> pdns c' = pdns c"
  by (auto simp: ipa_nati_post_del_dma_cmd_def Let_def split: if_splits prod.splits Option.bind_splits
      dest!: reorder_frame ask_frame)

lemma dead_heads_frame: "ipa_nati_del_dead_ipv4_head_nodes i c = Some c' \<Longrightarrow> table_cnt c' = table_cnt c \<and> pdns c' = pdns c"
  by (auto simp: ipa_nati_del_dead_ipv4_head_nodes_def Let_def split: if_splits Option.bind_splits)

lemma del_rule_frame: "ipa_nati_del_ipv4_rule E h hdl c = Some (r, c') \<Longrightarrow> table_cnt c' = table_cnt c \<and> pdns c' = pdns c"
  by (auto simp: ipa_nati_del_ipv4_rule_def Let_def split: if_splits Option.bind_splits
      dest!: post_del_frame dead_heads_frame)

lemma serve_frame: "nat_serve E q c = Some (a, c') \<Longrightarrow> table_cnt c' = table_cnt c \<and> pdns c' = pdns c"
proof (cases q)
  case (Add_rule clnt)
  assume "nat_serve E q c = Some (a, c')"
  then show ?thesis using add_rule_frame [of E 1 clnt c]
    by (auto simp: nat_serve_def Add_rule ipa_nat_add_ipv4_rule_def bad_tbl_hdl_def split: Option.bind_splits)
next
  case (Del_rule h)
  assume "nat_serve E q c = Some (a, c')"
  then show ?thesis using del_rule_frame [of E 1 "of_nat h" c]
    by (auto simp: nat_serve_def Del_rule ipa_nat_del_ipv4_rule_def split: if_splits Option.bind_splits)
qed

section \<open>Handles in use\<close>

lemma held_handle:
  assumes "nat_ok E c" "nat_rules c h \<noteq> None"
  shows "0 < h \<and> h < 65536"
proof -
  obtain t m T N C D where c: "ip4_tbl c = [t]"
    and tok: "tables_ok T N (dst_head E c (table_entries t)) t m C D"
    using assms(1) by (auto simp: nat_ok_def)
  note s = tables_okD(1) [OF tok]
  have h: "h \<noteq> 0" "ids_at t (h - 1) \<noteq> 0"
    using assms(2) nat_rules_eq [OF c s, of h] by (auto split: if_splits)
  have "Suc (h - 1) < N" using tables_okD(4) [OF tok] h(2) unfolding handles_inv_def by blast
  then show ?thesis using h(1) shaped_parts(12) [OF s] by simp
qed

interpretation nat_slots: closed_store "nat_ready E" nat_rules nat_allowed "nat_serve E" for E
proof
  fix c h
  assume "nat_ready E c" "nat_rules c h \<noteq> None"
  then show "nat_allowed (Del_rule h)" using held_handle [of E c h] by (simp add: nat_ready_def)
qed

end
