(* ===== verification/NatApp.thy ===== *)
theory NatApp
  imports NatDriver
begin

text \<open>
  The connection manager's cache of NATed connections, \<open>NatApp\<close> of
  \<open>hardware/data-ipa-cfg-mgr/ipacm/src/IPACM_Conntrack_NATApp.cpp\<close> as the Android build compiles it (with
  \<open>FEATURE_IPACM_HAL\<close>), on the NAT driver of \<open>NatDriver\<close>.

  The state is the object with the driver behind it. An operation gives \<open>None\<close> when it would read or write outside
  an array, or when the driver would. Logging is left out.
\<close>

unbundle bit_operations_syntax

section \<open>State\<close>

record nat_table_entry =
  private_ip :: "32 word"
  private_port :: "16 word"
  target_ip :: "32 word"
  target_port :: "16 word"
  public_ip :: "32 word"
  public_port :: "16 word"
  protocol :: "8 word"
  timestamp :: "32 word"
  dst_nat :: bool
  enabled :: bool
  rule_hdl :: "32 word"

definition zero_entry :: nat_table_entry where
  "zero_entry = \<lparr>private_ip = 0, private_port = 0, target_ip = 0, target_port = 0, public_ip = 0, public_port = 0,
     protocol = 0, timestamp = 0, dst_nat = False, enabled = False, rule_hdl = 0\<rparr>"

text \<open>\<open>natTimeoutUpdate_t\<close>: what the framework is told of a connection that is alive.\<close>

datatype nat_proto = PROTO_TCP | PROTO_UDP

record nat_timeout_update =
  upd_proto :: nat_proto
  src_ipAddr :: "32 word"
  src_port :: "16 word"
  dst_ipAddr :: "32 word"
  dst_port :: "16 word"

text \<open>The configuration read from \<open>IPACM_Config\<close>.\<close>

record ipacm_config =
  ipa_nat_max_entries :: nat
  alg_table :: "(8 word \<times> 16 word) list"
  private_subnet_table :: "(32 word \<times> 32 word) list"
  pNatIfaces :: "string list"
  ipacm_ip_passthrough_mode :: bool

text \<open>
  \<open>drv\<close> is the NAT driver, \<open>touInstance\<close> whether the framework has registered for timeouts, \<open>updates\<close> the calls
  of its \<open>updateTimeout\<close>, the last one first.
\<close>

record nat_app =
  cache :: "nat_table_entry list"
  temp :: "nat_table_entry list"
  pub_ip_addr :: "32 word"
  pub_ip_addr_pre :: "32 word"
  nat_table_hdl :: "32 word"
  curCnt :: int
  max_entries :: nat
  pALGPorts :: "(8 word \<times> 16 word) list"
  tcp_timeout :: "32 word"
  udp_timeout :: "32 word"
  PwrSaveIfs :: "32 word list"
  drv :: nat_cache
  touInstance :: bool
  updates :: "nat_timeout_update list"

definition MAX_TEMP_ENTRIES :: nat where "MAX_TEMP_ENTRIES = 25"
definition IPA_MAX_NUM_WIFI_CLIENTS :: nat where "IPA_MAX_NUM_WIFI_CLIENTS = 32"

text \<open>
  The constructor, on the memory \<open>new\<close> returns: \<open>pub_ip_addr_pre\<close>, \<open>PwrSaveIfs\<close> and the timeouts keep what is in
  it.
\<close>

definition NatApp :: "nat_app \<Rightarrow> nat_app" where
  "NatApp memory = memory\<lparr>max_entries := 0, cache := [], nat_table_hdl := 0, pub_ip_addr := 0, curCnt := 0,
     pALGPorts := [], temp := replicate MAX_TEMP_ENTRIES zero_entry\<rparr>"

text \<open>
  The configuration is \<open>None\<close> when there is none; the two flags tell whether the two allocations succeed. An
  allocation of the ports is made only when there are some.
\<close>

definition Init :: "ipacm_config option \<Rightarrow> bool \<Rightarrow> bool \<Rightarrow> nat_app \<Rightarrow> int \<times> nat_app" where
  "Init pConfig cache_ok alg_ok a = (case pConfig of
     None \<Rightarrow> (-1, a)
   | Some cfg \<Rightarrow>
       let a = a\<lparr>max_entries := ipa_nat_max_entries cfg\<rparr>
       in if \<not> cache_ok then (-1, a)
          else let a = a\<lparr>cache := replicate (max_entries a) zero_entry\<rparr>
               in if alg_table cfg \<noteq> [] \<and> \<not> alg_ok then (-1, a)
                  else (0, a\<lparr>pALGPorts := alg_table cfg\<rparr>))"

text \<open>The pointer \<open>pInstance\<close>. A failed \<open>Init\<close> deletes the object and leaves the pointer.\<close>

datatype nat_instance = NO_INSTANCE | INSTANCE nat_app | FREED

fun GetInstance ::
    "ipacm_config option \<Rightarrow> bool \<Rightarrow> bool \<Rightarrow> nat_app \<Rightarrow> nat_instance \<Rightarrow> nat_instance \<times> nat_instance" where
  "GetInstance pConfig cache_ok alg_ok memory NO_INSTANCE =
     (case Init pConfig cache_ok alg_ok (NatApp memory) of
        (r, a) \<Rightarrow> if r \<noteq> 0 then (NO_INSTANCE, FREED) else (INSTANCE a, INSTANCE a))"
| "GetInstance pConfig cache_ok alg_ok memory p = (p, p)"

section \<open>Access\<close>

primrec for_each :: "(nat \<Rightarrow> 's \<Rightarrow> 's option) \<Rightarrow> nat list \<Rightarrow> 's \<Rightarrow> 's option" where
  "for_each f [] s = Some s"
| "for_each f (i # is) s = Option.bind (f i s) (for_each f is)"

definition set_entry :: "nat \<Rightarrow> nat_table_entry \<Rightarrow> nat_app \<Rightarrow> nat_app" where
  "set_entry i e a = a\<lparr>cache := (cache a)[i := e]\<rparr>"

definition set_temp :: "nat \<Rightarrow> nat_table_entry \<Rightarrow> nat_app \<Rightarrow> nat_app" where
  "set_temp i e a = a\<lparr>temp := (temp a)[i := e]\<rparr>"

definition clear_entry :: "nat \<Rightarrow> nat_app \<Rightarrow> nat_app" where
  "clear_entry i a = (set_entry i zero_entry a)\<lparr>curCnt := curCnt a - 1\<rparr>"

definition same_tuple :: "nat_table_entry \<Rightarrow> nat_table_entry \<Rightarrow> bool" where
  "same_tuple rule e \<longleftrightarrow> private_ip e = private_ip rule \<and> target_ip e = target_ip rule \<and>
     private_port e = private_port rule \<and> target_port e = target_port rule \<and> protocol e = protocol rule"

definition is_free :: "nat_table_entry \<Rightarrow> bool" where
  "is_free e \<longleftrightarrow> private_ip e = 0 \<and> target_ip e = 0 \<and> private_port e = 0 \<and> target_port e = 0 \<and> protocol e = 0"

definition invalid_connection :: "nat_table_entry \<Rightarrow> bool" where
  "invalid_connection rule \<longleftrightarrow> private_ip rule = 0 \<or> target_ip rule = 0 \<or> private_port rule = 0 \<or>
     target_port rule = 0 \<or> protocol rule = 0"

text \<open>The rule given to the driver: the public address and the PDN stay 0.\<close>

definition entry_rule :: "nat_table_entry \<Rightarrow> ipa_nat_ipv4_rule" where
  "entry_rule e = \<lparr>cl_target_ip = target_ip e, cl_private_ip = private_ip e, cl_target_port = target_port e,
     cl_private_port = private_port e, cl_public_port = public_port e, cl_protocol = protocol e, cl_pdn_index = 0\<rparr>"

abbreviation find_entry :: "(nat_table_entry \<Rightarrow> bool) \<Rightarrow> nat_app \<Rightarrow> nat option option" where
  "find_entry P a \<equiv> scan P (cache a) [0..<max_entries a]"

abbreviation find_temp :: "(nat_table_entry \<Rightarrow> bool) \<Rightarrow> nat_app \<Rightarrow> nat option option" where
  "find_temp P a \<equiv> scan P (temp a) [0..<MAX_TEMP_ENTRIES]"

abbreviation find_power_save :: "(32 word \<Rightarrow> bool) \<Rightarrow> nat_app \<Rightarrow> nat option option" where
  "find_power_save P a \<equiv> scan P (PwrSaveIfs a) [0..<IPA_MAX_NUM_WIFI_CLIENTS]"

definition ChkForDup :: "nat_table_entry \<Rightarrow> nat_app \<Rightarrow> bool option" where
  "ChkForDup rule a = map_option (\<lambda>x. x \<noteq> None) (find_entry (same_tuple rule) a)"

definition isAlgPort :: "8 word \<Rightarrow> 16 word \<Rightarrow> nat_app \<Rightarrow> bool" where
  "isAlgPort proto port a \<longleftrightarrow> (\<exists>p \<in> set (pALGPorts a). proto = fst p \<and> port = snd p)"

definition isPwrSaveIf :: "32 word \<Rightarrow> nat_app \<Rightarrow> bool option" where
  "isPwrSaveIf ip_addr a = map_option (\<lambda>x. x \<noteq> None) (find_power_save (\<lambda>x. 0 \<noteq> x \<and> ip_addr = x) a)"

definition GetTableHdl :: "32 word \<Rightarrow> nat_app \<Rightarrow> 32 word" where
  "GetTableHdl in_ip_addr a = (if in_ip_addr = pub_ip_addr a then nat_table_hdl a else -1)"

text \<open>
  The two calls of the driver: adding a rule, with the handle written into the cache where the driver writes it, and
  deleting one. The flag tells whether the driver returned 0.
\<close>

definition add_hw_rule :: "nat_env \<Rightarrow> nat \<Rightarrow> ipa_nat_ipv4_rule \<Rightarrow> nat_app \<Rightarrow> (bool \<times> nat_app) option" where
  "add_hw_rule E i nat_rule a = do {
     e \<leftarrow> rd (cache a) i;
     ((r, h), c) \<leftarrow> ipa_nat_add_ipv4_rule E (nat_table_hdl a) (Some nat_rule) (drv a);
     Some (r = RET_0,
       set_entry i (case h of None \<Rightarrow> e | Some h \<Rightarrow> e\<lparr>rule_hdl := ucast h\<rparr>) (a\<lparr>drv := c\<rparr>)) }"

definition del_hw_rule :: "nat_env \<Rightarrow> 32 word \<Rightarrow> nat_app \<Rightarrow> (bool \<times> nat_app) option" where
  "del_hw_rule E hdl a = do {
     (r, c) \<leftarrow> ipa_nat_del_ipv4_rule E (nat_table_hdl a) hdl (drv a);
     Some (r = RET_0, a\<lparr>drv := c\<rparr>) }"

section \<open>The table\<close>

text \<open>Errors of the driver as the negative numbers of \<open>errno.h\<close>.\<close>

fun errno :: "nat_ret \<Rightarrow> int" where
  "errno RET_0 = 0"
| "errno EINVAL = -22"
| "errno ENOMEM = -12"
| "errno EIO = -5"

text \<open>The body of the loop of \<open>AddTable\<close> that puts an entry back into the hardware; \<open>ResetPwrSaveIf\<close> repeats it.\<close>

definition readd_entry :: "nat_env \<Rightarrow> nat \<Rightarrow> nat_app \<Rightarrow> nat_app option" where
  "readd_entry E i a = do {
     e \<leftarrow> rd (cache a) i;
     (ok, a) \<leftarrow> add_hw_rule E i (entry_rule e) a;
     if \<not> ok then Some (clear_entry i a)
     else do { e \<leftarrow> rd (cache a) i; Some (set_entry i (e\<lparr>enabled := True\<rparr>) a) } }"

definition restore_at :: "nat_env \<Rightarrow> nat \<Rightarrow> nat_app \<Rightarrow> nat_app option" where
  "restore_at E cnt a = do {
     e \<leftarrow> rd (cache a) cnt;
     if private_ip e \<noteq> 0 then readd_entry E cnt a else Some a }"

text \<open>When the driver gets 0 entries it returns before it writes the handle.\<close>

definition AddTable :: "nat_env \<Rightarrow> 32 word \<Rightarrow> nat_app \<Rightarrow> (int \<times> nat_app) option" where
  "AddTable E pub_ip a = do {
     let n = (of_nat (max_entries a) :: 16 word);
     ((r, hdl), c) \<leftarrow> ipa_nat_add_ipv4_tbl E pub_ip n (drv a);
     let a = a\<lparr>drv := c, nat_table_hdl := (if n = 0 then nat_table_hdl a else hdl)\<rparr>;
     if r \<noteq> RET_0 then Some (errno r, a)
     else do {
       a \<leftarrow> (if pub_ip = pub_ip_addr_pre a then for_each (restore_at E) [0..<max_entries a] a else Some a);
       Some (0, a\<lparr>pub_ip_addr := pub_ip\<rparr>) }}"

definition disable_at :: "nat \<Rightarrow> nat_app \<Rightarrow> nat_app option" where
  "disable_at cnt a = do { e \<leftarrow> rd (cache a) cnt; Some (set_entry cnt (e\<lparr>enabled := False\<rparr>) a) }"

definition Reset :: "nat_app \<Rightarrow> nat_app option" where
  "Reset a = for_each disable_at [0..<max_entries a] (a\<lparr>nat_table_hdl := 0, pub_ip_addr := 0\<rparr>)"

definition DeleteTable :: "32 word \<Rightarrow> nat_app \<Rightarrow> (int \<times> nat_app) option" where
  "DeleteTable pub_ip a =
     (if nat_table_hdl a = 0 then Some (-1, a)
      else if pub_ip_addr a \<noteq> pub_ip then Some (-1, a)
      else do {
        (r, c) \<leftarrow> ipa_nat_del_ipv4_tbl (nat_table_hdl a) (drv a);
        let a = a\<lparr>drv := c\<rparr>;
        if r \<noteq> RET_0 then Some (errno r, a)
        else do {
          a \<leftarrow> Reset (a\<lparr>pub_ip_addr_pre := pub_ip_addr a\<rparr>);
          Some (0, a) }})"

section \<open>Entries\<close>

definition DeleteEntry :: "nat_env \<Rightarrow> nat_table_entry \<Rightarrow> nat_app \<Rightarrow> nat_app option" where
  "DeleteEntry E rule a = do {
     x \<leftarrow> find_entry (same_tuple rule) a;
     (case x of
        None \<Rightarrow> Some a
      | Some cnt \<Rightarrow> do {
          e \<leftarrow> rd (cache a) cnt;
          (_, a) \<leftarrow> (if enabled e then del_hw_rule E (rule_hdl e) a else Some (True, a));
          Some (clear_entry cnt a) }) }"

definition fill_entry :: "nat_table_entry \<Rightarrow> nat_table_entry \<Rightarrow> nat_table_entry" where
  "fill_entry rule e = e\<lparr>private_ip := private_ip rule, target_ip := target_ip rule,
     target_port := target_port rule, private_port := private_port rule, protocol := protocol rule, timestamp := 0,
     public_port := public_port rule, dst_nat := dst_nat rule\<rparr>"

definition AddEntry :: "nat_env \<Rightarrow> nat_table_entry \<Rightarrow> nat_app \<Rightarrow> (int \<times> nat_app) option" where
  "AddEntry E rule a =
     (if nat_table_hdl a = 0 then Some (-1, a)
      else if isAlgPort (protocol rule) (private_port rule) a \<or> isAlgPort (protocol rule) (target_port rule) a
      then Some (-1, a)
      else if invalid_connection rule then Some (0, a)
      else do {
        dup \<leftarrow> ChkForDup rule a;
        if dup then Some (-1, a)
        else do {
          x \<leftarrow> find_entry is_free a;
          (case x of
             None \<Rightarrow> Some (-1, a)
           | Some cnt \<Rightarrow> do {
               ps \<leftarrow> isPwrSaveIf (private_ip rule) a;
               pt \<leftarrow> isPwrSaveIf (target_ip rule) a;
               e \<leftarrow> rd (cache a) cnt;
               (ok, a) \<leftarrow> (if ps \<or> pt then Some (True, set_entry cnt (e\<lparr>enabled := False, rule_hdl := 0\<rparr>) a)
                          else do {
                            (ok, a) \<leftarrow> add_hw_rule E cnt (entry_rule rule) a;
                            if \<not> ok then Some (False, a)
                            else do {
                              e \<leftarrow> rd (cache a) cnt;
                              Some (True, set_entry cnt (e\<lparr>enabled := True\<rparr>) a) }});
               if \<not> ok then Some (-1, a)
               else do {
                 e \<leftarrow> rd (cache a) cnt;
                 Some (0, (set_entry cnt (fill_entry rule e) a)\<lparr>curCnt := curCnt a + 1\<rparr>) }}) }})"

definition CacheEntry :: "nat_table_entry \<Rightarrow> nat_app \<Rightarrow> nat_app option" where
  "CacheEntry rule a =
     (if invalid_connection rule then Some a
      else do {
        dup \<leftarrow> ChkForDup rule a;
        if dup then Some a
        else do {
          x \<leftarrow> find_entry is_free a;
          (case x of
             None \<Rightarrow> Some a
           | Some cnt \<Rightarrow> do {
               e \<leftarrow> rd (cache a) cnt;
               let e = (fill_entry rule (e\<lparr>enabled := False, rule_hdl := 0\<rparr>))\<lparr>public_ip := public_ip rule\<rparr>;
               Some ((set_entry cnt e a)\<lparr>curCnt := curCnt a + 1\<rparr>) }) }})"

section \<open>Time stamps\<close>

text \<open>\<open>htonl\<close> of the C library on the little-endian processor of the device.\<close>

definition htonl :: "32 word \<Rightarrow> 32 word" where
  "htonl w = push_bit 24 (w AND 0xFF) OR push_bit 8 (w AND 0xFF00) OR (drop_bit 8 w AND 0xFF00) OR drop_bit 24 w"

definition Read_TcpUdp_Timeout :: "nat_app \<Rightarrow> nat_app" where
  "Read_TcpUdp_Timeout a = a\<lparr>tcp_timeout := 432000, udp_timeout := 180\<rparr>"

definition timeout_update :: "nat_table_entry \<Rightarrow> 32 word \<Rightarrow> nat_timeout_update" where
  "timeout_update rule pub_ip =
     (let proto = (if protocol rule = 17 then PROTO_UDP else PROTO_TCP)
      in if \<not> dst_nat rule
         then \<lparr>upd_proto = proto, src_ipAddr = htonl (private_ip rule), src_port = private_port rule,
                dst_ipAddr = htonl (target_ip rule), dst_port = target_port rule\<rparr>
         else \<lparr>upd_proto = proto, src_ipAddr = htonl (target_ip rule), src_port = target_port rule,
                dst_ipAddr = htonl pub_ip, dst_port = public_port rule\<rparr>)"

definition UpdateCTUdpTs :: "nat \<Rightarrow> 32 word \<Rightarrow> nat_app \<Rightarrow> nat_app option" where
  "UpdateCTUdpTs cnt new_ts a = do {
     rule \<leftarrow> rd (cache a) cnt;
     if \<not> touInstance a then Some a
     else Some (set_entry cnt (rule\<lparr>timestamp := new_ts\<rparr>)
       (a\<lparr>updates := timeout_update rule (pub_ip_addr a) # updates a\<rparr>)) }"

text \<open>One turn of the loop; the flag is \<open>read_to\<close>.\<close>

definition update_ts_at :: "nat \<Rightarrow> bool \<times> nat_app \<Rightarrow> (bool \<times> nat_app) option" where
  "update_ts_at cnt s = (case s of (read_to, a) \<Rightarrow> do {
     e \<leftarrow> rd (cache a) cnt;
     if enabled e \<and> private_ip e \<noteq> public_ip e
     then do {
       (r, ts) \<leftarrow> ipa_nat_query_timestamp (nat_table_hdl a) (rule_hdl e) (drv a);
       let ts = (case ts of None \<Rightarrow> 0 | Some ts \<Rightarrow> ts);
       if r \<noteq> RET_0 then Some (read_to, a)
       else if timestamp e = ts then Some (read_to, a)
       else do {
         a \<leftarrow> UpdateCTUdpTs cnt ts (if \<not> read_to then Read_TcpUdp_Timeout a else a);
         Some (True, a) }}
     else Some (read_to, a) })"

definition UpdateUDPTimeStamp :: "nat_app \<Rightarrow> nat_app option" where
  "UpdateUDPTimeStamp a = map_option snd (for_each update_ts_at [0..<max_entries a] (False, a))"

section \<open>Clients in power save\<close>

definition power_save_at :: "nat_env \<Rightarrow> 32 word \<Rightarrow> nat \<Rightarrow> nat_app \<Rightarrow> nat_app option" where
  "power_save_at E client_lan_ip cnt a = do {
     e \<leftarrow> rd (cache a) cnt;
     if private_ip e = client_lan_ip \<and> enabled e
     then do {
       (ok, a) \<leftarrow> del_hw_rule E (rule_hdl e) a;
       if \<not> ok then Some a
       else Some (set_entry cnt (e\<lparr>enabled := False, rule_hdl := 0\<rparr>) a) }
     else Some a }"

text \<open>The list of clients in power save: the first place that holds the address gets the new value.\<close>

definition replace_power_save :: "32 word \<Rightarrow> 32 word \<Rightarrow> nat_app \<Rightarrow> nat_app option" where
  "replace_power_save old new a = do {
     x \<leftarrow> find_power_save (\<lambda>y. y = old) a;
     Some (case x of None \<Rightarrow> a | Some cnt \<Rightarrow> a\<lparr>PwrSaveIfs := (PwrSaveIfs a)[cnt := new]\<rparr>) }"

definition UpdatePwrSaveIf :: "nat_env \<Rightarrow> 32 word \<Rightarrow> nat_app \<Rightarrow> (int \<times> nat_app) option" where
  "UpdatePwrSaveIf E client_lan_ip a =
     (if client_lan_ip = 0 then Some (-1, a)
      else do {
        dup \<leftarrow> find_power_save (\<lambda>x. x = client_lan_ip) a;
        if dup \<noteq> None then Some (0, a)
        else do {
          a \<leftarrow> replace_power_save 0 client_lan_ip a;
          a \<leftarrow> for_each (power_save_at E client_lan_ip) [0..<max_entries a] a;
          Some (0, a) }})"

definition power_reset_at :: "nat_env \<Rightarrow> 32 word \<Rightarrow> nat \<Rightarrow> nat_app \<Rightarrow> nat_app option" where
  "power_reset_at E client_lan_ip cnt a = do {
     e \<leftarrow> rd (cache a) cnt;
     if private_ip e = client_lan_ip \<and> \<not> enabled e then readd_entry E cnt a else Some a }"

definition ResetPwrSaveIf :: "nat_env \<Rightarrow> 32 word \<Rightarrow> nat_app \<Rightarrow> (int \<times> nat_app) option" where
  "ResetPwrSaveIf E client_lan_ip a =
     (if client_lan_ip = 0 then Some (-1, a)
      else do {
        a \<leftarrow> replace_power_save client_lan_ip 0 a;
        a \<leftarrow> for_each (power_reset_at E client_lan_ip) [0..<max_entries a] a;
        Some (-1, a) })"

section \<open>Clients that leave\<close>

definition discon_at :: "nat_env \<Rightarrow> 32 word \<Rightarrow> nat \<Rightarrow> nat_app \<Rightarrow> nat_app option" where
  "discon_at E ip_addr cnt a = do {
     e \<leftarrow> rd (cache a) cnt;
     if private_ip e = ip_addr \<and> enabled e
     then do {
       (ok, a) \<leftarrow> del_hw_rule E (rule_hdl e) a;
       if \<not> ok then Some a else Some (set_entry cnt (e\<lparr>enabled := False\<rparr>) a) }
     else Some a }"

definition DelEntriesOnClntDiscon :: "nat_env \<Rightarrow> 32 word \<Rightarrow> nat_app \<Rightarrow> (int \<times> nat_app) option" where
  "DelEntriesOnClntDiscon E ip_addr a =
     (if ip_addr = 0 then Some (-1, a)
      else do {
        a \<leftarrow> replace_power_save ip_addr 0 a;
        a \<leftarrow> for_each (discon_at E ip_addr) [0..<max_entries a] a;
        Some (0, a) })"

definition sta_discon_at :: "nat_env \<Rightarrow> 32 word \<Rightarrow> nat \<Rightarrow> nat_app \<Rightarrow> nat_app option" where
  "sta_discon_at E ip_addr cnt a = do {
     e \<leftarrow> rd (cache a) cnt;
     if target_ip e = ip_addr
     then do {
       (ok, a) \<leftarrow> (if enabled e then del_hw_rule E (rule_hdl e) a else Some (True, a));
       if \<not> ok then Some a else Some (clear_entry cnt a) }
     else Some a }"

definition DelEntriesOnSTAClntDiscon :: "nat_env \<Rightarrow> 32 word \<Rightarrow> nat_app \<Rightarrow> (int \<times> nat_app) option" where
  "DelEntriesOnSTAClntDiscon E ip_addr a =
     (if ip_addr = 0 then Some (-1, a)
      else do {
        a \<leftarrow> for_each (sta_discon_at E ip_addr) [0..<max_entries a] a;
        Some (0, a) })"

section \<open>Entries that wait for their client\<close>

definition AddTempEntry :: "nat_table_entry \<Rightarrow> nat_app \<Rightarrow> nat_app option" where
  "AddTempEntry new_entry a =
     (if isAlgPort (protocol new_entry) (private_port new_entry) a \<or>
         isAlgPort (protocol new_entry) (target_port new_entry) a
      then Some a
      else do {
        dup \<leftarrow> ChkForDup new_entry a;
        if dup then Some a
        else do {
          x \<leftarrow> find_temp (same_tuple new_entry) a;
          if x \<noteq> None then Some a
          else do {
            x \<leftarrow> find_temp (\<lambda>e. private_ip e = 0 \<and> target_ip e = 0) a;
            Some (case x of None \<Rightarrow> a | Some cnt \<Rightarrow> set_temp cnt new_entry a) }}})"

definition DeleteTempEntry :: "nat_table_entry \<Rightarrow> nat_app \<Rightarrow> nat_app option" where
  "DeleteTempEntry entry a = do {
     x \<leftarrow> find_temp (same_tuple entry) a;
     Some (case x of None \<Rightarrow> a | Some cnt \<Rightarrow> set_temp cnt zero_entry a) }"

definition flush_temp_at :: "nat_env \<Rightarrow> 32 word \<Rightarrow> bool \<Rightarrow> bool \<Rightarrow> nat \<Rightarrow> nat_app \<Rightarrow> nat_app option" where
  "flush_temp_at E ip_addr isAdd isDummy cnt a = do {
     t \<leftarrow> rd (temp a) cnt;
     if \<not> (private_ip t = ip_addr \<or> target_ip t = ip_addr) then Some a
     else if isAdd \<and> public_ip t = pub_ip_addr a
     then do {
       let t = (if isDummy then t\<lparr>private_ip := public_ip t, private_port := public_port t\<rparr> else t);
       (r, a) \<leftarrow> AddEntry E t (set_temp cnt t a);
       if r \<noteq> 0 then Some a else Some (set_temp cnt zero_entry a) }
     else Some (set_temp cnt zero_entry a) }"

definition FlushTempEntries :: "nat_env \<Rightarrow> 32 word \<Rightarrow> bool \<Rightarrow> bool \<Rightarrow> nat_app \<Rightarrow> nat_app option" where
  "FlushTempEntries E ip_addr isAdd isDummy a =
     for_each (flush_temp_at E ip_addr isAdd isDummy) [0..<MAX_TEMP_ENTRIES] a"

end
