(* ===== verification/NatAppInv.thy ===== *)
theory NatAppInv
  imports NatApp NatSlots
begin

text \<open>
  The invariant of the connection manager's cache and of the hardware behind it, and the steps that every operation is
  made of: an entry changes, is cleared or is filled; a rule is added to the hardware or taken out of it.
\<close>

section \<open>The invariant\<close>

definition used :: "nat_table_entry \<Rightarrow> bool" where
  "used e \<longleftrightarrow> private_ip e \<noteq> 0"

text \<open>An entry is empty, or a connection the driver can take.\<close>

definition entry_ok :: "nat_table_entry \<Rightarrow> bool" where
  "entry_ok e \<longleftrightarrow> (if used e then \<not> invalid_connection e \<and> protocol e \<noteq> 0xFF else is_free e \<and> \<not> enabled e)"

definition no_dup :: "nat_table_entry list \<Rightarrow> bool" where
  "no_dup xs \<longleftrightarrow> (\<forall>i<length xs. \<forall>j<length xs. used (xs ! i) \<longrightarrow> same_tuple (xs ! i) (xs ! j) \<longrightarrow> i = j)"

definition cache_ok :: "nat_app \<Rightarrow> bool" where
  "cache_ok a \<longleftrightarrow>
     length (cache a) = max_entries a \<and> 0 < max_entries a \<and> max_entries a \<le> 20480 \<and>
     length (temp a) = MAX_TEMP_ENTRIES \<and> length (PwrSaveIfs a) = IPA_MAX_NUM_WIFI_CLIENTS \<and>
     (\<forall>e\<in>set (cache a). entry_ok e) \<and> (\<forall>e\<in>set (temp a). protocol e \<noteq> 0xFF) \<and> no_dup (cache a) \<and>
     curCnt a = int (length (filter used (cache a)))"

text \<open>The slot of an entry: the handle and the rule of an enabled one.\<close>

definition slot :: "nat_table_entry \<Rightarrow> (nat \<times> ipa_nat_ipv4_rule) option" where
  "slot e = (if enabled e then Some (unat (rule_hdl e), entry_rule e) else None)"

abbreviation slots :: "nat_app \<Rightarrow> (nat \<times> ipa_nat_ipv4_rule) option list" where
  "slots a \<equiv> map slot (cache a)"

text \<open>Without a table no entry is enabled; with one, the driver holds the rules of the enabled entries.\<close>

definition hw_holds :: "nat_env \<Rightarrow> 32 word \<Rightarrow> (nat \<times> ipa_nat_ipv4_rule) option list \<Rightarrow> nat_cache \<Rightarrow> bool" where
  "hw_holds E hdl xs c \<longleftrightarrow>
     hdl = 0 \<and> no_table c \<and> willing c \<and> set xs \<subseteq> {None} \<or>
     hdl = 1 \<and> nat_ready E c \<and> table_cnt c = 1 \<and> pdns c \<noteq> [] \<and> slots_agree xs (nat_rules c)"

abbreviation hw_ok :: "nat_env \<Rightarrow> nat_app \<Rightarrow> bool" where
  "hw_ok E a \<equiv> hw_holds E (nat_table_hdl a) (slots a) (drv a)"

definition app_ok :: "nat_env \<Rightarrow> nat_app \<Rightarrow> bool" where
  "app_ok E a \<longleftrightarrow> dma_contract E \<and> cache_ok a \<and> hw_ok E a"

text \<open>Nothing changes but the cache, its count and the driver.\<close>

definition rest :: "nat_app \<Rightarrow> nat_app" where
  "rest a = a\<lparr>cache := [], curCnt := 0, drv := nat_start 0\<rparr>"

definition same_rest :: "nat_app \<Rightarrow> nat_app \<Rightarrow> bool" where
  "same_rest a a' \<longleftrightarrow> rest a' = rest a"

lemma rest_sel [simp]:
  "temp (rest a) = temp a" "pub_ip_addr (rest a) = pub_ip_addr a" "pub_ip_addr_pre (rest a) = pub_ip_addr_pre a"
  "nat_table_hdl (rest a) = nat_table_hdl a" "max_entries (rest a) = max_entries a" "pALGPorts (rest a) = pALGPorts a"
  "PwrSaveIfs (rest a) = PwrSaveIfs a" "touInstance (rest a) = touInstance a" "updates (rest a) = updates a"
  "tcp_timeout (rest a) = tcp_timeout a" "udp_timeout (rest a) = udp_timeout a"
  by (simp_all add: rest_def)

lemma same_restD:
  assumes "same_rest a a'"
  shows "temp a' = temp a" "pub_ip_addr a' = pub_ip_addr a" "pub_ip_addr_pre a' = pub_ip_addr_pre a"
    "nat_table_hdl a' = nat_table_hdl a" "max_entries a' = max_entries a" "pALGPorts a' = pALGPorts a"
    "PwrSaveIfs a' = PwrSaveIfs a" "touInstance a' = touInstance a" "updates a' = updates a"
    "tcp_timeout a' = tcp_timeout a" "udp_timeout a' = udp_timeout a"
  using assms unfolding same_rest_def by (metis rest_sel)+

lemma same_rest_refl [simp]: "same_rest a a"
  by (simp add: same_rest_def)

lemma same_rest_trans: "same_rest a b \<Longrightarrow> same_rest b c \<Longrightarrow> same_rest a c"
  by (simp add: same_rest_def)

lemma same_rest_sets [simp]:
  "same_rest a (set_entry i e a') = same_rest a a'"
  "same_rest a (clear_entry i a') = same_rest a a'"
  "same_rest a (a'\<lparr>drv := d\<rparr>) = same_rest a a'"
  "same_rest a (a'\<lparr>curCnt := n\<rparr>) = same_rest a a'"
  by (simp_all add: same_rest_def rest_def set_entry_def clear_entry_def)

lemma set_entry_sel [simp]:
  "cache (set_entry i e a) = (cache a)[i := e]" "drv (set_entry i e a) = drv a"
  "curCnt (set_entry i e a) = curCnt a" "max_entries (set_entry i e a) = max_entries a"
  "nat_table_hdl (set_entry i e a) = nat_table_hdl a" "temp (set_entry i e a) = temp a"
  "PwrSaveIfs (set_entry i e a) = PwrSaveIfs a" "pub_ip_addr (set_entry i e a) = pub_ip_addr a"
  "pub_ip_addr_pre (set_entry i e a) = pub_ip_addr_pre a" "pALGPorts (set_entry i e a) = pALGPorts a"
  by (simp_all add: set_entry_def)

lemma clear_entry_sel [simp]:
  "cache (clear_entry i a) = (cache a)[i := zero_entry]" "drv (clear_entry i a) = drv a"
  "curCnt (clear_entry i a) = curCnt a - 1" "max_entries (clear_entry i a) = max_entries a"
  "nat_table_hdl (clear_entry i a) = nat_table_hdl a" "temp (clear_entry i a) = temp a"
  "PwrSaveIfs (clear_entry i a) = PwrSaveIfs a" "pub_ip_addr (clear_entry i a) = pub_ip_addr a"
  "pub_ip_addr_pre (clear_entry i a) = pub_ip_addr_pre a" "pALGPorts (clear_entry i a) = pALGPorts a"
  by (simp_all add: clear_entry_def)

lemma set_entry_same [simp]: "i < length (cache a) \<Longrightarrow> set_entry i (cache a ! i) a = a"
  by (simp add: set_entry_def)

lemma set_entry_twice [simp]: "set_entry i e (set_entry i e' a) = set_entry i e a"
  by (simp add: set_entry_def)

lemma slot_None [simp]: "slot e = None \<longleftrightarrow> \<not> enabled e"
  by (simp add: slot_def)

lemma zero_entry_facts [simp]: "\<not> used zero_entry" "entry_ok zero_entry" "\<not> enabled zero_entry" "slot zero_entry = None"
  "is_free zero_entry" "protocol zero_entry = 0"
  by (simp_all add: used_def entry_ok_def zero_entry_def is_free_def slot_def)

section \<open>Lists\<close>

lemma filter_update_length:
  "i < length xs \<Longrightarrow>
   length (filter P (xs[i := x])) + (if P (xs ! i) then 1 else 0) = length (filter P xs) + (if P x then 1 else 0)"
proof (induction xs arbitrary: i)
  case (Cons y ys)
  then show ?case by (cases i) auto
qed simp

lemma scan_range:
  "n \<le> length xs \<Longrightarrow> (scan P xs [k..<n] = Some None \<longleftrightarrow> (\<forall>i. k \<le> i \<and> i < n \<longrightarrow> \<not> P (xs ! i))) \<and>
     (\<forall>i. scan P xs [k..<n] = Some (Some i) \<longrightarrow> k \<le> i \<and> i < n \<and> P (xs ! i)) \<and> scan P xs [k..<n] \<noteq> None"
proof (induction "n - k" arbitrary: k)
  case (Suc d)
  then have k: "k < n" "[k..<n] = k # [Suc k..<n]" by (simp_all add: upt_conv_Cons)
  have IH: "(scan P xs [Suc k..<n] = Some None \<longleftrightarrow> (\<forall>i. Suc k \<le> i \<and> i < n \<longrightarrow> \<not> P (xs ! i))) \<and>
     (\<forall>i. scan P xs [Suc k..<n] = Some (Some i) \<longrightarrow> Suc k \<le> i \<and> i < n \<and> P (xs ! i)) \<and> scan P xs [Suc k..<n] \<noteq> None"
    using Suc.hyps(1) [of "Suc k"] Suc.hyps(2) Suc.prems by simp
  have rd: "rd xs k = Some (xs ! k)" using k(1) Suc.prems by (simp add: rd_def)
  show ?case
  proof (cases "P (xs ! k)")
    case True
    then show ?thesis using k rd by auto
  next
    case False
    then have "(\<forall>i. k \<le> i \<and> i < n \<longrightarrow> \<not> P (xs ! i)) \<longleftrightarrow> (\<forall>i. Suc k \<le> i \<and> i < n \<longrightarrow> \<not> P (xs ! i))"
      by (metis Suc_leI Suc_leD le_neq_implies_less)
    then show ?thesis using k rd IH False by auto
  qed
qed auto

lemma scan_cases:
  assumes "length xs = n"
  obtains (absent) "scan P xs [0..<n] = Some None" "\<forall>i<n. \<not> P (xs ! i)"
  | (present) i where "scan P xs [0..<n] = Some (Some i)" "i < n" "P (xs ! i)"
  using scan_range [of n xs P 0] assms by (metis le_refl option.exhaust zero_le)

lemma for_each_range:
  assumes "\<And>i s. i < n \<Longrightarrow> I i s \<Longrightarrow> \<exists>s'. f i s = Some s' \<and> I (Suc i) s'" and "I k s" "k \<le> n"
  shows "\<exists>s'. for_each f [k..<n] s = Some s' \<and> I n s'"
  using assms(2,3)
proof (induction "n - k" arbitrary: k s)
  case (Suc d)
  then have k: "k < n" "[k..<n] = k # [Suc k..<n]" by (simp_all add: upt_conv_Cons)
  obtain s' where "f k s = Some s'" "I (Suc k) s'" using assms(1) [OF k(1) Suc.prems(1)] by blast
  moreover have "\<exists>s''. for_each f [Suc k..<n] s' = Some s'' \<and> I n s''"
    using Suc.hyps(1) [of "Suc k" s'] Suc.hyps(2) calculation(2) k(1) by simp
  ultimately show ?case using k(2) by simp
qed simp

section \<open>Entries\<close>

lemma cache_okD:
  assumes "cache_ok a"
  shows "length (cache a) = max_entries a" "0 < max_entries a" "max_entries a \<le> 20480"
    "length (temp a) = MAX_TEMP_ENTRIES" "length (PwrSaveIfs a) = IPA_MAX_NUM_WIFI_CLIENTS"
    "i < max_entries a \<Longrightarrow> entry_ok (cache a ! i)" "j < MAX_TEMP_ENTRIES \<Longrightarrow> protocol (temp a ! j) \<noteq> 0xFF"
    "no_dup (cache a)" "curCnt a = int (length (filter used (cache a)))"
  using assms unfolding cache_ok_def by simp_all

lemma rd_cache: "cache_ok a \<Longrightarrow> i < max_entries a \<Longrightarrow> rd (cache a) i = Some (cache a ! i)"
  by (simp add: rd_def cache_ok_def)

lemma entries_updated:
  assumes "\<forall>e\<in>set xs. P e" "P x"
  shows "\<forall>e\<in>set (xs[i := x]). P e"
  using assms set_update_subset_insert [of xs i x] by auto

lemma same_tuple_refl [simp]: "same_tuple e e"
  by (simp add: same_tuple_def)

lemma same_tuple_trans: "same_tuple x y \<Longrightarrow> same_tuple y z \<Longrightarrow> same_tuple x z"
  by (simp add: same_tuple_def)

lemma same_tuple_sym: "same_tuple x y \<Longrightarrow> same_tuple y x"
  by (simp add: same_tuple_def)

lemma same_tuple_used: "same_tuple x y \<Longrightarrow> used y = used x"
  by (simp add: same_tuple_def used_def)

lemma no_dup_update:
  assumes "no_dup xs" "i < length xs"
    and "used x \<Longrightarrow> \<forall>j<length xs. j \<noteq> i \<longrightarrow> \<not> same_tuple x (xs ! j)"
  shows "no_dup (xs[i := x])"
  unfolding no_dup_def
proof (intro allI impI)
  fix j k
  assume l: "j < length (xs[i := x])" "k < length (xs[i := x])" and u: "used ((xs[i := x]) ! j)"
    and s: "same_tuple ((xs[i := x]) ! j) ((xs[i := x]) ! k)"
  consider "j = i" "k = i" | "j = i" "k \<noteq> i" | "j \<noteq> i" "k = i" | "j \<noteq> i" "k \<noteq> i" by blast
  then show "j = k"
  proof cases
    case 2
    then show ?thesis using assms(2,3) l u s by auto
  next
    case 3
    then have s': "same_tuple x (xs ! j)" using s assms(2) same_tuple_sym by auto
    moreover have "used x" using same_tuple_used [OF s'] u 3 by simp
    ultimately show ?thesis using assms(3) l 3 by auto
  next
    case 4
    then show ?thesis using assms(1) l u s unfolding no_dup_def by auto
  qed simp
qed

lemma entry_changed:
  assumes c: "cache_ok a" and i: "i < max_entries a" and e: "entry_ok e" "same_tuple (cache a ! i) e"
  shows "cache_ok (set_entry i e a)"
proof -
  note d = cache_okD [OF c]
  have len: "i < length (cache a)" using i d(1) by simp
  have nd: "no_dup ((cache a)[i := e])"
  proof (rule no_dup_update [OF d(8) len])
    assume u: "used e"
    then have "used (cache a ! i)" using same_tuple_used [OF e(2)] by simp
    then show "\<forall>j<length (cache a). j \<noteq> i \<longrightarrow> \<not> same_tuple e (cache a ! j)"
      using d(8) len e(2) same_tuple_trans unfolding no_dup_def by metis
  qed
  have "length (filter used ((cache a)[i := e])) = length (filter used (cache a))"
    using filter_update_length [OF len, of used e] same_tuple_used [OF e(2)] by (auto split: if_splits)
  moreover have "\<forall>e\<in>set ((cache a)[i := e]). entry_ok e"
    using c e(1) entries_updated [of "cache a" entry_ok e i] unfolding cache_ok_def by blast
  ultimately show ?thesis using c nd unfolding cache_ok_def by simp
qed

lemma entry_cleared:
  assumes c: "cache_ok a" and i: "i < max_entries a" and u: "used (cache a ! i)"
  shows "cache_ok (clear_entry i a)"
proof -
  note d = cache_okD [OF c]
  have len: "i < length (cache a)" using i d(1) by simp
  have nd: "no_dup ((cache a)[i := zero_entry])" by (rule no_dup_update [OF d(8) len]) simp
  have "length (filter used ((cache a)[i := zero_entry])) + 1 = length (filter used (cache a))"
    using filter_update_length [OF len, of used zero_entry] u by simp
  moreover have "\<forall>e\<in>set ((cache a)[i := zero_entry]). entry_ok e"
    using c entries_updated [of "cache a" entry_ok zero_entry i] unfolding cache_ok_def by simp
  ultimately show ?thesis using c nd unfolding cache_ok_def by simp
qed

lemma entry_filled:
  assumes c: "cache_ok a" and i: "i < max_entries a" and f: "\<not> used (cache a ! i)"
    and e: "entry_ok e" "used e" and n: "\<forall>j<max_entries a. \<not> same_tuple e (cache a ! j)"
  shows "cache_ok ((set_entry i e a)\<lparr>curCnt := curCnt a + 1\<rparr>)"
proof -
  note d = cache_okD [OF c]
  have len: "i < length (cache a)" using i d(1) by simp
  have nd: "no_dup ((cache a)[i := e])" by (rule no_dup_update [OF d(8) len]) (simp add: n d(1))
  have "length (filter used ((cache a)[i := e])) = length (filter used (cache a)) + 1"
    using filter_update_length [OF len, of used e] f e(2) by simp
  moreover have "\<forall>e\<in>set ((cache a)[i := e]). entry_ok e"
    using c e(1) entries_updated [of "cache a" entry_ok e i] unfolding cache_ok_def by blast
  ultimately show ?thesis using c nd unfolding cache_ok_def by simp
qed

section \<open>The hardware\<close>

lemma unat_ucast_wider: "unat (ucast (w :: 16 word) :: 32 word) = unat w"
proof -
  have "unat w < 65536" using unsigned_less [of w] by simp
  then show ?thesis by (simp add: unsigned_ucast_eq take_bit_nat_eq_self)
qed

lemma add_ok_handle: "ipa_nat_add_ipv4_rule E 1 (Some clnt) c = Some ((RET_0, h), c') \<Longrightarrow> h \<noteq> None"
  by (auto simp: ipa_nat_add_ipv4_rule_def bad_tbl_hdl_def ipa_nati_add_ipv4_rule_def Let_def
      split: if_splits option.splits Option.bind_splits)

lemma add_hw_ok:
  assumes c: "cache_ok a" and hw: "hw_ok E a" and i: "i < max_entries a" "\<not> enabled (cache a ! i)"
    and r: "cl_protocol r \<noteq> 0xFF"
  shows "\<exists>ok h c'. add_hw_rule E i r a = Some (ok, set_entry i ((cache a ! i)\<lparr>rule_hdl := h\<rparr>) (a\<lparr>drv := c'\<rparr>)) \<and>
     hw_holds E (nat_table_hdl a) (if ok then (slots a)[i := Some (unat h, r)] else slots a) c' \<and>
     (ok \<longrightarrow> nat_table_hdl a = 1)"
proof -
  note rd = rd_cache [OF c i(1)]
  have len: "i < length (cache a)" using c i(1) by (simp add: cache_ok_def)
  show ?thesis
  proof (cases "nat_table_hdl a = 0")
    case True
    then have "add_hw_rule E i r a = Some (False, set_entry i (cache a ! i) (a\<lparr>drv := drv a\<rparr>))"
      using rd by (simp add: add_hw_rule_def ipa_nat_add_ipv4_rule_def bad_tbl_hdl_def)
    moreover have "(cache a ! i)\<lparr>rule_hdl := rule_hdl (cache a ! i)\<rparr> = cache a ! i" by simp
    ultimately have "add_hw_rule E i r a =
      Some (False, set_entry i ((cache a ! i)\<lparr>rule_hdl := rule_hdl (cache a ! i)\<rparr>) (a\<lparr>drv := drv a\<rparr>))" by simp
    moreover have "hw_holds E (nat_table_hdl a) (if False then xs else slots a) (drv a)" for xs using hw by simp
    ultimately show ?thesis by blast
  next
    case False
    then have t: "nat_table_hdl a = 1" "nat_ready E (drv a)" "table_cnt (drv a) = 1 \<and> pdns (drv a) \<noteq> []"
      "slots_agree (slots a) (nat_rules (drv a))" using hw by (simp_all add: hw_holds_def)
    have "i < length (slots a)" "slots a ! i = None" using len i(2) by simp_all
    from nat_slots.add_slot [OF t(2) _ t(4) this, of r] r
    obtain x c' where s: "nat_serve E (Add_rule r) (drv a) = Some (x, c')" "nat_ready E c'"
      "x = Refused \<and> slots_agree (slots a) (nat_rules c') \<or>
       (\<exists>h. x = Added h \<and> slots_agree ((slots a)[i := Some (h, r)]) (nat_rules c'))"
      by auto
    have cnt: "table_cnt c' = 1 \<and> pdns c' \<noteq> []" using serve_frame [OF s(1)] t(3) by simp
    obtain ret h where add: "ipa_nat_add_ipv4_rule E 1 (Some r) (drv a) = Some ((ret, h), c')"
      and x: "x = (case h of Some h \<Rightarrow> if ret = RET_0 then Added (unat h) else Refused | None \<Rightarrow> Refused)"
      using s(1) by (auto simp: nat_serve_def split: Option.bind_splits)
    define h' where "h' = (case h of None \<Rightarrow> rule_hdl (cache a ! i) | Some h \<Rightarrow> ucast h)"
    have run: "add_hw_rule E i r a = Some (ret = RET_0, set_entry i ((cache a ! i)\<lparr>rule_hdl := h'\<rparr>) (a\<lparr>drv := c'\<rparr>))"
      using rd t(1) add by (cases h) (simp_all add: add_hw_rule_def h'_def)
    show ?thesis
    proof (cases "ret = RET_0")
      case True
      then obtain g where g: "h = Some g" using add add_ok_handle by blast
      have "x = Added (unat g)" using True x g by simp
      moreover have "unat h' = unat g" by (simp add: h'_def g unat_ucast_wider)
      ultimately have "slots_agree ((slots a)[i := Some (unat h', r)]) (nat_rules c')" using s(3) by auto
      then show ?thesis using run True t(1) s(2) cnt by (auto simp: hw_holds_def)
    next
      case False
      then have "x = Refused" using x by (cases h) simp_all
      then have "slots_agree (slots a) (nat_rules c')" using s(3) by auto
      then show ?thesis using run False t(1) s(2) cnt by (auto simp: hw_holds_def)
    qed
  qed
qed

lemma del_hw_ok:
  assumes c: "cache_ok a" and hw: "hw_ok E a" and i: "i < max_entries a" "enabled (cache a ! i)"
  shows "\<exists>c'. del_hw_rule E (rule_hdl (cache a ! i)) a = Some (True, a\<lparr>drv := c'\<rparr>) \<and>
     hw_holds E (nat_table_hdl a) ((slots a)[i := None]) c'"
proof -
  have len: "i < length (cache a)" using c i(1) by (simp add: cache_ok_def)
  let ?e = "cache a ! i"
  have s: "i < length (slots a)" "slots a ! i = Some (unat (rule_hdl ?e), entry_rule ?e)"
    using len i(2) by (simp_all add: slot_def)
  then have "Some (unat (rule_hdl ?e), entry_rule ?e) \<in> set (slots a)" by (metis nth_mem)
  then have t: "nat_table_hdl a = 1" "nat_ready E (drv a)" "table_cnt (drv a) = 1 \<and> pdns (drv a) \<noteq> []"
    "slots_agree (slots a) (nat_rules (drv a))" using hw by (auto simp: hw_holds_def)
  obtain c' where d: "nat_serve E (Del_rule (unat (rule_hdl ?e))) (drv a) = Some (Deleted, c')" "nat_ready E c'"
    "slots_agree ((slots a)[i := None]) (nat_rules c')"
    using nat_slots.del_slot [OF t(2,4) s] by blast
  have "table_cnt c' = 1 \<and> pdns c' \<noteq> []" using serve_frame [OF d(1)] t(3) by simp
  moreover have "ipa_nat_del_ipv4_rule E 1 (rule_hdl ?e) (drv a) = Some (RET_0, c')"
    using d(1) by (auto simp: nat_serve_def split: Option.bind_splits if_splits)
  then have "del_hw_rule E (rule_hdl ?e) a = Some (True, a\<lparr>drv := c'\<rparr>)"
    using t(1) by (simp add: del_hw_rule_def)
  ultimately show ?thesis using d(2,3) t(1) by (auto simp: hw_holds_def)
qed

lemma hw_kept: "slot e = slots a ! i \<Longrightarrow> i < length (cache a) \<Longrightarrow> hw_ok E (set_entry i e a) = hw_ok E a"
  by (metis set_entry_sel(1,2,5) length_map list_update_id map_update)

text \<open>Taking the rule of an entry out of the hardware, whatever becomes of the entry then.\<close>

section \<open>A loop over the cache\<close>

text \<open>A loop whose turn changes its own entry in the way \<open>R\<close> changes every entry in that way.\<close>

lemma each_entry:
  assumes ok: "app_ok E a"
    and body: "\<And>i s. app_ok E s \<Longrightarrow> same_rest a s \<Longrightarrow> i < max_entries a \<Longrightarrow> cache s ! i = cache a ! i \<Longrightarrow>
      \<exists>s' x. f i s = Some s' \<and> app_ok E s' \<and> same_rest s s' \<and> cache s' = (cache s)[i := x] \<and> R (cache a ! i) x"
  shows "\<exists>a'. for_each f [0..<max_entries a] a = Some a' \<and> app_ok E a' \<and> same_rest a a' \<and>
     (\<forall>i<max_entries a. R (cache a ! i) (cache a' ! i))"
proof -
  let ?I = "\<lambda>i s. app_ok E s \<and> same_rest a s \<and> (\<forall>j<max_entries a. if j < i then R (cache a ! j) (cache s ! j)
      else cache s ! j = cache a ! j)"
  have "\<exists>s'. f i s = Some s' \<and> ?I (Suc i) s'" if i: "i < max_entries a" and I: "?I i s" for i s
  proof -
    obtain s' x where s': "f i s = Some s'" "app_ok E s'" "same_rest s s'" "cache s' = (cache s)[i := x]"
      "R (cache a ! i) x" using body [of s i] i I by auto
    have len: "length (cache s) = max_entries a"
      using I same_restD(5) [of a s] unfolding app_ok_def cache_ok_def by simp
    have "if j < Suc i then R (cache a ! j) (cache s' ! j) else cache s' ! j = cache a ! j"
      if j: "j < max_entries a" for j
    proof (cases "j = i")
      case True
      then show ?thesis using s'(4,5) j len by simp
    next
      case False
      then have "cache s' ! j = cache s ! j" using s'(4) by simp
      then show ?thesis using I j False by (auto simp: less_Suc_eq split: if_splits)
    qed
    moreover have "same_rest a s'" using same_rest_trans [of a s s'] s'(3) I by simp
    ultimately show ?thesis using s'(1,2) by simp
  qed
  moreover have "?I 0 a" using ok by simp
  ultimately obtain a' where "for_each f [0..<max_entries a] a = Some a'" "?I (max_entries a) a'"
    using for_each_range [of "max_entries a" ?I f 0 a] by blast
  then show ?thesis by auto
qed

end
