(* ===== verification/NatAppSpec.thy ===== *)
theory NatAppSpec
  imports NatAppInv
begin

text \<open>What each operation of the connection manager's cache does, while the calls outside succeed.\<close>

section \<open>One entry and the hardware\<close>

lemma app_okD: "app_ok E a \<Longrightarrow> dma_contract E" "app_ok E a \<Longrightarrow> cache_ok a" "app_ok E a \<Longrightarrow> hw_ok E a"
  by (simp_all add: app_ok_def)

lemma app_len: "app_ok E a \<Longrightarrow> length (cache a) = max_entries a"
  by (simp add: app_ok_def cache_ok_def)

lemma app_rd: "app_ok E a \<Longrightarrow> i < max_entries a \<Longrightarrow> rd (cache a) i = Some (cache a ! i)"
  by (simp add: app_ok_def rd_cache)

lemma app_ok_other [simp]:
  "app_ok E (a\<lparr>pub_ip_addr := x\<rparr>) = app_ok E a" "app_ok E (a\<lparr>pub_ip_addr_pre := x\<rparr>) = app_ok E a"
  "app_ok E (a\<lparr>updates := u\<rparr>) = app_ok E a" "app_ok E (a\<lparr>tcp_timeout := y\<rparr>) = app_ok E a"
  "app_ok E (a\<lparr>udp_timeout := y\<rparr>) = app_ok E a"
  by (simp_all add: app_ok_def cache_ok_def)

lemma app_ok_power [simp]: "app_ok E (a\<lparr>PwrSaveIfs := (PwrSaveIfs a)[i := x]\<rparr>) = app_ok E a"
  by (simp add: app_ok_def cache_ok_def)

lemma app_ok_temp: "app_ok E a \<Longrightarrow> protocol t \<noteq> 0xFF \<Longrightarrow> app_ok E (set_temp i t a)"
  using entries_updated [of "temp a" "\<lambda>e. protocol e \<noteq> 0xFF" t i]
  by (simp add: app_ok_def cache_ok_def set_temp_def)

lemma cache_ok_drv [simp]: "cache_ok (a\<lparr>drv := c\<rparr>) = cache_ok a"
  by (simp add: cache_ok_def)

lemma used_parts:
  assumes "app_ok E a" "i < max_entries a" "used (cache a ! i)"
  shows "\<not> invalid_connection (cache a ! i)" "protocol (cache a ! i) \<noteq> 0xFF"
  using cache_okD(6) [OF app_okD(2) [OF assms(1)] assms(2)] assms(3) by (simp_all add: entry_ok_def)

lemma enabled_used: "app_ok E a \<Longrightarrow> i < max_entries a \<Longrightarrow> enabled (cache a ! i) \<Longrightarrow> used (cache a ! i)"
  using cache_okD(6) [OF app_okD(2), of E a i] by (auto simp: entry_ok_def split: if_splits)

lemma readd_ok:
  assumes a: "app_ok E a" and i: "i < max_entries a" "used (cache a ! i)" "\<not> enabled (cache a ! i)"
  shows "\<exists>a' x. readd_entry E i a = Some a' \<and> app_ok E a' \<and> same_rest a a' \<and> cache a' = (cache a)[i := x] \<and>
     (x = zero_entry \<or> nat_table_hdl a = 1 \<and> (\<exists>h. x = (cache a ! i)\<lparr>rule_hdl := h, enabled := True\<rparr>))"
proof -
  let ?e = "cache a ! i"
  note c = app_okD(2) [OF a] and hw = app_okD(3) [OF a]
  have len: "i < length (cache a)" using app_len [OF a] i(1) by simp
  have pr: "cl_protocol (entry_rule ?e) \<noteq> 0xFF" using used_parts(2) [OF a i(1,2)] by (simp add: entry_rule_def)
  obtain ok h c' where add: "add_hw_rule E i (entry_rule ?e) a = Some (ok, set_entry i (?e\<lparr>rule_hdl := h\<rparr>) (a\<lparr>drv := c'\<rparr>))"
    and hw': "hw_holds E (nat_table_hdl a) (if ok then (slots a)[i := Some (unat h, entry_rule ?e)] else slots a) c'"
    and t: "ok \<longrightarrow> nat_table_hdl a = 1"
    using add_hw_ok [OF c hw i(1,3) pr] by blast
  show ?thesis
  proof (cases ok)
    case True
    let ?x = "?e\<lparr>rule_hdl := h, enabled := True\<rparr>" and ?a = "set_entry i (?e\<lparr>rule_hdl := h, enabled := True\<rparr>) (a\<lparr>drv := c'\<rparr>)"
    have "readd_entry E i a = Some ?a"
      using add True app_rd [OF a i(1)] len by (simp add: readd_entry_def rd_def)
    moreover have "entry_ok ?x" using used_parts [OF a i(1,2)] i(2)
      by (simp add: entry_ok_def used_def invalid_connection_def)
    then have "cache_ok ?a" using entry_changed [of "a\<lparr>drv := c'\<rparr>" i ?x] c i(1) by (simp add: same_tuple_def)
    moreover have "slot ?x = Some (unat h, entry_rule ?e)" by (simp add: slot_def entry_rule_def)
    then have "hw_ok E ?a" using hw' True by (simp add: map_update)
    ultimately show ?thesis using app_okD(1) [OF a] t True by (auto simp: app_ok_def)
  next
    case False
    let ?a = "clear_entry i (set_entry i (?e\<lparr>rule_hdl := h\<rparr>) (a\<lparr>drv := c'\<rparr>))"
    have "readd_entry E i a = Some ?a"
      using add False app_rd [OF a i(1)] by (simp add: readd_entry_def)
    moreover have "?a = clear_entry i (a\<lparr>drv := c'\<rparr>)" by (simp add: clear_entry_def)
    moreover have "cache_ok (clear_entry i (a\<lparr>drv := c'\<rparr>))" using entry_cleared [of "a\<lparr>drv := c'\<rparr>" i] c i by simp
    moreover have "(slots a)[i := None] = slots a" using i(3) len by (metis length_map list_update_id nth_map slot_None)
    then have "hw_ok E (clear_entry i (a\<lparr>drv := c'\<rparr>))" using hw' False by (simp add: map_update)
    ultimately show ?thesis using app_okD(1) [OF a] by (auto simp: app_ok_def)
  qed
qed

text \<open>The rule of an entry is taken out of the hardware; the entry is disabled or cleared after it.\<close>

lemma take_out:
  assumes a: "app_ok E a" and i: "i < max_entries a" "enabled (cache a ! i)"
  obtains c' where "del_hw_rule E (rule_hdl (cache a ! i)) a = Some (True, a\<lparr>drv := c'\<rparr>)"
    "\<And>e. entry_ok e \<Longrightarrow> same_tuple (cache a ! i) e \<Longrightarrow> \<not> enabled e \<Longrightarrow> app_ok E (set_entry i e (a\<lparr>drv := c'\<rparr>))"
    "app_ok E (clear_entry i (a\<lparr>drv := c'\<rparr>))"
proof -
  note c = app_okD(2) [OF a]
  obtain c' where d: "del_hw_rule E (rule_hdl (cache a ! i)) a = Some (True, a\<lparr>drv := c'\<rparr>)"
    "hw_holds E (nat_table_hdl a) ((slots a)[i := None]) c'"
    using del_hw_ok [OF c app_okD(3) [OF a] i] by blast
  have "app_ok E (set_entry i e (a\<lparr>drv := c'\<rparr>))" if "entry_ok e" "same_tuple (cache a ! i) e" "\<not> enabled e" for e
  proof -
    have "cache_ok (set_entry i e (a\<lparr>drv := c'\<rparr>))" using entry_changed [of "a\<lparr>drv := c'\<rparr>" i e] c i(1) that by simp
    moreover have none: "slot e = None" using that(3) by simp
    have "hw_ok E (set_entry i e (a\<lparr>drv := c'\<rparr>))" using d(2) by (simp add: map_update none del: slot_None)
    ultimately show ?thesis using app_okD(1) [OF a] by (simp add: app_ok_def)
  qed
  moreover have "app_ok E (clear_entry i (a\<lparr>drv := c'\<rparr>))"
    using entry_cleared [of "a\<lparr>drv := c'\<rparr>" i] c i(1) enabled_used [OF a i] d(2) app_okD(1) [OF a]
    by (simp add: app_ok_def map_update)
  ultimately show ?thesis using d(1) that by blast
qed

lemma clear_disabled:
  assumes a: "app_ok E a" and i: "i < max_entries a" "used (cache a ! i)" "\<not> enabled (cache a ! i)"
  shows "app_ok E (clear_entry i a)"
proof -
  have "i < length (cache a)" using app_len [OF a] i(1) by simp
  then have "(slots a)[i := None] = slots a" using i(3) by (metis length_map list_update_id nth_map slot_None)
  then show ?thesis using entry_cleared [OF app_okD(2) [OF a] i(1,2)] a by (simp add: app_ok_def map_update)
qed

lemma entry_ok_same:
  assumes "app_ok E a" "i < max_entries a" "used (cache a ! i)" "same_tuple (cache a ! i) e"
  shows "entry_ok e"
proof -
  have "used e" using same_tuple_used [OF assms(4)] assms(3) by simp
  then show ?thesis using used_parts [OF assms(1-3)] assms(4)
    by (simp add: entry_ok_def invalid_connection_def same_tuple_def)
qed

section \<open>The loops over the cache\<close>

definition switched_on :: "nat_table_entry \<Rightarrow> nat_table_entry \<Rightarrow> bool" where
  "switched_on e x \<longleftrightarrow> x = zero_entry \<or> (\<exists>h. x = e\<lparr>rule_hdl := h, enabled := True\<rparr>)"

lemma each_where:
  assumes a: "app_ok E a"
    and idle: "\<And>i s. rd (cache s) i = Some (cache a ! i) \<Longrightarrow> \<not> P (cache a ! i) \<Longrightarrow> f i s = Some s"
    and act: "\<And>i s. app_ok E s \<Longrightarrow> i < max_entries s \<Longrightarrow> rd (cache s) i = Some (cache s ! i) \<Longrightarrow>
      i < max_entries a \<Longrightarrow> cache s ! i = cache a ! i \<Longrightarrow> P (cache s ! i) \<Longrightarrow>
      \<exists>s' x. f i s = Some s' \<and> app_ok E s' \<and> same_rest s s' \<and> cache s' = (cache s)[i := x] \<and> R (cache s ! i) x"
  shows "\<exists>a'. for_each f [0..<max_entries a] a = Some a' \<and> app_ok E a' \<and> same_rest a a' \<and>
     (\<forall>i<max_entries a. if P (cache a ! i) then R (cache a ! i) (cache a' ! i) else cache a' ! i = cache a ! i)"
proof (rule each_entry [OF a, where R = "\<lambda>e x. if P e then R e x else x = e"])
  fix i s
  assume s: "app_ok E s" "same_rest a s" and i: "i < max_entries a" and e: "cache s ! i = cache a ! i"
  have i': "i < max_entries s" using same_restD(5) [OF s(2)] i by simp
  show "\<exists>s' x. f i s = Some s' \<and> app_ok E s' \<and> same_rest s s' \<and> cache s' = (cache s)[i := x] \<and>
    (if P (cache a ! i) then R (cache a ! i) x else x = cache a ! i)"
  proof (cases "P (cache a ! i)")
    case True
    then show ?thesis using act [OF s(1) i' app_rd [OF s(1) i'] i e] e by simp
  next
    case False
    then have "f i s = Some s" using idle app_rd [OF s(1) i'] e by simp
    moreover have "cache s = (cache s)[i := cache a ! i]" by (metis e list_update_id)
    ultimately show ?thesis using s(1) False same_rest_refl [of s] by auto
  qed
qed

lemma restore_loop:
  assumes a: "app_ok E a" and off: "\<And>i. i < max_entries a \<Longrightarrow> \<not> enabled (cache a ! i)"
  shows "\<exists>a'. for_each (restore_at E) [0..<max_entries a] a = Some a' \<and> app_ok E a' \<and> same_rest a a' \<and>
     (\<forall>i<max_entries a. if used (cache a ! i) then switched_on (cache a ! i) (cache a' ! i)
        else cache a' ! i = cache a ! i)"
proof (rule each_where [OF a])
  fix i s
  assume s: "app_ok E s" "i < max_entries s" "rd (cache s) i = Some (cache s ! i)" "i < max_entries a"
    "cache s ! i = cache a ! i" "used (cache s ! i)"
  then have "\<not> enabled (cache s ! i)" using off by simp
  from readd_ok [OF s(1,2,6) this] s(3,6)
  show "\<exists>s' x. restore_at E i s = Some s' \<and> app_ok E s' \<and> same_rest s s' \<and> cache s' = (cache s)[i := x] \<and>
    switched_on (cache s ! i) x"
    by (auto simp: restore_at_def switched_on_def used_def)
qed (simp add: restore_at_def used_def)

lemma power_reset_loop:
  assumes a: "app_ok E a" and ip: "ip \<noteq> 0"
  shows "\<exists>a'. for_each (power_reset_at E ip) [0..<max_entries a] a = Some a' \<and> app_ok E a' \<and> same_rest a a' \<and>
     (\<forall>i<max_entries a. if private_ip (cache a ! i) = ip \<and> \<not> enabled (cache a ! i)
        then switched_on (cache a ! i) (cache a' ! i) else cache a' ! i = cache a ! i)"
proof (rule each_where [OF a])
  fix i s
  assume s: "app_ok E s" "i < max_entries s" "rd (cache s) i = Some (cache s ! i)"
    "private_ip (cache s ! i) = ip \<and> \<not> enabled (cache s ! i)"
  then have "used (cache s ! i)" using ip by (simp add: used_def)
  from readd_ok [OF s(1,2) this] s(3,4)
  show "\<exists>s' x. power_reset_at E ip i s = Some s' \<and> app_ok E s' \<and> same_rest s s' \<and> cache s' = (cache s)[i := x] \<and>
    switched_on (cache s ! i) x"
    by (auto simp: power_reset_at_def switched_on_def)
qed (auto simp: power_reset_at_def)

text \<open>An enabled entry of a client is disabled.\<close>

lemma disabled_entry:
  assumes s: "app_ok E s" "i < max_entries s" and en: "enabled (cache s ! i)"
    and e: "same_tuple (cache s ! i) e" "\<not> enabled e"
  obtains c' where "del_hw_rule E (rule_hdl (cache s ! i)) s = Some (True, s\<lparr>drv := c'\<rparr>)"
    "app_ok E (set_entry i e (s\<lparr>drv := c'\<rparr>))"
  using take_out [OF s en] entry_ok_same [OF s enabled_used [OF s en] e(1)] e by metis

lemma power_save_loop:
  assumes a: "app_ok E a"
  shows "\<exists>a'. for_each (power_save_at E ip) [0..<max_entries a] a = Some a' \<and> app_ok E a' \<and> same_rest a a' \<and>
     (\<forall>i<max_entries a. if private_ip (cache a ! i) = ip \<and> enabled (cache a ! i)
        then cache a' ! i = (cache a ! i)\<lparr>enabled := False, rule_hdl := 0\<rparr> else cache a' ! i = cache a ! i)"
proof (rule each_where [OF a])
  fix i s
  assume s: "app_ok E s" "i < max_entries s" "rd (cache s) i = Some (cache s ! i)"
    "private_ip (cache s ! i) = ip \<and> enabled (cache s ! i)"
  obtain c' where "del_hw_rule E (rule_hdl (cache s ! i)) s = Some (True, s\<lparr>drv := c'\<rparr>)"
    "app_ok E (set_entry i ((cache s ! i)\<lparr>enabled := False, rule_hdl := 0\<rparr>) (s\<lparr>drv := c'\<rparr>))"
    using disabled_entry [OF s(1,2), of "(cache s ! i)\<lparr>enabled := False, rule_hdl := 0\<rparr>"] s(4)
    by (auto simp: same_tuple_def)
  then show "\<exists>s' x. power_save_at E ip i s = Some s' \<and> app_ok E s' \<and> same_rest s s' \<and> cache s' = (cache s)[i := x] \<and>
    x = (cache s ! i)\<lparr>enabled := False, rule_hdl := 0\<rparr>"
    using s(3,4) by (simp add: power_save_at_def)
qed (auto simp: power_save_at_def)

lemma discon_loop:
  assumes a: "app_ok E a"
  shows "\<exists>a'. for_each (discon_at E ip) [0..<max_entries a] a = Some a' \<and> app_ok E a' \<and> same_rest a a' \<and>
     (\<forall>i<max_entries a. if private_ip (cache a ! i) = ip \<and> enabled (cache a ! i)
        then cache a' ! i = (cache a ! i)\<lparr>enabled := False\<rparr> else cache a' ! i = cache a ! i)"
proof (rule each_where [OF a])
  fix i s
  assume s: "app_ok E s" "i < max_entries s" "rd (cache s) i = Some (cache s ! i)"
    "private_ip (cache s ! i) = ip \<and> enabled (cache s ! i)"
  obtain c' where "del_hw_rule E (rule_hdl (cache s ! i)) s = Some (True, s\<lparr>drv := c'\<rparr>)"
    "app_ok E (set_entry i ((cache s ! i)\<lparr>enabled := False\<rparr>) (s\<lparr>drv := c'\<rparr>))"
    using disabled_entry [OF s(1,2), of "(cache s ! i)\<lparr>enabled := False\<rparr>"] s(4) by (auto simp: same_tuple_def)
  then show "\<exists>s' x. discon_at E ip i s = Some s' \<and> app_ok E s' \<and> same_rest s s' \<and> cache s' = (cache s)[i := x] \<and>
    x = (cache s ! i)\<lparr>enabled := False\<rparr>"
    using s(3,4) by (simp add: discon_at_def)
qed (auto simp: discon_at_def)

lemma sta_discon_loop:
  assumes a: "app_ok E a" and ip: "ip \<noteq> 0"
  shows "\<exists>a'. for_each (sta_discon_at E ip) [0..<max_entries a] a = Some a' \<and> app_ok E a' \<and> same_rest a a' \<and>
     (\<forall>i<max_entries a. if target_ip (cache a ! i) = ip then cache a' ! i = zero_entry else cache a' ! i = cache a ! i)"
proof (rule each_where [OF a])
  fix i s
  assume s: "app_ok E s" "i < max_entries s" "rd (cache s) i = Some (cache s ! i)" "target_ip (cache s ! i) = ip"
  have u: "used (cache s ! i)"
    using cache_okD(6) [OF app_okD(2) [OF s(1)] s(2)] s(4) ip by (auto simp: entry_ok_def is_free_def split: if_splits)
  show "\<exists>s' x. sta_discon_at E ip i s = Some s' \<and> app_ok E s' \<and> same_rest s s' \<and> cache s' = (cache s)[i := x] \<and>
    x = zero_entry"
  proof (cases "enabled (cache s ! i)")
    case True
    obtain c' where "del_hw_rule E (rule_hdl (cache s ! i)) s = Some (True, s\<lparr>drv := c'\<rparr>)"
      "app_ok E (clear_entry i (s\<lparr>drv := c'\<rparr>))"
      using take_out [OF s(1,2) True] by blast
    then show ?thesis using True s(3,4) by (simp add: sta_discon_at_def)
  next
    case False
    then show ?thesis using s(3,4) clear_disabled [OF s(1,2) u False] by (simp add: sta_discon_at_def)
  qed
qed (auto simp: sta_discon_at_def)

end
