(* ===== verification/NatAppOps.thy ===== *)
theory NatAppOps
  imports NatAppSpec
begin

text \<open>The operations of the connection manager's cache: the invariant and what each one leaves behind.\<close>

section \<open>The object\<close>

lemma Init_ok:
  assumes k: "dma_contract E" and d: "no_table (drv m)" "willing (drv m)"
    and p: "length (PwrSaveIfs m) = IPA_MAX_NUM_WIFI_CLIENTS"
    and n: "0 < ipa_nat_max_entries cfg" "ipa_nat_max_entries cfg \<le> 20480"
  shows "\<exists>a. Init (Some cfg) True True (NatApp m) = (0, a) \<and> app_ok E a \<and> nat_table_hdl a = 0 \<and>
     cache a = replicate (ipa_nat_max_entries cfg) zero_entry \<and> pALGPorts a = alg_table cfg \<and>
     temp a = replicate MAX_TEMP_ENTRIES zero_entry \<and> max_entries a = ipa_nat_max_entries cfg"
proof -
  let ?n = "ipa_nat_max_entries cfg"
  have "no_dup (replicate ?n zero_entry)" by (simp add: no_dup_def)
  moreover have "filter used (replicate ?n zero_entry) = []" by simp
  ultimately show ?thesis
    using assms by (auto simp: Init_def NatApp_def Let_def app_ok_def cache_ok_def hw_holds_def)
qed

section \<open>The table\<close>

lemma AddTable_ok:
  assumes a: "app_ok E a" and t: "nat_table_hdl a = 0"
  shows "\<exists>a'. AddTable E ip a = Some (0, a') \<and> app_ok E a' \<and> nat_table_hdl a' = 1 \<and> pub_ip_addr a' = ip \<and>
     rest a' = (rest a)\<lparr>nat_table_hdl := 1, pub_ip_addr := ip\<rparr> \<and>
     (\<forall>i<max_entries a. if ip = pub_ip_addr_pre a \<and> used (cache a ! i)
        then switched_on (cache a ! i) (cache a' ! i) else cache a' ! i = cache a ! i)"
proof -
  note c = app_okD(2) [OF a]
  have hw: "no_table (drv a)" "willing (drv a)" "set (slots a) \<subseteq> {None}"
    using app_okD(3) [OF a] t by (auto simp: hw_holds_def)
  let ?n = "of_nat (max_entries a) :: 16 word"
  have n: "unat ?n = max_entries a" using cache_okD(3) [OF c] by (simp add: unsigned_of_nat take_bit_nat_eq_self)
  then have n': "?n \<noteq> 0" "unat ?n \<le> 20480" using cache_okD(2,3) [OF c] by auto
  obtain d where d: "ipa_nat_add_ipv4_tbl E ip ?n (drv a) = Some ((RET_0, 1), d)" "nat_ok E d" "willing d"
    "nat_rules d = Map.empty" "table_cnt d = 1" "pdns d = (pdns (drv a))[0 := (pdns (drv a) ! 0)\<lparr>nat_pdn.public_ip := ip\<rparr>]"
    using create_spec [OF app_okD(1) [OF a] hw(1,2) n', of ip] by blast
  have "pdns d \<noteq> []" using d(6) hw(1) by (auto simp: no_table_def)
  moreover define b where "b = a\<lparr>drv := d, nat_table_hdl := 1\<rparr>"
  ultimately have b: "app_ok E b" using a d(2-5) slots_empty [OF hw(3)]
    by (simp add: app_ok_def b_def cache_ok_def hw_holds_def nat_ready_def)
  have off: "\<not> enabled (cache b ! i)" if "i < max_entries b" for i
  proof -
    have "slot (cache a ! i) \<in> set (slots a)" using that cache_okD(1) [OF c] by (simp add: b_def)
    then show ?thesis using hw(3) by (auto simp: b_def)
  qed
  have run: "AddTable E ip a = (if ip = pub_ip_addr_pre b
      then Option.bind (for_each (restore_at E) [0..<max_entries b] b) (\<lambda>a. Some (0, a\<lparr>pub_ip_addr := ip\<rparr>))
      else Some (0, b\<lparr>pub_ip_addr := ip\<rparr>))"
    using d(1) n'(1) by (simp add: AddTable_def Let_def b_def)
  have r: "rest (x\<lparr>pub_ip_addr := ip\<rparr>) = (rest a)\<lparr>nat_table_hdl := 1, pub_ip_addr := ip\<rparr>" if "same_rest b x" for x
  proof -
    have "rest (x\<lparr>pub_ip_addr := ip\<rparr>) = (rest x)\<lparr>pub_ip_addr := ip\<rparr>" by (simp add: rest_def)
    also have "\<dots> = (rest b)\<lparr>pub_ip_addr := ip\<rparr>" using that by (simp add: same_rest_def)
    finally show ?thesis by (simp add: rest_def b_def)
  qed
  have eq: "cache b = cache a" "max_entries b = max_entries a" "pub_ip_addr_pre b = pub_ip_addr_pre a" "nat_table_hdl b = 1"
    by (simp_all add: b_def)
  show ?thesis
  proof (cases "ip = pub_ip_addr_pre b")
    case True
    obtain b' where b': "for_each (restore_at E) [0..<max_entries b] b = Some b'" "app_ok E b'" "same_rest b b'"
      "\<forall>i<max_entries b. if used (cache b ! i) then switched_on (cache b ! i) (cache b' ! i)
         else cache b' ! i = cache b ! i"
      using restore_loop [OF b off] by blast
    then have "nat_table_hdl b' = 1" using same_restD(4) [OF b'(3)] eq(4) by simp
    moreover note b'(4) [unfolded eq]
    ultimately show ?thesis using run True b'(1-3) r [OF b'(3)] eq(3) by simp
  next
    case False
    then show ?thesis using run b r [of b] eq by simp
  qed
qed

lemma disable_loop:
  "length (cache a) = n \<Longrightarrow> for_each disable_at [0..<n] a = Some (a\<lparr>cache := map (\<lambda>e. e\<lparr>enabled := False\<rparr>) (cache a)\<rparr>)"
proof -
  let ?off = "\<lambda>e. e\<lparr>enabled := False\<rparr>"
  let ?I = "\<lambda>i s. s = a\<lparr>cache := map ?off (take i (cache a)) @ drop i (cache a)\<rparr>"
  assume n: "length (cache a) = n"
  have "\<exists>s'. disable_at i s = Some s' \<and> ?I (Suc i) s'" if i: "i < n" and I: "?I i s" for i s
  proof -
    have at: "cache s ! i = cache a ! i" "i < length (cache s)" using I i n by (simp_all add: nth_append)
    have "(map ?off (take i (cache a)) @ drop i (cache a))[i := ?off (cache a ! i)] =
        map ?off (take (Suc i) (cache a)) @ drop (Suc i) (cache a)"
      using i n by (simp add: list_update_append take_Suc_conv_app_nth upd_conv_take_nth_drop)
    then have "set_entry i (?off (cache a ! i)) s = a\<lparr>cache := map ?off (take (Suc i) (cache a)) @ drop (Suc i) (cache a)\<rparr>"
      using I by (simp add: set_entry_def)
    then show ?thesis using at by (simp add: disable_at_def rd_def)
  qed
  moreover have "?I 0 a" by simp
  ultimately obtain a' where "for_each disable_at [0..<n] a = Some a'" "?I n a'"
    using for_each_range [of n ?I disable_at 0 a] by blast
  then show ?thesis using n by simp
qed

lemma disabled_cache_ok:
  "cache_ok a \<Longrightarrow> cache_ok (a\<lparr>cache := map (\<lambda>e. e\<lparr>enabled := False\<rparr>) (cache a)\<rparr>)"
proof -
  let ?off = "\<lambda>e. e\<lparr>enabled := False\<rparr>"
  assume c: "cache_ok a"
  have "used \<circ> ?off = used" by (auto simp: used_def)
  then have "filter used (map ?off (cache a)) = map ?off (filter used (cache a))" by (simp add: filter_map)
  moreover have "entry_ok (?off e)" if "entry_ok e" for e
    using that by (auto simp: entry_ok_def used_def is_free_def invalid_connection_def split: if_splits)
  moreover have "no_dup (map ?off (cache a))"
    using cache_okD(8) [OF c] by (auto simp: no_dup_def same_tuple_def used_def)
  ultimately show ?thesis using c by (auto simp: cache_ok_def)
qed

lemma DeleteTable_ok:
  assumes a: "app_ok E a" and t: "nat_table_hdl a = 1" "pub_ip_addr a = ip"
  shows "\<exists>a'. DeleteTable ip a = Some (0, a') \<and> app_ok E a' \<and>
     rest a' = (rest a)\<lparr>nat_table_hdl := 0, pub_ip_addr := 0, pub_ip_addr_pre := ip\<rparr> \<and>
     cache a' = map (\<lambda>e. e\<lparr>enabled := False\<rparr>) (cache a)"
proof -
  note c = app_okD(2) [OF a]
  have hw: "nat_ready E (drv a)" "table_cnt (drv a) = 1" "pdns (drv a) \<noteq> []" using app_okD(3) [OF a] t(1) by (simp_all add: hw_holds_def)
  obtain d where d: "ipa_nat_del_ipv4_tbl 1 (drv a) = Some (RET_0, d)" "ip4_tbl d = [zero_table]" "pdns d = pdns (drv a)"
    "table_cnt d = 0" "willing d"
    using del_table_spec [of E "drv a"] hw by (auto simp: nat_ready_def)
  define a' where "a' = a\<lparr>drv := d, pub_ip_addr_pre := ip, nat_table_hdl := 0, pub_ip_addr := 0,
    cache := map (\<lambda>e. e\<lparr>enabled := False\<rparr>) (cache a)\<rparr>"
  have run: "DeleteTable ip a = Some (0, a')"
    using t d(1) cache_okD(1) [OF c] by (simp add: DeleteTable_def Reset_def disable_loop a'_def)
  have "0 < length (pdns d)" "length (pdns d) \<le> 16"
    using hw(1,3) d(3) by (auto simp: nat_ready_def nat_ok_def)
  then have "no_table d" using d(2,4) by (simp add: no_table_def)
  then have "hw_ok E a'" using d(5) by (auto simp: hw_holds_def a'_def)
  moreover have "cache_ok a'" using disabled_cache_ok [OF c] by (simp add: cache_ok_def a'_def)
  ultimately have "app_ok E a'" using app_okD(1) [OF a] by (simp add: app_ok_def)
  then show ?thesis using run by (simp add: a'_def rest_def)
qed

lemma DeleteTable_refused:
  "nat_table_hdl a = 0 \<or> pub_ip_addr a \<noteq> ip \<Longrightarrow> DeleteTable ip a = Some (-1, a)"
  by (auto simp: DeleteTable_def)

section \<open>Clients in power save and clients that leave\<close>

lemma power_scan [consumes 1, case_names absent present]:
  assumes "app_ok E a"
  obtains (absent) "find_power_save P a = Some None" "\<forall>i<IPA_MAX_NUM_WIFI_CLIENTS. \<not> P (PwrSaveIfs a ! i)"
  | (present) i where "find_power_save P a = Some (Some i)" "i < IPA_MAX_NUM_WIFI_CLIENTS" "P (PwrSaveIfs a ! i)"
  using scan_cases [OF cache_okD(5) [OF app_okD(2) [OF assms]], of P] by metis

definition in_power_save :: "nat_app \<Rightarrow> 32 word set" where
  "in_power_save a = set (PwrSaveIfs a) - {0}"

lemma isPwrSaveIf_exact:
  assumes "app_ok E a"
  shows "isPwrSaveIf ip a = Some (ip \<in> in_power_save a)"
  using assms
proof (cases rule: power_scan [where P = "\<lambda>x. 0 \<noteq> x \<and> ip = x"])
  case absent
  then have "ip \<notin> in_power_save a"
    using cache_okD(5) [OF app_okD(2) [OF assms]] by (auto simp: in_power_save_def in_set_conv_nth)
  then show ?thesis using absent by (simp add: isPwrSaveIf_def)
next
  case (present i)
  then have "ip \<in> in_power_save a"
    using cache_okD(5) [OF app_okD(2) [OF assms]] by (auto simp: in_power_save_def)
  then show ?thesis using present by (simp add: isPwrSaveIf_def)
qed

lemma replace_power_save_ok:
  assumes "app_ok E a"
  shows "\<exists>ps. replace_power_save old new a = Some (a\<lparr>PwrSaveIfs := ps\<rparr>) \<and> app_ok E (a\<lparr>PwrSaveIfs := ps\<rparr>) \<and>
     (if old \<in> set (PwrSaveIfs a) then \<exists>i. i < length (PwrSaveIfs a) \<and> PwrSaveIfs a ! i = old \<and> ps = (PwrSaveIfs a)[i := new]
      else ps = PwrSaveIfs a)"
  using assms
proof (cases rule: power_scan [where P = "\<lambda>y. y = old"])
  case absent
  then have "old \<notin> set (PwrSaveIfs a)"
    using cache_okD(5) [OF app_okD(2) [OF assms]] by (auto simp: in_set_conv_nth)
  then show ?thesis using absent assms by (simp add: replace_power_save_def)
next
  case (present i)
  then have "old \<in> set (PwrSaveIfs a)" "i < length (PwrSaveIfs a)"
    using cache_okD(5) [OF app_okD(2) [OF assms]] by auto
  then show ?thesis using present assms by (auto simp: replace_power_save_def)
qed

lemma UpdatePwrSaveIf_ok:
  assumes a: "app_ok E a" and ip: "ip \<noteq> 0"
  shows "\<exists>a' ps. UpdatePwrSaveIf E ip a = Some (0, a') \<and> app_ok E a' \<and> rest a' = (rest a)\<lparr>PwrSaveIfs := ps\<rparr> \<and>
     (if ip \<in> set (PwrSaveIfs a) then a' = a
      else (if 0 \<in> set (PwrSaveIfs a)
            then \<exists>i. i < length (PwrSaveIfs a) \<and> PwrSaveIfs a ! i = 0 \<and> ps = (PwrSaveIfs a)[i := ip]
            else ps = PwrSaveIfs a) \<and>
        (\<forall>i<max_entries a. if private_ip (cache a ! i) = ip \<and> enabled (cache a ! i)
           then cache a' ! i = (cache a ! i)\<lparr>enabled := False, rule_hdl := 0\<rparr> else cache a' ! i = cache a ! i))"
  using a
proof (cases rule: power_scan [where P = "\<lambda>x. x = ip"])
  case (present i)
  then have "ip \<in> set (PwrSaveIfs a)" using cache_okD(5) [OF app_okD(2) [OF a]] by auto
  moreover have "rest a = (rest a)\<lparr>PwrSaveIfs := PwrSaveIfs (rest a)\<rparr>" by simp
  ultimately show ?thesis using present a ip unfolding UpdatePwrSaveIf_def by fastforce
next
  case absent
  then have new: "ip \<notin> set (PwrSaveIfs a)"
    using cache_okD(5) [OF app_okD(2) [OF a]] by (auto simp: in_set_conv_nth)
  obtain ps where ps: "replace_power_save 0 ip a = Some (a\<lparr>PwrSaveIfs := ps\<rparr>)" "app_ok E (a\<lparr>PwrSaveIfs := ps\<rparr>)"
    "if 0 \<in> set (PwrSaveIfs a) then \<exists>i. i < length (PwrSaveIfs a) \<and> PwrSaveIfs a ! i = 0 \<and> ps = (PwrSaveIfs a)[i := ip]
     else ps = PwrSaveIfs a"
    using replace_power_save_ok [OF a, of 0 ip] by blast
  let ?b = "a\<lparr>PwrSaveIfs := ps\<rparr>"
  obtain b' where b': "for_each (power_save_at E ip) [0..<max_entries ?b] ?b = Some b'" "app_ok E b'" "same_rest ?b b'"
    "\<forall>i<max_entries ?b. if private_ip (cache ?b ! i) = ip \<and> enabled (cache ?b ! i)
       then cache b' ! i = (cache ?b ! i)\<lparr>enabled := False, rule_hdl := 0\<rparr> else cache b' ! i = cache ?b ! i"
    using power_save_loop [OF ps(2), of ip] by blast
  have "UpdatePwrSaveIf E ip a = Some (0, b')" using absent ps(1) b'(1) ip by (simp add: UpdatePwrSaveIf_def)
  moreover have "rest b' = (rest a)\<lparr>PwrSaveIfs := ps\<rparr>" using b'(3) by (simp add: same_rest_def) (simp add: rest_def)
  moreover have "cache ?b = cache a" "max_entries ?b = max_entries a" by simp_all
  note b'(4) [unfolded this]
  ultimately show ?thesis using new b'(2) ps(3) by (simp only: if_False) blast
qed

lemma ResetPwrSaveIf_ok:
  assumes a: "app_ok E a" and ip: "ip \<noteq> 0"
  shows "\<exists>a' ps. ResetPwrSaveIf E ip a = Some (-1, a') \<and> app_ok E a' \<and> rest a' = (rest a)\<lparr>PwrSaveIfs := ps\<rparr> \<and>
     (if ip \<in> set (PwrSaveIfs a) then \<exists>i. i < length (PwrSaveIfs a) \<and> PwrSaveIfs a ! i = ip \<and> ps = (PwrSaveIfs a)[i := 0]
      else ps = PwrSaveIfs a) \<and>
     (\<forall>i<max_entries a. if private_ip (cache a ! i) = ip \<and> \<not> enabled (cache a ! i)
        then switched_on (cache a ! i) (cache a' ! i) else cache a' ! i = cache a ! i)"
proof -
  obtain ps where ps: "replace_power_save ip 0 a = Some (a\<lparr>PwrSaveIfs := ps\<rparr>)" "app_ok E (a\<lparr>PwrSaveIfs := ps\<rparr>)"
    "if ip \<in> set (PwrSaveIfs a) then \<exists>i. i < length (PwrSaveIfs a) \<and> PwrSaveIfs a ! i = ip \<and> ps = (PwrSaveIfs a)[i := 0]
     else ps = PwrSaveIfs a"
    using replace_power_save_ok [OF a, of ip 0] by blast
  let ?b = "a\<lparr>PwrSaveIfs := ps\<rparr>"
  obtain b' where b': "for_each (power_reset_at E ip) [0..<max_entries ?b] ?b = Some b'" "app_ok E b'" "same_rest ?b b'"
    "\<forall>i<max_entries ?b. if private_ip (cache ?b ! i) = ip \<and> \<not> enabled (cache ?b ! i)
       then switched_on (cache ?b ! i) (cache b' ! i) else cache b' ! i = cache ?b ! i"
    using power_reset_loop [OF ps(2) ip] by blast
  have "ResetPwrSaveIf E ip a = Some (-1, b')" using ps(1) b'(1) ip by (simp add: ResetPwrSaveIf_def)
  moreover have "rest b' = (rest a)\<lparr>PwrSaveIfs := ps\<rparr>" using b'(3) by (simp add: same_rest_def) (simp add: rest_def)
  moreover have "cache ?b = cache a" "max_entries ?b = max_entries a" by simp_all
  note b'(4) [unfolded this]
  ultimately show ?thesis using ps(3) b'(2) by blast
qed

lemma DelEntriesOnClntDiscon_ok:
  assumes a: "app_ok E a" and ip: "ip \<noteq> 0"
  shows "\<exists>a' ps. DelEntriesOnClntDiscon E ip a = Some (0, a') \<and> app_ok E a' \<and> rest a' = (rest a)\<lparr>PwrSaveIfs := ps\<rparr> \<and>
     (\<forall>i<max_entries a. if private_ip (cache a ! i) = ip \<and> enabled (cache a ! i)
        then cache a' ! i = (cache a ! i)\<lparr>enabled := False\<rparr> else cache a' ! i = cache a ! i)"
proof -
  obtain ps where ps: "replace_power_save ip 0 a = Some (a\<lparr>PwrSaveIfs := ps\<rparr>)" "app_ok E (a\<lparr>PwrSaveIfs := ps\<rparr>)"
    using replace_power_save_ok [OF a, of ip 0] by blast
  let ?b = "a\<lparr>PwrSaveIfs := ps\<rparr>"
  obtain b' where b': "for_each (discon_at E ip) [0..<max_entries ?b] ?b = Some b'" "app_ok E b'" "same_rest ?b b'"
    "\<forall>i<max_entries ?b. if private_ip (cache ?b ! i) = ip \<and> enabled (cache ?b ! i)
       then cache b' ! i = (cache ?b ! i)\<lparr>enabled := False\<rparr> else cache b' ! i = cache ?b ! i"
    using discon_loop [OF ps(2), of ip] by blast
  have "DelEntriesOnClntDiscon E ip a = Some (0, b')" using ps(1) b'(1) ip by (simp add: DelEntriesOnClntDiscon_def)
  moreover have "rest b' = (rest a)\<lparr>PwrSaveIfs := ps\<rparr>" using b'(3) by (simp add: same_rest_def) (simp add: rest_def)
  ultimately show ?thesis using b'(2,4) by auto
qed

lemma DelEntriesOnSTAClntDiscon_ok:
  assumes a: "app_ok E a" and ip: "ip \<noteq> 0"
  shows "\<exists>a'. DelEntriesOnSTAClntDiscon E ip a = Some (0, a') \<and> app_ok E a' \<and> same_rest a a' \<and>
     (\<forall>i<max_entries a. if target_ip (cache a ! i) = ip then cache a' ! i = zero_entry
        else cache a' ! i = cache a ! i)"
  using sta_discon_loop [OF a ip] ip by (auto simp: DelEntriesOnSTAClntDiscon_def)

end
