(* ===== verification/NatAppEntries.thy ===== *)
theory NatAppEntries
  imports NatAppOps
begin

text \<open>Adding, deleting and caching connections, the ones that wait for their client, and the time stamps.\<close>

section \<open>Searching\<close>

definition cached :: "nat_table_entry \<Rightarrow> nat_app \<Rightarrow> bool" where
  "cached rule a \<longleftrightarrow> (\<exists>i<max_entries a. same_tuple rule (cache a ! i))"

lemma cache_scan [consumes 1, case_names absent present]:
  assumes "app_ok E a"
  obtains (absent) "find_entry P a = Some None" "\<forall>i<max_entries a. \<not> P (cache a ! i)"
  | (present) i where "find_entry P a = Some (Some i)" "i < max_entries a" "P (cache a ! i)"
  using scan_cases [OF app_len [OF assms], of P] by metis

lemma temp_scan [consumes 1, case_names absent present]:
  assumes "app_ok E a"
  obtains (absent) "find_temp P a = Some None" "\<forall>i<MAX_TEMP_ENTRIES. \<not> P (temp a ! i)"
  | (present) i where "find_temp P a = Some (Some i)" "i < MAX_TEMP_ENTRIES" "P (temp a ! i)"
  using scan_cases [OF cache_okD(4) [OF app_okD(2) [OF assms]], of P] by metis

lemma ChkForDup_exact: "app_ok E a \<Longrightarrow> ChkForDup rule a = Some (cached rule a)"
  by (cases rule: cache_scan [where P = "same_tuple rule"]) (auto simp: ChkForDup_def cached_def)

lemma free_not_used: "app_ok E a \<Longrightarrow> i < max_entries a \<Longrightarrow> is_free (cache a ! i) \<longleftrightarrow> \<not> used (cache a ! i)"
  using cache_okD(6) [OF app_okD(2), of E a i] by (auto simp: entry_ok_def used_def is_free_def)

lemma free_disabled: "app_ok E a \<Longrightarrow> i < max_entries a \<Longrightarrow> \<not> used (cache a ! i) \<Longrightarrow> \<not> enabled (cache a ! i)"
  using enabled_used by blast

lemma no_dupD: "no_dup xs \<Longrightarrow> i < length xs \<Longrightarrow> j < length xs \<Longrightarrow> used (xs ! i) \<Longrightarrow> same_tuple (xs ! i) (xs ! j) \<Longrightarrow> i = j"
  by (simp add: no_dup_def)

section \<open>Deleting\<close>

lemma DeleteEntry_ok:
  assumes a: "app_ok E a" and r: "\<not> is_free rule"
  shows "\<exists>a'. DeleteEntry E rule a = Some a' \<and> app_ok E a' \<and> same_rest a a' \<and>
     (\<forall>i<max_entries a. cache a' ! i = (if same_tuple rule (cache a ! i) then zero_entry else cache a ! i))"
  using a
proof (cases rule: cache_scan [where P = "same_tuple rule"])
  case absent
  then show ?thesis using a by (simp add: DeleteEntry_def)
next
  case (present i)
  have u: "used (cache a ! i)"
    using free_not_used [OF a present(2)] present(3) r by (auto simp: is_free_def same_tuple_def)
  have only: "j = i" if "j < max_entries a" "same_tuple rule (cache a ! j)" for j
  proof -
    have "same_tuple (cache a ! i) (cache a ! j)"
      using same_tuple_trans [OF same_tuple_sym [OF present(3)] that(2)] .
    then show ?thesis using no_dupD [OF cache_okD(8) [OF app_okD(2) [OF a]], of i j] u that(1) present(2) app_len [OF a]
      by simp
  qed
  have eff: "(cache a)[i := zero_entry] ! j = (if same_tuple rule (cache a ! j) then zero_entry else cache a ! j)"
    if j: "j < max_entries a" for j
  proof (cases "j = i")
    case True
    then show ?thesis using present(3) j app_len [OF a] by simp
  next
    case False
    then have "\<not> same_tuple rule (cache a ! j)" using only [OF j] by blast
    then show ?thesis using False by simp
  qed
  have run: "DeleteEntry E rule a = Option.bind
      (if enabled (cache a ! i) then del_hw_rule E (rule_hdl (cache a ! i)) a else Some (True, a))
      (\<lambda>(_, a). Some (clear_entry i a))"
    using present(1) app_rd [OF a present(2)] by (simp add: DeleteEntry_def)
  show ?thesis
  proof (cases "enabled (cache a ! i)")
    case True
    obtain c' where "del_hw_rule E (rule_hdl (cache a ! i)) a = Some (True, a\<lparr>drv := c'\<rparr>)"
      "app_ok E (clear_entry i (a\<lparr>drv := c'\<rparr>))"
      using take_out [OF a present(2) True] by blast
    then show ?thesis using run True eff by simp
  next
    case False
    then show ?thesis using run clear_disabled [OF a present(2) u False] eff by simp
  qed
qed

section \<open>Adding\<close>

definition uses_alg :: "nat_table_entry \<Rightarrow> nat_app \<Rightarrow> bool" where
  "uses_alg rule a \<longleftrightarrow> isAlgPort (protocol rule) (private_port rule) a \<or> isAlgPort (protocol rule) (target_port rule) a"

definition waits_for_power :: "nat_table_entry \<Rightarrow> nat_app \<Rightarrow> bool" where
  "waits_for_power rule a \<longleftrightarrow> private_ip rule \<in> in_power_save a \<or> target_ip rule \<in> in_power_save a"

lemma filled_ok:
  assumes a: "app_ok E a" and i: "i < max_entries a" "\<not> used (cache a ! i)" and n: "\<not> cached rule a"
    and r: "\<not> invalid_connection rule" "protocol rule \<noteq> 0xFF" and x: "same_tuple rule x"
  shows "cache_ok ((set_entry i x a)\<lparr>curCnt := curCnt a + 1\<rparr>)"
proof -
  have "used x" "entry_ok x"
    using r x by (auto simp: entry_ok_def used_def invalid_connection_def same_tuple_def)
  moreover have "\<forall>j<max_entries a. \<not> same_tuple x (cache a ! j)"
    using n x same_tuple_trans unfolding cached_def by blast
  ultimately show ?thesis using entry_filled [OF app_okD(2) [OF a] i] by blast
qed

lemma same_tuple_fill [simp]: "same_tuple rule (fill_entry rule e)" "enabled (fill_entry rule e) = enabled e"
  "rule_hdl (fill_entry rule e) = rule_hdl e" "entry_rule (fill_entry rule e) = entry_rule rule"
  by (simp_all add: same_tuple_def fill_entry_def entry_rule_def)

lemma filled_off:
  assumes a: "app_ok E a" and i: "i < max_entries a" "\<not> used (cache a ! i)" and n: "\<not> cached rule a"
    and r: "\<not> invalid_connection rule" "protocol rule \<noteq> 0xFF" and x: "same_tuple rule x" "\<not> enabled x"
  shows "app_ok E ((set_entry i x a)\<lparr>curCnt := curCnt a + 1\<rparr>)"
proof -
  have len: "i < length (cache a)" using app_len [OF a] i(1) by simp
  have "slot x = slots a ! i" using x(2) free_disabled [OF a i] len by (simp add: slot_def)
  then have "(slots a)[i := slot x] = slots a" by (metis list_update_id)
  then show ?thesis using filled_ok [OF a i n r x(1)] a by (simp add: app_ok_def map_update)
qed

text \<open>The branch of \<open>AddEntry\<close> that has found the free place \<open>i\<close>.\<close>

lemma add_at:
  assumes a: "app_ok E a" and t: "nat_table_hdl a \<noteq> 0" and i: "i < max_entries a" "\<not> used (cache a ! i)"
    and free: "find_entry is_free a = Some (Some i)" and n: "\<not> cached rule a" and alg: "\<not> uses_alg rule a"
    and r: "\<not> invalid_connection rule" "protocol rule \<noteq> 0xFF"
  shows "\<exists>r a' h. AddEntry E rule a = Some (r, a') \<and> app_ok E a' \<and> same_rest a a' \<and>
     (r = 0 \<and> cache a' = (cache a)[i := fill_entry rule ((cache a ! i)\<lparr>enabled := \<not> waits_for_power rule a, rule_hdl := h\<rparr>)] \<or>
      r = -1 \<and> \<not> waits_for_power rule a \<and> cache a' = (cache a)[i := (cache a ! i)\<lparr>rule_hdl := h\<rparr>])"
proof -
  note c = app_okD(2) [OF a]
  note rd = app_rd [OF a i(1)]
  have len: "i < length (cache a)" using app_len [OF a] i(1) by simp
  note ps = isPwrSaveIf_exact [OF a]
  have head: "AddEntry E rule a = (let k = (\<lambda>(ok, a).
        if \<not> ok then Some (-1, a)
        else Option.bind (rd (cache a) i) (\<lambda>e. Some (0, (set_entry i (fill_entry rule e) a)\<lparr>curCnt := curCnt a + 1\<rparr>)))
      in if waits_for_power rule a
         then k (True, set_entry i ((cache a ! i)\<lparr>enabled := False, rule_hdl := 0\<rparr>) a)
         else Option.bind (add_hw_rule E i (entry_rule rule) a) (\<lambda>(ok, a).
           if \<not> ok then k (False, a)
           else Option.bind (rd (cache a) i) (\<lambda>e. k (True, set_entry i (e\<lparr>enabled := True\<rparr>) a))))"
    using t alg r(1) n free ChkForDup_exact [OF a, of rule] ps [of "private_ip rule"] ps [of "target_ip rule"] rd
    by (simp add: AddEntry_def uses_alg_def waits_for_power_def Let_def)
      (simp split: Option.bind_splits)
  show ?thesis
  proof (cases "waits_for_power rule a")
    case True
    let ?x = "fill_entry rule ((cache a ! i)\<lparr>enabled := False, rule_hdl := 0\<rparr>)"
    have "AddEntry E rule a = Some (0, (set_entry i ?x a)\<lparr>curCnt := curCnt a + 1\<rparr>)"
      using head True len by (simp add: rd_def Let_def)
    moreover have "app_ok E ((set_entry i ?x a)\<lparr>curCnt := curCnt a + 1\<rparr>)"
      by (rule filled_off [OF a i n r]) simp_all
    ultimately show ?thesis using True by fastforce
  next
    case False
    have pr: "cl_protocol (entry_rule rule) \<noteq> 0xFF" using r(2) by (simp add: entry_rule_def)
    obtain ok h c' where add: "add_hw_rule E i (entry_rule rule) a = Some (ok, set_entry i ((cache a ! i)\<lparr>rule_hdl := h\<rparr>) (a\<lparr>drv := c'\<rparr>))"
      and hw: "hw_holds E (nat_table_hdl a) (if ok then (slots a)[i := Some (unat h, entry_rule rule)] else slots a) c'"
      using add_hw_ok [OF c app_okD(3) [OF a] i(1) free_disabled [OF a i] pr] by blast
    show ?thesis
    proof (cases ok)
      case True
      let ?x = "fill_entry rule ((cache a ! i)\<lparr>enabled := True, rule_hdl := h\<rparr>)"
      have turn: "(cache a ! i)\<lparr>rule_hdl := h, enabled := True\<rparr> = (cache a ! i)\<lparr>enabled := True, rule_hdl := h\<rparr>" by simp
      let ?a = "(set_entry i ?x (a\<lparr>drv := c'\<rparr>))\<lparr>curCnt := curCnt a + 1\<rparr>"
      have "AddEntry E rule a = Some (0, ?a)"
        using head False add True len by (simp add: rd_def Let_def turn)
      moreover have "cache_ok ((set_entry i ?x a)\<lparr>curCnt := curCnt a + 1\<rparr>)"
        by (rule filled_ok [OF a i n r]) simp
      then have "cache_ok ?a" by (simp add: cache_ok_def)
      moreover have "slot ?x = Some (unat h, entry_rule rule)" by (simp add: slot_def)
      then have "hw_ok E ?a" using hw True by (simp add: map_update)
      ultimately have "AddEntry E rule a = Some (0, ?a)" "app_ok E ?a" "same_rest a ?a"
        "cache ?a = (cache a)[i := fill_entry rule ((cache a ! i)\<lparr>enabled := \<not> waits_for_power rule a, rule_hdl := h\<rparr>)]"
        using app_okD(1) [OF a] False by (simp_all add: app_ok_def)
      then show ?thesis by blast
    next
      case nok: False
      let ?x = "(cache a ! i)\<lparr>rule_hdl := h\<rparr>"
      let ?a = "set_entry i ?x (a\<lparr>drv := c'\<rparr>)"
      have "AddEntry E rule a = Some (-1, ?a)" using head False add nok by (simp add: Let_def)
      moreover have "entry_ok ?x" using cache_okD(6) [OF c i(1)] i(2)
        by (simp add: entry_ok_def used_def is_free_def)
      then have "cache_ok ?a" using entry_changed [of "a\<lparr>drv := c'\<rparr>" i ?x] c i(1) by (simp add: same_tuple_def)
      moreover have "slot ?x = slots a ! i" using free_disabled [OF a i] len by (simp add: slot_def)
      then have "(slots a)[i := slot ?x] = slots a" by (metis list_update_id)
      then have "hw_ok E ?a" using hw nok by (simp add: map_update)
      ultimately have "AddEntry E rule a = Some (-1, ?a)" "app_ok E ?a" "same_rest a ?a"
        "cache ?a = (cache a)[i := ?x]"
        using app_okD(1) [OF a] by (simp_all add: app_ok_def)
      then show ?thesis using False by blast
    qed
  qed
qed

lemma AddEntry_ok:
  assumes a: "app_ok E a" and p: "protocol rule \<noteq> 0xFF"
  shows "\<exists>r a'. AddEntry E rule a = Some (r, a') \<and> app_ok E a' \<and> same_rest a a' \<and>
     (if nat_table_hdl a = 0 \<or> uses_alg rule a then r = -1 \<and> a' = a
      else if invalid_connection rule then r = 0 \<and> a' = a
      else if cached rule a \<or> (\<forall>i<max_entries a. used (cache a ! i)) then r = -1 \<and> a' = a
      else \<exists>i<max_entries a. \<exists>h. \<not> used (cache a ! i) \<and>
        (r = 0 \<and> cache a' = (cache a)[i := fill_entry rule ((cache a ! i)\<lparr>enabled := \<not> waits_for_power rule a, rule_hdl := h\<rparr>)] \<or>
         r = -1 \<and> \<not> waits_for_power rule a \<and> cache a' = (cache a)[i := (cache a ! i)\<lparr>rule_hdl := h\<rparr>]))"
proof -
  consider (off) "nat_table_hdl a = 0 \<or> uses_alg rule a"
    | (invalid) "\<not> (nat_table_hdl a = 0 \<or> uses_alg rule a)" "invalid_connection rule"
    | (dup) "\<not> (nat_table_hdl a = 0 \<or> uses_alg rule a)" "\<not> invalid_connection rule" "cached rule a"
    | (new) "\<not> (nat_table_hdl a = 0 \<or> uses_alg rule a)" "\<not> invalid_connection rule" "\<not> cached rule a"
    by blast
  then show ?thesis
  proof cases
    case off
    then show ?thesis using a by (auto simp: AddEntry_def uses_alg_def)
  next
    case invalid
    then show ?thesis using a by (simp add: AddEntry_def uses_alg_def)
  next
    case dup
    then show ?thesis using a ChkForDup_exact [OF a] by (simp add: AddEntry_def uses_alg_def)
  next
    case new
    from a show ?thesis
    proof (cases rule: cache_scan [where P = is_free])
      case absent
      then have "\<forall>i<max_entries a. used (cache a ! i)" using free_not_used [OF a] by blast
      moreover have "AddEntry E rule a = Some (-1, a)"
        using new absent(1) ChkForDup_exact [OF a] by (simp add: AddEntry_def uses_alg_def)
      ultimately show ?thesis using new a by auto
    next
      case (present i)
      then have f: "\<not> used (cache a ! i)" using free_not_used [OF a present(2)] by simp
      have "nat_table_hdl a \<noteq> 0" "\<not> uses_alg rule a" using new(1) by simp_all
      then obtain r a' h where res: "AddEntry E rule a = Some (r, a')" "app_ok E a'" "same_rest a a'"
        "r = 0 \<and> cache a' = (cache a)[i := fill_entry rule ((cache a ! i)\<lparr>enabled := \<not> waits_for_power rule a, rule_hdl := h\<rparr>)] \<or>
         r = -1 \<and> \<not> waits_for_power rule a \<and> cache a' = (cache a)[i := (cache a ! i)\<lparr>rule_hdl := h\<rparr>]"
        using add_at [OF a _ present(2) f present(1) new(3) _ new(2) p] by blast
      moreover have "\<not> (cached rule a \<or> (\<forall>i<max_entries a. used (cache a ! i)))" using new(3) f present(2) by blast
      ultimately show ?thesis using new(1,2) present(2) f by (simp only: if_False if_True) blast
    qed
  qed
qed

section \<open>Caching\<close>

lemma CacheEntry_ok:
  assumes a: "app_ok E a" and p: "protocol rule \<noteq> 0xFF"
  shows "\<exists>a'. CacheEntry rule a = Some a' \<and> app_ok E a' \<and> same_rest a a' \<and> drv a' = drv a \<and>
     (if invalid_connection rule \<or> cached rule a \<or> (\<forall>i<max_entries a. used (cache a ! i)) then a' = a
      else \<exists>i<max_entries a. \<not> used (cache a ! i) \<and> cache a' = (cache a)[i :=
        (fill_entry rule ((cache a ! i)\<lparr>enabled := False, rule_hdl := 0\<rparr>))\<lparr>public_ip := public_ip rule\<rparr>])"
proof -
  consider (bad) "invalid_connection rule \<or> cached rule a" | (new) "\<not> invalid_connection rule" "\<not> cached rule a"
    by blast
  then show ?thesis
  proof cases
    case bad
    then show ?thesis using a ChkForDup_exact [OF a] by (auto simp: CacheEntry_def)
  next
    case new
    from a show ?thesis
    proof (cases rule: cache_scan [where P = is_free])
      case absent
      then have "\<forall>i<max_entries a. used (cache a ! i)" using free_not_used [OF a] by blast
      then show ?thesis using new absent(1) ChkForDup_exact [OF a] a by (simp add: CacheEntry_def)
    next
      case (present i)
      then have f: "\<not> used (cache a ! i)" using free_not_used [OF a present(2)] by simp
      let ?x = "(fill_entry rule ((cache a ! i)\<lparr>enabled := False, rule_hdl := 0\<rparr>))\<lparr>public_ip := public_ip rule\<rparr>"
      have "app_ok E ((set_entry i ?x a)\<lparr>curCnt := curCnt a + 1\<rparr>)"
        by (rule filled_off [OF a present(2) f new(2,1) p]) (simp_all add: same_tuple_def fill_entry_def)
      moreover have "CacheEntry rule a = Some ((set_entry i ?x a)\<lparr>curCnt := curCnt a + 1\<rparr>)"
        using new present ChkForDup_exact [OF a] app_rd [OF a present(2)] by (simp add: CacheEntry_def Let_def)
      moreover have "\<not> (invalid_connection rule \<or> cached rule a \<or> (\<forall>i<max_entries a. used (cache a ! i)))"
        using new f present(2) by blast
      ultimately show ?thesis using f present(2) by auto
    qed
  qed
qed

end
