(* ===== verification/NatAppWait.thy ===== *)
theory NatAppWait
  imports NatAppEntries
begin

text \<open>The connections that wait for their client, the time stamps, and the sessions of calls.\<close>

section \<open>Reading a time stamp\<close>

lemma query_spec:
  assumes ok: "nat_ok E c" and h: "nat_rules c (unat h) \<noteq> None"
  shows "\<exists>ts. ipa_nat_query_timestamp 1 h c = Some (RET_0, Some ts)"
proof -
  obtain t m T N C D where c: "ip4_tbl c = [t]"
    and tok: "tables_ok T N (dst_head E c (table_entries t)) t m C D"
    using ok by (auto simp: nat_ok_def)
  note s = tables_okD(1) [OF tok]
  note sp = shaped_parts [OF s]
  let ?h = "ucast h :: 16 word"
  have h16: "0 < unat h" "unat h < 65536" using held_handle [OF ok h] by auto
  have uh: "unat ?h = unat h" using h16(2) by (simp add: unsigned_ucast_eq take_bit_nat_eq_self)
  then have h0: "?h \<noteq> 0" using h16(1) by (metis less_numeral_extra(3) unsigned_0)
  have hid: "ids_at t (unat ?h - 1) \<noteq> 0" using h nat_rules_eq [OF c s, of "unat h"] uh by (auto split: if_splits)
  obtain w e where p: "ipa_nati_parse_ipv4_rule_hdl 0 ?h c = Some (T \<le> e, w)"
    "unat w = (if T \<le> e then e - T else e)" "e \<in> live (rules_at T m)"
    using parse_spec(2) [OF c tok h0 refl hid] by blast
  have "e < N" using subsetD [OF live_entries [OF tok] p(3)] by simp
  then have "\<exists>r. rd (if T \<le> e then ipv4_expn_rules m else ipv4_rules m) (unat w) = Some r"
    using p(2) sp(3) by (auto simp: rd_def lens_def)
  then show ?thesis
    using p(1) c sp(2,4) by (auto simp: ipa_nat_query_timestamp_def bad_tbl_hdl_def ipa_nati_query_timestamp_def)
qed

section \<open>The time stamps\<close>

text \<open>The new time stamp of an entry that the hardware has used since it was last read.\<close>

definition stamp :: "nat_app \<Rightarrow> nat_table_entry \<Rightarrow> 32 word option" where
  "stamp a e =
     (if enabled e \<and> private_ip e \<noteq> public_ip e
      then (case ipa_nat_query_timestamp (nat_table_hdl a) (rule_hdl e) (drv a) of
              Some (RET_0, Some ts) \<Rightarrow> if ts \<noteq> timestamp e then Some ts else None
            | _ \<Rightarrow> None)
      else None)"

definition restamp :: "nat_app \<Rightarrow> nat_table_entry \<Rightarrow> nat_table_entry" where
  "restamp a e = (case stamp a e of Some ts \<Rightarrow> if touInstance a then e\<lparr>timestamp := ts\<rparr> else e | None \<Rightarrow> e)"

definition alive :: "nat_app \<Rightarrow> nat_table_entry list \<Rightarrow> nat_timeout_update list" where
  "alive a es = (if touInstance a then map (\<lambda>e. timeout_update e (pub_ip_addr a)) (filter (\<lambda>e. stamp a e \<noteq> None) es)
     else [])"

lemma alive_snoc: "alive a (es @ [e]) = alive a es @ alive a [e]"
  by (simp add: alive_def)

lemma still [simp]: "stamp a e = None \<or> \<not> touInstance a \<Longrightarrow> restamp a e = e"
  "stamp a e = None \<or> \<not> touInstance a \<Longrightarrow> alive a [e] = []"
  by (auto simp: restamp_def alive_def split: option.splits)

lemma query_enabled:
  assumes a: "app_ok E a" and i: "i < max_entries a" "enabled (cache a ! i)"
  shows "\<exists>ts. ipa_nat_query_timestamp (nat_table_hdl a) (rule_hdl (cache a ! i)) (drv a) = Some (RET_0, Some ts)"
proof -
  let ?e = "cache a ! i"
  have len: "i < length (slots a)" using app_len [OF a] i(1) by simp
  have s: "slots a ! i = Some (unat (rule_hdl ?e), entry_rule ?e)" using len i(2) by (simp add: slot_def)
  then have "Some (unat (rule_hdl ?e), entry_rule ?e) \<in> set (slots a)" using len by (metis nth_mem)
  then have t: "nat_table_hdl a = 1" "nat_ready E (drv a)" "slots_agree (slots a) (nat_rules (drv a))"
    using app_okD(3) [OF a] by (auto simp: hw_holds_def)
  have "nat_rules (drv a) (unat (rule_hdl ?e)) \<noteq> None" using slots_held [OF t(3) len s] by simp
  then show ?thesis using query_spec [of E "drv a"] t(1,2) by (simp add: nat_ready_def)
qed

text \<open>What the loop may change: the cache's time stamps, the timeouts and the calls of the framework.\<close>

definition stamped :: "nat_app \<Rightarrow> nat_table_entry list \<Rightarrow> nat_timeout_update list \<Rightarrow> nat_app \<Rightarrow> bool" where
  "stamped a es us a' \<longleftrightarrow> (\<exists>t u. a' = a\<lparr>cache := es, updates := us, tcp_timeout := t, udp_timeout := u\<rparr>)"

lemma update_ts_turn:
  assumes a: "app_ok E a" and i: "i < max_entries a"
    and s: "stamped a (map (restamp a) (take i (cache a)) @ drop i (cache a)) (rev (alive a (take i (cache a))) @ updates a) s"
  shows "\<exists>b' s'. update_ts_at i (b, s) = Some (b', s') \<and>
     stamped a (map (restamp a) (take (Suc i) (cache a)) @ drop (Suc i) (cache a))
       (rev (alive a (take (Suc i) (cache a))) @ updates a) s'"
proof -
  let ?e = "cache a ! i"
  have len: "i < length (cache a)" using app_len [OF a] i by simp
  obtain t u where s': "s = a\<lparr>cache := map (restamp a) (take i (cache a)) @ drop i (cache a),
      updates := rev (alive a (take i (cache a))) @ updates a, tcp_timeout := t, udp_timeout := u\<rparr>"
    using s by (auto simp: stamped_def)
  have rd: "rd (cache s) i = Some ?e" using s' len by (simp add: rd_def nth_append)
  have up: "(map (restamp a) (take i (cache a)) @ drop i (cache a))[i := restamp a ?e] =
      map (restamp a) (take (Suc i) (cache a)) @ drop (Suc i) (cache a)"
    using len by (simp add: list_update_append take_Suc_conv_app_nth upd_conv_take_nth_drop)
  have snoc: "alive a (take (Suc i) (cache a)) = alive a (take i (cache a)) @ alive a [?e]"
    using len by (simp add: take_Suc_conv_app_nth alive_snoc)
  have same: "s = s\<lparr>tcp_timeout := tcp_timeout s, udp_timeout := udp_timeout s\<rparr>" by simp
  have skip: ?thesis if "update_ts_at i (b, s) = Some (b', r)" "r = s\<lparr>tcp_timeout := t', udp_timeout := u'\<rparr>"
    "stamp a ?e = None \<or> \<not> touInstance a" for b' r t' u'
  proof -
    have "map (restamp a) (take (Suc i) (cache a)) @ drop (Suc i) (cache a) =
        map (restamp a) (take i (cache a)) @ drop i (cache a)"
      using len that(3) by (simp add: take_Suc_conv_app_nth Cons_nth_drop_Suc)
    then show ?thesis using that s' snoc by (auto simp: stamped_def)
  qed
  consider (idle) "\<not> (enabled ?e \<and> private_ip ?e \<noteq> public_ip ?e)"
    | (on) "enabled ?e" "private_ip ?e \<noteq> public_ip ?e" by blast
  then show ?thesis
  proof cases
    case idle
    then have "stamp a ?e = None" by (auto simp: stamp_def)
    moreover have "update_ts_at i (b, s) = Some (b, s)" using rd idle by (auto simp: update_ts_at_def)
    ultimately show ?thesis using skip [OF _ same] by blast
  next
    case on
    obtain ts where q: "ipa_nat_query_timestamp (nat_table_hdl a) (rule_hdl ?e) (drv a) = Some (RET_0, Some ts)"
      using query_enabled [OF a i on(1)] by blast
    then have q': "ipa_nat_query_timestamp (nat_table_hdl s) (rule_hdl ?e) (drv s) = Some (RET_0, Some ts)"
      using s' by simp
    define r where "r = (if \<not> b then Read_TcpUdp_Timeout s else s)"
    obtain t' u' where r: "r = s\<lparr>tcp_timeout := t', udp_timeout := u'\<rparr>"
    proof (cases b)
      case True
      then have "r = s\<lparr>tcp_timeout := tcp_timeout s, udp_timeout := udp_timeout s\<rparr>" by (simp add: r_def)
      then show ?thesis using that by blast
    qed (auto simp: r_def Read_TcpUdp_Timeout_def intro: that)
    have run: "update_ts_at i (b, s) = (if timestamp ?e = ts then Some (b, s)
        else map_option (Pair True) (UpdateCTUdpTs i ts r))"
      using rd on q' by (auto simp: update_ts_at_def r_def map_option_case split: option.splits)
    show ?thesis
    proof (cases "timestamp ?e = ts")
      case True
      then have "stamp a ?e = None" using on q by (simp add: stamp_def)
      then show ?thesis using skip [OF _ same] run True by auto
    next
      case False
      then have st: "stamp a ?e = Some ts" using on q by (simp add: stamp_def)
      have rd': "rd (cache r) i = Some ?e" using rd r by simp
      show ?thesis
      proof (cases "touInstance a")
        case True
        have "restamp a ?e = ?e\<lparr>timestamp := ts\<rparr>" using st True by (simp add: restamp_def)
        moreover have "alive a [?e] = [timeout_update ?e (pub_ip_addr a)]" using st True by (simp add: alive_def)
        moreover have "UpdateCTUdpTs i ts r = Some (set_entry i (?e\<lparr>timestamp := ts\<rparr>)
            (r\<lparr>updates := timeout_update ?e (pub_ip_addr a) # updates s\<rparr>))"
          using rd' r s' True by (simp add: UpdateCTUdpTs_def)
        moreover have "stamped a ((cache s)[i := ?e\<lparr>timestamp := ts\<rparr>]) (timeout_update ?e (pub_ip_addr a) # updates s)
            (set_entry i (?e\<lparr>timestamp := ts\<rparr>) (r\<lparr>updates := timeout_update ?e (pub_ip_addr a) # updates s\<rparr>))"
          unfolding stamped_def using s' r by (intro exI [of _ t'] exI [of _ u']) (simp add: set_entry_def)
        ultimately show ?thesis using run False up snoc s' by auto
      next
        case off: False
        then have "UpdateCTUdpTs i ts r = Some r" using rd' r s' by (simp add: UpdateCTUdpTs_def)
        then show ?thesis using skip [OF _ r] run False off by auto
      qed
    qed
  qed
qed

lemma mapped_cache_ok:
  assumes c: "cache_ok a" and f: "\<And>e. same_tuple e (f e)" "\<And>e. enabled (f e) \<Longrightarrow> enabled e"
  shows "cache_ok (a\<lparr>cache := map f (cache a)\<rparr>)"
proof -
  have u: "used (f e) = used e" for e using same_tuple_used [OF f(1)] .
  have "filter used (map f (cache a)) = map f (filter used (cache a))" by (simp add: filter_map o_def u)
  moreover have "entry_ok (f e)" if "entry_ok e" for e
    using that f(1) [of e] f(2) [of e]
    by (auto simp: entry_ok_def u is_free_def invalid_connection_def same_tuple_def split: if_splits)
  moreover have "same_tuple x y" if "same_tuple (f x) (f y)" for x y
    using same_tuple_trans [OF same_tuple_trans [OF f(1) that] same_tuple_sym [OF f(1)]] .
  then have "no_dup (map f (cache a))"
    using cache_okD(8) [OF c] by (simp add: no_dup_def u)
  ultimately show ?thesis using c by (auto simp: cache_ok_def)
qed

lemma UpdateUDPTimeStamp_ok:
  assumes a: "app_ok E a"
  shows "\<exists>a'. UpdateUDPTimeStamp a = Some a' \<and> app_ok E a' \<and>
     stamped a (map (restamp a) (cache a)) (rev (alive a (cache a)) @ updates a) a'"
proof -
  let ?I = "\<lambda>i p. stamped a (map (restamp a) (take i (cache a)) @ drop i (cache a))
    (rev (alive a (take i (cache a))) @ updates a) (snd p)"
  have "\<exists>p'. update_ts_at i p = Some p' \<and> ?I (Suc i) p'" if "i < max_entries a" "?I i p" for i p
    using update_ts_turn [OF a that(1), of "snd p" "fst p"] that(2) by auto
  moreover have "a = a\<lparr>cache := cache a, updates := updates a, tcp_timeout := tcp_timeout a, udp_timeout := udp_timeout a\<rparr>"
    by simp
  then have "stamped a (cache a) (updates a) a" unfolding stamped_def by blast
  then have "?I 0 (False, a)" by (simp add: alive_def)
  ultimately obtain b a' where r: "for_each update_ts_at [0..<max_entries a] (False, a) = Some (b, a')"
    "stamped a (map (restamp a) (cache a)) (rev (alive a (cache a)) @ updates a) a'"
    using for_each_range [of "max_entries a" ?I update_ts_at 0 "(False, a)"] app_len [OF a] by auto
  have t: "same_tuple e (restamp a e)" "enabled (restamp a e) = enabled e" "slot (restamp a e) = slot e" for e
    by (auto simp: restamp_def same_tuple_def slot_def entry_rule_def split: option.splits)
  have "cache_ok (a\<lparr>cache := map (restamp a) (cache a)\<rparr>)"
    by (rule mapped_cache_ok [OF app_okD(2) [OF a]]) (simp_all add: t)
  then have "app_ok E (a\<lparr>cache := map (restamp a) (cache a)\<rparr>)"
    using a by (simp add: app_ok_def o_def t)
  then have "app_ok E a'" using r(2) by (auto simp: stamped_def)
  then show ?thesis using r by (simp add: UpdateUDPTimeStamp_def)
qed

section \<open>Connections that wait for their client\<close>

lemma AddTempEntry_ok:
  assumes a: "app_ok E a" and p: "protocol rule \<noteq> 0xFF"
  shows "\<exists>a'. AddTempEntry rule a = Some a' \<and> app_ok E a' \<and> (a' = a \<or> (\<exists>i. a' = set_temp i rule a))"
proof (cases "uses_alg rule a \<or> cached rule a")
  case True
  then show ?thesis using a ChkForDup_exact [OF a] by (auto simp: AddTempEntry_def uses_alg_def)
next
  case new: False
  then have head: "AddTempEntry rule a = do {
      x \<leftarrow> find_temp (same_tuple rule) a;
      if x \<noteq> None then Some a
      else do {
        x \<leftarrow> find_temp (\<lambda>e. private_ip e = 0 \<and> target_ip e = 0) a;
        Some (case x of None \<Rightarrow> a | Some cnt \<Rightarrow> set_temp cnt rule a) }}"
    using ChkForDup_exact [OF a] by (simp add: AddTempEntry_def uses_alg_def)
  from a show ?thesis
  proof (cases rule: temp_scan [where P = "same_tuple rule"])
    case absent
    from a show ?thesis
    proof (cases rule: temp_scan [where P = "\<lambda>e. private_ip e = 0 \<and> target_ip e = 0"])
      case full: absent
      then show ?thesis using head absent a by simp
    next
      case (present i)
      then show ?thesis using head absent app_ok_temp [OF a p] by auto
    qed
  next
    case (present i)
    then show ?thesis using head a by simp
  qed
qed

lemma DeleteTempEntry_ok:
  assumes a: "app_ok E a"
  shows "\<exists>a'. DeleteTempEntry rule a = Some a' \<and> app_ok E a' \<and> (a' = a \<or> (\<exists>i. a' = set_temp i zero_entry a))"
  using a
proof (cases rule: temp_scan [where P = "same_tuple rule"])
  case absent
  then show ?thesis using a by (simp add: DeleteTempEntry_def)
next
  case (present i)
  then show ?thesis using app_ok_temp [OF a, of zero_entry i] by (auto simp: DeleteTempEntry_def)
qed

text \<open>What stays the same through a flush: everything but the waiting connections, the cache and the driver.\<close>

definition same_setup :: "nat_app \<Rightarrow> nat_app \<Rightarrow> bool" where
  "same_setup a a' \<longleftrightarrow> (rest a')\<lparr>temp := []\<rparr> = (rest a)\<lparr>temp := []\<rparr>"

lemma same_setupI [intro]: "same_rest a a' \<Longrightarrow> same_setup a a'"
  by (simp add: same_rest_def same_setup_def)

lemma same_setup_refl [simp]: "same_setup a a"
  by (simp add: same_setup_def)

lemma same_setup_trans: "same_setup a b \<Longrightarrow> same_setup b c \<Longrightarrow> same_setup a c"
  by (simp add: same_setup_def)

lemma same_setup_temp [simp]: "same_setup a (set_temp i t a') = same_setup a a'"
  by (simp add: same_setup_def rest_def set_temp_def)

lemma same_setupD:
  assumes "same_setup a a'"
  shows "pub_ip_addr a' = pub_ip_addr a" "pub_ip_addr_pre a' = pub_ip_addr_pre a" "nat_table_hdl a' = nat_table_hdl a"
    "max_entries a' = max_entries a" "PwrSaveIfs a' = PwrSaveIfs a" "pALGPorts a' = pALGPorts a"
proof -
  have "f ((rest a')\<lparr>temp := []\<rparr>) = f ((rest a)\<lparr>temp := []\<rparr>)" for f :: "nat_app \<Rightarrow> 'b"
    using assms by (simp add: same_setup_def)
  note e = this [of pub_ip_addr] this [of pub_ip_addr_pre] this [of nat_table_hdl] this [of max_entries]
    this [of PwrSaveIfs] this [of pALGPorts]
  then show "pub_ip_addr a' = pub_ip_addr a" "pub_ip_addr_pre a' = pub_ip_addr_pre a" "nat_table_hdl a' = nat_table_hdl a"
    "max_entries a' = max_entries a" "PwrSaveIfs a' = PwrSaveIfs a" "pALGPorts a' = pALGPorts a" by simp_all
qed

lemma set_temp_sel [simp]: "cache (set_temp i t a) = cache a" "temp (set_temp i t a) = (temp a)[i := t]"
  "drv (set_temp i t a) = drv a" "max_entries (set_temp i t a) = max_entries a"
  "pub_ip_addr (set_temp i t a) = pub_ip_addr a" "nat_table_hdl (set_temp i t a) = nat_table_hdl a"
  "PwrSaveIfs (set_temp i t a) = PwrSaveIfs a" "pub_ip_addr_pre (set_temp i t a) = pub_ip_addr_pre a"
  by (simp_all add: set_temp_def)

lemma flush_turn:
  assumes s: "app_ok E s" and i: "i < MAX_TEMP_ENTRIES"
  shows "\<exists>s'. flush_temp_at E ip isAdd isDummy i s = Some s' \<and> app_ok E s' \<and> same_setup s s' \<and>
     (\<exists>t. temp s' = (temp s)[i := t] \<and>
        (\<not> isAdd \<longrightarrow> cache s' = cache s \<and>
           t = (if private_ip (temp s ! i) = ip \<or> target_ip (temp s ! i) = ip then zero_entry else temp s ! i)))"
proof -
  let ?t = "temp s ! i"
  note c = app_okD(2) [OF s]
  have rd: "rd (temp s) i = Some ?t" using cache_okD(4) [OF c] i by (simp add: rd_def)
  have p: "protocol ?t \<noteq> 0xFF" using cache_okD(7) [OF c i] .
  have z: "app_ok E (set_temp i zero_entry s)" using app_ok_temp [OF s, of zero_entry i] by simp
  consider (idle) "\<not> (private_ip ?t = ip \<or> target_ip ?t = ip)"
    | (drop) "private_ip ?t = ip \<or> target_ip ?t = ip" "\<not> (isAdd \<and> public_ip ?t = pub_ip_addr s)"
    | (add) "private_ip ?t = ip \<or> target_ip ?t = ip" "isAdd" "public_ip ?t = pub_ip_addr s"
    by blast
  then show ?thesis
  proof cases
    case idle
    then show ?thesis using rd s by (auto simp: flush_temp_at_def intro!: exI [of _ ?t])
  next
    case drop
    then show ?thesis using rd z by (auto simp: flush_temp_at_def)
  next
    case add
    define t where "t = (if isDummy then ?t\<lparr>private_ip := public_ip ?t, private_port := public_port ?t\<rparr> else ?t)"
    have pt: "protocol t \<noteq> 0xFF" using p by (simp add: t_def)
    have s1: "app_ok E (set_temp i t s)" using app_ok_temp [OF s pt] .
    obtain r s2 where s2: "AddEntry E t (set_temp i t s) = Some (r, s2)" "app_ok E s2" "same_rest (set_temp i t s) s2"
      using AddEntry_ok [OF s1 pt] by blast
    have run: "flush_temp_at E ip isAdd isDummy i s = Some (if r \<noteq> 0 then s2 else set_temp i zero_entry s2)"
      using rd add s2(1) by (auto simp: flush_temp_at_def t_def Let_def)
    have t2: "temp s2 = (temp s)[i := t]" using same_restD(1) [OF s2(3)] by simp
    have "same_setup s s2" using same_setup_trans [OF _ same_setupI [OF s2(3)], of s] by simp
    then show ?thesis using run s2(2) app_ok_temp [OF s2(2), of zero_entry i] t2 add(2)
      by (cases "r = 0") auto
  qed
qed

lemma FlushTempEntries_ok:
  assumes a: "app_ok E a"
  shows "\<exists>a'. FlushTempEntries E ip isAdd isDummy a = Some a' \<and> app_ok E a' \<and> same_setup a a' \<and>
     (\<not> isAdd \<longrightarrow> cache a' = cache a \<and> (\<forall>i<MAX_TEMP_ENTRIES. temp a' ! i =
        (if private_ip (temp a ! i) = ip \<or> target_ip (temp a ! i) = ip then zero_entry else temp a ! i)))"
proof -
  let ?new = "\<lambda>t. if private_ip t = ip \<or> target_ip t = ip then zero_entry else t"
  let ?I = "\<lambda>i s. app_ok E s \<and> same_setup a s \<and> (\<not> isAdd \<longrightarrow> cache s = cache a \<and>
     (\<forall>j<MAX_TEMP_ENTRIES. temp s ! j = (if j < i then ?new (temp a ! j) else temp a ! j)))"
  have "\<exists>s'. flush_temp_at E ip isAdd isDummy i s = Some s' \<and> ?I (Suc i) s'"
    if i: "i < MAX_TEMP_ENTRIES" and I: "?I i s" for i s
  proof -
    obtain s' t where s': "flush_temp_at E ip isAdd isDummy i s = Some s'" "app_ok E s'" "same_setup s s'"
      "temp s' = (temp s)[i := t]" "\<not> isAdd \<longrightarrow> cache s' = cache s \<and> t = ?new (temp s ! i)"
      using flush_turn [of E s i ip isAdd isDummy] i I by blast
    have len: "length (temp s) = MAX_TEMP_ENTRIES" using I cache_okD(4) app_okD(2) by blast
    have "cache s' = cache a \<and> (\<forall>j<MAX_TEMP_ENTRIES. temp s' ! j = (if j < Suc i then ?new (temp a ! j) else temp a ! j))"
      if n: "\<not> isAdd"
    proof (intro conjI allI impI)
      show "cache s' = cache a" using n I s'(5) by simp
      fix j assume j: "j < MAX_TEMP_ENTRIES"
      show "temp s' ! j = (if j < Suc i then ?new (temp a ! j) else temp a ! j)"
        using n I s'(4,5) j i len by (cases "j = i") (auto simp: less_Suc_eq)
    qed
    then show ?thesis using s'(1,2) same_setup_trans [OF _ s'(3), of a] I by blast
  qed
  moreover have "?I 0 a" using a by simp
  ultimately obtain a' where "for_each (flush_temp_at E ip isAdd isDummy) [0..<MAX_TEMP_ENTRIES] a = Some a'"
    "?I MAX_TEMP_ENTRIES a'"
    using for_each_range [of MAX_TEMP_ENTRIES ?I "flush_temp_at E ip isAdd isDummy" 0 a] by blast
  then show ?thesis by (auto simp: FlushTempEntries_def)
qed

end
