(* ===== verification/NatAppProps.thy ===== *)
theory NatAppProps
  imports NatAppWait
begin

text \<open>
  The properties of the connection manager's cache: what adding, deleting and power save do to the cache and to the
  rules in the hardware, and which connections the framework is told of.
\<close>

section \<open>Cache and hardware\<close>

text \<open>The rules the hardware translates by.\<close>

definition hw_rules :: "nat_app \<Rightarrow> ipa_nat_ipv4_rule set" where
  "hw_rules a = ran (nat_rules (drv a))"

lemma no_table_rules: "no_table c \<Longrightarrow> nat_rules c = Map.empty"
  by (auto simp: no_table_def nat_rules_def zero_table_def fun_eq_iff)

lemma hw_mirror:
  assumes "app_ok E a"
  shows "nat_rules (drv a) h = Some r \<longleftrightarrow> (\<exists>e\<in>set (cache a). enabled e \<and> unat (rule_hdl e) = h \<and> entry_rule e = r)"
proof -
  have "Some (h, r) \<in> set (slots a) \<longleftrightarrow> (\<exists>e\<in>set (cache a). enabled e \<and> unat (rule_hdl e) = h \<and> entry_rule e = r)"
    by (auto simp: slot_def image_iff split: if_splits)
  moreover have "nat_rules (drv a) h = Some r \<longleftrightarrow> Some (h, r) \<in> set (slots a)"
    using app_okD(3) [OF assms] no_table_rules by (auto simp: hw_holds_def slots_agree_def)
  ultimately show ?thesis by simp
qed

lemma hw_rules_exact: "app_ok E a \<Longrightarrow> hw_rules a = {entry_rule e |e. e \<in> set (cache a) \<and> enabled e}"
  unfolding hw_rules_def ran_def using hw_mirror by fastforce

lemma hw_rules_at:
  assumes "app_ok E a"
  shows "hw_rules a = {entry_rule (cache a ! i) |i. i < max_entries a \<and> enabled (cache a ! i)}"
  unfolding hw_rules_exact [OF assms] using app_len [OF assms] by (auto simp: in_set_conv_nth)

section \<open>Instances\<close>

definition small_config :: ipacm_config where
  "small_config = \<lparr>ipa_nat_max_entries = 5, alg_table = [(6, 21)], private_subnet_table = [(0xC0A80000, 0xFFFF0000)],
     pNatIfaces = [''wlan0''], ipacm_ip_passthrough_mode = False\<rparr>"

definition blank_app :: nat_app where
  "blank_app = \<lparr>cache = [], temp = [], pub_ip_addr = 0, pub_ip_addr_pre = 0, nat_table_hdl = 0, curCnt = 0,
     max_entries = 0, pALGPorts = [], tcp_timeout = 0, udp_timeout = 0,
     PwrSaveIfs = replicate IPA_MAX_NUM_WIFI_CLIENTS 0, drv = nat_start 5, touInstance = True, updates = []\<rparr>"

definition fresh_app :: nat_app where
  "fresh_app = snd (Init (Some small_config) True True (NatApp blank_app))"

definition app_up :: nat_app where
  "app_up = snd (the (AddTable plain_kernel 0x0A000001 fresh_app))"

definition conn :: "32 word \<Rightarrow> nat_table_entry" where
  "conn ip = zero_entry\<lparr>private_ip := ip, private_port := 5, target_ip := 9, target_port := 80, public_port := 7,
     protocol := 6\<rparr>"

lemma fresh_app_ok: "app_ok plain_kernel fresh_app" "nat_table_hdl fresh_app = 0"
proof -
  have "app_ok plain_kernel fresh_app \<and> nat_table_hdl fresh_app = 0"
    using Init_ok [OF plain_kernel_contract, of blank_app small_config] start_facts
    unfolding fresh_app_def by (auto simp: blank_app_def small_config_def)
  then show "app_ok plain_kernel fresh_app" "nat_table_hdl fresh_app = 0" by simp_all
qed

lemma app_up_ok: "app_ok plain_kernel app_up" "nat_table_hdl app_up = 1"
  using AddTable_ok [OF fresh_app_ok, of "0x0A000001"] unfolding app_up_def by auto

lemma conn_parts [simp]: "protocol (conn ip) = 6" "private_ip (conn ip) = ip" "\<not> is_free (conn ip)"
  by (simp_all add: conn_def is_free_def)

section \<open>Properties\<close>

lemma switched_rule: "switched_on e x \<Longrightarrow> x = zero_entry \<or> same_tuple e x \<and> enabled x \<and> public_port x = public_port e"
  by (auto simp: switched_on_def same_tuple_def)

lemma hw_rules_filled:
  assumes a: "app_ok E a" "app_ok E a'" and i: "i < max_entries a" "\<not> used (cache a ! i)"
    and c: "cache a' = (cache a)[i := x]"
  shows "hw_rules a' = (if enabled x then {entry_rule x} else {}) \<union> hw_rules a"
proof -
  have len: "i < length (cache a)" using app_len [OF a(1)] i(1) by simp
  have off: "\<not> enabled (cache a ! i)" using free_disabled [OF a(1) i] .
  have "set ((cache a)[i := x]) = insert x {cache a ! j |j. j < length (cache a) \<and> j \<noteq> i}"
    using len by (auto simp: in_set_conv_nth nth_list_update split: if_splits)
  moreover have "set (cache a) = insert (cache a ! i) {cache a ! j |j. j < length (cache a) \<and> j \<noteq> i}"
    using len by (auto simp: in_set_conv_nth)
  ultimately show ?thesis
    unfolding hw_rules_exact [OF a(1)] hw_rules_exact [OF a(2)] c using off by auto
qed



lemma del_hw_count: "del_hw_rule E h a = Some (ok, a') \<Longrightarrow> curCnt a' = curCnt a"
  by (auto simp: del_hw_rule_def split: Option.bind_splits)

lemma curCnt_deleted:
  assumes a: "app_ok E a" and d: "DeleteEntry E rule a = Some a'"
  shows "curCnt a' = curCnt a - (if cached rule a then 1 else 0)"
  using a
proof (cases rule: cache_scan [where P = "same_tuple rule"])
  case absent
  then show ?thesis using d by (simp add: DeleteEntry_def cached_def)
next
  case (present i)
  then have "cached rule a" by (auto simp: cached_def)
  then show ?thesis using d present(1) app_rd [OF a present(2)] del_hw_count
    by (auto simp: DeleteEntry_def split: if_splits Option.bind_splits)
qed

text \<open>
  Deleting a connection. DeleteEntry takes exactly the given connection out of the cache and its rule out of the hardware: afterwards
  it is not cached, every other entry is as it was, and the hardware holds the rules of the entries that are enabled.
\<close>
lemma delete_entry_exact:
  assumes a: "app_ok E a" and r: "\<not> is_free rule"
  shows "\<exists>a'. DeleteEntry E rule a = Some a' \<and> \<not> cached rule a' \<and>
     (\<forall>i<max_entries a. cache a' ! i = (if same_tuple rule (cache a ! i) then zero_entry else cache a ! i)) \<and>
     curCnt a' = curCnt a - (if cached rule a then 1 else 0) \<and>
     hw_rules a' = {entry_rule (cache a ! i) |i. i < max_entries a \<and> enabled (cache a ! i) \<and> \<not> same_tuple rule (cache a ! i)}"
proof -
  obtain a' where d: "DeleteEntry E rule a = Some a'" "app_ok E a'" "same_rest a a'"
    "\<forall>i<max_entries a. cache a' ! i = (if same_tuple rule (cache a ! i) then zero_entry else cache a ! i)"
    using DeleteEntry_ok [OF a r] by blast
  have m: "max_entries a' = max_entries a" using same_restD(5) [OF d(3)] .
  have z: "\<not> same_tuple rule zero_entry" using r by (auto simp: same_tuple_def is_free_def zero_entry_def)
  have "\<not> cached rule a'" using d(4) m z by (auto simp: cached_def)
  moreover have "hw_rules a' = {entry_rule (cache a ! i) |i. i < max_entries a \<and> enabled (cache a ! i) \<and> \<not> same_tuple rule (cache a ! i)}"
    unfolding hw_rules_at [OF d(2)] m using d(4) by (auto split: if_splits) force+
  moreover have "curCnt a' = curCnt a - (if cached rule a then 1 else 0)"
    using curCnt_deleted [OF a d(1)] .
  ultimately show ?thesis using d(1,4) by blast
qed

text \<open>
  Power save. When a client that is not in power save enters it, no entry with its private address stays enabled, the hardware keeps
  exactly the rules of the other private addresses, no connection is forgotten, and while a place is free in the list the
  client's new connections are cached only.
\<close>
lemma power_save_silences:
  assumes a: "app_ok E a" and ip: "ip \<noteq> 0" "ip \<notin> set (PwrSaveIfs a)"
  shows "\<exists>a'. UpdatePwrSaveIf E ip a = Some (0, a') \<and>
     (\<forall>i<max_entries a. same_tuple (cache a ! i) (cache a' ! i) \<and>
        enabled (cache a' ! i) = (enabled (cache a ! i) \<and> private_ip (cache a ! i) \<noteq> ip)) \<and>
     hw_rules a' = {r \<in> hw_rules a. cl_private_ip r \<noteq> ip} \<and>
     (0 \<in> set (PwrSaveIfs a) \<longrightarrow> (\<forall>rule. private_ip rule = ip \<longrightarrow> waits_for_power rule a'))"
proof -
  obtain a' ps where u: "UpdatePwrSaveIf E ip a = Some (0, a')" "app_ok E a'" "rest a' = (rest a)\<lparr>PwrSaveIfs := ps\<rparr>"
    "if 0 \<in> set (PwrSaveIfs a)
     then \<exists>i. i < length (PwrSaveIfs a) \<and> PwrSaveIfs a ! i = 0 \<and> ps = (PwrSaveIfs a)[i := ip] else ps = PwrSaveIfs a"
    "\<forall>i<max_entries a. if private_ip (cache a ! i) = ip \<and> enabled (cache a ! i)
           then cache a' ! i = (cache a ! i)\<lparr>enabled := False, rule_hdl := 0\<rparr> else cache a' ! i = cache a ! i"
    using UpdatePwrSaveIf_ok [OF a ip(1)] ip(2) by auto
  have m: "max_entries a' = max_entries a" "PwrSaveIfs a' = ps"
    using arg_cong [OF u(3), of max_entries] arg_cong [OF u(3), of PwrSaveIfs] by simp_all
  have e: "same_tuple (cache a ! i) (cache a' ! i) \<and>
      enabled (cache a' ! i) = (enabled (cache a ! i) \<and> private_ip (cache a ! i) \<noteq> ip) \<and>
      entry_rule (cache a' ! i) = entry_rule (cache a ! i)" if "i < max_entries a" for i
    using spec [OF u(5), of i] that by (auto simp: same_tuple_def entry_rule_def split: if_splits)
  have "hw_rules a' = {r \<in> hw_rules a. cl_private_ip r \<noteq> ip}"
    unfolding hw_rules_at [OF a] hw_rules_at [OF u(2)] m(1) using e by (auto simp: entry_rule_def) metis+
  moreover have "waits_for_power rule a'" if "0 \<in> set (PwrSaveIfs a)" "private_ip rule = ip" for rule
    using u(4) that ip(1) m(2) by (auto simp: waits_for_power_def in_power_save_def set_update_memI)
  ultimately show ?thesis using u(1) e by blast
qed

lemma app_up_awake: "(3 :: 32 word) \<notin> set (PwrSaveIfs app_up)"
proof -
  obtain a where a: "AddTable plain_kernel 0x0A000001 fresh_app = Some (0, a)"
    "rest a = (rest fresh_app)\<lparr>nat_table_hdl := 1, pub_ip_addr := 0x0A000001\<rparr>"
    using AddTable_ok [OF fresh_app_ok, of "0x0A000001"] by blast
  have "PwrSaveIfs app_up = PwrSaveIfs fresh_app"
    using arg_cong [OF a(2), of PwrSaveIfs] a(1) by (simp add: app_up_def)
  also have "\<dots> = replicate IPA_MAX_NUM_WIFI_CLIENTS 0"
    by (simp add: fresh_app_def Init_def small_config_def NatApp_def blank_app_def)
  finally show ?thesis by simp
qed

text \<open>
  Leaving power save undoes entering it. After both, the list of clients in power save is what it was, each entry of another
  client is as it was, and each entry of the client is enabled again, or was dropped because the driver refused it. The
  call that leaves power save returns -1 nevertheless.
\<close>
lemma power_save_roundtrip:
  assumes a: "app_ok E a" and ip: "ip \<noteq> 0" "ip \<notin> set (PwrSaveIfs a)"
  shows "\<exists>a1 a2. UpdatePwrSaveIf E ip a = Some (0, a1) \<and> ResetPwrSaveIf E ip a1 = Some (-1, a2) \<and>
     PwrSaveIfs a2 = PwrSaveIfs a \<and>
     (\<forall>i<max_entries a. if private_ip (cache a ! i) = ip
        then cache a2 ! i = zero_entry \<or> same_tuple (cache a ! i) (cache a2 ! i) \<and> enabled (cache a2 ! i) \<and>
          public_port (cache a2 ! i) = public_port (cache a ! i)
        else cache a2 ! i = cache a ! i)"
proof -
  obtain a1 ps where u: "UpdatePwrSaveIf E ip a = Some (0, a1)" "app_ok E a1" "rest a1 = (rest a)\<lparr>PwrSaveIfs := ps\<rparr>"
    "if 0 \<in> set (PwrSaveIfs a)
     then \<exists>i. i < length (PwrSaveIfs a) \<and> PwrSaveIfs a ! i = 0 \<and> ps = (PwrSaveIfs a)[i := ip] else ps = PwrSaveIfs a"
    "\<forall>i<max_entries a. if private_ip (cache a ! i) = ip \<and> enabled (cache a ! i)
           then cache a1 ! i = (cache a ! i)\<lparr>enabled := False, rule_hdl := 0\<rparr> else cache a1 ! i = cache a ! i"
    using UpdatePwrSaveIf_ok [OF a ip(1)] ip(2) by auto
  have m: "max_entries a1 = max_entries a" "PwrSaveIfs a1 = ps"
    using arg_cong [OF u(3), of max_entries] arg_cong [OF u(3), of PwrSaveIfs] by simp_all
  obtain a2 qs where r: "ResetPwrSaveIf E ip a1 = Some (-1, a2)" "rest a2 = (rest a1)\<lparr>PwrSaveIfs := qs\<rparr>"
    "if ip \<in> set ps then \<exists>i. i < length ps \<and> ps ! i = ip \<and> qs = ps[i := 0] else qs = ps"
    "\<forall>i<max_entries a. if private_ip (cache a1 ! i) = ip \<and> \<not> enabled (cache a1 ! i)
        then switched_on (cache a1 ! i) (cache a2 ! i) else cache a2 ! i = cache a1 ! i"
    using ResetPwrSaveIf_ok [OF u(2) ip(1)] unfolding m by blast
  have "PwrSaveIfs a2 = qs" using arg_cong [OF r(2), of PwrSaveIfs] by simp
  moreover have "qs = PwrSaveIfs a"
  proof (cases "0 \<in> set (PwrSaveIfs a)")
    case True
    then obtain i where i: "i < length (PwrSaveIfs a)" "PwrSaveIfs a ! i = 0" "ps = (PwrSaveIfs a)[i := ip]" using u(4) by auto
    then have "ip \<in> set ps" by (simp add: set_update_memI)
    then obtain j where j: "j < length ps" "ps ! j = ip" "qs = ps[j := 0]" using r(3) by auto
    have "j = i" using i j ip(2) by (metis length_list_update nth_list_update_neq nth_mem)
    then show ?thesis using i j by (metis list_update_id list_update_overwrite)
  next
    case False
    then show ?thesis using u(4) r(3) ip(2) by simp
  qed
  moreover have "if private_ip (cache a ! i) = ip
      then cache a2 ! i = zero_entry \<or> same_tuple (cache a ! i) (cache a2 ! i) \<and> enabled (cache a2 ! i) \<and>
        public_port (cache a2 ! i) = public_port (cache a ! i)
      else cache a2 ! i = cache a ! i" if "i < max_entries a" for i
  proof -
    have e: "private_ip (cache a1 ! i) = private_ip (cache a ! i)" "same_tuple (cache a ! i) (cache a1 ! i)"
      "public_port (cache a1 ! i) = public_port (cache a ! i)"
      "private_ip (cache a ! i) = ip \<longrightarrow> \<not> enabled (cache a1 ! i)"
      "private_ip (cache a ! i) \<noteq> ip \<longrightarrow> cache a1 ! i = cache a ! i"
      using spec [OF u(5), of i] that by (auto simp: same_tuple_def split: if_splits)
    show ?thesis
    proof (cases "private_ip (cache a ! i) = ip")
      case True
      then have "switched_on (cache a1 ! i) (cache a2 ! i)" using r(4) e(1,4) that by auto
      then show ?thesis using switched_rule same_tuple_trans [OF e(2)] e(3) True by metis
    next
      case False
      then show ?thesis using r(4) e(1,5) that by auto
    qed
  qed
  ultimately show ?thesis using u(1) r(1) by blast
qed

text \<open>
  The framework is told of exactly the connections that are alive. UpdateUDPTimeStamp calls updateTimeout once, in the order of the
  cache, for each enabled entry whose time stamp in the hardware is not the cached one (an entry whose recorded public address is its private one excepted), caches that stamp, and changes
  nothing else but the timeouts; without a registered framework it only reads.
\<close>
lemma timestamps_exact:
  assumes a: "app_ok E a"
  shows "\<exists>a' t u. UpdateUDPTimeStamp a = Some a' \<and>
     a' = a\<lparr>cache := map (restamp a) (cache a), updates := rev (alive a (cache a)) @ updates a,
            tcp_timeout := t, udp_timeout := u\<rparr> \<and>
     (\<forall>e\<in>set (cache a). enabled e \<longrightarrow>
        (\<exists>ts. ipa_nat_query_timestamp (nat_table_hdl a) (rule_hdl e) (drv a) = Some (RET_0, Some ts)))"
proof -
  obtain a' where "UpdateUDPTimeStamp a = Some a'"
    "stamped a (map (restamp a) (cache a)) (rev (alive a (cache a)) @ updates a) a'"
    using UpdateUDPTimeStamp_ok [OF a] by blast
  moreover have "\<exists>ts. ipa_nat_query_timestamp (nat_table_hdl a) (rule_hdl e) (drv a) = Some (RET_0, Some ts)"
    if "e \<in> set (cache a)" "enabled e" for e
    using query_enabled [OF a] that app_len [OF a] by (auto simp: in_set_conv_nth)
  ultimately show ?thesis by (auto simp: stamped_def)
qed

end
