(* ===== verification/CtListener.thy ===== *)
theory CtListener
  imports NatApp
begin

text \<open>
  The connection manager's listener, \<open>hardware/data-ipa-cfg-mgr/ipacm/src/IPACM_ConntrackListener.cpp\<close> as the
  Android build compiles it (without \<open>CT_OPT\<close>): it turns the events of the network and of the connection tracking
  into calls of \<open>NatApp\<close>. A handler gives \<open>None\<close> where it would dereference the null pointer \<open>nat_inst\<close>, or where
  the calls below it do.
\<close>

section \<open>State\<close>

text \<open>The attributes that are read from a connection of \<open>libnetfilter_conntrack\<close>, in network order as they are.\<close>

record nf_conntrack =
  ATTR_STATUS :: "32 word"
  ATTR_TCP_STATE :: "8 word"
  ATTR_ORIG_L4PROTO :: "8 word"
  ATTR_REPL_L4PROTO :: "8 word"
  ATTR_ORIG_IPV4_SRC :: "32 word"
  ATTR_ORIG_IPV4_DST :: "32 word"
  ATTR_ORIG_PORT_SRC :: "16 word"
  ATTR_ORIG_PORT_DST :: "16 word"
  ATTR_REPL_IPV4_SRC :: "32 word"
  ATTR_REPL_PORT_SRC :: "16 word"
  ATTR_REPL_PORT_DST :: "16 word"

datatype nfct_type = NFCT_T_NEW | NFCT_T_UPDATE | NFCT_T_DESTROY

abbreviation (input) IPS_SRC_NAT :: "32 word" where "IPS_SRC_NAT \<equiv> 0x10"
abbreviation (input) IPS_DST_NAT :: "32 word" where "IPS_DST_NAT \<equiv> 0x20"
abbreviation (input) TCP_CONNTRACK_ESTABLISHED :: "8 word" where "TCP_CONNTRACK_ESTABLISHED \<equiv> 3"
abbreviation (input) TCP_CONNTRACK_FIN_WAIT :: "8 word" where "TCP_CONNTRACK_FIN_WAIT \<equiv> 4"
abbreviation (input) IPPROTO_TCP :: "8 word" where "IPPROTO_TCP \<equiv> 6"
abbreviation (input) IPPROTO_UDP :: "8 word" where "IPPROTO_UDP \<equiv> 17"

record ipacm_event_iface_up =
  up_ifname :: string
  up_ipv4_addr :: "32 word"
  up_is_sta :: bool

record ipacm_event_data_all =
  ev_is_v4 :: bool
  ev_if_index :: nat
  ev_ipv4_addr :: "32 word"

datatype ct_thread = TCP_CT_LISTENER | UDP_CT_LISTENER | UDP_CONN_TIMEOUT

definition MAX_IFACE_ADDRESS :: nat where "MAX_IFACE_ADDRESS = 50"
definition MAX_STA_CLNT_IFACES :: nat where "MAX_STA_CLNT_IFACES = 10"
abbreviation (input) STA_CLNT_SUBNET_MASK :: "32 word" where "STA_CLNT_SUBNET_MASK \<equiv> 0xFFFFFF00"

text \<open>
  \<open>threads\<close> are those started, \<open>thread_answers\<close> the results of the next calls of \<open>pthread_create\<close> (which succeeds
  when the list is empty), \<open>filters_for\<close> the interfaces whose addresses were given to the filters of
  \<open>IPACM_ConntrackClient\<close>, and \<open>curr_wan_ip\<close> the variable of \<open>IPACM_Wan\<close>.
\<close>

record ct_listener =
  isCTReg :: bool
  isNatThreadStart :: bool
  WanUp :: bool
  nat_inst :: "nat_app option"
  NatIfaceCnt :: nat
  StaClntCnt :: nat
  nat_iface_ipv4_addr :: "32 word list"
  nonnat_iface_ipv4_addr :: "32 word list"
  sta_clnt_ipv4_addr :: "32 word list"
  wan_ifname :: string
  wan_ipaddr :: "32 word"
  isStaMode :: bool
  pConfig :: ipacm_config
  curr_wan_ip :: "32 word"
  threads :: "ct_thread list"
  thread_answers :: "bool list"
  filters_for :: "ipacm_event_iface_up list"

text \<open>
  What is outside: the NAT driver's environment, the name of an interface as the kernel tells it (\<open>None\<close> when the
  socket or the \<open>ioctl\<close> fails), and whether memory for the names of the NAT interfaces is there.
\<close>

record ct_env =
  nenv :: nat_env
  ifname_of :: "nat \<Rightarrow> string option"
  ifaces_alloc :: bool

text \<open>The constructor leaves \<open>wan_ipaddr\<close>, \<open>wan_ifname\<close> and \<open>isStaMode\<close> as the memory has them.\<close>

definition IPACM_ConntrackListener :: "nat_app option \<Rightarrow> ipacm_config \<Rightarrow> ct_listener \<Rightarrow> ct_listener" where
  "IPACM_ConntrackListener inst cfg memory = memory\<lparr>isNatThreadStart := False, isCTReg := False, WanUp := False,
     nat_inst := inst, NatIfaceCnt := 0, StaClntCnt := 0, pConfig := cfg,
     nat_iface_ipv4_addr := replicate MAX_IFACE_ADDRESS 0, nonnat_iface_ipv4_addr := replicate MAX_IFACE_ADDRESS 0,
     sta_clnt_ipv4_addr := replicate MAX_STA_CLNT_IFACES 0\<rparr>"

definition ntohs :: "16 word \<Rightarrow> 16 word" where
  "ntohs w = push_bit 8 (w AND 0xFF) OR drop_bit 8 w"

abbreviation (input) ntohl :: "32 word \<Rightarrow> 32 word" where "ntohl \<equiv> htonl"

definition on_app :: "(nat_app \<Rightarrow> nat_app option) \<Rightarrow> ct_listener \<Rightarrow> ct_listener option" where
  "on_app f l = (case nat_inst l of None \<Rightarrow> None | Some a \<Rightarrow> map_option (\<lambda>a. l\<lparr>nat_inst := Some a\<rparr>) (f a))"

abbreviation (input) ignore :: "(nat_app \<Rightarrow> (int \<times> nat_app) option) \<Rightarrow> nat_app \<Rightarrow> nat_app option" where
  "ignore f \<equiv> (\<lambda>a. map_option snd (f a))"

section \<open>Threads\<close>

definition pthread_create :: "ct_thread \<Rightarrow> ct_listener \<Rightarrow> bool \<times> ct_listener" where
  "pthread_create t l = (case thread_answers l of
     [] \<Rightarrow> (True, l\<lparr>threads := t # threads l\<rparr>)
   | ok # as \<Rightarrow> (ok, (if ok then l\<lparr>threads := t # threads l\<rparr> else l)\<lparr>thread_answers := as\<rparr>))"

definition CreateConnTrackThreads :: "ct_listener \<Rightarrow> int \<times> ct_listener" where
  "CreateConnTrackThreads l =
     (if isCTReg l then (0, l)
      else let (tcp, l) = pthread_create TCP_CT_LISTENER l
           in if \<not> tcp then (-1, l)
              else let (udp, l) = pthread_create UDP_CT_LISTENER l
                   in if \<not> udp then (-1, l) else (0, l\<lparr>isCTReg := True\<rparr>))"

definition CreateNatThreads :: "ct_listener \<Rightarrow> int \<times> ct_listener" where
  "CreateNatThreads l =
     (if isNatThreadStart l then (0, l)
      else let (udpcto, l) = pthread_create UDP_CONN_TIMEOUT l
           in if \<not> udpcto then (-1, l) else (0, l\<lparr>isNatThreadStart := True\<rparr>))"

section \<open>The WAN interface\<close>

definition TriggerWANDown :: "32 word \<Rightarrow> ct_listener \<Rightarrow> ct_listener option" where
  "TriggerWANDown wan_addr l = (case nat_inst l of
     None \<Rightarrow> Some l
   | Some a \<Rightarrow> do {
       (r, a) \<leftarrow> DeleteTable wan_addr a;
       let l = l\<lparr>nat_inst := Some a\<rparr>;
       Some (if r \<noteq> 0 then l else l\<lparr>WanUp := False, wan_ipaddr := 0\<rparr>) })"

definition TriggerWANUp :: "ct_env \<Rightarrow> ipacm_event_iface_up \<Rightarrow> ct_listener \<Rightarrow> ct_listener option" where
  "TriggerWANUp E wanup_data l =
     (if up_ipv4_addr wanup_data = 0 then Some l
      else if WanUp l \<and> wan_ipaddr l = up_ipv4_addr wanup_data then Some l
      else do {
        l \<leftarrow> (if WanUp l then TriggerWANDown (wan_ipaddr l) l else Some l);
        let l = l\<lparr>WanUp := True, isStaMode := up_is_sta wanup_data, wan_ipaddr := up_ipv4_addr wanup_data,
                 wan_ifname := up_ifname wanup_data\<rparr>;
        l \<leftarrow> (if nat_inst l \<noteq> None then on_app (ignore (AddTable (nenv E) (up_ipv4_addr wanup_data))) l else Some l);
        Some (snd (CreateNatThreads l)) })"

section \<open>Clients\<close>

text \<open>The result: the return value, and whether the interface is a NAT interface.\<close>

definition IPA_IFACE_NAME_LEN :: nat where "IPA_IFACE_NAME_LEN = 16"

definition CheckNatIface :: "ct_env \<Rightarrow> ipacm_event_data_all \<Rightarrow> ct_listener \<Rightarrow> (bool \<times> bool) \<times> ct_listener" where
  "CheckNatIface E data l =
     (if ev_ipv4_addr data = 0 \<or> \<not> ev_is_v4 data then ((False, False), l)
      else let l = l\<lparr>NatIfaceCnt := length (pNatIfaces (pConfig l))\<rparr>
           in if \<not> ifaces_alloc E \<or> NatIfaceCnt l = 0 then ((False, False), l)
              else (case ifname_of E (ev_if_index data) of
                      None \<Rightarrow> ((False, False), l)
                    | Some ifr_name \<Rightarrow>
                        ((True, \<exists>n \<in> set (pNatIfaces (pConfig l)).
                           take IPA_IFACE_NAME_LEN ifr_name = take IPA_IFACE_NAME_LEN n), l)))"

definition HandleNonNatIPAddr :: "ct_env \<Rightarrow> ipacm_event_data_all \<Rightarrow> bool \<Rightarrow> ct_listener \<Rightarrow> ct_listener option" where
  "HandleNonNatIPAddr E data AddOp l =
     (if isStaMode l then Some l
      else if AddOp then
        let ((success, NatIface), l) = CheckNatIface E data l in
        if NatIface \<or> \<not> success then Some l
        else do {
          x \<leftarrow> scan (\<lambda>y. y = 0) (nonnat_iface_ipv4_addr l) [0..<MAX_IFACE_ADDRESS];
          (case x of
             None \<Rightarrow> Some l
           | Some cnt \<Rightarrow>
               on_app (FlushTempEntries (nenv E) (ev_ipv4_addr data) True True)
                 (l\<lparr>nonnat_iface_ipv4_addr := (nonnat_iface_ipv4_addr l)[cnt := ev_ipv4_addr data]\<rparr>)) }
      else do {
        x \<leftarrow> scan (\<lambda>y. y = ev_ipv4_addr data) (nonnat_iface_ipv4_addr l) [0..<MAX_IFACE_ADDRESS];
        (case x of
           None \<Rightarrow> Some l
         | Some cnt \<Rightarrow> do {
             l \<leftarrow> on_app (FlushTempEntries (nenv E) (ev_ipv4_addr data) False False)
               (l\<lparr>nonnat_iface_ipv4_addr := (nonnat_iface_ipv4_addr l)[cnt := 0]\<rparr>);
             on_app (ignore (DelEntriesOnClntDiscon (nenv E) (ev_ipv4_addr data))) l }) })"

definition HandleNeighIpAddrAddEvt :: "ct_env \<Rightarrow> ipacm_event_data_all \<Rightarrow> ct_listener \<Rightarrow> ct_listener option" where
  "HandleNeighIpAddrAddEvt E data l =
     (let ((success, NatIface), l) = CheckNatIface E data l in
      if \<not> (NatIface \<and> success) then Some l
      else do {
        x \<leftarrow> scan (\<lambda>y. y = ev_ipv4_addr data \<or> y = 0) (nat_iface_ipv4_addr l) [0..<MAX_IFACE_ADDRESS];
        (case x of
           None \<Rightarrow> Some l
         | Some j \<Rightarrow> do {
             l \<leftarrow> on_app (ignore (ResetPwrSaveIf (nenv E) (ev_ipv4_addr data)))
               (l\<lparr>nat_iface_ipv4_addr := (nat_iface_ipv4_addr l)[j := ev_ipv4_addr data]\<rparr>);
             on_app (FlushTempEntries (nenv E) (ev_ipv4_addr data) True False) l }) })"

definition neigh_del_at :: "ct_env \<Rightarrow> 32 word \<Rightarrow> nat \<Rightarrow> ct_listener \<Rightarrow> ct_listener option" where
  "neigh_del_at E ipv4_addr cnt l = do {
     y \<leftarrow> rd (nat_iface_ipv4_addr l) cnt;
     if y = ipv4_addr
     then do {
       l \<leftarrow> on_app (FlushTempEntries (nenv E) ipv4_addr False False)
         (l\<lparr>nat_iface_ipv4_addr := (nat_iface_ipv4_addr l)[cnt := 0]\<rparr>);
       on_app (ignore (DelEntriesOnClntDiscon (nenv E) ipv4_addr)) l }
     else Some l }"

definition HandleNeighIpAddrDelEvt :: "ct_env \<Rightarrow> 32 word \<Rightarrow> ct_listener \<Rightarrow> ct_listener option" where
  "HandleNeighIpAddrDelEvt E ipv4_addr l =
     (if ipv4_addr = 0 then Some l else for_each (neigh_del_at E ipv4_addr) [0..<MAX_IFACE_ADDRESS] l)"

text \<open>
  Clients of the station interface. The search of \<open>HandleSTAClientAddEvt\<close> ends at the first place that holds the
  address, unless that is 0, or is empty.
\<close>

definition HandleSTAClientAddEvt :: "ct_env \<Rightarrow> 32 word \<Rightarrow> ct_listener \<Rightarrow> ct_listener option" where
  "HandleSTAClientAddEvt E clnt_ip_addr l =
     (if StaClntCnt l \<ge> MAX_STA_CLNT_IFACES then Some l
      else do {
        x \<leftarrow> scan (\<lambda>y. y \<noteq> 0 \<and> y = clnt_ip_addr \<or> y = 0) (sta_clnt_ipv4_addr l) [0..<MAX_STA_CLNT_IFACES];
        l \<leftarrow> (case x of
           None \<Rightarrow> Some l
         | Some cnt \<Rightarrow> do {
             y \<leftarrow> rd (sta_clnt_ipv4_addr l) cnt;
             Some (if y = 0
                   then l\<lparr>sta_clnt_ipv4_addr := (sta_clnt_ipv4_addr l)[cnt := clnt_ip_addr], StaClntCnt := StaClntCnt l + 1\<rparr>
                   else l) });
        on_app (FlushTempEntries (nenv E) clnt_ip_addr True False) l })"

text \<open>\<open>StaClntCnt\<close> is an \<open>int\<close>; it is not 0 when an address is found (\<open>listener_ok\<close> in \<open>CtInv\<close>).\<close>

definition HandleSTAClientDelEvt :: "ct_env \<Rightarrow> 32 word \<Rightarrow> ct_listener \<Rightarrow> ct_listener option" where
  "HandleSTAClientDelEvt E clnt_ip_addr l = do {
     x \<leftarrow> scan (\<lambda>y. y \<noteq> 0 \<and> y = clnt_ip_addr) (sta_clnt_ipv4_addr l) [0..<MAX_STA_CLNT_IFACES];
     l \<leftarrow> (case x of
        None \<Rightarrow> Some l
      | Some cnt \<Rightarrow> do {
          l \<leftarrow> on_app (ignore (DelEntriesOnSTAClntDiscon (nenv E) clnt_ip_addr))
            (l\<lparr>sta_clnt_ipv4_addr := (sta_clnt_ipv4_addr l)[cnt := 0]\<rparr>);
          Some (l\<lparr>StaClntCnt := StaClntCnt l - 1\<rparr>) });
     on_app (FlushTempEntries (nenv E) clnt_ip_addr False False) l }"

section \<open>Connections\<close>

definition isPrivateSubnet :: "ipacm_config \<Rightarrow> 32 word \<Rightarrow> bool" where
  "isPrivateSubnet cfg ip_addr \<longleftrightarrow>
     (\<exists>(subnet_addr, subnet_mask) \<in> set (private_subnet_table cfg). subnet_addr = (subnet_mask AND ip_addr))"

text \<open>The results: the return value, \<open>isTempEntry\<close>, and the rule, which is changed for a non-NAT interface.\<close>

definition AddIface :: "ct_listener \<Rightarrow> nat_table_entry \<Rightarrow> bool \<times> bool \<times> nat_table_entry" where
  "AddIface l rule =
     (let matches = (\<lambda>y. y \<noteq> 0 \<and> (private_ip rule = y \<or> target_ip rule = y)) in
      if ipacm_ip_passthrough_mode (pConfig l) \<and> private_ip rule = curr_wan_ip l then (True, False, rule)
      else if (\<exists>y \<in> set (nat_iface_ipv4_addr l). matches y) then (True, False, rule)
      else if \<not> isStaMode l \<and> (\<exists>y \<in> set (nonnat_iface_ipv4_addr l). matches y)
      then (True, False, rule\<lparr>private_ip := public_ip rule, private_port := public_port rule\<rparr>)
      else if isPrivateSubnet (pConfig l) (private_ip rule) \<or> isPrivateSubnet (pConfig l) (target_ip rule)
      then (True, True, rule)
      else (False, False, rule))"

definition PopulateTCPorUDPEntry :: "nf_conntrack \<Rightarrow> 32 word \<Rightarrow> nat_table_entry \<Rightarrow> nat_table_entry" where
  "PopulateTCPorUDPEntry ct status rule =
     (if status = IPS_DST_NAT then
        rule\<lparr>dst_nat := True, target_ip := ntohl (ATTR_ORIG_IPV4_SRC ct), target_port := ntohs (ATTR_ORIG_PORT_SRC ct),
             public_port := ntohs (ATTR_ORIG_PORT_DST ct), private_ip := ntohl (ATTR_REPL_IPV4_SRC ct),
             private_port := ntohs (ATTR_REPL_PORT_SRC ct)\<rparr>
      else if status = IPS_SRC_NAT then
        rule\<lparr>dst_nat := False, target_ip := ntohl (ATTR_ORIG_IPV4_DST ct), target_port := ntohs (ATTR_ORIG_PORT_DST ct),
             public_port := ntohs (ATTR_REPL_PORT_DST ct), private_ip := ntohl (ATTR_ORIG_IPV4_SRC ct),
             private_port := ntohs (ATTR_ORIG_PORT_SRC ct)\<rparr>
      else rule)"

text \<open>The search reads one place for every counted client.\<close>

definition CheckSTAClient :: "ct_listener \<Rightarrow> nat_table_entry \<Rightarrow> bool \<Rightarrow> bool option" where
  "CheckSTAClient l rule isTempEntry =
     (if \<not> isStaMode l \<or> StaClntCnt l = 0 then Some isTempEntry
      else do {
        first \<leftarrow> rd (sta_clnt_ipv4_addr l) 0;
        if (first AND STA_CLNT_SUBNET_MASK) \<noteq> (target_ip rule AND STA_CLNT_SUBNET_MASK) then Some isTempEntry
        else do {
          x \<leftarrow> scan (\<lambda>y. target_ip rule = y) (sta_clnt_ipv4_addr l) [0..<StaClntCnt l];
          Some (if x \<noteq> None then isTempEntry else True) }})"

definition store_connection :: "ct_env \<Rightarrow> nat_table_entry \<Rightarrow> bool \<Rightarrow> ct_listener \<Rightarrow> ct_listener option" where
  "store_connection E rule isTempEntry l =
     (if \<not> WanUp l then on_app (CacheEntry rule) l
      else if isTempEntry then on_app (AddTempEntry rule) l
      else on_app (ignore (AddEntry (nenv E) rule)) l)"

definition drop_connection :: "ct_env \<Rightarrow> nat_table_entry \<Rightarrow> ct_listener \<Rightarrow> ct_listener option" where
  "drop_connection E rule l = do {
     l \<leftarrow> on_app (DeleteEntry (nenv E) rule) l;
     on_app (DeleteTempEntry rule) l }"

definition AddORDeleteNatEntry ::
    "ct_env \<Rightarrow> nf_conntrack \<Rightarrow> nfct_type \<Rightarrow> nat_table_entry \<Rightarrow> bool \<Rightarrow> ct_listener \<Rightarrow> ct_listener option" where
  "AddORDeleteNatEntry E ct type rule isTempEntry l =
     (if nat_inst l = None then Some l
      else if protocol rule = IPPROTO_TCP then
        (if ATTR_TCP_STATE ct = TCP_CONNTRACK_ESTABLISHED then store_connection E rule isTempEntry l
         else if ATTR_TCP_STATE ct = TCP_CONNTRACK_FIN_WAIT \<or> type = NFCT_T_DESTROY then drop_connection E rule l
         else Some l)
      else if protocol rule = IPPROTO_UDP then
        (if type = NFCT_T_NEW then store_connection E rule isTempEntry l
         else if type = NFCT_T_DESTROY then drop_connection E rule l
         else Some l)
      else Some l)"

text \<open>Which way a connection is translated: by its flags, or by the WAN address; \<open>None\<close> when it is ignored.\<close>

definition nat_direction :: "nf_conntrack \<Rightarrow> ct_listener \<Rightarrow> 32 word option" where
  "nat_direction ct l =
     (if (IPS_DST_NAT AND ATTR_STATUS ct) \<noteq> 0 then Some IPS_DST_NAT
      else if (IPS_SRC_NAT AND ATTR_STATUS ct) \<noteq> 0 then Some IPS_SRC_NAT
      else let orig_src_ip = ntohl (ATTR_ORIG_IPV4_SRC ct); orig_dst_ip = ntohl (ATTR_ORIG_IPV4_DST ct)
           in if orig_src_ip = 0 \<or> orig_dst_ip = 0 then None
              else if orig_src_ip = wan_ipaddr l then Some IPS_SRC_NAT
              else if orig_dst_ip = wan_ipaddr l then Some IPS_DST_NAT
              else None)"

definition ProcessTCPorUDPMsg :: "ct_env \<Rightarrow> nf_conntrack \<Rightarrow> nfct_type \<Rightarrow> ct_listener \<Rightarrow> ct_listener option" where
  "ProcessTCPorUDPMsg E ct type l = (case nat_direction ct l of
     None \<Rightarrow> Some l
   | Some status \<Rightarrow>
       let rule = (PopulateTCPorUDPEntry ct status (zero_entry\<lparr>protocol := ATTR_REPL_L4PROTO ct\<rparr>))
                    \<lparr>public_ip := wan_ipaddr l\<rparr>;
           (isAdd, isTempEntry, rule) =
             (if private_ip rule \<noteq> wan_ipaddr l then AddIface l rule
              else if isStaMode l then (False, False, rule)
              else (True, False, rule\<lparr>private_port := public_port rule\<rparr>))
       in if \<not> isAdd then Some l
          else do {
            isTempEntry \<leftarrow> CheckSTAClient l rule isTempEntry;
            AddORDeleteNatEntry E ct type rule isTempEntry l })"

definition ProcessCTMessage :: "ct_env \<Rightarrow> nf_conntrack \<Rightarrow> nfct_type \<Rightarrow> ct_listener \<Rightarrow> ct_listener option" where
  "ProcessCTMessage E ct type l =
     (if ATTR_ORIG_L4PROTO ct \<noteq> IPPROTO_UDP \<and> ATTR_ORIG_L4PROTO ct \<noteq> IPPROTO_TCP then Some l
      else ProcessTCPorUDPMsg E ct type l)"

section \<open>Events\<close>

datatype ipa_event =
    IPA_PROCESS_CT_MESSAGE nf_conntrack nfct_type
  | IPA_HANDLE_WAN_UP ipacm_event_iface_up
  | IPA_HANDLE_WAN_DOWN ipacm_event_iface_up
  | IPA_HANDLE_WLAN_UP ipacm_event_iface_up
  | IPA_HANDLE_LAN_UP ipacm_event_iface_up
  | IPA_NEIGH_CLIENT_IP_ADDR_ADD_EVENT ipacm_event_data_all
  | IPA_NEIGH_CLIENT_IP_ADDR_DEL_EVENT ipacm_event_data_all

text \<open>\<open>None\<close> stands for an event without data, which is ignored.\<close>

definition event_callback :: "ct_env \<Rightarrow> ipa_event option \<Rightarrow> ct_listener \<Rightarrow> ct_listener option" where
  "event_callback E evt l = (case evt of
     None \<Rightarrow> Some l
   | Some (IPA_PROCESS_CT_MESSAGE ct type) \<Rightarrow> ProcessCTMessage E ct type l
   | Some (IPA_HANDLE_WAN_UP data) \<Rightarrow> TriggerWANUp E data (snd (CreateConnTrackThreads l))
   | Some (IPA_HANDLE_WAN_DOWN data) \<Rightarrow> if WanUp l then TriggerWANDown (up_ipv4_addr data) l else Some l
   | Some (IPA_HANDLE_WLAN_UP data) \<Rightarrow>
       if WanUp l then Some (let l = snd (CreateConnTrackThreads l) in l\<lparr>filters_for := data # filters_for l\<rparr>) else Some l
   | Some (IPA_HANDLE_LAN_UP data) \<Rightarrow>
       if WanUp l then Some (let l = snd (CreateConnTrackThreads l) in l\<lparr>filters_for := data # filters_for l\<rparr>) else Some l
   | Some (IPA_NEIGH_CLIENT_IP_ADDR_ADD_EVENT data) \<Rightarrow> HandleNonNatIPAddr E data True l
   | Some (IPA_NEIGH_CLIENT_IP_ADDR_DEL_EVENT data) \<Rightarrow> HandleNonNatIPAddr E data False l)"

text \<open>
  Everything the rest of the connection manager does to the listener and to its \<open>NatApp\<close>: events, the calls of the
  WLAN, LAN and WAN interfaces, and the turns of the thread that reads the time stamps.
\<close>

datatype ct_call =
    Event "ipa_event option"
  | Neigh_add ipacm_event_data_all
  | Neigh_del "32 word"
  | Sta_add "32 word"
  | Sta_del "32 word"
  | Power_save "32 word"
  | Power_reset "32 word"
  | Timeout_turn

fun ct_step :: "ct_env \<Rightarrow> ct_call \<Rightarrow> ct_listener \<Rightarrow> ct_listener option" where
  "ct_step E (Event evt) l = event_callback E evt l"
| "ct_step E (Neigh_add data) l = HandleNeighIpAddrAddEvt E data l"
| "ct_step E (Neigh_del ip) l = HandleNeighIpAddrDelEvt E ip l"
| "ct_step E (Sta_add ip) l = HandleSTAClientAddEvt E ip l"
| "ct_step E (Sta_del ip) l = HandleSTAClientDelEvt E ip l"
| "ct_step E (Power_save ip) l = on_app (ignore (UpdatePwrSaveIf (nenv E) ip)) l"
| "ct_step E (Power_reset ip) l = on_app (ignore (ResetPwrSaveIf (nenv E) ip)) l"
| "ct_step E Timeout_turn l = on_app UpdateUDPTimeStamp l"

primrec ct_run :: "ct_env \<Rightarrow> ct_call list \<Rightarrow> ct_listener \<Rightarrow> ct_listener option" where
  "ct_run E [] l = Some l"
| "ct_run E (c # cs) l = Option.bind (ct_step E c l) (ct_run E cs)"

end
