(* ===== verification/CtInv.thy ===== *)
theory CtInv
  imports CtListener NatAppWait
begin

text \<open>
  The invariant of the listener with the cache and the hardware below it: every call of the rest of the connection
  manager keeps it, and none reads or writes outside an array.
\<close>

section \<open>The invariant\<close>

definition wan_ok :: "ct_listener \<Rightarrow> nat_app \<Rightarrow> bool" where
  "wan_ok l a \<longleftrightarrow>
     (if WanUp l then nat_table_hdl a = 1 \<and> pub_ip_addr a = wan_ipaddr l \<and> wan_ipaddr l \<noteq> 0 else nat_table_hdl a = 0)"

definition clients_ok :: "ct_listener \<Rightarrow> bool" where
  "clients_ok l \<longleftrightarrow>
     length (nat_iface_ipv4_addr l) = MAX_IFACE_ADDRESS \<and> length (nonnat_iface_ipv4_addr l) = MAX_IFACE_ADDRESS \<and>
     length (sta_clnt_ipv4_addr l) = MAX_STA_CLNT_IFACES \<and> StaClntCnt l \<le> MAX_STA_CLNT_IFACES \<and>
     length (filter (\<lambda>y. y \<noteq> 0) (sta_clnt_ipv4_addr l)) \<le> StaClntCnt l"

definition listener_ok :: "ct_env \<Rightarrow> ct_listener \<Rightarrow> bool" where
  "listener_ok E l \<longleftrightarrow> clients_ok l \<and> (\<exists>a. nat_inst l = Some a \<and> app_ok (nenv E) a \<and> wan_ok l a)"

lemma listener_okE:
  assumes "listener_ok E l"
  obtains a where "clients_ok l" "nat_inst l = Some a" "app_ok (nenv E) a" "wan_ok l a"
  using assms by (auto simp: listener_ok_def)

lemma wan_ok_same: "nat_table_hdl a' = nat_table_hdl a \<Longrightarrow> pub_ip_addr a' = pub_ip_addr a \<Longrightarrow> wan_ok l a' = wan_ok l a"
  by (simp add: wan_ok_def)

text \<open>A call of the cache that keeps its invariant and its table.\<close>

lemma on_app_ok:
  assumes l: "clients_ok l'" "nat_inst l' = Some a" "app_ok (nenv E) a" "wan_ok l' a"
    and f: "f a = Some a'" "app_ok (nenv E) a'" "nat_table_hdl a' = nat_table_hdl a" "pub_ip_addr a' = pub_ip_addr a"
  shows "on_app f l' = Some (l'\<lparr>nat_inst := Some a'\<rparr>) \<and> listener_ok E (l'\<lparr>nat_inst := Some a'\<rparr>)"
  using assms by (simp add: on_app_def listener_ok_def clients_ok_def wan_ok_def)

definition same_table :: "nat_app \<Rightarrow> nat_app \<Rightarrow> bool" where
  "same_table a a' \<longleftrightarrow> nat_table_hdl a' = nat_table_hdl a \<and> pub_ip_addr a' = pub_ip_addr a"

lemma on_app_step:
  assumes l: "listener_ok E l"
    and f: "\<And>a. app_ok (nenv E) a \<Longrightarrow> \<exists>a'. f a = Some a' \<and> app_ok (nenv E) a' \<and> same_table a a'"
  shows "\<exists>l'. on_app f l = Some l' \<and> listener_ok E l'"
proof -
  obtain a where a: "clients_ok l" "nat_inst l = Some a" "app_ok (nenv E) a" "wan_ok l a"
    using l by (rule listener_okE)
  obtain a' where "f a = Some a'" "app_ok (nenv E) a'" "same_table a a'"
    using f [OF a(3)] by blast
  then show ?thesis using on_app_ok [OF a] unfolding same_table_def by blast
qed

section \<open>The calls of the cache\<close>

lemma same_table_refl [simp]: "same_table a a"
  by (simp add: same_table_def)

lemma rest_table: "same_rest a a' \<Longrightarrow> same_table a a'"
  by (simp add: same_table_def same_restD)

lemma setup_table: "same_setup a a' \<Longrightarrow> same_table a a'"
  by (simp add: same_table_def same_setupD)

lemma power_table:
  assumes "rest a' = (rest a)\<lparr>PwrSaveIfs := ps\<rparr>"
  shows "same_table a a'"
  using arg_cong [OF assms, of nat_table_hdl] arg_cong [OF assms, of pub_ip_addr] by (simp add: same_table_def)

lemma stamped_table: "stamped a es us a' \<Longrightarrow> same_table a a'"
  by (auto simp: stamped_def same_table_def)

lemma call_flush:
  assumes "listener_ok E l"
  shows "\<exists>l'. on_app (FlushTempEntries (nenv E) ip isAdd isDummy) l = Some l' \<and> listener_ok E l'"
proof (rule on_app_step [OF assms])
  fix a assume a: "app_ok (nenv E) a"
  obtain a' where "FlushTempEntries (nenv E) ip isAdd isDummy a = Some a'" "app_ok (nenv E) a'" "same_setup a a'"
    using FlushTempEntries_ok [OF a] by blast
  then show "\<exists>a'. FlushTempEntries (nenv E) ip isAdd isDummy a = Some a' \<and> app_ok (nenv E) a' \<and> same_table a a'"
    using setup_table by simp
qed

lemma call_discon:
  assumes "listener_ok E l"
  shows "\<exists>l'. on_app (ignore (DelEntriesOnClntDiscon (nenv E) ip)) l = Some l' \<and> listener_ok E l'"
proof (rule on_app_step [OF assms])
  fix a assume a: "app_ok (nenv E) a"
  show "\<exists>a'. map_option snd (DelEntriesOnClntDiscon (nenv E) ip a) = Some a' \<and> app_ok (nenv E) a' \<and> same_table a a'"
  proof (cases "ip = 0")
    case False
    obtain a' ps where "DelEntriesOnClntDiscon (nenv E) ip a = Some (0, a')" "app_ok (nenv E) a'"
      "rest a' = (rest a)\<lparr>PwrSaveIfs := ps\<rparr>"
      using DelEntriesOnClntDiscon_ok [OF a False] by blast
    then show ?thesis using power_table by simp
  qed (simp add: DelEntriesOnClntDiscon_def a)
qed

lemma call_sta_discon:
  assumes "listener_ok E l"
  shows "\<exists>l'. on_app (ignore (DelEntriesOnSTAClntDiscon (nenv E) ip)) l = Some l' \<and> listener_ok E l'"
proof (rule on_app_step [OF assms])
  fix a assume a: "app_ok (nenv E) a"
  show "\<exists>a'. map_option snd (DelEntriesOnSTAClntDiscon (nenv E) ip a) = Some a' \<and> app_ok (nenv E) a' \<and> same_table a a'"
  proof (cases "ip = 0")
    case False
    obtain a' where "DelEntriesOnSTAClntDiscon (nenv E) ip a = Some (0, a')" "app_ok (nenv E) a'" "same_rest a a'"
      using DelEntriesOnSTAClntDiscon_ok [OF a False] by blast
    then show ?thesis using rest_table by simp
  qed (simp add: DelEntriesOnSTAClntDiscon_def a)
qed

lemma call_power_save:
  assumes "listener_ok E l"
  shows "\<exists>l'. on_app (ignore (UpdatePwrSaveIf (nenv E) ip)) l = Some l' \<and> listener_ok E l'"
proof (rule on_app_step [OF assms])
  fix a assume a: "app_ok (nenv E) a"
  show "\<exists>a'. map_option snd (UpdatePwrSaveIf (nenv E) ip a) = Some a' \<and> app_ok (nenv E) a' \<and> same_table a a'"
  proof (cases "ip = 0")
    case False
    obtain a' ps where "UpdatePwrSaveIf (nenv E) ip a = Some (0, a')" "app_ok (nenv E) a'"
      "rest a' = (rest a)\<lparr>PwrSaveIfs := ps\<rparr>"
      using UpdatePwrSaveIf_ok [OF a False] by blast
    then show ?thesis using power_table by simp
  qed (simp add: UpdatePwrSaveIf_def a)
qed

lemma call_power_reset:
  assumes "listener_ok E l"
  shows "\<exists>l'. on_app (ignore (ResetPwrSaveIf (nenv E) ip)) l = Some l' \<and> listener_ok E l'"
proof (rule on_app_step [OF assms])
  fix a assume a: "app_ok (nenv E) a"
  show "\<exists>a'. map_option snd (ResetPwrSaveIf (nenv E) ip a) = Some a' \<and> app_ok (nenv E) a' \<and> same_table a a'"
  proof (cases "ip = 0")
    case False
    obtain a' ps where "ResetPwrSaveIf (nenv E) ip a = Some (-1, a')" "app_ok (nenv E) a'"
      "rest a' = (rest a)\<lparr>PwrSaveIfs := ps\<rparr>"
      using ResetPwrSaveIf_ok [OF a False] by blast
    then show ?thesis using power_table by simp
  qed (simp add: ResetPwrSaveIf_def a)
qed

lemma call_timestamps:
  assumes "listener_ok E l"
  shows "\<exists>l'. on_app UpdateUDPTimeStamp l = Some l' \<and> listener_ok E l'"
proof (rule on_app_step [OF assms])
  fix a assume a: "app_ok (nenv E) a"
  from UpdateUDPTimeStamp_ok [OF a]
  show "\<exists>a'. UpdateUDPTimeStamp a = Some a' \<and> app_ok (nenv E) a' \<and> same_table a a'"
    using stamped_table by blast
qed

lemma call_add:
  assumes "listener_ok E l" and p: "protocol rule \<noteq> 0xFF"
  shows "\<exists>l'. on_app (ignore (AddEntry (nenv E) rule)) l = Some l' \<and> listener_ok E l'"
proof (rule on_app_step [OF assms(1)])
  fix a assume a: "app_ok (nenv E) a"
  obtain r a' where "AddEntry (nenv E) rule a = Some (r, a')" "app_ok (nenv E) a'" "same_rest a a'"
    using AddEntry_ok [OF a p] by blast
  then show "\<exists>a'. map_option snd (AddEntry (nenv E) rule a) = Some a' \<and> app_ok (nenv E) a' \<and> same_table a a'"
    using rest_table by simp
qed

lemma call_cache:
  assumes "listener_ok E l" and p: "protocol rule \<noteq> 0xFF"
  shows "\<exists>l'. on_app (CacheEntry rule) l = Some l' \<and> listener_ok E l'"
proof (rule on_app_step [OF assms(1)])
  fix a assume a: "app_ok (nenv E) a"
  obtain a' where "CacheEntry rule a = Some a'" "app_ok (nenv E) a'" "same_rest a a'"
    using CacheEntry_ok [OF a p] by blast
  then show "\<exists>a'. CacheEntry rule a = Some a' \<and> app_ok (nenv E) a' \<and> same_table a a'"
    using rest_table by simp
qed

lemma call_delete:
  assumes "listener_ok E l" "\<not> is_free rule"
  shows "\<exists>l'. on_app (DeleteEntry (nenv E) rule) l = Some l' \<and> listener_ok E l'"
proof (rule on_app_step [OF assms(1)])
  fix a assume a: "app_ok (nenv E) a"
  from DeleteEntry_ok [OF a assms(2)]
  show "\<exists>a'. DeleteEntry (nenv E) rule a = Some a' \<and> app_ok (nenv E) a' \<and> same_table a a'"
    using rest_table by blast
qed

lemma temp_table [simp]: "same_table a (set_temp i t a)"
  by (simp add: same_table_def)

lemma call_add_temp:
  assumes "listener_ok E l" "protocol rule \<noteq> 0xFF"
  shows "\<exists>l'. on_app (AddTempEntry rule) l = Some l' \<and> listener_ok E l'"
proof (rule on_app_step [OF assms(1)])
  fix a assume a: "app_ok (nenv E) a"
  from AddTempEntry_ok [OF a assms(2)]
  show "\<exists>a'. AddTempEntry rule a = Some a' \<and> app_ok (nenv E) a' \<and> same_table a a'" by auto
qed

lemma call_delete_temp:
  assumes "listener_ok E l"
  shows "\<exists>l'. on_app (DeleteTempEntry rule) l = Some l' \<and> listener_ok E l'"
proof (rule on_app_step [OF assms])
  fix a assume a: "app_ok (nenv E) a"
  from DeleteTempEntry_ok [OF a, of rule]
  show "\<exists>a'. DeleteTempEntry rule a = Some a' \<and> app_ok (nenv E) a' \<and> same_table a a'" by auto
qed

section \<open>Handlers\<close>

lemma listener_ok_other [simp]:
  "listener_ok E (l\<lparr>nat_iface_ipv4_addr := (nat_iface_ipv4_addr l)[i := x]\<rparr>) = listener_ok E l"
  "listener_ok E (l\<lparr>nonnat_iface_ipv4_addr := (nonnat_iface_ipv4_addr l)[i := x]\<rparr>) = listener_ok E l"
  "listener_ok E (l\<lparr>NatIfaceCnt := n\<rparr>) = listener_ok E l" "listener_ok E (l\<lparr>isCTReg := b\<rparr>) = listener_ok E l"
  "listener_ok E (l\<lparr>isNatThreadStart := b\<rparr>) = listener_ok E l" "listener_ok E (l\<lparr>threads := ts\<rparr>) = listener_ok E l"
  "listener_ok E (l\<lparr>thread_answers := as\<rparr>) = listener_ok E l" "listener_ok E (l\<lparr>filters_for := fs\<rparr>) = listener_ok E l"
  by (simp_all add: listener_ok_def clients_ok_def wan_ok_def)

lemma pthread_create_ok [simp]: "listener_ok E (snd (pthread_create t l)) = listener_ok E l"
  by (simp add: pthread_create_def split: list.split)

lemma pthread_create_same: "pthread_create t l = (ok, l') \<Longrightarrow> listener_ok E l' = listener_ok E l"
  by (metis pthread_create_ok snd_conv)

lemma threads_ok [simp]:
  "listener_ok E (snd (CreateConnTrackThreads l)) = listener_ok E l"
  "listener_ok E (snd (CreateNatThreads l)) = listener_ok E l"
  by (auto simp: CreateConnTrackThreads_def CreateNatThreads_def Let_def pthread_create_same split: prod.splits)

lemma pthread_create_frame:
  "pthread_create t l = (ok, l') \<Longrightarrow> nat_inst l' = nat_inst l \<and> WanUp l' = WanUp l \<and> wan_ipaddr l' = wan_ipaddr l"
  by (auto simp: pthread_create_def split: list.splits if_splits)

lemma threads_frame [simp]:
  "nat_inst (snd (CreateConnTrackThreads l)) = nat_inst l" "WanUp (snd (CreateConnTrackThreads l)) = WanUp l"
  "wan_ipaddr (snd (CreateConnTrackThreads l)) = wan_ipaddr l" "nat_inst (snd (CreateNatThreads l)) = nat_inst l"
  "WanUp (snd (CreateNatThreads l)) = WanUp l" "wan_ipaddr (snd (CreateNatThreads l)) = wan_ipaddr l"
  by (auto simp: CreateConnTrackThreads_def CreateNatThreads_def Let_def dest!: pthread_create_frame split: prod.splits)

lemma CheckNatIface_ok [simp]: "listener_ok E (snd (CheckNatIface E' data l)) = listener_ok E l"
  by (simp add: CheckNatIface_def Let_def split: option.split)

lemma CheckNatIface_lists:
  "CheckNatIface E' data l = ((s, n), l') \<Longrightarrow> listener_ok E l' = listener_ok E l \<and>
     nat_iface_ipv4_addr l' = nat_iface_ipv4_addr l \<and> nonnat_iface_ipv4_addr l' = nonnat_iface_ipv4_addr l"
  by (auto simp: CheckNatIface_def Let_def split: if_splits option.splits)

lemma listener_lists:
  assumes "listener_ok E l"
  shows "length (nat_iface_ipv4_addr l) = MAX_IFACE_ADDRESS" "length (nonnat_iface_ipv4_addr l) = MAX_IFACE_ADDRESS"
    "length (sta_clnt_ipv4_addr l) = MAX_STA_CLNT_IFACES" "StaClntCnt l \<le> MAX_STA_CLNT_IFACES"
    "length (filter (\<lambda>y. y \<noteq> 0) (sta_clnt_ipv4_addr l)) \<le> StaClntCnt l"
  using assms by (auto simp: listener_ok_def clients_ok_def)

text \<open>Two calls of the cache, one after the other.\<close>

lemma two_calls:
  assumes "listener_ok E l" "\<And>l. listener_ok E l \<Longrightarrow> \<exists>l'. f l = Some l' \<and> listener_ok E l'"
    "\<And>l. listener_ok E l \<Longrightarrow> \<exists>l'. g l = Some l' \<and> listener_ok E l'"
  shows "\<exists>l'. Option.bind (f l) g = Some l' \<and> listener_ok E l'"
  using assms by (metis Option.bind.bind_lunit)

lemma HandleNonNatIPAddr_ok:
  assumes l: "listener_ok E l"
  shows "\<exists>l'. HandleNonNatIPAddr E data AddOp l = Some l' \<and> listener_ok E l'"
proof (cases "isStaMode l")
  case True
  then show ?thesis using l by (simp add: HandleNonNatIPAddr_def)
next
  case sta: False
  show ?thesis
  proof (cases AddOp)
    case True
    obtain s n l1 where c: "CheckNatIface E data l = ((s, n), l1)" by (metis surj_pair)
    have l1: "listener_ok E l1" using CheckNatIface_lists [OF c] l by simp
    show ?thesis
    proof (cases "n \<or> \<not> s")
      case True
      then show ?thesis using sta \<open>AddOp\<close> c l1 by (simp add: HandleNonNatIPAddr_def)
    next
      case False
      show ?thesis
      proof (rule scan_cases [OF listener_lists(2) [OF l1], of "\<lambda>y. y = 0"])
        assume "scan (\<lambda>y. y = 0) (nonnat_iface_ipv4_addr l1) [0..<MAX_IFACE_ADDRESS] = Some None"
        then show ?thesis using sta \<open>AddOp\<close> c False l1 by (simp add: HandleNonNatIPAddr_def)
      next
        fix i assume "scan (\<lambda>y. y = 0) (nonnat_iface_ipv4_addr l1) [0..<MAX_IFACE_ADDRESS] = Some (Some i)"
        then show ?thesis
          using sta \<open>AddOp\<close> c False call_flush [of E "l1\<lparr>nonnat_iface_ipv4_addr := (nonnat_iface_ipv4_addr l1)[i := ev_ipv4_addr data]\<rparr>"] l1
          by (simp add: HandleNonNatIPAddr_def)
      qed
    qed
  next
    case False
    let ?P = "\<lambda>y. y = ev_ipv4_addr data"
    show ?thesis
    proof (rule scan_cases [OF listener_lists(2) [OF l], of ?P])
      assume "scan ?P (nonnat_iface_ipv4_addr l) [0..<MAX_IFACE_ADDRESS] = Some None"
      then show ?thesis using sta False l by (simp add: HandleNonNatIPAddr_def)
    next
      fix i assume s: "scan ?P (nonnat_iface_ipv4_addr l) [0..<MAX_IFACE_ADDRESS] = Some (Some i)"
      let ?l = "l\<lparr>nonnat_iface_ipv4_addr := (nonnat_iface_ipv4_addr l)[i := 0]\<rparr>"
      have "listener_ok E ?l" using l by simp
      from two_calls [OF this call_flush [where ip = "ev_ipv4_addr data" and isAdd = False and isDummy = False] call_discon [where ip = "ev_ipv4_addr data"]]
      show ?thesis using sta False s by (simp add: HandleNonNatIPAddr_def)
    qed
  qed
qed

lemma HandleNeighIpAddrAddEvt_ok:
  assumes l: "listener_ok E l"
  shows "\<exists>l'. HandleNeighIpAddrAddEvt E data l = Some l' \<and> listener_ok E l'"
proof -
  obtain s n l1 where c: "CheckNatIface E data l = ((s, n), l1)" by (metis surj_pair)
  have l1: "listener_ok E l1" using CheckNatIface_lists [OF c] l by simp
  let ?P = "\<lambda>y. y = ev_ipv4_addr data \<or> y = 0"
  show ?thesis
  proof (cases "n \<and> s")
    case True
    show ?thesis
    proof (rule scan_cases [OF listener_lists(1) [OF l1], of ?P])
      assume "scan ?P (nat_iface_ipv4_addr l1) [0..<MAX_IFACE_ADDRESS] = Some None"
      then show ?thesis using c True l1 by (simp add: HandleNeighIpAddrAddEvt_def)
    next
      fix i assume s: "scan ?P (nat_iface_ipv4_addr l1) [0..<MAX_IFACE_ADDRESS] = Some (Some i)"
      let ?l = "l1\<lparr>nat_iface_ipv4_addr := (nat_iface_ipv4_addr l1)[i := ev_ipv4_addr data]\<rparr>"
      have "listener_ok E ?l" using l1 by simp
      from two_calls [OF this call_power_reset [where ip = "ev_ipv4_addr data"] call_flush [where ip = "ev_ipv4_addr data" and isAdd = True and isDummy = False]]
      show ?thesis using c True s by (simp add: HandleNeighIpAddrAddEvt_def)
    qed
  next
    case False
    then show ?thesis using c l1 by (simp add: HandleNeighIpAddrAddEvt_def)
  qed
qed

lemma HandleNeighIpAddrDelEvt_ok:
  assumes l: "listener_ok E l"
  shows "\<exists>l'. HandleNeighIpAddrDelEvt E ip l = Some l' \<and> listener_ok E l'"
proof (cases "ip = 0")
  case True
  then show ?thesis using l by (simp add: HandleNeighIpAddrDelEvt_def)
next
  case False
  have "\<exists>l'. neigh_del_at E ip i l = Some l' \<and> listener_ok E l'" if "i < MAX_IFACE_ADDRESS" "listener_ok E l" for i l
  proof (cases "nat_iface_ipv4_addr l ! i = ip")
    case True
    let ?l = "l\<lparr>nat_iface_ipv4_addr := (nat_iface_ipv4_addr l)[i := 0]\<rparr>"
    have "listener_ok E ?l" using that by simp
    from two_calls [OF this call_flush [where ip = ip and isAdd = False and isDummy = False] call_discon [where ip = ip]]
    show ?thesis using True that listener_lists(1) [OF that(2)] by (simp add: neigh_del_at_def rd_def)
  next
    case False
    then show ?thesis using that listener_lists(1) [OF that(2)] by (simp add: neigh_del_at_def rd_def)
  qed
  then have "\<exists>l'. for_each (neigh_del_at E ip) [0..<MAX_IFACE_ADDRESS] l = Some l' \<and> listener_ok E l'"
    using for_each_range [of MAX_IFACE_ADDRESS "\<lambda>_. listener_ok E" "neigh_del_at E ip" 0 l] l by blast
  then show ?thesis using False by (simp add: HandleNeighIpAddrDelEvt_def)
qed

lemma sta_changed:
  assumes l: "listener_ok E l" and i: "i < MAX_STA_CLNT_IFACES"
    and n: "n \<le> MAX_STA_CLNT_IFACES" "length (filter (\<lambda>y. y \<noteq> 0) ((sta_clnt_ipv4_addr l)[i := x])) \<le> n"
  shows "listener_ok E (l\<lparr>sta_clnt_ipv4_addr := (sta_clnt_ipv4_addr l)[i := x], StaClntCnt := n\<rparr>)"
  using l n by (auto simp: listener_ok_def clients_ok_def wan_ok_def)

lemma HandleSTAClientAddEvt_ok:
  assumes l: "listener_ok E l"
  shows "\<exists>l'. HandleSTAClientAddEvt E ip l = Some l' \<and> listener_ok E l'"
proof (cases "StaClntCnt l \<ge> MAX_STA_CLNT_IFACES")
  case True
  then show ?thesis using l by (simp add: HandleSTAClientAddEvt_def)
next
  case False
  note ll = listener_lists [OF l]
  let ?P = "\<lambda>y. y \<noteq> 0 \<and> y = ip \<or> y = 0"
  show ?thesis
  proof (rule scan_cases [OF ll(3), of ?P])
    assume "scan ?P (sta_clnt_ipv4_addr l) [0..<MAX_STA_CLNT_IFACES] = Some None"
    then show ?thesis using False call_flush [OF l] by (simp add: HandleSTAClientAddEvt_def)
  next
    fix i assume s: "scan ?P (sta_clnt_ipv4_addr l) [0..<MAX_STA_CLNT_IFACES] = Some (Some i)" "i < MAX_STA_CLNT_IFACES"
    have rd: "rd (sta_clnt_ipv4_addr l) i = Some (sta_clnt_ipv4_addr l ! i)" using ll(3) s(2) by (simp add: rd_def)
    show ?thesis
    proof (cases "sta_clnt_ipv4_addr l ! i = 0")
      case True
      have "listener_ok E (l\<lparr>sta_clnt_ipv4_addr := (sta_clnt_ipv4_addr l)[i := ip], StaClntCnt := StaClntCnt l + 1\<rparr>)"
        using filter_update_length [of i "sta_clnt_ipv4_addr l" "\<lambda>y. y \<noteq> 0" ip] s(2) ll True False
        by (intro sta_changed [OF l s(2)]) (auto split: if_splits)
      from call_flush [OF this] show ?thesis using False s(1) rd True by (simp add: HandleSTAClientAddEvt_def)
    next
      case n: False
      then show ?thesis using False s(1) rd call_flush [OF l] by (simp add: HandleSTAClientAddEvt_def)
    qed
  qed
qed

lemma HandleSTAClientDelEvt_ok:
  assumes l: "listener_ok E l"
  shows "\<exists>l'. HandleSTAClientDelEvt E ip l = Some l' \<and> listener_ok E l'"
proof -
  note ll = listener_lists [OF l]
  let ?P = "\<lambda>y. y \<noteq> 0 \<and> y = ip"
  show ?thesis
  proof (rule scan_cases [OF ll(3), of ?P])
    assume "scan ?P (sta_clnt_ipv4_addr l) [0..<MAX_STA_CLNT_IFACES] = Some None"
    then show ?thesis using call_flush [OF l] by (simp add: HandleSTAClientDelEvt_def)
  next
    fix i assume s: "scan ?P (sta_clnt_ipv4_addr l) [0..<MAX_STA_CLNT_IFACES] = Some (Some i)" "i < MAX_STA_CLNT_IFACES"
      "?P (sta_clnt_ipv4_addr l ! i)"
    have len: "length (filter (\<lambda>y. y \<noteq> 0) ((sta_clnt_ipv4_addr l)[i := 0])) + 1 =
        length (filter (\<lambda>y. y \<noteq> 0) (sta_clnt_ipv4_addr l))"
      using filter_update_length [of i "sta_clnt_ipv4_addr l" "\<lambda>y. y \<noteq> 0" 0] s(2,3) ll(3) by auto
    let ?l = "l\<lparr>sta_clnt_ipv4_addr := (sta_clnt_ipv4_addr l)[i := 0], StaClntCnt := StaClntCnt l\<rparr>"
    have "listener_ok E ?l" using len ll(4,5) by (intro sta_changed [OF l s(2)]) simp_all
    moreover have "?l = l\<lparr>sta_clnt_ipv4_addr := (sta_clnt_ipv4_addr l)[i := 0]\<rparr>" by simp
    ultimately obtain l1 where l1: "on_app (ignore (DelEntriesOnSTAClntDiscon (nenv E) ip))
        (l\<lparr>sta_clnt_ipv4_addr := (sta_clnt_ipv4_addr l)[i := 0]\<rparr>) = Some l1" "listener_ok E l1"
      using call_sta_discon by metis
    then have same: "StaClntCnt l1 = StaClntCnt l" "sta_clnt_ipv4_addr l1 = (sta_clnt_ipv4_addr l)[i := 0]"
      by (auto simp: on_app_def split: option.splits)
    then have "listener_ok E (l1\<lparr>StaClntCnt := StaClntCnt l1 - 1\<rparr>)"
      using l1(2) len ll(4,5) by (auto simp: listener_ok_def clients_ok_def wan_ok_def)
    from call_flush [OF this] show ?thesis using s(1) l1(1) by (simp add: HandleSTAClientDelEvt_def)
  qed
qed

section \<open>The WAN interface\<close>

lemma TriggerWANDown_ok:
  assumes l: "listener_ok E l"
  shows "\<exists>l'. TriggerWANDown ip l = Some l' \<and> listener_ok E l' \<and>
     (if WanUp l \<and> ip = wan_ipaddr l then \<not> WanUp l' else l' = l)"
proof -
  obtain a where a: "clients_ok l" "nat_inst l = Some a" "app_ok (nenv E) a" "wan_ok l a"
    using l by (rule listener_okE)
  show ?thesis
  proof (cases "WanUp l \<and> ip = wan_ipaddr l")
    case True
    then have t: "nat_table_hdl a = 1" "pub_ip_addr a = ip" using a(4) by (simp_all add: wan_ok_def)
    obtain a' where a': "DeleteTable ip a = Some (0, a')" "app_ok (nenv E) a'"
      "rest a' = (rest a)\<lparr>nat_table_hdl := 0, pub_ip_addr := 0, pub_ip_addr_pre := ip\<rparr>"
      using DeleteTable_ok [OF a(3) t] by blast
    have "nat_table_hdl a' = 0" using arg_cong [OF a'(3), of nat_table_hdl] by simp
    then show ?thesis using True a(1,2) a'(1,2)
      by (simp add: TriggerWANDown_def listener_ok_def clients_ok_def wan_ok_def)
  next
    case False
    then have "nat_table_hdl a = 0 \<or> pub_ip_addr a \<noteq> ip" using a(4) by (auto simp: wan_ok_def split: if_splits)
    then have "DeleteTable ip a = Some (-1, a)" by (rule DeleteTable_refused)
    then have "TriggerWANDown ip l = Some (l\<lparr>nat_inst := Some a\<rparr>)" using a(2) by (simp add: TriggerWANDown_def)
    moreover have "l\<lparr>nat_inst := Some a\<rparr> = l" using a(2) by simp
    ultimately show ?thesis using False l by simp
  qed
qed

lemma TriggerWANUp_ok:
  assumes l: "listener_ok E l"
  shows "\<exists>l'. TriggerWANUp E data l = Some l' \<and> listener_ok E l' \<and>
     (up_ipv4_addr data \<noteq> 0 \<longrightarrow> WanUp l' \<and> wan_ipaddr l' = up_ipv4_addr data)"
proof -
  let ?ip = "up_ipv4_addr data"
  consider (idle) "?ip = 0 \<or> WanUp l \<and> wan_ipaddr l = ?ip" | (go) "?ip \<noteq> 0" "\<not> (WanUp l \<and> wan_ipaddr l = ?ip)" by blast
  then show ?thesis
  proof cases
    case idle
    then show ?thesis using l by (auto simp: TriggerWANUp_def)
  next
    case go
    have "\<exists>l1. (if WanUp l then TriggerWANDown (wan_ipaddr l) l else Some l) = Some l1 \<and> listener_ok E l1 \<and> \<not> WanUp l1"
      using TriggerWANDown_ok [OF l, of "wan_ipaddr l"] l by auto
    then obtain l1 where l1: "(if WanUp l then TriggerWANDown (wan_ipaddr l) l else Some l) = Some l1"
      "listener_ok E l1" "\<not> WanUp l1" by blast
    obtain a where a: "clients_ok l1" "nat_inst l1 = Some a" "app_ok (nenv E) a" "wan_ok l1 a"
      using l1(2) by (rule listener_okE)
    have "nat_table_hdl a = 0" using a(4) l1(3) by (simp add: wan_ok_def)
    then obtain a' where a': "AddTable (nenv E) ?ip a = Some (0, a')" "app_ok (nenv E) a'" "nat_table_hdl a' = 1"
      "pub_ip_addr a' = ?ip"
      using AddTable_ok [OF a(3)] by blast
    let ?l = "l1\<lparr>WanUp := True, isStaMode := up_is_sta data, wan_ipaddr := ?ip, wan_ifname := up_ifname data,
      nat_inst := Some a'\<rparr>"
    have "TriggerWANUp E data l = Some (snd (CreateNatThreads ?l))"
      using go l1(1) a(2) a'(1) by (auto simp: TriggerWANUp_def on_app_def Let_def)
    moreover have "listener_ok E ?l" using a(1) a' go(1) by (simp add: listener_ok_def clients_ok_def wan_ok_def)
    ultimately show ?thesis by simp
  qed
qed

section \<open>Connections\<close>

lemma store_connection_ok:
  assumes l: "listener_ok E l" and p: "protocol rule \<noteq> 0xFF"
  shows "\<exists>l'. store_connection E rule t l = Some l' \<and> listener_ok E l'"
  using call_cache [OF l p] call_add_temp [OF l p] call_add [OF l p] unfolding store_connection_def by auto

lemma drop_connection_ok:
  assumes l: "listener_ok E l" and r: "\<not> is_free rule"
  shows "\<exists>l'. drop_connection E rule l = Some l' \<and> listener_ok E l'"
proof -
  obtain l1 where l1: "on_app (DeleteEntry (nenv E) rule) l = Some l1" "listener_ok E l1"
    using call_delete [OF l r] by blast
  then show ?thesis using call_delete_temp [OF l1(2)] by (simp add: drop_connection_def)
qed

lemma AddORDeleteNatEntry_ok:
  assumes l: "listener_ok E l"
  shows "\<exists>l'. AddORDeleteNatEntry E ct type rule t l = Some l' \<and> listener_ok E l'"
proof (cases "protocol rule = 6 \<or> protocol rule = 17")
  case True
  then have p: "protocol rule \<noteq> 0xFF" and f: "\<not> is_free rule" by (auto simp: is_free_def)
  obtain s where s: "store_connection E rule t l = Some s" "listener_ok E s"
    using store_connection_ok [OF l p] by blast
  obtain d where d: "drop_connection E rule l = Some d" "listener_ok E d"
    using drop_connection_ok [OF l f] by blast
  show ?thesis using True l s d unfolding AddORDeleteNatEntry_def by (auto simp: listener_ok_def)
next
  case False
  then show ?thesis using l by (simp add: AddORDeleteNatEntry_def)
qed

lemma CheckSTAClient_total:
  assumes "listener_ok E l"
  shows "\<exists>t. CheckSTAClient l rule isTemp = Some t"
proof -
  note ll = listener_lists [OF assms]
  have "rd (sta_clnt_ipv4_addr l) 0 = Some (sta_clnt_ipv4_addr l ! 0)"
    using ll(3) by (simp add: rd_def MAX_STA_CLNT_IFACES_def)
  moreover have "scan (\<lambda>y. target_ip rule = y) (sta_clnt_ipv4_addr l) [0..<StaClntCnt l] \<noteq> None"
    using scan_range [of "StaClntCnt l" "sta_clnt_ipv4_addr l" "\<lambda>y. target_ip rule = y" 0] ll(3,4) by simp
  ultimately show ?thesis by (auto simp: CheckSTAClient_def)
qed

lemma ProcessCTMessage_ok:
  assumes l: "listener_ok E l"
  shows "\<exists>l'. ProcessCTMessage E ct type l = Some l' \<and> listener_ok E l'"
proof -
  have "\<exists>l'. ProcessTCPorUDPMsg E ct type l = Some l' \<and> listener_ok E l'"
  proof (cases "nat_direction ct l")
    case (Some st)
    define k where "k = (\<lambda>(isAdd, isTemp, rule). if \<not> isAdd then Some l
      else Option.bind (CheckSTAClient l rule isTemp) (\<lambda>isTemp. AddORDeleteNatEntry E ct type rule isTemp l))"
    have k: "\<exists>l'. k (b, t, rule) = Some l' \<and> listener_ok E l'" for b t rule
      using CheckSTAClient_total [OF l, of rule t] AddORDeleteNatEntry_ok [OF l, of ct type rule] l
      by (auto simp: k_def)
    have "\<exists>x. ProcessTCPorUDPMsg E ct type l = k x"
      unfolding ProcessTCPorUDPMsg_def Some k_def by (simp only: option.case Let_def) blast
    then show ?thesis using k by (metis prod_cases3)
  qed (simp add: ProcessTCPorUDPMsg_def l)
  then show ?thesis using l by (simp add: ProcessCTMessage_def)
qed

section \<open>Every call\<close>

lemma event_callback_ok:
  assumes l: "listener_ok E l"
  shows "\<exists>l'. event_callback E evt l = Some l' \<and> listener_ok E l'"
proof (cases evt)
  case (Some e)
  have t: "listener_ok E (snd (CreateConnTrackThreads l))" using l by simp
  obtain u where u: "TriggerWANUp E d (snd (CreateConnTrackThreads l)) = Some (u d)" "listener_ok E (u d)" for d
    using TriggerWANUp_ok [OF t] by metis
  obtain w where w: "TriggerWANDown ip l = Some (w ip)" "listener_ok E (w ip)" for ip
    using TriggerWANDown_ok [OF l] by metis
  show ?thesis
    using ProcessCTMessage_ok [OF l] HandleNonNatIPAddr_ok [OF l] u w l t
    by (cases e) (auto simp: event_callback_def Some Let_def)
qed (simp add: event_callback_def l)

lemma ct_step_ok:
  assumes l: "listener_ok E l"
  shows "\<exists>l'. ct_step E c l = Some l' \<and> listener_ok E l'"
  using event_callback_ok [OF l] HandleNeighIpAddrAddEvt_ok [OF l] HandleNeighIpAddrDelEvt_ok [OF l]
    HandleSTAClientAddEvt_ok [OF l] HandleSTAClientDelEvt_ok [OF l] call_power_save [OF l] call_power_reset [OF l]
    call_timestamps [OF l]
  by (cases c) simp_all

lemma ct_run_ok: "listener_ok E l \<Longrightarrow> \<exists>l'. ct_run E cs l = Some l' \<and> listener_ok E l'"
proof (induction cs arbitrary: l)
  case (Cons c cs)
  obtain l1 where "ct_step E c l = Some l1" "listener_ok E l1" using ct_step_ok [OF Cons.prems] by blast
  then show ?case using Cons.IH by simp
qed simp

lemma IPACM_ConntrackListener_ok:
  assumes "app_ok (nenv E) a" "nat_table_hdl a = 0"
  shows "listener_ok E (IPACM_ConntrackListener (Some a) cfg memory)"
  using assms by (simp add: listener_ok_def IPACM_ConntrackListener_def clients_ok_def wan_ok_def)

end
