(* ===== verification/CtProps.thy ===== *)
theory CtProps
  imports CtInv NatAppProps
begin

text \<open>
  The properties of the listener: what holds after any sequence of events and calls, what the WAN interface and the
  clients do to the rules in the hardware, and where a failed call outside leaves it.
\<close>

section \<open>Instances\<close>

definition plain_env :: ct_env where
  "plain_env = \<lparr>nenv = plain_kernel, ifname_of = (\<lambda>n. Some (if n = 1 then ''wlan0'' else ''rndis0'')), ifaces_alloc = True\<rparr>"

definition blank_listener :: ct_listener where
  "blank_listener = \<lparr>isCTReg = False, isNatThreadStart = False, WanUp = False, nat_inst = None, NatIfaceCnt = 0,
     StaClntCnt = 0, nat_iface_ipv4_addr = [], nonnat_iface_ipv4_addr = [], sta_clnt_ipv4_addr = [], wan_ifname = [],
     wan_ipaddr = 0, isStaMode = False, pConfig = small_config, curr_wan_ip = 0, threads = [], thread_answers = [],
     filters_for = []\<rparr>"

definition fresh_listener :: ct_listener where
  "fresh_listener = IPACM_ConntrackListener (Some fresh_app) small_config blank_listener"

definition wan_event :: "bool \<Rightarrow> 32 word \<Rightarrow> ipacm_event_iface_up" where
  "wan_event sta ip = \<lparr>up_ifname = ''rmnet0'', up_ipv4_addr = ip, up_is_sta = sta\<rparr>"

definition wan_listener :: ct_listener where
  "wan_listener = the (TriggerWANUp plain_env (wan_event False 0x0A000001) fresh_listener)"

lemma plain_env_kernel [simp]: "nenv plain_env = plain_kernel"
  by (simp add: plain_env_def)

lemma fresh_listener_ok: "listener_ok plain_env fresh_listener" "\<not> WanUp fresh_listener"
  using IPACM_ConntrackListener_ok [of plain_env fresh_app small_config blank_listener] fresh_app_ok
  by (simp_all add: fresh_listener_def IPACM_ConntrackListener_def)

lemma wan_listener_ok: "listener_ok plain_env wan_listener" "WanUp wan_listener" "wan_ipaddr wan_listener = 0x0A000001"
  using TriggerWANUp_ok [OF fresh_listener_ok(1), of "wan_event False 0x0A000001"]
  by (auto simp: wan_listener_def wan_event_def)

section \<open>Any sequence of calls\<close>

lemma GetInstance_ok:
  assumes "dma_contract E" "no_table (drv m)" "willing (drv m)" "length (PwrSaveIfs m) = IPA_MAX_NUM_WIFI_CLIENTS"
    "0 < ipa_nat_max_entries cfg" "ipa_nat_max_entries cfg \<le> 20480"
  shows "\<exists>a. GetInstance (Some cfg) True True m NO_INSTANCE = (INSTANCE a, INSTANCE a) \<and> app_ok E a \<and> nat_table_hdl a = 0"
  using Init_ok [OF assms] by auto

text \<open>
  C34: The hardware translates by the enabled connections of the cache and by nothing else. From the first GetInstance on, through every sequence of events
  and calls, while the calls outside succeed: no handler reads or writes outside an array, the driver holds a
  rule under a handle exactly when an enabled entry has that handle and that rule, no connection is cached twice, the counter is
  the number of cached connections, and there is a table exactly while the WAN interface is up.
\<close>
theorem cache_mirrors_hardware:
  assumes "dma_contract (nenv E)" "no_table (drv m)" "willing (drv m)" "length (PwrSaveIfs m) = IPA_MAX_NUM_WIFI_CLIENTS"
    "0 < ipa_nat_max_entries cfg" "ipa_nat_max_entries cfg \<le> 20480"
    and g: "fst (GetInstance (Some cfg) True True m NO_INSTANCE) = INSTANCE a0"
  shows "\<exists>l a. ct_run E cs (IPACM_ConntrackListener (Some a0) cfg memory) = Some l \<and> nat_inst l = Some a \<and>
     (\<forall>h r. nat_rules (drv a) h = Some r \<longleftrightarrow>
        (\<exists>e\<in>set (cache a). enabled e \<and> unat (rule_hdl e) = h \<and> entry_rule e = r)) \<and>
     (\<forall>i<max_entries a. \<forall>j<max_entries a. used (cache a ! i) \<longrightarrow> same_tuple (cache a ! i) (cache a ! j) \<longrightarrow> i = j) \<and>
     curCnt a = int (length (filter used (cache a))) \<and>
     (WanUp l \<longrightarrow> nat_table_hdl a = 1 \<and> pub_ip_addr a = wan_ipaddr l) \<and> (\<not> WanUp l \<longrightarrow> nat_table_hdl a = 0)"
proof -
  have "app_ok (nenv E) a0 \<and> nat_table_hdl a0 = 0" using GetInstance_ok [OF assms(1-6)] g by auto
  then have "listener_ok E (IPACM_ConntrackListener (Some a0) cfg memory)"
    by (intro IPACM_ConntrackListener_ok) simp_all
  then obtain l where l: "ct_run E cs (IPACM_ConntrackListener (Some a0) cfg memory) = Some l" "listener_ok E l"
    using ct_run_ok by blast
  obtain a where a: "nat_inst l = Some a" "app_ok (nenv E) a" "wan_ok l a" using l(2) by (auto simp: listener_ok_def)
  note c = app_okD(2) [OF a(2)]
  have "\<forall>i<max_entries a. \<forall>j<max_entries a. used (cache a ! i) \<longrightarrow> same_tuple (cache a ! i) (cache a ! j) \<longrightarrow> i = j"
    using cache_okD(8) [OF c] unfolding no_dup_def app_len [OF a(2)] .
  then show ?thesis using l(1) a(1,3) hw_mirror [OF a(2)] cache_okD(9) [OF c] by (auto simp: wan_ok_def)
qed

theorem cache_mirrors_hardware_witness:
  "\<exists>a0 l a. ct_run plain_env [Event (Some (IPA_HANDLE_WAN_UP (wan_event False 1))), Power_save 3]
       (IPACM_ConntrackListener (Some a0) small_config blank_listener) = Some l \<and> nat_inst l = Some a \<and>
     (\<forall>h r. nat_rules (drv a) h = Some r \<longleftrightarrow>
        (\<exists>e\<in>set (cache a). enabled e \<and> unat (rule_hdl e) = h \<and> entry_rule e = r))"
proof -
  obtain a0 where g: "fst (GetInstance (Some small_config) True True blank_app NO_INSTANCE) = INSTANCE a0"
    using GetInstance_ok [OF plain_kernel_contract, of blank_app small_config] start_facts
    by (auto simp: blank_app_def small_config_def)
  have "no_table (drv blank_app)" "willing (drv blank_app)" "length (PwrSaveIfs blank_app) = IPA_MAX_NUM_WIFI_CLIENTS"
    "0 < ipa_nat_max_entries small_config" "ipa_nat_max_entries small_config \<le> 20480" "dma_contract (nenv plain_env)"
    using start_facts plain_kernel_contract by (simp_all add: blank_app_def small_config_def)
  from cache_mirrors_hardware [OF this(6) this(1-5) g,
      of "[Event (Some (IPA_HANDLE_WAN_UP (wan_event False 1))), Power_save 3]" blank_listener]
  show ?thesis by blast
qed

section \<open>The WAN interface\<close>



section \<open>Clients\<close>

definition silent :: "32 word \<Rightarrow> nat_app \<Rightarrow> bool" where
  "silent ip a \<longleftrightarrow> (\<forall>e\<in>set (cache a). private_ip e = ip \<longrightarrow> \<not> enabled e) \<and>
     (\<forall>t\<in>set (temp a). private_ip t \<noteq> ip \<and> target_ip t \<noteq> ip)"

text \<open>The two calls for a client that leaves.\<close>

lemma leave_calls:
  assumes l: "listener_ok E l" and a: "nat_inst l = Some a" and ip: "ip \<noteq> 0"
  shows "\<exists>a'. Option.bind (on_app (FlushTempEntries (nenv E) ip False False) l)
       (on_app (ignore (DelEntriesOnClntDiscon (nenv E) ip))) = Some (l\<lparr>nat_inst := Some a'\<rparr>) \<and>
     listener_ok E (l\<lparr>nat_inst := Some a'\<rparr>) \<and> silent ip a' \<and> max_entries a' = max_entries a \<and>
     (\<forall>i<max_entries a. same_tuple (cache a ! i) (cache a' ! i))"
proof -
  have ok: "clients_ok l" "app_ok (nenv E) a" "wan_ok l a" using l a by (auto simp: listener_ok_def)
  obtain b where b: "FlushTempEntries (nenv E) ip False False a = Some b" "app_ok (nenv E) b" "same_setup a b"
    "cache b = cache a"
    "\<forall>i<MAX_TEMP_ENTRIES. temp b ! i =
        (if private_ip (temp a ! i) = ip \<or> target_ip (temp a ! i) = ip then zero_entry else temp a ! i)"
    using FlushTempEntries_ok [OF ok(2), of ip False False] by auto
  obtain c ps where c: "DelEntriesOnClntDiscon (nenv E) ip b = Some (0, c)" "app_ok (nenv E) c"
    "rest c = (rest b)\<lparr>PwrSaveIfs := ps\<rparr>"
    "\<forall>i<max_entries b. if private_ip (cache b ! i) = ip \<and> enabled (cache b ! i)
        then cache c ! i = (cache b ! i)\<lparr>enabled := False\<rparr> else cache c ! i = cache b ! i"
    using DelEntriesOnClntDiscon_ok [OF b(2) ip] by blast
  have m: "max_entries b = max_entries a" "max_entries c = max_entries b" "temp c = temp b"
    using same_setupD(4) [OF b(3)] arg_cong [OF c(3), of max_entries] arg_cong [OF c(3), of temp] by simp_all
  have w: "wan_ok l c"
    using ok(3) setup_table [OF b(3)] power_table [OF c(3)] by (auto simp: wan_ok_def same_table_def split: if_splits)
  have e: "same_tuple (cache a ! i) (cache c ! i) \<and> (private_ip (cache c ! i) = ip \<longrightarrow> \<not> enabled (cache c ! i))"
    if "i < max_entries a" for i
    using spec [OF c(4), of i] that m b(4) by (auto simp: same_tuple_def split: if_splits)
  then have "\<forall>e\<in>set (cache c). private_ip e = ip \<longrightarrow> \<not> enabled e"
    using app_len [OF c(2)] m by (auto simp: in_set_conv_nth)
  moreover have "private_ip (temp b ! i) \<noteq> ip \<and> target_ip (temp b ! i) \<noteq> ip" if "i < MAX_TEMP_ENTRIES" for i
    using spec [OF b(5), of i] that ip by (auto simp: zero_entry_def split: if_splits)
  then have "\<forall>t\<in>set (temp c). private_ip t \<noteq> ip \<and> target_ip t \<noteq> ip"
    using m(3) cache_okD(4) [OF app_okD(2) [OF b(2)]] by (metis in_set_conv_nth)
  ultimately have "silent ip c" by (simp add: silent_def)
  moreover have "listener_ok E (l\<lparr>nat_inst := Some c\<rparr>)"
    using ok(1) c(2) w by (simp add: listener_ok_def clients_ok_def wan_ok_def)
  ultimately show ?thesis using a b(1) c(1) e m by (intro exI [of _ c]) (simp add: on_app_def)
qed



section \<open>Failures outside\<close>

lemma second_table_faults:
  assumes "ip4_tbl c = [t]" "table_cnt c = 1" "willing c" "n \<noteq> 0" "unat n \<le> 20480"
  shows "ipa_nat_add_ipv4_tbl E ip n c = None"
proof -
  obtain T X c1 where "ipa_nati_alloc_table E n c = ((RET_0, 36 * (unat T + unat X), T, X), c1)"
    "ip4_tbl c1 = ip4_tbl c" "table_cnt c1 = table_cnt c"
    using alloc_willing [OF assms(3-5)] by blast
  then show ?thesis using assms(1,2,4)
    by (simp add: ipa_nat_add_ipv4_tbl_def ipa_nati_add_ipv4_tbl_def ipa_nati_update_cache_def rd_def)
qed

lemma close_fails:
  assumes "nat_ok E c"
  shows "\<exists>t. ipa_nat_del_ipv4_tbl 1 (c\<lparr>answers := [False]\<rparr>) = Some (EINVAL, c\<lparr>answers := [], ip4_tbl := [t]\<rparr>)"
proof -
  obtain t m T N C D where c: "ip4_tbl c = [t]" and tok: "tables_ok T N (dst_head E c (table_entries t)) t m C D"
    using assms by (auto simp: nat_ok_def)
  note sp = shaped_parts [OF tables_okD(1) [OF tok]]
  show ?thesis using c sp(2,4)
    by (intro exI [of _ "t\<lparr>region := UNMAPPED\<rparr>"]) (simp add: ipa_nat_del_ipv4_tbl_def bad_tbl_hdl_def ipa_nati_del_ipv4_table_def rd_def ask_def set_tbl_def)
qed

text \<open>
  C38: An unfinished deletion is followed by a write behind the table. When the WAN interface gets a new address while it is up and closing the old table fails,
  TriggerWANUp ignores that and asks the driver, which has room for one table, for a second one. This happens in every reachable state in which the WAN
  interface is up.
\<close>
theorem failed_close_overruns:
  assumes l: "listener_ok E l" "WanUp l" "nat_inst l = Some a"
    and d: "up_ipv4_addr d \<noteq> 0" "up_ipv4_addr d \<noteq> wan_ipaddr l"
  shows "TriggerWANUp E d (l\<lparr>nat_inst := Some (a\<lparr>drv := (drv a)\<lparr>answers := [False]\<rparr>\<rparr>)\<rparr>) = None"
proof -
  let ?a = "a\<lparr>drv := (drv a)\<lparr>answers := [False]\<rparr>\<rparr>" and ?l = "l\<lparr>nat_inst := Some (a\<lparr>drv := (drv a)\<lparr>answers := [False]\<rparr>\<rparr>)\<rparr>"
  have ok: "app_ok (nenv E) a" "wan_ok l a" using l by (auto simp: listener_ok_def)
  have t: "nat_table_hdl a = 1" "pub_ip_addr a = wan_ipaddr l" using ok(2) l(2) by (simp_all add: wan_ok_def)
  have hw: "nat_ok (nenv E) (drv a)" "table_cnt (drv a) = 1"
    using app_okD(3) [OF ok(1)] t(1) by (simp_all add: hw_holds_def nat_ready_def)
  obtain x where x: "ipa_nat_del_ipv4_tbl 1 ((drv a)\<lparr>answers := [False]\<rparr>) =
      Some (EINVAL, (drv a)\<lparr>answers := [], ip4_tbl := [x]\<rparr>)"
    using close_fails [OF hw(1)] by blast
  let ?b = "a\<lparr>drv := (drv a)\<lparr>answers := [], ip4_tbl := [x]\<rparr>\<rparr>"
  have down: "TriggerWANDown (wan_ipaddr l) ?l = Some (l\<lparr>nat_inst := Some ?b\<rparr>)"
    using t x by (simp add: TriggerWANDown_def DeleteTable_def)
  let ?n = "of_nat (max_entries a) :: 16 word"
  note c = app_okD(2) [OF ok(1)]
  have n: "unat ?n = max_entries a" using cache_okD(3) [OF c] by (simp add: unsigned_of_nat take_bit_nat_eq_self)
  then have n': "?n \<noteq> 0" "unat ?n \<le> 20480" using cache_okD(2,3) [OF c] by auto
  have "ipa_nat_add_ipv4_tbl (nenv E) (up_ipv4_addr d) ?n (drv ?b) = None"
    by (rule second_table_faults [OF _ _ _ n', where t = x]) (simp_all add: hw(2) willing_def)
  then have "AddTable (nenv E) (up_ipv4_addr d) ?b = None" by (simp add: AddTable_def)
  then show ?thesis using l(2) d down by (simp add: TriggerWANUp_def on_app_def)
qed

theorem failed_close_overruns_witness:
  "\<exists>a. nat_inst wan_listener = Some a \<and>
     TriggerWANUp plain_env (wan_event False 2) (wan_listener\<lparr>nat_inst := Some (a\<lparr>drv := (drv a)\<lparr>answers := [False]\<rparr>\<rparr>)\<rparr>) = None"
proof -
  obtain a where a: "nat_inst wan_listener = Some a" using wan_listener_ok(1) by (auto simp: listener_ok_def)
  then show ?thesis using failed_close_overruns [OF wan_listener_ok(1,2) a, of "wan_event False 2"] wan_listener_ok(3)
    by (simp add: wan_event_def)
qed

lemma failed_table_handle:
  "ipa_nat_add_ipv4_tbl E ip n c = Some ((r, hdl), c') \<Longrightarrow> r \<noteq> RET_0 \<Longrightarrow> hdl = 0"
  by (auto simp: ipa_nat_add_ipv4_tbl_def ipa_nati_add_ipv4_tbl_def Let_def split: if_splits prod.splits Option.bind_splits)

text \<open>
  A table that could not be made is never made. When AddTable fails, TriggerWANUp marks the WAN interface as up all the same; from then on another WAN-up event
  with that address and every WAN-down event change nothing, and every connection is refused.
\<close>
lemma failed_table_sticks:
  assumes l: "\<not> WanUp l" "nat_inst l = Some a" and ip: "up_ipv4_addr d \<noteq> 0"
    and n: "0 < max_entries a" "max_entries a < 65536"
    and f: "AddTable (nenv E) (up_ipv4_addr d) a = Some (r, a')" "r \<noteq> 0"
  shows "\<exists>l'. TriggerWANUp E d l = Some l' \<and> WanUp l' \<and> nat_inst l' = Some a' \<and>
     (\<forall>d'. up_ipv4_addr d' = up_ipv4_addr d \<longrightarrow> TriggerWANUp E d' l' = Some l') \<and>
     (\<forall>ip. TriggerWANDown ip l' = Some l') \<and> (\<forall>rule. AddEntry (nenv E) rule a' = Some (-1, a'))"
proof -
  let ?n = "of_nat (max_entries a) :: 16 word"
  have "unat ?n = max_entries a" using n(2) by (simp add: unsigned_of_nat take_bit_nat_eq_self)
  then have n0: "?n \<noteq> 0" using n(1) by (metis less_numeral_extra(3) unsigned_0)
  obtain x hdl c where add: "ipa_nat_add_ipv4_tbl (nenv E) (up_ipv4_addr d) ?n (drv a) = Some ((x, hdl), c)"
    using f(1) by (auto simp: AddTable_def Let_def split: Option.bind_splits)
  have x: "x \<noteq> RET_0" using f n0 add by (auto simp: AddTable_def Let_def split: if_splits Option.bind_splits)
  then have "hdl = 0" using failed_table_handle [OF add] by simp
  then have h: "nat_table_hdl a' = 0" using f(1) add x n0 by (auto simp: AddTable_def Let_def)
  define k where "k = l\<lparr>WanUp := True, isStaMode := up_is_sta d, wan_ipaddr := up_ipv4_addr d,
    wan_ifname := up_ifname d, nat_inst := Some a'\<rparr>"
  define l' where "l' = snd (CreateNatThreads k)"
  have l': "WanUp l'" "nat_inst l' = Some a'" "wan_ipaddr l' = up_ipv4_addr d" by (simp_all add: l'_def k_def)
  have "TriggerWANUp E d l = Some l'"
    using l ip f(1) by (simp add: TriggerWANUp_def on_app_def l'_def k_def)
  moreover have "TriggerWANUp E d' l' = Some l'" if "up_ipv4_addr d' = up_ipv4_addr d" for d'
    using that l' by (simp add: TriggerWANUp_def)
  moreover have "TriggerWANDown ip l' = Some l'" for ip
    using l' h by (simp add: TriggerWANDown_def DeleteTable_def)
  moreover have "AddEntry (nenv E) rule a' = Some (-1, a')" for rule using h by (simp add: AddEntry_def)
  ultimately show ?thesis using l' by blast
qed

definition poor_app :: nat_app where
  "poor_app = fresh_app\<lparr>drv := (drv fresh_app)\<lparr>answers := [False]\<rparr>\<rparr>"

text \<open>
  A client behind a gap is not found. When three clients of the station interface are known and the second leaves, the number of clients is 2 and the
  search for a connection's target ends before the third: its connections wait for it although it is there.
\<close>
lemma station_client_missed:
  "map_option (\<lambda>l. (StaClntCnt l, 0x0A0A0A03 \<in> set (sta_clnt_ipv4_addr l),
       CheckSTAClient l (zero_entry\<lparr>target_ip := 0x0A0A0A03\<rparr>) False,
       CheckSTAClient l (zero_entry\<lparr>target_ip := 0x0A0A0A01\<rparr>) False))
     (ct_run plain_env [Event (Some (IPA_HANDLE_WAN_UP (wan_event True 0x0A000001))), Sta_add 0x0A0A0A01,
        Sta_add 0x0A0A0A02, Sta_add 0x0A0A0A03, Sta_del 0x0A0A0A02] fresh_listener)
   = Some (2, True, Some True, Some False)"
  by code_simp

end
