(* ===== verification/LocList.thy ===== *)
theory LocList
  imports Prelude "HOL-Library.Monad_Syntax"
begin

text \<open>
  The linked list of the location stack, \<open>hardware/gps/utils/linked_list.c\<close>, on an explicit store: elements lie at
  addresses, \<open>next\<close> and \<open>prev\<close> are addresses, and 0 is \<open>NULL\<close>. An operation gives \<open>None\<close> when it would follow a
  pointer to no element, free what is not allocated, or walk for ever. \<open>list_ok\<close> relates the store to the sequence of
  its elements; every operation is shown to do to that sequence what its description says.
\<close>

section \<open>The store\<close>

abbreviation (input) NULL :: nat where "NULL \<equiv> 0"

text \<open>\<open>nxt\<close> is the member \<open>next\<close>; data and functions are known by their addresses.\<close>

record list_element =
  nxt :: nat
  prev :: nat
  data_ptr :: nat
  dealloc_func :: nat

text \<open>\<open>deallocs\<close> is the history of the calls \<open>dealloc_func (data_ptr)\<close>, the first one first.\<close>

record list_state =
  p_head :: nat
  p_tail :: nat
  elems :: "nat \<rightharpoonup> list_element"
  deallocs :: "(nat \<times> nat) list"

datatype linked_list_err_type =
    eLINKED_LIST_SUCCESS
  | eLINKED_LIST_FAILURE_GENERAL
  | eLINKED_LIST_INVALID_PARAMETER
  | eLINKED_LIST_INVALID_HANDLE
  | eLINKED_LIST_UNAVAILABLE_RESOURCE
  | eLINKED_LIST_INSUFFICIENT_BUFFER

text \<open>Access to an element, and \<open>free\<close>.\<close>

definition deref :: "nat \<Rightarrow> list_state \<Rightarrow> list_element option" where
  "deref a l = (if a = NULL then None else elems l a)"

definition put_elem :: "nat \<Rightarrow> list_element \<Rightarrow> list_state \<Rightarrow> list_state" where
  "put_elem a e l = l\<lparr>elems := (elems l)(a \<mapsto> e)\<rparr>"

definition set_nxt :: "nat \<Rightarrow> nat \<Rightarrow> list_state \<Rightarrow> list_state option" where
  "set_nxt a n l = do { e \<leftarrow> deref a l; Some (put_elem a (e\<lparr>nxt := n\<rparr>) l) }"

definition set_prv :: "nat \<Rightarrow> nat \<Rightarrow> list_state \<Rightarrow> list_state option" where
  "set_prv a p l = do { e \<leftarrow> deref a l; Some (put_elem a (e\<lparr>prev := p\<rparr>) l) }"

definition free_elem :: "nat \<Rightarrow> list_state \<Rightarrow> list_state option" where
  "free_elem a l = do { e \<leftarrow> deref a l; Some (l\<lparr>elems := (elems l)(a := None)\<rparr>) }"

definition call_dealloc :: "list_element \<Rightarrow> list_state \<Rightarrow> list_state" where
  "call_dealloc e l =
     (if dealloc_func e \<noteq> NULL then l\<lparr>deallocs := deallocs l @ [(dealloc_func e, data_ptr e)]\<rparr> else l)"

section \<open>Operations\<close>

text \<open>
  \<open>list_data\<close> is the handle, \<open>None\<close> for \<open>NULL\<close>. \<open>malloc\<close> gives the address for a new element, 0 when there is no
  memory; it may look at what is allocated.
\<close>

type_synonym malloc = "(nat \<rightharpoonup> list_element) \<Rightarrow> nat"

definition linked_list_init :: "bool \<Rightarrow> linked_list_err_type \<times> list_state option" where
  "linked_list_init calloc =
     (if \<not> calloc then (eLINKED_LIST_FAILURE_GENERAL, None)
      else (eLINKED_LIST_SUCCESS, Some \<lparr>p_head = NULL, p_tail = NULL, elems = Map.empty, deallocs = []\<rparr>))"

definition linked_list_add ::
    "malloc \<Rightarrow> list_state option \<Rightarrow> nat \<Rightarrow> nat \<Rightarrow> (linked_list_err_type \<times> list_state option) option" where
  "linked_list_add malloc list_data data_obj dealloc = (case list_data of
     None \<Rightarrow> Some (eLINKED_LIST_INVALID_HANDLE, None)
   | Some l \<Rightarrow>
       if data_obj = NULL then Some (eLINKED_LIST_INVALID_PARAMETER, Some l)
       else let elem = malloc (elems l) in
         if elem = NULL then Some (eLINKED_LIST_FAILURE_GENERAL, Some l)
         else do {
           let l = put_elem elem \<lparr>nxt = NULL, prev = NULL, data_ptr = data_obj, dealloc_func = dealloc\<rparr> l;
           let tmp = p_head l;
           let l = l\<lparr>p_head := elem\<rparr>;
           l \<leftarrow> set_nxt (p_head l) tmp l;
           l \<leftarrow> (if tmp \<noteq> NULL then set_prv tmp (p_head l) l else Some (l\<lparr>p_tail := p_head l\<rparr>));
           Some (eLINKED_LIST_SUCCESS, Some l) })"

text \<open>The flag tells whether \<open>data_obj\<close> is not \<open>NULL\<close>; the second result is what is written there.\<close>

definition linked_list_remove ::
    "list_state option \<Rightarrow> bool \<Rightarrow> (linked_list_err_type \<times> nat option \<times> list_state option) option" where
  "linked_list_remove list_data data_obj = (case list_data of
     None \<Rightarrow> Some (eLINKED_LIST_INVALID_HANDLE, None, None)
   | Some l \<Rightarrow>
       if \<not> data_obj then Some (eLINKED_LIST_INVALID_PARAMETER, None, Some l)
       else if p_tail l = NULL then Some (eLINKED_LIST_UNAVAILABLE_RESOURCE, None, Some l)
       else do {
         let tmp = p_tail l;
         e \<leftarrow> deref tmp l;
         let l = l\<lparr>p_tail := prev e\<rparr>;
         l \<leftarrow> (if p_tail l \<noteq> NULL then set_nxt (p_tail l) NULL l else Some (l\<lparr>p_head := p_tail l\<rparr>));
         e \<leftarrow> deref tmp l;
         l \<leftarrow> free_elem tmp l;
         Some (eLINKED_LIST_SUCCESS, Some (data_ptr e), Some l) })"

text \<open>\<open>Inl\<close> is the error that is returned for a \<open>NULL\<close> handle, as an \<open>int\<close>.\<close>

definition linked_list_empty :: "list_state option \<Rightarrow> linked_list_err_type + bool" where
  "linked_list_empty list_data = (case list_data of
     None \<Rightarrow> Inl eLINKED_LIST_INVALID_HANDLE
   | Some l \<Rightarrow> Inr (p_head l = NULL))"

partial_function (option) flush_elems :: "list_state \<Rightarrow> list_state option" where
  "flush_elems l =
     (if p_head l = NULL then Some l
      else do {
        e \<leftarrow> deref (p_head l) l;
        l \<leftarrow> free_elem (p_head l) (call_dealloc e l);
        flush_elems (l\<lparr>p_head := nxt e\<rparr>) })"

definition linked_list_flush :: "list_state option \<Rightarrow> (linked_list_err_type \<times> list_state option) option" where
  "linked_list_flush list_data = (case list_data of
     None \<Rightarrow> Some (eLINKED_LIST_INVALID_HANDLE, None)
   | Some l \<Rightarrow> do {
       l \<leftarrow> flush_elems l;
       Some (eLINKED_LIST_SUCCESS, Some (l\<lparr>p_tail := NULL\<rparr>)) })"

text \<open>The second result are the calls of \<open>dealloc\<close> that the list made in its life.\<close>

definition linked_list_destroy ::
    "list_state option option \<Rightarrow> (linked_list_err_type \<times> (nat \<times> nat) list \<times> list_state option option) option" where
  "linked_list_destroy list_data = (case list_data of
     None \<Rightarrow> Some (eLINKED_LIST_INVALID_HANDLE, [], None)
   | Some p_list \<Rightarrow> do {
       (_, p_list) \<leftarrow> linked_list_flush p_list;
       Some (eLINKED_LIST_SUCCESS, (case p_list of None \<Rightarrow> [] | Some l \<Rightarrow> deallocs l), Some None) })"

text \<open>Taking the element \<open>tmp\<close> out, as \<open>linked_list_search\<close> does; \<open>data_p\<close> tells whether its data are copied out.\<close>

definition unlink_elem :: "bool \<Rightarrow> nat \<Rightarrow> list_state \<Rightarrow> list_state option" where
  "unlink_elem data_p tmp l = do {
     e \<leftarrow> deref tmp l;
     l \<leftarrow> (if prev e = NULL then Some (l\<lparr>p_head := nxt e\<rparr>) else set_nxt (prev e) (nxt e) l);
     l \<leftarrow> (if nxt e = NULL then Some (l\<lparr>p_tail := prev e\<rparr>) else set_prv (nxt e) (prev e) l);
     l \<leftarrow> set_nxt tmp NULL l;
     l \<leftarrow> set_prv tmp NULL l;
     e \<leftarrow> deref tmp l;
     free_elem tmp (if \<not> data_p then call_dealloc e l else l) }"

text \<open>The loop of the search; the first result is \<open>*data_p\<close>, which starts as \<open>NULL\<close>.\<close>

partial_function (option) search_elems ::
    "(nat \<Rightarrow> nat \<Rightarrow> bool) \<Rightarrow> nat \<Rightarrow> bool \<Rightarrow> bool \<Rightarrow> nat \<Rightarrow> list_state \<Rightarrow> (nat \<times> list_state) option" where
  "search_elems equal data_0 data_p rm_if_found tmp l =
     (if tmp = NULL then Some (NULL, l)
      else do {
        e \<leftarrow> deref tmp l;
        if equal data_0 (data_ptr e)
        then do {
          l \<leftarrow> (if rm_if_found then unlink_elem data_p tmp l else Some l);
          Some (data_ptr e, l) }
        else search_elems equal data_0 data_p rm_if_found (nxt e) l })"

definition linked_list_search ::
    "list_state option \<Rightarrow> bool \<Rightarrow> (nat \<Rightarrow> nat \<Rightarrow> bool) option \<Rightarrow> nat \<Rightarrow> bool
     \<Rightarrow> (linked_list_err_type \<times> nat option \<times> list_state option) option" where
  "linked_list_search list_data data_p equal data_0 rm_if_found = (case (list_data, equal) of
     (Some l, Some eq) \<Rightarrow>
       if p_tail l = NULL then Some (eLINKED_LIST_UNAVAILABLE_RESOURCE, None, Some l)
       else do {
         (d, l) \<leftarrow> search_elems eq data_0 data_p rm_if_found (p_head l) l;
         Some (eLINKED_LIST_SUCCESS, if data_p then Some d else None, Some l) }
   | _ \<Rightarrow> Some (eLINKED_LIST_INVALID_HANDLE, None, list_data))"

section \<open>The shape of the store\<close>

text \<open>
  \<open>dseg m p a xs q t\<close>: from \<open>a\<close> on lie the elements \<open>xs\<close>, with address, data and function, doubly linked, before them
  \<open>p\<close>, behind them \<open>q\<close>, and the last of them (or \<open>p\<close>) is \<open>t\<close>.
\<close>

fun dseg :: "(nat \<rightharpoonup> list_element) \<Rightarrow> nat \<Rightarrow> nat \<Rightarrow> (nat \<times> nat \<times> nat) list \<Rightarrow> nat \<Rightarrow> nat \<Rightarrow> bool" where
  "dseg m p a [] q t \<longleftrightarrow> a = q \<and> t = p"
| "dseg m p a ((b, d, f) # xs) q t \<longleftrightarrow> a = b \<and> b \<noteq> NULL \<and>
     (\<exists>n. m b = Some \<lparr>nxt = n, prev = p, data_ptr = d, dealloc_func = f\<rparr> \<and> dseg m b n xs q t)"

definition list_ok :: "list_state \<Rightarrow> (nat \<times> nat \<times> nat) list \<Rightarrow> bool" where
  "list_ok l xs \<longleftrightarrow> dseg (elems l) NULL (p_head l) xs NULL (p_tail l) \<and> distinct (map fst xs) \<and>
     dom (elems l) = fst ` set xs"

lemma dseg_append: "dseg m p a (xs @ ys) q t \<longleftrightarrow> (\<exists>r s. dseg m p a xs r s \<and> dseg m s r ys q t)"
  by (induction xs arbitrary: p a) (auto, blast+)

lemma dseg_frame: "b \<notin> fst ` set xs \<Longrightarrow> dseg (m(b := v)) p a xs q t = dseg m p a xs q t"
  by (induction m p a xs q t rule: dseg.induct) auto

lemma dseg_NULL: "dseg m p a xs q t \<Longrightarrow> NULL \<notin> fst ` set xs"
  by (induction m p a xs q t rule: dseg.induct) auto

lemma dseg_first: "dseg m p a xs q t \<Longrightarrow> a = (case xs of [] \<Rightarrow> q | x # _ \<Rightarrow> fst x)"
  by (cases xs) auto

lemma dseg_last: "dseg m p a xs q t \<Longrightarrow> t = (if xs = [] then p else fst (last xs))"
  by (induction m p a xs q t rule: dseg.induct) auto

text \<open>Changing the pointer into a segment, and the pointer out of it.\<close>

lemma dseg_set_prv:
  "dseg m p a (x # xs) q t \<Longrightarrow> distinct (map fst (x # xs)) \<Longrightarrow>
   \<exists>e. m a = Some e \<and> dseg (m(a \<mapsto> e\<lparr>prev := p'\<rparr>)) p' a (x # xs) q t"
  by (cases x) (auto simp: dseg_frame)

lemma dseg_set_nxt:
  assumes "dseg m p a (xs @ [x]) q t" "distinct (map fst (xs @ [x]))"
  shows "t = fst x \<and> (\<exists>e. m t = Some e \<and> nxt e = q \<and> dseg (m(t \<mapsto> e\<lparr>nxt := q'\<rparr>)) p a (xs @ [x]) q' t)"
proof -
  obtain b d f where x: "x = (b, d, f)" by (cases x)
  then have "b \<notin> fst ` set xs" using assms(2) by auto
  then show ?thesis using assms(1) unfolding x by (auto simp: dseg_append dseg_frame)
qed

lemma list_ok_new: "linked_list_init calloc = (r, Some l) \<Longrightarrow> list_ok l [] \<and> deallocs l = []"
  by (auto simp: linked_list_init_def list_ok_def split: if_splits)

lemma list_ok_ends:
  assumes "list_ok l xs"
  shows "p_head l = NULL \<longleftrightarrow> xs = []" "p_tail l = NULL \<longleftrightarrow> xs = []"
proof -
  have s: "dseg (elems l) NULL (p_head l) xs NULL (p_tail l)" using assms by (simp add: list_ok_def)
  show "p_head l = NULL \<longleftrightarrow> xs = []" using dseg_first [OF s] dseg_NULL [OF s] by (cases xs) auto
  show "p_tail l = NULL \<longleftrightarrow> xs = []" using dseg_last [OF s] dseg_NULL [OF s] by (cases xs rule: rev_cases) auto
qed

section \<open>What the operations do\<close>

definition malloc_ok :: "malloc \<Rightarrow> bool" where
  "malloc_ok malloc \<longleftrightarrow> (\<forall>m. malloc m = NULL \<or> malloc m \<notin> dom m)"

lemma deref_known: "a \<noteq> NULL \<Longrightarrow> deref a l = elems l a"
  by (simp add: deref_def)

lemma add_ok:
  assumes l: "list_ok l xs" and e: "malloc_ok malloc" "malloc (elems l) \<noteq> NULL" and d: "d \<noteq> NULL"
  shows "\<exists>l'. linked_list_add malloc (Some l) d f = Some (eLINKED_LIST_SUCCESS, Some l') \<and>
     list_ok l' ((malloc (elems l), d, f) # xs) \<and> deallocs l' = deallocs l"
proof -
  define b where "b = malloc (elems l)"
  have b: "b \<noteq> NULL" "b \<notin> fst ` set xs" using e l unfolding b_def malloc_ok_def list_ok_def by metis+
  let ?e = "\<lparr>nxt = p_head l, prev = NULL, data_ptr = d, dealloc_func = f\<rparr>"
  have s: "dseg (elems l) NULL (p_head l) xs NULL (p_tail l)" "distinct (map fst xs)" "dom (elems l) = fst ` set xs"
    using l by (simp_all add: list_ok_def)
  show ?thesis
  proof (cases xs)
    case Nil
    then have h: "p_head l = NULL" using list_ok_ends [OF l] by simp
    then show ?thesis using b d Nil s e(2)
      by (simp add: linked_list_add_def Let_def set_nxt_def put_elem_def deref_def list_ok_def flip: b_def)
  next
    case (Cons x ys)
    then have h: "p_head l \<noteq> NULL" "p_head l = fst x" "p_head l \<noteq> b"
      using list_ok_ends [OF l] dseg_first [OF s(1)] b by auto
    have "dseg ((elems l)(b \<mapsto> ?e)) NULL (p_head l) xs NULL (p_tail l)" using s(1) b(2) by (simp add: dseg_frame)
    from dseg_set_prv [of _ _ _ x ys, OF this [unfolded Cons], of b] s(2) Cons obtain y where
      y: "((elems l)(b \<mapsto> ?e)) (p_head l) = Some y"
        "dseg ((elems l)(b \<mapsto> ?e, p_head l \<mapsto> y\<lparr>prev := b\<rparr>)) b (p_head l) xs NULL (p_tail l)" by auto
    have "dom ((elems l)(b \<mapsto> ?e, p_head l \<mapsto> y\<lparr>prev := b\<rparr>)) = insert b (fst ` set xs)"
      using s(3) h Cons by auto
    then show ?thesis using b d h y s(2) e(2)
      by (simp add: linked_list_add_def Let_def set_nxt_def set_prv_def put_elem_def deref_def list_ok_def flip: b_def)
  qed
qed

lemma remove_ok:
  assumes l: "list_ok l (xs @ [(a, d, f)])"
  shows "\<exists>l'. linked_list_remove (Some l) True = Some (eLINKED_LIST_SUCCESS, Some d, Some l') \<and>
     list_ok l' xs \<and> deallocs l' = deallocs l"
proof -
  have s: "dseg (elems l) NULL (p_head l) (xs @ [(a, d, f)]) NULL (p_tail l)" "a \<notin> fst ` set xs" "distinct (map fst xs)"
    "dom (elems l) = insert a (fst ` set xs)"
    using l by (auto simp: list_ok_def)
  obtain t where t: "dseg (elems l) NULL (p_head l) xs a t" "a \<noteq> NULL" "p_tail l = a"
    "elems l a = Some \<lparr>nxt = NULL, prev = t, data_ptr = d, dealloc_func = f\<rparr>"
    using s(1) by (auto simp: dseg_append)
  show ?thesis
  proof (cases xs rule: rev_cases)
    case Nil
    then have "(elems l)(a := None) = Map.empty" using s(4) by (auto simp: fun_eq_iff domIff)
    then show ?thesis using t Nil by (auto simp: linked_list_remove_def deref_def free_elem_def list_ok_def)
  next
    case (snoc ys x)
    from dseg_set_nxt [of _ _ _ ys x, OF t(1) [unfolded snoc], of NULL] s(3) snoc obtain e where
      e: "t = fst x" "elems l t = Some e" "dseg ((elems l)(t \<mapsto> e\<lparr>nxt := NULL\<rparr>)) NULL (p_head l) xs NULL t" by auto
    have n: "t \<noteq> NULL" "t \<noteq> a" using dseg_NULL [OF t(1)] e(1) snoc s(2) by auto
    have "dseg ((elems l)(t \<mapsto> e\<lparr>nxt := NULL\<rparr>, a := None)) NULL (p_head l) xs NULL t"
      using dseg_frame [THEN iffD2, OF s(2) e(3)] .
    moreover have "dom ((elems l)(t \<mapsto> e\<lparr>nxt := NULL\<rparr>, a := None)) = fst ` set xs"
      using s(2,4) e(1) snoc n by (auto split: if_splits)
    ultimately show ?thesis using t e n s(3)
      by (simp add: linked_list_remove_def set_nxt_def put_elem_def deref_def free_elem_def list_ok_def)
  qed
qed

lemma remove_none: "list_ok l [] \<Longrightarrow> linked_list_remove (Some l) True = Some (eLINKED_LIST_UNAVAILABLE_RESOURCE, None, Some l)"
  using list_ok_ends [of l "[]"] by (simp add: linked_list_remove_def)

lemma empty_ok: "list_ok l xs \<Longrightarrow> linked_list_empty (Some l) = Inr (xs = [])"
  using list_ok_ends [of l xs] by (simp add: linked_list_empty_def)


text \<open>The calls that release the data of some elements.\<close>

definition releases :: "(nat \<times> nat \<times> nat) list \<Rightarrow> (nat \<times> nat) list" where
  "releases xs = map (\<lambda>(a, d, f). (f, d)) (filter (\<lambda>(a, d, f). f \<noteq> NULL) xs)"

lemma releases_simps [simp]:
  "releases [] = []" "releases ((a, d, f) # xs) = (if f \<noteq> NULL then [(f, d)] else []) @ releases xs"
  by (simp_all add: releases_def)

lemma flush_elems_ok:
  assumes "dseg (elems l) p (p_head l) xs NULL t" "distinct (map fst xs)" "dom (elems l) = fst ` set xs"
  shows "\<exists>l'. flush_elems l = Some l' \<and> p_head l' = NULL \<and> elems l' = Map.empty \<and> deallocs l' = deallocs l @ releases xs"
  using assms
proof (induction xs arbitrary: l p)
  case Nil
  then show ?case by (simp add: flush_elems.simps)
next
  case (Cons x xs)
  obtain a d f where x: "x = (a, d, f)" by (cases x)
  then obtain n where a: "p_head l = a" "a \<noteq> NULL" "dseg (elems l) a n xs NULL t" "a \<notin> fst ` set xs"
    "elems l a = Some \<lparr>nxt = n, prev = p, data_ptr = d, dealloc_func = f\<rparr>"
    using Cons.prems by auto
  define l1 where "l1 = l\<lparr>deallocs := deallocs l @ (if f \<noteq> NULL then [(f, d)] else []),
    elems := (elems l)(a := None), p_head := n\<rparr>"
  have "dseg (elems l1) a (p_head l1) xs NULL t" using a by (simp add: l1_def dseg_frame)
  moreover have "dom (elems l1) = fst ` set xs" using a Cons.prems(3) x by (auto simp: l1_def split: if_splits)
  ultimately obtain l' where "flush_elems l1 = Some l'" "p_head l' = NULL" "elems l' = Map.empty"
    "deallocs l' = deallocs l1 @ releases xs"
    using Cons.IH [of l1 a] Cons.prems(2) by auto
  moreover have "flush_elems l = flush_elems l1"
    using a by (subst flush_elems.simps) (simp add: deref_def free_elem_def call_dealloc_def l1_def)
  ultimately show ?case by (simp add: x l1_def)
qed

lemma flush_ok:
  assumes "list_ok l xs"
  shows "\<exists>l'. linked_list_flush (Some l) = Some (eLINKED_LIST_SUCCESS, Some l') \<and> list_ok l' [] \<and>
     deallocs l' = deallocs l @ releases xs"
  using flush_elems_ok [of l NULL xs "p_tail l"] assms by (auto simp: linked_list_flush_def list_ok_def)

lemma destroy_ok:
  assumes "list_ok l xs"
  shows "linked_list_destroy (Some (Some l)) = Some (eLINKED_LIST_SUCCESS, deallocs l @ releases xs, Some None)"
  using flush_ok [OF assms] by (auto simp: linked_list_destroy_def)

lemma dseg_cong: "(\<And>c. c \<in> fst ` set xs \<Longrightarrow> m' c = m c) \<Longrightarrow> dseg m' p a xs q t = dseg m p a xs q t"
  by (induction m p a xs q t rule: dseg.induct) auto

lemma link_next:
  assumes s: "dseg (elems l) NULL (p_head l) ys b s" "distinct (map fst ys)"
  shows "\<exists>h m. (if s = NULL then Some (l\<lparr>p_head := n\<rparr>) else set_nxt s n l) = Some (l\<lparr>p_head := h, elems := m\<rparr>) \<and>
     dseg m NULL h ys n s \<and> dom m = dom (elems l) \<and> (\<forall>c. c \<notin> fst ` set ys \<longrightarrow> m c = elems l c)"
proof (cases ys rule: rev_cases)
  case Nil
  then show ?thesis using s by (intro exI [of _ n] exI [of _ "elems l"]) simp
next
  case (snoc zs y)
  from dseg_set_nxt [of _ _ _ zs y, OF s(1) [unfolded snoc], of n] s(2) snoc obtain e where
    e: "s = fst y" "elems l s = Some e" "dseg ((elems l)(s \<mapsto> e\<lparr>nxt := n\<rparr>)) NULL (p_head l) ys n s" by auto
  moreover have "s \<noteq> NULL" "s \<in> fst ` set ys" using dseg_NULL [OF s(1)] e(1) snoc by auto
  ultimately show ?thesis
    by (intro exI [of _ "p_head l"] exI [of _ "(elems l)(s \<mapsto> e\<lparr>nxt := n\<rparr>)"]) (auto simp: set_nxt_def deref_def put_elem_def)
qed

lemma link_prev:
  assumes s: "dseg (elems l) b n zs NULL (p_tail l)" "distinct (map fst zs)"
  shows "\<exists>t m. (if n = NULL then Some (l\<lparr>p_tail := s\<rparr>) else set_prv n s l) = Some (l\<lparr>p_tail := t, elems := m\<rparr>) \<and>
     dseg m s n zs NULL t \<and> dom m = dom (elems l) \<and> (\<forall>c. c \<notin> fst ` set zs \<longrightarrow> m c = elems l c)"
proof (cases zs)
  case Nil
  then show ?thesis using s by (intro exI [of _ s] exI [of _ "elems l"]) simp
next
  case (Cons z ws)
  from dseg_set_prv [OF s(1) [unfolded Cons] s(2) [unfolded Cons], of s] obtain e where
    e: "elems l n = Some e" "dseg ((elems l)(n \<mapsto> e\<lparr>prev := s\<rparr>)) s n zs NULL (p_tail l)" using Cons by auto
  moreover have "n \<noteq> NULL" "n \<in> fst ` set zs" using dseg_NULL [OF s(1)] dseg_first [OF s(1)] Cons by auto
  ultimately show ?thesis
    by (intro exI [of _ "p_tail l"] exI [of _ "(elems l)(n \<mapsto> e\<lparr>prev := s\<rparr>)"]) (auto simp: set_prv_def deref_def put_elem_def)
qed

lemma unlink_ok:
  assumes l: "list_ok l (ys @ (a, d, f) # zs)"
  shows "\<exists>l'. unlink_elem data_p a l = Some l' \<and> list_ok l' (ys @ zs) \<and>
     deallocs l' = deallocs l @ (if data_p then [] else releases [(a, d, f)])"
proof -
  obtain s n where s: "dseg (elems l) NULL (p_head l) ys a s" "dseg (elems l) a n zs NULL (p_tail l)" "a \<noteq> NULL"
    "elems l a = Some \<lparr>nxt = n, prev = s, data_ptr = d, dealloc_func = f\<rparr>"
    using l by (auto simp: list_ok_def dseg_append)
  have dis: "distinct (map fst ys)" "distinct (map fst zs)" "a \<notin> fst ` set ys" "a \<notin> fst ` set zs"
    "fst ` set ys \<inter> fst ` set zs = {}" "dom (elems l) = insert a (fst ` set (ys @ zs))"
    using l by (auto simp: list_ok_def)
  obtain h m where 1: "(if s = NULL then Some (l\<lparr>p_head := n\<rparr>) else set_nxt s n l) = Some (l\<lparr>p_head := h, elems := m\<rparr>)"
    "dseg m NULL h ys n s" "dom m = dom (elems l)" "\<forall>c. c \<notin> fst ` set ys \<longrightarrow> m c = elems l c"
    using link_next [OF s(1) dis(1)] by blast
  let ?l1 = "l\<lparr>p_head := h, elems := m\<rparr>"
  have "dseg (elems ?l1) a n zs NULL (p_tail ?l1)" using s(2) 1(4) dis(5) by (subst dseg_cong) auto
  from link_prev [OF this dis(2), of s] obtain t k where
    2: "(if n = NULL then Some (?l1\<lparr>p_tail := s\<rparr>) else set_prv n s ?l1) = Some (?l1\<lparr>p_tail := t, elems := k\<rparr>)"
    "dseg k s n zs NULL t" "dom k = dom m" "\<forall>c. c \<notin> fst ` set zs \<longrightarrow> k c = m c" by auto
  have "dseg k NULL h ys n s" using 1(2) 2(4) dis(5) by (subst dseg_cong) auto
  then have "dseg k NULL h (ys @ zs) NULL t" using 2(2) by (auto simp: dseg_append)
  then have "dseg (k(a := None)) NULL h (ys @ zs) NULL t" using dis(3,4) by (subst dseg_frame) auto
  moreover have "dom (k(a := None)) = fst ` set (ys @ zs)" using 1(3) 2(3) dis by auto
  moreover have "k a = Some \<lparr>nxt = n, prev = s, data_ptr = d, dealloc_func = f\<rparr>" using s(4) 1(4) 2(4) dis by simp
  moreover have "distinct (map fst (ys @ zs))" using l by (auto simp: list_ok_def)
  ultimately show ?thesis
    using s(3,4) 1(1) 2(1) unfolding unlink_elem_def list_ok_def
    by (simp add: deref_def set_nxt_def [of a] set_prv_def [of a] free_elem_def put_elem_def call_dealloc_def cong: if_cong)
qed


lemma search_none:
  "dseg (elems l) p tmp xs NULL t \<Longrightarrow> \<forall>x\<in>set xs. \<not> eq data_0 (fst (snd x)) \<Longrightarrow>
   search_elems eq data_0 data_p rm tmp l = Some (NULL, l)"
proof (induction xs arbitrary: p tmp)
  case Nil
  then show ?case by (simp add: search_elems.simps)
next
  case (Cons x xs)
  then show ?case by (cases x) (auto simp: search_elems.simps [of _ _ _ _ tmp] deref_def)
qed

lemma search_found:
  "dseg (elems l) p tmp (us @ (a, d, f) # vs) NULL t \<Longrightarrow> \<forall>x\<in>set us. \<not> eq data_0 (fst (snd x)) \<Longrightarrow> eq data_0 d \<Longrightarrow>
   search_elems eq data_0 data_p rm tmp l =
     do { l \<leftarrow> (if rm then unlink_elem data_p a l else Some l); Some (d, l) }"
proof (induction us arbitrary: p tmp)
  case Nil
  then show ?case by (subst search_elems.simps) (auto simp: deref_def)
next
  case (Cons x us)
  then show ?case by (cases x) (auto simp: search_elems.simps [of _ _ _ _ tmp] deref_def)
qed

section \<open>The list as its users see it\<close>

datatype list_op =
    Add malloc nat nat
  | Remove bool
  | Is_empty
  | Flush
  | Search bool "(nat \<Rightarrow> nat \<Rightarrow> bool) option" nat bool

datatype list_answer = Answer linked_list_err_type "nat option" | Emptiness "linked_list_err_type + bool"

fun list_serve :: "list_op \<Rightarrow> list_state option \<Rightarrow> (list_answer \<times> list_state option) option" where
  "list_serve (Add malloc d f) l = map_option (\<lambda>(r, l). (Answer r None, l)) (linked_list_add malloc l d f)"
| "list_serve (Remove b) l = map_option (\<lambda>(r, d, l). (Answer r d, l)) (linked_list_remove l b)"
| "list_serve Is_empty l = Some (Emptiness (linked_list_empty l), l)"
| "list_serve Flush l = map_option (\<lambda>(r, l). (Answer r None, l)) (linked_list_flush l)"
| "list_serve (Search p eq d rm) l = map_option (\<lambda>(r, d, l). (Answer r d, l)) (linked_list_search l p eq d rm)"

primrec list_run :: "list_op list \<Rightarrow> list_state option \<Rightarrow> (list_answer list \<times> list_state option) option" where
  "list_run [] l = Some ([], l)"
| "list_run (p # ps) l = do { (a, l) \<leftarrow> list_serve p l; (as, l) \<leftarrow> list_run ps l; Some (a # as, l) }"

text \<open>
  The specification: a sequence of data with their functions, the newest first, and the calls that release data. An
  addition may be refused for want of memory.
\<close>

definition released :: "(nat \<times> nat) list \<Rightarrow> (nat \<times> nat) list" where
  "released xs = map (\<lambda>(d, f). (f, d)) (filter (\<lambda>(d, f). f \<noteq> NULL) xs)"

fun list_spec :: "list_op \<Rightarrow> (nat \<times> nat) list \<times> (nat \<times> nat) list \<Rightarrow> list_answer \<Rightarrow>
    (nat \<times> nat) list \<times> (nat \<times> nat) list \<Rightarrow> bool" where
  "list_spec (Add malloc d f) (xs, cs) a st \<longleftrightarrow>
     (if d = NULL then a = Answer eLINKED_LIST_INVALID_PARAMETER None \<and> st = (xs, cs)
      else a = Answer eLINKED_LIST_FAILURE_GENERAL None \<and> st = (xs, cs) \<or>
        a = Answer eLINKED_LIST_SUCCESS None \<and> st = ((d, f) # xs, cs))"
| "list_spec (Remove b) (xs, cs) a st \<longleftrightarrow>
     (if \<not> b then a = Answer eLINKED_LIST_INVALID_PARAMETER None \<and> st = (xs, cs)
      else if xs = [] then a = Answer eLINKED_LIST_UNAVAILABLE_RESOURCE None \<and> st = (xs, cs)
      else a = Answer eLINKED_LIST_SUCCESS (Some (fst (last xs))) \<and> st = (butlast xs, cs))"
| "list_spec Is_empty (xs, cs) a st \<longleftrightarrow> a = Emptiness (Inr (xs = [])) \<and> st = (xs, cs)"
| "list_spec Flush (xs, cs) a st \<longleftrightarrow> a = Answer eLINKED_LIST_SUCCESS None \<and> st = ([], cs @ released xs)"
| "list_spec (Search p None d0 rm) (xs, cs) a st \<longleftrightarrow> a = Answer eLINKED_LIST_INVALID_HANDLE None \<and> st = (xs, cs)"
| "list_spec (Search p (Some eq) d0 rm) (xs, cs) a st \<longleftrightarrow>
     (if xs = [] then a = Answer eLINKED_LIST_UNAVAILABLE_RESOURCE None \<and> st = (xs, cs)
      else if \<forall>x\<in>set xs. \<not> eq d0 (fst x)
      then a = Answer eLINKED_LIST_SUCCESS (if p then Some NULL else None) \<and> st = (xs, cs)
      else \<exists>us d f vs. xs = us @ (d, f) # vs \<and> (\<forall>x\<in>set us. \<not> eq d0 (fst x)) \<and> eq d0 d \<and>
        a = Answer eLINKED_LIST_SUCCESS (if p then Some d else None) \<and>
        st = (if rm then (us @ vs, cs @ (if p then [] else released [(d, f)])) else (xs, cs)))"

primrec spec_run :: "list_op list \<Rightarrow> (nat \<times> nat) list \<times> (nat \<times> nat) list \<Rightarrow> list_answer list \<Rightarrow>
    (nat \<times> nat) list \<times> (nat \<times> nat) list \<Rightarrow> bool" where
  "spec_run [] st as st' \<longleftrightarrow> as = [] \<and> st' = st"
| "spec_run (p # ps) st as st' \<longleftrightarrow> (\<exists>a bs st1. as = a # bs \<and> list_spec p st a st1 \<and> spec_run ps st1 bs st')"

definition op_ok :: "list_op \<Rightarrow> bool" where
  "op_ok p \<longleftrightarrow> (case p of Add malloc d f \<Rightarrow> malloc_ok malloc | _ \<Rightarrow> True)"

definition shows_as :: "list_state \<Rightarrow> (nat \<times> nat) list \<times> (nat \<times> nat) list \<Rightarrow> bool" where
  "shows_as l st \<longleftrightarrow> (\<exists>xs. list_ok l xs \<and> st = (map snd xs, deallocs l))"

lemma released_map [simp]: "released (map snd xs) = releases xs"
  by (induction xs) (auto simp: released_def releases_def)

lemma search_refines:
  assumes l: "list_ok l xs"
  shows "\<exists>a l' st. list_serve (Search p eq d0 rm) (Some l) = Some (a, Some l') \<and> shows_as l' st \<and>
     list_spec (Search p eq d0 rm) (map snd xs, deallocs l) a st"
proof -
  have s: "dseg (elems l) NULL (p_head l) xs NULL (p_tail l)" using l by (simp add: list_ok_def)
  have known: "shows_as l (map snd xs, deallocs l)" using l by (auto simp: shows_as_def)
  consider "eq = None" | "xs = []" | e where "eq = Some e" "xs \<noteq> []" "\<forall>x\<in>set xs. \<not> e d0 (fst (snd x))"
    | e us a d f vs where "eq = Some e" "xs = us @ (a, d, f) # vs" "\<forall>x\<in>set us. \<not> e d0 (fst (snd x))" "e d0 d"
    using split_list_first_prop [of xs "\<lambda>x. the eq d0 (fst (snd x))"] by (metis option.exhaust_sel prod.collapse)
  then show ?thesis
  proof cases
    case 1
    then show ?thesis using known by (auto simp: linked_list_search_def)
  next
    case 2
    then show ?thesis using known list_ok_ends [OF l] by (cases eq) (auto simp: linked_list_search_def)
  next
    case 3
    then show ?thesis using known list_ok_ends [OF l] search_none [where eq = e and ?data_0.0 = d0, OF s 3(3)] by (auto simp: linked_list_search_def)
  next
    case 4
    have f: "search_elems e d0 p rm (p_head l) l =
        do { l \<leftarrow> (if rm then unlink_elem p a l else Some l); Some (d, l) }"
      using search_found [of l NULL "p_head l" us a d f vs] s 4 by simp
    have spec: "\<exists>us' d' f' vs'. map snd xs = us' @ (d', f') # vs' \<and> (\<forall>x\<in>set us'. \<not> e d0 (fst x)) \<and> e d0 d' \<and>
        Answer eLINKED_LIST_SUCCESS (if p then Some d else None) = Answer eLINKED_LIST_SUCCESS (if p then Some d' else None) \<and>
        st = (if rm then (us' @ vs', deallocs l @ (if p then [] else released [(d', f')])) else (map snd xs, deallocs l))"
      if "st = (if rm then (map snd (us @ vs), deallocs l @ (if p then [] else released [(d, f)])) else (map snd xs, deallocs l))" for st
      using 4 that by (intro exI [of _ "map snd us"] exI [of _ d] exI [of _ f] exI [of _ "map snd vs"]) auto
    have some: "\<not> (\<forall>x\<in>set (map snd xs). \<not> e d0 (fst x))" "map snd xs \<noteq> []" using 4 by auto
    show ?thesis
    proof (cases rm)
      case True
      obtain l' where "unlink_elem p a l = Some l'" "list_ok l' (us @ vs)"
        "deallocs l' = deallocs l @ (if p then [] else releases [(a, d, f)])"
        using unlink_ok [OF l [unfolded 4(2)]] by blast
      then show ?thesis using f 4(1,2) True some list_ok_ends [OF l] spec
        by (intro exI [of _ "Answer eLINKED_LIST_SUCCESS (if p then Some d else None)"] exI [of _ l']
            exI [of _ "(map snd (us @ vs), deallocs l @ (if p then [] else released [(d, f)]))"])
          (auto simp: linked_list_search_def shows_as_def releases_def released_def)
    next
      case False
      then show ?thesis using f 4(1) known some list_ok_ends [OF l] spec
        by (intro exI [of _ "Answer eLINKED_LIST_SUCCESS (if p then Some d else None)"] exI [of _ l]
            exI [of _ "(map snd xs, deallocs l)"]) (auto simp: linked_list_search_def)
    qed
  qed
qed

lemma serve_refines:
  assumes l: "list_ok l xs" and p: "op_ok p"
  shows "\<exists>a l' st. list_serve p (Some l) = Some (a, Some l') \<and> shows_as l' st \<and> list_spec p (map snd xs, deallocs l) a st"
proof -
  have known: "shows_as l (map snd xs, deallocs l)" using l by (auto simp: shows_as_def)
  show ?thesis
  proof (cases p)
    case (Add malloc d f)
    then show ?thesis using add_ok [OF l, of malloc d f] p known
      by (cases "d = NULL"; cases "malloc (elems l) = NULL")
        (auto simp: linked_list_add_def [of malloc "Some l" NULL] op_ok_def shows_as_def, auto simp: linked_list_add_def Let_def)
  next
    case (Remove b)
    show ?thesis
    proof (cases xs rule: rev_cases)
      case Nil
      then show ?thesis using Remove remove_none [of l] l known by (cases b) (auto simp: linked_list_remove_def [of _ False])
    next
      case (snoc ys x)
      obtain a d f where x: "x = (a, d, f)" by (cases x)
      then show ?thesis using Remove remove_ok [OF l [unfolded snoc x]] known snoc
        by (cases b) (auto simp: shows_as_def linked_list_remove_def [of _ False])
    qed
  next
    case Is_empty
    then show ?thesis using empty_ok [OF l] known by auto
  next
    case Flush
    then show ?thesis using flush_ok [OF l] by (auto simp: shows_as_def)
  next
    case (Search q eq d0 rm)
    then show ?thesis using search_refines [OF l, of q eq d0 rm] by simp
  qed
qed

lemma run_refines:
  "list_ok l xs \<Longrightarrow> \<forall>p\<in>set ps. op_ok p \<Longrightarrow>
   \<exists>as l' st. list_run ps (Some l) = Some (as, Some l') \<and> shows_as l' st \<and> spec_run ps (map snd xs, deallocs l) as st"
proof (induction ps arbitrary: l xs)
  case Nil
  then show ?case by (auto simp: shows_as_def)
next
  case (Cons p ps)
  then obtain a l1 st ys where 1: "list_serve p (Some l) = Some (a, Some l1)" "list_ok l1 ys" "st = (map snd ys, deallocs l1)"
    "list_spec p (map snd xs, deallocs l) a st"
    using serve_refines [of l xs p] by (auto simp: shows_as_def)
  then obtain as l' st' where "list_run ps (Some l1) = Some (as, Some l')" "shows_as l' st'" "spec_run ps st as st'"
    using Cons.IH [of l1 ys] Cons.prems(2) by auto
  then have "list_run (p # ps) (Some l) = Some (a # as, Some l')" "shows_as l' st'"
    "spec_run (p # ps) (map snd xs, deallocs l) (a # as) st'"
    using 1(1,4) by (simp_all del: split_paired_Ex) blast
  then show ?case by blast
qed


definition two_cells :: malloc where
  "two_cells m = (if m 1 = None then 1 else if m 2 = None then 2 else NULL)"

lemma two_cells_ok [simp]: "malloc_ok two_cells"
  by (auto simp: malloc_ok_def two_cells_def domIff)

section \<open>Property\<close>

text \<open>
  C9: The list is the sequence of its data. From a fresh list on, every sequence of additions, removals, flushes and searches, whatever malloc
  answers, follows no pointer to nowhere, frees nothing twice, ends every walk, and answers as the sequence with the newest datum first does:
  removal takes the oldest, a search the newest match, a flush releases each datum by its own function once, newest first;
  no element is leaked, and destroying the list releases what is left.
\<close>
theorem list_refines_sequence:
  assumes "\<forall>p\<in>set ps. op_ok p"
  shows "\<exists>as l st. list_run ps (snd (linked_list_init True)) = Some (as, Some l) \<and> spec_run ps ([], []) as st \<and>
     card (dom (elems l)) = length (fst st) \<and> deallocs l = snd st \<and>
     linked_list_destroy (Some (Some l)) = Some (eLINKED_LIST_SUCCESS, snd st @ released (fst st), Some None)"
proof -
  define l0 where "l0 = \<lparr>p_head = NULL, p_tail = NULL, elems = Map.empty, deallocs = []\<rparr>"
  have l0: "snd (linked_list_init True) = Some l0" "list_ok l0 []" "deallocs l0 = []"
    by (simp_all add: linked_list_init_def list_ok_def l0_def)
  obtain as l st where 1: "list_run ps (Some l0) = Some (as, Some l)" "shows_as l st" "spec_run ps ([], []) as st"
    using run_refines [OF l0(2) assms] l0(3) by auto
  then obtain xs where xs: "list_ok l xs" "st = (map snd xs, deallocs l)" by (auto simp: shows_as_def)
  then have "card (dom (elems l)) = length xs"
    using distinct_card [of "map fst xs"] by (simp add: list_ok_def)
  then show ?thesis using 1 l0(1) xs destroy_ok [OF xs(1)] by (intro exI [of _ as] exI [of _ l] exI [of _ st]) simp
qed

theorem list_refines_sequence_witness:
  "\<exists>as l st. list_run [Add two_cells 7 3, Add two_cells 8 3, Add two_cells 9 3, Search True (Some (=)) 7 True, Remove True]
       (snd (linked_list_init True)) = Some (as, Some l) \<and>
     spec_run [Add two_cells 7 3, Add two_cells 8 3, Add two_cells 9 3, Search True (Some (=)) 7 True, Remove True]
       ([], []) as st \<and> card (dom (elems l)) = length (fst st) \<and> deallocs l = snd st \<and>
     linked_list_destroy (Some (Some l)) = Some (eLINKED_LIST_SUCCESS, snd st @ released (fst st), Some None)"
  by (rule list_refines_sequence) (simp add: op_ok_def)

end
