(* ===== verification/MsgQ.thy ===== *)
theory MsgQ
  imports LocList
begin

text \<open>
  The message queue of the location stack, \<open>hardware/gps/utils/msg_q.c\<close>, over the list of \<open>LocList\<close>, and the
  message task's use of it in \<open>MsgTask.cpp\<close>.

  Each routine runs under \<open>list_mutex\<close>, so it is one step; \<open>msg_q_rcv\<close> is cut at \<open>pthread_cond_wait\<close>, which gives
  the mutex back. A receiver in \<open>waiting\<close> sleeps on the condition; one in \<open>woken\<close> was woken and wants the mutex. A
  signal wakes one sleeper, if there is one; a sleeper may also wake for no reason, as POSIX allows. A routine gives
  \<open>None\<close> for an access through a bad pointer.
\<close>

section \<open>State\<close>

datatype msq_q_err_type =
    eMSG_Q_SUCCESS
  | eMSG_Q_FAILURE_GENERAL
  | eMSG_Q_INVALID_PARAMETER
  | eMSG_Q_INVALID_HANDLE
  | eMSG_Q_UNAVAILABLE_RESOURCE
  | eMSG_Q_INSUFFICIENT_BUFFER

fun convert_linked_list_err_type :: "linked_list_err_type \<Rightarrow> msq_q_err_type" where
  "convert_linked_list_err_type eLINKED_LIST_SUCCESS = eMSG_Q_SUCCESS"
| "convert_linked_list_err_type eLINKED_LIST_INVALID_PARAMETER = eMSG_Q_INVALID_PARAMETER"
| "convert_linked_list_err_type eLINKED_LIST_INVALID_HANDLE = eMSG_Q_INVALID_HANDLE"
| "convert_linked_list_err_type eLINKED_LIST_UNAVAILABLE_RESOURCE = eMSG_Q_UNAVAILABLE_RESOURCE"
| "convert_linked_list_err_type eLINKED_LIST_INSUFFICIENT_BUFFER = eMSG_Q_INSUFFICIENT_BUFFER"
| "convert_linked_list_err_type eLINKED_LIST_FAILURE_GENERAL = eMSG_Q_FAILURE_GENERAL"

record msg_q =
  msg_list :: "list_state option"
  unblocked :: bool

text \<open>
  The queue with its receivers: \<open>q_data\<close> is the handle. \<open>sent\<close> are the messages accepted, with their functions, and
  \<open>returned\<close> what \<open>msg_q_rcv\<close> returned to whom, both oldest first: histories that only the specification reads.
\<close>

record msg_sys =
  q_data :: "msg_q option"
  waiting :: "nat set"
  woken :: "nat set"
  sent :: "(nat \<times> nat) list"
  returned :: "(nat \<times> msq_q_err_type \<times> nat option) list"

section \<open>Creation and deletion\<close>

text \<open>The arguments tell whether the allocations and the initialisations of the mutex and the condition succeed.\<close>

definition msg_q_init :: "bool \<Rightarrow> bool \<Rightarrow> bool \<Rightarrow> bool \<Rightarrow> msq_q_err_type \<times> msg_q option" where
  "msg_q_init calloc_q calloc_list mutex_init cond_init =
     (if \<not> calloc_q then (eMSG_Q_FAILURE_GENERAL, None)
      else (case linked_list_init calloc_list of (r, l) \<Rightarrow>
        if r \<noteq> eLINKED_LIST_SUCCESS then (eMSG_Q_FAILURE_GENERAL, None)
        else if \<not> mutex_init then (eMSG_Q_FAILURE_GENERAL, None)
        else if \<not> cond_init then (eMSG_Q_FAILURE_GENERAL, None)
        else (eMSG_Q_SUCCESS, Some \<lparr>msg_list = l, unblocked = False\<rparr>)))"

definition msg_q_init2 :: "bool \<Rightarrow> bool \<Rightarrow> bool \<Rightarrow> bool \<Rightarrow> msg_q option" where
  "msg_q_init2 calloc_q calloc_list mutex_init cond_init =
     (case msg_q_init calloc_q calloc_list mutex_init cond_init of
        (r, q) \<Rightarrow> if r = eMSG_Q_SUCCESS then q else None)"

definition new_queue :: "msg_q option \<Rightarrow> msg_sys" where
  "new_queue q = \<lparr>q_data = q, waiting = {}, woken = {}, sent = [], returned = []\<rparr>"

text \<open>
  The handle is \<open>None\<close> when \<open>msg_q_data\<close> is \<open>NULL\<close>. A handle that holds \<open>NULL\<close> makes the code destroy a mutex at a
  bad address. The second result are the calls that released messages in the queue's life.
\<close>

definition msg_q_destroy :: "msg_q option option \<Rightarrow> (msq_q_err_type \<times> (nat \<times> nat) list \<times> msg_q option option) option" where
  "msg_q_destroy msg_q_data = (case msg_q_data of
     None \<Rightarrow> Some (eMSG_Q_INVALID_HANDLE, [], None)
   | Some None \<Rightarrow> None
   | Some (Some q) \<Rightarrow> do {
       (_, calls, _) \<leftarrow> linked_list_destroy (Some (msg_list q));
       Some (eMSG_Q_SUCCESS, calls, Some None) })"

section \<open>Sending\<close>

text \<open>\<open>pthread_cond_signal\<close> wakes \<open>pick\<close>, one of the sleepers; \<open>pthread_cond_broadcast\<close> wakes all.\<close>

definition pthread_cond_signal :: "nat \<Rightarrow> msg_sys \<Rightarrow> msg_sys" where
  "pthread_cond_signal pick s =
     (if pick \<in> waiting s then s\<lparr>waiting := waiting s - {pick}, woken := insert pick (woken s)\<rparr> else s)"

definition pthread_cond_broadcast :: "msg_sys \<Rightarrow> msg_sys" where
  "pthread_cond_broadcast s = s\<lparr>waiting := {}, woken := woken s \<union> waiting s\<rparr>"

definition msg_q_snd :: "malloc \<Rightarrow> nat \<Rightarrow> nat \<Rightarrow> nat \<Rightarrow> msg_sys \<Rightarrow> (msq_q_err_type \<times> msg_sys) option" where
  "msg_q_snd malloc msg_obj dealloc pick s = (case q_data s of
     None \<Rightarrow> Some (eMSG_Q_INVALID_HANDLE, s)
   | Some q \<Rightarrow>
       if msg_obj = NULL then Some (eMSG_Q_INVALID_PARAMETER, s)
       else if unblocked q then Some (eMSG_Q_UNAVAILABLE_RESOURCE, s)
       else do {
         (r, l) \<leftarrow> linked_list_add malloc (msg_list q) msg_obj dealloc;
         let rv = convert_linked_list_err_type r;
         let s = s\<lparr>q_data := Some (q\<lparr>msg_list := l\<rparr>),
                   sent := (if rv = eMSG_Q_SUCCESS then sent s @ [(msg_obj, dealloc)] else sent s)\<rparr>;
         Some (rv, pthread_cond_signal pick s) })"

section \<open>Receiving\<close>

text \<open>The test of the loop under the mutex: back to sleep, or out with a message.\<close>

definition rcv_loop :: "nat \<Rightarrow> msg_sys \<Rightarrow> msg_sys option" where
  "rcv_loop t s = (case q_data s of
     None \<Rightarrow> None
   | Some q \<Rightarrow>
       if (case linked_list_empty (msg_list q) of Inl _ \<Rightarrow> True | Inr b \<Rightarrow> b) \<and> \<not> unblocked q
       then Some (s\<lparr>waiting := insert t (waiting s)\<rparr>)
       else do {
         (r, d, l) \<leftarrow> linked_list_remove (msg_list q) True;
         Some (s\<lparr>q_data := Some (q\<lparr>msg_list := l\<rparr>), returned := returned s @ [(t, convert_linked_list_err_type r, d)]\<rparr>) })"

definition msg_q_rcv :: "nat \<Rightarrow> bool \<Rightarrow> msg_sys \<Rightarrow> msg_sys option" where
  "msg_q_rcv t msg_obj s = (case q_data s of
     None \<Rightarrow> Some (s\<lparr>returned := returned s @ [(t, eMSG_Q_INVALID_HANDLE, None)]\<rparr>)
   | Some q \<Rightarrow>
       if \<not> msg_obj then Some (s\<lparr>returned := returned s @ [(t, eMSG_Q_INVALID_PARAMETER, None)]\<rparr>)
       else if unblocked q then Some (s\<lparr>returned := returned s @ [(t, eMSG_Q_UNAVAILABLE_RESOURCE, None)]\<rparr>)
       else rcv_loop t s)"

text \<open>A woken receiver gets the mutex back.\<close>

definition rcv_resume :: "nat \<Rightarrow> msg_sys \<Rightarrow> msg_sys option" where
  "rcv_resume t s = (if t \<in> woken s then rcv_loop t (s\<lparr>woken := woken s - {t}\<rparr>) else None)"

section \<open>Flushing and unblocking\<close>

definition msg_q_flush :: "msg_sys \<Rightarrow> (msq_q_err_type \<times> msg_sys) option" where
  "msg_q_flush s = (case q_data s of
     None \<Rightarrow> Some (eMSG_Q_INVALID_HANDLE, s)
   | Some q \<Rightarrow> do {
       (r, l) \<leftarrow> linked_list_flush (msg_list q);
       Some (convert_linked_list_err_type r, s\<lparr>q_data := Some (q\<lparr>msg_list := l\<rparr>)\<rparr>) })"

definition msg_q_unblock :: "msg_sys \<Rightarrow> msq_q_err_type \<times> msg_sys" where
  "msg_q_unblock s = (case q_data s of
     None \<Rightarrow> (eMSG_Q_INVALID_HANDLE, s)
   | Some q \<Rightarrow>
       if unblocked q then (eMSG_Q_UNAVAILABLE_RESOURCE, s)
       else (eMSG_Q_SUCCESS, pthread_cond_broadcast (s\<lparr>q_data := Some (q\<lparr>unblocked := True\<rparr>)\<rparr>)))"

section \<open>Interleavings\<close>

inductive mq_step :: "msg_sys \<Rightarrow> msg_sys \<Rightarrow> bool" where
  snd: "malloc_ok malloc \<Longrightarrow> waiting s = {} \<or> pick \<in> waiting s \<Longrightarrow> msg_q_snd malloc d f pick s = Some (r, s') \<Longrightarrow> mq_step s s'"
| rcv: "t \<notin> waiting s \<union> woken s \<Longrightarrow> msg_q_rcv t b s = Some s' \<Longrightarrow> mq_step s s'"
| spurious: "t \<in> waiting s \<Longrightarrow> mq_step s (pthread_cond_signal t s)"
| resume: "rcv_resume t s = Some s' \<Longrightarrow> mq_step s s'"
| flush: "msg_q_flush s = Some (r, s') \<Longrightarrow> mq_step s s'"
| unblock: "mq_step s (snd (msg_q_unblock s))"

inductive mq_reachable :: "msg_sys \<Rightarrow> bool" where
  start: "msg_q_init2 b1 b2 b3 b4 = Some q \<Longrightarrow> mq_reachable (new_queue (Some q))"
| step: "mq_reachable s \<Longrightarrow> mq_step s s' \<Longrightarrow> mq_reachable s'"

inductive_cases mq_stepE: "mq_step s s'"

section \<open>The message task\<close>

text \<open>
  \<open>sendMsg\<close> and \<open>run\<close> of \<open>MsgTask\<close>: a message is released by \<open>LocMsgDestroy\<close>. \<open>run\<close> gives the message to process and
  delete, and whether to be called again, from what the task's own receiver \<open>msg_q_rcv\<close> returned.
\<close>

definition sendMsg :: "malloc \<Rightarrow> nat \<Rightarrow> nat \<Rightarrow> nat \<Rightarrow> msg_sys \<Rightarrow> msg_sys option" where
  "sendMsg malloc msg LocMsgDestroy pick s =
     (if msg \<noteq> NULL then map_option snd (msg_q_snd malloc msg LocMsgDestroy pick s) else Some s)"

definition task_run :: "msq_q_err_type \<times> nat option \<Rightarrow> bool \<times> nat option" where
  "task_run result = (if fst result \<noteq> eMSG_Q_SUCCESS then (False, None) else (True, snd result))"

end
