(* ===== verification/MsgQInv.thy ===== *)
theory MsgQInv
  imports MsgQ
begin

text \<open>The invariant of the message queue and its receivers, and the properties: no message is lost, and none waits.\<close>

section \<open>Invariant\<close>

definition received :: "msg_sys \<Rightarrow> nat list" where
  "received s = concat (map (\<lambda>(t, r, d). case d of Some d \<Rightarrow> [d] | None \<Rightarrow> []) (returned s))"

text \<open>
  \<open>xs\<close> are the elements of the list, newest first; \<open>gs\<close> the messages that have left, oldest first, with whether they
  were received. While somebody sleeps there are enough woken receivers for the messages.
\<close>

definition mq_ok :: "msg_sys \<Rightarrow> bool \<Rightarrow> list_state \<Rightarrow> (nat \<times> nat \<times> nat) list \<Rightarrow> ((nat \<times> nat) \<times> bool) list \<Rightarrow> bool" where
  "mq_ok s u l xs gs \<longleftrightarrow> q_data s = Some \<lparr>msg_list = Some l, unblocked = u\<rparr> \<and> list_ok l xs \<and>
     finite (woken s) \<and> finite (waiting s) \<and> waiting s \<inter> woken s = {} \<and>
     (waiting s \<noteq> {} \<longrightarrow> \<not> u \<and> length xs \<le> card (woken s)) \<and>
     sent s = map fst gs @ rev (map snd xs) \<and> received s = map (fst \<circ> fst) (filter snd gs) \<and>
     mset (deallocs l) = mset (released (map fst (filter (Not \<circ> snd) gs))) \<and>
     (\<forall>(t, r, d) \<in> set (returned s). (r = eMSG_Q_SUCCESS) = (d \<noteq> None))"

definition mq_inv :: "msg_sys \<Rightarrow> bool" where
  "mq_inv s \<longleftrightarrow> (\<exists>u l xs gs. mq_ok s u l xs gs)"

lemma mq_invI: "mq_ok s u l xs gs \<Longrightarrow> mq_inv s"
  unfolding mq_inv_def by blast

lemma mq_inv_new:
  assumes "msg_q_init2 b1 b2 b3 b4 = Some q"
  shows "mq_inv (new_queue (Some q))"
proof -
  have "q = \<lparr>msg_list = Some \<lparr>p_head = 0, p_tail = 0, elems = Map.empty, deallocs = []\<rparr>, unblocked = False\<rparr>"
    using assms by (auto simp: msg_q_init2_def msg_q_init_def linked_list_init_def split: if_splits prod.splits)
  then show ?thesis unfolding mq_inv_def mq_ok_def new_queue_def
    by (intro exI [of _ False] exI [of _ "\<lparr>p_head = 0, p_tail = 0, elems = Map.empty, deallocs = []\<rparr>"] exI [of _ "[]"])
      (simp add: list_ok_def received_def released_def)
qed

lemma card_signal:
  "finite (woken s) \<Longrightarrow> finite (waiting s) \<Longrightarrow> waiting s \<inter> woken s = {} \<Longrightarrow> t \<in> waiting s \<Longrightarrow>
   card (woken (pthread_cond_signal t s)) = card (woken s) + 1"
  by (subgoal_tac "t \<notin> woken s") (auto simp: pthread_cond_signal_def)

lemma signal_ok:
  assumes s: "mq_ok s u l xs gs"
  shows "mq_ok (pthread_cond_signal t s) u l xs gs"
proof (cases "t \<in> waiting s")
  case True
  then have "card (woken (pthread_cond_signal t s)) = card (woken s) + 1"
    using s by (intro card_signal) (simp_all add: mq_ok_def)
  then show ?thesis using s True by (auto simp: mq_ok_def pthread_cond_signal_def received_def)
next
  case False
  then show ?thesis using s by (simp add: pthread_cond_signal_def)
qed

lemma snd_ok:
  assumes s: "mq_ok s u l xs gs" and m: "malloc_ok malloc" and p: "waiting s = {} \<or> pick \<in> waiting s"
  shows "\<exists>r s'. msg_q_snd malloc d f pick s = Some (r, s') \<and> mq_inv s' \<and>
     (r = eMSG_Q_SUCCESS \<longrightarrow> sent s' = sent s @ [(d, f)]) \<and> (r \<noteq> eMSG_Q_SUCCESS \<longrightarrow> sent s' = sent s)"
proof -
  have q: "q_data s = Some \<lparr>msg_list = Some l, unblocked = u\<rparr>" "list_ok l xs" using s by (simp_all add: mq_ok_def)
  consider "d = NULL \<or> u" | "d \<noteq> NULL" "\<not> u" "malloc (elems l) = NULL" | "d \<noteq> NULL" "\<not> u" "malloc (elems l) \<noteq> NULL" by blast
  then show ?thesis
  proof cases
    case 1
    then show ?thesis using s q(1) by (auto simp: msg_q_snd_def mq_inv_def)
  next
    case 2
    have "pthread_cond_signal pick (s\<lparr>q_data := Some \<lparr>msg_list = Some l, unblocked = False\<rparr>\<rparr>) = pthread_cond_signal pick s"
      using q(1) 2(2) by (cases s) simp
    then have "msg_q_snd malloc d f pick s = Some (eMSG_Q_FAILURE_GENERAL, pthread_cond_signal pick s)"
      using 2 q(1) by (simp add: msg_q_snd_def linked_list_add_def Let_def)
    then show ?thesis using mq_invI [OF signal_ok [OF s, of pick]] by (auto simp: pthread_cond_signal_def)
  next
    case 3
    obtain l' where l': "linked_list_add malloc (Some l) d f = Some (eLINKED_LIST_SUCCESS, Some l')"
      "list_ok l' ((malloc (elems l), d, f) # xs)" "deallocs l' = deallocs l"
      using add_ok [OF q(2) m 3(3,1)] by blast
    let ?s = "s\<lparr>q_data := Some \<lparr>msg_list = Some l', unblocked = u\<rparr>, sent := sent s @ [(d, f)]\<rparr>"
    have snd: "msg_q_snd malloc d f pick s = Some (eMSG_Q_SUCCESS, pthread_cond_signal pick ?s)"
      using 3 q(1) l'(1) by (simp add: msg_q_snd_def)
    have c: "card (insert pick (woken s)) = Suc (card (woken s))" if "pick \<in> waiting s"
      using s that by (subst card_insert_disjoint) (auto simp: mq_ok_def)
    have "mq_ok (pthread_cond_signal pick ?s) u l' ((malloc (elems l), d, f) # xs) gs"
      using s l'(2,3) p by (cases "pick \<in> waiting s") (simp_all add: c mq_ok_def pthread_cond_signal_def received_def, auto)
    then show ?thesis using snd mq_invI by (auto simp: pthread_cond_signal_def)
  qed
qed

lemma loop_ok:
  assumes q: "q_data s = Some \<lparr>msg_list = Some l, unblocked = u\<rparr>" "list_ok l xs"
  shows "rcv_loop t s =
     (if xs = [] \<and> \<not> u then Some (s\<lparr>waiting := insert t (waiting s)\<rparr>)
      else if xs = [] then Some (s\<lparr>returned := returned s @ [(t, eMSG_Q_UNAVAILABLE_RESOURCE, None)]\<rparr>)
      else rcv_loop t s)"
  using q empty_ok [OF q(2)] remove_none [of l] by (auto simp: rcv_loop_def)

lemma loop_takes:
  assumes q: "q_data s = Some \<lparr>msg_list = Some l, unblocked = u\<rparr>" "list_ok l (xs @ [(a, d, f)])"
  shows "\<exists>l'. rcv_loop t s = Some (s\<lparr>q_data := Some \<lparr>msg_list = Some l', unblocked = u\<rparr>,
       returned := returned s @ [(t, eMSG_Q_SUCCESS, Some d)]\<rparr>) \<and> list_ok l' xs \<and> deallocs l' = deallocs l"
  using q(1) empty_ok [OF q(2)] remove_ok [OF q(2)] by (auto simp: rcv_loop_def)

text \<open>The loop, for a receiver that neither sleeps nor is woken; \<open>k\<close> woken receivers are left besides it.\<close>

lemma rcv_loop_ok:
  assumes s: "mq_ok (s\<lparr>woken := W\<rparr>) u l xs gs" and t: "t \<notin> waiting s \<union> woken s" "W = woken s \<or> W = insert t (woken s)"
  shows "\<exists>s'. rcv_loop t s = Some s' \<and> mq_inv s' \<and> woken s' = woken s \<and>
     (if xs = [] \<and> \<not> u then waiting s' = insert t (waiting s) \<and> returned s' = returned s
      else waiting s' = waiting s \<and> (\<exists>r. returned s' = returned s @ [(t, r)] \<and> (xs \<noteq> [] \<longrightarrow> fst r = eMSG_Q_SUCCESS)))"
proof -
  have q: "q_data s = Some \<lparr>msg_list = Some l, unblocked = u\<rparr>" "list_ok l xs" and fin: "finite (woken s)"
    using s t by (auto simp: mq_ok_def)
  have len: "length xs \<le> card (woken s) + 1" if "waiting s \<noteq> {}"
    using s t that fin by (auto simp: mq_ok_def)
  show ?thesis
  proof (cases xs rule: rev_cases)
    case Nil
    show ?thesis
    proof (cases u)
      case True
      have "mq_ok (s\<lparr>returned := returned s @ [(t, eMSG_Q_UNAVAILABLE_RESOURCE, None)]\<rparr>) u l [] gs"
        using s t Nil fin by (auto simp: mq_ok_def received_def)
      then show ?thesis using loop_ok [OF q, of t] Nil True by (auto simp: mq_inv_def)
    next
      case False
      have "mq_ok (s\<lparr>waiting := insert t (waiting s)\<rparr>) u l [] gs"
        using s t Nil fin False by (auto simp: mq_ok_def received_def)
      then show ?thesis using loop_ok [OF q, of t] Nil False by (auto simp: mq_inv_def)
    qed
  next
    case (snoc ys x)
    obtain a d f where x: "x = (a, d, f)" by (cases x)
    obtain l' where l': "rcv_loop t s = Some (s\<lparr>q_data := Some \<lparr>msg_list = Some l', unblocked = u\<rparr>,
        returned := returned s @ [(t, eMSG_Q_SUCCESS, Some d)]\<rparr>)" "list_ok l' ys" "deallocs l' = deallocs l"
      using loop_takes [OF q(1) q(2) [unfolded snoc x]] by blast
    have "mq_ok (s\<lparr>q_data := Some \<lparr>msg_list = Some l', unblocked = u\<rparr>,
        returned := returned s @ [(t, eMSG_Q_SUCCESS, Some d)]\<rparr>) u l' ys (gs @ [((d, f), True)])"
      using s t snoc x l'(2,3) fin len by (auto simp: mq_ok_def received_def)
    then show ?thesis using l'(1) snoc by (auto simp: mq_inv_def)
  qed
qed

lemma rcv_ok:
  assumes s: "mq_inv s" and t: "t \<notin> waiting s \<union> woken s"
  shows "\<exists>s'. msg_q_rcv t b s = Some s' \<and> mq_inv s'"
proof -
  obtain u l xs gs where ok: "mq_ok s u l xs gs" using s by (auto simp: mq_inv_def)
  then have q: "q_data s = Some \<lparr>msg_list = Some l, unblocked = u\<rparr>" by (simp add: mq_ok_def)
  have ret: "mq_inv (s\<lparr>returned := returned s @ [(t, r, None)]\<rparr>)" if "r \<noteq> eMSG_Q_SUCCESS" for r
  proof -
    have "mq_ok (s\<lparr>returned := returned s @ [(t, r, None)]\<rparr>) u l xs gs"
      using ok that by (auto simp: mq_ok_def received_def)
    then show ?thesis by (auto simp: mq_inv_def)
  qed
  have w: "mq_ok (s\<lparr>woken := woken s\<rparr>) u l xs gs" using ok by simp
  obtain s' where "rcv_loop t s = Some s'" "mq_inv s'" using rcv_loop_ok [OF w t] by auto
  then show ?thesis using q ret by (auto simp: msg_q_rcv_def)
qed

lemma resume_ok:
  assumes s: "mq_ok s u l xs gs" and t: "t \<in> woken s"
  shows "\<exists>s'. rcv_resume t s = Some s' \<and> mq_inv s' \<and> woken s' = woken s - {t} \<and>
     (if xs = [] \<and> \<not> u then waiting s' = insert t (waiting s) \<and> returned s' = returned s
      else waiting s' = waiting s \<and> (\<exists>r. returned s' = returned s @ [(t, r)] \<and> (xs \<noteq> [] \<longrightarrow> fst r = eMSG_Q_SUCCESS)))"
proof -
  have w: "mq_ok ((s\<lparr>woken := woken s - {t}\<rparr>)\<lparr>woken := woken s\<rparr>) u l xs gs" using s by simp
  have "t \<notin> waiting s" "woken s = insert t (woken s - {t})" using s t by (auto simp: mq_ok_def)
  from rcv_loop_ok [OF w, of t] this show ?thesis using t by (auto simp: rcv_resume_def)
qed

lemma flush_ok':
  assumes s: "mq_inv s"
  shows "\<exists>s'. msg_q_flush s = Some (eMSG_Q_SUCCESS, s') \<and> mq_inv s'"
proof -
  obtain u l xs gs where ok: "mq_ok s u l xs gs" using s by (auto simp: mq_inv_def)
  then have q: "q_data s = Some \<lparr>msg_list = Some l, unblocked = u\<rparr>" "list_ok l xs" by (simp_all add: mq_ok_def)
  obtain l' where l': "linked_list_flush (Some l) = Some (eLINKED_LIST_SUCCESS, Some l')" "list_ok l' []"
    "deallocs l' = deallocs l @ releases xs" using flush_ok [OF q(2)] by blast
  have "mset (releases xs) = mset (released (rev (map snd xs)))"
    unfolding released_map [symmetric] by (simp add: released_def mset_filter del: released_map flip: rev_filter rev_map)
  then have "mq_ok (s\<lparr>q_data := Some \<lparr>msg_list = Some l', unblocked = u\<rparr>\<rparr>) u l' []
      (gs @ map (\<lambda>x. (x, False)) (rev (map snd xs)))"
    using ok l'(2,3) by (auto simp: mq_ok_def received_def released_def filter_map o_def)
  then show ?thesis using q(1) l'(1) by (auto simp: msg_q_flush_def mq_inv_def)
qed

lemma unblock_ok:
  assumes s: "mq_inv s"
  shows "mq_inv (snd (msg_q_unblock s))"
proof -
  obtain u l xs gs where ok: "mq_ok s u l xs gs" using s by (auto simp: mq_inv_def)
  then have q: "q_data s = Some \<lparr>msg_list = Some l, unblocked = u\<rparr>" by (simp add: mq_ok_def)
  have "mq_ok (pthread_cond_broadcast (s\<lparr>q_data := Some \<lparr>msg_list = Some l, unblocked = True\<rparr>\<rparr>)) True l xs gs"
    using ok by (auto simp: mq_ok_def pthread_cond_broadcast_def received_def)
  then show ?thesis using q s by (auto simp: msg_q_unblock_def mq_inv_def)
qed

lemma mq_inv_step: "mq_inv s \<Longrightarrow> mq_step s s' \<Longrightarrow> mq_inv s'"
proof (erule mq_stepE)
  fix malloc pick d f r
  assume "mq_inv s" "malloc_ok malloc" "waiting s = {} \<or> pick \<in> waiting s" "msg_q_snd malloc d f pick s = Some (r, s')"
  then show "mq_inv s'" using snd_ok [of s _ _ _ _ malloc pick d f] by (fastforce simp: mq_inv_def [of s])
next
  fix t b
  assume "mq_inv s" "msg_q_rcv t b s = Some s'" "t \<notin> waiting s" "t \<notin> woken s"
  then show "mq_inv s'" using rcv_ok [of s t b] by simp
next
  fix t
  assume "mq_inv s" "s' = pthread_cond_signal t s"
  then show "mq_inv s'" using signal_ok by (auto simp: mq_inv_def) blast
next
  fix t
  assume i: "mq_inv s" and r: "rcv_resume t s = Some s'"
  then have "t \<in> woken s" by (auto simp: rcv_resume_def split: if_splits)
  then show "mq_inv s'" using i r resume_ok by (fastforce simp: mq_inv_def [of s])
next
  fix r
  assume "mq_inv s" "msg_q_flush s = Some (r, s')"
  then show "mq_inv s'" using flush_ok' by fastforce
next
  assume "mq_inv s" "s' = snd (msg_q_unblock s)"
  then show "mq_inv s'" using unblock_ok by simp
qed

lemma mq_reachable_inv: "mq_reachable s \<Longrightarrow> mq_inv s"
  by (induction rule: mq_reachable.induct) (auto intro: mq_inv_new mq_inv_step)

end
