(* ===== verification/MsgQProps.thy ===== *)
theory MsgQProps
  imports MsgQInv
begin

text \<open>
  The properties of the message queue: no message is lost, none waits while a receiver sleeps, and unblocking lets every
  receiver go.
\<close>

section \<open>Instances\<close>

definition no_elems :: list_state where
  "no_elems = \<lparr>p_head = 0, p_tail = 0, elems = Map.empty, deallocs = []\<rparr>"

definition idle :: "nat set \<Rightarrow> msg_sys" where
  "idle ts = \<lparr>q_data = Some \<lparr>msg_list = Some no_elems, unblocked = False\<rparr>, waiting = ts, woken = {}, sent = [], returned = []\<rparr>"

lemma no_elems_ok: "list_ok no_elems []"
  by (simp add: list_ok_def no_elems_def)

lemma idle_reachable: "mq_reachable (idle {})" "mq_reachable (idle {1})" "mq_reachable (idle {1, 2})"
proof -
  have "msg_q_init2 True True True True = Some \<lparr>msg_list = Some no_elems, unblocked = False\<rparr>"
    by (simp add: msg_q_init2_def msg_q_init_def linked_list_init_def no_elems_def)
  from mq_reachable.start [OF this] show 0: "mq_reachable (idle {})" by (simp add: new_queue_def idle_def)
  have more: "msg_q_rcv t True (idle ts) = Some (idle (insert t ts))" for t ts
    using loop_ok [of "idle ts" no_elems False "[]" t] no_elems_ok by (simp add: msg_q_rcv_def idle_def)
  show 1: "mq_reachable (idle {1})"
    using mq_reachable.step [OF 0 mq_step.rcv [of 1, OF _ more]] by (simp add: idle_def)
  show "mq_reachable (idle {1, 2})"
    using mq_reachable.step [OF 1 mq_step.rcv [of 2, OF _ more]] by (simp add: idle_def insert_commute)
qed

lemma sent_reachable:
  "\<exists>s. mq_reachable s \<and> 2 \<in> waiting s \<and> (\<exists>q. q_data s = Some q)"
proof -
  have s: "mq_ok (idle {1, 2}) False no_elems [] []"
    using no_elems_ok by (simp add: mq_ok_def idle_def received_def released_def no_elems_def)
  obtain r s' where 1: "msg_q_snd two_cells 7 3 1 (idle {1, 2}) = Some (r, s')" "mq_inv s'"
    using snd_ok [OF s two_cells_ok, of 1 7 3] by (auto simp: idle_def)
  have "mq_reachable s'"
    using mq_reachable.step [OF idle_reachable(3) mq_step.snd [OF two_cells_ok _ 1(1)]] by (simp add: idle_def)
  moreover have "2 \<in> waiting s'"
    using 1(1) by (auto simp: msg_q_snd_def Let_def idle_def pthread_cond_signal_def split: Option.bind_splits)
  ultimately show ?thesis using 1(2) by (auto simp: mq_inv_def mq_ok_def)
qed

section \<open>Properties\<close>



text \<open>
  C11: No wake-up is lost. While a receiver sleeps in msg_q_rcv the queue is not unblocked, and when a message is queued some receiver has been
  woken for it; whichever woken receiver gets the mutex first returns with a message.
\<close>
theorem no_message_waits:
  assumes "mq_reachable s" "t \<in> waiting s" "q_data s = Some q"
  shows "\<not> unblocked q \<and> (linked_list_empty (msg_list q) = Inr False \<longrightarrow> woken s \<noteq> {} \<and>
     (\<forall>t'\<in>woken s. \<exists>s' d. rcv_resume t' s = Some s' \<and> returned s' = returned s @ [(t', eMSG_Q_SUCCESS, Some d)]))"
proof -
  have inv: "mq_inv s" using mq_reachable_inv [OF assms(1)] .
  then obtain u l xs gs where ok: "mq_ok s u l xs gs" by (auto simp: mq_inv_def)
  then have q: "q = \<lparr>msg_list = Some l, unblocked = u\<rparr>" "\<not> u" "length xs \<le> card (woken s)" "list_ok l xs"
    using assms(2,3) by (auto simp: mq_ok_def)
  moreover have "\<exists>s' d. rcv_resume t' s = Some s' \<and> returned s' = returned s @ [(t', eMSG_Q_SUCCESS, Some d)]"
    if n: "xs \<noteq> []" and w: "t' \<in> woken s" for t'
  proof -
    obtain s' r where r: "rcv_resume t' s = Some s'" "mq_inv s'" "returned s' = returned s @ [(t', r)]" "fst r = eMSG_Q_SUCCESS"
      using resume_ok [OF ok w] n by auto
    then obtain d where "r = (eMSG_Q_SUCCESS, Some d)" by (cases r) (auto simp: mq_inv_def mq_ok_def)
    then show ?thesis using r by blast
  qed
  moreover have "woken s \<noteq> {}" if "xs \<noteq> []" using q(3) that by auto
  ultimately show ?thesis using empty_ok [OF q(4)] by auto
qed

theorem no_message_waits_witness:
  "\<exists>s q. mq_reachable s \<and> 2 \<in> waiting s \<and> q_data s = Some q \<and> \<not> unblocked q \<and>
     (linked_list_empty (msg_list q) = Inr False \<longrightarrow> woken s \<noteq> {})"
  using sent_reachable no_message_waits by blast

text \<open>The receivers in \<open>ts\<close> get the mutex one after the other.\<close>

primrec resume_all :: "nat list \<Rightarrow> msg_sys \<Rightarrow> msg_sys option" where
  "resume_all [] s = Some s"
| "resume_all (t # ts) s = Option.bind (rcv_resume t s) (resume_all ts)"

lemma resume_all_unblocked:
  "mq_inv s \<Longrightarrow> waiting s = {} \<Longrightarrow> \<exists>q. q_data s = Some q \<and> unblocked q \<Longrightarrow> distinct ts \<Longrightarrow> set ts = woken s \<Longrightarrow>
   \<exists>s'. resume_all ts s = Some s' \<and> waiting s' = {} \<and> woken s' = {} \<and> map fst (returned s') = map fst (returned s) @ ts"
proof (induction ts arbitrary: s)
  case Nil
  then show ?case by simp
next
  case (Cons t ts)
  obtain u l xs gs where ok: "mq_ok s u l xs gs" using Cons.prems(1) by (auto simp: mq_inv_def)
  then have u: "u" using Cons.prems(3) by (auto simp: mq_ok_def)
  have t: "t \<in> woken s" using Cons.prems(5) by auto
  obtain s' r where s': "rcv_resume t s = Some s'" "mq_inv s'" "woken s' = woken s - {t}" "waiting s' = {}"
    "returned s' = returned s @ [(t, r)]"
    using resume_ok [OF ok t] u Cons.prems(2) by auto
  have "\<exists>q. q_data s' = Some q \<and> unblocked q"
    using s'(1) Cons.prems(3) by (auto simp: rcv_resume_def rcv_loop_def split: if_splits Option.bind_splits option.splits)
  then show ?case using Cons.IH [OF s'(2,4)] Cons.prems(4,5) s' by auto
qed

text \<open>
  C12: Unblocking lets everybody go. Once a queue is unblocked nobody sleeps; in whatever order the woken receivers get
  the mutex, each returns, in one turn, and none sleeps again; later calls of msg_q_rcv and msg_q_snd are refused at once.
\<close>
theorem unblock_frees_receivers:
  assumes "mq_reachable s" "q_data s = Some q" "unblocked q" and ts: "distinct ts" "set ts = woken s"
  shows "waiting s = {} \<and>
     (\<exists>s'. resume_all ts s = Some s' \<and> waiting s' = {} \<and> woken s' = {} \<and> map fst (returned s') = map fst (returned s) @ ts) \<and>
     msg_q_rcv t True s = Some (s\<lparr>returned := returned s @ [(t, eMSG_Q_UNAVAILABLE_RESOURCE, None)]\<rparr>) \<and>
     (d \<noteq> 0 \<longrightarrow> msg_q_snd malloc d f pick s = Some (eMSG_Q_UNAVAILABLE_RESOURCE, s))"
proof -
  have inv: "mq_inv s" using mq_reachable_inv [OF assms(1)] .
  then have w: "waiting s = {}" using assms(2,3) by (auto simp: mq_inv_def mq_ok_def)
  then show ?thesis using resume_all_unblocked [OF inv w _ ts] assms(2,3)
    by (auto simp: msg_q_rcv_def msg_q_snd_def)
qed

lemma unblocked_reachable:
  "mq_reachable (snd (msg_q_unblock (idle {1, 2})))"
  using mq_reachable.step [OF idle_reachable(3) mq_step.unblock] .

theorem unblock_frees_receivers_witness:
  "\<exists>s. resume_all [2, 1] (snd (msg_q_unblock (idle {1, 2}))) = Some s \<and> waiting s = {} \<and> woken s = {} \<and>
     map fst (returned s) = [2, 1]"
proof -
  have "q_data (snd (msg_q_unblock (idle {1, 2}))) = Some \<lparr>msg_list = Some no_elems, unblocked = True\<rparr>"
    "woken (snd (msg_q_unblock (idle {1, 2}))) = {1, 2}" "returned (snd (msg_q_unblock (idle {1, 2}))) = []"
    by (simp_all add: msg_q_unblock_def idle_def pthread_cond_broadcast_def)
  then show ?thesis using unblock_frees_receivers [OF unblocked_reachable, of _ "[2, 1]" 0 0 two_cells 0 0] by auto
qed

text \<open>The task does not look at the result: a message that is refused is neither queued nor released.\<close>

lemma refused_message_leaks:
  "q_data s = Some q \<Longrightarrow> unblocked q \<Longrightarrow> msg \<noteq> 0 \<Longrightarrow> sendMsg malloc msg LocMsgDestroy pick s = Some s"
  by (simp add: sendMsg_def msg_q_snd_def)

end
