(* ===== verification/LocThread.thy ===== *)
theory LocThread
  imports Prelude
begin

text \<open>
  The life of a thread of the location stack, \<open>hardware/gps/utils/LocThread.cpp\<close>: the client that starts and stops it, the
  thread itself in \<open>threadMain\<close>, and the delegate object the two share and the last of them deletes.

  A step is one access to the delegate or to the runnable, or one critical section. A step gives \<open>None\<close> when it touches
  an object that was deleted. The threads' names are not modelled.
\<close>

section \<open>State\<close>

text \<open>Where the client and the thread are; \<open>T_NONE\<close>: there is no thread.\<close>

datatype client_pc = C_NEW | C_NAME | C_CHECK | C_HOLD | C_STOP | C_JOIN | C_JOINING | C_REF | C_DEC | C_FREE | C_END

datatype thread_pc =
    T_NONE | T_START | T_PRETEST | T_PRERUN | T_LOOP | T_RUN | T_POSTTEST | T_POSTRUN | T_CLEAR | T_DELETE
  | T_REF | T_DEC | T_FREE | T_END

text \<open>
  \<open>mRunnable\<close> tells whether the pointer is not \<open>NULL\<close>. \<open>gone\<close> and \<open>runnable_gone\<close>: the delegate and the runnable have been
  deleted; \<open>runs\<close>: the calls of \<open>run\<close>; \<open>started\<close>: what \<open>start\<close> returned.
\<close>

record thread_life =
  client :: client_pc
  thread :: thread_pc
  mRunnable :: bool
  mJoinable :: bool
  mRefCount :: int
  gone :: bool
  runnable_gone :: bool
  runs :: nat
  started :: "bool option"

definition LocThread :: thread_life where
  "LocThread = \<lparr>client = C_NEW, thread = T_NONE, mRunnable = False, mJoinable = False, mRefCount = 0, gone = False,
     runnable_gone = False, runs = 0, started = None\<rparr>"

text \<open>An access to the delegate, and one to the runnable.\<close>

definition use :: "(thread_life \<Rightarrow> thread_life) \<Rightarrow> thread_life \<Rightarrow> thread_life option" where
  "use f s = (if gone s then None else Some (f s))"

definition use_runnable :: "(thread_life \<Rightarrow> thread_life) \<Rightarrow> thread_life \<Rightarrow> thread_life option" where
  "use_runnable f s = (if runnable_gone s then None else Some (f s))"

section \<open>The client\<close>

text \<open>\<open>start\<close> up to the end of \<open>pthread_create\<close>, which succeeds or not; \<open>runnable\<close>: the client passed one.\<close>

definition start_thread :: "bool \<Rightarrow> bool \<Rightarrow> bool \<Rightarrow> thread_life \<Rightarrow> thread_life" where
  "start_thread runnable joinable created s =
     (if \<not> runnable then s\<lparr>client := C_END, started := Some False\<rparr>
      else if created then s\<lparr>client := C_NAME, thread := T_START, mRunnable := True, mJoinable := joinable, mRefCount := 2\<rparr>
      else s\<lparr>client := C_CHECK, mRunnable := False, mJoinable := False, mRefCount := 1\<rparr>)"

text \<open>\<open>stop\<close>: the client calls \<open>stop\<close>; otherwise it deletes its object, which calls \<open>bye\<close>.\<close>

definition client_step :: "bool \<Rightarrow> thread_life \<Rightarrow> thread_life option" where
  "client_step stop s = (case client s of
     C_NAME \<Rightarrow> use (\<lambda>s. s\<lparr>client := C_CHECK\<rparr>) s
   | C_CHECK \<Rightarrow> use (\<lambda>s. if \<not> mRunnable s then s\<lparr>client := C_REF, started := Some False\<rparr>
                       else s\<lparr>client := C_HOLD, started := Some True\<rparr>) s
   | C_HOLD \<Rightarrow> use (\<lambda>s. s\<lparr>client := if stop \<or> mJoinable s then C_STOP else C_REF\<rparr>) s
   | C_STOP \<Rightarrow> use (\<lambda>s. s\<lparr>mRunnable := False, client := C_JOIN\<rparr>) s
   | C_JOIN \<Rightarrow> use (\<lambda>s. if mJoinable s then s\<lparr>mJoinable := False, client := C_JOINING\<rparr> else s\<lparr>client := C_REF\<rparr>) s
   | C_JOINING \<Rightarrow> Some (s\<lparr>client := C_REF\<rparr>)
   | C_REF \<Rightarrow> use (\<lambda>s. s\<lparr>client := if mRefCount s > 0 then C_DEC else C_END\<rparr>) s
   | C_DEC \<Rightarrow> use (\<lambda>s. s\<lparr>client := if mRefCount s = 1 then C_FREE else C_END, mRefCount := mRefCount s - 1\<rparr>) s
   | C_FREE \<Rightarrow> use (\<lambda>s. s\<lparr>gone := True, client := C_END\<rparr>) s
   | _ \<Rightarrow> Some s)"

text \<open>\<open>pthread_join\<close> returns when the thread has ended.\<close>

definition client_ready :: "thread_life \<Rightarrow> bool" where
  "client_ready s \<longleftrightarrow> client s \<notin> {C_NEW, C_END} \<and> (client s = C_JOINING \<longrightarrow> thread s = T_END)"

section \<open>The thread\<close>

text \<open>\<open>threadMain\<close>; \<open>rerun\<close> is what \<open>run\<close> returns.\<close>

definition thread_step :: "bool \<Rightarrow> thread_life \<Rightarrow> thread_life option" where
  "thread_step rerun s = (case thread s of
     T_START \<Rightarrow> use (\<lambda>s. s\<lparr>thread := if mRunnable s then T_PRETEST else T_REF\<rparr>) s
   | T_PRETEST \<Rightarrow> use (\<lambda>s. s\<lparr>thread := if mRunnable s then T_PRERUN else T_LOOP\<rparr>) s
   | T_PRERUN \<Rightarrow> use_runnable (\<lambda>s. s\<lparr>thread := T_LOOP\<rparr>) s
   | T_LOOP \<Rightarrow> use (\<lambda>s. s\<lparr>thread := if mRunnable s then T_RUN else T_POSTTEST\<rparr>) s
   | T_RUN \<Rightarrow> use_runnable (\<lambda>s. s\<lparr>thread := if rerun then T_LOOP else T_POSTTEST, runs := runs s + 1\<rparr>) s
   | T_POSTTEST \<Rightarrow> use (\<lambda>s. s\<lparr>thread := if mRunnable s then T_POSTRUN else T_CLEAR\<rparr>) s
   | T_POSTRUN \<Rightarrow> use_runnable (\<lambda>s. s\<lparr>thread := T_CLEAR\<rparr>) s
   | T_CLEAR \<Rightarrow> use (\<lambda>s. s\<lparr>mRunnable := False, thread := T_DELETE\<rparr>) s
   | T_DELETE \<Rightarrow> use_runnable (\<lambda>s. s\<lparr>runnable_gone := True, thread := T_REF\<rparr>) s
   | T_REF \<Rightarrow> use (\<lambda>s. s\<lparr>thread := if mRefCount s > 0 then T_DEC else T_END\<rparr>) s
   | T_DEC \<Rightarrow> use (\<lambda>s. s\<lparr>thread := if mRefCount s = 1 then T_FREE else T_END, mRefCount := mRefCount s - 1\<rparr>) s
   | T_FREE \<Rightarrow> use (\<lambda>s. s\<lparr>gone := True, thread := T_END\<rparr>) s
   | _ \<Rightarrow> Some s)"

definition thread_ready :: "thread_life \<Rightarrow> bool" where
  "thread_ready s \<longleftrightarrow> thread s \<notin> {T_NONE, T_END}"

section \<open>Interleavings\<close>

text \<open>\<open>life n s\<close>: \<open>s\<close> is reached from \<open>s0\<close>, with \<open>n\<close> steps of the thread.\<close>

inductive life :: "thread_life \<Rightarrow> nat \<Rightarrow> thread_life \<Rightarrow> bool" for s0 where
  here: "life s0 0 s0"
| start: "life s0 n s \<Longrightarrow> client s = C_NEW \<Longrightarrow> life s0 n (start_thread r j c s)"
| client: "life s0 n s \<Longrightarrow> client_ready s \<Longrightarrow> client_step b s = Some s' \<Longrightarrow> life s0 n s'"
| thread: "life s0 n s \<Longrightarrow> thread_ready s \<Longrightarrow> thread_step b s = Some s' \<Longrightarrow> life s0 (n + 1) s'"

section \<open>Invariant\<close>

text \<open>How many calls of \<open>destroy\<close> the client and the thread have still to make on the delegate.\<close>

definition owed :: "thread_life \<Rightarrow> int" where
  "owed s = (if client s \<in> {C_NEW, C_FREE, C_END} then 0 else 1) + (if thread s \<in> {T_NONE, T_FREE, T_END} then 0 else 1)"

definition life_ok :: "thread_life \<Rightarrow> bool" where
  "life_ok s \<longleftrightarrow> mRefCount s = owed s
     \<and> (client s = C_FREE \<or> thread s = T_FREE \<longrightarrow> \<not> gone s \<and> owed s = 0 \<and> \<not> (client s = C_FREE \<and> thread s = T_FREE))
     \<and> (gone s \<longrightarrow> owed s = 0)
     \<and> (client s = C_END \<and> thread s = T_END \<longrightarrow> gone s)
     \<and> (client s = C_END \<and> thread s = T_NONE \<longrightarrow> gone s \<or> \<not> mRunnable s)
     \<and> (client s = C_NEW \<longrightarrow> thread s = T_NONE \<and> \<not> gone s \<and> \<not> mRunnable s \<and> \<not> runnable_gone s)
     \<and> (runnable_gone s \<longrightarrow> thread s \<in> {T_REF, T_DEC, T_FREE, T_END})
     \<and> (thread s \<in> {T_DELETE, T_REF, T_DEC, T_FREE, T_END} \<longrightarrow> \<not> mRunnable s)"

lemma life_ok_new: "life_ok LocThread"
  by (simp add: life_ok_def LocThread_def owed_def)

lemma start_ok: "life_ok s \<Longrightarrow> client s = C_NEW \<Longrightarrow> life_ok (start_thread r j c s)"
  by (cases r; cases c) (simp_all add: life_ok_def start_thread_def owed_def)

lemma client_step_ok:
  "life_ok s \<Longrightarrow> client_ready s \<Longrightarrow> \<exists>s'. client_step b s = Some s' \<and> life_ok s'"
  by (cases "client s"; cases "thread s"; simp add: client_step_def client_ready_def life_ok_def owed_def use_def)

lemma thread_step_ok:
  "life_ok s \<Longrightarrow> thread_ready s \<Longrightarrow> \<exists>s'. thread_step b s = Some s' \<and> life_ok s'"
  by (cases "thread s"; cases "client s"; simp add: thread_step_def thread_ready_def life_ok_def owed_def use_def use_runnable_def)

lemma life_reachable_ok: "life LocThread n s \<Longrightarrow> life_ok s"
proof (induction rule: life.induct)
  case (client n s b s')
  then show ?case using client_step_ok [of s b] by auto
next
  case (thread n s b s')
  then show ?case using thread_step_ok [of s b] by auto
qed (auto intro: life_ok_new start_ok)

section \<open>Properties\<close>


text \<open>Steps of the thread that are left when it is not to run any more.\<close>

definition steps_left :: "thread_pc \<Rightarrow> nat" where
  "steps_left t = (case t of T_NONE \<Rightarrow> 0 | T_START \<Rightarrow> 10 | T_PRETEST \<Rightarrow> 9 | T_PRERUN \<Rightarrow> 9 | T_LOOP \<Rightarrow> 8 | T_RUN \<Rightarrow> 9 | T_POSTTEST \<Rightarrow> 7
     | T_POSTRUN \<Rightarrow> 7 | T_CLEAR \<Rightarrow> 6 | T_DELETE \<Rightarrow> 5 | T_REF \<Rightarrow> 4 | T_DEC \<Rightarrow> 3 | T_FREE \<Rightarrow> 2 | T_END \<Rightarrow> 0)"

lemma thread_step_left:
  "thread_ready s \<Longrightarrow> \<not> mRunnable s \<Longrightarrow> thread_step b s = Some s' \<Longrightarrow>
   \<not> mRunnable s' \<and> steps_left (thread s') < steps_left (thread s) \<and>
   runs s' + (if thread s' = T_RUN then 1 else 0) \<le> runs s + (if thread s = T_RUN then 1 else 0) \<and> client s' = client s"
  by (cases "thread s") (auto simp: thread_step_def thread_ready_def use_def use_runnable_def steps_left_def split: if_splits)

lemma client_step_keeps:
  "client_step b s = Some s' \<Longrightarrow> thread s' = thread s \<and> runs s' = runs s \<and> (\<not> mRunnable s \<longrightarrow> \<not> mRunnable s')"
  by (cases "client s") (auto simp: client_step_def use_def split: if_splits)

text \<open>
  C23: Stopping stops. Once mRunnable is cleared, by stop, by deleting a joinable thread or by the thread itself, run is called at most
  once more, and only if the thread was just about to call it; the thread ends after at most ten steps of its own, however the steps
  interleave with those of the client and whatever run returns, so a client that joins it gets through.
\<close>
theorem stopped_thread_ends:
  assumes "life LocThread k s" "\<not> mRunnable s" "client s \<noteq> C_NEW" "life s n s'"
  shows "n \<le> 10 \<and> (n = 10 \<longrightarrow> \<not> thread_ready s') \<and> runs s' \<le> runs s + (if thread s = T_RUN then 1 else 0) \<and>
    (thread_ready s' \<longrightarrow> (\<exists>s''. thread_step b s' = Some s''))"
proof -
  have inv: "life_ok s' \<and> \<not> mRunnable s' \<and> client s' \<noteq> C_NEW \<and> n + steps_left (thread s') \<le> steps_left (thread s) \<and>
    runs s' + (if thread s' = T_RUN then 1 else 0) \<le> runs s + (if thread s = T_RUN then 1 else 0)"
    using assms(4)
  proof (induction rule: life.induct)
    case here
    then show ?case using life_reachable_ok [OF assms(1)] assms(2,3) by simp
  next
    case (start n u r j c)
    then show ?case by simp
  next
    case (client n u c u')
    then have "life_ok u'" using client_step_ok [of u c] by auto
    moreover have "client u' \<noteq> C_NEW"
      using client by (cases "client u") (auto simp: client_step_def use_def split: if_splits)
    ultimately show ?case using client client_step_keeps [of c u u'] by auto
  next
    case (thread n u c u')
    then have "life_ok u'" using thread_step_ok [of u c] by auto
    then show ?case using thread thread_step_left [of u c u'] by auto
  qed
  have "steps_left (thread s) \<le> 10" by (cases "thread s") (simp_all add: steps_left_def)
  moreover have "thread_ready s' \<Longrightarrow> 0 < steps_left (thread s')"
    by (cases "thread s'") (simp_all add: thread_ready_def steps_left_def)
  ultimately show ?thesis using inv thread_step_ok [of s' b] by auto
qed

section \<open>Witnesses\<close>

text \<open>Steps as a function: the thread's steps take what \<open>run\<close> returns, the client's whether it calls \<open>stop\<close>.\<close>

datatype mover = Client bool | Thread bool

fun moves :: "mover list \<Rightarrow> thread_life \<Rightarrow> thread_life option" where
  "moves [] s = Some s"
| "moves (Client b # ms) s = (if client_ready s then Option.bind (client_step b s) (moves ms) else None)"
| "moves (Thread b # ms) s = (if thread_ready s then Option.bind (thread_step b s) (moves ms) else None)"

lemma moves_life: "moves ms s = Some s' \<Longrightarrow> life s0 n s \<Longrightarrow> \<exists>k. life s0 k s'"
proof (induction ms s arbitrary: n rule: moves.induct)
  case (2 b ms s)
  then obtain t where "client_ready s" "client_step b s = Some t" "moves ms t = Some s'"
    by (auto split: if_splits Option.bind_splits)
  then show ?case using 2 life.client by metis
next
  case (3 b ms s)
  then obtain t where "thread_ready s" "thread_step b s = Some t" "moves ms t = Some s'"
    by (auto split: if_splits Option.bind_splits)
  then show ?case using 3 life.thread by metis
qed auto

definition two_runs :: "mover list" where
  "two_runs = [Client True, Client True, Thread True, Thread True, Thread True, Thread True, Thread True, Thread True,
     Client True, Client True]"

definition joinable_thread :: thread_life where
  "joinable_thread = start_thread True True True LocThread"

lemma joinable_life: "life LocThread 0 joinable_thread"
  unfolding joinable_thread_def by (rule life.start [OF life.here]) (simp add: LocThread_def)

lemma moves_reach:
  "(case moves ms joinable_thread of Some s \<Rightarrow> P s | None \<Rightarrow> False) \<Longrightarrow> \<exists>s n. life LocThread n s \<and> P s"
  using moves_life [OF _ joinable_life, of ms] by (cases "moves ms joinable_thread") (simp, force)


theorem stopped_thread_ends_witness:
  "\<exists>s. moves two_runs joinable_thread = Some s \<and> \<not> mRunnable s \<and> (\<forall>n s'. life s n s' \<longrightarrow> n \<le> 10 \<and> runs s' \<le> 2)"
proof -
  have e: "(case moves two_runs joinable_thread of Some s \<Rightarrow> client s = C_JOIN \<and> thread s = T_RUN \<and> runs s = 1 \<and> \<not> mRunnable s | None \<Rightarrow> False)"
    by code_simp
  then obtain s where s: "moves two_runs joinable_thread = Some s" "client s = C_JOIN" "thread s = T_RUN" "runs s = 1" "\<not> mRunnable s"
    by (auto split: option.splits)
  then obtain n where "life LocThread n s" using moves_life joinable_life by blast
  then show ?thesis using stopped_thread_ends [of n s] s by fastforce
qed

section \<open>Two gaps\<close>

text \<open>
  A thread that ends before \<open>create\<close> looks at it makes \<open>start\<close> report failure, although its runnable, which the client then believes to own,
  has been deleted.
\<close>

lemma quick_thread_reported_failed:
  "\<exists>s n. life LocThread n s \<and> started s = Some False \<and> runnable_gone s \<and> runs s = 1"
  by (rule moves_reach [where ms = "(map Thread [True, True, True, True, False, True, True, True, True] @ [Client True, Client True])"]) code_simp

text \<open>A thread that is stopped before it first looks at its runnable ends without deleting it.\<close>

lemma early_stop_leaks_runnable:
  "\<exists>s n. life LocThread n s \<and> started s = Some True \<and> client s = C_END \<and> thread s = T_END \<and> gone s \<and> \<not> runnable_gone s"
  by (rule moves_reach [where ms = "(map Client [True, True, True, True, True] @ [Thread True, Thread True, Thread True] @ map Client [True, True, True, True])"]) code_simp

end
