(* ===== verification/LocTimerLife.thy ===== *)
theory LocTimerLife
  imports LocTimer "HOL-Library.Monad_Syntax"
begin

text \<open>
  The life of timers, \<open>hardware/gps/utils/LocTimer.cpp\<close>: the client object with \<open>start\<close>, \<open>stop\<close> and its destructor, the
  delegate that \<open>start\<close> creates, the lock the two share (\<open>LocSharedLock.h\<close>), the two containers, and the task's thread
  that handles their messages. The container's own work is that of \<open>LocTimer\<close>.

  A step is a critical section under the shared lock, the handling of a message, or a step of a delegate's \<open>expire\<close>, so
  that clients run between its reads. A step gives \<open>None\<close> when it touches an object that was deleted.
\<close>

section \<open>State\<close>

text \<open>A delegate; \<open>home\<close>, for the specification only, is the container it was created for.\<close>

record loc_timer_delegate =
  mClient :: "nat option"
  mContainer :: "bool option"
  mLock :: nat
  home :: bool

text \<open>A container is named by \<open>wakeOnExpire\<close>.\<close>

datatype timer_msg = Push bool nat | Remove bool nat | Expire bool

text \<open>
  The thread of the message task: idle; with a delegate just popped; about to call \<open>stop\<close>, or the callback, of a client;
  or before the next pop. The time is the \<open>now\<close> of the message.
\<close>

datatype task_pc =
    Idle
  | Popped bool nat timespec
  | Stopping bool nat timespec
  | Calling bool nat timespec
  | Next bool timespec

text \<open>
  \<open>clients\<close>: the client objects that exist, with their \<open>mTimer\<close>; \<open>locks\<close>: the reference count of the lock a client
  created, named like the client; \<open>delegates\<close>: those that exist. Histories: the successful calls of \<open>start\<close>, those of
  \<open>stop\<close> by clients, and the callbacks, by client.
\<close>

record timers =
  clients :: "nat \<rightharpoonup> nat option"
  locks :: "nat \<Rightarrow> int"
  delegates :: "nat \<rightharpoonup> loc_timer_delegate"
  next_delegate :: nat
  boxes :: "bool \<rightharpoonup> container"
  msgs :: "timer_msg list"
  task :: task_pc
  starts :: "nat list"
  stops :: "nat list"
  callbacks :: "nat list"

definition no_timers :: timers where
  "no_timers = \<lparr>clients = Map.empty, locks = (\<lambda>_. 0), delegates = Map.empty, next_delegate = 0, boxes = Map.empty,
     msgs = [], task = Idle, starts = [], stops = [], callbacks = []\<rparr>"

section \<open>Clients\<close>

definition new_LocTimer :: "nat \<Rightarrow> timers \<Rightarrow> timers" where
  "new_LocTimer c s = s\<lparr>clients := (clients s)(c \<mapsto> None), locks := (locks s)(c := 1)\<rparr>"

definition share :: "nat \<Rightarrow> timers \<Rightarrow> timers option" where
  "share c s = (if locks s c = 0 then None else Some (s\<lparr>locks := (locks s)(c := locks s c + 1)\<rparr>))"

definition drop_lock :: "nat \<Rightarrow> timers \<Rightarrow> timers option" where
  "drop_lock c s = (if locks s c = 0 then None else Some (s\<lparr>locks := (locks s)(c := locks s c - 1)\<rparr>))"

text \<open>\<open>LocTimerContainer::get\<close>; \<open>created\<close> tells whether one of the two calls of \<open>timerfd_create\<close> succeeds.\<close>

definition get_container :: "bool \<Rightarrow> bool \<Rightarrow> timers \<Rightarrow> bool \<times> timers" where
  "get_container wakeOnExpire created s =
     (if boxes s wakeOnExpire \<noteq> None then (True, s)
      else if created then (True, s\<lparr>boxes := (boxes s)(wakeOnExpire \<mapsto> LocTimerContainer)\<rparr>)
      else (False, s))"

text \<open>The constructor of a delegate, with \<open>add\<close> of the container.\<close>

definition new_delegate :: "nat \<Rightarrow> bool \<Rightarrow> timers \<Rightarrow> (nat \<times> timers) option" where
  "new_delegate c box s = (let d = next_delegate s in do {
     s \<leftarrow> share c s;
     Some (d, s\<lparr>delegates := (delegates s)(d \<mapsto> \<lparr>mClient = Some c, mContainer = Some box, mLock = c, home = box\<rparr>),
                next_delegate := d + 1, msgs := msgs s @ [Push box d]\<rparr>) })"

definition start :: "nat \<Rightarrow> bool \<Rightarrow> bool \<Rightarrow> timers \<Rightarrow> (bool \<times> timers) option" where
  "start c wakeOnExpire created s = (case clients s c of
     None \<Rightarrow> None
   | Some t \<Rightarrow>
       if locks s c = 0 then None
       else if t \<noteq> None then Some (False, s)
       else (case get_container wakeOnExpire created s of (found, s) \<Rightarrow>
         if \<not> found then Some (False, s)
         else do {
           (d, s) \<leftarrow> new_delegate c wakeOnExpire s;
           Some (True, s\<lparr>clients := (clients s)(c \<mapsto> Some d), starts := starts s @ [c]\<rparr>) }))"

definition destroyLocked :: "nat \<Rightarrow> timers \<Rightarrow> timers option" where
  "destroyLocked d s = (case delegates s d of
     None \<Rightarrow> None
   | Some x \<Rightarrow>
       let x = x\<lparr>mClient := None\<rparr> in
       (case mContainer x of
          None \<Rightarrow> Some (s\<lparr>delegates := (delegates s)(d \<mapsto> x)\<rparr>)
        | Some b \<Rightarrow> Some (s\<lparr>delegates := (delegates s)(d \<mapsto> x\<lparr>mContainer := None\<rparr>), msgs := msgs s @ [Remove b d]\<rparr>)))"

definition stop :: "nat \<Rightarrow> timers \<Rightarrow> (bool \<times> timers) option" where
  "stop c s = (case clients s c of
     None \<Rightarrow> None
   | Some t \<Rightarrow>
       if locks s c = 0 then None
       else (case t of
          None \<Rightarrow> Some (False, s)
        | Some d \<Rightarrow> do {
            s \<leftarrow> destroyLocked d (s\<lparr>clients := (clients s)(c \<mapsto> None)\<rparr>);
            Some (True, s) }))"

text \<open>\<open>stop\<close> as a client calls it, and the destructor.\<close>

definition client_stop :: "nat \<Rightarrow> timers \<Rightarrow> (bool \<times> timers) option" where
  "client_stop c s = map_option (\<lambda>(r, s). (r, if r then s\<lparr>stops := stops s @ [c]\<rparr> else s)) (stop c s)"

definition delete_timer :: "nat \<Rightarrow> timers \<Rightarrow> timers option" where
  "delete_timer c s = do {
     (_, s) \<leftarrow> client_stop c s;
     s \<leftarrow> drop_lock c s;
     Some (s\<lparr>clients := (clients s)(c := None)\<rparr>) }"

section \<open>The C functions\<close>

text \<open>
  \<open>loc_timer_start\<close>: the handle is that of the wrapper, whatever \<open>start\<close> returned. \<open>destroy\<close> of a wrapper, which
  \<open>loc_timer_stop\<close> and the wrapper's own callback end with, reads the wrapper and deletes it.
\<close>

definition loc_timer_start :: "bool \<Rightarrow> nat \<Rightarrow> bool \<Rightarrow> bool \<Rightarrow> timers \<Rightarrow> (nat option \<times> timers) option" where
  "loc_timer_start cb_func c wake_on_expire created s =
     (if \<not> cb_func then Some (None, s)
      else do { (_, s) \<leftarrow> start c wake_on_expire created (new_LocTimer c s); Some (Some c, s) })"

definition wrapper_destroy :: "nat \<Rightarrow> timers \<Rightarrow> timers option" where
  "wrapper_destroy c s = (if clients s c = None then None else delete_timer c s)"

text \<open>\<open>timeOutCallback\<close> of a wrapper.\<close>

definition wrapper_timeOutCallback :: "nat \<Rightarrow> timers \<Rightarrow> timers option" where
  "wrapper_timeOutCallback c s =
     (if clients s c = None then None else wrapper_destroy c (s\<lparr>callbacks := callbacks s @ [c]\<rparr>))"

definition loc_timer_stop :: "nat option \<Rightarrow> timers \<Rightarrow> (nat option \<times> timers) option" where
  "loc_timer_stop handle s = (case handle of
     None \<Rightarrow> Some (None, s)
   | Some c \<Rightarrow> map_option (Pair None) (wrapper_destroy c s))"

section \<open>The polling thread\<close>

text \<open>\<open>expire\<close> of a container, and \<open>run\<close> of the poll task: \<open>fds\<close> and \<open>eintr\<close> come from \<open>epoll_wait\<close>.\<close>

definition post_expire :: "bool \<Rightarrow> timers \<Rightarrow> timers" where
  "post_expire b s = s\<lparr>boxes := (boxes s)(b := map_option expire (boxes s b)), msgs := msgs s @ [Expire b]\<rparr>"

definition poll_run :: "int \<Rightarrow> bool \<Rightarrow> bool list \<Rightarrow> timers \<Rightarrow> bool \<times> timers" where
  "poll_run fds eintr ev s = (fds > 0 \<or> eintr, if fds > 0 then fold post_expire (take (nat fds) ev) s else s)"

section \<open>The thread of the message task\<close>

text \<open>Working on a heap reads the times of its timers.\<close>

definition heap_alive :: "container \<Rightarrow> timers \<Rightarrow> bool" where
  "heap_alive box s \<longleftrightarrow> (\<forall>d \<in># elems (mTree box). delegates s d \<noteq> None)"

definition popped :: "(nat \<Rightarrow> timespec) \<Rightarrow> bool \<Rightarrow> timespec \<Rightarrow> container \<Rightarrow> nat option \<times> nat loc_heap \<Rightarrow> timers \<Rightarrow> timers" where
  "popped time b now box p s = (case p of
     (None, t) \<Rightarrow> s\<lparr>boxes := (boxes s)(b \<mapsto> updateSoonestTime time None (box\<lparr>mTree := t\<rparr>)), task := Idle\<rparr>
   | (Some d, t) \<Rightarrow> s\<lparr>boxes := (boxes s)(b \<mapsto> box\<lparr>mTree := t, fired := fired box @ [d]\<rparr>), task := Popped b d now\<rparr>)"

definition handle_msg :: "(nat \<Rightarrow> timespec) \<Rightarrow> timespec \<Rightarrow> timer_msg \<Rightarrow> timers \<Rightarrow> timers option" where
  "handle_msg time now msg s = (case msg of
     Push b d \<Rightarrow> do {
       box \<leftarrow> boxes s b;
       _ \<leftarrow> delegates s d;
       if heap_alive box s then Some (s\<lparr>boxes := (boxes s)(b \<mapsto> MsgTimerPush time d box)\<rparr>) else None }
   | Remove b d \<Rightarrow> do {
       box \<leftarrow> boxes s b;
       x \<leftarrow> delegates s d;
       s \<leftarrow> (if heap_alive box s then Some (s\<lparr>boxes := (boxes s)(b \<mapsto> MsgTimerRemove time d box)\<rparr>) else None);
       drop_lock (mLock x) (s\<lparr>delegates := (delegates s)(d := None)\<rparr>) }
   | Expire b \<Rightarrow> do {
       box \<leftarrow> boxes s b;
       if heap_alive box s then Some (popped time b now box (heap_pop (outRanks time) (mTree box)) s) else None })"

text \<open>One step of the thread; \<open>clock\<close> is what \<open>clock_gettime\<close> gives.\<close>

definition task_step :: "(nat \<Rightarrow> timespec) \<Rightarrow> timespec \<Rightarrow> timers \<Rightarrow> timers option" where
  "task_step time clock s = (case task s of
     Idle \<Rightarrow> (case msgs s of [] \<Rightarrow> Some s | m # ms \<Rightarrow> handle_msg time clock m (s\<lparr>msgs := ms\<rparr>))
   | Popped b d now \<Rightarrow> (case delegates s d of
       None \<Rightarrow> None
     | Some x \<Rightarrow> Some (s\<lparr>task := (case mClient x of None \<Rightarrow> Next b now | Some c \<Rightarrow> Stopping b c now)\<rparr>))
   | Stopping b c now \<Rightarrow> map_option (\<lambda>(r, s). s\<lparr>task := if r then Calling b c now else Next b now\<rparr>) (stop c s)
   | Calling b c now \<Rightarrow>
       if clients s c = None then None else Some (s\<lparr>callbacks := callbacks s @ [c], task := Next b now\<rparr>)
   | Next b now \<Rightarrow> do {
       box \<leftarrow> boxes s b;
       if heap_alive box s then Some (popped time b now box (popIfOutRanks time now (mTree box)) s) else None })"

section \<open>Interleavings\<close>

text \<open>
  \<open>time d\<close> is the expiration time that \<open>start\<close> computed for delegate \<open>d\<close>. A client is not deleted while the thread is
  about to call it: the code relies on that.
\<close>

definition expecting :: "timers \<Rightarrow> nat option" where
  "expecting s = (case task s of Stopping b c now \<Rightarrow> Some c | Calling b c now \<Rightarrow> Some c | _ \<Rightarrow> None)"

inductive timer_step :: "(nat \<Rightarrow> timespec) \<Rightarrow> timers \<Rightarrow> timers \<Rightarrow> bool" for time where
  create: "clients s c = None \<Longrightarrow> locks s c = 0 \<Longrightarrow> timer_step time s (new_LocTimer c s)"
| start: "clients s c \<noteq> None \<Longrightarrow> time (next_delegate s) = future_time ms now \<Longrightarrow> start c w k s = Some (r, s') \<Longrightarrow> timer_step time s s'"
| stop: "clients s c \<noteq> None \<Longrightarrow> client_stop c s = Some (r, s') \<Longrightarrow> timer_step time s s'"
| delete: "clients s c \<noteq> None \<Longrightarrow> expecting s \<noteq> Some c \<Longrightarrow> delete_timer c s = Some s' \<Longrightarrow> timer_step time s s'"
| poll: "\<forall>b \<in> set ev. boxes s b \<noteq> None \<Longrightarrow> timer_step time s (snd (poll_run fds e ev s))"
| task: "task_step time clock s = Some s' \<Longrightarrow> timer_step time s s'"

inductive timers_reachable :: "(nat \<Rightarrow> timespec) \<Rightarrow> timers \<Rightarrow> bool" for time where
  none: "timers_reachable time no_timers"
| step: "timers_reachable time s \<Longrightarrow> timer_step time s s' \<Longrightarrow> timers_reachable time s'"

end
