(* ===== verification/LocTimerInv.thy ===== *)
theory LocTimerInv
  imports LocTimerLife
begin

text \<open>
  The invariant of the timers of \<open>LocTimerLife\<close>: which objects exist, what the messages and the heaps refer to, and
  who holds the locks. Every step keeps it, and under it no step touches a deleted object.
\<close>

section \<open>The invariant\<close>

text \<open>No two messages push a timer, or remove it, and none pushes it after its removal.\<close>

fun may_follow :: "timer_msg \<Rightarrow> timer_msg \<Rightarrow> bool" where
  "may_follow (Push b d) (Push b' d') \<longleftrightarrow> d \<noteq> d'"
| "may_follow (Remove b d) (Push b' d') \<longleftrightarrow> d \<noteq> d'"
| "may_follow (Remove b d) (Remove b' d') \<longleftrightarrow> d \<noteq> d'"
| "may_follow _ _ \<longleftrightarrow> True"

definition holds :: "timers \<Rightarrow> bool \<Rightarrow> nat \<Rightarrow> bool" where
  "holds s b d \<longleftrightarrow> (case boxes s b of None \<Rightarrow> False | Some box \<Rightarrow> d \<in># elems (mTree box))"

definition waits_in :: "timers \<Rightarrow> bool \<Rightarrow> nat \<Rightarrow> bool" where
  "waits_in s b d \<longleftrightarrow> (\<forall>b'. Push b' d \<notin> set (msgs s)) \<and> (\<exists>x. delegates s d = Some x \<and> home x = b)"

definition box_ok :: "(nat \<Rightarrow> timespec) \<Rightarrow> timers \<Rightarrow> bool \<Rightarrow> container \<Rightarrow> bool" where
  "box_ok time s b box \<longleftrightarrow> heap_valid time (mTree box) \<and> (\<forall>d. count (elems (mTree box)) d \<le> 1)
     \<and> (\<forall>d. d \<in># elems (mTree box) \<longrightarrow> waits_in s b d)"

definition heaps_ok :: "(nat \<Rightarrow> timespec) \<Rightarrow> timers \<Rightarrow> bool" where
  "heaps_ok time s \<longleftrightarrow> (\<forall>b box. boxes s b = Some box \<longrightarrow> box_ok time s b box)"

definition msg_ok :: "timers \<Rightarrow> timer_msg \<Rightarrow> bool" where
  "msg_ok s m \<longleftrightarrow> (case m of
     Push b d \<Rightarrow> boxes s b \<noteq> None \<and> (\<exists>x. delegates s d = Some x \<and> home x = b)
   | Remove b d \<Rightarrow> boxes s b \<noteq> None \<and> (\<exists>x. delegates s d = Some x \<and> home x = b \<and> mContainer x = None)
   | Expire b \<Rightarrow> boxes s b \<noteq> None)"

definition msgs_ok :: "timers \<Rightarrow> bool" where
  "msgs_ok s \<longleftrightarrow> sorted_wrt may_follow (msgs s) \<and> (\<forall>m \<in> set (msgs s). msg_ok s m)"

definition delegate_ok :: "timers \<Rightarrow> nat \<Rightarrow> loc_timer_delegate \<Rightarrow> bool" where
  "delegate_ok s d x \<longleftrightarrow> d < next_delegate s \<and> boxes s (home x) \<noteq> None
     \<and> (case mClient x of
          None \<Rightarrow> mContainer x = None \<and> Remove (home x) d \<in> set (msgs s)
        | Some c \<Rightarrow> mContainer x = Some (home x) \<and> mLock x = c \<and> clients s c = Some (Some d))"

definition delegates_ok :: "timers \<Rightarrow> bool" where
  "delegates_ok s \<longleftrightarrow> (\<forall>d x. delegates s d = Some x \<longrightarrow> delegate_ok s d x)"

definition running_ok :: "timers \<Rightarrow> bool" where
  "running_ok s \<longleftrightarrow> (\<forall>c d. clients s c = Some (Some d) \<longrightarrow> (\<exists>x. delegates s d = Some x \<and> mClient x = Some c))"

definition task_ok :: "timers \<Rightarrow> bool" where
  "task_ok s \<longleftrightarrow> (case task s of
     Idle \<Rightarrow> True
   | Popped b d now \<Rightarrow> boxes s b \<noteq> None \<and> delegates s d \<noteq> None
   | Stopping b c now \<Rightarrow> boxes s b \<noteq> None \<and> clients s c \<noteq> None
   | Calling b c now \<Rightarrow> boxes s b \<noteq> None \<and> clients s c \<noteq> None
   | Next b now \<Rightarrow> boxes s b \<noteq> None)"

definition lock_users :: "timers \<Rightarrow> nat \<Rightarrow> nat set" where
  "lock_users s c = {d. \<exists>x. delegates s d = Some x \<and> mLock x = c}"

definition locks_ok :: "timers \<Rightarrow> bool" where
  "locks_ok s \<longleftrightarrow> finite (dom (delegates s))
     \<and> (\<forall>c. locks s c = of_bool (clients s c \<noteq> None) + int (card (lock_users s c)))"

definition timers_ok :: "(nat \<Rightarrow> timespec) \<Rightarrow> timers \<Rightarrow> bool" where
  "timers_ok time s \<longleftrightarrow> heaps_ok time s \<and> msgs_ok s \<and> delegates_ok s \<and> running_ok s \<and> task_ok s \<and> locks_ok s"

lemmas timers_parts = heaps_ok_def box_ok_def waits_in_def msgs_ok_def msg_ok_def delegates_ok_def delegate_ok_def running_ok_def task_ok_def

lemma timers_okD:
  "timers_ok time s \<Longrightarrow> heaps_ok time s" "timers_ok time s \<Longrightarrow> msgs_ok s" "timers_ok time s \<Longrightarrow> delegates_ok s"
  "timers_ok time s \<Longrightarrow> running_ok s" "timers_ok time s \<Longrightarrow> task_ok s" "timers_ok time s \<Longrightarrow> locks_ok s"
  by (simp_all add: timers_ok_def)

lemma delegates_okD: "delegates_ok s \<Longrightarrow> delegates s d = Some x \<Longrightarrow> delegate_ok s d x"
  by (simp add: delegates_ok_def)

lemma delegate_client:
  assumes "delegates_ok s" and "delegates s d = Some x" and "mClient x = Some c"
  shows "mContainer x = Some (home x)" and "mLock x = c" and "clients s c = Some (Some d)"
  using delegates_okD [OF assms(1, 2)] assms(3) by (simp_all add: delegate_ok_def)

lemma delegate_gone:
  assumes "delegates_ok s" and "delegates s d = Some x" and "mClient x = None"
  shows "mContainer x = None" and "Remove (home x) d \<in> set (msgs s)"
  using delegates_okD [OF assms(1, 2)] assms(3) by (simp_all add: delegate_ok_def)

lemma may_follow_new:
  "may_follow m (Push b d) \<longleftrightarrow> (\<forall>b'. m \<noteq> Push b' d \<and> m \<noteq> Remove b' d)"
  "may_follow m (Remove b d) \<longleftrightarrow> (\<forall>b'. m \<noteq> Remove b' d)" "may_follow m (Expire b)"
  by (cases m; simp; blast)+

subsection \<open>What the operations do to the state\<close>

definition with_box :: "bool \<Rightarrow> timers \<Rightarrow> timers" where
  "with_box b s = (if boxes s b = None then s\<lparr>boxes := (boxes s)(b \<mapsto> LocTimerContainer)\<rparr> else s)"

definition started :: "nat \<Rightarrow> bool \<Rightarrow> timers \<Rightarrow> timers" where
  "started c b s = s\<lparr>clients := (clients s)(c \<mapsto> Some (next_delegate s)), locks := (locks s)(c := locks s c + 1),
     delegates := (delegates s)(next_delegate s \<mapsto> \<lparr>mClient = Some c, mContainer = Some b, mLock = c, home = b\<rparr>),
     next_delegate := next_delegate s + 1, msgs := msgs s @ [Push b (next_delegate s)], starts := starts s @ [c]\<rparr>"

definition halted :: "nat \<Rightarrow> nat \<Rightarrow> timers \<Rightarrow> timers" where
  "halted c d s = (let x = the (delegates s d) in s\<lparr>clients := (clients s)(c \<mapsto> None),
     delegates := (delegates s)(d \<mapsto> x\<lparr>mClient := None, mContainer := None\<rparr>), msgs := msgs s @ [Remove (home x) d]\<rparr>)"

definition after_stop :: "nat \<Rightarrow> timers \<Rightarrow> timers" where
  "after_stop c s = (case clients s c of Some (Some d) \<Rightarrow> halted c d s | _ \<Rightarrow> s)"

definition gone :: "nat \<Rightarrow> timers \<Rightarrow> timers" where
  "gone c s = s\<lparr>locks := (locks s)(c := locks s c - 1), clients := (clients s)(c := None)\<rparr>"

definition pushed :: "(nat \<Rightarrow> timespec) \<Rightarrow> bool \<Rightarrow> nat \<Rightarrow> timers \<Rightarrow> timers" where
  "pushed time b d s = s\<lparr>boxes := (boxes s)(b := map_option (MsgTimerPush time d) (boxes s b))\<rparr>"

definition removed :: "(nat \<Rightarrow> timespec) \<Rightarrow> bool \<Rightarrow> nat \<Rightarrow> timers \<Rightarrow> timers" where
  "removed time b d s = (let c = mLock (the (delegates s d)) in s\<lparr>boxes := (boxes s)(b := map_option (MsgTimerRemove time d) (boxes s b)),
     delegates := (delegates s)(d := None), locks := (locks s)(c := locks s c - 1)\<rparr>)"

lemma locks_of_client: "locks_ok s \<Longrightarrow> clients s c \<noteq> None \<Longrightarrow> locks s c \<noteq> 0"
  by (simp add: locks_ok_def)

lemma locks_of_delegate:
  assumes "locks_ok s" and "delegates s d = Some x"
  shows "locks s (mLock x) \<noteq> 0"
proof -
  have "lock_users s (mLock x) \<subseteq> dom (delegates s)" "d \<in> lock_users s (mLock x)"
    using assms(2) by (auto simp: lock_users_def)
  then have "card (lock_users s (mLock x)) \<noteq> 0"
    using assms(1) finite_subset card_gt_0_iff by (metis empty_iff less_numeral_extra(3) locks_ok_def)
  moreover have "locks s (mLock x) = of_bool (clients s (mLock x) \<noteq> None) + int (card (lock_users s (mLock x)))"
    using assms(1) by (simp add: locks_ok_def)
  moreover have "of_bool (clients s (mLock x) \<noteq> None) \<ge> (0 :: int)"
    by simp
  ultimately show ?thesis by linarith
qed

lemma start_eq:
  assumes "timers_ok time s" and "clients s c = Some t"
  shows "start c w k s = Some (if t = None \<and> (boxes s w \<noteq> None \<or> k) then (True, started c w (with_box w s)) else (False, s))"
  using locks_of_client [OF timers_okD(6) [OF assms(1)], of c] assms(2)
  by (auto simp: start_def get_container_def new_delegate_def share_def started_def with_box_def Let_def)

lemma stop_eq:
  assumes "timers_ok time s" and "clients s c = Some t"
  shows "stop c s = Some (t \<noteq> None, after_stop c s)"
proof (cases t)
  case None
  then show ?thesis
    using locks_of_client [OF timers_okD(6) [OF assms(1)], of c] assms(2) by (simp add: stop_def after_stop_def)
next
  case (Some d)
  then obtain x where x: "delegates s d = Some x" "mClient x = Some c"
    using timers_okD(4) [OF assms(1)] assms(2) by (auto simp: running_ok_def)
  then have "mContainer x = Some (home x)"
    using delegate_client timers_okD(3) [OF assms(1)] by blast
  with Some x show ?thesis
    using locks_of_client [OF timers_okD(6) [OF assms(1)], of c] assms(2)
    by (simp add: stop_def after_stop_def halted_def destroyLocked_def Let_def)
qed

lemma heap_alive_ok: "heaps_ok time s \<Longrightarrow> boxes s b = Some box \<Longrightarrow> heap_alive box s"
  by (fastforce simp: heaps_ok_def box_ok_def waits_in_def heap_alive_def)


lemma tree_update [simp]: "mTree (updateSoonestTime time p box) = mTree box"
  by (simp add: updateSoonestTime_def Let_def split: option.split)

lemma tree_push [simp]: "mTree (MsgTimerPush time d box) = heap_push (outRanks time) d (mTree box)"
  by (simp add: MsgTimerPush_def Let_def)

lemma tree_remove [simp]: "mTree (MsgTimerRemove time d box) = snd (heap_remove (outRanks time) d (mTree box))"
  by (simp add: MsgTimerRemove_def Let_def split: prod.split)

lemma tree_expire [simp]: "mTree (expire box) = mTree box"
  by (simp add: expire_def)

subsection \<open>Every operation keeps it\<close>

lemma ok_none: "timers_ok time no_timers"
  by (simp add: timers_ok_def no_timers_def timers_parts locks_ok_def lock_users_def)

lemma ok_create:
  assumes "timers_ok time s" and "clients s c = None" and "locks s c = 0"
  shows "timers_ok time (new_LocTimer c s)"
proof -
  have m: "msg_ok (new_LocTimer c s) = msg_ok s"
    by (rule ext) (simp add: msg_ok_def new_LocTimer_def split: timer_msg.split)
  have "heaps_ok time (new_LocTimer c s) = heaps_ok time s"
    by (simp add: heaps_ok_def box_ok_def waits_in_def new_LocTimer_def)
  moreover have "msgs_ok (new_LocTimer c s) = msgs_ok s"
    by (simp add: msgs_ok_def m) (simp add: new_LocTimer_def)
  moreover have "delegates_ok (new_LocTimer c s)"
    using timers_okD(3) [OF assms(1)] assms(2)
    by (fastforce simp: delegates_ok_def delegate_ok_def new_LocTimer_def split: option.splits)
  moreover have "running_ok (new_LocTimer c s)"
    using timers_okD(4) [OF assms(1)] by (auto simp: running_ok_def new_LocTimer_def)
  moreover have "task_ok (new_LocTimer c s)"
    using timers_okD(5) [OF assms(1)] by (auto simp: task_ok_def new_LocTimer_def split: task_pc.splits)
  moreover have "locks_ok (new_LocTimer c s)"
    using timers_okD(6) [OF assms(1)] assms(2, 3) by (simp add: locks_ok_def lock_users_def new_LocTimer_def)
  ultimately show ?thesis using assms(1) by (simp add: timers_ok_def)
qed

lemma ok_with_box:
  assumes "timers_ok time s"
  shows "timers_ok time (with_box b s)"
proof (cases "boxes s b")
  case None
  let ?t = "s\<lparr>boxes := (boxes s)(b \<mapsto> LocTimerContainer)\<rparr>"
  have "heaps_ok time ?t"
    using timers_okD(1) [OF assms]
    by (auto simp: heaps_ok_def box_ok_def waits_in_def LocTimerContainer_def LocHeap_def heap_valid_def)
  moreover have "msgs_ok ?t"
    using timers_okD(2) [OF assms] by (fastforce simp: msgs_ok_def msg_ok_def split: timer_msg.splits)
  moreover have "delegates_ok ?t"
    using timers_okD(3) [OF assms] by (fastforce simp: delegates_ok_def delegate_ok_def split: option.splits)
  moreover have "running_ok ?t" "locks_ok ?t"
    using timers_okD(4, 6) [OF assms] by (simp_all add: running_ok_def locks_ok_def lock_users_def)
  moreover have "task_ok ?t"
    using timers_okD(5) [OF assms] by (auto simp: task_ok_def split: task_pc.splits)
  ultimately show ?thesis using None by (simp add: timers_ok_def with_box_def)
next
  case (Some a)
  then show ?thesis using assms by (simp add: with_box_def)
qed

lemma fresh_delegate:
  assumes "timers_ok time s"
  shows "delegates s (next_delegate s) = None" and "Push b (next_delegate s) \<notin> set (msgs s)"
    and "Remove b (next_delegate s) \<notin> set (msgs s)"
proof -
  show n: "delegates s (next_delegate s) = None"
    using delegates_okD [OF timers_okD(3) [OF assms], of "next_delegate s"]
    by (cases "delegates s (next_delegate s)") (simp_all add: delegate_ok_def)
  show "Push b (next_delegate s) \<notin> set (msgs s)" "Remove b (next_delegate s) \<notin> set (msgs s)"
    using timers_okD(2) [OF assms] n by (fastforce simp: msgs_ok_def msg_ok_def)+
qed

lemma lock_users_finite: "locks_ok s \<Longrightarrow> finite (lock_users s c)"
  by (rule finite_subset [of _ "dom (delegates s)"]) (auto simp: locks_ok_def lock_users_def)

lemma ok_started:
  assumes ok: "timers_ok time s" and c: "clients s c = Some None" and b: "boxes s b \<noteq> None"
  shows "timers_ok time (started c b s)"
proof -
  note new = fresh_delegate [OF ok]
  have "heaps_ok time (started c b s)"
    using timers_okD(1) [OF ok] new(1)
    by (fastforce simp: heaps_ok_def box_ok_def waits_in_def started_def)
  moreover have "sorted_wrt may_follow (msgs s @ [Push b (next_delegate s)])"
    using timers_okD(2) [OF ok] new(2, 3) by (auto simp: msgs_ok_def sorted_wrt_append may_follow_new)
  then have "msgs_ok (started c b s)"
    using timers_okD(2) [OF ok] new b
    by (fastforce simp: msgs_ok_def msg_ok_def started_def split: timer_msg.splits)
  moreover have "delegates_ok (started c b s)"
    using timers_okD(3) [OF ok] c b new(1)
    by (fastforce simp: delegates_ok_def delegate_ok_def started_def split: option.splits)
  moreover have "running_ok (started c b s)"
    using timers_okD(4) [OF ok] c new(1) by (fastforce simp: running_ok_def started_def)
  moreover have "task_ok (started c b s)"
    using timers_okD(5) [OF ok] by (auto simp: task_ok_def started_def split: task_pc.splits)
  moreover {
    have "lock_users (started c b s) c' = (if c' = c then insert (next_delegate s) (lock_users s c') else lock_users s c')" for c'
      using new(1) by (auto simp: lock_users_def started_def)
    moreover have "finite (lock_users s c)" "next_delegate s \<notin> lock_users s c"
      using lock_users_finite [OF timers_okD(6) [OF ok]] new(1) by (simp_all add: lock_users_def)
    ultimately have "locks_ok (started c b s)"
      using timers_okD(6) [OF ok] c by (simp add: locks_ok_def) (simp add: started_def) }
  ultimately show ?thesis by (simp add: timers_ok_def)
qed


lemma client_delegate:
  assumes "timers_ok time s" and "clients s c = Some (Some d)"
  obtains x where "delegates s d = Some x" and "mClient x = Some c" and "mContainer x = Some (home x)"
    and "boxes s (home x) \<noteq> None" and "\<And>b. Remove b d \<notin> set (msgs s)"
proof -
  obtain x where x: "delegates s d = Some x" "mClient x = Some c"
    using timers_okD(4) [OF assms(1)] assms(2) by (auto simp: running_ok_def)
  have k: "mContainer x = Some (home x)" "boxes s (home x) \<noteq> None"
    using delegates_okD [OF timers_okD(3) [OF assms(1)] x(1)] x(2) by (simp_all add: delegate_ok_def)
  have "Remove b d \<notin> set (msgs s)" for b
    using timers_okD(2) [OF assms(1)] x(1) k(1) by (fastforce simp: msgs_ok_def msg_ok_def)
  with x k show ?thesis using that by blast
qed

lemma ok_halted:
  assumes ok: "timers_ok time s" and c: "clients s c = Some (Some d)"
  shows "timers_ok time (halted c d s)"
proof -
  obtain x where x: "delegates s d = Some x" "mClient x = Some c" "mContainer x = Some (home x)" "boxes s (home x) \<noteq> None"
      and new: "\<And>b. Remove b d \<notin> set (msgs s)"
    using client_delegate [OF ok c] by blast
  let ?y = "x\<lparr>mClient := None, mContainer := None\<rparr>"
  let ?t = "s\<lparr>clients := (clients s)(c \<mapsto> None), delegates := (delegates s)(d \<mapsto> ?y), msgs := msgs s @ [Remove (home x) d]\<rparr>"
  have "box_ok time s b box \<Longrightarrow> box_ok time ?t b box" for b box
    using x(1) by (fastforce simp: box_ok_def waits_in_def)
  then have "heaps_ok time ?t"
    using timers_okD(1) [OF ok] by (simp add: heaps_ok_def)
  moreover have "msg_ok s m \<Longrightarrow> msg_ok ?t m" for m
    using x(1) by (auto simp: msg_ok_def split: timer_msg.splits)
  then have "msgs_ok ?t"
    using timers_okD(2) [OF ok] new x(1,4)
    by (simp add: msgs_ok_def sorted_wrt_append may_follow_new) (auto simp: msg_ok_def)
  moreover have "delegate_ok s d' z \<Longrightarrow> d' \<noteq> d \<Longrightarrow> delegate_ok ?t d' z" for d' z
    using c by (auto simp: delegate_ok_def split: option.splits)
  then have "delegates_ok ?t"
    using timers_okD(3) [OF ok] delegates_okD [OF timers_okD(3) [OF ok] x(1)]
    by (simp add: delegates_ok_def) (simp add: delegate_ok_def)
  moreover have "running_ok ?t"
    using timers_okD(4) [OF ok] x(1,2) by (fastforce simp: running_ok_def)
  moreover have "task_ok ?t"
    using timers_okD(5) [OF ok] by (cases "task s") (auto simp: task_ok_def)
  moreover have "lock_users ?t c' = lock_users s c'" for c'
    using x(1) by (auto simp: lock_users_def)
  then have "locks_ok ?t"
    using timers_okD(6) [OF ok] c by (simp add: locks_ok_def)
  ultimately have "timers_ok time ?t" by (simp add: timers_ok_def)
  then show ?thesis using x(1) by (simp add: halted_def Let_def)
qed

lemma ok_stop: "timers_ok time s \<Longrightarrow> timers_ok time (after_stop c s)"
  using ok_halted by (auto simp: after_stop_def split: option.split)

lemma ok_gone:
  assumes ok: "timers_ok time s" and c: "clients s c = Some None" and e: "expecting s \<noteq> Some c"
  shows "timers_ok time (gone c s)"
proof -
  have "box_ok time (gone c s) = box_ok time s" "msg_ok (gone c s) = msg_ok s"
    by (rule ext, simp add: box_ok_def waits_in_def gone_def msg_ok_def split: timer_msg.split)+
  then have "heaps_ok time (gone c s)" "msgs_ok (gone c s)"
    using timers_okD(1, 2) [OF ok] by (simp_all add: heaps_ok_def msgs_ok_def) (simp_all add: gone_def)
  moreover have "delegate_ok s d x \<Longrightarrow> delegate_ok (gone c s) d x" for d x
    using c by (auto simp: delegate_ok_def gone_def split: option.splits)
  then have "delegates_ok (gone c s)"
    using timers_okD(3) [OF ok] by (simp add: delegates_ok_def) (simp add: gone_def)
  moreover have "running_ok (gone c s)"
    using timers_okD(4) [OF ok] by (simp add: running_ok_def gone_def)
  moreover have "task_ok (gone c s)"
    using timers_okD(5) [OF ok] e by (auto simp: task_ok_def expecting_def gone_def split: task_pc.splits)
  moreover have "locks_ok (gone c s)"
    using timers_okD(6) [OF ok] c by (simp add: locks_ok_def lock_users_def gone_def)
  ultimately show ?thesis by (simp add: timers_ok_def)
qed

text \<open>A step that changes the trees, the messages and the task only.\<close>

lemma ok_boxes:
  assumes ok: "timers_ok time s" and "\<And>b. (bs b = None) = (boxes s b = None)"
    and "\<And>b box. bs b = Some box \<Longrightarrow> box_ok time (s\<lparr>msgs := ms\<rparr>) b box"
    and "sorted_wrt may_follow ms" and "\<And>m. m \<in> set ms \<Longrightarrow> msg_ok s m"
    and "\<And>b d. Remove b d \<in> set (msgs s) \<Longrightarrow> Remove b d \<in> set ms"
    and "task_ok (s\<lparr>task := pc\<rparr>)"
  shows "timers_ok time (s\<lparr>boxes := bs, msgs := ms, task := pc\<rparr>)"
proof -
  let ?t = "s\<lparr>boxes := bs, msgs := ms, task := pc\<rparr>"
  have "heaps_ok time ?t"
    using assms(3) by (simp add: heaps_ok_def box_ok_def waits_in_def)
  moreover have "msg_ok s m \<Longrightarrow> msg_ok ?t m" for m
    using assms(2) by (auto simp: msg_ok_def split: timer_msg.splits)
  then have "msgs_ok ?t" using assms(4, 5) by (simp add: msgs_ok_def)
  moreover have "delegate_ok s d x \<Longrightarrow> delegate_ok ?t d x" for d x
    using assms(2, 6) by (auto simp: delegate_ok_def split: option.splits)
  then have "delegates_ok ?t"
    using timers_okD(3) [OF ok] by (simp add: delegates_ok_def)
  moreover have "running_ok ?t" "locks_ok ?t"
    using timers_okD(4, 6) [OF ok] by (simp_all add: running_ok_def locks_ok_def lock_users_def)
  moreover have "task_ok ?t"
    using assms(2, 7) by (auto simp: task_ok_def split: task_pc.splits)
  ultimately show ?thesis by (simp add: timers_ok_def)
qed

lemma heaps_okD: "timers_ok time s \<Longrightarrow> boxes s b = Some box \<Longrightarrow> box_ok time s b box"
  by (simp add: timers_ok_def heaps_ok_def)

lemma msgs_okD:
  "timers_ok time s \<Longrightarrow> sorted_wrt may_follow (msgs s)" "timers_ok time s \<Longrightarrow> m \<in> set (msgs s) \<Longrightarrow> msg_ok s m"
  by (simp_all add: timers_ok_def msgs_ok_def)

lemma ok_task: "timers_ok time s \<Longrightarrow> task_ok (s\<lparr>task := pc\<rparr>) \<Longrightarrow> timers_ok time (s\<lparr>task := pc\<rparr>)"
  using ok_boxes [of time s "boxes s" "msgs s" pc] heaps_okD msgs_okD by fastforce

lemma upd_map_option:
  "(m(k := map_option f (m k))) j = Some x \<Longrightarrow> \<exists>y. m j = Some y \<and> x = (if j = k then f y else y)"
  by (cases "j = k") auto

lemma ok_post:
  assumes ok: "timers_ok time s" and b: "boxes s b \<noteq> None"
  shows "timers_ok time (post_expire b s)"
proof -
  let ?bs = "(boxes s)(b := map_option expire (boxes s b))"
  have "timers_ok time (s\<lparr>boxes := ?bs, msgs := msgs s @ [Expire b], task := task s\<rparr>)"
  proof (rule ok_boxes [OF ok])
    show "box_ok time (s\<lparr>msgs := msgs s @ [Expire b]\<rparr>) b' box" if "?bs b' = Some box" for b' box
    proof -
      from upd_map_option [OF that]
      obtain box' where "boxes s b' = Some box'" "mTree box = mTree box'"
        using tree_expire by metis
      then show ?thesis using heaps_okD [OF ok] by (fastforce simp: box_ok_def waits_in_def)
    qed
    show "sorted_wrt may_follow (msgs s @ [Expire b])"
      using msgs_okD(1) [OF ok] by (simp add: sorted_wrt_append may_follow_new)
    show "msg_ok s m" if "m \<in> set (msgs s @ [Expire b])" for m
      using that msgs_okD(2) [OF ok] b by (auto simp: msg_ok_def)
    show "task_ok (s\<lparr>task := task s\<rparr>)" using timers_okD(5) [OF ok] by simp
  qed auto
  then show ?thesis by (simp add: post_expire_def)
qed

lemma count_add: "count (add_mset d m) x \<le> 1 \<longleftrightarrow> (if x = d then d \<notin># m else count m x \<le> 1)"
  by (simp add: count_eq_zero_iff)

lemma ok_pushed:
  assumes ok: "timers_ok time s" and m: "msgs s = Push b d # ms" and v: "valid_time (time d)"
  shows "timers_ok time (pushed time b d (s\<lparr>msgs := ms\<rparr>))"
proof -
  let ?bs = "(boxes s)(b := map_option (MsgTimerPush time d) (boxes s b))"
  have "timers_ok time (s\<lparr>boxes := ?bs, msgs := ms, task := task s\<rparr>)"
  proof (rule ok_boxes [OF ok])
    show "box_ok time (s\<lparr>msgs := ms\<rparr>) b' box" if "?bs b' = Some box" for b' box
    proof (cases "b' = b")
      case True
      with that obtain old where old: "boxes s b = Some old" "box = MsgTimerPush time d old"
        by auto
      have k: "box_ok time s b old" using heaps_okD [OF ok old(1)] .
      have h: "heap_valid time (mTree box)" "elems (mTree box) = add_mset d (elems (mTree old))"
        using heap_valid_push [of time "mTree old" d] k v old(2) by (simp_all add: box_ok_def)
      have "d \<notin># elems (mTree old)"
        using k m by (auto simp: box_ok_def waits_in_def)
      moreover have "waits_in (s\<lparr>msgs := ms\<rparr>) b d"
        using msgs_okD(1) [OF ok] msgs_okD(2) [OF ok, of "Push b d"] m
        by (fastforce simp: waits_in_def msg_ok_def)
      moreover have "waits_in s b x \<Longrightarrow> waits_in (s\<lparr>msgs := ms\<rparr>) b x" for x
        using m by (simp add: waits_in_def)
      moreover from calculation have "count (elems (mTree box)) x \<le> 1" for x
        unfolding h(2) count_add using k by (simp add: box_ok_def)
      ultimately show ?thesis
        using k h True by (auto simp: box_ok_def)
    next
      case False
      with that have "box_ok time s b' box" using heaps_okD [OF ok] by simp
      then show ?thesis using m by (simp add: box_ok_def waits_in_def)
    qed
    show "task_ok (s\<lparr>task := task s\<rparr>)" using timers_okD(5) [OF ok] by simp
  qed (use msgs_okD [OF ok] m in auto)
  moreover have "s\<lparr>boxes := ?bs, msgs := ms, task := task s\<rparr> = s\<lparr>msgs := ms, boxes := ?bs\<rparr>"
    by (cases s) simp
  ultimately show ?thesis by (simp add: pushed_def)
qed

lemma ok_removed:
  assumes ok: "timers_ok time s" and m: "msgs s = Remove b d # ms" and idle: "task s = Idle"
  shows "timers_ok time (removed time b d (s\<lparr>msgs := ms\<rparr>))"
proof -
  obtain x where x: "delegates s d = Some x" "home x = b" "mContainer x = None"
    using msgs_okD(2) [OF ok, of "Remove b d"] m by (auto simp: msg_ok_def)
  have mine: "mClient x = None"
    using delegate_client(1) [OF timers_okD(3) [OF ok] x(1)] x(3) by (cases "mClient x") auto
  have none: "Push b' d \<notin> set ms" "Remove b' d \<notin> set ms" for b'
    using msgs_okD(1) [OF ok] m by fastforce+
  let ?t = "s\<lparr>boxes := (boxes s)(b := map_option (MsgTimerRemove time d) (boxes s b)), msgs := ms,
     delegates := (delegates s)(d := None), locks := (locks s)(mLock x := locks s (mLock x) - 1)\<rparr>"
  have "box_ok time ?t b' box" if that: "boxes ?t b' = Some box" for b' box
  proof -
    have keep: "waits_in s b' y \<Longrightarrow> y \<noteq> d \<Longrightarrow> waits_in ?t b' y" for y
      using m by (auto simp: waits_in_def)
    show ?thesis
    proof (cases "b' = b")
      case True
      with that obtain old where old: "boxes s b = Some old" "box = MsgTimerRemove time d old"
        by auto
      have k: "box_ok time s b old" using heaps_okD [OF ok old(1)] .
      obtain p u where u: "heap_remove (outRanks time) d (mTree old) = (p, u)" by fastforce
      have h: "heap_valid time u" "if d \<in># elems (mTree old) then elems (mTree old) = add_mset d (elems u) else u = mTree old"
        using heap_valid_remove [OF _ u] k by (auto simp: box_ok_def split: if_splits)
      have "d \<notin># elems u \<and> (\<forall>y. count (elems u) y \<le> 1) \<and> (\<forall>y. y \<in># elems u \<longrightarrow> waits_in s b y)"
      proof (cases "d \<in># elems (mTree old)")
        case in_tree: True
        with h(2) have e: "elems (mTree old) = add_mset d (elems u)" by simp
        have "count (elems (mTree old)) y \<le> 1" for y using k by (simp add: box_ok_def)
        then have n: "if y = d then d \<notin># elems u else count (elems u) y \<le> 1" for y
          unfolding e count_add .
        have "d \<notin># elems u" using n [of d] by simp
        moreover from this have "count (elems u) y \<le> 1" for y
          using n [of y] by (cases "y = d") (simp_all add: not_in_iff)
        moreover have "y \<in># elems u \<Longrightarrow> waits_in s b y" for y
          using k e by (simp add: box_ok_def)
        ultimately show ?thesis by simp
      next
        case False
        with h(2) k show ?thesis by (simp add: box_ok_def)
      qed
      then show ?thesis
        using h(1) u old(2) True keep by (auto simp: box_ok_def)
    next
      case False
      with that have k: "box_ok time s b' box" using heaps_okD [OF ok] by simp
      then have "d \<notin># elems (mTree box)"
        using x(1,2) False by (auto simp: box_ok_def waits_in_def)
      with k keep show ?thesis by (auto simp: box_ok_def)
    qed
  qed
  then have "heaps_ok time ?t" by (simp add: heaps_ok_def)
  moreover have "msg_ok s n \<Longrightarrow> n \<in> set ms \<Longrightarrow> msg_ok ?t n" for n
    using none by (auto simp: msg_ok_def split: timer_msg.splits)
  then have "msgs_ok ?t"
    using msgs_okD [OF ok] m by (simp add: msgs_ok_def)
  moreover have "delegate_ok s d' y \<Longrightarrow> d' \<noteq> d \<Longrightarrow> delegate_ok ?t d' y" for d' y
    using m by (auto simp: delegate_ok_def split: option.splits)
  then have "delegates_ok ?t"
    using timers_okD(3) [OF ok] by (simp add: delegates_ok_def)
  moreover have "running_ok ?t"
    using timers_okD(4) [OF ok] x(1) mine by (fastforce simp: running_ok_def)
  moreover have "task_ok ?t" using idle by (simp add: task_ok_def)
  moreover {
    have "lock_users ?t c = (if c = mLock x then lock_users s c - {d} else lock_users s c)" for c
      using x(1) by (auto simp: lock_users_def)
    moreover have "d \<in> lock_users s (mLock x)" "finite (lock_users s (mLock x))"
      using x(1) lock_users_finite [OF timers_okD(6) [OF ok]] by (simp_all add: lock_users_def)
    ultimately have "locks_ok ?t"
      using timers_okD(6) [OF ok] card_gt_0_iff [of "lock_users s (mLock x)"]
      by (auto simp: locks_ok_def of_nat_diff) }
  ultimately have "timers_ok time ?t" by (simp add: timers_ok_def)
  moreover have "?t = s\<lparr>msgs := ms, boxes := (boxes s)(b := map_option (MsgTimerRemove time d) (boxes s b)),
     delegates := (delegates s)(d := None), locks := (locks s)(mLock x := locks s (mLock x) - 1)\<rparr>"
    by (cases s) simp
  ultimately show ?thesis using x(1) by (simp add: removed_def Let_def)
qed

lemma ok_popped:
  assumes ok: "timers_ok time s" and box: "boxes s b = Some box" and p: "p = (None, mTree box) \<or> p = heap_pop (outRanks time) (mTree box)"
  shows "timers_ok time (popped time b now box p s)"
proof -
  obtain r u where r: "p = (r, u)" by fastforce
  have k: "box_ok time s b box" using heaps_okD [OF ok box] .
  have h: "heap_valid time u" "elems u \<subseteq># elems (mTree box)" "\<And>d. r = Some d \<Longrightarrow> d \<in># elems (mTree box)"
    using p k heap_valid_pop [of time "mTree box" r u] by (auto simp: r box_ok_def split: option.splits)
  have u: "box_ok time s b (box\<lparr>mTree := u, fired := f\<rparr>)" "box_ok time s b (updateSoonestTime time None (box\<lparr>mTree := u\<rparr>))" for f
    using k h(1,2) mset_subset_eqD [OF h(2)] order_trans [OF mset_subset_eq_count [OF h(2)]]
    by (auto simp: box_ok_def)
  have step: "timers_ok time (s\<lparr>boxes := (boxes s)(b \<mapsto> new), task := pc\<rparr>)"
    if "box_ok time s b new" and "task_ok (s\<lparr>task := pc\<rparr>)" for new pc
  proof -
    have "timers_ok time (s\<lparr>boxes := (boxes s)(b \<mapsto> new), msgs := msgs s, task := pc\<rparr>)"
    proof (rule ok_boxes [OF ok])
      show "box_ok time (s\<lparr>msgs := msgs s\<rparr>) b' a" if "((boxes s)(b \<mapsto> new)) b' = Some a" for b' a
        using that \<open>box_ok time s b new\<close> heaps_okD [OF ok, of b'] by (cases "b' = b") simp_all
    qed (use that(2) msgs_okD [OF ok] box in simp_all)
    then show ?thesis by simp
  qed
  show ?thesis
  proof (cases r)
    case None
    then show ?thesis using step [OF u(2), of Idle] by (simp add: popped_def r task_ok_def)
  next
    case (Some d)
    have "waits_in s b d" using k h(3) [OF Some] by (simp add: box_ok_def)
    then have "task_ok (s\<lparr>task := Popped b d now\<rparr>)" using box by (auto simp: task_ok_def waits_in_def)
    with Some show ?thesis using step [OF u(1)] by (simp add: popped_def r)
  qed
qed

lemma ok_expire_msg:
  assumes ok: "timers_ok time s" and m: "msgs s = Expire b # ms"
  shows "timers_ok time (s\<lparr>msgs := ms\<rparr>)"
proof -
  have "timers_ok time (s\<lparr>boxes := boxes s, msgs := ms, task := task s\<rparr>)"
    using msgs_okD [OF ok] heaps_okD [OF ok] timers_okD(5) [OF ok] m
    by (intro ok_boxes [OF ok]) (auto simp: box_ok_def waits_in_def)
  then show ?thesis by simp
qed

text \<open>What a step of the task does, by cases.\<close>

definition task_next :: "(nat \<Rightarrow> timespec) \<Rightarrow> timespec \<Rightarrow> timers \<Rightarrow> timers" where
  "task_next time clock s = (case task s of
     Idle \<Rightarrow> (case msgs s of
         [] \<Rightarrow> s
       | m # ms \<Rightarrow> let t = s\<lparr>msgs := ms\<rparr> in
           (case m of
              Push b d \<Rightarrow> pushed time b d t
            | Remove b d \<Rightarrow> removed time b d t
            | Expire b \<Rightarrow> popped time b clock (the (boxes s b)) (heap_pop (outRanks time) (mTree (the (boxes s b)))) t))
   | Popped b d now \<Rightarrow> s\<lparr>task := (case mClient (the (delegates s d)) of None \<Rightarrow> Next b now | Some c \<Rightarrow> Stopping b c now)\<rparr>
   | Stopping b c now \<Rightarrow> (after_stop c s)\<lparr>task := if clients s c = Some None then Next b now else Calling b c now\<rparr>
   | Calling b c now \<Rightarrow> s\<lparr>callbacks := callbacks s @ [c], task := Next b now\<rparr>
   | Next b now \<Rightarrow> popped time b now (the (boxes s b)) (popIfOutRanks time now (mTree (the (boxes s b)))) s)"

lemma heap_alive_simp [simp]: "heap_alive box (s\<lparr>msgs := ms\<rparr>) = heap_alive box s"
  by (simp add: heap_alive_def)

lemma task_step_eq:
  assumes ok: "timers_ok time s"
  shows "task_step time clock s = Some (task_next time clock s)"
proof (cases "task s")
  case Idle
  show ?thesis
  proof (cases "msgs s")
    case Nil
    with Idle show ?thesis by (simp add: task_step_def task_next_def)
  next
    case (Cons m ms)
    have k: "msg_ok s m" using msgs_okD(2) [OF ok] Cons by simp
    show ?thesis
    proof (cases m)
      case (Push b d)
      with k obtain box x where "boxes s b = Some box" "delegates s d = Some x" by (auto simp: msg_ok_def)
      moreover from this have "heap_alive box s" using heap_alive_ok [OF timers_okD(1) [OF ok]] by blast
      ultimately show ?thesis
        using Idle Cons Push by (simp add: task_step_def task_next_def handle_msg_def pushed_def)
    next
      case (Remove b d)
      with k obtain box x where x: "boxes s b = Some box" "delegates s d = Some x" by (auto simp: msg_ok_def)
      moreover from this have "heap_alive box s" using heap_alive_ok [OF timers_okD(1) [OF ok]] by blast
      ultimately show ?thesis
        using Idle Cons Remove locks_of_delegate [OF timers_okD(6) [OF ok] x(2)]
        by (simp add: task_step_def task_next_def handle_msg_def removed_def drop_lock_def Let_def)
    next
      case (Expire b)
      with k obtain box where "boxes s b = Some box" by (auto simp: msg_ok_def)
      moreover from this have "heap_alive box s" using heap_alive_ok [OF timers_okD(1) [OF ok]] by blast
      ultimately show ?thesis
        using Idle Cons Expire by (simp add: task_step_def task_next_def handle_msg_def)
    qed
  qed
next
  case (Popped b d now)
  then show ?thesis
    using timers_okD(5) [OF ok] by (auto simp: task_ok_def task_step_def task_next_def)
next
  case (Stopping b c now)
  then obtain t where "clients s c = Some t" using timers_okD(5) [OF ok] by (auto simp: task_ok_def)
  with Stopping show ?thesis
    using stop_eq [OF ok, of c t] by (simp add: task_step_def task_next_def)
next
  case (Calling b c now)
  then show ?thesis
    using timers_okD(5) [OF ok] by (auto simp: task_ok_def task_step_def task_next_def)
next
  case (Next b now)
  then obtain box where "boxes s b = Some box" using timers_okD(5) [OF ok] by (auto simp: task_ok_def)
  moreover from this have "heap_alive box s" using heap_alive_ok [OF timers_okD(1) [OF ok]] by blast
  ultimately show ?thesis using Next by (simp add: task_step_def task_next_def)
qed

lemma pop_either:
  "popIfOutRanks time now t = (None, t) \<or> popIfOutRanks time now t = heap_pop (outRanks time) t"
  by (auto simp: popIfOutRanks_def)

lemma ok_history: "timers_ok time (s\<lparr>callbacks := k\<rparr>) = timers_ok time s" "timers_ok time (s\<lparr>stops := p\<rparr>) = timers_ok time s"
  by (simp_all add: timers_ok_def timers_parts locks_ok_def lock_users_def
      cong: timer_msg.case_cong task_pc.case_cong option.case_cong)

lemma ok_task_next:
  assumes ok: "timers_ok time s" and v: "\<And>d. valid_time (time d)"
  shows "timers_ok time (task_next time clock s)"
proof (cases "task s")
  case Idle
  show ?thesis
  proof (cases "msgs s")
    case Nil
    with Idle ok show ?thesis by (simp add: task_next_def)
  next
    case (Cons m ms)
    show ?thesis
    proof (cases m)
      case (Push b d)
      then show ?thesis
        using Idle Cons ok_pushed [OF ok _ v] by (simp add: task_next_def)
    next
      case (Remove b d)
      then show ?thesis
        using Idle Cons ok_removed [OF ok _ Idle] by (simp add: task_next_def)
    next
      case (Expire b)
      then obtain box where "boxes s b = Some box"
        using msgs_okD(2) [OF ok, of "Expire b"] Cons by (auto simp: msg_ok_def)
      then show ?thesis
        using Idle Cons Expire ok_popped [OF ok_expire_msg [OF ok]] by (simp add: task_next_def)
    qed
  qed
next
  case (Popped b d now)
  then obtain x where x: "delegates s d = Some x" "boxes s b \<noteq> None"
    using timers_okD(5) [OF ok] by (auto simp: task_ok_def)
  then show ?thesis
    using Popped delegate_client(3) [OF timers_okD(3) [OF ok] x(1)]
    by (auto simp: task_next_def task_ok_def intro!: ok_task [OF ok] split: option.split)
next
  case (Stopping b c now)
  have c: "boxes (after_stop c s) b \<noteq> None \<and> clients (after_stop c s) c \<noteq> None"
    using timers_okD(5) [OF ok] Stopping by (auto simp: task_ok_def after_stop_def halted_def Let_def split: option.splits)
  show ?thesis
    using Stopping ok_task [OF ok_stop [OF ok]] c by (simp add: task_next_def task_ok_def)
next
  case (Calling b c now)
  then have "timers_ok time (s\<lparr>task := Next b now\<rparr>)"
    using timers_okD(5) [OF ok] by (intro ok_task [OF ok]) (simp add: task_ok_def)
  moreover have "task_next time clock s = s\<lparr>task := Next b now, callbacks := callbacks s @ [c]\<rparr>"
    using Calling by (cases s) (simp add: task_next_def)
  ultimately show ?thesis by (simp add: ok_history)
next
  case (Next b now)
  then obtain box where "boxes s b = Some box"
    using timers_okD(5) [OF ok] by (auto simp: task_ok_def)
  then show ?thesis
    using Next ok_popped [OF ok] pop_either by (simp add: task_next_def)
qed

lemma client_stop_eq:
  assumes "timers_ok time s" and "clients s c = Some t"
  shows "client_stop c s = Some (t \<noteq> None, if t \<noteq> None then (after_stop c s)\<lparr>stops := stops s @ [c]\<rparr> else s)"
  using stop_eq [OF assms] assms(2) by (auto simp: client_stop_def after_stop_def halted_def Let_def)

lemma delete_eq:
  assumes ok: "timers_ok time s" and c: "clients s c = Some t"
  shows "delete_timer c s = Some (gone c (snd (the (client_stop c s))))"
proof -
  obtain r s1 where s1: "client_stop c s = Some (r, s1)"
    using client_stop_eq [OF assms] by simp
  have "locks s1 c = locks s c"
    using s1 client_stop_eq [OF assms] by (auto simp: after_stop_def halted_def Let_def split: option.splits if_splits)
  then have "locks s1 c \<noteq> 0"
    using locks_of_client [OF timers_okD(6) [OF ok]] c by simp
  then show ?thesis
    by (simp add: delete_timer_def s1 drop_lock_def gone_def)
qed

lemma ok_client_stop:
  assumes ok: "timers_ok time s" and c: "clients s c = Some t"
  shows "timers_ok time (snd (the (client_stop c s)))" and "clients (snd (the (client_stop c s))) c = Some None"
    and "expecting (snd (the (client_stop c s))) = expecting s"
  using ok_stop [OF ok, of c] ok c
  by (auto simp: client_stop_eq [OF ok c] ok_history after_stop_def halted_def Let_def expecting_def split: option.split)

lemma ok_poll:
  assumes "\<forall>b \<in> set ev. boxes s b \<noteq> None" and "timers_ok time s"
  shows "timers_ok time (fold post_expire ev s)"
  using assms
proof (induction ev arbitrary: s)
  case (Cons b ev)
  have "boxes (post_expire b s) b' = None \<longleftrightarrow> boxes s b' = None" for b'
    by (auto simp: post_expire_def)
  with Cons.prems(1) have "\<forall>b' \<in> set ev. boxes (post_expire b s) b' \<noteq> None" by (metis list.set_intros(2))
  with Cons show ?case using ok_post [of time s b] by simp
qed simp

lemma ok_step:
  assumes "timer_step time s s'" and ok: "timers_ok time s" and v: "\<And>d. valid_time (time d)"
  shows "timers_ok time s'"
  using assms(1)
proof cases
  case (create c)
  then show ?thesis using ok_create [OF ok] by simp
next
  case (start c ms now w k r)
  then obtain t where t: "clients s c = Some t" by blast
  have "boxes (with_box w s) w \<noteq> None" "clients (with_box w s) = clients s" by (simp_all add: with_box_def)
  then show ?thesis
    using start_eq [OF ok t] start(3) t ok ok_started [OF ok_with_box [OF ok]] by (auto split: if_splits)
next
  case (stop c r)
  then show ?thesis using ok_client_stop(1) [OF ok] by fastforce
next
  case (delete c)
  then obtain t where t: "clients s c = Some t" by blast
  show ?thesis
    using delete_eq [OF ok t] delete(2,3) ok_gone ok_client_stop [OF ok t] by simp
next
  case (poll ev fds e)
  moreover from this have "\<forall>b \<in> set (take (nat fds) ev). boxes s b \<noteq> None" by (metis in_set_takeD)
  ultimately show ?thesis using ok ok_poll by (simp add: poll_run_def)
next
  case (task clock)
  then show ?thesis using task_step_eq [OF ok] ok_task_next [OF ok v, of clock] by simp
qed

lemma timers_reachable_ok: "timers_reachable time s \<Longrightarrow> (\<And>d. valid_time (time d)) \<Longrightarrow> timers_ok time s"
  by (induction rule: timers_reachable.induct) (simp_all add: ok_none ok_step)

end
