(* ===== verification/LocTimerWait.thy ===== *)
theory LocTimerWait
  imports LocTimerInv
begin

text \<open>
  What becomes of a timer that was started: the counts of starts, stops and callbacks, where a running timer waits, and
  how the thread of the message task comes to rest.
\<close>

section \<open>Every start is answered once\<close>

definition running :: "timers \<Rightarrow> nat \<Rightarrow> bool" where
  "running s c \<longleftrightarrow> (\<exists>d. clients s c = Some (Some d))"

definition calling :: "timers \<Rightarrow> nat \<Rightarrow> bool" where
  "calling s c \<longleftrightarrow> (case task s of Calling b c' now \<Rightarrow> c' = c | _ \<Rightarrow> False)"

definition answered :: "timers \<Rightarrow> nat \<Rightarrow> nat" where
  "answered s c = count_list (stops s) c + count_list (callbacks s) c + of_bool (running s c) + of_bool (calling s c)"

definition counts_ok :: "timers \<Rightarrow> bool" where
  "counts_ok s \<longleftrightarrow> (\<forall>c. count_list (starts s) c = answered s c)"

lemmas count_defs = counts_ok_def answered_def running_def calling_def

lemma counts_same:
  "counts_ok s \<Longrightarrow> clients t = clients s \<Longrightarrow> starts t = starts s \<Longrightarrow> stops t = stops s \<Longrightarrow> callbacks t = callbacks s \<Longrightarrow>
   calling t = calling s \<Longrightarrow> counts_ok t"
  by (simp add: count_defs)

lemma popped_same:
  "clients (popped time b now box p s) = clients s" "starts (popped time b now box p s) = starts s"
  "stops (popped time b now box p s) = stops s" "callbacks (popped time b now box p s) = callbacks s"
  "\<not> calling (popped time b now box p s) c"
  by (auto simp: popped_def calling_def split: prod.split option.split)

lemma counts_popped:
  "counts_ok s \<Longrightarrow> (\<And>c. \<not> calling s c) \<Longrightarrow> counts_ok (popped time b now box p (s\<lparr>msgs := ms\<rparr>))"
  by (erule counts_same) (simp_all add: popped_same fun_eq_iff)

lemma counts_task:
  assumes "timers_ok time s" and "counts_ok s"
  shows "counts_ok (task_next time clock s)"
proof (cases "task s")
  case Idle
  have n: "\<not> calling s c" for c using Idle by (simp add: calling_def)
  then show ?thesis
    using assms(2) Idle counts_popped [OF assms(2) n]
    by (auto simp: task_next_def Let_def split: list.split timer_msg.split)
      (auto intro!: counts_same [of s] simp: pushed_def removed_def Let_def calling_def fun_eq_iff)
next
  case (Popped b d now)
  then show ?thesis
    using assms(2) by (auto intro!: counts_same [of s] simp: task_next_def calling_def fun_eq_iff split: option.split)
next
  case (Stopping b c now)
  then obtain t where "clients s c = Some t"
    using timers_okD(5) [OF assms(1)] by (auto simp: task_ok_def)
  with Stopping show ?thesis
    using assms(2) by (cases t) (auto simp: task_next_def count_defs after_stop_def halted_def Let_def)
next
  case (Calling b c now)
  then show ?thesis
    using assms(2) by (auto simp: task_next_def count_defs)
next
  case (Next b now)
  have n: "\<not> calling s c" for c using Next by (simp add: calling_def)
  then show ?thesis
    using Next counts_popped [OF assms(2) n, where ms = "msgs s"] by (simp add: task_next_def)
qed

lemma counts_client_stop:
  assumes "timers_ok time s" and "clients s c = Some t" and "counts_ok s"
  shows "counts_ok (snd (the (client_stop c s)))"
  using assms(3, 2)
  by (cases t) (auto simp: client_stop_eq [OF assms(1, 2)] count_defs after_stop_def halted_def Let_def)

lemma counts_poll: "counts_ok s \<Longrightarrow> counts_ok (fold post_expire ev s)"
proof (induction ev arbitrary: s)
  case (Cons b ev)
  have "counts_ok (post_expire b s)"
    using Cons.prems by (auto intro!: counts_same [of s] simp: post_expire_def calling_def fun_eq_iff)
  with Cons.IH show ?case by simp
qed simp

lemma counts_step:
  assumes "timer_step time s s'" and ok: "timers_ok time s" and k: "counts_ok s"
  shows "counts_ok s'"
  using assms(1)
proof cases
  case (create c)
  then show ?thesis using k by (auto simp: new_LocTimer_def count_defs)
next
  case (start c ms now w k' r)
  then obtain t where t: "clients s c = Some t" by blast
  show ?thesis
  proof (cases "t = None \<and> (boxes s w \<noteq> None \<or> k')")
    case True
    with t have "s' = started c w (with_box w s)" "clients s c = Some None"
      using start_eq [OF ok t] start(3) by auto
    then show ?thesis using k by (auto simp: started_def with_box_def count_defs)
  next
    case False
    then show ?thesis using start_eq [OF ok t, of w k'] start(3) k by auto
  qed
next
  case (stop c r)
  then show ?thesis using counts_client_stop [OF ok _ k] by fastforce
next
  case (delete c)
  then obtain t where t: "clients s c = Some t" by blast
  have "counts_ok (gone c u)" if "counts_ok u" and "clients u c = Some None" for u
    using that by (auto simp: gone_def count_defs)
  then show ?thesis
    using delete_eq [OF ok t] delete(3) ok_client_stop(2) [OF ok t] counts_client_stop [OF ok t k] by simp
next
  case (poll ev fds e)
  then show ?thesis using counts_poll [OF k] k by (simp add: poll_run_def)
next
  case (task clock)
  then show ?thesis using task_step_eq [OF ok] counts_task [OF ok k, of clock] by simp
qed

lemma reachable_counts: "timers_reachable time s \<Longrightarrow> (\<And>d. valid_time (time d)) \<Longrightarrow> counts_ok s"
proof (induction rule: timers_reachable.induct)
  case none
  then show ?case by (simp add: no_timers_def count_defs)
next
  case (step s s')
  then show ?case using counts_step timers_reachable_ok by blast
qed

section \<open>No running timer is forgotten\<close>

definition in_loop :: "timers \<Rightarrow> bool \<Rightarrow> bool" where
  "in_loop s b \<longleftrightarrow> (case task s of
     Idle \<Rightarrow> False | Popped b' d now \<Rightarrow> b' = b | Stopping b' c now \<Rightarrow> b' = b | Calling b' c now \<Rightarrow> b' = b | Next b' now \<Rightarrow> b' = b)"

definition watched_ok :: "(nat \<Rightarrow> timespec) \<Rightarrow> timers \<Rightarrow> bool" where
  "watched_ok time s \<longleftrightarrow> (\<forall>b box. boxes s b = Some box \<longrightarrow> \<not> armed_ok time box \<longrightarrow> Expire b \<in> set (msgs s) \<or> in_loop s b)"

definition served :: "timers \<Rightarrow> nat \<Rightarrow> nat \<Rightarrow> bool" where
  "served s c d \<longleftrightarrow> (case task s of Popped b d' now \<Rightarrow> d' = d | Stopping b c' now \<Rightarrow> c' = c | _ \<Rightarrow> False)"

definition placed_ok :: "timers \<Rightarrow> bool" where
  "placed_ok s \<longleftrightarrow> (\<forall>c d. clients s c = Some (Some d) \<longrightarrow>
     (\<exists>b. Push b d \<in> set (msgs s)) \<or> (\<exists>b. holds s b d) \<or> served s c d)"

lemma holds_same: "boxes t = boxes s \<Longrightarrow> holds t b d = holds s b d"
  by (simp add: holds_def)

lemma after_stop_boxes [simp]: "boxes (after_stop c s) = boxes s"
  by (simp add: after_stop_def halted_def Let_def split: option.split)

lemma after_stop_msgs [simp]: "Expire b \<in> set (msgs (after_stop c s)) \<longleftrightarrow> Expire b \<in> set (msgs s)"
  by (simp add: after_stop_def halted_def Let_def split: option.split)

lemma watched_same:
  "watched_ok time s \<Longrightarrow> boxes t = boxes s \<Longrightarrow> (\<And>b. Expire b \<in> set (msgs s) \<Longrightarrow> Expire b \<in> set (msgs t)) \<Longrightarrow> in_loop t = in_loop s \<Longrightarrow>
   watched_ok time t"
  by (auto simp: watched_ok_def)

lemma watched_upd:
  assumes "watched_ok time s" and "boxes t = (boxes s)(b := map_option f (boxes s b))" and "in_loop t = in_loop s"
    and "\<And>box. armed_ok time box \<Longrightarrow> armed_ok time (f box)" and "\<And>b. Expire b \<in> set (msgs s) \<Longrightarrow> Expire b \<in> set (msgs t)"
  shows "watched_ok time t"
  unfolding watched_ok_def
proof (intro allI impI)
  fix b' box
  assume "boxes t b' = Some box" "\<not> armed_ok time box"
  then obtain y where "boxes s b' = Some y" "\<not> armed_ok time y"
    using upd_map_option [of "boxes s" b f b' box] assms(2, 4) by (auto split: if_splits)
  then show "Expire b' \<in> set (msgs t) \<or> in_loop t b'"
    using assms(1, 3, 5) by (auto simp: watched_ok_def)
qed

lemma watched_popped:
  assumes "watched_ok time s" and "boxes s b = Some box" and "\<And>b'. in_loop s b' \<Longrightarrow> b' = b"
    and "\<And>b'. b' \<noteq> b \<Longrightarrow> Expire b' \<in> set (msgs s) \<Longrightarrow> Expire b' \<in> set ms"
  shows "watched_ok time (popped time b now box p (s\<lparr>msgs := ms\<rparr>))"
proof (cases p)
  case (Pair r u)
  have other: "Expire b' \<in> set ms" if "b' \<noteq> b" "boxes s b' = Some a" "\<not> armed_ok time a" for b' a
    using that assms by (auto simp: watched_ok_def)
  show ?thesis
  proof (cases r)
    case None
    with Pair other armed_update_None show ?thesis
      by (simp add: watched_ok_def popped_def)
  next
    case (Some d)
    with Pair other show ?thesis
      by (simp add: watched_ok_def popped_def in_loop_def)
  qed
qed

lemma holds_popped:
  assumes "boxes s b = Some box" and "p = (None, mTree box) \<or> p = heap_pop (outRanks time) (mTree box)" and "heap_valid time (mTree box)"
  shows "holds s b' d \<Longrightarrow> holds (popped time b now box p s) b' d \<or> served (popped time b now box p s) c d"
proof (cases p)
  case (Pair r u)
  assume h: "holds s b' d"
  show ?thesis
  proof (cases r)
    case None
    with Pair assms(2) heap_valid_pop [OF assms(3), of r u] have "u = mTree box" by auto
    with None Pair h assms(1) show ?thesis by (auto simp: popped_def holds_def split: if_splits)
  next
    case (Some x)
    with Pair assms(2) heap_valid_pop [OF assms(3), of "Some x" u] have "elems (mTree box) = add_mset x (elems u)" by auto
    with Some Pair h assms(1) show ?thesis by (auto simp: popped_def holds_def served_def split: if_splits)
  qed
qed

lemma watched_task:
  assumes ok: "timers_ok time s" and w: "watched_ok time s"
  shows "watched_ok time (task_next time clock s)"
proof (cases "task s")
  case Idle
  then have n: "\<And>b. \<not> in_loop s b" by (simp add: in_loop_def)
  show ?thesis
  proof (cases "msgs s")
    case Nil
    with Idle w show ?thesis by (simp add: task_next_def)
  next
    case (Cons m ms)
    show ?thesis
    proof (cases m)
      case (Push b d)
      then show ?thesis
        using Idle Cons by (intro watched_upd [OF w, where b = b and f = "MsgTimerPush time d"])
          (simp_all add: task_next_def pushed_def in_loop_def fun_eq_iff armed_push)
    next
      case (Remove b d)
      then show ?thesis
        using Idle Cons by (intro watched_upd [OF w, where b = b and f = "MsgTimerRemove time d"])
          (simp_all add: task_next_def removed_def in_loop_def fun_eq_iff Let_def armed_remove)
    next
      case (Expire b)
      then obtain box where "boxes s b = Some box"
        using msgs_okD(2) [OF ok, of "Expire b"] Cons by (auto simp: msg_ok_def)
      then show ?thesis
        using Idle Cons Expire n watched_popped [OF w, of b box ms] by (simp add: task_next_def)
    qed
  qed
next
  case (Popped b d now)
  then show ?thesis
    by (auto intro!: watched_same [OF w] simp: task_next_def in_loop_def fun_eq_iff split: option.split)
next
  case (Stopping b c now)
  then show ?thesis
    by (intro watched_same [OF w]) (simp_all add: task_next_def in_loop_def fun_eq_iff)
next
  case (Calling b c now)
  then show ?thesis
    by (auto intro!: watched_same [OF w] simp: task_next_def in_loop_def fun_eq_iff)
next
  case (Next b now)
  then obtain box where box: "boxes s b = Some box"
    using timers_okD(5) [OF ok] by (auto simp: task_ok_def)
  have only: "b' = b" if "in_loop s b'" for b'
    using that Next unfolding in_loop_def by simp
  have "task_next time clock s = popped time b now box (popIfOutRanks time now (mTree box)) (s\<lparr>msgs := msgs s\<rparr>)"
    using Next box by (simp add: task_next_def)
  then show ?thesis
    using watched_popped [OF w box only] by metis
qed

lemma after_stop_clients: "clients (after_stop c' s) = (if running s c' then (clients s)(c' \<mapsto> None) else clients s)"
proof (cases "clients s c'")
  case (Some t)
  then show ?thesis by (cases t) (simp_all add: running_def after_stop_def halted_def Let_def)
qed (simp add: running_def after_stop_def)

lemma task_clients:
  assumes "clients (task_next time clock s) c = Some (Some d)"
  shows "clients s c = Some (Some d)"
proof (cases "task s")
  case Idle
  then have "clients (task_next time clock s) = clients s"
    by (simp add: task_next_def pushed_def removed_def popped_same Let_def split: list.split timer_msg.split)
  with assms show ?thesis by simp
next
  case (Stopping b c' now)
  then show ?thesis using assms by (simp add: task_next_def after_stop_clients split: if_splits)
qed (use assms in \<open>simp_all add: task_next_def popped_same\<close>)

lemma placed_task:
  assumes ok: "timers_ok time s" and p: "placed_ok s" and v: "\<And>d. valid_time (time d)"
  shows "placed_ok (task_next time clock s)"
  unfolding placed_ok_def
proof (intro allI impI)
  fix c d
  let ?t = "task_next time clock s"
  assume cd: "clients ?t c = Some (Some d)"
  have same: "clients s c = Some (Some d)"
    by (rule task_clients [OF cd])
  then have old: "(\<exists>b. Push b d \<in> set (msgs s)) \<or> (\<exists>b. holds s b d) \<or> served s c d"
    using p by (simp add: placed_ok_def)
  show "(\<exists>b. Push b d \<in> set (msgs ?t)) \<or> (\<exists>b. holds ?t b d) \<or> served ?t c d"
  proof (cases "task s")
    case Idle
    show ?thesis
    proof (cases "msgs s")
      case Nil
      with Idle old show ?thesis by (simp add: task_next_def)
    next
      case (Cons m ms)
      show ?thesis
      proof (cases m)
        case (Push b e)
        then obtain box where box: "boxes s b = Some box"
          using msgs_okD(2) [OF ok, of "Push b e"] Cons by (auto simp: msg_ok_def)
        have el: "elems (mTree (MsgTimerPush time e box)) = add_mset e (elems (mTree box))"
          using heap_valid_push [OF _ v] heaps_okD [OF ok box] by (simp add: box_ok_def)
        have t: "?t = pushed time b e (s\<lparr>msgs := ms\<rparr>)"
          using Idle Cons Push by (simp add: task_next_def)
        have h: "holds ?t b' d = (holds s b' d \<or> b' = b \<and> d = e)" for b'
          using box el by (auto simp: t holds_def pushed_def)
        show ?thesis
          using old Cons Push Idle h by (auto simp: t pushed_def served_def)
      next
        case (Remove b e)
        then obtain box where box: "boxes s b = Some box" and e: "\<exists>x. delegates s e = Some x \<and> mContainer x = None"
          using msgs_okD(2) [OF ok, of "Remove b e"] Cons by (auto simp: msg_ok_def)
        then have "e \<noteq> d" using client_delegate [OF ok same] by force
        obtain r u where u: "heap_remove (outRanks time) e (mTree box) = (r, u)" by fastforce
        then have "d \<in># elems (mTree box) \<Longrightarrow> d \<in># elems u"
          using heap_valid_remove [OF _ u] heaps_okD [OF ok box] \<open>e \<noteq> d\<close> by (auto simp: box_ok_def split: if_splits)
        then have h: "holds s b' d \<Longrightarrow> holds ?t b' d" for b'
          using box u Idle Cons Remove by (auto simp: holds_def task_next_def removed_def Let_def)
        show ?thesis
          using old Cons Remove Idle h by (auto simp: task_next_def removed_def served_def Let_def)
      next
        case (Expire b)
        then obtain box where box: "boxes s b = Some box"
          using msgs_okD(2) [OF ok, of "Expire b"] Cons by (auto simp: msg_ok_def)
        let ?u = "s\<lparr>msgs := ms\<rparr>"
        have t: "?t = popped time b clock box (heap_pop (outRanks time) (mTree box)) ?u"
          using Idle Cons Expire box by (simp add: task_next_def)
        have "holds s b' d \<Longrightarrow> holds ?t b' d \<or> served ?t c d" for b'
          using holds_popped [of ?u b box] heaps_okD [OF ok box] box by (auto simp: t box_ok_def holds_def)
        moreover have "msgs ?t = ms" by (simp add: t popped_def split: prod.split option.split)
        ultimately show ?thesis
          using old Cons Expire Idle by (auto simp: served_def)
      qed
    qed
  next
    case (Popped b e now)
    obtain x where "delegates s d = Some x" "mClient x = Some c" using client_delegate [OF ok same] by blast
    moreover have "holds ?t b' d = holds s b' d" for b'
      using Popped by (intro holds_same) (simp add: task_next_def)
    ultimately show ?thesis
      using old Popped by (auto simp: task_next_def served_def split: option.split)
  next
    case (Stopping b e now)
    then have "e \<noteq> c" using cd by (auto simp: task_next_def after_stop_def halted_def Let_def split: option.splits)
    moreover have "holds ?t b' d = holds s b' d" for b'
      using Stopping by (intro holds_same) (simp add: task_next_def)
    ultimately show ?thesis
      using old Stopping by (auto simp: task_next_def served_def after_stop_def halted_def Let_def split: option.split)
  next
    case (Calling b e now)
    then have "holds ?t b' d = holds s b' d" for b'
      by (intro holds_same) (simp add: task_next_def)
    then show ?thesis
      using old Calling by (auto simp: task_next_def served_def)
  next
    case (Next b now)
    then obtain box where box: "boxes s b = Some box"
      using timers_okD(5) [OF ok] by (auto simp: task_ok_def)
    have t: "?t = popped time b now box (popIfOutRanks time now (mTree box)) s"
      using Next box by (simp add: task_next_def)
    have "holds s b' d \<Longrightarrow> holds ?t b' d \<or> served ?t c d" for b'
      unfolding t using holds_popped [OF box pop_either] heaps_okD [OF ok box] by (simp add: box_ok_def)
    moreover have "msgs ?t = msgs s" by (simp add: t popped_def split: prod.split option.split)
    ultimately show ?thesis
      using old Next by (auto simp: served_def)
  qed
qed

lemma waits_client:
  assumes "watched_ok time s" and "placed_ok s" and "boxes t = boxes s" and "set (msgs s) \<subseteq> set (msgs t)" and "task t = task s"
    and "\<And>c d. clients t c = Some (Some d) \<Longrightarrow> clients s c = Some (Some d) \<or> (\<exists>b. Push b d \<in> set (msgs t))"
  shows "watched_ok time t \<and> placed_ok t"
proof
  have l: "in_loop t = in_loop s" "served t = served s" "holds t = holds s"
    using assms(3, 5) by (simp_all add: in_loop_def served_def holds_def fun_eq_iff)
  show "watched_ok time t" using assms(4) by (intro watched_same [OF assms(1, 3) _ l(1)]) blast
  show "placed_ok t" using assms(2, 4, 6) unfolding placed_ok_def l by blast
qed

lemma waits_stop: "watched_ok time s \<Longrightarrow> placed_ok s \<Longrightarrow> watched_ok time (after_stop c s) \<and> placed_ok (after_stop c s)"
proof (rule waits_client [of time s])
  show "set (msgs s) \<subseteq> set (msgs (after_stop c s))" "task (after_stop c s) = task s"
    by (auto simp: after_stop_def halted_def Let_def split: option.split)
qed (simp_all add: after_stop_clients split: if_splits)

lemma waits_client_stop:
  assumes ok: "timers_ok time s" and t: "clients s c = Some t" and w: "watched_ok time s" and p: "placed_ok s"
  shows "watched_ok time (snd (the (client_stop c s))) \<and> placed_ok (snd (the (client_stop c s)))"
proof (cases t)
  case None
  then show ?thesis using client_stop_eq [OF ok t] w p by simp
next
  case (Some d)
  then have "snd (the (client_stop c s)) = (after_stop c s)\<lparr>stops := stops s @ [c]\<rparr>"
    using client_stop_eq [OF ok t] by simp
  moreover have "watched_ok time (u\<lparr>stops := p\<rparr>) = watched_ok time u" "placed_ok (u\<lparr>stops := p\<rparr>) = placed_ok u" for u p
    by (simp_all add: watched_ok_def in_loop_def placed_ok_def holds_def served_def)
  ultimately show ?thesis using waits_stop [OF w p] by simp
qed

lemma waits_with_box:
  assumes w: "watched_ok time s" and p: "placed_ok s"
  shows "watched_ok time (with_box b s) \<and> placed_ok (with_box b s)"
proof (cases "boxes s b")
  case None
  have empty: "armed_ok time LocTimerContainer"
    by (simp add: armed_ok_def getSoonestTimer_def LocTimerContainer_def LocHeap_def heap_peek_def)
  have "holds s b' d \<Longrightarrow> holds (with_box b s) b' d" for b' d
    using None by (auto simp: holds_def with_box_def)
  moreover have "clients (with_box b s) = clients s" "msgs (with_box b s) = msgs s" "served (with_box b s) = served s"
    by (simp_all add: with_box_def served_def fun_eq_iff)
  ultimately have "placed_ok (with_box b s)"
    using p unfolding placed_ok_def by metis
  moreover have "watched_ok time (with_box b s)"
    using w None empty by (auto simp: watched_ok_def with_box_def in_loop_def)
  ultimately show ?thesis by blast
next
  case (Some a)
  then show ?thesis using assms by (simp add: with_box_def)
qed

lemma waits_poll:
  "watched_ok time s \<Longrightarrow> placed_ok s \<Longrightarrow> watched_ok time (fold post_expire ev s) \<and> placed_ok (fold post_expire ev s)"
proof (induction ev arbitrary: s)
  case (Cons b ev)
  let ?t = "post_expire b s"
  have t: "boxes ?t = (boxes s)(b := map_option expire (boxes s b))" "in_loop ?t = in_loop s" "served ?t = served s"
      "msgs ?t = msgs s @ [Expire b]" "clients ?t = clients s"
    by (simp_all add: post_expire_def in_loop_def served_def fun_eq_iff)
  have h: "holds s b' d \<Longrightarrow> holds ?t b' d" for b' d
    by (cases "b' = b") (auto simp: holds_def t(1) split: option.splits)
  have "watched_ok time ?t"
    unfolding watched_ok_def
  proof (intro allI impI)
    fix b' box
    assume "boxes ?t b' = Some box" "\<not> armed_ok time box"
    then show "Expire b' \<in> set (msgs ?t) \<or> in_loop ?t b'"
      using Cons.prems(1) by (cases "b' = b") (auto simp: watched_ok_def t)
  qed
  moreover have "placed_ok ?t"
    using Cons.prems(2) h unfolding placed_ok_def t by (metis Un_iff set_append)
  ultimately show ?case using Cons.IH by simp
qed simp

lemma waits_step:
  assumes "timer_step time s s'" and ok: "timers_ok time s" and v: "\<And>d. valid_time (time d)"
    and w: "watched_ok time s" and p: "placed_ok s"
  shows "watched_ok time s' \<and> placed_ok s'"
  using assms(1)
proof cases
  case (create c)
  have "watched_ok time (new_LocTimer c s) \<and> placed_ok (new_LocTimer c s)"
    by (rule waits_client [OF w p]) (simp_all add: new_LocTimer_def split: if_splits)
  with create show ?thesis by simp
next
  case (start c ms now k l r)
  then obtain t where t: "clients s c = Some t" by blast
  show ?thesis
  proof (cases "t = None \<and> (boxes s k \<noteq> None \<or> l)")
    case True
    with t have "s' = started c k (with_box k s)"
      using start_eq [OF ok t] start(3) by auto
    moreover have "watched_ok time (started c k u) \<and> placed_ok (started c k u)"
      if "watched_ok time u" "placed_ok u" for u
      by (rule waits_client [OF that]) (auto simp: started_def split: if_splits)
    ultimately show ?thesis using waits_with_box [OF w p] by blast
  next
    case False
    then show ?thesis using start_eq [OF ok t, of k l] start(3) w p by auto
  qed
next
  case (stop c r)
  then show ?thesis using waits_client_stop [OF ok _ w p] by fastforce
next
  case (delete c)
  then obtain t where t: "clients s c = Some t" by blast
  have "watched_ok time (gone c u) \<and> placed_ok (gone c u)" if "watched_ok time u" and "placed_ok u" for u
    by (rule waits_client [OF that]) (auto simp: gone_def split: if_splits)
  then show ?thesis
    using delete_eq [OF ok t] delete(3) waits_client_stop [OF ok t w p] by simp
next
  case (poll ev fds e)
  then show ?thesis using waits_poll [OF w p] w p by (simp add: poll_run_def)
next
  case (task clock)
  then show ?thesis
    using task_step_eq [OF ok] watched_task [OF ok w, of clock] placed_task [OF ok p v, of clock] by simp
qed

lemma reachable_waits:
  "timers_reachable time s \<Longrightarrow> (\<And>d. valid_time (time d)) \<Longrightarrow> watched_ok time s \<and> placed_ok s"
proof (induction rule: timers_reachable.induct)
  case none
  then show ?case by (simp add: no_timers_def watched_ok_def placed_ok_def)
next
  case (step s s')
  then show ?case using waits_step timers_reachable_ok by blast
qed

section \<open>The thread comes to rest\<close>

fun msg_work :: "timer_msg \<Rightarrow> nat" where
  "msg_work (Push b d) = 6"
| "msg_work (Remove b d) = 1"
| "msg_work (Expire b) = 1"

fun task_work :: "task_pc \<Rightarrow> nat" where
  "task_work Idle = 0"
| "task_work (Popped b d now) = 5"
| "task_work (Stopping b c now) = 4"
| "task_work (Calling b c now) = 2"
| "task_work (Next b now) = 1"

definition box_work :: "timers \<Rightarrow> bool \<Rightarrow> nat" where
  "box_work s b = (case boxes s b of None \<Rightarrow> 0 | Some box \<Rightarrow> 5 * size (elems (mTree box)))"

definition work :: "timers \<Rightarrow> nat" where
  "work s = sum_list (map msg_work (msgs s)) + task_work (task s) + box_work s True + box_work s False"

definition resting :: "timers \<Rightarrow> bool" where
  "resting s \<longleftrightarrow> task s = Idle \<and> msgs s = []"

fun task_run_all :: "(nat \<Rightarrow> timespec) \<Rightarrow> timespec list \<Rightarrow> timers \<Rightarrow> timers option" where
  "task_run_all time [] s = Some s"
| "task_run_all time (t # ts) s = Option.bind (task_step time t s) (task_run_all time ts)"

lemma work_split: "work s = sum_list (map msg_work (msgs s)) + task_work (task s) + (box_work s b + box_work s (\<not> b))"
  by (cases b) (simp_all add: work_def)

lemma box_work_some: "boxes s b = Some box \<Longrightarrow> box_work s b = 5 * size (elems (mTree box))"
  by (simp add: box_work_def)

lemma box_work_same: "boxes t b = boxes s b \<Longrightarrow> box_work t b = box_work s b"
  by (simp add: box_work_def)

lemma work_popped:
  assumes box: "boxes s b = Some box" and p: "p = (None, mTree box) \<or> p = heap_pop (outRanks time) (mTree box)"
    and v: "heap_valid time (mTree box)"
    and m: "sum_list (map msg_work ms) + n = sum_list (map msg_work (msgs s)) + task_work (task s)" "n > 0"
  shows "work (popped time b now box p (s\<lparr>msgs := ms\<rparr>)) < work s"
proof (cases p)
  case (Pair r u)
  let ?t = "popped time b now box p (s\<lparr>msgs := ms\<rparr>)"
  have other: "box_work ?t (\<not> b) = box_work s (\<not> b)"
    by (intro box_work_same) (simp add: popped_def split: prod.split option.split)
  show ?thesis
  proof (cases r)
    case None
    with Pair p heap_valid_pop [OF v, of r u] have "u = mTree box" by auto
    with None Pair box have "box_work ?t b = box_work s b" "task ?t = Idle" "msgs ?t = ms"
      by (simp_all add: popped_def box_work_def)
    with other m show ?thesis by (simp add: work_split [of _ b])
  next
    case (Some d)
    with Pair p heap_valid_pop [OF v, of "Some d" u] have "elems (mTree box) = add_mset d (elems u)" by auto
    with Some Pair box have "box_work s b = box_work ?t b + 5" "task ?t = Popped b d now" "msgs ?t = ms"
      by (simp_all add: popped_def box_work_def)
    with other m show ?thesis by (simp add: work_split [of _ b])
  qed
qed

lemma work_decreases:
  assumes ok: "timers_ok time s" and v: "\<And>d. valid_time (time d)" and r: "\<not> resting s"
  shows "work (task_next time clock s) < work s"
proof (cases "task s")
  case Idle
  then obtain m ms where m: "msgs s = m # ms" using r by (cases "msgs s") (auto simp: resting_def)
  show ?thesis
  proof (cases m)
    case (Push b e)
    then obtain box where box: "boxes s b = Some box"
      using msgs_okD(2) [OF ok, of "Push b e"] m by (auto simp: msg_ok_def)
    have el: "elems (mTree (MsgTimerPush time e box)) = add_mset e (elems (mTree box))"
      using heap_valid_push [OF _ v] heaps_okD [OF ok box] by (simp add: box_ok_def)
    have t: "task_next time clock s = pushed time b e (s\<lparr>msgs := ms\<rparr>)"
      using Idle m Push by (simp add: task_next_def)
    have "box_work (task_next time clock s) b = box_work s b + 5" "box_work (task_next time clock s) (\<not> b) = box_work s (\<not> b)"
      using box el by (simp_all add: t pushed_def box_work_def)
    then show ?thesis using Idle m Push by (simp add: work_split [of _ b]) (simp add: t pushed_def)
  next
    case (Remove b e)
    then obtain box where box: "boxes s b = Some box"
      using msgs_okD(2) [OF ok, of "Remove b e"] m by (auto simp: msg_ok_def)
    obtain p u where u: "heap_remove (outRanks time) e (mTree box) = (p, u)" by fastforce
    have le: "size (elems u) \<le> size (elems (mTree box))"
      using heap_valid_remove [OF _ u] heaps_okD [OF ok box] by (auto simp: box_ok_def split: if_splits)
    have t: "task_next time clock s = removed time b e (s\<lparr>msgs := ms\<rparr>)"
      using Idle m Remove by (simp add: task_next_def)
    have "box_work (task_next time clock s) b \<le> box_work s b" "box_work (task_next time clock s) (\<not> b) = box_work s (\<not> b)"
      using box u le by (simp_all add: t removed_def box_work_def Let_def)
    moreover have "msgs (task_next time clock s) = ms" "task (task_next time clock s) = Idle"
      using Idle by (simp_all add: t removed_def Let_def)
    ultimately show ?thesis using Idle m Remove by (simp add: work_split [of _ b])
  next
    case (Expire b)
    then obtain box where box: "boxes s b = Some box"
      using msgs_okD(2) [OF ok, of "Expire b"] m by (auto simp: msg_ok_def)
    then show ?thesis
      using Idle m Expire work_popped [OF box disjI2, of _ time ms 1] heaps_okD [OF ok box]
      by (simp add: task_next_def box_ok_def)
  qed
next
  case (Popped b d now)
  then show ?thesis by (simp add: task_next_def work_def box_work_def split: option.split)
next
  case (Stopping b c now)
  have b: "box_work (task_next time clock s) b' = box_work s b'" for b'
    using Stopping by (intro box_work_same) (simp add: task_next_def)
  have "sum_list (map msg_work (msgs (after_stop c s))) \<le> sum_list (map msg_work (msgs s)) + 1"
    by (simp add: after_stop_def halted_def Let_def split: option.split)
  then show ?thesis
    using Stopping b by (simp add: work_def) (simp add: task_next_def)
next
  case (Calling b c now)
  then show ?thesis by (simp add: task_next_def work_def box_work_def)
next
  case (Next b now)
  then obtain box where box: "boxes s b = Some box"
    using timers_okD(5) [OF ok] by (auto simp: task_ok_def)
  then show ?thesis
    using Next work_popped [OF box pop_either, where time = time and ms = "msgs s" and n = 1] heaps_okD [OF ok box]
    by (simp add: task_next_def box_ok_def)
qed

lemma task_rests:
  assumes "timers_ok time s" and v: "\<And>d. valid_time (time d)" and "watched_ok time s" and "placed_ok s"
    and "resting s \<or> work s \<le> length ts"
  shows "\<exists>t. task_run_all time ts s = Some t \<and> resting t \<and> timers_ok time t \<and> watched_ok time t \<and> placed_ok t"
  using assms(1, 3-)
proof (induction ts arbitrary: s)
  case Nil
  have pos: "0 < msg_work m" for m by (cases m) simp_all
  have "resting s"
  proof (cases "resting s")
    case False
    then have "task_work (task s) = 0" "sum_list (map msg_work (msgs s)) = 0"
      using Nil.prems(4) by (simp_all add: work_def)
    then show ?thesis
      using pos [of "hd (msgs s)"] by (cases "task s"; cases "msgs s") (simp_all add: resting_def)
  qed
  with Nil show ?case by simp
next
  case (Cons clock ts)
  let ?t = "task_next time clock s"
  have "resting ?t \<or> work ?t \<le> length ts"
  proof (cases "resting s")
    case True
    then show ?thesis by (simp add: resting_def task_next_def)
  next
    case False
    then show ?thesis using work_decreases [OF Cons.prems(1) v False, of clock] Cons.prems(4) by simp
  qed
  then show ?case
    using Cons.IH [of ?t] ok_task_next [OF Cons.prems(1) v, of clock] watched_task [OF Cons.prems(1,2), of clock]
      placed_task [OF Cons.prems(1,3) v, of clock] task_step_eq [OF Cons.prems(1), of clock] by simp
qed

lemma nothing_left:
  assumes ok: "timers_ok time s" and r: "resting s" and none: "\<forall>c. \<not> running s c"
  shows "delegates s = Map.empty \<and> (\<forall>b box. boxes s b = Some box \<longrightarrow> mTree box = NULL_NODE)
    \<and> (\<forall>c. locks s c = of_bool (clients s c \<noteq> None))"
proof -
  have d: "delegates s d = None" for d
  proof (rule ccontr)
    assume "delegates s d \<noteq> None"
    then obtain x where x: "delegates s d = Some x" by blast
    show False
    proof (cases "mClient x")
      case None
      then show ?thesis using delegate_gone(2) [OF timers_okD(3) [OF ok] x] r by (simp add: resting_def)
    next
      case (Some c)
      then show ?thesis using delegate_client(3) [OF timers_okD(3) [OF ok] x] none by (auto simp: running_def)
    qed
  qed
  have "mTree box = NULL_NODE" if "boxes s b = Some box" for b box
  proof -
    have "x \<notin># elems (mTree box)" for x
      using heaps_okD [OF ok that] d by (auto simp: box_ok_def waits_in_def)
    then show ?thesis using elems_empty by (metis multiset_nonemptyE)
  qed
  moreover have "locks s c = of_bool (clients s c \<noteq> None)" for c
    using timers_okD(6) [OF ok] d by (simp add: locks_ok_def lock_users_def)
  ultimately show ?thesis using d by (simp add: fun_eq_iff)
qed

lemma rest_armed:
  assumes ok: "timers_ok time t" and r: "resting t" and w: "watched_ok time t" and p: "placed_ok t"
    and c: "clients t c = Some (Some d)"
  shows "\<exists>b box m. boxes t b = Some box \<and> d \<in># elems (mTree box)
    \<and> polled box \<and> fd box = timerfd_settime (time m) \<and> \<not> earlier (time d) (time m)"
proof -
  obtain b box where box: "boxes t b = Some box" "d \<in># elems (mTree box)"
    using p c r by (force simp: placed_ok_def resting_def served_def holds_def split: option.splits)
  have armed: "armed_ok time box"
    using w box(1) r by (auto simp: watched_ok_def resting_def in_loop_def)
  have h: "heap_valid time (mTree box)" using heaps_okD [OF ok box(1)] by (simp add: box_ok_def)
  let ?m = "mData (mTree box)"
  have "mTree box \<noteq> NULL_NODE" using box(2) by auto
  then have top: "getSoonestTimer box = Some ?m" and "?m \<in># elems (mTree box)"
    using mData_in by (simp_all add: getSoonestTimer_def heap_peek_def)
  then have v: "valid_time (time d)" "valid_time (time ?m)"
    using h box(2) by (simp_all add: heap_valid_def valid_elems_def)
  have "\<not> outRanks time d ?m"
    using timers.below_all [of time "mTree box"] h box(2) by (simp add: heap_valid_def)
  then have "\<not> earlier (time d) (time ?m)"
    using ranks_earlier [OF v] by (simp add: outRanks_def)
  with armed top box show ?thesis by (auto simp: armed_ok_def)
qed

end
