(* ===== verification/LocTimerProps.thy ===== *)
theory LocTimerProps
  imports LocTimerWait
begin

text \<open>
  Concrete runs of the timers, what the code relies on, and the properties.
\<close>

section \<open>Runs\<close>

lemma reach_create:
  "timers_reachable time s \<Longrightarrow> clients s c = None \<Longrightarrow> locks s c = 0 \<Longrightarrow> timers_reachable time (new_LocTimer c s)"
  by (rule timers_reachable.step [OF _ timer_step.create])

lemma reach_start:
  "timers_reachable time s \<Longrightarrow> start c w k s = Some (r, t) \<Longrightarrow> clients s c \<noteq> None \<Longrightarrow>
   time (next_delegate s) = future_time ms now \<Longrightarrow> timers_reachable time t"
  by (rule timers_reachable.step [OF _ timer_step.start])

lemma reach_task: "timers_reachable time s \<Longrightarrow> task_step time clock s = Some t \<Longrightarrow> timers_reachable time t"
  by (rule timers_reachable.step [OF _ timer_step.task])

lemma reach_stop:
  "timers_reachable time s \<Longrightarrow> client_stop c s = Some (r, t) \<Longrightarrow> clients s c \<noteq> None \<Longrightarrow> timers_reachable time t"
  by (rule timers_reachable.step [OF _ timer_step.stop])

lemma reach_poll: "timers_reachable time s \<Longrightarrow> boxes s b \<noteq> None \<Longrightarrow> timers_reachable time (snd (poll_run 1 False [b] s))"
  by (erule timers_reachable.step) (auto intro: timer_step.poll)

text \<open>A client that started a timer for second 1; another one that it starts later is due at second 100.\<close>

definition sample_times :: "nat \<Rightarrow> timespec" where
  "sample_times d = (if d = 0 then \<lparr>tv_sec = 1, tv_nsec = 0\<rparr> else \<lparr>tv_sec = 100, tv_nsec = 0\<rparr>)"

lemma sample_times_valid [simp]: "valid_time (sample_times d)"
  by (simp add: sample_times_def valid_time_def)

lemma sample_times_future:
  "sample_times 0 = future_time 1000 \<lparr>tv_sec = 0, tv_nsec = 0\<rparr>"
  "sample_times 1 = future_time 99000 \<lparr>tv_sec = 1, tv_nsec = 0\<rparr>"
  by (simp_all add: sample_times_def future_time_def)

definition one_timer :: timers where
  "one_timer = snd (the (start 0 True True (new_LocTimer 0 no_timers)))"

lemma one_timer_eq:
  "one_timer = \<lparr>clients = [0 \<mapsto> Some 0], locks = (\<lambda>_. 0)(0 := 2),
     delegates = [0 \<mapsto> \<lparr>mClient = Some 0, mContainer = Some True, mLock = 0, home = True\<rparr>], next_delegate = 1,
     boxes = [True \<mapsto> LocTimerContainer], msgs = [Push True 0], task = Idle, starts = [0], stops = [], callbacks = []\<rparr>"
  by (simp add: one_timer_def start_def new_LocTimer_def no_timers_def get_container_def new_delegate_def share_def Let_def)

lemma one_timer_reachable: "timers_reachable sample_times one_timer"
proof (rule reach_start)
  show "timers_reachable sample_times (new_LocTimer 0 no_timers)"
    by (intro reach_create timers_reachable.none) (simp_all add: no_timers_def)
  show "start 0 True True (new_LocTimer 0 no_timers) = Some (True, one_timer)"
    by (simp add: one_timer_def start_def new_LocTimer_def no_timers_def get_container_def new_delegate_def share_def Let_def)
  show "clients (new_LocTimer 0 no_timers) 0 \<noteq> None" by (simp add: new_LocTimer_def)
  show "sample_times (next_delegate (new_LocTimer 0 no_timers)) = future_time 1000 \<lparr>tv_sec = 0, tv_nsec = 0\<rparr>"
    by (simp add: sample_times_future(1) [symmetric]) (simp add: new_LocTimer_def no_timers_def)
qed

text \<open>The same after the thread pushed the timer, popped it at second 1, and read its client.\<close>

definition stopping_one :: timers where
  "stopping_one = one_timer\<lparr>boxes := [True \<mapsto> \<lparr>mTree = NULL_NODE, fd = None, polled = False, fired = [0], deleted = []\<rparr>],
     msgs := [], task := Stopping True 0 \<lparr>tv_sec = 1, tv_nsec = 0\<rparr>\<rparr>"

lemma stopping_one_reachable: "timers_reachable sample_times stopping_one"
proof -
  let ?k = "\<lparr>tv_sec = 1, tv_nsec = 0\<rparr>"
  let ?box = "\<lparr>mTree = new_node 0, fd = Some (sample_times 0), polled = True, fired = [], deleted = []\<rparr>"
  let ?s1 = "one_timer\<lparr>boxes := [True \<mapsto> ?box], msgs := []\<rparr>"
  let ?s2 = "one_timer\<lparr>boxes := [True \<mapsto> ?box\<lparr>fd := None, polled := False\<rparr>], msgs := [Expire True]\<rparr>"
  let ?s3 = "one_timer\<lparr>boxes := [True \<mapsto> ?box\<lparr>mTree := NULL_NODE, fd := None, polled := False, fired := [0]\<rparr>],
     msgs := [], task := Popped True 0 ?k\<rparr>"
  have "MsgTimerPush sample_times 0 LocTimerContainer = ?box"
    by (simp add: MsgTimerPush_def LocTimerContainer_def LocHeap_def getSoonestTimer_def heap_peek_def heap_push_def
        updateSoonestTime_def new_node_def timerfd_settime_def sample_times_def)
  then have "task_step sample_times ?k one_timer = Some ?s1"
    by (simp add: task_step_def handle_msg_def one_timer_eq heap_alive_def LocTimerContainer_def LocHeap_def)
  from reach_task [OF one_timer_reachable this] have "timers_reachable sample_times (snd (poll_run 1 False [True] ?s1))"
    by (rule reach_poll) simp
  also have "snd (poll_run 1 False [True] ?s1) = ?s2"
    by (simp add: poll_run_def post_expire_def expire_def)
  finally have r2: "timers_reachable sample_times ?s2" .
  have "task_step sample_times ?k ?s2 = Some ?s3"
    by (simp add: task_step_def handle_msg_def one_timer_eq heap_alive_def popped_def heap_pop_def new_node_def)
  from reach_task [OF r2 this] have r3: "timers_reachable sample_times ?s3" .
  have "task_step sample_times ?k ?s3 = Some stopping_one"
    by (simp add: task_step_def one_timer_eq stopping_one_def)
  from reach_task [OF r3 this] show ?thesis .
qed

section \<open>What the code relies on\<close>

text \<open>A client deleted while the thread is about to call its \<open>stop\<close> or its callback is used after its deletion.\<close>

lemma deleted_client_used:
  assumes "task s = Stopping b c now \<or> task s = Calling b c now" and "delete_timer c s = Some t"
  shows "task_step time clock t = None"
proof -
  obtain r s1 where s1: "client_stop c s = Some (r, s1)" "clients t c = None" "task t = task s1"
    using assms(2) by (auto simp: delete_timer_def drop_lock_def split: Option.bind_splits if_splits)
  have "destroyLocked d u = Some v \<Longrightarrow> task v = task u" for d u v
    by (auto simp: destroyLocked_def Let_def split: option.splits)
  then have "task s1 = task s"
    using s1(1) by (fastforce simp: client_stop_def stop_def split: option.splits if_splits Option.bind_splits)
  then show ?thesis
    using assms(1) s1 by (auto simp: task_step_def stop_def)
qed

text \<open>
  A client that stops its timer and starts another one between the thread's reading of the client and its call of
  \<open>stop\<close> is called back at once, and the new timer never fires.
\<close>

lemma restarted_timer_fires_at_once:
  assumes "timers_ok time s" and "task s = Stopping b c now" and "clients s c = Some (Some d)"
  shows "\<exists>t. task_run_all time [k1, k2] s = Some t \<and> callbacks t = callbacks s @ [c] \<and> \<not> running t c"
proof -
  have st: "stop c s = Some (True, after_stop c s)"
    using stop_eq [OF assms(1,3)] by simp
  have "clients (after_stop c s) c = Some None" "callbacks (after_stop c s) = callbacks s"
    using assms(3) by (simp_all add: after_stop_def halted_def Let_def)
  then show ?thesis
    by (simp add: task_step_def assms(2) st running_def)
qed

lemma early_callback_reachable:
  "\<exists>s. timers_reachable sample_times s \<and> clients s 0 = Some (Some 1) \<and> task s = Stopping True 0 \<lparr>tv_sec = 1, tv_nsec = 0\<rparr>
     \<and> earlier \<lparr>tv_sec = 1, tv_nsec = 0\<rparr> (sample_times 1)"
proof -
  let ?x = "\<lparr>mClient = Some 0, mContainer = Some True, mLock = 0, home = True\<rparr>"
  let ?s1 = "stopping_one\<lparr>clients := [0 \<mapsto> None], delegates := [0 \<mapsto> ?x\<lparr>mClient := None, mContainer := None\<rparr>],
     msgs := [Remove True 0], stops := [0]\<rparr>"
  have "client_stop 0 stopping_one = Some (True, ?s1)"
    by (simp add: client_stop_def stop_def destroyLocked_def stopping_one_def one_timer_eq)
  from reach_stop [OF stopping_one_reachable this] have r1: "timers_reachable sample_times ?s1"
    by (simp add: stopping_one_def one_timer_eq)
  let ?s2 = "snd (the (start 0 True True ?s1))"
  have s2: "start 0 True True ?s1 = Some (True, ?s2)" "clients ?s2 0 = Some (Some 1)" "task ?s2 = task stopping_one"
    by (simp_all add: start_def get_container_def new_delegate_def share_def stopping_one_def one_timer_eq Let_def)
  have "timers_reachable sample_times ?s2"
    by (rule reach_start [OF r1 s2(1), where ms = 99000 and now = "\<lparr>tv_sec = 1, tv_nsec = 0\<rparr>"])
      (simp_all add: sample_times_future(2) [symmetric] stopping_one_def one_timer_eq)
  moreover have "earlier \<lparr>tv_sec = 1, tv_nsec = 0\<rparr> (sample_times 1)"
    by (simp add: earlier_def sample_times_def)
  ultimately show ?thesis using s2(2,3) by (auto simp: stopping_one_def)
qed

text \<open>
  The C functions: a timer that could not be started still gives a handle, of a timer that never fires; the handle of a
  timer that has fired, whose wrapper deleted itself, makes \<open>loc_timer_stop\<close> read freed memory.
\<close>

lemma failed_start_gives_handle:
  assumes "boxes s w = None" and "clients s c = None"
  shows "loc_timer_start True c w False s = Some (Some c, new_LocTimer c s)"
  using assms by (simp add: loc_timer_start_def start_def new_LocTimer_def get_container_def)

lemma fired_handle_dangles:
  assumes "wrapper_timeOutCallback c s = Some t"
  shows "loc_timer_stop (Some c) t = None"
  using assms by (auto simp: wrapper_timeOutCallback_def loc_timer_stop_def wrapper_destroy_def delete_timer_def
      split: if_splits Option.bind_splits)

section \<open>Properties\<close>

text \<open>
  C24: Nothing is used after it was deleted, and nothing leaks. Under every interleaving of clients, the polling thread
  and the thread that expires timers, in which no client is deleted while that thread is about to call it, a step of the
  thread, and a client's start, stop and deletion, never touch a deleted client, delegate or lock, and work on heaps
  whose timers all exist. When the thread has handled its messages and no timer runs, no delegate is left, every heap is
  empty, and of the locks exactly those of the clients that exist are left, each with one reference.
\<close>

theorem timer_objects_safe:
  assumes "timers_reachable time s" and "\<And>d. valid_time (time d)"
  shows "task_step time clock s \<noteq> None
    \<and> (\<forall>c w k. clients s c \<noteq> None \<longrightarrow> start c w k s \<noteq> None \<and> client_stop c s \<noteq> None \<and> delete_timer c s \<noteq> None)
    \<and> (resting s \<and> (\<forall>c. \<not> running s c) \<longrightarrow> delegates s = Map.empty
        \<and> (\<forall>b box. boxes s b = Some box \<longrightarrow> mTree box = NULL_NODE)
        \<and> (\<forall>c. locks s c = of_bool (clients s c \<noteq> None)))"
proof -
  have ok: "timers_ok time s" using timers_reachable_ok assms .
  have c: "start c w k s \<noteq> None \<and> client_stop c s \<noteq> None \<and> delete_timer c s \<noteq> None" if "clients s c \<noteq> None" for c w k
    using that start_eq [OF ok] client_stop_eq [OF ok] delete_eq [OF ok] by auto
  have "task_step time clock s \<noteq> None" using task_step_eq [OF ok] by simp
  with c nothing_left [OF ok] show ?thesis by blast
qed

theorem timer_objects_safe_witness:
  "task_step sample_times \<lparr>tv_sec = 0, tv_nsec = 0\<rparr> one_timer \<noteq> None
    \<and> start 0 False True one_timer \<noteq> None \<and> client_stop 0 one_timer \<noteq> None"
  using timer_objects_safe [OF one_timer_reachable sample_times_valid, of "\<lparr>tv_sec = 0, tv_nsec = 0\<rparr>"]
  by (simp add: one_timer_eq)

text \<open>
  C25: A timer that was started is answered once. Under every such interleaving, the successful starts of a client are
  as many as its successful stops, its callbacks, and the one timer that is running or whose callback is about to be
  called: a client is never called back more often than it started a timer that it did not stop.
\<close>

theorem timer_answered_once:
  assumes "timers_reachable time s" and "\<And>d. valid_time (time d)"
  shows "count_list (starts s) c = count_list (stops s) c + count_list (callbacks s) c
    + of_bool (running s c) + of_bool (calling s c)"
  using reachable_counts [OF assms] by (simp add: counts_ok_def answered_def)

theorem timer_answered_once_witness:
  "count_list (starts stopping_one) 0 = count_list (stops stopping_one) 0 + count_list (callbacks stopping_one) 0
    + of_bool (running stopping_one 0) + of_bool (calling stopping_one 0)"
  using timer_answered_once [OF stopping_one_reachable sample_times_valid] .

text \<open>
  C26: No running timer is forgotten. From every state that such an interleaving reaches, the thread, left alone, handles
  all its messages within a number of steps that the state gives, and then waits. Every timer that still runs is then in
  a heap whose container is polled, with the kernel timer armed for a time that is not later than the timer's.
\<close>

theorem running_timers_armed:
  assumes "timers_reachable time s" and "\<And>d. valid_time (time d)" and "work s \<le> length clocks"
  shows "\<exists>t. task_run_all time clocks s = Some t \<and> resting t
    \<and> (\<forall>c d. clients t c = Some (Some d) \<longrightarrow> (\<exists>b box m. boxes t b = Some box \<and> d \<in># elems (mTree box)
          \<and> polled box \<and> fd box = timerfd_settime (time m) \<and> \<not> earlier (time d) (time m)))"
proof -
  obtain t where t: "task_run_all time clocks s = Some t" "resting t" "timers_ok time t" "watched_ok time t" "placed_ok t"
    using task_rests [OF timers_reachable_ok [OF assms(1,2)] assms(2)] reachable_waits [OF assms(1,2)] assms(3) by blast
  then show ?thesis using rest_armed by blast
qed

theorem running_timers_armed_witness:
  "\<exists>t. task_run_all sample_times (replicate 6 \<lparr>tv_sec = 0, tv_nsec = 0\<rparr>) one_timer = Some t \<and> resting t"
proof -
  have "work one_timer \<le> length (replicate 6 \<lparr>tv_sec = 0, tv_nsec = 0\<rparr>)"
    by (simp add: one_timer_eq work_def box_work_def LocTimerContainer_def LocHeap_def)
  from running_timers_armed [OF one_timer_reachable sample_times_valid this] show ?thesis by blast
qed

end
