(* ===== verification/SensorQueue.thy ===== *)
theory SensorQueue
  imports Prelude
begin

text \<open>
  The event queue of the sensor HAL, \<open>hardware/sensors/SensorEventQueue.cpp\<close>: a circular array whose writer is given a
  region of the array to fill outside the lock. An index of the array stands for a pointer into it.

  \<open>readable\<close> is what the queue holds, oldest first. The lemmas say what the comments of the header promise: a region is
  not empty while there is space, it lies inside the array and outside the readable part, it stays so while a reader
  takes events out, and marking it as written appends what was written. The reader and the writer use these laws
  through the locale \<open>event_ring\<close>.
\<close>

definition INT_MAX :: int where
  "INT_MAX = 2147483647"

record 'e sensor_queue =
  mCapacity :: int
  mStart :: int
  mSize :: int
  mData :: "'e list"

section \<open>Operations\<close>

text \<open>The array is not initialised: \<open>garbage\<close> is what the memory held.\<close>

definition SensorEventQueue :: "int \<Rightarrow> 'e list \<Rightarrow> 'e sensor_queue" where
  "SensorEventQueue capacity garbage = \<lparr>mCapacity = capacity, mStart = 0, mSize = 0, mData = garbage\<rparr>"

text \<open>The first result is the pointer written to \<open>out\<close>. A sum that does not fit an \<open>int\<close> gives \<open>None\<close>.\<close>

definition getWritableRegion :: "int \<Rightarrow> 'e sensor_queue \<Rightarrow> (nat option \<times> int) option" where
  "getWritableRegion requestedLength q =
     (if mSize q = mCapacity q \<or> requestedLength \<le> 0 then Some (None, 0)
      else let firstWritable = (mStart q + mSize q) mod mCapacity q in
        if firstWritable + requestedLength > INT_MAX then None
        else let lastWritable = firstWritable + requestedLength - 1;
               lastWritable = (if lastWritable > mCapacity q - 1 then mCapacity q - 1 else lastWritable);
               lastWritable = (if firstWritable < mStart q \<and> lastWritable \<ge> mStart q then mStart q - 1 else lastWritable)
             in Some (Some (nat firstWritable), lastWritable - firstWritable + 1))"

definition markAsWritten :: "int \<Rightarrow> 'e sensor_queue \<Rightarrow> 'e sensor_queue" where
  "markAsWritten n q = q\<lparr>mSize := mSize q + n\<rparr>"

definition peek_event :: "'e sensor_queue \<Rightarrow> 'e option" where
  "peek_event q = (if mSize q = 0 then None else Some (mData q ! nat (mStart q)))"

text \<open>The first result tells whether the condition is broadcast.\<close>

definition dequeue_event :: "'e sensor_queue \<Rightarrow> bool \<times> 'e sensor_queue" where
  "dequeue_event q =
     (if mSize q = 0 then (False, q)
      else (mSize q = mCapacity q, q\<lparr>mSize := mSize q - 1, mStart := (mStart q + 1) mod mCapacity q\<rparr>))"

text \<open>\<open>waitForSpace\<close> waits as long as this holds.\<close>

definition waitForSpace :: "'e sensor_queue \<Rightarrow> bool" where
  "waitForSpace q = (mSize q = mCapacity q)"

text \<open>A write of the writer through the pointer it was given, outside the lock.\<close>

definition write_slot :: "nat \<Rightarrow> 'e \<Rightarrow> 'e sensor_queue \<Rightarrow> 'e sensor_queue option" where
  "write_slot a e q = (if a < length (mData q) then Some (q\<lparr>mData := (mData q)[a := e]\<rparr>) else None)"

section \<open>The queue as a sequence\<close>

definition queue_ok :: "'e sensor_queue \<Rightarrow> bool" where
  "queue_ok q \<longleftrightarrow> 0 < mCapacity q \<and> 0 \<le> mStart q \<and> mStart q < mCapacity q \<and> 0 \<le> mSize q \<and> mSize q \<le> mCapacity q
     \<and> length (mData q) = nat (mCapacity q)"

definition slot :: "'e sensor_queue \<Rightarrow> nat \<Rightarrow> nat" where
  "slot q k = nat ((mStart q + int k) mod mCapacity q)"

definition readable :: "'e sensor_queue \<Rightarrow> 'e list" where
  "readable q = map (\<lambda>k. mData q ! slot q k) [0..<nat (mSize q)]"

text \<open>\<open>writable q a n\<close>: the \<open>n\<close> slots from \<open>a\<close> on follow the readable part and do not run into it.\<close>

definition writable :: "'e sensor_queue \<Rightarrow> nat \<Rightarrow> int \<Rightarrow> bool" where
  "writable q a n \<longleftrightarrow> int a = (mStart q + mSize q) mod mCapacity q \<and> int a + n \<le> mCapacity q
     \<and> mSize q + n \<le> mCapacity q \<and> 1 \<le> n"

lemma wrap: "0 \<le> x \<Longrightarrow> x < 2 * c \<Longrightarrow> x mod c = (if x < c then x else x - (c :: int))"
  using mod_pos_pos_trivial [of "x - c" c] minus_mod_self2 [of x c] by auto

lemma ring_ok_new: "0 < c \<Longrightarrow> length g = nat c \<Longrightarrow> queue_ok (SensorEventQueue c g) \<and> readable (SensorEventQueue c g) = []"
  by (simp add: queue_ok_def SensorEventQueue_def readable_def)

lemma length_readable [simp]: "length (readable q) = nat (mSize q)"
  by (simp add: readable_def)

lemma peek_readable:
  assumes "queue_ok q"
  shows "peek_event q = (case readable q of [] \<Rightarrow> None | e # es \<Rightarrow> Some e)"
proof (cases "mSize q = 0")
  case True
  then show ?thesis by (simp add: peek_event_def readable_def)
next
  case False
  then have "[0..<nat (mSize q)] = 0 # [1..<nat (mSize q)]" using assms by (simp add: queue_ok_def upt_conv_Cons)
  then show ?thesis using False assms by (simp add: peek_event_def readable_def slot_def queue_ok_def)
qed

lemma dequeue_ok: "queue_ok q \<Longrightarrow> queue_ok (snd (dequeue_event q))"
  by (auto simp: queue_ok_def dequeue_event_def)

lemma readable_dequeue: "queue_ok q \<Longrightarrow> readable (snd (dequeue_event q)) = tl (readable q)"
  by (rule nth_equalityI)
    (auto simp: dequeue_event_def readable_def queue_ok_def slot_def nth_tl mod_simps algebra_simps)

lemma dequeue_writable: "queue_ok q \<Longrightarrow> writable q a n \<Longrightarrow> writable (snd (dequeue_event q)) a n"
  using mod_add_left_eq [of "mStart q + 1" "mCapacity q" "mSize q - 1"]
  by (auto simp: queue_ok_def writable_def dequeue_event_def)

lemma region_writable:
  assumes "queue_ok q" "mSize q < mCapacity q" "0 < n" "mCapacity q + n \<le> INT_MAX"
  shows "\<exists>a k. getWritableRegion n q = Some (Some a, k) \<and> k \<le> n \<and> writable q a k"
  using assms wrap [of "mStart q + mSize q" "mCapacity q"]
  by (auto simp: getWritableRegion_def Let_def queue_ok_def writable_def)

lemma region_full: "mSize q = mCapacity q \<Longrightarrow> getWritableRegion n q = Some (None, 0)"
  by (simp add: getWritableRegion_def)

lemma slot_writable:
  assumes "queue_ok q" "writable q a n" "int j < n"
  shows "slot q (nat (mSize q) + j) = a + j"
proof -
  have "int a + int j < mCapacity q" using assms by (simp add: writable_def)
  then have "(int a + int j) mod mCapacity q = int a + int j" by simp
  moreover have "(mStart q + int (nat (mSize q) + j)) mod mCapacity q = (int a + int j) mod mCapacity q"
    using assms by (auto simp: writable_def queue_ok_def mod_simps algebra_simps)
  ultimately show ?thesis by (simp add: slot_def)
qed

lemma slot_inj:
  assumes "queue_ok q" "int k < mCapacity q" "int l < mCapacity q" "slot q k = slot q l"
  shows "k = l"
proof -
  have "(mStart q + int k) mod mCapacity q = (mStart q + int l) mod mCapacity q"
    using assms(1,4) eq_nat_nat_iff [of "(mStart q + int k) mod mCapacity q" "(mStart q + int l) mod mCapacity q"]
    by (simp add: slot_def queue_ok_def)
  then show ?thesis
    using assms wrap [of "mStart q + int k" "mCapacity q"] wrap [of "mStart q + int l" "mCapacity q"]
    by (auto simp: queue_ok_def split: if_splits)
qed

lemma region_apart:
  assumes q: "queue_ok q" "writable q a n" "int j < n" and k: "k < nat (mSize q)"
  shows "a + j \<noteq> slot q k"
  using slot_inj [OF q(1), of k "nat (mSize q) + j"] slot_writable [OF q] k q by (auto simp: writable_def queue_ok_def)

lemma write_readable:
  assumes q: "queue_ok q" "writable q a n" "int j < n"
  shows "\<exists>q'. write_slot (a + j) e q = Some q' \<and> queue_ok q' \<and> readable q' = readable q \<and> writable q' a n
     \<and> mSize q' = mSize q \<and> mCapacity q' = mCapacity q"
proof -
  have "a + j \<noteq> slot q k" if "k < nat (mSize q)" for k
    using region_apart [OF q that] .
  then show ?thesis
    using q by (auto simp: write_slot_def queue_ok_def writable_def readable_def slot_def)
qed

definition cells :: "'e sensor_queue \<Rightarrow> nat \<Rightarrow> int \<Rightarrow> 'e list" where
  "cells q a m = map (\<lambda>j. mData q ! (a + j)) [0..<nat m]"

lemma mark_ok: "queue_ok q \<Longrightarrow> writable q a n \<Longrightarrow> 0 \<le> m \<Longrightarrow> m \<le> n \<Longrightarrow> queue_ok (markAsWritten m q)"
  by (auto simp: queue_ok_def writable_def markAsWritten_def)

lemma readable_mark:
  assumes "queue_ok q" "writable q a n" "0 \<le> m" "m \<le> n"
  shows "readable (markAsWritten m q) = readable q @ cells q a m"
proof (rule nth_equalityI)
  have m: "nat (mSize q + m) = nat (mSize q) + nat m" using assms by (simp add: nat_add_distrib queue_ok_def)
  then show "length (readable (markAsWritten m q)) = length (readable q @ cells q a m)"
    by (simp add: markAsWritten_def cells_def)
  fix i assume "i < length (readable (markAsWritten m q))"
  then have i: "i < nat (mSize q) + nat m" using m by (simp add: markAsWritten_def)
  have s: "readable (markAsWritten m q) ! i = mData q ! slot q i"
    using i m by (simp add: readable_def markAsWritten_def slot_def)
  show "readable (markAsWritten m q) ! i = (readable q @ cells q a m) ! i"
  proof (cases "i < nat (mSize q)")
    case True
    then show ?thesis using s by (simp add: nth_append readable_def)
  next
    case False
    then obtain j where j: "i = nat (mSize q) + j" by (metis le_Suc_ex not_less)
    then have "slot q i = a + j" using slot_writable [OF assms(1,2), of j] i assms(3,4) by simp
    then show ?thesis using s i j by (simp add: nth_append cells_def)
  qed
qed

lemma dequeue_cells: "cells (snd (dequeue_event q)) a m = cells q a m"
  by (simp add: cells_def dequeue_event_def)

section \<open>The contract\<close>

text \<open>What a reader relies on, and what a writer that fills a region while events are taken out relies on.\<close>

locale event_source =
  fixes ok :: "'q \<Rightarrow> bool" and content :: "'q \<Rightarrow> 'e list" and first :: "'q \<Rightarrow> 'e option" and take_out :: "'q \<Rightarrow> bool \<times> 'q"
  assumes first_content: "ok q \<Longrightarrow> first q = (case content q of [] \<Rightarrow> None | e # es \<Rightarrow> Some e)"
    and take_ok: "ok q \<Longrightarrow> ok (snd (take_out q))"
    and take_content: "ok q \<Longrightarrow> content (snd (take_out q)) = tl (content q)"
begin

lemma first_None: "ok q \<Longrightarrow> first q = None \<longleftrightarrow> content q = []"
  by (simp add: first_content split: list.split)

lemma first_Some: "ok q \<Longrightarrow> first q = Some e \<Longrightarrow> content q = e # content (snd (take_out q))"
  by (auto simp: first_content take_content split: list.splits)

end

locale event_ring = event_source ok content first take_out
  for ok :: "'q \<Rightarrow> bool" and content :: "'q \<Rightarrow> 'e list" and first :: "'q \<Rightarrow> 'e option" and take_out :: "'q \<Rightarrow> bool \<times> 'q" +
  fixes free :: "'q \<Rightarrow> nat \<Rightarrow> int \<Rightarrow> bool" and filled :: "'q \<Rightarrow> nat \<Rightarrow> int \<Rightarrow> 'e list"
    and fill :: "nat \<Rightarrow> 'e \<Rightarrow> 'q \<Rightarrow> 'q option" and commit :: "int \<Rightarrow> 'q \<Rightarrow> 'q"
  assumes take_free: "ok q \<Longrightarrow> free q a n \<Longrightarrow> free (snd (take_out q)) a n"
    and take_filled: "filled (snd (take_out q)) a m = filled q a m"
    and fill_free: "ok q \<Longrightarrow> free q a n \<Longrightarrow> int j < n \<Longrightarrow>
      \<exists>q'. fill (a + j) e q = Some q' \<and> ok q' \<and> content q' = content q \<and> free q' a n"
    and commit_content: "ok q \<Longrightarrow> free q a n \<Longrightarrow> 0 \<le> m \<Longrightarrow> m \<le> n \<Longrightarrow>
      ok (commit m q) \<and> content (commit m q) = content q @ filled q a m"
begin

text \<open>A region stays usable, and its cells keep what they hold, however many events are taken out meanwhile.\<close>

lemma region_survives:
  assumes "ok q" "free q a n"
  shows "ok (((snd \<circ> take_out) ^^ k) q) \<and> free (((snd \<circ> take_out) ^^ k) q) a n \<and>
    content (((snd \<circ> take_out) ^^ k) q) = drop k (content q) \<and> filled (((snd \<circ> take_out) ^^ k) q) a m = filled q a m"
  using assms by (induction k) (auto simp: take_ok take_free take_content take_filled drop_Suc tl_drop)

lemma commit_after_reads:
  assumes "ok q" "free q a n" "0 \<le> m" "m \<le> n"
  shows "content (commit m (((snd \<circ> take_out) ^^ k) q)) = drop k (content q) @ filled q a m"
  using region_survives [OF assms(1,2), of k m] commit_content [of "((snd \<circ> take_out) ^^ k) q" a n m] assms(3,4) by simp

end

interpretation ring: event_ring queue_ok readable peek_event dequeue_event writable cells write_slot markAsWritten
proof unfold_locales
  show "\<exists>q'. write_slot (a + j) e q = Some q' \<and> queue_ok q' \<and> readable q' = readable q \<and> writable q' a n"
    if "queue_ok q" "writable q a n" "int j < n" for q :: "'a sensor_queue" and a n j e
    using write_readable [OF that] by blast
qed (simp_all add: peek_readable dequeue_ok readable_dequeue dequeue_writable dequeue_cells mark_ok readable_mark)

end
