(* ===== verification/MultiHal.thy ===== *)
theory MultiHal
  imports SensorQueue "HOL-Library.Monad_Syntax"
begin

text \<open>
  The multiplexing sensor HAL, \<open>hardware/sensors/multihal.cpp\<close>: loading the sub-modules, the global list of sensors with
  its global handles, opening the devices, and the calls that go from the proxy device to a sub-module. The event path
  is in \<open>MultiPoll\<close>.

  Outside the repository are the sub-modules (\<open>sub_module\<close>: what \<open>open\<close> and \<open>get_sensors_list\<close> answer), the dynamic
  linker (\<open>load\<close>) and the constants of \<open>hardware/sensors.h\<close> (\<open>sensors_h\<close>). A call to a sub-module is a value of
  \<open>hal_call\<close>; an operation gives its result and the calls it made.
\<close>

section \<open>Data of the platform\<close>

record sensors_h =
  SENSORS_DEVICE_API_VERSION_1_3 :: int
  SENSORS_DEVICE_API_VERSION_1_4 :: int
  SENSOR_TYPE_META_DATA :: int

record sensor =
  handle :: int
  info :: nat

record sensors_event =
  sensor :: int
  ev_type :: int
  meta_sensor :: int
  payload :: nat

record sub_device =
  dev :: nat
  version :: int

text \<open>\<open>get_sensors_list\<close> is the answer to the first, second, ... call; \<open>open_module\<close> is \<open>None\<close> when \<open>open\<close> fails.\<close>

record sub_module =
  get_sensors_list :: "nat \<Rightarrow> sensor list"
  open_module :: "sub_device option"

datatype hal_call =
    CallActivate (called: nat) int int
  | CallSetDelay (called: nat) int int
  | CallBatch (called: nat) int int int int
  | CallFlush (called: nat) int
  | CallInject (called: nat) nat sensors_event
  | CallClose (called: nat)

definition EINVAL :: int where
  "EINVAL = 22"

section \<open>Handles\<close>

datatype full_handle = FullHandle (moduleIndex: int) (localHandle: int)

text \<open>\<open>operator<\<close> of the code, which makes the handles a linear order.\<close>

definition handle_less :: "full_handle \<Rightarrow> full_handle \<Rightarrow> bool" where
  "handle_less this that =
     (if moduleIndex this < moduleIndex that then True
      else if moduleIndex this > moduleIndex that then False
      else localHandle this < localHandle that)"

instantiation full_handle :: linorder
begin

definition less_full_handle :: "full_handle \<Rightarrow> full_handle \<Rightarrow> bool" where
  "less_full_handle this that = handle_less this that"

definition less_eq_full_handle :: "full_handle \<Rightarrow> full_handle \<Rightarrow> bool" where
  "less_eq_full_handle this that = (\<not> that < this)"

instance
  by standard (auto simp: less_full_handle_def handle_less_def less_eq_full_handle_def full_handle.expand split: if_splits)

end

record handle_maps =
  global_to_full :: "int \<rightharpoonup> full_handle"
  full_to_global :: "full_handle \<rightharpoonup> int"
  next_global_handle :: int

definition fresh_maps :: handle_maps where
  "fresh_maps = \<lparr>global_to_full = Map.empty, full_to_global = Map.empty, next_global_handle = 1\<rparr>"

definition assign_global_handle :: "int \<Rightarrow> int \<Rightarrow> handle_maps \<Rightarrow> int \<times> handle_maps" where
  "assign_global_handle module_index local_handle M =
     (let global_handle = next_global_handle M;
          full_handle = FullHandle module_index local_handle
      in (global_handle, M\<lparr>next_global_handle := next_global_handle M + 1,
            full_to_global := (full_to_global M)(full_handle \<mapsto> global_handle),
            global_to_full := (global_to_full M)(global_handle \<mapsto> full_handle)\<rparr>))"

definition get_local_handle :: "handle_maps \<Rightarrow> int \<Rightarrow> int" where
  "get_local_handle M global_handle = (case global_to_full M global_handle of None \<Rightarrow> -1 | Some f \<Rightarrow> localHandle f)"

definition get_module_index :: "handle_maps \<Rightarrow> int \<Rightarrow> int" where
  "get_module_index M global_handle = (case global_to_full M global_handle of None \<Rightarrow> -1 | Some f \<Rightarrow> moduleIndex f)"

definition get_global_handle :: "handle_maps \<Rightarrow> full_handle \<Rightarrow> int" where
  "get_global_handle M full_handle = (case full_to_global M full_handle of None \<Rightarrow> -1 | Some g \<Rightarrow> g)"

section \<open>Loading the modules and listing their sensors\<close>

text \<open>
  \<open>config_files\<close> are the lines of the two configuration files, \<open>None\<close> for one that cannot be opened; \<open>load\<close> is the
  module symbol of a library, \<open>None\<close> when \<open>dlopen\<close> or \<open>dlsym\<close> fails or gives \<open>NULL\<close>.
\<close>

record sensors_env =
  config_files :: "string list option list"
  load :: "string \<Rightarrow> sub_module option"

record multihal =
  sub_hw_modules :: "sub_module list option"
  maps :: handle_maps
  global_sensors_list :: "sensor list option"
  global_sensors_count :: int

definition fresh_multihal :: multihal where
  "fresh_multihal = \<lparr>sub_hw_modules = None, maps = fresh_maps, global_sensors_list = None, global_sensors_count = -1\<rparr>"

definition get_so_paths :: "sensors_env \<Rightarrow> string list" where
  "get_so_paths E = (case filter (\<lambda>f. f \<noteq> None) (config_files E) of Some ls # _ \<Rightarrow> ls | _ \<Rightarrow> [])"

definition lazy_init_modules :: "sensors_env \<Rightarrow> multihal \<Rightarrow> multihal" where
  "lazy_init_modules E m =
     (if sub_hw_modules m \<noteq> None then m
      else m\<lparr>sub_hw_modules := Some (List.map_filter (load E) (get_so_paths E))\<rparr>)"

text \<open>The copy of one module's sensors from place \<open>k\<close> on; \<open>None\<close> for a write behind the array.\<close>

fun list_module :: "int \<Rightarrow> sensor list \<Rightarrow> nat \<Rightarrow> sensor list \<Rightarrow> handle_maps \<Rightarrow> (nat \<times> sensor list \<times> handle_maps) option" where
  "list_module module_index [] k L M = Some (k, L, M)"
| "list_module module_index (s # ss) k L M =
     (if k < length L
      then (case assign_global_handle module_index (handle s) M of
              (g, M') \<Rightarrow> list_module module_index ss (k + 1) (L[k := s\<lparr>handle := g\<rparr>]) M')
      else None)"

fun list_modules :: "int \<Rightarrow> sub_module list \<Rightarrow> nat \<Rightarrow> sensor list \<Rightarrow> handle_maps \<Rightarrow> (nat \<times> sensor list \<times> handle_maps) option" where
  "list_modules module_index [] k L M = Some (k, L, M)"
| "list_modules module_index (m # ms) k L M = do {
     (k, L, M) \<leftarrow> list_module module_index (get_sensors_list m 1) k L M;
     list_modules (module_index + 1) ms k L M }"

text \<open>\<open>blank\<close> stands for the content of the new array.\<close>

definition lazy_init_sensors_list :: "sensors_env \<Rightarrow> sensor \<Rightarrow> multihal \<Rightarrow> multihal option" where
  "lazy_init_sensors_list E blank m =
     (if global_sensors_list m \<noteq> None then Some m
      else let m = lazy_init_modules E m;
               mods = (case sub_hw_modules m of None \<Rightarrow> [] | Some ms \<Rightarrow> ms);
               n = sum_list (map (\<lambda>x. length (get_sensors_list x 0)) mods)
           in map_option (\<lambda>(k, L, M). m\<lparr>maps := M, global_sensors_list := Some L, global_sensors_count := int n\<rparr>)
                (list_modules 0 mods 0 (replicate n blank) (maps m)))"

definition module__get_sensors_list :: "sensors_env \<Rightarrow> sensor \<Rightarrow> multihal \<Rightarrow> (int \<times> sensor list option \<times> multihal) option" where
  "module__get_sensors_list E blank m =
     map_option (\<lambda>m. (global_sensors_count m, global_sensors_list m, m)) (lazy_init_sensors_list E blank m)"

section \<open>Opening\<close>

text \<open>
  Where the writer thread of a device is: before the lock, asleep or woken on the condition of its queue, in \<open>poll\<close> of
  its device with the buffer and its size, or about to mark the events polled.
\<close>

datatype writer =
    W_TOP
  | W_SLEEP
  | W_WOKEN
  | W_POLL "nat option" int
  | W_MARK "nat option" int int

record sensors_poll_context =
  sub_hw_devices :: "sub_device list"
  queues :: "sensors_event sensor_queue list"
  threads :: "writer list"
  nextReadIndex :: nat

definition SENSOR_EVENT_QUEUE_CAPACITY :: int where
  "SENSOR_EVENT_QUEUE_CAPACITY = 36"

definition addSubHwDevice :: "sensors_event list \<Rightarrow> sub_device \<Rightarrow> sensors_poll_context \<Rightarrow> sensors_poll_context" where
  "addSubHwDevice garbage sub_hw_device c = c\<lparr>sub_hw_devices := sub_hw_devices c @ [sub_hw_device],
     queues := queues c @ [SensorEventQueue SENSOR_EVENT_QUEUE_CAPACITY garbage], threads := threads c @ [W_TOP]\<rparr>"

primrec open_devices :: "sensors_event list \<Rightarrow> sub_module list \<Rightarrow> sensors_poll_context \<Rightarrow> sensors_poll_context" where
  "open_devices garbage [] c = c"
| "open_devices garbage (m # ms) c =
     open_devices garbage ms (case open_module m of None \<Rightarrow> c | Some d \<Rightarrow> addSubHwDevice garbage d c)"

definition open_sensors :: "sensors_env \<Rightarrow> sensors_event list \<Rightarrow> multihal \<Rightarrow> sensors_poll_context \<times> multihal" where
  "open_sensors E garbage m =
     (let m = lazy_init_modules E m;
          mods = (case sub_hw_modules m of None \<Rightarrow> [] | Some ms \<Rightarrow> ms)
      in (open_devices garbage mods \<lparr>sub_hw_devices = [], queues = [], threads = [], nextReadIndex = 0\<rparr>, m))"

section \<open>Calls to the sub-modules\<close>

definition get_device_by_handle :: "handle_maps \<Rightarrow> sensors_poll_context \<Rightarrow> int \<Rightarrow> sub_device option" where
  "get_device_by_handle M c global_handle =
     (let sub_index = get_module_index M global_handle in
      if sub_index < 0 \<or> sub_index \<ge> int (length (sub_hw_devices c)) then None
      else Some (sub_hw_devices c ! nat sub_index))"

definition get_device_version_by_handle :: "handle_maps \<Rightarrow> sensors_poll_context \<Rightarrow> int \<Rightarrow> int" where
  "get_device_version_by_handle M c h = (case get_device_by_handle M c h of None \<Rightarrow> -1 | Some v0 \<Rightarrow> version v0)"

definition halIsCompliant :: "sensors_h \<Rightarrow> handle_maps \<Rightarrow> sensors_poll_context \<Rightarrow> int \<Rightarrow> bool" where
  "halIsCompliant H M c h = (let v = get_device_version_by_handle M c h in v \<noteq> -1 \<and> v \<ge> SENSORS_DEVICE_API_VERSION_1_3 H)"

definition halIsAPILevelCompliant :: "handle_maps \<Rightarrow> sensors_poll_context \<Rightarrow> int \<Rightarrow> int \<Rightarrow> bool" where
  "halIsAPILevelCompliant M c h level = (let v = get_device_version_by_handle M c h in v \<noteq> -1 \<and> v \<ge> level)"

text \<open>\<open>answer\<close> is what the sub-module returns.\<close>

definition activate :: "sensors_h \<Rightarrow> (hal_call \<Rightarrow> int) \<Rightarrow> handle_maps \<Rightarrow> sensors_poll_context \<Rightarrow> int \<Rightarrow> int \<Rightarrow> int \<times> hal_call list" where
  "activate H answer M c h enabled =
     (let local_handle = get_local_handle M h in
      case get_device_by_handle M c h of
        Some v0 \<Rightarrow>
          if halIsCompliant H M c h \<and> local_handle \<ge> 0
          then (answer (CallActivate (dev v0) local_handle enabled), [CallActivate (dev v0) local_handle enabled])
          else (- EINVAL, [])
      | None \<Rightarrow> (- EINVAL, []))"

definition setDelay :: "sensors_h \<Rightarrow> (hal_call \<Rightarrow> int) \<Rightarrow> handle_maps \<Rightarrow> sensors_poll_context \<Rightarrow> int \<Rightarrow> int \<Rightarrow> int \<times> hal_call list" where
  "setDelay H answer M c h ns =
     (let local_handle = get_local_handle M h in
      case get_device_by_handle M c h of
        Some v0 \<Rightarrow>
          if halIsCompliant H M c h \<and> local_handle \<ge> 0
          then (answer (CallSetDelay (dev v0) local_handle ns), [CallSetDelay (dev v0) local_handle ns])
          else (- EINVAL, [])
      | None \<Rightarrow> (- EINVAL, []))"

definition batch :: "sensors_h \<Rightarrow> (hal_call \<Rightarrow> int) \<Rightarrow> handle_maps \<Rightarrow> sensors_poll_context \<Rightarrow> int \<Rightarrow> int \<Rightarrow> int \<Rightarrow> int
    \<Rightarrow> int \<times> hal_call list" where
  "batch H answer M c h flags period_ns timeout =
     (let local_handle = get_local_handle M h in
      case get_device_by_handle M c h of
        Some v1 \<Rightarrow>
          if halIsCompliant H M c h \<and> local_handle \<ge> 0
          then (let call = CallBatch (dev v1) local_handle flags period_ns timeout in (answer call, [call]))
          else (- EINVAL, [])
      | None \<Rightarrow> (- EINVAL, []))"

definition flush_sensor :: "sensors_h \<Rightarrow> (hal_call \<Rightarrow> int) \<Rightarrow> handle_maps \<Rightarrow> sensors_poll_context \<Rightarrow> int \<Rightarrow> int \<times> hal_call list" where
  "flush_sensor H answer M c h =
     (let local_handle = get_local_handle M h in
      case get_device_by_handle M c h of
        Some v1 \<Rightarrow>
          if halIsCompliant H M c h \<and> local_handle \<ge> 0
          then (answer (CallFlush (dev v1) local_handle), [CallFlush (dev v1) local_handle])
          else (- EINVAL, [])
      | None \<Rightarrow> (- EINVAL, []))"

text \<open>\<open>proxy\<close> is the pointer the framework passed, that of the proxy device; it goes on to the sub-module as it is.\<close>

definition inject_sensor_data :: "sensors_h \<Rightarrow> (hal_call \<Rightarrow> int) \<Rightarrow> handle_maps \<Rightarrow> sensors_poll_context \<Rightarrow> nat \<Rightarrow> sensors_event
    \<Rightarrow> int \<times> hal_call list" where
  "inject_sensor_data H answer M c proxy data =
     (let local_handle = get_local_handle M (sensor data) in
      case get_device_by_handle M c (sensor data) of
        Some v1 \<Rightarrow>
          if halIsAPILevelCompliant M c (sensor data) (SENSORS_DEVICE_API_VERSION_1_4 H) \<and> local_handle \<ge> 0
          then (answer (CallInject (dev v1) proxy data), [CallInject (dev v1) proxy data])
          else (- EINVAL, [])
      | None \<Rightarrow> (- EINVAL, []))"

definition close_context :: "sensors_poll_context \<Rightarrow> int \<times> hal_call list" where
  "close_context c = (0, map (\<lambda>d. CallClose (dev d)) (sub_hw_devices c))"

text \<open>The methods of the proxy device, \<open>device__activate\<close> to \<open>device__inject_sensor_data\<close>.\<close>

datatype hal_request =
    Activate int int
  | SetDelay int int
  | Batch int int int int
  | Flush int
  | Inject nat sensors_event

fun hal_serve :: "sensors_h \<Rightarrow> (hal_call \<Rightarrow> int) \<Rightarrow> handle_maps \<Rightarrow> sensors_poll_context \<Rightarrow> hal_request \<Rightarrow> int \<times> hal_call list" where
  "hal_serve H answer M c (Activate h enabled) = activate H answer M c h enabled"
| "hal_serve H answer M c (SetDelay h ns) = setDelay H answer M c h ns"
| "hal_serve H answer M c (Batch h flags period_ns timeout) = batch H answer M c h flags period_ns timeout"
| "hal_serve H answer M c (Flush h) = flush_sensor H answer M c h"
| "hal_serve H answer M c (Inject proxy data) = inject_sensor_data H answer M c proxy data"

section \<open>Events\<close>

definition copy_event_remap_handle :: "sensors_h \<Rightarrow> handle_maps \<Rightarrow> sensors_event \<Rightarrow> int \<Rightarrow> sensors_event" where
  "copy_event_remap_handle H M src sub_index =
     (if ev_type src = SENSOR_TYPE_META_DATA H
      then src\<lparr>meta_sensor := get_global_handle M (FullHandle sub_index (meta_sensor src))\<rparr>
      else src\<lparr>sensor := get_global_handle M (FullHandle sub_index (sensor src))\<rparr>)"

section \<open>The handles assigned\<close>

text \<open>The sensors of all modules in order, each with the index of its module.\<close>

fun all_sensors :: "int \<Rightarrow> sub_module list \<Rightarrow> (int \<times> sensor) list" where
  "all_sensors i [] = []"
| "all_sensors i (m # ms) = map (Pair i) (get_sensors_list m 0) @ all_sensors (i + 1) ms"

text \<open>\<open>static_list\<close>: a module always gives the same list, as the interface of sensor HALs documents.\<close>

definition static_list :: "sub_module \<Rightarrow> bool" where
  "static_list m \<longleftrightarrow> get_sensors_list m 1 = get_sensors_list m 0"

definition full_of :: "int \<times> sensor \<Rightarrow> full_handle" where
  "full_of x = FullHandle (fst x) (handle (snd x))"

text \<open>\<open>maps_of xs M\<close>: the handles from 1 on stand for \<open>xs\<close>; a local handle that a module lists twice belongs to one of them.\<close>

definition maps_of :: "(int \<times> sensor) list \<Rightarrow> handle_maps \<Rightarrow> bool" where
  "maps_of xs M \<longleftrightarrow> next_global_handle M = int (length xs) + 1
     \<and> (\<forall>g. global_to_full M g = (if 1 \<le> g \<and> g \<le> int (length xs) then Some (full_of (xs ! nat (g - 1))) else None))
     \<and> dom (full_to_global M) = full_of ` set xs
     \<and> (\<forall>f g. full_to_global M f = Some g \<longrightarrow> global_to_full M g = Some f)"

definition listed :: "int \<Rightarrow> (int \<times> sensor) list \<Rightarrow> sensor list" where
  "listed g xs = map (\<lambda>k. (snd (xs ! k))\<lparr>handle := g + int k\<rparr>) [0..<length xs]"

lemma maps_of_fresh: "maps_of [] fresh_maps"
  by (simp add: maps_of_def fresh_maps_def)

lemma assign_fst: "maps_of xs M \<Longrightarrow> fst (assign_global_handle i h M) = int (length xs) + 1"
  by (simp add: maps_of_def assign_global_handle_def Let_def)

lemma maps_of_assign:
  assumes xs: "maps_of xs M" and a: "assign_global_handle i h M = (g, M')" and h: "handle s = h"
  shows "maps_of (xs @ [(i, s)]) M'"
proof -
  let ?f = "FullHandle i h"
  have g: "g = int (length xs) + 1" using assign_fst [OF xs, of i h] a by simp
  have M': "next_global_handle M' = g + 1" "global_to_full M' = (global_to_full M)(g \<mapsto> ?f)"
    "full_to_global M' = (full_to_global M)(?f \<mapsto> g)"
    using a by (auto simp: assign_global_handle_def Let_def)
  have inv: "\<forall>f k. full_to_global M f = Some k \<longrightarrow> global_to_full M k = Some f"
    using xs unfolding maps_of_def by blast
  have new: "global_to_full M g = None" using xs g by (simp add: maps_of_def)
  have "global_to_full M' k = (if 1 \<le> k \<and> k \<le> int (length (xs @ [(i, s)])) then Some (full_of ((xs @ [(i, s)]) ! nat (k - 1))) else None)"
    for k
  proof (cases "k = g")
    case True
    then show ?thesis using g h M'(2) by (simp add: full_of_def nth_append)
  next
    case False
    then have "global_to_full M' k = global_to_full M k" using M'(2) by simp
    then show ?thesis using xs g False by (auto simp: maps_of_def nth_append)
  qed
  moreover have "global_to_full M' k = Some f" if "full_to_global M' f = Some k" for f k
  proof (cases "f = ?f")
    case True
    then show ?thesis using that M' by simp
  next
    case False
    then have "global_to_full M k = Some f" using that M'(3) inv by simp
    then show ?thesis using new M'(2) by auto
  qed
  moreover have "dom (full_to_global M') = full_of ` set (xs @ [(i, s)])"
    using xs M'(3) h by (auto simp: maps_of_def full_of_def)
  ultimately show ?thesis using M'(1) g by (simp add: maps_of_def)
qed

lemma list_module_ok:
  assumes "maps_of xs M" "length xs \<le> length L" "length xs + length ss \<le> length L" "take (length xs) L = listed 1 xs"
  shows "\<exists>L' M'. list_module i ss (length xs) L M = Some (length xs + length ss, L', M') \<and> maps_of (xs @ map (Pair i) ss) M'
    \<and> length L' = length L \<and> take (length xs + length ss) L' = listed 1 (xs @ map (Pair i) ss)"
  using assms
proof (induction ss arbitrary: xs L M)
  case Nil
  then show ?case by simp
next
  case (Cons s ss)
  obtain M' where M': "assign_global_handle i (handle s) M = (int (length xs) + 1, M')"
    using assign_fst [OF Cons.prems(1)] by (metis prod.collapse)
  let ?L = "L[length xs := s\<lparr>handle := int (length xs) + 1\<rparr>]"
  have "maps_of (xs @ [(i, s)]) M'" by (rule maps_of_assign [OF Cons.prems(1) M']) simp
  moreover have "take (length (xs @ [(i, s)])) ?L = listed 1 (xs @ [(i, s)])"
    using Cons.prems by (auto simp: listed_def take_Suc_conv_app_nth nth_append)
  ultimately show ?case
    using Cons.IH [of "xs @ [(i, s)]" M' ?L] Cons.prems(3) M' by auto
qed

lemma list_modules_ok:
  assumes "maps_of xs M" "length xs + length (all_sensors i ms) \<le> length L" "take (length xs) L = listed 1 xs" "list_all static_list ms"
  shows "\<exists>L' M'. list_modules i ms (length xs) L M = Some (length xs + length (all_sensors i ms), L', M')
    \<and> maps_of (xs @ all_sensors i ms) M' \<and> length L' = length L
    \<and> take (length xs + length (all_sensors i ms)) L' = listed 1 (xs @ all_sensors i ms)"
  using assms
proof (induction ms arbitrary: i xs L M)
  case Nil
  then show ?case by simp
next
  case (Cons m ms)
  let ?ss = "get_sensors_list m 0"
  obtain L1 M1 where 1: "list_module i ?ss (length xs) L M = Some (length xs + length ?ss, L1, M1)"
    "maps_of (xs @ map (Pair i) ?ss) M1" "length L1 = length L"
    "take (length xs + length ?ss) L1 = listed 1 (xs @ map (Pair i) ?ss)"
    using list_module_ok [of xs M L ?ss i] Cons.prems by auto
  then show ?case
    using Cons.IH [of "xs @ map (Pair i) ?ss" M1 "i + 1" L1] Cons.prems by (auto simp: static_list_def add.assoc)
qed

lemma length_all_sensors: "length (all_sensors i ms) = sum_list (map (\<lambda>x. length (get_sensors_list x 0)) ms)"
  by (induction i ms rule: all_sensors.induct) auto

definition loaded :: "sensors_env \<Rightarrow> sub_module list" where
  "loaded E = List.map_filter (load E) (get_so_paths E)"

lemma lazy_init_ok:
  assumes "list_all static_list (loaded E)" "sub_hw_modules m \<in> {None, Some (loaded E)}" "maps m = fresh_maps" "global_sensors_list m = None"
  shows "\<exists>m'. lazy_init_sensors_list E blank m = Some m' \<and> maps_of (all_sensors 0 (loaded E)) (maps m')
    \<and> global_sensors_list m' = Some (listed 1 (all_sensors 0 (loaded E)))
    \<and> global_sensors_count m' = int (length (all_sensors 0 (loaded E))) \<and> sub_hw_modules m' = Some (loaded E)"
proof -
  let ?xs = "all_sensors 0 (loaded E)"
  obtain L M where L: "list_modules 0 (loaded E) 0 (replicate (length ?xs) blank) fresh_maps = Some (length ?xs, L, M)"
    "maps_of ?xs M" "length L = length ?xs" "take (length ?xs) L = listed 1 ?xs"
    using list_modules_ok [OF maps_of_fresh, where i = 0 and ms = "loaded E" and L = "replicate (length ?xs) blank"] assms(1)
    by (auto simp: listed_def)
  have "sub_hw_modules (lazy_init_modules E m) = Some (loaded E)" "maps (lazy_init_modules E m) = fresh_maps"
    using assms(2,3) by (auto simp: lazy_init_modules_def loaded_def)
  then show ?thesis
    using L assms(4) by (simp add: lazy_init_sensors_list_def Let_def length_all_sensors)
qed

section \<open>The devices opened\<close>

lemma open_devices_devs: "sub_hw_devices (open_devices g ms c) = sub_hw_devices c @ List.map_filter open_module ms"
  by (induction ms arbitrary: c) (auto simp: addSubHwDevice_def map_filter_simps split: option.splits)

lemma open_sensors_devs:
  "sub_hw_modules m \<in> {None, Some (loaded E)} \<Longrightarrow>
   sub_hw_devices (fst (open_sensors E g m)) = List.map_filter open_module (loaded E)"
  by (auto simp: open_sensors_def lazy_init_modules_def loaded_def open_devices_devs Let_def)

lemma all_sensors_index: "(j, s) \<in> set (all_sensors i ms) \<Longrightarrow> i \<le> j \<and> j < i + int (length ms)"
  by (induction i ms rule: all_sensors.induct) auto

end
