(* ===== verification/MultiPoll.thy ===== *)
theory MultiPoll
  imports MultiHal
begin

text \<open>
  The event path of the multiplexing sensor HAL, \<open>hardware/sensors/multihal.cpp\<close>: \<open>writerTask\<close>, one thread for each
  sub-module, and \<open>poll\<close> of the proxy device, with the mutex and the two condition variables.

  A step is what a thread does between two points where it holds no lock. A writer fills the region it was given slot
  by slot while others run. A thread asleep on a condition is woken by a broadcast or, as POSIX allows, for no reason;
  a woken thread goes on when it gets the mutex. Code that would leave an array gives \<open>None\<close>.
\<close>

section \<open>State\<close>

text \<open>
  \<open>poll_asleep\<close> and \<open>poll_woken\<close> give, for a thread in \<open>poll\<close>, its \<open>maxReads\<close>. Histories for the specification:
  \<open>written\<close>, the events each writer marked, \<open>taken\<close>, the events taken out with the index of their queue, and
  \<open>poll_results\<close>, what \<open>poll\<close> returned.
\<close>

record sensors_sys =
  ctx :: sensors_poll_context
  waiting_for_data :: bool
  poll_asleep :: "nat \<rightharpoonup> int"
  poll_woken :: "nat \<rightharpoonup> int"
  written :: "nat \<Rightarrow> sensors_event list"
  taken :: "(nat \<times> sensors_event) list"
  poll_results :: "sensors_event list list"

definition start_sys :: "sensors_poll_context \<Rightarrow> sensors_sys" where
  "start_sys c = \<lparr>ctx = c, waiting_for_data = False, poll_asleep = Map.empty, poll_woken = Map.empty,
     written = (\<lambda>_. []), taken = [], poll_results = []\<rparr>"

abbreviation rings :: "sensors_sys \<Rightarrow> sensors_event sensor_queue list" where
  "rings s \<equiv> queues (ctx s)"

abbreviation writers :: "sensors_sys \<Rightarrow> writer list" where
  "writers s \<equiv> threads (ctx s)"

definition set_writer :: "nat \<Rightarrow> writer \<Rightarrow> sensors_sys \<Rightarrow> sensors_sys" where
  "set_writer i w s = s\<lparr>ctx := (ctx s)\<lparr>threads := (writers s)[i := w]\<rparr>\<rparr>"

definition set_ring :: "nat \<Rightarrow> sensors_event sensor_queue \<Rightarrow> sensors_sys \<Rightarrow> sensors_sys" where
  "set_ring i q s = s\<lparr>ctx := (ctx s)\<lparr>queues := (rings s)[i := q]\<rparr>\<rparr>"

section \<open>The writer thread\<close>

text \<open>Under the lock: wait for space, or get a region and go to \<open>poll\<close> of the device.\<close>

definition writer_top :: "nat \<Rightarrow> sensors_sys \<Rightarrow> sensors_sys option" where
  "writer_top i s =
     (if waitForSpace (rings s ! i) then Some (set_writer i W_SLEEP s)
      else do {
        (buffer, bufferSize) \<leftarrow> getWritableRegion SENSOR_EVENT_QUEUE_CAPACITY (rings s ! i);
        Some (set_writer i (W_POLL buffer bufferSize) s) })"

text \<open>The device writes the event at place \<open>j\<close> of its buffer.\<close>

definition writer_fill :: "nat \<Rightarrow> nat \<Rightarrow> sensors_event \<Rightarrow> sensors_sys \<Rightarrow> sensors_sys option" where
  "writer_fill i j e s = (case writers s ! i of
     W_POLL (Some buffer) bufferSize \<Rightarrow> map_option (\<lambda>q. set_ring i q s) (write_slot (buffer + j) e (rings s ! i))
   | _ \<Rightarrow> None)"

definition writer_polled :: "nat \<Rightarrow> int \<Rightarrow> sensors_sys \<Rightarrow> sensors_sys" where
  "writer_polled i eventsPolled s = (case writers s ! i of
     W_POLL buffer bufferSize \<Rightarrow>
       set_writer i (if eventsPolled \<le> 0 then W_TOP else W_MARK buffer bufferSize eventsPolled) s
   | _ \<Rightarrow> s)"

text \<open>\<open>pthread_cond_broadcast\<close> on \<open>data_available_cond\<close>.\<close>

definition broadcast_data :: "sensors_sys \<Rightarrow> sensors_sys" where
  "broadcast_data s = s\<lparr>poll_woken := poll_woken s ++ poll_asleep s, poll_asleep := Map.empty\<rparr>"

definition writer_mark :: "nat \<Rightarrow> sensors_sys \<Rightarrow> sensors_sys" where
  "writer_mark i s = (case writers s ! i of
     W_MARK buffer bufferSize eventsPolled \<Rightarrow>
       (let q = rings s ! i;
            s = set_ring i (markAsWritten eventsPolled q) s;
            s = s\<lparr>written := (written s)(i := written s i @ (case buffer of None \<Rightarrow> [] | Some b \<Rightarrow> cells q b eventsPolled))\<rparr>;
            s = (if waiting_for_data s then broadcast_data s else s)
        in set_writer i W_TOP s)
   | _ \<Rightarrow> s)"

section \<open>poll\<close>

definition advance :: "sensors_sys \<Rightarrow> sensors_sys" where
  "advance s = s\<lparr>ctx := (ctx s)\<lparr>nextReadIndex := (nextReadIndex (ctx s) + 1) mod length (rings s)\<rparr>\<rparr>"

text \<open>\<open>dequeue\<close> of queue \<open>i\<close>: its broadcast wakes the writer.\<close>

definition take_event :: "nat \<Rightarrow> sensors_event \<Rightarrow> sensors_sys \<Rightarrow> sensors_sys" where
  "take_event i event s =
     (let (wake, q) = dequeue_event (rings s ! i);
          s = set_ring i q s;
          s = (if wake \<and> writers s ! i = W_SLEEP then set_writer i W_WOKEN s else s)
      in s\<lparr>taken := taken s @ [(i, event)]\<rparr>)"

text \<open>
  The inner loop. \<open>data\<close> holds the events read so far; the code writes an event into the caller's buffer before it knows
  that it is dropped, and the next one overwrites it there.
\<close>

partial_function (option) scan_queues ::
    "sensors_h \<Rightarrow> handle_maps \<Rightarrow> int \<Rightarrow> nat \<Rightarrow> sensors_event list \<Rightarrow> sensors_sys \<Rightarrow> (sensors_event list \<times> sensors_sys) option" where
  "scan_queues H M maxReads empties data s =
     (if empties < length (rings s) \<and> int (length data) < maxReads
      then if nextReadIndex (ctx s) \<ge> length (rings s) then None
        else let i = nextReadIndex (ctx s) in
          (case peek_event (rings s ! i) of
             None \<Rightarrow> scan_queues H M maxReads (empties + 1) data (advance s)
           | Some event \<Rightarrow>
               let e = copy_event_remap_handle H M event (int i);
                   data = (if sensor e = -1 then data else data @ [e])
               in scan_queues H M maxReads 0 data (advance (take_event i event s)))
      else Some (data, s))"

text \<open>One turn of the outer loop in thread \<open>t\<close>: return the events read, or sleep on \<open>data_available_cond\<close>.\<close>

definition poll_turn :: "sensors_h \<Rightarrow> handle_maps \<Rightarrow> nat \<Rightarrow> int \<Rightarrow> sensors_sys \<Rightarrow> sensors_sys option" where
  "poll_turn H M t maxReads s = do {
     (data, s) \<leftarrow> scan_queues H M maxReads 0 [] s;
     Some (if data = [] then s\<lparr>waiting_for_data := True, poll_asleep := (poll_asleep s)(t \<mapsto> maxReads)\<rparr>
           else s\<lparr>poll_results := poll_results s @ [data]\<rparr>) }"

definition poll_resume :: "sensors_h \<Rightarrow> handle_maps \<Rightarrow> nat \<Rightarrow> sensors_sys \<Rightarrow> sensors_sys option" where
  "poll_resume H M t s = (case poll_woken s t of
     None \<Rightarrow> None
   | Some maxReads \<Rightarrow> poll_turn H M t maxReads (s\<lparr>waiting_for_data := False, poll_woken := (poll_woken s)(t := None)\<rparr>))"

section \<open>Interleavings\<close>

text \<open>The device returns at most as many events as its buffer holds, as \<open>hardware/sensors.h\<close> documents.\<close>

inductive hal_step :: "sensors_h \<Rightarrow> handle_maps \<Rightarrow> sensors_sys \<Rightarrow> sensors_sys \<Rightarrow> bool" for H M where
  top: "i < length (writers s) \<Longrightarrow> writers s ! i \<in> {W_TOP, W_WOKEN} \<Longrightarrow> writer_top i s = Some s' \<Longrightarrow> hal_step H M s s'"
| fill: "i < length (writers s) \<Longrightarrow> writers s ! i = W_POLL b n \<Longrightarrow> int j < n \<Longrightarrow> writer_fill i j e s = Some s' \<Longrightarrow> hal_step H M s s'"
| polled: "i < length (writers s) \<Longrightarrow> writers s ! i = W_POLL b n \<Longrightarrow> m \<le> n \<Longrightarrow> hal_step H M s (writer_polled i m s)"
| mark: "i < length (writers s) \<Longrightarrow> writers s ! i = W_MARK b n m \<Longrightarrow> hal_step H M s (writer_mark i s)"
| writer_spurious: "i < length (writers s) \<Longrightarrow> writers s ! i = W_SLEEP \<Longrightarrow> hal_step H M s (set_writer i W_WOKEN s)"
| poll: "poll_asleep s t = None \<Longrightarrow> poll_woken s t = None \<Longrightarrow> 0 < maxReads \<Longrightarrow> poll_turn H M t maxReads s = Some s' \<Longrightarrow> hal_step H M s s'"
| poll_spurious: "poll_asleep s t = Some m \<Longrightarrow>
    hal_step H M s (s\<lparr>poll_asleep := (poll_asleep s)(t := None), poll_woken := (poll_woken s)(t \<mapsto> m)\<rparr>)"
| resume: "poll_resume H M t s = Some s' \<Longrightarrow> hal_step H M s s'"

inductive hal_reachable :: "sensors_h \<Rightarrow> handle_maps \<Rightarrow> sensors_poll_context \<Rightarrow> sensors_sys \<Rightarrow> bool" for H M c where
  start: "hal_reachable H M c (start_sys c)"
| step: "hal_reachable H M c s \<Longrightarrow> hal_step H M s s' \<Longrightarrow> hal_reachable H M c s'"

section \<open>Invariant\<close>

text \<open>\<open>from_queue i\<close>: the events of queue \<open>i\<close> among those taken; \<open>upstream\<close>: what \<open>poll\<close> hands on of them.\<close>

definition from_queue :: "nat \<Rightarrow> (nat \<times> sensors_event) list \<Rightarrow> sensors_event list" where
  "from_queue i xs = map snd (filter (\<lambda>x. fst x = i) xs)"

definition upstream :: "sensors_h \<Rightarrow> handle_maps \<Rightarrow> (nat \<times> sensors_event) list \<Rightarrow> sensors_event list" where
  "upstream H M xs = filter (\<lambda>e. sensor e \<noteq> -1) (map (\<lambda>(i, e). copy_event_remap_handle H M e (int i)) xs)"

fun writer_ok :: "sensors_event sensor_queue \<Rightarrow> writer \<Rightarrow> bool" where
  "writer_ok q W_TOP = True"
| "writer_ok q W_WOKEN = True"
| "writer_ok q W_SLEEP = (mSize q = mCapacity q)"
| "writer_ok q (W_POLL b n) = (\<exists>a. b = Some a \<and> writable q a n)"
| "writer_ok q (W_MARK b n m) = (\<exists>a. b = Some a \<and> writable q a n \<and> 1 \<le> m \<and> m \<le> n)"

definition ring_ok :: "sensors_sys \<Rightarrow> nat \<Rightarrow> bool" where
  "ring_ok s i \<longleftrightarrow> queue_ok (rings s ! i) \<and> mCapacity (rings s ! i) = SENSOR_EVENT_QUEUE_CAPACITY
     \<and> writer_ok (rings s ! i) (writers s ! i) \<and> written s i = from_queue i (taken s) @ readable (rings s ! i)"

definition rings_ok :: "sensors_sys \<Rightarrow> bool" where
  "rings_ok s \<longleftrightarrow> length (writers s) = length (rings s) \<and> (rings s = [] \<or> nextReadIndex (ctx s) < length (rings s))
     \<and> (\<forall>i < length (rings s). ring_ok s i)"

definition hal_ok :: "sensors_h \<Rightarrow> handle_maps \<Rightarrow> sensors_sys \<Rightarrow> bool" where
  "hal_ok H M s \<longleftrightarrow> rings_ok s \<and> concat (poll_results s) = upstream H M (taken s)
     \<and> (\<forall>t m. poll_asleep s t = Some m \<or> poll_woken s t = Some m \<longrightarrow> 0 < m)
     \<and> (poll_asleep s \<noteq> Map.empty \<longrightarrow> waiting_for_data s \<and> (\<forall>i < length (rings s). readable (rings s ! i) = []))"

lemma rings_okD: "rings_ok s \<Longrightarrow> i < length (rings s) \<Longrightarrow> ring_ok s i"
  by (simp add: rings_ok_def)

lemma set_writer_simps [simp]:
  "rings (set_writer i w s) = rings s" "writers (set_writer i w s) = (writers s)[i := w]"
  "nextReadIndex (ctx (set_writer i w s)) = nextReadIndex (ctx s)" "waiting_for_data (set_writer i w s) = waiting_for_data s"
  "poll_asleep (set_writer i w s) = poll_asleep s" "poll_woken (set_writer i w s) = poll_woken s"
  "written (set_writer i w s) = written s" "taken (set_writer i w s) = taken s" "poll_results (set_writer i w s) = poll_results s"
  by (simp_all add: set_writer_def)

lemma set_ring_simps [simp]:
  "rings (set_ring i q s) = (rings s)[i := q]" "writers (set_ring i q s) = writers s"
  "nextReadIndex (ctx (set_ring i q s)) = nextReadIndex (ctx s)" "waiting_for_data (set_ring i q s) = waiting_for_data s"
  "poll_asleep (set_ring i q s) = poll_asleep s" "poll_woken (set_ring i q s) = poll_woken s"
  "written (set_ring i q s) = written s" "taken (set_ring i q s) = taken s" "poll_results (set_ring i q s) = poll_results s"
  by (simp_all add: set_ring_def)

lemma advance_simps [simp]:
  "rings (advance s) = rings s" "writers (advance s) = writers s"
  "nextReadIndex (ctx (advance s)) = (nextReadIndex (ctx s) + 1) mod length (rings s)" "waiting_for_data (advance s) = waiting_for_data s"
  "poll_asleep (advance s) = poll_asleep s" "poll_woken (advance s) = poll_woken s"
  "written (advance s) = written s" "taken (advance s) = taken s" "poll_results (advance s) = poll_results s"
  by (simp_all add: advance_def)

lemma from_queue_snoc [simp]: "from_queue i (xs @ [(j, e)]) = from_queue i xs @ (if j = i then [e] else [])"
  by (simp add: from_queue_def)

lemma upstream_snoc: "upstream H M (xs @ [(i, e)]) =
   upstream H M xs @ (let e' = copy_event_remap_handle H M e (int i) in if sensor e' = -1 then [] else [e'])"
  by (simp add: upstream_def Let_def)

lemma from_queue_Nil [simp]: "from_queue i [] = []"
  by (simp add: from_queue_def)

lemma upstream_Nil [simp]: "upstream H M [] = []"
  by (simp add: upstream_def)

text \<open>A change of one queue, of its writer and of its histories keeps the others.\<close>

lemma rings_ok_change:
  assumes "rings_ok s" "i < length (rings s)" "rings s' = (rings s)[i := q]" "writers s' = (writers s)[i := w]"
    "nextReadIndex (ctx s') = nextReadIndex (ctx s)" "\<And>j. j \<noteq> i \<Longrightarrow> written s' j = written s j"
    "\<And>j. j \<noteq> i \<Longrightarrow> from_queue j (taken s') = from_queue j (taken s)"
    "queue_ok q" "mCapacity q = mCapacity (rings s ! i)" "writer_ok q w" "written s' i = from_queue i (taken s') @ readable q"
  shows "rings_ok s'"
  using assms by (auto simp: rings_ok_def ring_ok_def nth_list_update)

lemma rings_ok_cong:
  "ctx s' = ctx s \<Longrightarrow> written s' = written s \<Longrightarrow> taken s' = taken s \<Longrightarrow> rings_ok s' = rings_ok s"
  by (simp add: rings_ok_def ring_ok_def)

lemma rings_ok_advance: "rings_ok s \<Longrightarrow> rings_ok (advance s)"
  by (cases "rings s = []") (auto simp: rings_ok_def ring_ok_def)

end
