(* ===== verification/MultiPollInv.thy ===== *)
theory MultiPollInv
  imports MultiPoll
begin

text \<open>
  The steps of \<open>MultiPoll\<close> keep its invariant: what each step of a writer does to its queue, that the loop of \<open>poll\<close>
  ends and what it takes out, and the invariant of every reachable state. The queues are used through the laws of
  \<open>event_ring\<close>.
\<close>

section \<open>The writer\<close>

lemma open_ok:
  assumes "length garbage = nat SENSOR_EVENT_QUEUE_CAPACITY"
  shows "hal_ok H M (start_sys (fst (open_sensors E garbage m)))"
proof -
  let ?ok = "\<lambda>c. rings_ok (start_sys c) \<and> nextReadIndex c = 0"
  have "?ok c \<Longrightarrow> ?ok (addSubHwDevice garbage d c)" for d c
    using ring_ok_new [of SENSOR_EVENT_QUEUE_CAPACITY garbage] assms
    by (auto simp: rings_ok_def ring_ok_def start_sys_def addSubHwDevice_def nth_append SENSOR_EVENT_QUEUE_CAPACITY_def
        SensorEventQueue_def less_Suc_eq)
  then have "?ok c \<Longrightarrow> ?ok (open_devices garbage ms c)" for ms c
    by (induction ms arbitrary: c) (auto split: option.splits)
  moreover have "?ok \<lparr>sub_hw_devices = [], queues = [], threads = [], nextReadIndex = 0\<rparr>"
    by (simp add: rings_ok_def start_sys_def)
  ultimately show ?thesis by (simp add: hal_ok_def open_sensors_def Let_def) (simp add: start_sys_def)
qed

lemma writer_step_ok:
  assumes "rings_ok s" "i < length (rings s)" "writer_ok (rings s ! i) w"
  shows "rings_ok (set_writer i w s)"
  using assms rings_okD [OF assms(1,2)]
  by (intro rings_ok_change [OF assms(1,2), of _ "rings s ! i" w]) (auto simp: ring_ok_def)

lemma top_ok:
  assumes "rings_ok s" "i < length (rings s)"
  shows "\<exists>w. writer_top i s = Some (set_writer i w s) \<and> rings_ok (set_writer i w s)"
proof (cases "waitForSpace (rings s ! i)")
  case True
  then show ?thesis using assms by (auto simp: writer_top_def waitForSpace_def intro!: writer_step_ok)
next
  case False
  have r: "queue_ok (rings s ! i)" "mCapacity (rings s ! i) = SENSOR_EVENT_QUEUE_CAPACITY"
    using rings_okD [OF assms] by (auto simp: ring_ok_def)
  then obtain a k where "getWritableRegion SENSOR_EVENT_QUEUE_CAPACITY (rings s ! i) = Some (Some a, k)" "writable (rings s ! i) a k"
    using region_writable [of "rings s ! i" SENSOR_EVENT_QUEUE_CAPACITY] False
    by (auto simp: waitForSpace_def queue_ok_def SENSOR_EVENT_QUEUE_CAPACITY_def INT_MAX_def)
  then show ?thesis using assms False by (auto simp: writer_top_def intro!: writer_step_ok)
qed

lemma fill_ok:
  assumes s: "rings_ok s" "i < length (rings s)" and w: "writers s ! i = W_POLL b n" "int j < n"
  shows "\<exists>q. writer_fill i j e s = Some (set_ring i q s) \<and> rings_ok (set_ring i q s) \<and> readable q = readable (rings s ! i)"
proof -
  obtain a where a: "b = Some a" "writable (rings s ! i) a n" "queue_ok (rings s ! i)"
    using rings_okD [OF s] w by (auto simp: ring_ok_def)
  then obtain q where q: "write_slot (a + j) e (rings s ! i) = Some q" "queue_ok q" "readable q = readable (rings s ! i)"
    "writable q a n" "mCapacity q = mCapacity (rings s ! i)"
    using write_readable [of "rings s ! i" a n j e] w by auto
  have "rings_ok (set_ring i q s)"
    using rings_okD [OF s] s q a w list_update_id [of "writers s" i]
    by (intro rings_ok_change [OF s, of _ q "W_POLL b n"]) (auto simp: ring_ok_def rings_ok_def)
  then show ?thesis using q a w by (auto simp: writer_fill_def)
qed

lemma polled_ok:
  assumes s: "rings_ok s" "i < length (rings s)" and w: "writers s ! i = W_POLL b n" "m \<le> n"
  shows "\<exists>w. writer_polled i m s = set_writer i w s \<and> rings_ok (set_writer i w s)"
  using rings_okD [OF s] w by (auto simp: writer_polled_def ring_ok_def intro!: writer_step_ok [OF s])

lemma mark_step_ok:
  assumes s: "rings_ok s" "i < length (rings s)" and w: "writers s ! i = W_MARK b n m"
  shows "rings_ok (writer_mark i s)"
proof -
  obtain a where a: "b = Some a" "writable (rings s ! i) a n" "queue_ok (rings s ! i)" "1 \<le> m" "m \<le> n"
    using rings_okD [OF s] w by (auto simp: ring_ok_def)
  then have q: "queue_ok (markAsWritten m (rings s ! i))"
    "readable (markAsWritten m (rings s ! i)) = readable (rings s ! i) @ cells (rings s ! i) a m"
    using ring.commit_content [of "rings s ! i" a n m] by auto
  then show ?thesis
    using rings_okD [OF s] w a
    by (intro rings_ok_change [OF s, of _ "markAsWritten m (rings s ! i)" W_TOP])
      (auto simp: ring_ok_def writer_mark_def Let_def broadcast_data_def, simp add: markAsWritten_def)
qed

section \<open>The reader\<close>

lemma take_event_ok:
  assumes s: "rings_ok s" "i < length (rings s)" and p: "peek_event (rings s ! i) = Some e"
  shows "rings_ok (take_event i e s)"
proof -
  let ?q = "rings s ! i"
  have q: "queue_ok ?q" "writer_ok ?q (writers s ! i)" "written s i = from_queue i (taken s) @ readable ?q"
    using rings_okD [OF s] by (auto simp: ring_ok_def)
  have ne: "mSize ?q \<noteq> 0" using p by (auto simp: peek_event_def)
  define w where "w = (if fst (dequeue_event ?q) \<and> writers s ! i = W_SLEEP then W_WOKEN else writers s ! i)"
  have "writer_ok (snd (dequeue_event ?q)) w"
    using q(2) ne ring.take_free [OF q(1)] by (cases "writers s ! i") (auto simp: w_def dequeue_event_def)
  then show ?thesis
    using q ring.take_ok [OF q(1)] ring.first_Some [OF q(1) p] s
    by (intro rings_ok_change [OF s, of _ "snd (dequeue_event ?q)" w])
      (auto simp: take_event_def w_def Let_def split_beta, simp add: dequeue_event_def)
qed

definition total :: "sensors_sys \<Rightarrow> nat" where
  "total s = sum_list (map (\<lambda>q. nat (mSize q)) (rings s))"

lemma total_take:
  assumes s: "rings_ok s" "i < length (rings s)" and p: "peek_event (rings s ! i) = Some e"
  shows "total (take_event i e s) < total s"
proof -
  let ?q = "rings s ! i" and ?f = "\<lambda>q. nat (mSize q)"
  have "nat (mSize (snd (dequeue_event ?q))) < nat (mSize ?q)"
    using rings_okD [OF s] p by (auto simp: ring_ok_def queue_ok_def peek_event_def dequeue_event_def split: if_splits)
  moreover have "sum_list (map ?f (rings s)) = ?f ?q + sum_list (map ?f (take i (rings s) @ drop (Suc i) (rings s)))"
    using s(2) by (subst (1) id_take_nth_drop [of i "rings s"]) auto
  moreover have "rings (take_event i e s) = (rings s)[i := snd (dequeue_event ?q)]"
    by (simp add: take_event_def Let_def split_beta)
  ultimately show ?thesis using s(2) by (simp add: total_def upd_conv_take_nth_drop)
qed

lemma turn_back: "i < n \<Longrightarrow> j < n \<Longrightarrow> \<exists>k<n. (i + k + 1) mod n = (j :: nat)"
proof (cases "i < j")
  case True
  then show "i < n \<Longrightarrow> j < n \<Longrightarrow> \<exists>k<n. (i + k + 1) mod n = j" by (intro exI [of _ "j - i - 1"]) auto
next
  case False
  then show "i < n \<Longrightarrow> j < n \<Longrightarrow> \<exists>k<n. (i + k + 1) mod n = j" by (intro exI [of _ "n + j - i - 1"]) auto
qed

text \<open>The queues the loop has found empty since it last found an event are still empty.\<close>

definition seen_empty :: "nat \<Rightarrow> sensors_sys \<Rightarrow> bool" where
  "seen_empty empties s \<longleftrightarrow> (\<forall>i < length (rings s). \<forall>k < empties.
     (i + k + 1) mod length (rings s) = nextReadIndex (ctx s) \<longrightarrow> readable (rings s ! i) = [])"

definition drained :: "sensors_sys \<Rightarrow> bool" where
  "drained s \<longleftrightarrow> (\<forall>i < length (rings s). readable (rings s ! i) = [])"

lemma seen_all: "rings_ok s \<Longrightarrow> seen_empty (length (rings s)) s \<Longrightarrow> drained s"
  unfolding drained_def
proof (intro allI impI)
  fix i
  assume s: "rings_ok s" "seen_empty (length (rings s)) s" "i < length (rings s)"
  then have "nextReadIndex (ctx s) < length (rings s)" by (auto simp: rings_ok_def)
  then obtain k where "k < length (rings s)" "(i + k + 1) mod length (rings s) = nextReadIndex (ctx s)"
    using turn_back [OF s(3)] by blast
  then show "readable (rings s ! i) = []" using s(2,3) unfolding seen_empty_def by blast
qed

lemma seen_advance:
  assumes "rings_ok s" "seen_empty k s" "readable (rings s ! nextReadIndex (ctx s)) = []"
  shows "seen_empty (k + 1) (advance s)"
  unfolding seen_empty_def
proof (intro allI impI)
  fix i l
  let ?n = "length (rings s)"
  assume i: "i < length (rings (advance s))" and l: "l < k + 1"
    and e: "(i + l + 1) mod length (rings (advance s)) = nextReadIndex (ctx (advance s))"
  have n: "nextReadIndex (ctx s) < ?n" using assms(1) i by (auto simp: rings_ok_def)
  have "(i + l + 1) mod ?n = (nextReadIndex (ctx s) + 1) mod ?n" using e by simp
  then have "Suc (i + l) mod ?n = Suc (nextReadIndex (ctx s)) mod ?n" by simp
  then have "(i + l) mod ?n = nextReadIndex (ctx s)" using n by (simp add: mod_Suc split: if_splits)
  then show "readable (rings (advance s) ! i) = []"
    using assms n i l by (cases l) (auto simp: seen_empty_def)
qed

lemma take_event_simps [simp]:
  "length (rings (take_event i e s)) = length (rings s)" "taken (take_event i e s) = taken s @ [(i, e)]"
  "nextReadIndex (ctx (take_event i e s)) = nextReadIndex (ctx s)" "waiting_for_data (take_event i e s) = waiting_for_data s"
  "poll_asleep (take_event i e s) = poll_asleep s" "poll_woken (take_event i e s) = poll_woken s"
  "written (take_event i e s) = written s" "poll_results (take_event i e s) = poll_results s"
  by (simp_all add: take_event_def Let_def split_beta)

text \<open>\<open>scanned s ts s'\<close>: the loop took \<open>ts\<close> out and changed nothing else that threads see.\<close>

definition scanned :: "sensors_sys \<Rightarrow> (nat \<times> sensors_event) list \<Rightarrow> sensors_sys \<Rightarrow> bool" where
  "scanned s ts s' \<longleftrightarrow> rings_ok s' \<and> length (rings s') = length (rings s) \<and> taken s' = taken s @ ts \<and> written s' = written s
     \<and> waiting_for_data s' = waiting_for_data s \<and> poll_asleep s' = poll_asleep s \<and> poll_woken s' = poll_woken s
     \<and> poll_results s' = poll_results s"

lemma scan_ok:
  assumes "rings_ok s" "seen_empty k s" "k \<le> length (rings s)"
  shows "\<exists>ts s'. scan_queues H M maxReads k data s = Some (data @ upstream H M ts, s') \<and> scanned s ts s'
    \<and> (int (length data) \<le> maxReads \<longrightarrow> int (length (data @ upstream H M ts)) \<le> maxReads)
    \<and> (int (length (data @ upstream H M ts)) < maxReads \<longrightarrow> drained s') \<and> (drained s \<longrightarrow> ts = [])"
  using assms
proof (induction "total s * (length (rings s) + 1) + (length (rings s) - k)" arbitrary: k data s rule: less_induct)
  case less
  let ?n = "length (rings s)" and ?i = "nextReadIndex (ctx s)"
  show ?case
  proof (cases "k < ?n \<and> int (length data) < maxReads")
    case False
    then have "scan_queues H M maxReads k data s = Some (data, s)" by (subst scan_queues.simps) auto
    moreover have "int (length data) < maxReads \<Longrightarrow> drained s" using False less.prems seen_all by auto
    ultimately show ?thesis using less.prems by (intro exI [of _ "[]"] exI [of _ s]) (simp add: scanned_def)
  next
    case True
    then have i: "?i < ?n" using less.prems(1) by (auto simp: rings_ok_def)
    have q: "queue_ok (rings s ! ?i)" using rings_okD [OF less.prems(1) i] by (simp add: ring_ok_def)
    show ?thesis
    proof (cases "peek_event (rings s ! ?i)")
      case None
      have "seen_empty (k + 1) (advance s)"
        using seen_advance [OF less.prems(1,2)] ring.first_None [OF q] None by simp
      moreover have "k + 1 \<le> length (rings (advance s))" "rings_ok (advance s)"
        using True rings_ok_advance [OF less.prems(1)] by simp_all
      moreover have "total (advance s) * (length (rings (advance s)) + 1) + (length (rings (advance s)) - (k + 1))
        < total s * (?n + 1) + (?n - k)"
      proof -
        have t: "total (advance s) = total s" by (simp add: total_def)
        have "?n - (k + 1) < ?n - k" using True by linarith
        then show ?thesis unfolding t advance_simps by (rule add_strict_left_mono)
      qed
      ultimately obtain ts s' where IH: "scan_queues H M maxReads (k + 1) data (advance s) = Some (data @ upstream H M ts, s')"
        "scanned (advance s) ts s'" "int (length data) \<le> maxReads \<longrightarrow> int (length (data @ upstream H M ts)) \<le> maxReads"
        "int (length (data @ upstream H M ts)) < maxReads \<longrightarrow> drained s'" "drained (advance s) \<longrightarrow> ts = []"
        using less.hyps [of "advance s" "k + 1" data] by blast
      moreover have "scan_queues H M maxReads k data s = scan_queues H M maxReads (k + 1) data (advance s)"
        using True i None by (subst scan_queues.simps) (simp add: Let_def)
      ultimately show ?thesis by (intro exI [of _ ts] exI [of _ s']) (simp add: scanned_def drained_def)
    next
      case (Some e)
      define s1 where "s1 = advance (take_event ?i e s)"
      define es where "es = upstream H M [(?i, e)]"
      have es: "es = (let e' = copy_event_remap_handle H M e (int ?i) in if sensor e' = -1 then [] else [e'])"
        using upstream_snoc [of H M "[]" ?i e] by (simp add: es_def)
      have l: "length (data @ es) \<le> length data + 1" by (simp add: es Let_def)
      have s1: "rings_ok s1" "seen_empty 0 s1" "length (rings s1) = ?n"
        using rings_ok_advance [OF take_event_ok [OF less.prems(1) i Some]] by (simp_all add: s1_def seen_empty_def)
      have "total s1 < total s" using total_take [OF less.prems(1) i Some] by (simp add: s1_def total_def)
      then have "total s1 * (?n + 1) + (?n + 1) \<le> total s * (?n + 1)"
        by (metis Suc_leI mult_Suc mult_le_mono1 add.commute)
      then have m: "total s1 * (length (rings s1) + 1) + (length (rings s1) - 0) < total s * (?n + 1) + (?n - k)"
        unfolding s1(3) by linarith
      obtain ts s' where IH: "scan_queues H M maxReads 0 (data @ es) s1 = Some ((data @ es) @ upstream H M ts, s')"
        "scanned s1 ts s'" "int (length (data @ es)) \<le> maxReads \<longrightarrow> int (length ((data @ es) @ upstream H M ts)) \<le> maxReads"
        "int (length ((data @ es) @ upstream H M ts)) < maxReads \<longrightarrow> drained s'"
        using less.hyps [OF m s1(1,2), of "data @ es"] by auto
      have "scan_queues H M maxReads k data s = scan_queues H M maxReads 0 (data @ es) s1"
        using True i Some by (subst scan_queues.simps) (simp add: Let_def es s1_def)
      moreover have u: "upstream H M ((?i, e) # ts) = es @ upstream H M ts"
        by (simp add: upstream_def es_def)
      moreover have "\<not> drained s" using ring.first_Some [OF q Some] i by (auto simp: drained_def)
      moreover have "scanned s ((?i, e) # ts) s'" using IH(2) by (simp add: scanned_def s1_def)
      ultimately show ?thesis using IH(1,3,4) l True by (intro exI [of _ "(?i, e) # ts"] exI [of _ s']) auto
    qed
  qed
qed

section \<open>Reachable states\<close>

lemma upstream_append [simp]: "upstream H M (xs @ ys) = upstream H M xs @ upstream H M ys"
  by (simp add: upstream_def)

lemma poll_turn_ok:
  assumes s: "rings_ok s" "concat (poll_results s) = upstream H M (taken s)" "0 < maxReads"
    "\<forall>t m. poll_asleep s t = Some m \<or> poll_woken s t = Some m \<longrightarrow> 0 < m" "poll_asleep s \<noteq> Map.empty \<longrightarrow> drained s"
  shows "\<exists>ts s'. poll_turn H M t maxReads s = Some s' \<and> hal_ok H M s' \<and> taken s' = taken s @ ts
    \<and> written s' = written s \<and> length (rings s') = length (rings s)
    \<and> (if upstream H M ts = [] then poll_asleep s' t = Some maxReads
       else poll_results s' = poll_results s @ [upstream H M ts] \<and> int (length (upstream H M ts)) \<le> maxReads
         \<and> poll_asleep s' = poll_asleep s)
    \<and> (int (length (upstream H M ts)) < maxReads \<longrightarrow> drained s')"
proof -
  obtain ts s1 where 1: "scan_queues H M maxReads 0 [] s = Some (upstream H M ts, s1)" "scanned s ts s1"
    "int (length (upstream H M ts)) \<le> maxReads" "int (length (upstream H M ts)) < maxReads \<longrightarrow> drained s1" "drained s \<longrightarrow> ts = []"
    using scan_ok [of s 0 H M maxReads "[]"] s(1,3) by (auto simp: seen_empty_def)
  show ?thesis
  proof (cases "upstream H M ts = []")
    case True
    then show ?thesis using 1 s rings_ok_cong [of "s1\<lparr>waiting_for_data := True, poll_asleep := (poll_asleep s1)(t \<mapsto> maxReads)\<rparr>" s1]
      by (auto simp: poll_turn_def hal_ok_def scanned_def drained_def)
  next
    case False
    then have "poll_asleep s = Map.empty" using 1(5) s(5) by auto
    then show ?thesis
      using False 1 s rings_ok_cong [of "s1\<lparr>poll_results := poll_results s1 @ [upstream H M ts]\<rparr>" s1]
      by (auto simp: poll_turn_def hal_ok_def scanned_def drained_def)
  qed
qed

lemma hal_okD:
  assumes "hal_ok H M s"
  shows "rings_ok s" "concat (poll_results s) = upstream H M (taken s)"
    "\<forall>t m. poll_asleep s t = Some m \<or> poll_woken s t = Some m \<longrightarrow> 0 < m"
    "poll_asleep s \<noteq> Map.empty \<longrightarrow> drained s" "poll_asleep s \<noteq> Map.empty \<longrightarrow> waiting_for_data s"
  using assms by (simp_all add: hal_ok_def drained_def)

lemma hal_step_ok:
  assumes st: "hal_step H M s s'" and ok: "hal_ok H M s"
  shows "hal_ok H M s'"
  using st
proof cases
  case (top i)
  then show ?thesis using top_ok [of s i] ok by (auto simp: hal_ok_def rings_ok_def)
next
  case (fill i b n j e)
  have i: "i < length (rings s)" using fill ok by (auto simp: hal_ok_def rings_ok_def)
  then obtain q where "writer_fill i j e s = Some (set_ring i q s)" "rings_ok (set_ring i q s)" "readable q = readable (rings s ! i)"
    using fill_ok [of s i b n j e] fill ok by (auto simp: hal_ok_def)
  then show ?thesis using ok fill i by (auto simp: hal_ok_def nth_list_update)
next
  case (polled i b n m)
  then show ?thesis using polled_ok [of s i b n m] ok by (auto simp: hal_ok_def rings_ok_def)
next
  case (mark i b n m)
  have "rings_ok s'" using mark_step_ok [of s i b n m] mark ok by (auto simp: hal_ok_def rings_ok_def)
  moreover have "poll_asleep s' = Map.empty"
    using mark ok by (auto simp: writer_mark_def Let_def broadcast_data_def hal_ok_def)
  moreover have "poll_results s' = poll_results s" "taken s' = taken s"
    "\<forall>t m. poll_woken s' t = Some m \<longrightarrow> poll_woken s t = Some m \<or> poll_asleep s t = Some m"
    using mark by (auto simp: writer_mark_def Let_def broadcast_data_def)
  ultimately show ?thesis using ok unfolding hal_ok_def by (metis option.distinct(1))
next
  case (writer_spurious i)
  then show ?thesis using writer_step_ok [of s i W_WOKEN] ok by (auto simp: hal_ok_def rings_ok_def)
next
  case (poll t m)
  then show ?thesis using poll_turn_ok [OF hal_okD(1,2) [OF ok] poll(3) hal_okD(3,4) [OF ok]] by (metis option.inject)
next
  case (poll_spurious t m)
  then show ?thesis using ok rings_ok_cong [of s' s] by (auto simp: hal_ok_def split: if_splits)
next
  case (resume t)
  then obtain m where m: "poll_woken s t = Some m" by (auto simp: poll_resume_def split: option.splits)
  let ?s = "s\<lparr>waiting_for_data := False, poll_woken := (poll_woken s)(t := None)\<rparr>"
  have "rings_ok ?s" "0 < m" using hal_okD(1,3) [OF ok] rings_ok_cong [of ?s s] m by auto
  moreover have "concat (poll_results ?s) = upstream H M (taken ?s)" "drained ?s = drained s"
    "\<forall>t m. poll_asleep ?s t = Some m \<or> poll_woken ?s t = Some m \<longrightarrow> 0 < m"
    using hal_okD(2,3) [OF ok] by (auto simp: drained_def)
  moreover have "poll_turn H M t m ?s = Some s'" using resume m by (simp add: poll_resume_def)
  ultimately show ?thesis using poll_turn_ok [of ?s H M m t] hal_okD(4) [OF ok] by auto
qed

lemma hal_reachable_ok:
  "hal_reachable H M (fst (open_sensors E garbage m)) s \<Longrightarrow> length garbage = nat SENSOR_EVENT_QUEUE_CAPACITY \<Longrightarrow> hal_ok H M s"
  by (induction rule: hal_reachable.induct) (auto intro: open_ok hal_step_ok)

end
