(* ===== verification/MultiHalProps.thy ===== *)
theory MultiHalProps
  imports MultiPollInv
begin

text \<open>
  The properties of the multiplexing sensor HAL: its handles, where its calls go, and its events.
\<close>

section \<open>A small system for the witnesses\<close>

text \<open>Two modules with a sensor each; the device of the first reports an event, and a thread polls.\<close>

definition demo_h :: sensors_h where
  "demo_h = \<lparr>SENSORS_DEVICE_API_VERSION_1_3 = 13, SENSORS_DEVICE_API_VERSION_1_4 = 14, SENSOR_TYPE_META_DATA = 0\<rparr>"

definition demo_module :: "int \<Rightarrow> sub_device option \<Rightarrow> sub_module" where
  "demo_module h d = \<lparr>get_sensors_list = (\<lambda>_. [\<lparr>handle = h, info = 0\<rparr>]), open_module = d\<rparr>"

definition demo_env :: "sub_device option \<Rightarrow> sensors_env" where
  "demo_env d = \<lparr>config_files = [None, Some [''a'', ''x'', ''b'']], load = (\<lambda>p.
     if p = ''a'' then Some (demo_module 5 d)
     else if p = ''b'' then Some (demo_module 6 (Some \<lparr>dev = 8, version = 14\<rparr>)) else None)\<rparr>"

definition demo_event :: sensors_event where
  "demo_event = \<lparr>sensor = 5, ev_type = 1, meta_sensor = 0, payload = 3\<rparr>"

definition demo_maps :: handle_maps where
  "demo_maps = snd (assign_global_handle 1 6 (snd (assign_global_handle 0 5 fresh_maps)))"

definition demo_ctx :: sensors_poll_context where
  "demo_ctx = fst (open_sensors (demo_env (Some \<lparr>dev = 7, version = 13\<rparr>))
     (replicate (nat SENSOR_EVENT_QUEUE_CAPACITY) (demo_event\<lparr>payload := 0\<rparr>)) fresh_multihal)"

lemma demo_loaded: "loaded (demo_env d) = [demo_module 5 d, demo_module 6 (Some \<lparr>dev = 8, version = 14\<rparr>)]"
  by (simp add: loaded_def demo_env_def get_so_paths_def map_filter_simps)

definition demo_ready :: "sensors_sys option" where
  "demo_ready = do {
     s \<leftarrow> writer_top 0 (start_sys demo_ctx);
     s \<leftarrow> writer_fill 0 0 demo_event s;
     Some (writer_mark 0 (writer_polled 0 1 s)) }"

definition demo_polled :: "sensors_sys option" where
  "demo_polled = Option.bind demo_ready (poll_turn demo_h demo_maps 1 8)"

lemma demo_queues:
  "queues demo_ctx = replicate 2 (SensorEventQueue SENSOR_EVENT_QUEUE_CAPACITY
     (replicate (nat SENSOR_EVENT_QUEUE_CAPACITY) (demo_event\<lparr>payload := 0\<rparr>)))"
  "threads demo_ctx = [W_TOP, W_TOP]" "nextReadIndex demo_ctx = 0"
  by (simp_all add: demo_ctx_def open_sensors_def lazy_init_modules_def fresh_multihal_def demo_env_def get_so_paths_def
      map_filter_simps demo_module_def addSubHwDevice_def Let_def numeral_2_eq_2)

lemmas demo_defs = demo_queues start_sys_def SensorEventQueue_def SENSOR_EVENT_QUEUE_CAPACITY_def numeral_2_eq_2

lemma demo_top:
  "\<exists>s. writer_top 0 (start_sys demo_ctx) = Some s \<and> hal_reachable demo_h demo_maps demo_ctx s \<and> s = set_writer 0 (W_POLL (Some 0) 36) (start_sys demo_ctx)
     \<and> writers s ! 0 = W_POLL (Some 0) 36 \<and> rings s = queues demo_ctx"
proof -
  have "writer_top 0 (start_sys demo_ctx) = Some (set_writer 0 (W_POLL (Some 0) 36) (start_sys demo_ctx))"
    by (simp add: writer_top_def demo_defs waitForSpace_def getWritableRegion_def INT_MAX_def)
  moreover have "hal_step demo_h demo_maps (start_sys demo_ctx) (set_writer 0 (W_POLL (Some 0) 36) (start_sys demo_ctx))"
    by (rule hal_step.top [OF _ _ calculation]) (simp_all add: demo_defs)
  ultimately show ?thesis using hal_reachable.step [OF hal_reachable.start] by (simp add: demo_defs)
qed

lemma demo_ready_ok:
  "\<exists>s. demo_ready = Some s \<and> hal_reachable demo_h demo_maps demo_ctx s \<and> written s 0 = [demo_event] \<and> taken s = []
     \<and> poll_results s = [] \<and> poll_asleep s = Map.empty \<and> poll_woken s = Map.empty \<and> length (rings s) = 2"
proof -
  let ?R = "hal_reachable demo_h demo_maps demo_ctx"
  obtain s1 where s1: "writer_top 0 (start_sys demo_ctx) = Some s1" "?R s1"
    "s1 = set_writer 0 (W_POLL (Some 0) 36) (start_sys demo_ctx)" "writers s1 ! 0 = W_POLL (Some 0) 36" "rings s1 = queues demo_ctx"
    using demo_top by blast
  let ?q = "(queues demo_ctx ! 0)\<lparr>mData := (mData (queues demo_ctx ! 0))[0 := demo_event]\<rparr>"
  define s2 where "s2 = set_ring 0 ?q s1"
  have 2: "writer_fill 0 0 demo_event s1 = Some s2"
    using s1(4,5) by (simp add: writer_fill_def write_slot_def s2_def demo_defs)
  have w1: "length (writers s1) = 2" by (simp add: s1(3) demo_defs)
  have r2: "?R s2" by (rule hal_reachable.step [OF s1(2) hal_step.fill [OF _ s1(4) _ 2]]) (simp_all add: w1)
  define s3 where "s3 = writer_polled 0 1 s2"
  have w2: "writers s2 ! 0 = W_POLL (Some 0) 36" "length (writers s2) = 2" using s1(4) w1 by (simp_all add: s2_def)
  have r3: "?R s3" unfolding s3_def by (rule hal_reachable.step [OF r2 hal_step.polled [OF _ w2(1)]]) (simp_all add: w2)
  have s3: "s3 = set_writer 0 (W_MARK (Some 0) 36 1) s2" using w2 by (simp add: s3_def writer_polled_def)
  have w3: "writers s3 ! 0 = W_MARK (Some 0) 36 1" "length (writers s3) = 2" using w2 by (simp_all add: s3)
  have r4: "?R (writer_mark 0 s3)" by (rule hal_reachable.step [OF r3 hal_step.mark [OF _ w3(1)]]) (simp add: w3)
  have "cells (rings s3 ! 0) 0 1 = [demo_event]"
    using s1(5) by (simp add: s3 s2_def cells_def demo_defs)
  moreover have "taken s3 = []" "poll_results s3 = []" "poll_asleep s3 = Map.empty" "poll_woken s3 = Map.empty"
    "written s3 0 = []" "\<not> waiting_for_data s3" "length (rings s3) = 2"
    using s1(5) by (simp_all add: s3 s2_def s1(3) start_sys_def demo_queues)
  ultimately have "demo_ready = Some (writer_mark 0 s3)" "written (writer_mark 0 s3) 0 = [demo_event]" "taken (writer_mark 0 s3) = []"
    "poll_results (writer_mark 0 s3) = []" "poll_asleep (writer_mark 0 s3) = Map.empty" "poll_woken (writer_mark 0 s3) = Map.empty"
    "length (rings (writer_mark 0 s3)) = 2"
    using s1(1) 2 w3(1) by (simp_all add: demo_ready_def s3_def writer_mark_def Let_def)
  then show ?thesis using r4 by blast
qed

section \<open>Handles\<close>

text \<open>
  C16: The handles are well formed. On modules that always give the same list, the first request for the sensor list succeeds and
  gives all sensors of all modules, in order, numbered from 1 on; exactly these numbers are known as handles, each with the index of its
  module and its local handle, and every local handle a module lists is translated to a handle that stands for it.
\<close>
theorem sensor_handles_well_formed:
  assumes "list_all static_list (loaded E)"
  shows "\<exists>m. module__get_sensors_list E blank fresh_multihal =
       Some (int (length (all_sensors 0 (loaded E))), Some (listed 1 (all_sensors 0 (loaded E))), m)
    \<and> (\<forall>g. global_to_full (maps m) g =
         (if 1 \<le> g \<and> g \<le> int (length (all_sensors 0 (loaded E))) then Some (full_of (all_sensors 0 (loaded E) ! nat (g - 1))) else None))
    \<and> dom (full_to_global (maps m)) = full_of ` set (all_sensors 0 (loaded E))
    \<and> (\<forall>f g. full_to_global (maps m) f = Some g \<longrightarrow> global_to_full (maps m) g = Some f)"
proof -
  have f: "sub_hw_modules fresh_multihal \<in> {None, Some (loaded E)}" "maps fresh_multihal = fresh_maps" "global_sensors_list fresh_multihal = None"
    by (simp_all add: fresh_multihal_def)
  from lazy_init_ok [OF assms f, of blank] obtain m where
    "lazy_init_sensors_list E blank fresh_multihal = Some m" "maps_of (all_sensors 0 (loaded E)) (maps m)"
    "global_sensors_list m = Some (listed 1 (all_sensors 0 (loaded E)))"
    "global_sensors_count m = int (length (all_sensors 0 (loaded E)))" by auto
  moreover from this have "module__get_sensors_list E blank fresh_multihal =
      Some (int (length (all_sensors 0 (loaded E))), Some (listed 1 (all_sensors 0 (loaded E))), m)"
    by (simp add: module__get_sensors_list_def)
  ultimately show ?thesis unfolding maps_of_def by blast
qed

theorem sensor_handles_well_formed_witness:
  "\<exists>m. module__get_sensors_list (demo_env None) \<lparr>handle = 0, info = 0\<rparr> fresh_multihal =
     Some (2, Some [\<lparr>handle = 1, info = 0\<rparr>, \<lparr>handle = 2, info = 0\<rparr>], m) \<and> global_to_full (maps m) 2 = Some (FullHandle 1 6)"
  using sensor_handles_well_formed [of "demo_env None" "\<lparr>handle = 0, info = 0\<rparr>"]
  by (fastforce simp: demo_loaded demo_module_def static_list_def listed_def full_of_def upt_rec)

text \<open>
  Handles translate there and back: for a module that lists a local handle only once, the global handle of a sensor gives the index
  of the module and the local handle, and these give the global handle. So an event of a sensor carries upstream the handle under which
  the framework knows the sensor.
\<close>
lemma sensor_handles_roundtrip:
  assumes "maps_of xs M" "distinct (map full_of xs)" "k < length xs" "xs ! k = (i, s)"
  shows "get_module_index M (int k + 1) = i \<and> get_local_handle M (int k + 1) = handle s
    \<and> get_global_handle M (FullHandle i (handle s)) = int k + 1
    \<and> (\<forall>e. ev_type e \<noteq> SENSOR_TYPE_META_DATA H \<and> sensor e = handle s \<longrightarrow>
        copy_event_remap_handle H M e i = e\<lparr>sensor := int k + 1\<rparr>)
    \<and> (\<forall>e. ev_type e = SENSOR_TYPE_META_DATA H \<and> meta_sensor e = handle s \<longrightarrow>
        copy_event_remap_handle H M e i = e\<lparr>meta_sensor := int k + 1\<rparr>)"
proof -
  let ?f = "FullHandle i (handle s)"
  have f: "full_of (xs ! k) = ?f" using assms(4) by (simp add: full_of_def)
  have g: "global_to_full M (int k + 1) = Some ?f" using assms(1,3) f by (simp add: maps_of_def)
  have "?f \<in> dom (full_to_global M)" using assms(1,3) f unfolding maps_of_def by (metis imageI nth_mem)
  then obtain l where l: "full_to_global M ?f = Some l" by auto
  then have "global_to_full M l = Some ?f" using assms(1) unfolding maps_of_def by blast
  then have "1 \<le> l" "l \<le> int (length xs)" "full_of (xs ! nat (l - 1)) = ?f"
    using assms(1) by (auto simp: maps_of_def split: if_splits)
  then have "nat (l - 1) = k" using assms(2,3) f nth_eq_iff_index_eq [of "map full_of xs" "nat (l - 1)" k] by auto
  then have "l = int k + 1" using \<open>1 \<le> l\<close> by simp
  then show ?thesis
    using g l by (simp add: get_module_index_def get_local_handle_def get_global_handle_def copy_event_remap_handle_def)
qed

lemma demo_maps_of: "maps_of [(0, \<lparr>handle = 5, info = 0\<rparr>), (1, \<lparr>handle = 6, info = 0\<rparr>)] demo_maps"
proof -
  have "maps_of ([] @ [(0, \<lparr>handle = 5, info = 0\<rparr>)]) (snd (assign_global_handle 0 5 fresh_maps))"
    by (rule maps_of_assign [OF maps_of_fresh]) (auto intro: prod.collapse [symmetric])
  from maps_of_assign [OF this, where i = 1 and h = 6 and s = "\<lparr>handle = 6, info = 0\<rparr>"]
  show ?thesis by (simp add: demo_maps_def) (metis prod.collapse)
qed

section \<open>Calls\<close>

text \<open>What a request asks for: its handle, the version it needs, and the call it stands for.\<close>

fun requested :: "hal_request \<Rightarrow> int" where
  "requested (Activate h _) = h"
| "requested (SetDelay h _) = h"
| "requested (Batch h _ _ _) = h"
| "requested (Flush h) = h"
| "requested (Inject _ data) = sensor data"

fun needed :: "sensors_h \<Rightarrow> hal_request \<Rightarrow> int" where
  "needed H (Inject _ _) = SENSORS_DEVICE_API_VERSION_1_4 H"
| "needed H _ = SENSORS_DEVICE_API_VERSION_1_3 H"

fun call_of :: "hal_request \<Rightarrow> nat \<Rightarrow> int \<Rightarrow> hal_call" where
  "call_of (Activate _ enabled) d l = CallActivate d l enabled"
| "call_of (SetDelay _ ns) d l = CallSetDelay d l ns"
| "call_of (Batch _ flags period_ns timeout) d l = CallBatch d l flags period_ns timeout"
| "call_of (Flush _) d l = CallFlush d l"
| "call_of (Inject proxy data) d l = CallInject d proxy data"

lemma called_call_of [simp]: "called (call_of r d l) = d"
  by (cases r) auto

lemma device_of_sensor:
  assumes "maps_of (all_sensors 0 ms) M" "k < length (all_sensors 0 ms)" "all_sensors 0 ms ! k = (i, s)"
  shows "get_local_handle M (int k + 1) = handle s" "0 \<le> i" "i < int (length ms)"
    "get_device_by_handle M c (int k + 1) =
      (if i < int (length (sub_hw_devices c)) then Some (sub_hw_devices c ! nat i) else None)"
proof -
  have "global_to_full M (int k + 1) = Some (FullHandle i (handle s))" using assms by (simp add: maps_of_def full_of_def)
  moreover have "(i, s) \<in> set (all_sensors 0 ms)" using assms(2,3) by (metis nth_mem)
  then show "0 \<le> i" "i < int (length ms)" using all_sensors_index [of i s 0 ms] by simp_all
  ultimately show "get_local_handle M (int k + 1) = handle s" "get_device_by_handle M c (int k + 1) =
      (if i < int (length (sub_hw_devices c)) then Some (sub_hw_devices c ! nat i) else None)"
    by (simp_all add: get_local_handle_def get_device_by_handle_def get_module_index_def Let_def)
qed

lemmas serve_defs = activate_def setDelay_def batch_def flush_sensor_def inject_sensor_data_def halIsCompliant_def
  halIsAPILevelCompliant_def get_device_version_by_handle_def

lemma serve_exact:
  "hal_serve H answer M c r =
    (case get_device_by_handle M c (requested r) of
       Some d \<Rightarrow> (if version d \<noteq> -1 \<and> needed H r \<le> version d \<and> 0 \<le> get_local_handle M (requested r)
                then (answer (call_of r (dev d) (get_local_handle M (requested r))), [call_of r (dev d) (get_local_handle M (requested r))])
                else (- EINVAL, []))
     | None \<Rightarrow> (- EINVAL, []))"
  by (cases r) (auto simp: serve_defs Let_def split: option.splits)


lemma demo_maps_all: "maps_of (all_sensors 0 (loaded (demo_env d))) demo_maps"
  using demo_maps_of by (simp add: demo_loaded demo_module_def)


lemma map_filter_split:
  assumes "i < length xs" "f (xs ! i) = Some d"
  shows "List.map_filter f xs ! length (List.map_filter f (take i xs)) = d
    \<and> length (List.map_filter f (take i xs)) < length (List.map_filter f xs)"
proof -
  have "List.map_filter f xs = List.map_filter f (take i xs @ xs ! i # drop (Suc i) xs)"
    using id_take_nth_drop [OF assms(1)] by (rule arg_cong)
  also have "... = List.map_filter f (take i xs) @ d # List.map_filter f (drop (Suc i) xs)"
    using assms(2) by (simp add: List.map_filter_def)
  finally show ?thesis by simp
qed

lemma map_filter_short: "x \<in> set xs \<Longrightarrow> f x = None \<Longrightarrow> length (List.map_filter f xs) < length xs"
  by (auto simp: List.map_filter_def intro!: length_filter_less)

text \<open>
  C18: One module that fails to open disturbs the others. The devices are kept by the order in which they opened, but looked up by the
  index of their module: when a module has failed, a request for a sensor of that module or of a later one goes to the device opened at
  the module's index, with a local handle that means something else there, or is refused; it never reaches the sensor's own device.
\<close>
theorem failed_open_misroutes:
  assumes M: "maps_of (all_sensors 0 (loaded E)) M" and m: "sub_hw_modules m \<in> {None, Some (loaded E)}"
    and k: "k < length (all_sensors 0 (loaded E))" "all_sensors 0 (loaded E) ! k = (i, s)" "requested r = int k + 1"
    and j: "j \<le> nat i" "open_module (loaded E ! j) = None"
    and dis: "distinct (map dev (List.map_filter open_module (loaded E)))"
  shows "hal_serve H answer M (fst (open_sensors E garbage m)) r =
      (if nat i < length (List.map_filter open_module (loaded E))
       then (let d = List.map_filter open_module (loaded E) ! nat i in
         if version d \<noteq> -1 \<and> needed H r \<le> version d \<and> 0 \<le> handle s
         then (answer (call_of r (dev d) (handle s)), [call_of r (dev d) (handle s)]) else (- EINVAL, []))
       else (- EINVAL, []))
    \<and> (\<forall>d c. open_module (loaded E ! nat i) = Some d \<and> c \<in> set (snd (hal_serve H answer M (fst (open_sensors E garbage m)) r)) \<longrightarrow>
        called c \<noteq> dev d)"
proof -
  let ?ds = "List.map_filter open_module (loaded E)"
  have i: "0 \<le> i" "nat i < length (loaded E)" using device_of_sensor(2,3) [OF M k(1,2)] by auto
  have e: "hal_serve H answer M (fst (open_sensors E garbage m)) r =
      (if nat i < length ?ds then (let d = ?ds ! nat i in
         if version d \<noteq> -1 \<and> needed H r \<le> version d \<and> 0 \<le> handle s
         then (answer (call_of r (dev d) (handle s)), [call_of r (dev d) (handle s)]) else (- EINVAL, [])) else (- EINVAL, []))"
    using device_of_sensor(1,4) [OF M k(1,2)] open_sensors_devs [OF m, of garbage] i k(3) by (auto simp: serve_exact Let_def)
  have "dev (?ds ! nat i) \<noteq> dev d" if d: "open_module (loaded E ! nat i) = Some d" and l: "nat i < length ?ds" for d
  proof -
    let ?p = "length (List.map_filter open_module (take (nat i) (loaded E)))"
    have "j \<noteq> nat i" using j(2) d by auto
    then have "loaded E ! j \<in> set (take (nat i) (loaded E))" using j(1) i(2) by (auto simp: in_set_conv_nth intro!: exI [of _ j])
    then have "?p < nat i" using map_filter_short [where f = open_module, OF _ j(2)] i(2) by fastforce
    moreover have "?ds ! ?p = d" "?p < length ?ds" using map_filter_split [where f = open_module, OF i(2) d] by auto
    ultimately show ?thesis using dis l nth_eq_iff_index_eq [OF dis, of ?p "nat i"] by auto
  qed
  then show ?thesis using e by (auto simp: Let_def split: if_splits)
qed

theorem failed_open_misroutes_witness:
  "hal_serve demo_h (\<lambda>_. 0) demo_maps (fst (open_sensors (demo_env None) [] fresh_multihal)) (Activate 1 1) = (0, [CallActivate 8 5 1])
    \<and> hal_serve demo_h (\<lambda>_. 0) demo_maps (fst (open_sensors (demo_env None) [] fresh_multihal)) (Activate 2 1) = (- EINVAL, [])"
proof
  let ?E = "demo_env None"
  have m: "sub_hw_modules fresh_multihal \<in> {None, Some (loaded ?E)}" by (simp add: fresh_multihal_def)
  note th = failed_open_misroutes [OF demo_maps_all m, where j = 0 and H = demo_h and answer = "\<lambda>_. 0" and garbage = "[]"]
  show "hal_serve demo_h (\<lambda>_. 0) demo_maps (fst (open_sensors ?E [] fresh_multihal)) (Activate 1 1) = (0, [CallActivate 8 5 1])"
    using th [of 0 0 "\<lparr>handle = 5, info = 0\<rparr>" "Activate 1 1"]
    by (simp add: demo_loaded demo_module_def demo_h_def map_filter_simps Let_def)
  show "hal_serve demo_h (\<lambda>_. 0) demo_maps (fst (open_sensors ?E [] fresh_multihal)) (Activate 2 1) = (- EINVAL, [])"
    using th [of 1 1 "\<lparr>handle = 6, info = 0\<rparr>" "Activate 2 1"]
    by (simp add: demo_loaded demo_module_def demo_h_def map_filter_simps Let_def)
qed

section \<open>Events\<close>

text \<open>
  C13: No event is lost, duplicated or reordered. Under every interleaving of the writer threads, the devices' writes, the threads in
  poll and spurious wake-ups, the events that a device reported are, in order, those taken out of its queue and then those still in it;
  and what poll has returned is, in order, the events taken out, with their global handles, but for those of unknown sensors.
\<close>
theorem sensor_events_conserved:
  assumes "hal_reachable H M (fst (open_sensors E garbage m)) s" "length garbage = nat SENSOR_EVENT_QUEUE_CAPACITY"
  shows "(\<forall>i < length (rings s). written s i = from_queue i (taken s) @ readable (rings s ! i)) \<and>
    concat (poll_results s) = upstream H M (taken s)"
  using hal_reachable_ok [OF assms] by (simp add: hal_ok_def rings_ok_def ring_ok_def)

theorem sensor_events_conserved_witness:
  "\<exists>s. demo_ready = Some s \<and> written s 0 = [demo_event] \<and> readable (rings s ! 0) = [demo_event] \<and> poll_results s = []"
proof -
  obtain s where s: "demo_ready = Some s" "hal_reachable demo_h demo_maps demo_ctx s" "written s 0 = [demo_event]" "taken s = []"
    "poll_results s = []" "length (rings s) = 2" using demo_ready_ok by blast
  have "written s 0 = from_queue 0 (taken s) @ readable (rings s ! 0)"
    using sensor_events_conserved [OF s(2) [unfolded demo_ctx_def]] s(6) by auto
  then have "readable (rings s ! 0) = [demo_event]" using s(3,4) by simp
  then show ?thesis using s(1,3,5) by blast
qed

text \<open>
  A device never writes where poll reads. While a device fills the buffer it was given, outside the lock, the buffer lies inside its
  queue's array, is at least one event long, and holds none of the events that are readable, whatever poll takes out meanwhile.
\<close>
lemma device_writes_apart:
  assumes "hal_reachable H M (fst (open_sensors E garbage m)) s" "length garbage = nat SENSOR_EVENT_QUEUE_CAPACITY"
    "i < length (rings s)" "writers s ! i = W_POLL b n"
  shows "\<exists>a. b = Some a \<and> 1 \<le> n \<and> a + nat n \<le> length (mData (rings s ! i)) \<and>
    (\<forall>j k. int j < n \<and> k < length (readable (rings s ! i)) \<longrightarrow> a + j \<noteq> slot (rings s ! i) k)"
proof -
  have q: "queue_ok (rings s ! i)" "writer_ok (rings s ! i) (W_POLL b n)"
    using rings_okD [OF hal_okD(1) [OF hal_reachable_ok [OF assms(1,2)]] assms(3)] assms(4) by (simp_all add: ring_ok_def)
  then obtain a where a: "b = Some a" "writable (rings s ! i) a n" by auto
  then have "a + nat n \<le> length (mData (rings s ! i))" "1 \<le> n" using q(1) by (auto simp: writable_def queue_ok_def)
  then show ?thesis using a region_apart [OF q(1) a(2)] by auto
qed

text \<open>
  C14: Nobody sleeps through an event. While a thread sleeps in poll, every queue is empty and the next device to report will wake it;
  while a writer sleeps, its queue is full, and the next event taken out will wake it.
\<close>
theorem no_sensor_event_waits:
  assumes "hal_reachable H M (fst (open_sensors E garbage m)) s" "length garbage = nat SENSOR_EVENT_QUEUE_CAPACITY"
  shows "(\<forall>t. poll_asleep s t \<noteq> None \<longrightarrow> waiting_for_data s \<and> (\<forall>i < length (rings s). readable (rings s ! i) = [])) \<and>
    (\<forall>i < length (rings s). writers s ! i = W_SLEEP \<longrightarrow> int (length (readable (rings s ! i))) = SENSOR_EVENT_QUEUE_CAPACITY)"
proof -
  have ok: "hal_ok H M s" by (rule hal_reachable_ok [OF assms])
  then have "\<forall>i < length (rings s). writers s ! i = W_SLEEP \<longrightarrow> int (length (readable (rings s ! i))) = SENSOR_EVENT_QUEUE_CAPACITY"
  proof (intro allI impI)
    fix i
    assume "i < length (rings s)" "writers s ! i = W_SLEEP"
    then have "writer_ok (rings s ! i) W_SLEEP" "mCapacity (rings s ! i) = SENSOR_EVENT_QUEUE_CAPACITY"
      using rings_okD [OF hal_okD(1) [OF ok], of i] by (auto simp: ring_ok_def)
    then show "int (length (readable (rings s ! i))) = SENSOR_EVENT_QUEUE_CAPACITY"
      by (simp add: SENSOR_EVENT_QUEUE_CAPACITY_def)
  qed
  then show ?thesis using hal_okD(4,5) [OF ok] by (auto simp: drained_def)
qed

theorem no_sensor_event_waits_witness:
  "\<exists>s. poll_turn demo_h demo_maps 1 8 (start_sys demo_ctx) = Some s \<and> poll_asleep s 1 \<noteq> None \<and> readable (rings s ! 0) = []"
proof -
  have r: "hal_reachable demo_h demo_maps demo_ctx (start_sys demo_ctx)" by (rule hal_reachable.start)
  let ?s = "advance (advance (start_sys demo_ctx))"
  let ?t = "?s\<lparr>waiting_for_data := True, poll_asleep := (poll_asleep ?s)(1 \<mapsto> 8)\<rparr>"
  have "scan_queues demo_h demo_maps 8 0 [] (start_sys demo_ctx) = Some ([], ?s)"
    by (subst scan_queues.simps, subst scan_queues.simps, subst scan_queues.simps)
      (simp add: start_sys_def demo_queues Let_def peek_event_def SensorEventQueue_def advance_def)
  then have t: "poll_turn demo_h demo_maps 1 8 (start_sys demo_ctx) = Some ?t" by (simp add: poll_turn_def)
  have rt: "hal_reachable demo_h demo_maps demo_ctx ?t"
    by (rule hal_reachable.step [OF r hal_step.poll [OF _ _ _ t]]) (simp_all add: start_sys_def)
  have n: "length (rings ?t) = 2" "poll_asleep ?t 1 \<noteq> None" by (simp_all add: start_sys_def demo_queues)
  have "\<forall>i < length (rings ?t). readable (rings ?t ! i) = []"
    using conjunct1 [OF no_sensor_event_waits [OF rt [unfolded demo_ctx_def]]] n(2) by (auto simp: demo_ctx_def)
  then have "readable (rings ?t ! 0) = []" using n(1) by simp
  then show ?thesis using t n(2) by blast
qed

text \<open>
  C15: poll returns. A thread that calls poll with room for an event always leaves its loop over the queues: it returns between one
  event and as many as it has room for, or it sleeps, and then it has emptied every queue and found only events of unknown sensors.
\<close>
theorem poll_returns_events:
  assumes "hal_reachable H M (fst (open_sensors E garbage m)) s" "length garbage = nat SENSOR_EVENT_QUEUE_CAPACITY" "0 < maxReads"
  shows "\<exists>ts s'. poll_turn H M t maxReads s = Some s' \<and> taken s' = taken s @ ts \<and>
    (if upstream H M ts = []
     then poll_asleep s' t = Some maxReads \<and> (\<forall>i < length (rings s). from_queue i ts = readable (rings s ! i))
     else poll_results s' = poll_results s @ [upstream H M ts] \<and> int (length (upstream H M ts)) \<le> maxReads)"
proof -
  have ok: "hal_ok H M s" by (rule hal_reachable_ok [OF assms(1,2)])
  obtain ts s' where t: "poll_turn H M t maxReads s = Some s'" "hal_ok H M s'" "taken s' = taken s @ ts" "written s' = written s"
    "length (rings s') = length (rings s)"
    "if upstream H M ts = [] then poll_asleep s' t = Some maxReads
     else poll_results s' = poll_results s @ [upstream H M ts] \<and> int (length (upstream H M ts)) \<le> maxReads \<and> poll_asleep s' = poll_asleep s"
    "int (length (upstream H M ts)) < maxReads \<longrightarrow> drained s'"
    using poll_turn_ok [OF hal_okD(1,2) [OF ok] assms(3) hal_okD(3,4) [OF ok]] by blast
  have "from_queue i ts = readable (rings s ! i)" if "upstream H M ts = []" "i < length (rings s)" for i
  proof -
    have "written s i = from_queue i (taken s) @ readable (rings s ! i)" "written s' i = from_queue i (taken s') @ readable (rings s' ! i)"
      "readable (rings s' ! i) = []"
      using rings_okD [OF hal_okD(1) [OF ok]] rings_okD [OF hal_okD(1) [OF t(2)]] that t(5,7) assms(3)
      by (auto simp: ring_ok_def drained_def)
    then show ?thesis using t(3,4) by (simp add: from_queue_def)
  qed
  then show ?thesis using t by auto
qed

theorem poll_returns_events_witness:
  "\<exists>s s'. demo_ready = Some s \<and> poll_turn demo_h demo_maps 1 8 s = Some s' \<and> length (upstream demo_h demo_maps (taken s')) \<le> 8"
proof -
  obtain s where s: "demo_ready = Some s" "hal_reachable demo_h demo_maps demo_ctx s" "taken s = []" using demo_ready_ok by blast
  obtain ts s' where t: "poll_turn demo_h demo_maps 1 8 s = Some s'" "taken s' = taken s @ ts"
    "if upstream demo_h demo_maps ts = [] then poll_asleep s' 1 = Some 8 \<and> (\<forall>i < length (rings s). from_queue i ts = readable (rings s ! i))
     else poll_results s' = poll_results s @ [upstream demo_h demo_maps ts] \<and> int (length (upstream demo_h demo_maps ts)) \<le> 8"
    using poll_returns_events [OF s(2) [unfolded demo_ctx_def], of 8 1] by auto
  then have "length (upstream demo_h demo_maps (taken s')) \<le> 8" using s(3) by (auto split: if_splits)
  then show ?thesis using s(1) t(1) by blast
qed

section \<open>Two gaps\<close>

text \<open>
  The test that drops events of unknown sensors looks at the field that a meta-data event does not use: such an event goes upstream with
  the sensor -1 in its payload.
\<close>

lemma unknown_meta_event_passes:
  "ev_type e = SENSOR_TYPE_META_DATA H \<Longrightarrow> full_to_global M (FullHandle (int i) (meta_sensor e)) = None \<Longrightarrow> sensor e \<noteq> -1 \<Longrightarrow>
   upstream H M [(i, e)] = [e\<lparr>meta_sensor := -1\<rparr>]"
  by (simp add: upstream_def copy_event_remap_handle_def get_global_handle_def)

text \<open>Without room for an event \<open>poll\<close> sleeps, also when events are queued, and does so again whenever it is woken.\<close>

lemma poll_without_room_sleeps:
  "maxReads \<le> 0 \<Longrightarrow> poll_turn H M t maxReads s = Some (s\<lparr>waiting_for_data := True, poll_asleep := (poll_asleep s)(t \<mapsto> maxReads)\<rparr>)"
  by (simp add: poll_turn_def) (subst scan_queues.simps, simp)

end
