(* ===== verification/CropMapper.thy ===== *)
theory CropMapper
  imports Prelude "HOL-Library.Monad_Syntax" "HOL-Library.Signed_Division"
begin

text \<open>
  The crop region mapper of the camera HAL3, \<open>hardware/camera/QCamera2/HAL3/QCamera3CropRegionMapper.cpp\<close>, between the
  coordinates of the sensor's active array and those of its output.

  An \<open>int32_t\<close> is an \<open>int\<close>; an operation on it whose result does not fit is undefined in C++ and gives \<open>None\<close>.
  Points are \<open>uint32_t\<close>, so there the product with a size is unsigned and wraps. A division truncates towards zero.
\<close>

section \<open>Operations\<close>

record crop_mapper =
  mSensorW :: int
  mSensorH :: int
  mActiveArrayW :: int
  mActiveArrayH :: int

definition fits :: "int \<Rightarrow> int option" where
  "fits x = (if - (2 ^ 31) \<le> x \<and> x < 2 ^ 31 then Some x else None)"

definition QCamera3CropRegionMapper :: crop_mapper where
  "QCamera3CropRegionMapper = \<lparr>mSensorW = 0, mSensorH = 0, mActiveArrayW = 0, mActiveArrayH = 0\<rparr>"

definition update_mapper :: "int32 \<Rightarrow> int32 \<Rightarrow> int32 \<Rightarrow> int32 \<Rightarrow> crop_mapper \<Rightarrow> crop_mapper" where
  "update_mapper active_array_w active_array_h sensor_w sensor_h c =
     (if active_array_w = 0 \<or> active_array_h = 0 \<or> sensor_w = 0 \<or> sensor_h = 0 then c
      else if active_array_w < sensor_w \<or> active_array_h < sensor_h then c
      else c\<lparr>mSensorW := sint sensor_w, mSensorH := sint sensor_h,
             mActiveArrayW := sint active_array_w, mActiveArrayH := sint active_array_h\<rparr>)"

text \<open>A rectangle is left, top, width and height.\<close>

type_synonym rect = "int \<times> int \<times> int \<times> int"

definition boundToSize :: "rect \<Rightarrow> int \<Rightarrow> int \<Rightarrow> rect option" where
  "boundToSize r bound_w bound_h = (case r of (left, topv, width, height) \<Rightarrow> do {
     let left = (if left < 0 then 0 else left);
     let topv = (if topv < 0 then 0 else topv);
     right \<leftarrow> fits (left + width);
     width \<leftarrow> (if right > bound_w then fits (bound_w - left) else Some width);
     bottom \<leftarrow> fits (topv + height);
     height \<leftarrow> (if bottom > bound_h then fits (bound_h - topv) else Some height);
     Some (left, topv, width, height) })"

text \<open>\<open>v * a / b\<close> on \<open>int32_t\<close>.\<close>

definition scale :: "int \<Rightarrow> int \<Rightarrow> int \<Rightarrow> int option" where
  "scale v a b = do { p \<leftarrow> fits (v * a); fits (p sdiv b) }"

definition not_initialized :: "crop_mapper \<Rightarrow> bool" where
  "not_initialized c \<longleftrightarrow> mSensorW c = 0 \<or> mSensorH c = 0 \<or> mActiveArrayW c = 0 \<or> mActiveArrayH c = 0"

definition toActiveArray :: "crop_mapper \<Rightarrow> rect \<Rightarrow> rect option" where
  "toActiveArray c r = (if not_initialized c then Some r
     else case r of (crop_left, crop_top, crop_width, crop_height) \<Rightarrow> do {
       crop_left \<leftarrow> scale crop_left (mActiveArrayW c) (mSensorW c);
       crop_top \<leftarrow> scale crop_top (mActiveArrayH c) (mSensorH c);
       crop_width \<leftarrow> scale crop_width (mActiveArrayW c) (mSensorW c);
       crop_height \<leftarrow> scale crop_height (mActiveArrayH c) (mSensorH c);
       boundToSize (crop_left, crop_top, crop_width, crop_height) (mActiveArrayW c) (mActiveArrayH c) })"

definition toSensor :: "crop_mapper \<Rightarrow> rect \<Rightarrow> rect option" where
  "toSensor c r = (if not_initialized c then Some r
     else case r of (crop_left, crop_top, crop_width, crop_height) \<Rightarrow> do {
       crop_left \<leftarrow> scale crop_left (mSensorW c) (mActiveArrayW c);
       crop_top \<leftarrow> scale crop_top (mSensorH c) (mActiveArrayH c);
       crop_width \<leftarrow> scale crop_width (mSensorW c) (mActiveArrayW c);
       crop_height \<leftarrow> scale crop_height (mSensorH c) (mActiveArrayH c);
       boundToSize (crop_left, crop_top, crop_width, crop_height) (mSensorW c) (mSensorH c) })"

definition toActiveArray_point :: "crop_mapper \<Rightarrow> int32 \<times> int32 \<Rightarrow> int32 \<times> int32" where
  "toActiveArray_point c p = (case p of (x, y) \<Rightarrow>
     if not_initialized c then (x, y)
     else if x > word_of_int (mSensorW c) \<or> y > word_of_int (mSensorH c) then (x, y)
     else (x * word_of_int (mActiveArrayW c) div word_of_int (mSensorW c),
           y * word_of_int (mActiveArrayH c) div word_of_int (mSensorH c)))"

definition toSensor_point :: "crop_mapper \<Rightarrow> int32 \<times> int32 \<Rightarrow> int32 \<times> int32" where
  "toSensor_point c p = (case p of (x, y) \<Rightarrow>
     if not_initialized c then (x, y)
     else if x > word_of_int (mActiveArrayW c) \<or> y > word_of_int (mActiveArrayH c) then (x, y)
     else (x * word_of_int (mSensorW c) div word_of_int (mActiveArrayW c),
           y * word_of_int (mSensorH c) div word_of_int (mActiveArrayH c)))"

section \<open>Scaling\<close>

text \<open>
  \<open>sizes c\<close>: a size has been accepted, and the squares of the array's sizes fit 31 bits. The largest array that does is
  46340 pixels wide, several times what a sensor has.
\<close>

definition sizes :: "crop_mapper \<Rightarrow> bool" where
  "sizes c \<longleftrightarrow> 0 < mSensorW c \<and> mSensorW c \<le> mActiveArrayW c \<and> mActiveArrayW c \<le> 46340 \<and>
     0 < mSensorH c \<and> mSensorH c \<le> mActiveArrayH c \<and> mActiveArrayH c \<le> 46340"

lemma fits_Some [simp]: "- (2 ^ 31) \<le> x \<Longrightarrow> x < 2 ^ 31 \<Longrightarrow> fits x = Some x"
  by (simp add: fits_def)

lemma sdiv_nonneg: "0 \<le> (x :: int) \<Longrightarrow> 0 < y \<Longrightarrow> x sdiv y = x div y"
  by (cases "x = 0") (simp_all add: signed_divide_int_def sgn_if)

lemma square_fits: "0 \<le> (v :: int) \<Longrightarrow> v \<le> 46340 \<Longrightarrow> 0 \<le> a \<Longrightarrow> a \<le> 46340 \<Longrightarrow> v * a < 2 ^ 31"
  using mult_mono [of v 46340 a 46340] by simp

lemma scale_div:
  assumes "0 \<le> v" "v \<le> 46340" "0 \<le> a" "a \<le> 46340" "0 < b"
  shows "scale v a b = Some (v * a div b)"
proof -
  have p: "0 \<le> v * a" "v * a < 2 ^ 31" using square_fits assms by simp_all
  then have "0 \<le> v * a div b" "v * a div b \<le> v * a"
    using assms(5) zdiv_mono2 [of "v * a" 1 b] by (simp_all add: pos_imp_zdiv_nonneg_iff)
  then show ?thesis using p assms(5) by (simp add: scale_def sdiv_nonneg)
qed

lemma div_parts: "0 < (b :: int) \<Longrightarrow> x div b + y div b \<le> (x + y) div b"
  using div_add1_eq [of x y b] by (simp add: pos_imp_zdiv_nonneg_iff)

lemma scaled_end:
  assumes "0 \<le> l" "0 \<le> w" "l + w \<le> b" "0 < b" "0 \<le> a"
  shows "l * a div b + w * a div b \<le> (a :: int)"
proof -
  have "l * a div b + w * a div b \<le> (l + w) * a div b" using div_parts [OF assms(4), of "l * a" "w * a"] by (simp add: distrib_right)
  also have "... \<le> b * a div b" using assms by (intro zdiv_mono1 mult_right_mono) auto
  finally show ?thesis using assms(4) by simp
qed

lemma bound_inside:
  assumes "0 \<le> l" "0 \<le> t" "0 \<le> w" "0 \<le> h" "l + w \<le> bw" "t + h \<le> bh" "bw < 2 ^ 31" "bh < 2 ^ 31"
  shows "boundToSize (l, t, w, h) bw bh = Some (l, t, w, h)"
  using assms by (simp add: boundToSize_def)

text \<open>One step of the round trip: the point comes back as it was or one less.\<close>

lemma scale_back:
  assumes "0 \<le> (x :: int)" "0 < s" "s \<le> a"
  shows "x - 1 \<le> (x * a div s) * s div a \<and> (x * a div s) * s div a \<le> x"
proof -
  let ?y = "x * a div s"
  have a: "0 < a" using assms by simp
  have "?y * s = x * a - x * a mod s" by (simp add: minus_mod_eq_div_mult)
  moreover have "0 \<le> x * a mod s" "x * a mod s < s" using assms by simp_all
  ultimately have "(x - 1) * a \<le> ?y * s" "?y * s \<le> x * a" using assms(3) by (simp_all add: left_diff_distrib)
  then have "(x - 1) * a div a \<le> ?y * s div a" "?y * s div a \<le> x * a div a" using a by (metis zdiv_mono1)+
  then show ?thesis using a by simp
qed

section \<open>Properties\<close>

lemma update_sizes:
  assumes "uint aw \<le> 46340" "uint ah \<le> 46340" "0 < sw" "sw \<le> aw" "0 < sh" "sh \<le> ah"
  shows "sizes (update_mapper aw ah sw sh c)"
proof -
  have s: "sint x = uint x" if "uint x \<le> 46340" for x :: int32
    using that signed_take_bit_int_eq_self [of 31 "uint x"] uint_ge_0 [of x] by (simp add: sint_uint)
  have "uint sw \<le> uint aw" "uint sh \<le> uint ah" "0 < uint sw" "0 < uint sh"
    using assms(3-6) by (simp_all add: word_le_def word_less_def)
  then show ?thesis using assms by (auto simp: update_mapper_def sizes_def s word_less_def)
qed

text \<open>
  C21: Rectangles stay inside. Between sizes that fit, a rectangle inside the active array is mapped, without overflow, to a rectangle
  inside the sensor's output, and a rectangle inside the output to one inside the array; each of its numbers is scaled and rounded down.
\<close>
theorem crop_regions_inside:
  assumes "sizes c" "0 \<le> l" "0 \<le> t" "0 \<le> w" "0 \<le> h"
  shows "(l + w \<le> mActiveArrayW c \<and> t + h \<le> mActiveArrayH c \<longrightarrow>
      (\<exists>l' t' w' h'. toSensor c (l, t, w, h) = Some (l', t', w', h') \<and>
        l' = l * mSensorW c div mActiveArrayW c \<and> t' = t * mSensorH c div mActiveArrayH c \<and>
        w' = w * mSensorW c div mActiveArrayW c \<and> h' = h * mSensorH c div mActiveArrayH c \<and>
        0 \<le> l' \<and> 0 \<le> t' \<and> 0 \<le> w' \<and> 0 \<le> h' \<and> l' + w' \<le> mSensorW c \<and> t' + h' \<le> mSensorH c)) \<and>
    (l + w \<le> mSensorW c \<and> t + h \<le> mSensorH c \<longrightarrow>
      (\<exists>l' t' w' h'. toActiveArray c (l, t, w, h) = Some (l', t', w', h') \<and>
        l' = l * mActiveArrayW c div mSensorW c \<and> t' = t * mActiveArrayH c div mSensorH c \<and>
        w' = w * mActiveArrayW c div mSensorW c \<and> h' = h * mActiveArrayH c div mSensorH c \<and>
        0 \<le> l' \<and> 0 \<le> t' \<and> 0 \<le> w' \<and> 0 \<le> h' \<and> l' + w' \<le> mActiveArrayW c \<and> t' + h' \<le> mActiveArrayH c))"
proof (intro conjI impI, goal_cases)
  case 1
  have s: "0 < mSensorW c" "mSensorW c \<le> 46340" "0 < mActiveArrayW c" "mActiveArrayW c \<le> 46340"
    "0 < mSensorH c" "mSensorH c \<le> 46340" "0 < mActiveArrayH c" "mActiveArrayH c \<le> 46340" using assms(1) by (auto simp: sizes_def)
  have e: "l * mSensorW c div mActiveArrayW c + w * mSensorW c div mActiveArrayW c \<le> mSensorW c"
    "t * mSensorH c div mActiveArrayH c + h * mSensorH c div mActiveArrayH c \<le> mSensorH c"
    using 1 assms s by (auto intro!: scaled_end)
  have p: "0 \<le> v * mSensorW c div mActiveArrayW c" "0 \<le> v * mSensorH c div mActiveArrayH c" if "0 \<le> v" for v
    using that s by (simp_all add: pos_imp_zdiv_nonneg_iff)
  show ?case using 1 assms s e p by (simp add: toSensor_def not_initialized_def scale_div bound_inside)
next
  case 2
  have s: "0 < mSensorW c" "mSensorW c \<le> 46340" "0 < mActiveArrayW c" "mActiveArrayW c \<le> 46340"
    "0 < mSensorH c" "mSensorH c \<le> 46340" "0 < mActiveArrayH c" "mActiveArrayH c \<le> 46340" using assms(1) by (auto simp: sizes_def)
  have e: "l * mActiveArrayW c div mSensorW c + w * mActiveArrayW c div mSensorW c \<le> mActiveArrayW c"
    "t * mActiveArrayH c div mSensorH c + h * mActiveArrayH c div mSensorH c \<le> mActiveArrayH c"
    using 2 assms s by (auto intro!: scaled_end)
  have p: "0 \<le> v * mActiveArrayW c div mSensorW c" "0 \<le> v * mActiveArrayH c div mSensorH c" if "0 \<le> v" for v
    using that s by (simp_all add: pos_imp_zdiv_nonneg_iff)
  show ?case using 2 assms s e p by (simp add: toActiveArray_def not_initialized_def scale_div bound_inside)
qed

theorem crop_regions_inside_witness:
  "toSensor (update_mapper 4208 3120 2104 1560 QCamera3CropRegionMapper) (1001, 0, 3207, 3120) = Some (500, 0, 1603, 1560)"
proof -
  have "sizes (update_mapper 4208 3120 2104 1560 QCamera3CropRegionMapper)" by (rule update_sizes) simp_all
  from crop_regions_inside [OF this, of 1001 0 3207 3120] show ?thesis by (simp add: update_mapper_def)
qed

lemma point_scale:
  assumes "uint x \<le> 46340" "0 \<le> a" "a \<le> 46340" "0 < b" "b \<le> 46340"
  shows "uint (x * word_of_int a div word_of_int b :: int32) = uint x * a div b"
proof -
  have u: "uint (word_of_int v :: int32) = v" if "0 \<le> v" "v < 2 ^ 31" for v
    using that by (simp add: uint_word_of_int)
  have "uint x * a < 2 ^ 31" "0 \<le> uint x * a" using square_fits [of "uint x" a] assms by simp_all
  then have "uint (x * word_of_int a :: int32) = uint x * a" using assms by (simp add: uint_word_ariths u)
  then show ?thesis using assms by (simp add: uint_div u)
qed

text \<open>
  Points come back. A point of the sensor's output that is mapped to the active array lies in it, and mapped back each of its
  coordinates is what it was or one less.
\<close>
lemma crop_points_roundtrip:
  assumes "sizes c" "uint x \<le> mSensorW c" "uint y \<le> mSensorH c"
  shows "\<exists>x1 y1 x2 y2. toActiveArray_point c (x, y) = (x1, y1) \<and> toSensor_point c (x1, y1) = (x2, y2) \<and>
     uint x1 \<le> mActiveArrayW c \<and> uint y1 \<le> mActiveArrayH c \<and>
     uint x - 1 \<le> uint x2 \<and> uint x2 \<le> uint x \<and> uint y - 1 \<le> uint y2 \<and> uint y2 \<le> uint y"
proof -
  have s: "0 < mSensorW c" "mSensorW c \<le> mActiveArrayW c" "mActiveArrayW c \<le> 46340"
    "0 < mSensorH c" "mSensorH c \<le> mActiveArrayH c" "mActiveArrayH c \<le> 46340" using assms(1) by (auto simp: sizes_def)
  have u: "uint (word_of_int v :: int32) = v" if "0 \<le> v" "v \<le> 46340" for v using that by (simp add: uint_word_of_int)
  define x1 y1 where "x1 = x * word_of_int (mActiveArrayW c) div (word_of_int (mSensorW c) :: int32)"
    and "y1 = y * word_of_int (mActiveArrayH c) div (word_of_int (mSensorH c) :: int32)"
  define x2 y2 where "x2 = x1 * word_of_int (mSensorW c) div (word_of_int (mActiveArrayW c) :: int32)"
    and "y2 = y1 * word_of_int (mSensorH c) div (word_of_int (mActiveArrayH c) :: int32)"
  have 1: "uint x1 = uint x * mActiveArrayW c div mSensorW c" "uint y1 = uint y * mActiveArrayH c div mSensorH c"
    using s assms(2,3) by (simp_all add: x1_def y1_def point_scale)
  have le: "uint x1 \<le> mActiveArrayW c" "uint y1 \<le> mActiveArrayH c"
    using 1 scaled_end [of "uint x" 0 "mSensorW c" "mActiveArrayW c"] scaled_end [of "uint y" 0 "mSensorH c" "mActiveArrayH c"]
      s assms(2,3) by simp_all
  have 2: "uint x2 = uint x1 * mSensorW c div mActiveArrayW c" "uint y2 = uint y1 * mSensorH c div mActiveArrayH c"
    using s le by (simp_all add: x2_def y2_def point_scale)
  have "toActiveArray_point c (x, y) = (x1, y1)"
    using s assms(2,3) by (simp add: toActiveArray_point_def not_initialized_def x1_def y1_def word_less_def u)
  moreover have "toSensor_point c (x1, y1) = (x2, y2)"
    using s le by (simp add: toSensor_point_def not_initialized_def x2_def y2_def word_less_def u)
  ultimately show ?thesis
    using le 1 2 s scale_back [of "uint x" "mSensorW c" "mActiveArrayW c"] scale_back [of "uint y" "mSensorH c" "mActiveArrayH c"] by auto
qed

text \<open>The bound of a rectangle that starts behind the edge gives a negative width.\<close>

lemma bound_behind_edge:
  "boundToSize (120, 0, 10, 10) 100 100 = Some (120, 0, -20, 10)"
  by (simp add: boundToSize_def fits_def)

end
