(* ===== verification/PrefixParser.thy ===== *)
theory PrefixParser
  imports Prelude "HOL-Library.Monad_Syntax"
begin

text \<open>
  The prefix parser of the offload HAL, \<open>hardware/data-ipa-cfg-mgr/hal/src/PrefixParser.cpp\<close>: texts like
  \<open>10.0.0.0/8\<close> and \<open>2001:db8::/32\<close> become an address and a mask.

  \<open>inet_pton\<close> of the C library is a parameter: its result and the address it writes, for IPv4 the word in network order
  as a little-endian machine reads it, for IPv6 sixteen bytes. \<open>atoi\<close> is modelled; a number that does not fit an \<open>int\<close>
  is undefined there and gives \<open>None\<close>.
\<close>

section \<open>Data\<close>

datatype ip_fam = V4 | V6 | INVALID

record prefix =
  fam :: ip_fam
  v4Addr :: int32
  v4Mask :: int32
  v6Addr :: "int32 list"
  v6Mask :: "int32 list"

text \<open>The texts the parser can leave in \<open>mLastErr\<close>, with what they print.\<close>

datatype parse_error =
    No_Err
  | String_empty
  | Split_failed string
  | Mask_unparsed int
  | Mask_zero int
  | V4_mask_large int
  | V6_mask_large int
  | Invalid_mask
  | V4_failed string
  | V6_failed string
  | V4_mask_failed int string
  | V6_mask_failed int string

record prefix_parser =
  mPrefixes :: "prefix list"
  mLastErr :: parse_error

record inet =
  inet_pton4 :: "string \<Rightarrow> int \<times> int32"
  inet_pton6 :: "string \<Rightarrow> int \<times> 8 word list"

definition PrefixParser :: prefix_parser where
  "PrefixParser = \<lparr>mPrefixes = [], mLastErr = No_Err\<rparr>"

section \<open>The C library\<close>

definition c_str :: "string \<Rightarrow> string" where
  "c_str s = takeWhile (\<lambda>c. of_char c \<noteq> (0 :: nat)) s"

definition isspace :: "char \<Rightarrow> bool" where
  "isspace c \<longleftrightarrow> of_char c \<in> {9, 10, 11, 12, 13, 32 :: nat}"

definition isdigit :: "char \<Rightarrow> bool" where
  "isdigit c \<longleftrightarrow> of_char c \<in> {48 .. 57 :: nat}"

definition digits_value :: "string \<Rightarrow> int" where
  "digits_value ds = foldl (\<lambda>v c. v * 10 + (of_char c - 48)) 0 ds"

definition atoi :: "string \<Rightarrow> int option" where
  "atoi s = (let s = dropWhile isspace s;
     (sign, s) = (case s of c # cs \<Rightarrow> if c = CHR ''-'' then (-1, cs) else if c = CHR ''+'' then (1, cs) else (1, s) | [] \<Rightarrow> (1, s));
     v = sign * digits_value (takeWhile isdigit s)
   in if - (2 ^ 31) \<le> v \<and> v < 2 ^ 31 then Some v else None)"

text \<open>\<open>htonl32\<close> on a little-endian machine.\<close>

definition htonl32 :: "int32 \<Rightarrow> int32" where
  "htonl32 w = (push_bit 24 (w AND 0xFF)) OR (push_bit 8 (w AND 0xFF00)) OR (drop_bit 8 w AND 0xFF00) OR (drop_bit 24 w AND 0xFF)"

section \<open>Parsing\<close>

definition guessIPFamily :: "string \<Rightarrow> ip_fam" where
  "guessIPFamily s = (if CHR '':'' \<in> set s then V6 else V4)"

text \<open>\<open>find_char c s\<close> is \<open>s.find(c)\<close>, \<open>None\<close> for \<open>npos\<close>; the result is the address and the mask.\<close>

definition find_char :: "char \<Rightarrow> string \<Rightarrow> nat option" where
  "find_char c s = (if c \<in> set s then Some (length (takeWhile (\<lambda>x. x \<noteq> c) s)) else None)"

definition splitIntoAddrAndMask :: "string \<Rightarrow> (string \<times> string) option" where
  "splitIntoAddrAndMask s = (case find_char (CHR ''/'') s of
     None \<Rightarrow> Some (s, [])
   | Some pos \<Rightarrow>
       if pos \<ge> 1
       then Some (take pos s, if pos < length s then drop (pos + 1) s else [])
       else None)"

definition parseSubnetMask :: "string \<Rightarrow> ip_fam \<Rightarrow> int option" where
  "parseSubnetMask s famHint = (if s = [] then Some (if famHint = V6 then 128 else 32) else atoi (c_str s))"

definition isMaskValid :: "int \<Rightarrow> ip_fam \<Rightarrow> prefix_parser \<Rightarrow> bool \<times> prefix_parser" where
  "isMaskValid msk fm p =
     (if msk < 0 then (False, p\<lparr>mLastErr := Mask_unparsed msk\<rparr>)
      else if msk = 0 then (False, p\<lparr>mLastErr := Mask_zero msk\<rparr>)
      else if fm = V4 \<and> msk > 32 then (False, p\<lparr>mLastErr := V4_mask_large msk\<rparr>)
      else if fm = V6 \<and> msk > 128 then (False, p\<lparr>mLastErr := V6_mask_large msk\<rparr>)
      else (True, p))"

definition makeBlankPrefix :: "ip_fam \<Rightarrow> prefix" where
  "makeBlankPrefix famHint = \<lparr>fam = famHint, v4Addr = 0, v4Mask = 0, v6Addr = [0, 0, 0, 0], v6Mask = [0, 0, 0, 0]\<rparr>"

definition parseV4Addr :: "inet \<Rightarrow> string \<Rightarrow> prefix \<Rightarrow> prefix option" where
  "parseV4Addr I s out = (case inet_pton4 I (c_str s) of (rv, s_addr) \<Rightarrow>
     if rv < 0 then None else if rv = 0 then None else Some (out\<lparr>v4Addr := htonl32 s_addr\<rparr>))"

definition be_word :: "8 word list \<Rightarrow> nat \<Rightarrow> int32" where
  "be_word b i = push_bit 24 (ucast (b ! i)) OR push_bit 16 (ucast (b ! (i + 1))) OR push_bit 8 (ucast (b ! (i + 2)))
     OR ucast (b ! (i + 3))"

definition parseV6Addr :: "inet \<Rightarrow> string \<Rightarrow> prefix \<Rightarrow> prefix option" where
  "parseV6Addr I s out = (case inet_pton6 I (c_str s) of (rv, s6_addr) \<Rightarrow>
     if rv < 0 then None else if rv = 0 then None
     else Some (out\<lparr>v6Addr := [be_word s6_addr 0, be_word s6_addr 4, be_word s6_addr 8, be_word s6_addr 12]\<rparr>))"

fun mask_loop :: "nat \<Rightarrow> nat \<Rightarrow> int \<Rightarrow> int32 \<Rightarrow> int32" where
  "mask_loop 0 i msk rv = rv"
| "mask_loop (Suc n) i msk rv =
     mask_loop n (i + 1) msk (if int i < msk then push_bit 1 rv OR 1 else push_bit 1 rv)"

definition createMask :: "int \<Rightarrow> int32" where
  "createMask msk = (if msk \<ge> 32 then NOT 0 else mask_loop 32 0 msk 0)"

definition populateV4Mask :: "int \<Rightarrow> prefix \<Rightarrow> prefix option" where
  "populateV4Mask msk out = (if msk < 0 \<or> msk > 32 then None else Some (out\<lparr>v4Mask := createMask msk\<rparr>))"

definition next_mask :: "int \<Rightarrow> int" where
  "next_mask msk = (if msk > 32 then msk - 32 else 0)"

definition populateV6Mask :: "int \<Rightarrow> prefix \<Rightarrow> prefix option" where
  "populateV6Mask msk out = (if msk < 0 \<or> msk > 128 then None
     else Some (out\<lparr>v6Mask := map (\<lambda>i. createMask ((next_mask ^^ i) msk)) [0..<4]\<rparr>))"

text \<open>
  The second half of \<open>add\<close>: the address and the masks. The test after the masks is an \<open>if\<close> with an \<open>else if\<close>: for IPv4,
  when the IPv4 mask was written, the IPv6 mask is written as well.
\<close>

definition store_prefix :: "inet \<Rightarrow> ip_fam \<Rightarrow> string \<Rightarrow> int \<Rightarrow> prefix_parser \<Rightarrow> bool \<times> prefix_parser" where
  "store_prefix I famHint addr msk p =
     (let pre = makeBlankPrefix famHint in
      case (if famHint = V4 then parseV4Addr I addr pre else parseV6Addr I addr pre) of
        None \<Rightarrow> (False, p\<lparr>mLastErr := if famHint = V4 then V4_failed addr else V6_failed addr\<rparr>)
      | Some pre \<Rightarrow>
          (case (if famHint = V4 then populateV4Mask msk pre else Some pre) of
             None \<Rightarrow> (False, p\<lparr>mLastErr := V4_mask_failed msk addr\<rparr>)
           | Some pre \<Rightarrow>
               (case populateV6Mask msk pre of
                  None \<Rightarrow> (False, p\<lparr>mLastErr := V6_mask_failed msk addr\<rparr>)
                | Some pre \<Rightarrow> (True, p\<lparr>mPrefixes := mPrefixes p @ [pre]\<rparr>))))"

text \<open>\<open>add\<close> of one text; \<open>None\<close> where \<open>atoi\<close> is undefined.\<close>

definition add_text :: "inet \<Rightarrow> ip_fam \<Rightarrow> string \<Rightarrow> prefix_parser \<Rightarrow> (bool \<times> prefix_parser) option" where
  "add_text I famHint s p =
     (if s = [] then Some (False, p\<lparr>mLastErr := String_empty\<rparr>)
      else let famHint = (if famHint = INVALID then guessIPFamily s else famHint) in
        case splitIntoAddrAndMask s of
          None \<Rightarrow> Some (False, p\<lparr>mLastErr := Split_failed s\<rparr>)
        | Some (addr, subnet) \<Rightarrow> do {
            msk \<leftarrow> parseSubnetMask subnet famHint;
            let (valid, p) = isMaskValid msk famHint p;
            Some (if \<not> valid then (False, p\<lparr>mLastErr := Invalid_mask\<rparr>) else store_prefix I famHint addr msk p) })"

text \<open>The loop over a list of texts: it stops at the first that fails.\<close>

fun add_all :: "inet \<Rightarrow> ip_fam \<Rightarrow> string list \<Rightarrow> prefix_parser \<Rightarrow> (bool \<times> prefix_parser) option" where
  "add_all I famHint [] p = Some (True, p)"
| "add_all I famHint (s # ss) p = do {
     (ok, p) \<leftarrow> add_text I famHint s p;
     if \<not> ok then Some (False, p) else add_all I famHint ss p }"

definition add_list :: "inet \<Rightarrow> ip_fam \<Rightarrow> string list \<Rightarrow> prefix_parser \<Rightarrow> (bool \<times> prefix_parser) option" where
  "add_list I famHint ss p = (if ss = [] then Some (False, p) else add_all I famHint ss p)"

text \<open>The public methods: \<open>add\<close>, \<open>addV4\<close> and \<open>addV6\<close> on a text and on a list. \<open>addV6\<close> has a loop of its own.\<close>

datatype prefix_op =
    Add string
  | Adds "string list"
  | AddV4 string
  | AddV4s "string list"
  | AddV6 string
  | AddV6s "string list"

fun prefix_serve :: "inet \<Rightarrow> prefix_op \<Rightarrow> prefix_parser \<Rightarrow> (bool \<times> prefix_parser) option" where
  "prefix_serve I (Add s) p = add_text I INVALID s p"
| "prefix_serve I (Adds ss) p = add_list I INVALID ss p"
| "prefix_serve I (AddV4 s) p = add_text I V4 s p"
| "prefix_serve I (AddV4s ss) p = add_list I V4 ss p"
| "prefix_serve I (AddV6 s) p = add_text I V6 s p"
| "prefix_serve I (AddV6s ss) p = add_all I V6 ss p"

primrec prefix_run :: "inet \<Rightarrow> prefix_op list \<Rightarrow> prefix_parser \<Rightarrow> prefix_parser option" where
  "prefix_run I [] p = Some p"
| "prefix_run I (c # cs) p = do { (_, p) \<leftarrow> prefix_serve I c p; prefix_run I cs p }"

section \<open>Queries\<close>

definition prefix_size :: "prefix_parser \<Rightarrow> nat" where
  "prefix_size p = length (mPrefixes p)"

definition allAreFullyQualified :: "prefix_parser \<Rightarrow> bool" where
  "allAreFullyQualified p = list_all (\<lambda>x.
     if fam x = V4 then v4Addr x AND v4Mask x = v4Addr x
     else list_all (\<lambda>j. v6Addr x ! j AND v6Mask x ! j = v6Addr x ! j) [0..<4]) (mPrefixes p)"

definition getFirstPrefix :: "ip_fam \<Rightarrow> prefix_parser \<Rightarrow> prefix" where
  "getFirstPrefix famHint p = (if prefix_size p \<ge> 1 then mPrefixes p ! 0 else makeBlankPrefix famHint)"

section \<open>Masks\<close>

text \<open>\<open>leading n\<close>: the \<open>n\<close> highest bits.\<close>

definition leading :: "nat \<Rightarrow> int32" where
  "leading n = push_bit (32 - n) (mask n)"

lemma leading_bit: "n \<le> 32 \<Longrightarrow> i < 32 \<Longrightarrow> bit (leading n) i \<longleftrightarrow> 32 - n \<le> i"
  by (auto simp: leading_def bit_push_bit_iff bit_mask_iff)

lemma createMask_small: "\<forall>n \<in> set [0..<33]. createMask (int n) = leading n"
  by code_simp

lemma createMask_leading: "0 \<le> n \<Longrightarrow> createMask n = leading (min 32 (nat n))"
proof (cases "n \<le> 32")
  case True
  then show "0 \<le> n \<Longrightarrow> createMask n = leading (min 32 (nat n))"
    using createMask_small [rule_format, of "nat n"] by simp
next
  case False
  then have "createMask n = createMask (int 32)" by (simp add: createMask_def)
  then show ?thesis using createMask_small [rule_format, of 32] False by simp
qed

definition v6_masks :: "nat \<Rightarrow> int32 list" where
  "v6_masks n = map (\<lambda>i. leading (min 32 (n - 32 * i))) [0..<4]"

lemma next_mask_iter: "0 \<le> n \<Longrightarrow> (next_mask ^^ i) n = int (nat n - 32 * i)"
  by (induction i) (auto simp: next_mask_def)

lemma populateV6Mask_ok: "0 \<le> n \<Longrightarrow> n \<le> 128 \<Longrightarrow> populateV6Mask n out = Some (out\<lparr>v6Mask := v6_masks (nat n)\<rparr>)"
  by (auto simp: populateV6Mask_def v6_masks_def next_mask_iter createMask_leading simp del: upt_Suc)

lemma populateV4Mask_ok: "0 \<le> n \<Longrightarrow> n \<le> 32 \<Longrightarrow> populateV4Mask n out = Some (out\<lparr>v4Mask := leading (nat n)\<rparr>)"
  by (simp add: populateV4Mask_def createMask_leading)

end
