(* ===== verification/PrefixProps.thy ===== *)
theory PrefixProps
  imports PrefixParser
begin

text \<open>
  What the prefix parser stores: \<open>prefix_ok\<close> is the shape of a prefix, \<open>prefix_of\<close> the prefix of an address with a mask of
  \<open>n\<close> bits, and the text of an address with a decimal mask gives exactly that prefix.
\<close>

section \<open>Stored prefixes\<close>

definition prefix_ok :: "prefix \<Rightarrow> bool" where
  "prefix_ok x \<longleftrightarrow> (if fam x = V4
     then (\<exists>n. 1 \<le> n \<and> n \<le> 32 \<and> v4Mask x = leading n \<and> v6Mask x = v6_masks n) \<and> v6Addr x = [0, 0, 0, 0]
     else fam x = V6 \<and> v4Addr x = 0 \<and> v4Mask x = 0 \<and> (\<exists>n. 1 \<le> n \<and> n \<le> 128 \<and> v6Mask x = v6_masks n) \<and> length (v6Addr x) = 4)"

definition bits_of :: "ip_fam \<Rightarrow> nat" where
  "bits_of f = (if f = V4 then 32 else 128)"

definition prefix_of :: "inet \<Rightarrow> ip_fam \<Rightarrow> string \<Rightarrow> nat \<Rightarrow> prefix option" where
  "prefix_of I f addr n = (if f = V4
     then (case inet_pton4 I (c_str addr) of (r, a) \<Rightarrow> if 0 < r
       then Some \<lparr>fam = V4, v4Addr = htonl32 a, v4Mask = leading n, v6Addr = [0, 0, 0, 0], v6Mask = v6_masks n\<rparr> else None)
     else (case inet_pton6 I (c_str addr) of (r, b) \<Rightarrow> if 0 < r
       then Some \<lparr>fam = V6, v4Addr = 0, v4Mask = 0,
         v6Addr = [be_word b 0, be_word b 4, be_word b 8, be_word b 12], v6Mask = v6_masks n\<rparr> else None))"

lemma prefix_of_ok: "prefix_of I f addr n = Some x \<Longrightarrow> 1 \<le> n \<Longrightarrow> n \<le> bits_of f \<Longrightarrow> prefix_ok x"
  by (auto simp: prefix_of_def prefix_ok_def bits_of_def split: if_splits prod.splits)

lemma store_prefix_exact:
  assumes "f \<noteq> INVALID" "1 \<le> n" "nat n \<le> bits_of f"
  shows "store_prefix I f addr n p = (case prefix_of I f addr (nat n) of
      None \<Rightarrow> (False, p\<lparr>mLastErr := if f = V4 then V4_failed addr else V6_failed addr\<rparr>)
    | Some x \<Rightarrow> (True, p\<lparr>mPrefixes := mPrefixes p @ [x]\<rparr>))"
proof (cases "f = V4")
  case True
  then show ?thesis
    using assms by (auto simp: store_prefix_def prefix_of_def parseV4Addr_def populateV4Mask_ok populateV6Mask_ok bits_of_def
        makeBlankPrefix_def split: prod.split)
next
  case False
  then have "f = V6" using assms(1) by (cases f) auto
  then show ?thesis
    using assms by (auto simp: store_prefix_def prefix_of_def parseV6Addr_def populateV6Mask_ok bits_of_def
        makeBlankPrefix_def split: prod.split)
qed

lemma isMaskValid_exact: "f \<noteq> INVALID \<Longrightarrow> fst (isMaskValid n f p) \<longleftrightarrow> 1 \<le> n \<and> nat n \<le> bits_of f"
  by (cases f) (auto simp: isMaskValid_def bits_of_def)

lemma isMaskValid_keeps: "isMaskValid n f p = (v, p') \<Longrightarrow> mPrefixes p' = mPrefixes p \<and> (v \<longrightarrow> p' = p)"
  by (auto simp: isMaskValid_def split: if_splits)

lemma add_text_stores:
  assumes "add_text I f s p = Some (r, p')"
  shows "if r then \<exists>x. prefix_ok x \<and> mPrefixes p' = mPrefixes p @ [x] else mPrefixes p' = mPrefixes p"
proof (cases "s = [] \<or> splitIntoAddrAndMask s = None")
  case True
  then show ?thesis using assms by (auto simp: add_text_def Let_def split: if_splits)
next
  case False
  define g where "g = (if f = INVALID then guessIPFamily s else f)"
  have g: "g \<noteq> INVALID" by (simp add: g_def guessIPFamily_def)
  obtain addr subnet n v p1 where a: "splitIntoAddrAndMask s = Some (addr, subnet)" "parseSubnetMask subnet g = Some n"
    "isMaskValid n g p = (v, p1)"
    "(r, p') = (if \<not> v then (False, p1\<lparr>mLastErr := Invalid_mask\<rparr>) else store_prefix I g addr n p1)"
    using assms False unfolding add_text_def Let_def g_def [symmetric]
    by (auto split: option.splits prod.splits Option.bind_splits)
  note k = isMaskValid_keeps [OF a(3)]
  show ?thesis
  proof (cases v)
    case True
    then have n: "1 \<le> n" "nat n \<le> bits_of g" using isMaskValid_exact [OF g, of n p] a(3) by simp_all
    then show ?thesis
      using a(4) True k store_prefix_exact [OF g n, of I addr p1] prefix_of_ok [of I g addr "nat n"]
      by (auto split: option.splits)
  next
    case False
    then show ?thesis using a(4) k by simp
  qed
qed

lemma add_one_ok: "add_text I f s p = Some (r, p') \<Longrightarrow> list_all prefix_ok (mPrefixes p) \<Longrightarrow> list_all prefix_ok (mPrefixes p')"
  by (drule add_text_stores) (auto split: if_splits)

lemma add_all_ok: "add_all I f ss p = Some (r, p') \<Longrightarrow> list_all prefix_ok (mPrefixes p) \<Longrightarrow> list_all prefix_ok (mPrefixes p')"
proof (induction I f ss p rule: add_all.induct)
  case (2 I f s ss p)
  then obtain b p1 where b: "add_text I f s p = Some (b, p1)" by (auto split: Option.bind_splits)
  have "list_all prefix_ok (mPrefixes p1)" using add_one_ok [OF b] 2(3) by simp
  then show ?case using 2 b by (auto split: if_splits)
qed simp

lemma serve_ok: "prefix_serve I c p = Some (r, p') \<Longrightarrow> list_all prefix_ok (mPrefixes p) \<Longrightarrow> list_all prefix_ok (mPrefixes p')"
  by (cases c) (auto simp: add_list_def intro: add_one_ok add_all_ok split: if_splits)

text \<open>
  C19: Stored prefixes are well formed. Whatever texts a parser was given, with whatever hints, each prefix it holds is of one of the two
  families, its mask is a run of 1 to 32 or 1 to 128 leading bits, never another pattern, and the fields of the other family's address
  are zero.
\<close>
theorem prefixes_well_formed:
  assumes "prefix_run I cs PrefixParser = Some p"
  shows "list_all prefix_ok (mPrefixes p)"
proof -
  have "prefix_run I cs q = Some p \<Longrightarrow> list_all prefix_ok (mPrefixes q) \<Longrightarrow> list_all prefix_ok (mPrefixes p)" for q
  proof (induction cs arbitrary: q)
    case (Cons c cs)
    then obtain r q' where "prefix_serve I c q = Some (r, q')" "prefix_run I cs q' = Some p"
      by (auto split: Option.bind_splits)
    then show ?case using Cons serve_ok by blast
  qed simp
  then show ?thesis using assms by (simp add: PrefixParser_def)
qed

text \<open>The witness: 10.0.0.0/8, and a parser that inet_pton serves with the address 10.0.0.0 only.\<close>

definition demo_inet :: inet where
  "demo_inet = \<lparr>inet_pton4 = (\<lambda>s. if s = ''10.0.0.0'' then (1, 0x0000000A) else (0, 0)), inet_pton6 = (\<lambda>_. (0, []))\<rparr>"

definition ten_slash_8 :: prefix where
  "ten_slash_8 = \<lparr>fam = V4, v4Addr = 0x0A000000, v4Mask = 0xFF000000, v6Addr = [0, 0, 0, 0], v6Mask = [0xFF000000, 0, 0, 0]\<rparr>"

lemma demo_prefix: "prefix_of demo_inet V4 ''10.0.0.0'' 8 = Some ten_slash_8"
  by code_simp

theorem prefixes_well_formed_witness:
  "\<exists>p. prefix_run demo_inet [Add ''10.0.0.0/8'', AddV6 ''/1''] PrefixParser = Some p \<and> mPrefixes p = [ten_slash_8] \<and> prefix_ok ten_slash_8"
proof -
  have p: "prefix_run demo_inet [Add ''10.0.0.0/8'', AddV6 ''/1''] PrefixParser =
      Some \<lparr>mPrefixes = [ten_slash_8], mLastErr = Split_failed ''/1''\<rparr>" by code_simp
  then show ?thesis using prefixes_well_formed [OF p] by simp
qed

section \<open>The text of a prefix\<close>

fun decimal :: "nat \<Rightarrow> string" where
  "decimal n = (if n < 10 then [] else decimal (n div 10)) @ [char_of (48 + n mod 10)]"

declare decimal.simps [simp del]

lemma of_digit: "k < 10 \<Longrightarrow> of_char (char_of (48 + k :: nat)) = (48 + k :: nat)"
  by simp

lemma of_char_int: "(of_char c :: int) = int (of_char c)"
  by (simp add: of_nat_of_char)

lemma decimal_digits: "\<forall>c \<in> set (decimal n). isdigit c"
  by (induction n rule: decimal.induct, subst decimal.simps) (auto simp: isdigit_def of_digit)

lemma digits_decimal: "digits_value (decimal n) = int n"
proof (induction n rule: decimal.induct)
  case (1 n)
  have d: "digits_value (xs @ [char_of (48 + n mod 10)]) = digits_value xs * 10 + int (n mod 10)" for xs
    using of_digit [of "n mod 10"] by (simp add: digits_value_def of_char_int)
  have e: "int (n div 10) * 10 + int (n mod 10) = int n" by (metis div_mult_mod_eq of_nat_add of_nat_mult of_nat_numeral)
  show ?case
  proof (cases "n < 10")
    case True
    then show ?thesis using d [of "[]"] by (subst decimal.simps) (simp add: digits_value_def)
  next
    case False
    then have "digits_value (decimal n) = digits_value (decimal (n div 10)) * 10 + int (n mod 10)"
      using d by (subst decimal.simps) simp
    then show ?thesis using 1 [OF False] e by (simp only:)
  qed
qed

lemma digit_not: "isdigit c \<Longrightarrow> \<not> isspace c \<and> c \<noteq> CHR ''-'' \<and> c \<noteq> CHR ''+'' \<and> c \<noteq> CHR '':'' \<and> of_char c \<noteq> (0 :: nat)"
  by (auto simp: isdigit_def isspace_def)

lemma decimal_not_Nil [simp]: "decimal n \<noteq> []"
  by (subst decimal.simps) simp

lemma decimal_chars: "CHR '':'' \<notin> set (decimal n)"
  using decimal_digits digit_not by blast

lemma atoi_decimal:
  assumes "n \<le> 128"
  shows "atoi (c_str (decimal n)) = Some (int n)"
proof -
  have "c_str (decimal n) = decimal n" unfolding c_str_def using decimal_digits digit_not by (auto intro!: takeWhile_eq_all_conv [THEN iffD2])
  moreover have "takeWhile isdigit (decimal n) = decimal n" using decimal_digits by (auto intro!: takeWhile_eq_all_conv [THEN iffD2])
  moreover obtain c cs where "decimal n = c # cs" using decimal_not_Nil by (cases "decimal n") auto
  moreover have "isdigit c" "takeWhile isdigit cs = cs" using calculation(2,3) decimal_digits [of n] by simp_all
  ultimately show ?thesis using digit_not [of c] digits_decimal [of n] assms by (simp add: atoi_def Let_def del: takeWhile_eq_all_conv)
qed

lemma split_text: "CHR ''/'' \<notin> set addr \<Longrightarrow> addr \<noteq> [] \<Longrightarrow> splitIntoAddrAndMask (addr @ CHR ''/'' # m) = Some (addr, m)"
  by (simp add: splitIntoAddrAndMask_def find_char_def takeWhile_append Suc_le_eq)

lemma split_plain: "CHR ''/'' \<notin> set addr \<Longrightarrow> splitIntoAddrAndMask addr = Some (addr, [])"
  by (simp add: splitIntoAddrAndMask_def find_char_def)

lemma parse_decimal: "n \<le> 128 \<Longrightarrow> parseSubnetMask (decimal n) f = Some (int n)"
  by (simp add: parseSubnetMask_def atoi_decimal)



section \<open>Byte order and lists\<close>

text \<open>The IPv4 address stored is the number whose highest byte is the first of the address.\<close>

lemma htonl32_bytes:
  "htonl32 (push_bit 24 (ucast d) OR push_bit 16 (ucast c) OR push_bit 8 (ucast b) OR ucast (a :: 8 word)) = be_word [a, b, c, d] 0"
proof -
  have m: "(0xFF :: int32) = mask 8" "(0xFF00 :: int32) = push_bit 8 (mask 8)" by (simp_all add: mask_eq_exp_minus_1)
  show ?thesis
  proof (rule bit_word_eqI)
    fix n assume "n < LENGTH(32)"
    then consider "n < 8" | "8 \<le> n" "n < 16" | "16 \<le> n" "n < 24" | "24 \<le> n" "n < 32" by force
    then show "bit (htonl32 (push_bit 24 (ucast d) OR push_bit 16 (ucast c) OR push_bit 8 (ucast b) OR ucast a)) n = bit (be_word [a, b, c, d] 0) n"
      unfolding htonl32_def be_word_def m
      by cases (simp_all add: bit_or_iff bit_and_iff bit_push_bit_iff bit_drop_bit_eq bit_mask_iff bit_ucast_iff
          not_le, (auto dest: bit_imp_le_length)?)
  qed
qed

text \<open>A list that fails keeps the prefixes of the texts before the one that failed.\<close>

lemma failed_list_keeps:
  "add_all I f ss p = Some (False, p') \<Longrightarrow>
   \<exists>k < length ss. \<exists>q. add_all I f (take k ss) p = Some (True, q) \<and> mPrefixes p' = mPrefixes q"
proof (induction I f ss p rule: add_all.induct)
  case (2 I f s ss p)
  then obtain b p1 where b: "add_text I f s p = Some (b, p1)" by (auto split: Option.bind_splits)
  show ?case
  proof (cases b)
    case True
    then have "\<exists>k < length ss. \<exists>q. add_all I f (take k ss) p1 = Some (True, q) \<and> mPrefixes p' = mPrefixes q"
      using 2(1) [of "(b, p1)" b p1] 2(2) b by simp
    then obtain k q where "k < length ss" "add_all I f (take k ss) p1 = Some (True, q)" "mPrefixes p' = mPrefixes q" by blast
    then show ?thesis using b True by (intro exI [of _ "Suc k"]) auto
  next
    case False
    then show ?thesis using 2(2) b add_text_stores [OF b] by (intro exI [of _ 0]) auto
  qed
qed simp

text \<open>An empty list fails, but for addV6.\<close>

lemma empty_lists: "prefix_serve I (Adds []) p = Some (False, p)" "prefix_serve I (AddV4s []) p = Some (False, p)"
  "prefix_serve I (AddV6s []) p = Some (True, p)"
  by (simp_all add: add_list_def)

end
