(* ===== verification/Spec2Isabelle.thy ===== *)
theory Spec2Isabelle
  imports Prelude CamQueue StateMachine SmTheorems SmThread HwiApi LocHeap LocTimer Agps AgpsProps RuleStore NatWords NatDriver NatChain NatTables NatRefine NatAdd NatDelete NatLife NatProps RuleSlots NatSlots NatApp NatAppInv NatAppSpec NatAppOps NatAppEntries NatAppWait NatAppProps CtListener CtInv CtProps LocList MsgQ MsgQInv MsgQProps LocThread LocTimerLife LocTimerInv LocTimerWait LocTimerProps SensorQueue MultiHal MultiPoll MultiPollInv MultiHalProps CropMapper PrefixParser PrefixProps
begin

text \<open>
  Verification library for the native code of the device tree: the camera hardware abstraction layer, the location
  stack and the packet accelerator's configuration. Paths are relative to the repository.

  \<^bold>\<open>The program.\<close> The tree holds the vendor code of a tablet. The camera HAL (\<open>hardware/camera/QCamera2\<close>)
  gives the camera framework a C interface; every call becomes an event of a state machine that runs on its own thread
  and drives the parent object \<open>QCamera2HardwareInterface\<close>. The location stack (\<open>hardware/gps\<close>) passes
  messages between its threads, keeps timers in a heap and requests mobile data connections for assisted positioning. The sensor HAL
  (\<open>hardware/sensors\<close>) puts several sensor modules behind one device. The packet
  accelerator's user space (\<open>hardware/data-ipa-cfg-mgr\<close>) translates addresses in hardware: a driver library lays the
  rules out in shared memory, and a connection manager decides which connections of the kernel become rules.

  \<^bold>\<open>Camera.\<close>
  \<^item> \<open>CamQueue\<close>: \<open>util/QCameraQueue.cpp\<close>, the locked queue; every method, \<open>malloc\<close>'s success an
    argument. It shows the counter exact, first-in first-out order, exact flushes and matches.
  \<^item> \<open>SmBase\<close>: \<open>HAL/QCameraStateMachine.h\<close>, events, payloads, results, the machine's fields, and the
    parent as a record of functions (\<open>hwi\<close>), so that a handler is proved right for every parent. Effects are
    kept in a history \<open>trace\<close>.
  \<^item> \<open>SmStopped\<close>, \<open>SmPreviewing\<close>, \<open>SmCapture\<close>, \<open>SmRecording\<close>: the eight
    \<open>procEvt...State\<close> handlers of \<open>HAL/QCameraStateMachine.cpp\<close>, a definition for each group of
    consecutive cases. \<open>StateMachine\<close> is the dispatch and the runs; \<open>SmSpec\<close> and \<open>SmProtocol\<close> prove what
    every handler meets (answers, refusals, abstract state graph, calls, lock, delayed messages), and
    \<open>SmTheorems\<close> states the properties.
  \<^item> \<open>SmThread\<close>: \<open>procAPI\<close>, \<open>procEvt\<close>, \<open>releaseThread\<close>, \<open>smEvtProcRoutine\<close> over the queues and
    the semaphore of \<open>cam_semaphore.h\<close>, as an interleaving step relation. It shows that any interleaving is
    sequential handling, that no wakeup is lost, and how the worker ends. A waiting worker needs at most 3 steps for a
    queued request and 4 for a queued event; \<open>worker_turn\<close> runs it for four steps per count of its semaphore
    and four more, so its fuel never ends first.
  \<^item> \<open>HwiApi\<close>: the entry points of \<open>HAL/QCamera2HWI.cpp\<close> with the result list of
    \<open>processAPI\<close>, \<open>waitAPIResult\<close> and \<open>signalAPIResult\<close>. A call is a function to an option,
    \<open>None\<close> when its client stays blocked.

  \<^bold>\<open>Location.\<close>
  \<^item> \<open>LocHeap\<close>: \<open>gps/utils/LocHeap.cpp\<close>, the ranked tree; its contract for \<open>outRanks\<close> is the
    locale \<open>rankable\<close>. Contents, order, sizes and balance.
  \<^item> \<open>LocTimer\<close>: ranks, times, the container of \<open>gps/utils/LocTimer.cpp\<close> and its kernel timer.
  \<^item> \<open>LocTimerLife\<close>, \<open>LocTimerInv\<close>, \<open>LocTimerWait\<close>, \<open>LocTimerProps\<close>: the rest of that file, clients, delegates,
    the lock they share (\<open>LocSharedLock.h\<close>), the polling thread and the thread that expires timers, as an interleaving
    step relation over the container of \<open>LocTimer\<close>. Nothing is used after it was deleted, a started timer is answered
    once, and no running timer is forgotten. \<open>work\<close> bounds the steps after which the thread waits: 6 for a pending
    push, 1 for another message, 5 for a timer in a heap, and up to 5 for where it stands. A client is not deleted while
    the thread is about to call it; the code relies on that and does not ensure it.
  \<^item> \<open>Agps\<close>, \<open>AgpsProps\<close>: all of \<open>gps/gnss/Agps.cpp\<close>. The virtual methods of the state machine are the
    locale \<open>agps_virtual\<close>, interpreted for the base and the data service machine.
  \<^item> \<open>LocList\<close>: \<open>gps/utils/linked_list.c\<close>, the doubly linked list on an explicit store of elements, so that a bad
    pointer, a double free and a leak show. Every run of operations refines a sequence.
  \<^item> \<open>MsgQ\<close>, \<open>MsgQInv\<close>, \<open>MsgQProps\<close>: \<open>gps/utils/msg_q.c\<close> over that list, with its mutex and condition, and the use
    \<open>MsgTask.cpp\<close> makes of it: messages are conserved and ordered, no wake-up is lost, unblocking frees every receiver.
  \<^item> \<open>LocThread\<close>: \<open>gps/utils/LocThread.cpp\<close>, the object that a thread and its client share: nothing is used after it was
    deleted, and a thread that was stopped ends within ten of its steps.

  \<^bold>\<open>Sensors.\<close>
  \<^item> \<open>SensorQueue\<close>: \<open>sensors/SensorEventQueue.cpp\<close>, the ring of events; what its writer and its reader rely on are the
    locales \<open>event_source\<close> and \<open>event_ring\<close>, interpreted on the ring.
  \<^item> \<open>MultiHal\<close>: the handles, the sensor list, opening and the calls of \<open>sensors/multihal.cpp\<close>. \<open>MultiPoll\<close>: its writer
    threads and \<open>poll\<close> as an interleaving step relation, in which a device fills its buffer slot by slot outside the lock.
  \<^item> \<open>MultiPollInv\<close>, \<open>MultiHalProps\<close>: events are conserved and ordered, nobody sleeps through one, \<open>poll\<close> returns; handles
    are well formed and calls reach their owner, unless a module failed to open.

  \<^bold>\<open>Coordinates.\<close> \<open>CropMapper\<close>: \<open>HAL3/QCamera3CropRegionMapper.cpp\<close>, on 32-bit integers whose overflow is \<open>None\<close>; the
  bounds hold for arrays up to 46340 pixels wide, whose products with a coordinate fit 31 bits.

  \<^bold>\<open>Prefixes.\<close> \<open>PrefixParser\<close>, \<open>PrefixProps\<close>: \<open>data-ipa-cfg-mgr/hal/src/PrefixParser.cpp\<close>: which texts are accepted, and that
  what is stored is an address with a run of leading mask bits.

  \<^bold>\<open>Packet accelerator\<close> (paths below \<open>hardware/data-ipa-cfg-mgr\<close>).
  \<^item> \<open>NatWords\<close>: the layouts of a NAT rule, bit fields, sizes, hashes and checksum differences of
    \<open>ipanat/src/ipa_nat_drvi.c\<close> and \<open>ipanat/inc/*.h\<close>, at their widths. Layouts agree, checksums are exact.
  \<^item> \<open>NatDriver\<close>: every operation of \<open>ipa_nat_drvi.c\<close> and of the interface \<open>ipa_nat_drv.c\<close> on the
    cache, the memory shared with the hardware, the handles. An operation gives \<open>None\<close> for an access outside an
    array or the mapping and for an endless walk of a chain (\<open>chain_end\<close> is a \<open>partial_function\<close>). Calls of
    the kernel and of \<open>malloc\<close> take their answers from a list; the kernel's DMA is a parameter with the contract
    \<open>dma_contract\<close>: commands inside the tables are carried out in order.
  \<^item> \<open>NatChain\<close>, \<open>NatTables\<close>: hash chains in an expansion table, and the invariant of the rule tables,
    the index tables and the handles, as functions of one index. \<open>NatRefine\<close> relates each step of the code to
    them; \<open>NatAdd\<close> and \<open>NatDelete\<close> prove the two operations, \<open>NatLife\<close> creation and deletion of the table.
  \<^item> \<open>RuleStore\<close>: the contract of a store of rules with handles, a locale; \<open>NatProps\<close> interprets it on the
    driver and states its properties. The bound of 20480 rules keeps every index offset within its 16 bits.
  \<^item> \<open>RuleSlots\<close>: a client's table of slots that agrees with a rule store, and stores that accept the deletion of every
    handle in use, the locale \<open>closed_store\<close>; \<open>NatSlots\<close> interprets it on the driver.
  \<^item> \<open>NatApp\<close>: \<open>ipacm/src/IPACM_Conntrack_NATApp.cpp\<close>, the cache of connections over the driver, every
    operation. \<open>NatAppInv\<close> holds its invariant \<open>app_ok\<close>: the enabled entries are exactly the rules in the hardware, under
    their handles. \<open>NatAppSpec\<close>, \<open>NatAppOps\<close>, \<open>NatAppEntries\<close> and \<open>NatAppWait\<close> prove for each operation that it keeps
    the invariant and what it does to each entry; \<open>NatAppProps\<close> states the properties.
  \<^item> \<open>CtListener\<close>: \<open>ipacm/src/IPACM_ConntrackListener.cpp\<close>, from the events of the network and of connection
    tracking to calls of \<open>NatApp\<close>. \<open>CtInv\<close> proves that every call keeps \<open>listener_ok\<close>, which ties the table to the WAN
    interface; \<open>CtProps\<close> states what any run of calls leaves in the hardware, and what failed calls leave.

  \<^bold>\<open>Interfaces.\<close> \<open>SmThread\<close> and \<open>HwiApi\<close> run the handlers of \<open>StateMachine\<close>, \<open>SmThread\<close> over the
  queues of \<open>CamQueue\<close>; \<open>LocTimer\<close> interprets \<open>rankable\<close> on its timers, \<open>NatProps\<close> interprets \<open>rule_store\<close> and \<open>NatSlots\<close>
  \<open>closed_store\<close> on the driver, on whose facts \<open>NatAppInv\<close> rests. \<open>MsgQ\<close> runs over \<open>LocList\<close>, and \<open>MultiPoll\<close> over
  \<open>SensorQueue\<close> through the interpretation of \<open>event_ring\<close>, with the devices and handles of \<open>MultiHal\<close>.

  \<^bold>\<open>Assumptions.\<close> \<open>pthread\<close> calls on initialised objects return 0; a lock protects what the code
  protects with it, so that an operation under it is one step; \<open>malloc\<close> and kernel calls answer as an argument of
  the model says. \<open>HwiApi\<close> has one client at a time. Adapter callbacks and the data service client of
  \<open>Agps\<close> are an environment that answers arbitrarily. The invariants of the cache and of the listener hold while the
  calls outside succeed (\<open>willing\<close>); what a failure does is stated by theorems of its own. Events reach the listener
  from one thread, and a turn of the thread that reads time stamps is one step. A sleeper on a condition may
  wake for no reason; \<open>malloc_ok\<close> says that new memory is not in use; a sensor device returns at most as many events as
  its buffer holds and always lists the same sensors.

  \<^bold>\<open>Not modelled.\<close> Logging, dumps and properties read for debugging. Of the camera: streams, channels,
  buffers, callbacks, parameters, the post-processor, HAL3, the kernel interfaces under \<open>stack\<close>: code whose work
  is calls into the kernel and vendor libraries that the tree does not hold. Of the timers: the creation of
  the two tasks and of their descriptors, which are never deleted. Of the location stack: the adapter and the location API, which pass each call on as a
  message to the modem's interface, the system status, which stores reports by kind, and the NMEA writer, which is formats of \<open>snprintf\<close>.
  Of the accelerator: the driver's dumps; of the
  connection manager everything but the cache and the listener, that is the interfaces, filters and routing, which are
  ioctls and netlink messages, the sockets and filters of \<open>IPACM_ConntrackClient\<close>, the parsers that only print, and the
  code for builds without \<open>FEATURE_IPACM_HAL\<close> or with \<open>CT_OPT\<close>; of the offload HAL everything but the parser of prefixes. The wait for
  the socket file when the sensors are opened. The light HAL, which writes numbers to files of the kernel.
\<close>

end
